(* ===== verification/H264_Prelude.thy ===== *)
theory H264_Prelude
  imports Main "HOL-Library.Word"
begin

text \<open>
  Shared ground of the development: the errors the Go code returns, the state-and-error
  computations that model methods on pointer receivers, Go's fixed-width signed arithmetic, and
  a weakest-precondition calculus with which the components prove what their parsers guarantee.

  A Go function that mutates a struct through a pointer and returns \<open>(value, error)\<close> is a
  function \<open>'s \<Rightarrow> (goerror + 'a) \<times> 's\<close>: the state is passed explicitly and is there on the
  error branch too, because Go keeps the mutations made before a \<open>return err\<close>.
\<close>

unbundle bit_operations_syntax

named_theorems wp_simps "weakest-precondition equations for the control operators"
named_theorems wp_rules "weakest-precondition rules for the operations of the components"

section \<open>Errors and results\<close>

text \<open>
  The two sentinels of \<open>errors.go\<close>; \<open>Panic\<close> is the Go run-time panic of an index or slice
  expression out of range (or of a nil dereference), which no Go code here returns: the safety
  theorems show that it does not occur.
\<close>

datatype goerror = ErrInvalidData | ErrUnsupported | Panic

type_synonym 'a result = "goerror + 'a"

type_synonym u8 = "8 word"
type_synonym u16 = "16 word"
type_synonym u32 = "32 word"
type_synonym bytes = "8 word list"

abbreviation OK :: "'a \<Rightarrow> 'a result" where "OK \<equiv> Inr"
abbreviation Fail :: "goerror \<Rightarrow> 'a result" where "Fail \<equiv> Inl"

definition rbind :: "'a result \<Rightarrow> ('a \<Rightarrow> 'b result) \<Rightarrow> 'b result" where
  "rbind r f = (case r of Inl e \<Rightarrow> Inl e | Inr a \<Rightarrow> f a)"

lemma rbind_simps [simp]: "rbind (Inl e) f = Inl e" "rbind (Inr a) f = f a"
  by (simp_all add: rbind_def)

lemma rbind_eq_Inr: "rbind r f = Inr b \<longleftrightarrow> (\<exists>a. r = Inr a \<and> f a = Inr b)"
  by (cases r) auto

lemma rbind_eq_Inl: "rbind r f = Inl e \<longleftrightarrow> r = Inl e \<or> (\<exists>a. r = Inr a \<and> f a = Inl e)"
  by (cases r) auto

definition no_panic :: "'a result \<Rightarrow> bool" where
  "no_panic r \<longleftrightarrow> r \<noteq> Inl Panic"

lemma no_panic_simps [simp]:
  "no_panic (Inr a)" "no_panic (Inl ErrInvalidData)" "no_panic (Inl ErrUnsupported)"
  "\<not> no_panic (Inl Panic)"
  by (simp_all add: no_panic_def)

section \<open>Go's signed integers\<close>

text \<open>
  \<open>int32\<close> values are HOL integers kept in range by an explicit wrap after every operation that
  can leave the range; \<open>uint32\<close>, \<open>uint16\<close> and \<open>uint8\<close> values are words.
\<close>

definition i32 :: "int \<Rightarrow> int" where
  "i32 x = (x + 2147483648) mod 4294967296 - 2147483648"

abbreviation MaxInt32 :: int where "MaxInt32 \<equiv> 2147483647"
abbreviation MinInt32 :: int where "MinInt32 \<equiv> - 2147483648"
abbreviation maxInt :: int where "maxInt \<equiv> 9223372036854775807"

definition in_i32 :: "int \<Rightarrow> bool" where
  "in_i32 x \<longleftrightarrow> MinInt32 \<le> x \<and> x \<le> MaxInt32"

lemma i32_id: "MinInt32 \<le> x \<Longrightarrow> x \<le> MaxInt32 \<Longrightarrow> i32 x = x"
  by (simp add: i32_def)

lemma i32_range: "MinInt32 \<le> i32 x" "i32 x \<le> MaxInt32"
  by (simp_all add: i32_def)

lemma i32_in [simp]: "in_i32 (i32 x)"
  using i32_range by (simp add: in_i32_def)

lemma i32_i32 [simp]: "i32 (i32 x) = i32 x"
  by (simp add: i32_id i32_range)

text \<open>The unsigned value of a word is read as a natural number throughout.\<close>

declare of_nat_unat [simp del]
declare uint_nat [simp]

lemma word_of_nat_unat [simp]: "word_of_nat (unat (w :: 'a::len word)) = w"
  by (simp add: of_nat_unat)

text \<open>\<open>uint32(v)\<close> of an \<open>int32\<close>, and \<open>int32(w)\<close> of a \<open>uint32\<close>.\<close>

definition u32_of :: "int \<Rightarrow> u32" where
  "u32_of x = word_of_int x"

definition i32_of :: "u32 \<Rightarrow> int" where
  "i32_of w = sint w"

lemma i32_of_in [simp]: "in_i32 (i32_of w)"
  using sint_range_size [of w] by (simp add: in_i32_def i32_of_def word_size)

lemma i32_of_small:
  assumes "unat w < 2 ^ 31"
  shows "i32_of w = int (unat w)"
proof -
  have "int (unat w) < int (2 ^ 31)" using assms by (simp only: of_nat_less_iff)
  then have "signed_take_bit 31 (int (unat w)) = int (unat w)"
    by (intro signed_take_bit_int_eq_self) simp_all
  then show ?thesis by (simp add: i32_of_def sint_uint)
qed

section \<open>State-and-error computations\<close>

type_synonym ('s, 'a) go = "'s \<Rightarrow> 'a result \<times> 's"

definition ret :: "'a \<Rightarrow> ('s, 'a) go" where
  "ret a s = (Inr a, s)"

definition fail :: "goerror \<Rightarrow> ('s, 'a) go" where
  "fail e s = (Inl e, s)"

text \<open>\<open>x, err := m(); if err != nil { return err }\<close> followed by the rest \<open>f x\<close>.\<close>

definition bnd :: "('s, 'a) go \<Rightarrow> ('a \<Rightarrow> ('s, 'b) go) \<Rightarrow> ('s, 'b) go" where
  "bnd m f s = (case m s of (Inl e, s') \<Rightarrow> (Inl e, s') | (Inr a, s') \<Rightarrow> f a s')"

definition thn :: "('s, unit) go \<Rightarrow> ('s, 'b) go \<Rightarrow> ('s, 'b) go" where
  "thn m m' = bnd m (\<lambda>_. m')"

definition gets :: "('s \<Rightarrow> 'a) \<Rightarrow> ('s, 'a) go" where
  "gets f s = (Inr (f s), s)"

definition upd :: "('s \<Rightarrow> 's) \<Rightarrow> ('s, unit) go" where
  "upd f s = (Inr (), f s)"

definition whenM :: "bool \<Rightarrow> ('s, unit) go \<Rightarrow> ('s, unit) go" where
  "whenM c m = (if c then m else ret ())"

text \<open>A check the code makes, with the error it returns when it fails.\<close>

definition require :: "bool \<Rightarrow> goerror \<Rightarrow> ('s, unit) go" where
  "require c e = (if c then ret () else fail e)"

definition lift :: "'a result \<Rightarrow> ('s, 'a) go" where
  "lift r s = (r, s)"

fun forM :: "'a list \<Rightarrow> ('a \<Rightarrow> ('s, unit) go) \<Rightarrow> ('s, unit) go" where
  "forM [] f = ret ()"
| "forM (x # xs) f = thn (f x) (forM xs f)"

fun mapM :: "('a \<Rightarrow> ('s, 'b) go) \<Rightarrow> 'a list \<Rightarrow> ('s, 'b list) go" where
  "mapM f [] = ret []"
| "mapM f (x # xs) = bnd (f x) (\<lambda>y. bnd (mapM f xs) (\<lambda>ys. ret (y # ys)))"

text \<open>Running another computation on error, with the state the failed one left.\<close>

definition catch :: "('s, 'a) go \<Rightarrow> (goerror \<Rightarrow> ('s, 'a) go) \<Rightarrow> ('s, 'a) go" where
  "catch m h s = (case m s of (Inl e, s') \<Rightarrow> h e s' | (Inr a, s') \<Rightarrow> (Inr a, s'))"

section \<open>Arrays\<close>

text \<open>Indexing a Go array or slice: out of range is a panic.\<close>

definition idx :: "'a list \<Rightarrow> nat \<Rightarrow> 'a result" where
  "idx xs i = (if i < length xs then Inr (xs ! i) else Inl Panic)"

definition set_idx :: "'a list \<Rightarrow> nat \<Rightarrow> 'a \<Rightarrow> 'a list result" where
  "set_idx xs i v = (if i < length xs then Inr (xs[i := v]) else Inl Panic)"

lemma idx_simps [simp]:
  "i < length xs \<Longrightarrow> idx xs i = Inr (xs ! i)"
  "\<not> i < length xs \<Longrightarrow> idx xs i = Inl Panic"
  by (simp_all add: idx_def)

lemma set_idx_simps [simp]:
  "i < length xs \<Longrightarrow> set_idx xs i v = Inr (xs[i := v])"
  "\<not> i < length xs \<Longrightarrow> set_idx xs i v = Inl Panic"
  by (simp_all add: set_idx_def)

section \<open>Weakest preconditions\<close>

text \<open>
  \<open>wp m Q E s\<close>: started in \<open>s\<close>, the computation either returns a value for which \<open>Q\<close> holds
  of the value and the final state, or an error for which \<open>E\<close> holds. Every computation is a
  total function, so this is total correctness.
\<close>

definition wp :: "('s, 'a) go \<Rightarrow> ('a \<Rightarrow> 's \<Rightarrow> bool) \<Rightarrow> (goerror \<Rightarrow> 's \<Rightarrow> bool) \<Rightarrow> 's \<Rightarrow> bool" where
  "wp m Q E s = (case m s of (Inr a, s') \<Rightarrow> Q a s' | (Inl e, s') \<Rightarrow> E e s')"

lemma wp_ret [wp_simps]: "wp (ret a) Q E s = Q a s"
  by (simp add: wp_def ret_def)

lemma wp_fail [wp_simps]: "wp (fail e) Q E s = E e s"
  by (simp add: wp_def fail_def)

lemma wp_bnd [wp_simps]: "wp (bnd m f) Q E s = wp m (\<lambda>a. wp (f a) Q E) E s"
  by (auto simp: wp_def bnd_def split: prod.splits sum.splits)

lemma wp_thn [wp_simps]: "wp (thn m m') Q E s = wp m (\<lambda>_. wp m' Q E) E s"
  by (simp add: thn_def wp_bnd)

lemma wp_gets [wp_simps]: "wp (gets f) Q E s = Q (f s) s"
  by (simp add: wp_def gets_def)

lemma wp_upd [wp_simps]: "wp (upd f) Q E s = Q () (f s)"
  by (simp add: wp_def upd_def)

lemma wp_whenM [wp_simps]: "wp (whenM c m) Q E s = (if c then wp m Q E s else Q () s)"
  by (simp add: whenM_def wp_ret)

lemma wp_require [wp_simps]: "wp (require c e) Q E s = (if c then Q () s else E e s)"
  by (simp add: require_def wp_ret wp_fail)

lemma wp_lift [wp_simps]: "wp (lift r) Q E s = (case r of Inr a \<Rightarrow> Q a s | Inl e \<Rightarrow> E e s)"
  by (auto simp: wp_def lift_def split: sum.splits)

lemma wp_catch [wp_simps]: "wp (catch m h) Q E s = wp m Q (\<lambda>e. wp (h e) Q E) s"
  by (auto simp: wp_def catch_def split: prod.splits sum.splits)

lemma wp_if [wp_simps]: "wp (if c then m else m') Q E s = (if c then wp m Q E s else wp m' Q E s)"
  by simp

lemma wp_conj_mono:
  assumes "wp m Q E s"
    and "\<And>a s'. Q a s' \<Longrightarrow> Q' a s'" and "\<And>e s'. E e s' \<Longrightarrow> E' e s'"
  shows "wp m Q' E' s"
  using assms by (auto simp: wp_def split: prod.splits sum.splits)

text \<open>The loop rule: an invariant indexed by the items still to come.\<close>

lemma wp_forM:
  assumes "I xs s"
    and "\<And>x ys s. I (x # ys) s \<Longrightarrow> wp (f x) (\<lambda>_. I ys) E s"
    and "\<And>s. I [] s \<Longrightarrow> Q () s"
  shows "wp (forM xs f) Q E s"
  using assms(1)
proof (induction xs arbitrary: s)
  case Nil
  then show ?case by (simp add: wp_ret assms(3))
next
  case (Cons x xs)
  show ?case
    unfolding forM.simps wp_thn
    by (rule wp_conj_mono [OF assms(2) [OF Cons.prems]]) (auto intro: Cons.IH)
qed

lemma wp_forM_inv:
  assumes "I s"
    and "\<And>x s. x \<in> set xs \<Longrightarrow> I s \<Longrightarrow> wp (f x) (\<lambda>_. I) E s"
    and "\<And>s. I s \<Longrightarrow> Q () s"
  shows "wp (forM xs f) Q E s"
  using assms(1,2)
proof (induction xs arbitrary: s)
  case Nil
  then show ?case by (simp add: wp_ret assms(3))
next
  case (Cons x xs)
  show ?case
    unfolding forM.simps wp_thn
    by (rule wp_conj_mono [OF Cons.prems(2) [OF _ Cons.prems(1)]])
       (use Cons.IH Cons.prems(2) in auto)
qed

lemma wp_run: "wp m Q E s \<Longrightarrow> m s = (Inr a, s') \<Longrightarrow> Q a s'"
  by (simp add: wp_def)

lemma wp_run_err: "wp m Q E s \<Longrightarrow> m s = (Inl e, s') \<Longrightarrow> E e s'"
  by (simp add: wp_def)

end
