(* ===== verification/Bit_Reader.thy ===== *)
theory Bit_Reader
  imports H264_Prelude
begin

text \<open>
  The MSB-first bit reader of \<open>internal/h264/bitreader.go\<close> and the Exp-Golomb readers of
  \<open>internal/h264/golomb.go\<close>. The record has the struct's fields; each method is a computation on
  the reader (or on any record that extends it: the parsers carry the parameter set they fill in
  beside the reader). The nil-receiver branches have no counterpart, since the receiver is a
  value here.
\<close>

record bitReader =
  gb_buf :: bytes
  gb_bitPos :: u32
  gb_numBits :: u32
  gb_invalid :: bool

definition maxBitReaderByteLen :: int where
  "maxBitReaderByteLen = 2147483647 div 8"

definition newBitReader :: "bytes \<Rightarrow> bitReader" where
  "newBitReader b =
     (if int (length b) > maxBitReaderByteLen
      then \<lparr>gb_buf = b, gb_bitPos = 0, gb_numBits = word_of_int maxBitReaderByteLen * 8, gb_invalid = True\<rparr>
      else \<lparr>gb_buf = b, gb_bitPos = 0, gb_numBits = word_of_nat (length b) * 8, gb_invalid = False\<rparr>)"

text \<open>The loop that drops the trailing zero bytes: the remaining size.\<close>

fun strip_zero_bytes :: "bytes \<Rightarrow> nat \<Rightarrow> nat" where
  "strip_zero_bytes b 0 = 0"
| "strip_zero_bytes b (Suc n) = (if b ! n = 0 then strip_zero_bytes b n else Suc n)"

text \<open>\<open>bits.TrailingZeros8\<close>.\<close>

fun trailing_zeros_from :: "nat \<Rightarrow> u8 \<Rightarrow> nat" where
  "trailing_zeros_from 0 w = 0"
| "trailing_zeros_from (Suc k) w = (if bit w (8 - Suc k) then 0 else Suc (trailing_zeros_from k w))"

definition TrailingZeros8 :: "u8 \<Rightarrow> nat" where
  "TrailingZeros8 w = trailing_zeros_from 8 w"

definition rbspBitLength :: "bytes \<Rightarrow> u32 result" where
  "rbspBitLength b =
     (if int (length b) > maxBitReaderByteLen then Inl ErrInvalidData
      else let size = strip_zero_bytes b (length b)
        in if size = 0 then Inl ErrInvalidData
           else let trailingPadding = int (TrailingZeros8 (b ! (size - 1))) + 1;
                    nb = int size * 8 - trailingPadding
             in if nb < 0 then Inl ErrInvalidData else Inr (word_of_int nb))"

definition newRBSPBitReader :: "bytes \<Rightarrow> bitReader result" where
  "newRBSPBitReader b = rbind (rbspBitLength b) (\<lambda>nb.
     Inr \<lparr>gb_buf = b, gb_bitPos = 0, gb_numBits = nb, gb_invalid = False\<rparr>)"

definition bitsLeft :: "('z bitReader_scheme) \<Rightarrow> int" where
  "bitsLeft gb = (if gb_invalid gb then -1
                  else i32 (i32_of (gb_numBits gb) - i32_of (gb_bitPos gb)))"

text \<open>\<open>(buf[byteIndex] >> bitOffset) & 1\<close> at a bit position, a panic past the buffer.\<close>

definition bit_at :: "bytes \<Rightarrow> u32 \<Rightarrow> u32 result" where
  "bit_at b pos = rbind (idx b (unat (drop_bit 3 pos)))
     (\<lambda>w. Inr (ucast (drop_bit (unat (7 - (pos AND 7))) w AND 1)))"

definition readBit :: "('z bitReader_scheme, u32) go" where
  "readBit gb =
     (if gb_invalid gb then (Inl ErrInvalidData, gb)
      else if bitsLeft gb < 1 then (Inl ErrInvalidData, gb)
      else (bit_at (gb_buf gb) (gb_bitPos gb), gb\<lparr>gb_bitPos := gb_bitPos gb + 1\<rparr>))"

text \<open>The loop of \<open>readBits\<close>: \<open>out = (out << 1) | bit\<close>.\<close>

fun readBits_loop :: "nat \<Rightarrow> u32 \<Rightarrow> ('z bitReader_scheme, u32) go" where
  "readBits_loop 0 out = ret out"
| "readBits_loop (Suc n) out = bnd readBit (\<lambda>b. readBits_loop n (push_bit 1 out OR b))"

definition readBits :: "u32 \<Rightarrow> ('z bitReader_scheme, u32) go" where
  "readBits n gb =
     (if gb_invalid gb then (Inl ErrInvalidData, gb)
      else if n > 32 \<or> i32_of n > bitsLeft gb then (Inl ErrInvalidData, gb)
      else readBits_loop (unat n) 0 gb)"

definition showBits :: "u32 \<Rightarrow> ('z bitReader_scheme, u32) go" where
  "showBits n gb =
     (if gb_invalid gb then (Inl ErrInvalidData, gb)
      else if n > 32 \<or> i32_of n > bitsLeft gb then (Inl ErrInvalidData, gb)
      else (case readBits n gb of (r, gb') \<Rightarrow> (r, gb'\<lparr>gb_bitPos := gb_bitPos gb\<rparr>)))"

text \<open>\<open>showBitsPadded\<close>: up to \<open>n\<close> bits, zero-padded past the end; the position does not move.\<close>

fun showBitsPadded_loop :: "bytes \<Rightarrow> nat \<Rightarrow> u32 \<Rightarrow> u32 \<Rightarrow> u32 result" where
  "showBitsPadded_loop b 0 pos out = Inr out"
| "showBitsPadded_loop b (Suc n) pos out =
     rbind (bit_at b pos) (\<lambda>v. showBitsPadded_loop b n (pos + 1) (push_bit 1 out OR v))"

definition showBitsPadded :: "u32 \<Rightarrow> 'z bitReader_scheme \<Rightarrow> u32 result" where
  "showBitsPadded n0 gb =
     (if gb_invalid gb then Inr 0
      else let n = (if n0 > 32 then 32 else n0); left = bitsLeft gb
        in if left < i32_of n \<and> left \<le> 0 then Inr 0
           else let available = (if left < i32_of n then u32_of left else n)
             in rbind (showBitsPadded_loop (gb_buf gb) (unat available) (gb_bitPos gb) 0)
                  (\<lambda>out. Inr (push_bit (unat (n - available)) out)))"

definition skipBits :: "u32 \<Rightarrow> ('z bitReader_scheme, unit) go" where
  "skipBits n gb =
     (if gb_invalid gb then (Inl ErrInvalidData, gb)
      else if i32_of n > bitsLeft gb then (Inl ErrInvalidData, gb)
      else (Inr (), gb\<lparr>gb_bitPos := gb_bitPos gb + n\<rparr>))"

text \<open>\<open>(bitPos + 7) &^ 7\<close>.\<close>

definition align8 :: "u32 \<Rightarrow> u32" where
  "align8 p = (p + 7) AND NOT 7"

definition alignToByte :: "('z bitReader_scheme, unit) go" where
  "alignToByte gb =
     (if gb_invalid gb then (Inl ErrInvalidData, gb)
      else let aligned = align8 (gb_bitPos gb)
        in if aligned > gb_numBits gb then (Inl ErrInvalidData, gb)
           else (Inr (), gb\<lparr>gb_bitPos := aligned\<rparr>))"

text \<open>A slice expression \<open>buf[start : start+n]\<close>.\<close>

definition slice :: "bytes \<Rightarrow> nat \<Rightarrow> nat \<Rightarrow> bytes result" where
  "slice b start n = (if start + n \<le> length b then Inr (take n (drop start b)) else Inl Panic)"

definition readAlignedBytes :: "int \<Rightarrow> ('z bitReader_scheme, bytes) go" where
  "readAlignedBytes n gb =
     (if gb_invalid gb then (Inl ErrInvalidData, gb)
      else if n < 0 then (Inl ErrInvalidData, gb)
      else let aligned = align8 (gb_bitPos gb)
        in if aligned > gb_numBits gb then (Inl ErrInvalidData, gb)
           else if (n * 8) mod 2 ^ 64 > uint (gb_numBits gb - aligned) then (Inl ErrInvalidData, gb)
           else (slice (gb_buf gb) (unat (drop_bit 3 aligned)) (nat n),
                 gb\<lparr>gb_bitPos := aligned + word_of_int n * 8\<rparr>))"

definition remainingAlignedBytes :: "('z bitReader_scheme, bytes) go" where
  "remainingAlignedBytes = thn alignToByte (\<lambda>gb.
     let left = bitsLeft gb
     in if left < 0 then (Inl ErrInvalidData, gb)
        else let n = (i32 (left + 7)) div 8; start = int (unat (drop_bit 3 (gb_bitPos gb)))
          in if start < 0 \<or> n < 0 \<or> start + n > int (length (gb_buf gb)) then (Inl ErrInvalidData, gb)
             else (slice (gb_buf gb) (nat start) (nat n), gb))"

definition remainingAlignedRawBytes :: "('z bitReader_scheme, bytes) go" where
  "remainingAlignedRawBytes gb =
     (if gb_invalid gb then (Inl ErrInvalidData, gb)
      else let aligned = align8 (gb_bitPos gb)
        in if unat aligned > length (gb_buf gb) * 8 then (Inl ErrInvalidData, gb)
           else let gb' = gb\<lparr>gb_bitPos := aligned\<rparr>; start = unat (drop_bit 3 aligned)
             in if start > length (gb_buf gb) then (Inl ErrInvalidData, gb')
                else (Inr (drop start (gb_buf gb)), gb'))"

section \<open>Exp-Golomb codes\<close>

text \<open>The loop that counts the leading zeros up to the marker bit; 32 of them are an error.\<close>

function ue_prefix :: "nat \<Rightarrow> ('z bitReader_scheme, nat) go" where
  "ue_prefix lz = (if lz \<ge> 32 then fail ErrInvalidData
     else bnd readBit (\<lambda>b. if b = 1 then ret lz else ue_prefix (Suc lz)))"
  by pat_completeness auto
termination
  by (relation "measure (\<lambda>lz. 32 - lz)") auto

declare ue_prefix.simps [simp del]

definition readUEGolombLong :: "('z bitReader_scheme, u32) go" where
  "readUEGolombLong = bnd (ue_prefix 0) (\<lambda>leadingZeros.
     if leadingZeros = 0 then ret 0
     else bnd (readBits (word_of_nat leadingZeros)) (\<lambda>suffix.
       ret (push_bit leadingZeros 1 - 1 + suffix)))"

definition readUEGolomb31 :: "('z bitReader_scheme, u32) go" where
  "readUEGolomb31 = readUEGolombLong"

definition se_of_code :: "u32 \<Rightarrow> int" where
  "se_of_code codeNum = (let value = i32_of (drop_bit 1 (codeNum + 1))
     in if codeNum AND 1 = 0 then i32 (- value) else value)"

definition readSEGolombLong :: "('z bitReader_scheme, int) go" where
  "readSEGolombLong = bnd readUEGolombLong (\<lambda>codeNum. ret (se_of_code codeNum))"

section \<open>What a reader still holds: the abstraction to bit strings\<close>

definition byte_bits :: "u8 \<Rightarrow> bool list" where
  "byte_bits w = map (bit w) [7, 6, 5, 4, 3, 2, 1, 0]"

definition bytes_bits :: "bytes \<Rightarrow> bool list" where
  "bytes_bits b = concat (map byte_bits b)"

lemma length_byte_bits [simp]: "length (byte_bits w) = 8"
  by (simp add: byte_bits_def)

lemma length_bytes_bits [simp]: "length (bytes_bits b) = 8 * length b"
  by (induction b) (simp_all add: bytes_bits_def)

lemma bytes_bits_simps [simp]:
  "bytes_bits [] = []" "bytes_bits (x # b) = byte_bits x @ bytes_bits b"
  "bytes_bits (a @ b) = bytes_bits a @ bytes_bits b"
  by (simp_all add: bytes_bits_def)

lemma byte_bits_nth: "i < 8 \<Longrightarrow> byte_bits w ! i = bit w (7 - i)"
  by (auto simp: byte_bits_def less_Suc_eq numeral_eq_Suc)

lemma bytes_bits_nth:
  "i < 8 * length b \<Longrightarrow> bytes_bits b ! i = bit (b ! (i div 8)) (7 - i mod 8)"
proof (induction b arbitrary: i)
  case Nil
  then show ?case by simp
next
  case (Cons x b)
  show ?case
  proof (cases "i < 8")
    case True
    then show ?thesis by (simp add: nth_append byte_bits_nth)
  next
    case False
    then have "i div 8 = Suc ((i - 8) div 8)" "i mod 8 = (i - 8) mod 8"
      by (simp_all add: le_div_geq le_mod_geq)
    with False Cons show ?thesis by (simp add: nth_append)
  qed
qed

lemma low_bit_drop: "ucast (drop_bit k (w :: u8) AND 1) = (of_bool (bit w k) :: u32)"
  by (rule bit_word_eqI) (auto simp: bit_simps)

lemma bit_at_nth:
  assumes "unat pos < 8 * length b"
  shows "bit_at b pos = Inr (of_bool (bytes_bits b ! unat pos))"
proof -
  have d: "unat (drop_bit 3 pos) = unat pos div 8"
    by (simp add: drop_bit_eq_div unat_div)
  have "pos AND 7 = take_bit 3 pos"
    by (simp add: take_bit_eq_mask mask_eq_exp_minus_1)
  then have a: "unat (pos AND 7) = unat pos mod 8"
    by (simp only: unsigned_take_bit_eq) (simp add: take_bit_eq_mod)
  have "pos AND 7 \<le> 7"
    by (rule word_and_le1)
  then have m: "unat (7 - (pos AND 7)) = 7 - unat pos mod 8"
    by (simp add: unat_sub a)
  show ?thesis using assms
    by (simp add: bit_at_def d m low_bit_drop bytes_bits_nth less_mult_imp_div_less mult.commute)
qed

text \<open>
  A reader is well formed when its limits lie inside the buffer (or it is the invalid reader
  that every method refuses). \<open>rem_bits\<close> is what it still has to deliver.
\<close>

definition wf_reader :: "'z bitReader_scheme \<Rightarrow> bool" where
  "wf_reader gb \<longleftrightarrow> gb_invalid gb \<or>
     (8 * length (gb_buf gb) < 2 ^ 31 \<and> unat (gb_numBits gb) \<le> 8 * length (gb_buf gb)
      \<and> unat (gb_bitPos gb) \<le> 8 * length (gb_buf gb))"

definition rem_bits :: "'z bitReader_scheme \<Rightarrow> bool list" where
  "rem_bits gb = (if gb_invalid gb then []
     else drop (unat (gb_bitPos gb)) (take (unat (gb_numBits gb)) (bytes_bits (gb_buf gb))))"

lemma bitsLeft_int:
  assumes "wf_reader gb" "\<not> gb_invalid gb"
  shows "bitsLeft gb = int (unat (gb_numBits gb)) - int (unat (gb_bitPos gb))"
proof -
  have "unat (gb_numBits gb) < 2 ^ 31" "unat (gb_bitPos gb) < 2 ^ 31"
    using assms by (auto simp: wf_reader_def)
  then have "i32_of (gb_numBits gb) = int (unat (gb_numBits gb))" "i32_of (gb_bitPos gb) = int (unat (gb_bitPos gb))"
    by (simp_all add: i32_of_small)
  moreover have "i32 (int (unat (gb_numBits gb)) - int (unat (gb_bitPos gb)))
      = int (unat (gb_numBits gb)) - int (unat (gb_bitPos gb))"
    using \<open>unat (gb_numBits gb) < 2 ^ 31\<close> \<open>unat (gb_bitPos gb) < 2 ^ 31\<close> by (intro i32_id) simp_all
  ultimately show ?thesis using assms(2) by (simp add: bitsLeft_def)
qed

lemma length_rem_bits:
  assumes "wf_reader gb"
  shows "length (rem_bits gb) = nat (bitsLeft gb)"
proof (cases "gb_invalid gb")
  case True
  then show ?thesis by (simp add: rem_bits_def bitsLeft_def)
next
  case False
  with assms show ?thesis
    by (simp add: bitsLeft_int) (auto simp: rem_bits_def wf_reader_def)
qed

lemma readBit_Nil:
  assumes "wf_reader gb" "rem_bits gb = []"
  shows "readBit gb = (Inl ErrInvalidData, gb)"
proof -
  have "nat (bitsLeft gb) = 0" using assms length_rem_bits [of gb] by simp
  then show ?thesis by (simp add: readBit_def)
qed

lemma readBit_Cons:
  assumes "wf_reader gb" "rem_bits gb = b # bs"
  shows "readBit gb = (Inr (of_bool b), gb\<lparr>gb_bitPos := gb_bitPos gb + 1\<rparr>)"
    and "rem_bits (gb\<lparr>gb_bitPos := gb_bitPos gb + 1\<rparr>) = bs"
    and "wf_reader (gb\<lparr>gb_bitPos := gb_bitPos gb + 1\<rparr>)"
proof -
  have v: "\<not> gb_invalid gb" using assms(2) by (auto simp: rem_bits_def)
  let ?p = "unat (gb_bitPos gb)"
  have l: "?p < unat (gb_numBits gb)" "unat (gb_numBits gb) \<le> 8 * length (gb_buf gb)"
    using assms v by (auto simp: rem_bits_def wf_reader_def intro: ccontr)
  have s: "unat (gb_bitPos gb + 1) = Suc ?p"
    using l assms(1) v by (simp add: wf_reader_def unat_word_ariths)
  have h: "bytes_bits (gb_buf gb) ! ?p = b" "drop (Suc ?p) (take (unat (gb_numBits gb)) (bytes_bits (gb_buf gb))) = bs"
    using assms(2) v l by (simp_all add: rem_bits_def Cons_nth_drop_Suc [symmetric])
  have "1 \<le> bitsLeft gb" using l by (simp add: bitsLeft_int [OF assms(1) v])
  then show "readBit gb = (Inr (of_bool b), gb\<lparr>gb_bitPos := gb_bitPos gb + 1\<rparr>)"
    using l v h(1) by (simp add: readBit_def bit_at_nth)
  show "rem_bits (gb\<lparr>gb_bitPos := gb_bitPos gb + 1\<rparr>) = bs"
    using h(2) v s by (simp add: rem_bits_def)
  show "wf_reader (gb\<lparr>gb_bitPos := gb_bitPos gb + 1\<rparr>)"
    using assms(1) v l s by (simp add: wf_reader_def)
qed

text \<open>The reader \<open>n\<close> bits further on.\<close>

definition adv :: "nat \<Rightarrow> 'z bitReader_scheme \<Rightarrow> 'z bitReader_scheme" where
  "adv n gb = gb\<lparr>gb_bitPos := gb_bitPos gb + word_of_nat n\<rparr>"

lemma adv_0 [simp]: "adv 0 gb = gb"
  by (simp add: adv_def)

lemma adv_adv [simp]: "adv m (adv n gb) = adv (n + m) gb"
  by (simp add: adv_def add.assoc)

lemma adv_wf:
  assumes "wf_reader gb" "n \<le> length (rem_bits gb)"
  shows "wf_reader (adv n gb) \<and> rem_bits (adv n gb) = drop n (rem_bits gb)"
  using assms
proof (induction n arbitrary: gb)
  case 0
  then show ?case by simp
next
  case (Suc n)
  then obtain b bs where r: "rem_bits gb = b # bs"
    by (cases "rem_bits gb") auto
  have one: "adv 1 gb = gb\<lparr>gb_bitPos := gb_bitPos gb + 1\<rparr>"
    by (simp add: adv_def)
  have "wf_reader (adv n (adv 1 gb)) \<and> rem_bits (adv n (adv 1 gb)) = drop n (rem_bits (adv 1 gb))"
    using readBit_Cons(2,3) [OF Suc.prems(1) r] Suc.prems(2) r
    by (intro Suc.IH) (simp_all only: one, simp)
  then show ?case
    using readBit_Cons(2) [OF Suc.prems(1) r] r by (simp only: adv_adv) (simp flip: one)
qed

lemma readBit_adv:
  assumes "wf_reader gb"
  shows "readBit gb = (case rem_bits gb of [] \<Rightarrow> (Inl ErrInvalidData, gb)
                        | b # bs \<Rightarrow> (Inr (of_bool b), adv 1 gb))"
  using readBit_Nil [OF assms] readBit_Cons(1) [OF assms]
  by (auto simp: adv_def split: list.splits)

text \<open>The number a bit string denotes, most significant bit first.\<close>

definition bits_val :: "bool list \<Rightarrow> nat" where
  "bits_val bs = foldl (\<lambda>n b. 2 * n + of_bool b) 0 bs"

lemma bits_val_Nil [simp]: "bits_val [] = 0"
  by (simp add: bits_val_def)

lemma bits_val_snoc [simp]: "bits_val (bs @ [b]) = 2 * bits_val bs + of_bool b"
  by (simp add: bits_val_def)

lemma bits_val_append: "bits_val (xs @ ys) = bits_val xs * 2 ^ length ys + bits_val ys"
proof (induction ys rule: rev_induct)
  case (snoc y ys)
  then show ?case by (simp add: algebra_simps flip: append_assoc)
qed simp

lemma bits_val_Cons: "bits_val (b # bs) = of_bool b * 2 ^ length bs + bits_val bs"
  using bits_val_append [of "[b]" bs] by (simp add: bits_val_def)

lemma bits_val_bound: "bits_val bs < 2 ^ length bs"
  by (induction bs rule: rev_induct) (auto simp: of_bool_def)

lemma readBits_loop_value:
  assumes "wf_reader gb" "n \<le> length (rem_bits gb)"
  shows "readBits_loop n (word_of_nat v) gb
    = (Inr (word_of_nat (v * 2 ^ n + bits_val (take n (rem_bits gb)))), adv n gb)"
  using assms
proof (induction n arbitrary: gb v)
  case 0
  then show ?case by (simp add: ret_def)
next
  case (Suc n)
  then obtain b bs where r: "rem_bits gb = b # bs"
    by (cases "rem_bits gb") auto
  have w: "wf_reader (adv 1 gb)" "rem_bits (adv 1 gb) = bs"
    using adv_wf [of gb 1] Suc.prems r by auto
  have or: "push_bit 1 (word_of_nat v :: u32) OR of_bool b = word_of_nat (2 * v + of_bool b)"
    by (cases b) (simp_all add: push_bit_eq_mult or_one_eq)
  have "readBits_loop (Suc n) (word_of_nat v) gb = readBits_loop n (word_of_nat (2 * v + of_bool b)) (adv 1 gb)"
    using or by (simp add: bnd_def readBit_adv [OF Suc.prems(1)] r)
  also have "\<dots> = (Inr (word_of_nat ((2 * v + of_bool b) * 2 ^ n + bits_val (take n bs))), adv (Suc n) gb)"
    using Suc.IH [OF w(1), of "2 * v + of_bool b"] w(2) Suc.prems(2) r by simp
  finally show ?case
    using Suc.prems(2) r by (simp add: bits_val_Cons algebra_simps)
qed


lemma readBits_value:
  assumes "wf_reader gb" "unat n \<le> 32"
  shows "readBits n gb =
    (if int (unat n) \<le> bitsLeft gb
     then (Inr (word_of_nat (bits_val (take (unat n) (rem_bits gb)))), adv (unat n) gb)
     else (Inl ErrInvalidData, gb))"
proof -
  have n: "\<not> n > 32" "i32_of n = int (unat n)"
    using assms(2) by (simp_all add: word_less_nat_alt i32_of_small)
  have "int (unat n) \<le> bitsLeft gb \<Longrightarrow> \<not> gb_invalid gb \<and> unat n \<le> length (rem_bits gb)"
    by (auto simp: length_rem_bits [OF assms(1)]) (simp add: bitsLeft_def)
  then show ?thesis
    using readBits_loop_value [OF assms(1), of "unat n" 0] n by (auto simp: readBits_def)
qed

lemma showBits_value:
  assumes "wf_reader gb" "unat n \<le> 32"
  shows "showBits n gb =
    (if int (unat n) \<le> bitsLeft gb
     then (Inr (word_of_nat (bits_val (take (unat n) (rem_bits gb)))), gb)
     else (Inl ErrInvalidData, gb))"
proof -
  have n: "\<not> n > 32" "i32_of n = int (unat n)"
    using assms(2) by (simp_all add: word_less_nat_alt i32_of_small)
  then show ?thesis
    using readBits_value [OF assms] by (auto simp: showBits_def adv_def bitsLeft_def)
qed


lemma ue_prefix_value:
  assumes "wf_reader gb" "lz + n < 32" "rem_bits gb = replicate n False @ True # bs"
  shows "ue_prefix lz gb = (Inr (lz + n), adv (Suc n) gb)"
  using assms
proof (induction n arbitrary: lz gb)
  case 0
  then show ?case
    by (subst ue_prefix.simps) (simp add: bnd_def readBit_adv ret_def)
next
  case (Suc n)
  have w: "wf_reader (adv 1 gb)" "rem_bits (adv 1 gb) = replicate n False @ True # bs"
    using adv_wf [of gb 1] Suc.prems by auto
  have "ue_prefix lz gb = ue_prefix (Suc lz) (adv 1 gb)"
    using Suc.prems by (subst ue_prefix.simps) (simp add: bnd_def readBit_adv)
  also have "\<dots> = (Inr (lz + Suc n), adv (Suc (Suc n)) gb)"
    using Suc.IH [OF w(1) _ w(2)] Suc.prems(2) by simp
  finally show ?case .
qed

lemma readUEGolombLong_value:
  assumes "wf_reader gb" "n < 32" "length xs = n"
    and "rem_bits gb = replicate n False @ True # xs @ bs"
  shows "readUEGolombLong gb = (Inr (word_of_nat (2 ^ n - 1 + bits_val xs)), adv (2 * n + 1) gb)"
proof -
  have w: "wf_reader (adv (Suc n) gb)" "rem_bits (adv (Suc n) gb) = xs @ bs"
    using adv_wf [of gb "Suc n"] assms by auto
  have "n \<noteq> 0 \<Longrightarrow> int n \<le> bitsLeft (adv (Suc n) gb)"
    using length_rem_bits [OF w(1)] w(2) assms(3) by simp
  then have "n \<noteq> 0 \<Longrightarrow> readBits (word_of_nat n) (adv (Suc n) gb) = (Inr (word_of_nat (bits_val xs)), adv (2 * n + 1) gb)"
    using readBits_value [OF w(1), of "word_of_nat n"] assms(2,3) w(2)
    by (simp add: unat_of_nat mult_2)
  moreover have "(word_of_nat (2 ^ n - 1 + bits_val xs) :: u32) = 2 ^ n - 1 + word_of_nat (bits_val xs)"
    by (simp only: of_nat_add of_nat_diff one_le_power one_le_numeral of_nat_power) simp
  ultimately show ?thesis
    using ue_prefix_value [OF assms(1) _ assms(4), of 0] assms(2,3)
    by (auto simp: readUEGolombLong_def bnd_def ret_def push_bit_eq_mult simp del: of_nat_add)
qed


section \<open>The contract of a reading operation\<close>

text \<open>
  Every operation of the reader that the parsers call keeps the reader well formed, changes
  nothing but the bit position, fails with \<open>ErrInvalidData\<close> only, and delivers a value
  in the range \<open>R\<close>. The parsers' proofs rest on this contract and not on the operations' code.
\<close>

locale reader_op =
  fixes m :: "('z bitReader_scheme, 'a) go" and R :: "'a \<Rightarrow> bool"
  assumes contract: "wf_reader s \<Longrightarrow>
    wp m (\<lambda>v s'. R v \<and> wf_reader s' \<and> (\<exists>p. s' = s\<lparr>gb_bitPos := p\<rparr>))
         (\<lambda>e s'. e = ErrInvalidData \<and> wf_reader s' \<and> (\<exists>p. s' = s\<lparr>gb_bitPos := p\<rparr>)) s"
begin

lemma wp_op:
  assumes "wf_reader s"
    and "\<And>v p. R v \<Longrightarrow> wf_reader (s\<lparr>gb_bitPos := p\<rparr>) \<Longrightarrow> Q v (s\<lparr>gb_bitPos := p\<rparr>)"
    and "\<And>p. wf_reader (s\<lparr>gb_bitPos := p\<rparr>) \<Longrightarrow> E ErrInvalidData (s\<lparr>gb_bitPos := p\<rparr>)"
  shows "wp m Q E s"
  using wp_conj_mono [OF contract [OF assms(1)], of Q E] assms(2,3) by auto

lemma no_panic_op: "wf_reader s \<Longrightarrow> no_panic (fst (m s))"
  using contract [of s] by (cases "m s") (auto simp: wp_def no_panic_def split: sum.splits)

lemma keeps_buffer: "wf_reader s \<Longrightarrow> gb_buf (snd (m s)) = gb_buf s"
  using contract [of s] by (cases "m s") (auto simp: wp_def split: sum.splits)

end

lemma same_pos: "\<exists>p. s = s\<lparr>gb_bitPos := p\<rparr>"
  by (rule exI [of _ "gb_bitPos s"]) simp

lemma any_pos [simp]: "\<exists>q. s\<lparr>gb_bitPos := p\<rparr> = s\<lparr>gb_bitPos := q\<rparr>"
  by blast

lemma adv_pos: "\<exists>p. adv n s = s\<lparr>gb_bitPos := p\<rparr>"
  by (auto simp: adv_def)

interpretation readBit: reader_op readBit "\<lambda>b. b = 0 \<or> b = 1"
proof
  fix s :: "'z bitReader_scheme"
  assume w: "wf_reader s"
  then show "wp readBit (\<lambda>v s'. (v = 0 \<or> v = 1) \<and> wf_reader s' \<and> (\<exists>p. s' = s\<lparr>gb_bitPos := p\<rparr>))
      (\<lambda>e s'. e = ErrInvalidData \<and> wf_reader s' \<and> (\<exists>p. s' = s\<lparr>gb_bitPos := p\<rparr>)) s"
    using adv_wf [of s 1] adv_pos [of 1 s]
    by (auto simp: wp_def readBit_adv split: list.splits intro: same_pos)
qed

lemma wf_adv_bitsLeft:
  assumes "wf_reader s" "int n \<le> bitsLeft s"
  shows "wf_reader (adv n s)" "n \<le> length (rem_bits s)" "rem_bits (adv n s) = drop n (rem_bits s)"
proof -
  show n: "n \<le> length (rem_bits s)"
    using assms(2) by (simp add: length_rem_bits [OF assms(1)])
  then show "wf_reader (adv n s)" "rem_bits (adv n s) = drop n (rem_bits s)"
    using adv_wf [OF assms(1)] by auto
qed

lemma readBits_contract:
  assumes "unat n \<le> 32"
  shows "reader_op (readBits n :: ('z bitReader_scheme, u32) go) (\<lambda>v. unat v < 2 ^ unat n)"
proof
  fix s :: "'z bitReader_scheme"
  assume w: "wf_reader s"
  have b: "bits_val (take (unat n) (rem_bits s)) < 2 ^ unat n"
    using bits_val_bound [of "take (unat n) (rem_bits s)"]
    by (rule order.strict_trans2) (simp add: power_increasing)
  also have "\<dots> \<le> (2 :: nat) ^ 32"
    by (rule power_increasing) (use assms in auto)
  finally have u: "unat (word_of_nat (bits_val (take (unat n) (rem_bits s))) :: u32)
      = bits_val (take (unat n) (rem_bits s))"
    by (simp add: unat_of_nat)
  show "wp (readBits n) (\<lambda>v s'. unat v < 2 ^ unat n \<and> wf_reader s' \<and> (\<exists>p. s' = s\<lparr>gb_bitPos := p\<rparr>))
      (\<lambda>e s'. e = ErrInvalidData \<and> wf_reader s' \<and> (\<exists>p. s' = s\<lparr>gb_bitPos := p\<rparr>)) s"
    using u b w wf_adv_bitsLeft [OF w] adv_pos [of "unat n" s]
    by (auto simp: wp_def readBits_value [OF w assms] intro: same_pos)
qed

lemmas wp_readBits = reader_op.wp_op [OF readBits_contract]

lemma showBits_contract:
  assumes "unat n \<le> 32"
  shows "reader_op (showBits n :: ('z bitReader_scheme, u32) go) (\<lambda>_. True)"
  by standard (use assms in \<open>auto simp: wp_def showBits_value intro: same_pos\<close>)

lemmas wp_showBits = reader_op.wp_op [OF showBits_contract]

lemma skipBits_contract:
  assumes "unat n < 2 ^ 31"
  shows "reader_op (skipBits n :: ('z bitReader_scheme, unit) go) (\<lambda>_. True)"
proof
  fix s :: "'z bitReader_scheme"
  assume w: "wf_reader s"
  have "skipBits n s = (if int (unat n) \<le> bitsLeft s then (Inr (), adv (unat n) s) else (Inl ErrInvalidData, s))"
    by (auto simp: skipBits_def i32_of_small [OF assms] adv_def) (simp add: bitsLeft_def)
  then show "wp (skipBits n) (\<lambda>v s'. True \<and> wf_reader s' \<and> (\<exists>p. s' = s\<lparr>gb_bitPos := p\<rparr>))
      (\<lambda>e s'. e = ErrInvalidData \<and> wf_reader s' \<and> (\<exists>p. s' = s\<lparr>gb_bitPos := p\<rparr>)) s"
    using w wf_adv_bitsLeft [OF w] adv_pos [of "unat n" s]
    by (auto simp: wp_def intro: same_pos)
qed

lemmas wp_skipBits = reader_op.wp_op [OF skipBits_contract]


text \<open>
  The Exp-Golomb readers meet the same contract: a code number never exceeds \<open>2^32 - 2\<close>, and a
  signed value never is the least \<open>int32\<close>.
\<close>

lemma ue_prefix_contract: "reader_op (ue_prefix lz :: ('z bitReader_scheme, nat) go) (\<lambda>n. lz \<le> n \<and> n < 32)"
proof (induction lz rule: ue_prefix.induct)
  case (1 lz)
  show ?case
  proof
    fix s :: "'z bitReader_scheme"
    assume w: "wf_reader s"
    show "wp (ue_prefix lz) (\<lambda>v s'. (lz \<le> v \<and> v < 32) \<and> wf_reader s' \<and> (\<exists>p. s' = s\<lparr>gb_bitPos := p\<rparr>))
        (\<lambda>e s'. e = ErrInvalidData \<and> wf_reader s' \<and> (\<exists>p. s' = s\<lparr>gb_bitPos := p\<rparr>)) s"
    proof (cases "lz \<ge> 32")
      case True
      then show ?thesis using w by (subst ue_prefix.simps) (simp add: wp_simps same_pos)
    next
      case False
      then have "reader_op (ue_prefix (Suc lz) :: ('z bitReader_scheme, nat) go) (\<lambda>n. Suc lz \<le> n \<and> n < 32)"
        using "1.IH" [of 0] by simp
      note ih = reader_op.wp_op [OF this]
      show ?thesis using False
        by (subst ue_prefix.simps) (auto simp: wp_simps intro!: readBit.wp_op [OF w] ih)
    qed
  qed
qed

lemma unat_ue_value:
  assumes "n < 32" "unat (v :: u32) < 2 ^ n"
  shows "unat (2 ^ n - 1 + v) = 2 ^ n - 1 + unat v"
proof -
  have p: "(2 :: nat) ^ n \<le> 2 ^ 31"
    using assms(1) by (intro power_increasing) auto
  have "unat (word_of_nat (2 ^ n) :: u32) = 2 ^ n"
    unfolding unat_of_nat using p by simp
  then have one: "unat (2 ^ n :: u32) = 2 ^ n"
    by simp
  have "(1 :: u32) \<le> 2 ^ n"
    by (simp add: word_le_nat_alt one)
  then have "unat (2 ^ n - 1 :: u32) = 2 ^ n - 1"
    by (simp add: unat_sub one)
  then show ?thesis
    using assms p by (subst unat_add_lem [THEN iffD1]) auto
qed

interpretation readUEGolombLong: reader_op readUEGolombLong "\<lambda>v. unat v \<le> 2 ^ 32 - 2"
proof
  fix s :: "'z bitReader_scheme"
  assume w: "wf_reader s"
  have fin: "unat (2 ^ n - 1 + v :: u32) \<le> 2 ^ 32 - 2"
    if "n < 32" "unat v < 2 ^ n" for n v
  proof -
    have "(2 :: nat) ^ n \<le> 2 ^ 31" using that(1) by (intro power_increasing) auto
    then show ?thesis using that by (simp add: unat_ue_value)
  qed
  have u: "unat (word_of_nat n :: u32) = n" if "n < 32" for n
    using that by (simp add: unat_of_nat)
  show "wp readUEGolombLong (\<lambda>v s'. unat v \<le> 2 ^ 32 - 2 \<and> wf_reader s' \<and> (\<exists>p. s' = s\<lparr>gb_bitPos := p\<rparr>))
      (\<lambda>e s'. e = ErrInvalidData \<and> wf_reader s' \<and> (\<exists>p. s' = s\<lparr>gb_bitPos := p\<rparr>)) s"
    unfolding readUEGolombLong_def wp_simps
    by (rule reader_op.wp_op [OF ue_prefix_contract w])
       (use fin in \<open>auto simp: wp_simps u push_bit_eq_mult intro!: wp_readBits\<close>)
qed

interpretation readUEGolomb31: reader_op readUEGolomb31 "\<lambda>v. unat v \<le> 2 ^ 32 - 2"
  unfolding readUEGolomb31_def by (rule readUEGolombLong.reader_op_axioms)

lemma se_of_code_range:
  assumes "unat c \<le> 2 ^ 32 - 2"
  shows "- MaxInt32 \<le> se_of_code c \<and> se_of_code c \<le> MaxInt32"
proof -
  have "unat (c + 1) = unat c + 1"
    using assms by (simp add: unat_word_ariths)
  then have "unat (drop_bit 1 (c + 1)) < 2 ^ 31"
    using assms by (simp add: drop_bit_eq_div unat_div)
  then have "0 \<le> i32_of (drop_bit 1 (c + 1)) \<and> i32_of (drop_bit 1 (c + 1)) \<le> MaxInt32"
    by (simp add: i32_of_small)
  then show ?thesis by (auto simp: se_of_code_def Let_def i32_id)
qed

interpretation readSEGolombLong: reader_op readSEGolombLong "\<lambda>v. - MaxInt32 \<le> v \<and> v \<le> MaxInt32"
proof
  fix s :: "'z bitReader_scheme"
  assume w: "wf_reader s"
  show "wp readSEGolombLong (\<lambda>v s'. (- MaxInt32 \<le> v \<and> v \<le> MaxInt32) \<and> wf_reader s' \<and> (\<exists>p. s' = s\<lparr>gb_bitPos := p\<rparr>))
      (\<lambda>e s'. e = ErrInvalidData \<and> wf_reader s' \<and> (\<exists>p. s' = s\<lparr>gb_bitPos := p\<rparr>)) s"
    unfolding readSEGolombLong_def wp_simps
    using se_of_code_range by (intro readUEGolombLong.wp_op [OF w]) (auto simp: wp_simps)
qed

lemmas wp_reader_ops =
  readBit.wp_op wp_readBits wp_showBits wp_skipBits
  readUEGolombLong.wp_op readUEGolomb31.wp_op readSEGolombLong.wp_op

text \<open>The contract is closed under sequencing, branching and checks.\<close>

named_theorems reader_op_intros "composition of reading operations"

lemma reader_op_ret [reader_op_intros]: "R v \<Longrightarrow> reader_op (ret v) R"
  by standard (auto simp: wp_simps intro: same_pos)

lemma reader_op_fail [reader_op_intros]: "reader_op (fail ErrInvalidData) R"
  by standard (auto simp: wp_simps intro: same_pos)

lemma reader_op_lift [reader_op_intros]: "r = Inr v \<Longrightarrow> R v \<Longrightarrow> reader_op (lift r) R"
  by standard (auto simp: wp_simps intro: same_pos)

lemma reader_op_bnd [reader_op_intros]:
  fixes m :: "('z bitReader_scheme, 'a) go"
  assumes "reader_op m R" "\<And>v. R v \<Longrightarrow> reader_op (f v) R'"
  shows "reader_op (bnd m f) R'"
proof
  fix s :: "'z bitReader_scheme"
  assume w: "wf_reader s"
  show "wp (bnd m f) (\<lambda>v s'. R' v \<and> wf_reader s' \<and> (\<exists>p. s' = s\<lparr>gb_bitPos := p\<rparr>))
      (\<lambda>e s'. e = ErrInvalidData \<and> wf_reader s' \<and> (\<exists>p. s' = s\<lparr>gb_bitPos := p\<rparr>)) s"
    unfolding wp_bnd
  proof (rule reader_op.wp_op [OF assms(1) w])
    fix v p
    assume "R v" "wf_reader (s\<lparr>gb_bitPos := p\<rparr>)"
    then show "wp (f v) (\<lambda>v s'. R' v \<and> wf_reader s' \<and> (\<exists>p. s' = s\<lparr>gb_bitPos := p\<rparr>))
      (\<lambda>e s'. e = ErrInvalidData \<and> wf_reader s' \<and> (\<exists>p. s' = s\<lparr>gb_bitPos := p\<rparr>)) (s\<lparr>gb_bitPos := p\<rparr>)"
      by (intro reader_op.wp_op [OF assms(2)]) auto
  qed auto
qed

lemma reader_op_weaken:
  fixes m :: "('z bitReader_scheme, 'a) go"
  assumes "reader_op m R" "\<And>v. R v \<Longrightarrow> R' v"
  shows "reader_op m R'"
proof
  fix s :: "'z bitReader_scheme"
  assume w: "wf_reader s"
  show "wp m (\<lambda>v s'. R' v \<and> wf_reader s' \<and> (\<exists>p. s' = s\<lparr>gb_bitPos := p\<rparr>))
      (\<lambda>e s'. e = ErrInvalidData \<and> wf_reader s' \<and> (\<exists>p. s' = s\<lparr>gb_bitPos := p\<rparr>)) s"
    by (rule wp_conj_mono [OF reader_op.contract [OF assms(1) w]]) (auto intro: assms(2))
qed

lemma reader_op_if [reader_op_intros]:
  "(c \<Longrightarrow> reader_op m R) \<Longrightarrow> (\<not> c \<Longrightarrow> reader_op m' R) \<Longrightarrow> reader_op (if c then m else m') R"
  by simp

section \<open>Aligned bytes\<close>

lemma align8_nat:
  assumes "unat p < 2 ^ 31"
  shows "unat (align8 p) = 8 * ((unat p + 7) div 8)" "unat (drop_bit 3 (align8 p)) = (unat p + 7) div 8"
proof -
  have u: "unat (p + 7) = unat p + 7" using assms by (simp add: unat_word_ariths)
  have "align8 p = push_bit 3 (drop_bit 3 (p + 7))"
  proof (rule bit_word_eqI)
    fix n assume "n < LENGTH(32)"
    have "bit (7 :: u32) n \<longleftrightarrow> n < 3"
      using bit_mask_iff [of 3 n, where ?'a = u32] \<open>n < LENGTH(32)\<close>
      by (simp add: mask_eq_exp_minus_1)
    then show "bit (align8 p) n = bit (push_bit 3 (drop_bit 3 (p + 7))) n"
      using \<open>n < LENGTH(32)\<close> unfolding align8_def by (auto simp only: bit_simps o_def le_add_diff_inverse not_less)
  qed
  moreover have d: "unat (drop_bit 3 (p + 7)) = (unat p + 7) div 8"
    by (simp add: drop_bit_eq_div unat_div u)
  ultimately have "align8 p = drop_bit 3 (p + 7) * 8" by (simp add: push_bit_eq_mult)
  then show a: "unat (align8 p) = 8 * ((unat p + 7) div 8)"
    using assms d by (simp add: unat_word_ariths)
  show "unat (drop_bit 3 (align8 p)) = (unat p + 7) div 8"
    by (simp add: drop_bit_eq_div unat_div a)
qed

lemma alignToByte_op: "reader_op (alignToByte :: ('z bitReader_scheme, unit) go) (\<lambda>_. True)"
proof
  fix s :: "'z bitReader_scheme"
  assume w: "wf_reader s"
  have "wf_reader (s\<lparr>gb_bitPos := align8 (gb_bitPos s)\<rparr>)" if "\<not> align8 (gb_bitPos s) > gb_numBits s" "\<not> gb_invalid s"
    using that w by (simp add: wf_reader_def word_less_nat_alt)
  then show "wp alignToByte (\<lambda>v s'. True \<and> wf_reader s' \<and> (\<exists>p. s' = s\<lparr>gb_bitPos := p\<rparr>))
      (\<lambda>e s'. e = ErrInvalidData \<and> wf_reader s' \<and> (\<exists>p. s' = s\<lparr>gb_bitPos := p\<rparr>)) s"
    using w by (auto simp: wp_def alignToByte_def Let_def intro: same_pos)
qed

text \<open>The aligned byte slices lie inside the buffer.\<close>

lemma readAlignedBytes_op:
  assumes "n < 2 ^ 31"
  shows "reader_op (readAlignedBytes n :: ('z bitReader_scheme, bytes) go) (\<lambda>b. int (length b) = n)"
proof
  fix s :: "'z bitReader_scheme"
  assume w: "wf_reader s"
  let ?a = "align8 (gb_bitPos s)"
  have *: "unat (drop_bit 3 ?a) + nat n \<le> length (gb_buf s) \<and> wf_reader (s\<lparr>gb_bitPos := ?a + word_of_int n * 8\<rparr>)"
    if v: "\<not> gb_invalid s" "0 \<le> n" "\<not> ?a > gb_numBits s" "\<not> (n * 8) mod 2 ^ 64 > uint (gb_numBits s - ?a)"
  proof -
    have l: "unat (gb_bitPos s) < 2 ^ 31" "unat (gb_numBits s) \<le> 8 * length (gb_buf s)" "8 * length (gb_buf s) < 2 ^ 31"
      using w v(1) by (auto simp: wf_reader_def)
    note a = align8_nat [OF l(1)]
    have le: "unat ?a \<le> unat (gb_numBits s)" using v(3) by (simp add: word_less_nat_alt not_less)
    have "uint (gb_numBits s - ?a) = int (unat (gb_numBits s)) - int (unat ?a)"
      using le by (simp add: unat_sub_if')
    moreover have "(n * 8) mod 2 ^ 64 = n * 8" using v(2) assms by simp
    ultimately have n: "n * 8 + int (unat ?a) \<le> int (unat (gb_numBits s))" using v(4) by simp
    then have "8 * (nat n + unat (drop_bit 3 ?a)) \<le> 8 * length (gb_buf s)"
      using a l(2) v(2) by simp
    moreover have "unat (?a + word_of_int n * 8) = unat ?a + nat n * 8"
    proof -
      have wn: "(word_of_int n :: u32) * 8 = word_of_nat (nat n * 8)" using v(2) by simp
      have "unat (word_of_nat (nat n * 8) :: u32) = nat n * 8"
        using n l v(2) by (simp only: unat_of_nat) simp
      then show ?thesis unfolding wn using n l v(2) by (subst unat_add_lem [THEN iffD1]) auto
    qed
    ultimately show ?thesis using n l v(1,2) by (auto simp: wf_reader_def)
  qed
  show "wp (readAlignedBytes n) (\<lambda>v s'. int (length v) = n \<and> wf_reader s' \<and> (\<exists>p. s' = s\<lparr>gb_bitPos := p\<rparr>))
      (\<lambda>e s'. e = ErrInvalidData \<and> wf_reader s' \<and> (\<exists>p. s' = s\<lparr>gb_bitPos := p\<rparr>)) s"
    using w * by (auto simp: wp_def readAlignedBytes_def slice_def Let_def intro: same_pos)
qed

lemma remainingAlignedBytes_op:
  "reader_op (remainingAlignedBytes :: ('z bitReader_scheme, bytes) go) (\<lambda>_. True)"
proof -
  have "reader_op (\<lambda>gb :: 'z bitReader_scheme. let left = bitsLeft gb
     in if left < 0 then (Inl ErrInvalidData, gb)
        else let n = (i32 (left + 7)) div 8; start = int (unat (drop_bit 3 (gb_bitPos gb)))
          in if start < 0 \<or> n < 0 \<or> start + n > int (length (gb_buf gb)) then (Inl ErrInvalidData, gb)
             else (slice (gb_buf gb) (nat start) (nat n), gb)) (\<lambda>_. True)"
    by standard (auto simp: wp_def Let_def slice_def intro: same_pos)
  then show ?thesis
    unfolding remainingAlignedBytes_def thn_def by (rule reader_op_bnd [OF alignToByte_op])
qed

lemma remainingAlignedRawBytes_op:
  "reader_op (remainingAlignedRawBytes :: ('z bitReader_scheme, bytes) go) (\<lambda>_. True)"
proof
  fix s :: "'z bitReader_scheme"
  assume w: "wf_reader s"
  then show "wp remainingAlignedRawBytes (\<lambda>v s'. True \<and> wf_reader s' \<and> (\<exists>p. s' = s\<lparr>gb_bitPos := p\<rparr>))
      (\<lambda>e s'. e = ErrInvalidData \<and> wf_reader s' \<and> (\<exists>p. s' = s\<lparr>gb_bitPos := p\<rparr>)) s"
    by (auto simp: wp_def remainingAlignedRawBytes_def Let_def wf_reader_def intro: same_pos)
qed

section \<open>Any program of reading operations\<close>

text \<open>The reader's whole interface as commands, with their arguments.\<close>

datatype read_op = ReadBit | ReadBits u32 | ShowBits u32 | SkipBits u32 | AlignToByte
  | ReadAlignedBytes int | RemainingAlignedBytes | RemainingAlignedRawBytes
  | ReadUE | ReadUE31 | ReadSE | BitsLeft | ShowBitsPadded u32

fun run_read :: "read_op \<Rightarrow> (bitReader, unit) go" where
  "run_read ReadBit = bnd readBit (\<lambda>_. ret ())"
| "run_read (ReadBits n) = bnd (readBits n) (\<lambda>_. ret ())"
| "run_read (ShowBits n) = bnd (showBits n) (\<lambda>_. ret ())"
| "run_read (SkipBits n) = skipBits n"
| "run_read AlignToByte = alignToByte"
| "run_read (ReadAlignedBytes n) = bnd (readAlignedBytes n) (\<lambda>_. ret ())"
| "run_read RemainingAlignedBytes = bnd remainingAlignedBytes (\<lambda>_. ret ())"
| "run_read RemainingAlignedRawBytes = bnd remainingAlignedRawBytes (\<lambda>_. ret ())"
| "run_read ReadUE = bnd readUEGolombLong (\<lambda>_. ret ())"
| "run_read ReadUE31 = bnd readUEGolomb31 (\<lambda>_. ret ())"
| "run_read ReadSE = bnd readSEGolombLong (\<lambda>_. ret ())"
| "run_read BitsLeft = (\<lambda>gb. let left = bitsLeft gb in (Inr (), gb))"
| "run_read (ShowBitsPadded n) = (\<lambda>gb. (rbind (showBitsPadded n gb) (\<lambda>_. Inr ()), gb))"

text \<open>The arguments that the bound checks of \<open>skipBits\<close> and \<open>readAlignedBytes\<close> are written for.\<close>

fun sane_read :: "read_op \<Rightarrow> bool" where
  "sane_read (SkipBits n) \<longleftrightarrow> unat n < 2 ^ 31"
| "sane_read (ReadAlignedBytes n) \<longleftrightarrow> n < 2 ^ 31"
| "sane_read _ \<longleftrightarrow> True"

text \<open>Running commands one after the other, errors ignored: the outcomes and the final reader.\<close>

fun run_reads :: "read_op list \<Rightarrow> bitReader \<Rightarrow> unit result list \<times> bitReader" where
  "run_reads [] gb = ([], gb)"
| "run_reads (c # cs) gb =
     (let (r, gb) = run_read c gb; (rs, gb) = run_reads cs gb in (r # rs, gb))"

lemma readBits_too_many: "\<not> unat n \<le> 32 \<Longrightarrow> reader_op (readBits n :: ('z bitReader_scheme, u32) go) (\<lambda>_. True)"
  by standard (auto simp: wp_def readBits_def word_less_nat_alt intro: same_pos)

lemma showBits_too_many: "\<not> unat n \<le> 32 \<Longrightarrow> reader_op (showBits n :: ('z bitReader_scheme, u32) go) (\<lambda>_. True)"
  by standard (auto simp: wp_def showBits_def word_less_nat_alt intro: same_pos)

lemma reader_op_void: "reader_op m R \<Longrightarrow> reader_op (bnd m (\<lambda>_. ret ())) (\<lambda>_. True)"
  by (rule reader_op_bnd [where R = R and R' = "\<lambda>_. True"]) (auto intro: reader_op_ret)

lemma showBitsPadded_loop_inside: "unat pos + n \<le> 8 * length b \<Longrightarrow> 8 * length b < 2 ^ 31 \<Longrightarrow> \<exists>v. showBitsPadded_loop b n pos out = Inr v"
proof (induction n arbitrary: pos out)
  case (Suc n)
  have "unat (pos + 1) = Suc (unat pos)" using Suc.prems by (simp add: unat_word_ariths)
  then show ?case using Suc by (simp add: bit_at_nth)
qed simp

text \<open>What \<open>showBitsPadded\<close> looks at lies before the end, whatever its argument.\<close>

lemma showBitsPadded_inside:
  assumes "wf_reader gb"
  shows "\<exists>v. showBitsPadded n0 gb = Inr v"
proof (cases "gb_invalid gb")
  case False
  define n where "n = (if n0 > 32 then 32 else n0)"
  have n: "unat n \<le> 32" by (auto simp: n_def word_less_nat_alt)
  then have i: "i32_of n = int (unat n)" by (simp add: i32_of_small)
  have l: "bitsLeft gb = int (unat (gb_numBits gb)) - int (unat (gb_bitPos gb))" "unat (gb_numBits gb) \<le> 8 * length (gb_buf gb)"
    "8 * length (gb_buf gb) < 2 ^ 31"
    using bitsLeft_int [OF assms False] assms False by (auto simp: wf_reader_def)
  define a where "a = (if bitsLeft gb < i32_of n then u32_of (bitsLeft gb) else n)"
  have u: "unat (u32_of x) = nat x" if "0 \<le> x" "x < 2 ^ 31" for x
    using that by (simp add: u32_of_def unsigned_of_int take_bit_int_eq_self)
  have "bitsLeft gb < 2 ^ 31" using l(2,3) unfolding l(1) by auto
  then have "unat a \<le> nat (bitsLeft gb)" if "0 < bitsLeft gb \<or> i32_of n \<le> bitsLeft gb"
    using that i u [of "bitsLeft gb"] by (auto simp: a_def)
  then have "unat (gb_bitPos gb) + unat a \<le> 8 * length (gb_buf gb)" if "0 < bitsLeft gb \<or> i32_of n \<le> bitsLeft gb" "0 < unat a"
    using that l by auto
  then have "\<exists>v. showBitsPadded_loop (gb_buf gb) (unat a) (gb_bitPos gb) 0 = Inr v" if "0 < bitsLeft gb \<or> i32_of n \<le> bitsLeft gb"
    using showBitsPadded_loop_inside [OF _ l(3), of "gb_bitPos gb" "unat a" 0] that by (cases "unat a") auto
  then show ?thesis
    using False by (auto simp: showBitsPadded_def n_def [symmetric] a_def Let_def not_less)
qed (simp add: showBitsPadded_def)

lemma ShowBitsPadded_op: "reader_op (run_read (ShowBitsPadded n)) (\<lambda>_. True)"
proof
  fix s :: bitReader
  assume w: "wf_reader s"
  then show "wp (run_read (ShowBitsPadded n)) (\<lambda>v s'. True \<and> wf_reader s' \<and> (\<exists>p. s' = s\<lparr>gb_bitPos := p\<rparr>))
      (\<lambda>e s'. e = ErrInvalidData \<and> wf_reader s' \<and> (\<exists>p. s' = s\<lparr>gb_bitPos := p\<rparr>)) s"
    using showBitsPadded_inside [OF w, of n] by (auto simp: wp_def intro: same_pos)
qed

lemma BitsLeft_op: "reader_op (run_read BitsLeft) (\<lambda>_. True)"
  by standard (auto simp: wp_def intro: same_pos)

lemma run_read_op: "sane_read c \<Longrightarrow> reader_op (run_read c) (\<lambda>_. True)"
proof (cases c)
  case (ReadBits n)
  have "reader_op (readBits n :: (bitReader, u32) go) (\<lambda>_. True)"
  proof (cases "unat n \<le> 32")
    case True
    show ?thesis by (rule reader_op_weaken [OF readBits_contract [OF True]]) simp
  qed (rule readBits_too_many)
  then show ?thesis using ReadBits by (simp add: reader_op_void)
next
  case (ShowBits n)
  have "reader_op (showBits n :: (bitReader, u32) go) (\<lambda>_. True)"
    by (cases "unat n \<le> 32") (rule showBits_contract, assumption, rule showBits_too_many)
  then show ?thesis using ShowBits by (simp add: reader_op_void)
next
  case BitsLeft
  then show ?thesis using BitsLeft_op by (simp del: run_read.simps)
next
  case (ShowBitsPadded n)
  then show ?thesis using ShowBitsPadded_op by (simp del: run_read.simps)
qed (simp_all add: reader_op_void [OF readBit.reader_op_axioms] reader_op_void [OF readUEGolomb31.reader_op_axioms] reader_op_void [OF readUEGolombLong.reader_op_axioms]
    reader_op_void [OF readSEGolombLong.reader_op_axioms] reader_op_void [OF readAlignedBytes_op]
    reader_op_void [OF remainingAlignedBytes_op] reader_op_void [OF remainingAlignedRawBytes_op]
    alignToByte_op skipBits_contract)



lemma run_reads_safe:
  assumes "wf_reader gb" "\<forall>c \<in> set cs. sane_read c"
  shows "wf_reader (snd (run_reads cs gb)) \<and> gb_buf (snd (run_reads cs gb)) = gb_buf gb
    \<and> (\<forall>r \<in> set (fst (run_reads cs gb)). r \<in> {Inr (), Inl ErrInvalidData})"
  using assms
proof (induction cs arbitrary: gb)
  case (Cons c cs)
  obtain r gb1 where 1: "run_read c gb = (r, gb1)" by (cases "run_read c gb") auto
  have "r \<in> {Inr (), Inl ErrInvalidData} \<and> wf_reader gb1 \<and> gb_buf gb1 = gb_buf gb"
    using reader_op.contract [OF run_read_op Cons.prems(1), of c] Cons.prems(2) 1
    by (auto simp: wp_def split: sum.splits)
  then show ?case using Cons.IH [of gb1] Cons.prems(2) 1
    by (auto simp: Let_def split: prod.splits)
qed simp

lemma newBitReader_wf: "wf_reader (newBitReader b)"
proof (cases "int (length b) > maxBitReaderByteLen")
  case False
  then have "length b * 8 < 2 ^ 31" by (simp add: maxBitReaderByteLen_def)
  moreover from this have "unat (word_of_nat (length b) * 8 :: u32) = length b * 8"
    by (simp add: unat_word_ariths unat_of_nat)
  ultimately show ?thesis using False by (simp add: newBitReader_def wf_reader_def)
qed (simp add: newBitReader_def wf_reader_def)

lemma strip_zero_bytes_le: "strip_zero_bytes b n \<le> n"
  by (induction n) auto

lemma newRBSPBitReader_inv:
  assumes "newRBSPBitReader b = Inr gb"
  shows "wf_reader gb" "gb_buf gb = b"
proof -
  define sz where "sz = strip_zero_bytes b (length b)"
  have sz: "sz \<le> length b" unfolding sz_def by (rule strip_zero_bytes_le)
  define nb where "nb = int sz * 8 - (int (TrailingZeros8 (b ! (sz - 1))) + 1)"
  have nb: "0 \<le> nb" "nb \<le> int sz * 8" "gb_numBits gb = word_of_int nb" "gb_buf gb = b" "gb_bitPos gb = 0"
    "8 * int (length b) < 2147483648" "\<not> gb_invalid gb"
    using assms unfolding newRBSPBitReader_def rbspBitLength_def Let_def sz_def [symmetric] nb_def [symmetric]
    by (auto simp: rbind_eq_Inr maxBitReaderByteLen_def nb_def split: if_splits)
  have "unat (word_of_int nb :: u32) = nat nb"
    using nb sz by (simp add: unsigned_of_int take_bit_int_eq_self)
  then show "wf_reader gb" "gb_buf gb = b" using nb sz by (simp_all add: wf_reader_def)
qed

lemmas newRBSPBitReader_wf = newRBSPBitReader_inv(1)

text \<open>
  C9. Memory safety of the bit reader: any sequence of its operations, in any order and with the
  errors ignored, run on the reader of any byte string (of all its bits, or of those before the trailing
  bits of an RBSP), never panics (no read outside the buffer), reports nothing but \<open>ErrInvalidData\<close> and
  leaves the buffer alone, when no \<open>skipBits\<close> or \<open>readAlignedBytes\<close> argument is \<open>2^31\<close> or more.
\<close>

theorem bit_reader_safe:
  assumes "gb = newBitReader b \<or> newRBSPBitReader b = Inr gb" "\<forall>c \<in> set cs. sane_read c"
  shows "gb_buf (snd (run_reads cs gb)) = b \<and> list_all (\<lambda>r. r \<in> {Inr (), Inl ErrInvalidData}) (fst (run_reads cs gb))"
proof -
  have "wf_reader gb \<and> gb_buf gb = b"
    using assms(1) newBitReader_wf [of b] newRBSPBitReader_inv [of b gb] by (auto simp: newBitReader_def)
  then show ?thesis using run_reads_safe [OF _ assms(2), of gb] by (simp add: list_all_iff)
qed

lemma bit_reader_safe_witness:
  "gb_buf (snd (run_reads [ReadUE, SkipBits 3, ReadAlignedBytes 1, ReadBits 33, ShowBitsPadded 40, ReadSE] (newBitReader [0x5f, 0xa7]))) = [0x5f, 0xa7]
    \<and> list_all (\<lambda>r. r \<in> {Inr (), Inl ErrInvalidData})
         (fst (run_reads [ReadUE, SkipBits 3, ReadAlignedBytes 1, ReadBits 33, ShowBitsPadded 40, ReadSE] (newBitReader [0x5f, 0xa7])))"
  by (rule bit_reader_safe) simp_all



end
