(* ===== verification/Bit_Writer.thy ===== *)
theory Bit_Writer
  imports Bit_Reader
begin

text \<open>
  The MSB-first bit writer and the Exp-Golomb writers of \<open>internal/h264/bitwriter.go\<close>, and the
  round trip through the reader: what a writer puts into an RBSP, a reader of that RBSP delivers.
\<close>

record bitWriter =
  bw_buf :: bytes
  bw_bitPos :: u32
  bw_invalid :: bool

definition maxBitWriterByteLen :: int where
  "maxBitWriterByteLen = 4294967295 div 8"

definition NewBitWriter :: "bytes \<Rightarrow> bitWriter" where
  "NewBitWriter dst =
     (if int (length dst) > maxBitWriterByteLen
      then \<lparr>bw_buf = dst, bw_bitPos = 0xffffffff, bw_invalid = True\<rparr>
      else \<lparr>bw_buf = dst, bw_bitPos = word_of_nat (length dst) * 8, bw_invalid = False\<rparr>)"

definition BitLen :: "bitWriter \<Rightarrow> u32" where
  "BitLen bw = bw_bitPos bw"

definition Bytes :: "bitWriter \<Rightarrow> bytes" where
  "Bytes bw = bw_buf bw"

definition ByteAligned :: "bitWriter \<Rightarrow> bool" where
  "ByteAligned bw \<longleftrightarrow> \<not> bw_invalid bw \<and> bw_bitPos bw AND 7 = 0"

definition WriteAlignedBytes :: "bytes \<Rightarrow> (bitWriter, unit) go" where
  "WriteAlignedBytes src bw =
     (if bw_invalid bw \<or> \<not> ByteAligned bw \<or> int (length src) > maxBitWriterByteLen
         \<or> (int (length src) * 8) mod 2 ^ 64 > uint (0xffffffff - bw_bitPos bw)
      then (Inl ErrInvalidData, bw)
      else (Inr (), bw\<lparr>bw_buf := bw_buf bw @ src, bw_bitPos := bw_bitPos bw + word_of_nat (length src) * 8\<rparr>))"

text \<open>\<open>buf[len(buf)-1] |= 1 << k\<close>: a panic on the empty buffer.\<close>

definition set_last_bit :: "bytes \<Rightarrow> nat \<Rightarrow> bytes result" where
  "set_last_bit b k = (if b = [] then Inl Panic
     else set_idx b (length b - 1) (b ! (length b - 1) OR push_bit k 1))"

definition WriteBit :: "u32 \<Rightarrow> (bitWriter, unit) go" where
  "WriteBit v bw =
     (if bw_invalid bw \<or> bw_bitPos bw = 0xffffffff then (Inr (), bw\<lparr>bw_invalid := True\<rparr>)
      else let bw = (if bw_bitPos bw AND 7 = 0 then bw\<lparr>bw_buf := bw_buf bw @ [0]\<rparr> else bw)
        in if v AND 1 \<noteq> 0
           then (case set_last_bit (bw_buf bw) (unat (7 - (bw_bitPos bw AND 7))) of
                   Inl e \<Rightarrow> (Inl e, bw)
                 | Inr b \<Rightarrow> (Inr (), bw\<lparr>bw_buf := b, bw_bitPos := bw_bitPos bw + 1\<rparr>))
           else (Inr (), bw\<lparr>bw_bitPos := bw_bitPos bw + 1\<rparr>))"

text \<open>The loop \<open>for bitPos&7 != 0 { WriteBit(0) }\<close>; \<open>None\<close> is a loop that does not end.\<close>

partial_function (option) zero_align_loop :: "bitWriter \<Rightarrow> (unit result \<times> bitWriter) option" where
  "zero_align_loop bw =
     (if bw_bitPos bw AND 7 = 0 then Some (Inr (), bw)
      else (case WriteBit 0 bw of
              (Inl e, bw') \<Rightarrow> Some (Inl e, bw')
            | (Inr _, bw') \<Rightarrow> zero_align_loop bw'))"

definition WriteZeroAlign :: "bitWriter \<Rightarrow> (unit result \<times> bitWriter) option" where
  "WriteZeroAlign bw = (if bw_invalid bw then Some (Inr (), bw) else zero_align_loop bw)"

fun WriteBits_loop :: "u32 \<Rightarrow> nat \<Rightarrow> (bitWriter, unit) go" where
  "WriteBits_loop v 0 = ret ()"
| "WriteBits_loop v (Suc i) = thn (WriteBit (drop_bit i v)) (WriteBits_loop v i)"

definition WriteBits :: "u32 \<Rightarrow> u32 \<Rightarrow> (bitWriter, unit) go" where
  "WriteBits v n bw =
     (if bw_invalid bw \<or> n > 32 \<or> n > 0xffffffff - bw_bitPos bw then (Inl ErrInvalidData, bw)
      else WriteBits_loop v (unat n) bw)"

text \<open>\<open>bits.Len32\<close>.\<close>

function Len32 :: "u32 \<Rightarrow> nat" where
  "Len32 w = (if w = 0 then 0 else Suc (Len32 (drop_bit 1 w)))"
  by pat_completeness auto
termination
proof (relation "measure unat")
  fix w :: u32
  assume "w \<noteq> 0"
  then have "0 < unat w" by (simp add: unat_gt_0)
  then have "unat w div 2 < unat w" by simp
  then show "(drop_bit 1 w, w) \<in> measure unat"
    by (simp add: drop_bit_eq_div unat_div)
qed simp

declare Len32.simps [simp del]

text \<open>\<open>avLog2\<close> of \<open>intmath.go\<close>.\<close>

definition avLog2 :: "u32 \<Rightarrow> int" where
  "avLog2 v = int (Len32 (v OR 1)) - 1"

fun write_zeros :: "nat \<Rightarrow> (bitWriter, unit) go" where
  "write_zeros 0 = ret ()"
| "write_zeros (Suc n) = thn (WriteBit 0) (write_zeros n)"

definition WriteUEGolomb :: "u32 \<Rightarrow> (bitWriter, unit) go" where
  "WriteUEGolomb v =
     (let codeNum = v + 1
      in if codeNum = 0 then fail ErrInvalidData
         else let width = Len32 codeNum
           in thn (write_zeros (width - 1)) (WriteBits codeNum (word_of_nat width)))"

definition WriteSEGolomb :: "int \<Rightarrow> (bitWriter, unit) go" where
  "WriteSEGolomb v =
     (let codeNum = (if v \<le> 0 then - (v * 2) else v * 2 - 1)
      in if codeNum < 0 \<or> codeNum > 4294967294 then fail ErrInvalidData
         else WriteUEGolomb (word_of_int codeNum))"

definition WriteRBSPTrailingBits :: "bitWriter \<Rightarrow> (unit result \<times> bitWriter) option" where
  "WriteRBSPTrailingBits bw =
     (if bw_invalid bw then Some (Inr (), bw)
      else (case WriteBit 1 bw of
              (Inl e, bw') \<Rightarrow> Some (Inl e, bw')
            | (Inr _, bw') \<Rightarrow> zero_align_loop bw'))"

section \<open>What a writer holds\<close>

text \<open>
  \<open>holds bw bs\<close>: the writer is valid, its position counts the bits \<open>bs\<close>, and its buffer is
  \<open>bs\<close> padded with fewer than eight zero bits.
\<close>

definition holds :: "bitWriter \<Rightarrow> bool list \<Rightarrow> bool" where
  "holds bw bs \<longleftrightarrow> \<not> bw_invalid bw \<and> unat (bw_bitPos bw) = length bs
     \<and> (\<exists>k < 8. bytes_bits (bw_buf bw) = bs @ replicate k False)"

lemma byte_bits_0 [simp]: "byte_bits 0 = replicate 8 False"
  by (simp add: byte_bits_def numeral_eq_Suc)

lemma byte_bits_set: "j < 8 \<Longrightarrow> byte_bits (x OR 2 ^ j) = (byte_bits x)[7 - j := True]"
  by (rule nth_equalityI) (auto simp: byte_bits_nth nth_list_update bit_simps)

lemma bytes_bits_set_last:
  assumes "b \<noteq> []" "j < 8"
  shows "bytes_bits (b[length b - 1 := b ! (length b - 1) OR push_bit j 1])
    = (bytes_bits b)[8 * length b - 1 - j := True]"
  using assms
  by (cases b rule: rev_cases) (auto simp: byte_bits_set list_update_append nth_append)

lemma and7_mod8: "unat (w AND 7 :: u32) = unat w mod 8"
proof -
  have "w AND 7 = take_bit 3 w"
    by (simp add: take_bit_eq_mask mask_eq_exp_minus_1)
  then show ?thesis
    by (simp only: unsigned_take_bit_eq) (simp add: take_bit_eq_mod)
qed

lemma sub7_and7: "unat (7 - (w AND 7) :: u32) = 7 - unat w mod 8"
proof -
  have "w AND 7 \<le> 7" by (rule word_and_le1)
  then show ?thesis by (simp add: unat_sub and7_mod8)
qed

lemma and7_eq_0: "(w AND 7 = (0 :: u32)) \<longleftrightarrow> unat w mod 8 = 0"
  by (simp flip: and7_mod8 add: unat_eq_zero)

lemma odd_and1: "(v AND 1 \<noteq> (0 :: u32)) = bit v 0"
  by (simp add: and_one_eq bit_0 odd_iff_mod_2_eq_one)

lemma pad_length:
  assumes "n mod 8 \<noteq> 0" "k < 8" "8 * m = n + (k :: nat)"
  shows "k = Suc (7 - n mod 8)"
proof -
  have "(n + k) mod 8 = 0" by (simp flip: assms(3))
  then have "(n mod 8 + k) mod 8 = 0" by (simp add: mod_add_left_eq)
  then obtain q where q: "n mod 8 + k = 8 * q" by (auto simp: mod_eq_0_iff_dvd)
  moreover have "n mod 8 < 8" "0 < n mod 8" using assms(1) by simp_all
  ultimately have "q = 1" using assms(2) by linarith
  then show ?thesis using q by simp
qed

lemma WriteBit_holds:
  assumes "holds bw bs" "length bs < 2 ^ 32 - 1"
  shows "\<exists>bw'. WriteBit v bw = (Inr (), bw') \<and> holds bw' (bs @ [bit v 0])"
proof -
  from assms(1) obtain k where h: "\<not> bw_invalid bw" "unat (bw_bitPos bw) = length bs" "k < 8"
    and b: "bytes_bits (bw_buf bw) = bs @ replicate k False"
    by (auto simp: holds_def)
  have "length (bytes_bits (bw_buf bw)) = length bs + k" by (simp add: b)
  then have len: "8 * length (bw_buf bw) = length bs + k" by simp
  have nm: "bw_bitPos bw \<noteq> 0xffffffff"
    using assms(2) h(2) by auto
  define buf where "buf = (if bw_bitPos bw AND 7 = 0 then bw_buf bw @ [0] else bw_buf bw)"
  obtain j where j: "j < 8" "j = 7 - length bs mod 8"
    "bytes_bits buf = bs @ replicate (Suc j) False" "buf \<noteq> []" "8 * length buf = length bs + Suc j"
  proof (cases "length bs mod 8 = 0")
    case True
    then have "k = 0" using len h(3) by presburger
    moreover have "buf = bw_buf bw @ [0]" using True h(2) by (simp add: buf_def and7_eq_0)
    ultimately show ?thesis using True b len by (intro that [of 7]) simp_all
  next
    case False
    have k: "k = Suc (7 - length bs mod 8)" by (rule pad_length [OF False h(3) len])
    have ne: "bw_buf bw \<noteq> []"
    proof
      assume "bw_buf bw = []"
      then have "k = 0" using len by simp
      then show False using k by simp
    qed
    have e: "buf = bw_buf bw" using False h(2) by (simp add: buf_def and7_eq_0)
    show ?thesis
    proof (rule that [of "7 - length bs mod 8"])
      show "bytes_bits buf = bs @ replicate (Suc (7 - length bs mod 8)) False" by (simp only: e b k)
      show "8 * length buf = length bs + Suc (7 - length bs mod 8)" by (simp only: e len k)
    qed (simp_all add: e ne)
  qed
  have p1: "unat (bw_bitPos bw + 1) = Suc (length bs)"
    using h(2) assms(2) by (simp add: unat_word_ariths)
  have sh: "unat (7 - (bw_bitPos bw AND 7)) = j"
    using h(2) j(2) by (simp add: sub7_and7)
  have upd: "bytes_bits (buf[length buf - 1 := buf ! (length buf - 1) OR push_bit j 1])
      = bs @ True # replicate j False"
    using bytes_bits_set_last [OF j(4,1)] j(3,5) by (simp add: list_update_append)
  have grow: "(if bw_bitPos bw AND 7 = 0 then bw\<lparr>bw_buf := bw_buf bw @ [0]\<rparr> else bw) = bw\<lparr>bw_buf := buf\<rparr>"
    by (simp add: buf_def)
  let ?b = "if bit v 0 then buf[length buf - 1 := buf ! (length buf - 1) OR push_bit j 1] else buf"
  have "WriteBit v bw = (Inr (), bw\<lparr>bw_buf := ?b, bw_bitPos := bw_bitPos bw + 1\<rparr>)"
    unfolding WriteBit_def grow using h(1) nm sh j(4)
    by (simp add: odd_and1 set_last_bit_def Let_def)
  moreover have "\<exists>k < 8. bytes_bits ?b = (bs @ [bit v 0]) @ replicate k False"
    using upd j(1,3) by (intro exI [of _ j]) auto
  ultimately show ?thesis using h(1) p1 by (simp add: holds_def)
qed

section \<open>What each operation writes and reads\<close>

definition writes :: "(bitWriter, unit) go \<Rightarrow> bool list \<Rightarrow> bool" where
  "writes m out \<longleftrightarrow> (\<forall>bw bs. holds bw bs \<longrightarrow> length bs + length out < 2 ^ 32 \<longrightarrow>
     (\<exists>bw'. m bw = (Inr (), bw') \<and> holds bw' (bs @ out)))"

definition reads :: "('z bitReader_scheme, 'a) go \<Rightarrow> bool list \<Rightarrow> 'a \<Rightarrow> bool" where
  "reads m code v \<longleftrightarrow> (\<forall>s rest. wf_reader s \<longrightarrow> rem_bits s = code @ rest \<longrightarrow>
     m s = (Inr v, adv (length code) s))"

lemma writesD:
  assumes "writes m out" "holds bw bs" "length bs + length out < 2 ^ 32"
  obtains bw' where "m bw = (Inr (), bw')" "holds bw' (bs @ out)"
  using assms unfolding writes_def by blast

lemma writes_ret [intro, simp]: "writes (ret ()) []"
  by (simp add: writes_def ret_def)

lemma writes_thn [intro]:
  assumes "writes m a" "writes m' b"
  shows "writes (thn m m') (a @ b)"
  unfolding writes_def
proof (intro allI impI)
  fix bw bs
  assume h: "holds bw bs" and l: "length bs + length (a @ b) < 2 ^ 32"
  obtain bw1 where 1: "m bw = (Inr (), bw1)" "holds bw1 (bs @ a)"
    by (rule writesD [OF assms(1) h]) (use l in auto)
  obtain bw2 where "m' bw1 = (Inr (), bw2)" "holds bw2 ((bs @ a) @ b)"
    by (rule writesD [OF assms(2) 1(2)]) (use l in auto)
  with 1(1) show "\<exists>bw'. thn m m' bw = (Inr (), bw') \<and> holds bw' (bs @ a @ b)"
    by (simp add: thn_def bnd_def)
qed

lemma writes_WriteBit: "writes (WriteBit v) [bit v 0]"
  unfolding writes_def using WriteBit_holds by simp

lemma reads_ret [intro, simp]: "reads (ret v) [] v"
  by (simp add: reads_def ret_def)

lemma reads_bnd [intro]:
  fixes m :: "('z bitReader_scheme, 'a) go"
  assumes "reads m a v" "reads (f v) b r"
  shows "reads (bnd m f) (a @ b) r"
  unfolding reads_def
proof (intro allI impI)
  fix s :: "'z bitReader_scheme" and rest
  assume w: "wf_reader s" and r: "rem_bits s = (a @ b) @ rest"
  have "wf_reader (adv (length a) s)" "rem_bits (adv (length a) s) = b @ rest"
    using adv_wf [OF w, of "length a"] r by auto
  then show "bnd m f s = (Inr r, adv (length (a @ b)) s)"
    using assms w r by (simp add: reads_def bnd_def)
qed

definition word_bits :: "nat \<Rightarrow> u32 \<Rightarrow> bool list" where
  "word_bits n v = map (bit v) (rev [0..<n])"

lemma word_bits_simps [simp]:
  "word_bits 0 v = []" "word_bits (Suc n) v = bit v n # word_bits n v"
  by (simp_all add: word_bits_def)

lemma length_word_bits [simp]: "length (word_bits n v) = n"
  by (simp add: word_bits_def)

lemma bits_val_word_bits: "bits_val (word_bits n v) = unat v mod 2 ^ n"
proof (induction n)
  case 0
  then show ?case by simp
next
  case (Suc n)
  have "unat v mod 2 ^ Suc n = of_bool (bit v n) * 2 ^ n + unat v mod 2 ^ n"
    using take_bit_Suc_from_most [of n "unat v"]
    by (simp add: take_bit_eq_mod bit_unsigned_iff)
  then show ?case using Suc by (simp add: bits_val_Cons)
qed

lemma writes_WriteBits_loop: "writes (WriteBits_loop v n) (word_bits n v)"
proof (induction n)
  case 0
  then show ?case by simp
next
  case (Suc n)
  then show ?case
    using writes_thn [OF writes_WriteBit [of "drop_bit n v"] Suc] by (simp add: bit_simps)
qed

lemma writes_WriteBits:
  assumes "unat n \<le> 32"
  shows "writes (WriteBits v n) (word_bits (unat n) v)"
  unfolding writes_def
proof (intro allI impI)
  fix bw bs
  assume h: "holds bw bs" and l: "length bs + length (word_bits (unat n) v) < 2 ^ 32"
  have "\<not> n > 32" using assms by (simp add: word_less_nat_alt)
  moreover have "unat (0xffffffff - bw_bitPos bw) = 4294967295 - length bs"
    using h l by (subst unat_sub) (auto simp: holds_def word_le_nat_alt)
  then have "\<not> n > 0xffffffff - bw_bitPos bw"
    using l by (simp add: word_less_nat_alt)
  ultimately have "WriteBits v n bw = WriteBits_loop v (unat n) bw"
    using h by (simp add: WriteBits_def holds_def)
  then show "\<exists>bw'. WriteBits v n bw = (Inr (), bw') \<and> holds bw' (bs @ word_bits (unat n) v)"
    using writes_WriteBits_loop h l by (metis writes_def)
qed

lemma reads_readBits:
  assumes "unat n \<le> 32" "n \<noteq> 0"
  shows "reads (readBits n) (word_bits (unat n) v) (take_bit (unat n) v)"
  unfolding reads_def
proof (intro allI impI)
  fix s :: "'a bitReader_scheme" and rest
  assume w: "wf_reader s" and r: "rem_bits s = word_bits (unat n) v @ rest"
  have "0 < unat n" using assms(2) by (simp add: unat_gt_0)
  then have "int (unat n) \<le> bitsLeft s"
    using length_rem_bits [OF w] r by simp
  moreover have "(word_of_nat (unat v mod 2 ^ unat n) :: u32) = take_bit (unat n) v"
    by (metis take_bit_eq_mod unsigned_take_bit_eq word_of_nat_unat)
  ultimately show "readBits n s = (Inr (take_bit (unat n) v), adv (length (word_bits (unat n) v)) s)"
    using readBits_value [OF w assms(1)] r by (simp add: bits_val_word_bits)
qed

subsection \<open>Exp-Golomb codes\<close>

lemma Len32_bounds:
  assumes "w \<noteq> 0"
  shows "1 \<le> Len32 w \<and> 2 ^ (Len32 w - 1) \<le> unat w \<and> unat w < 2 ^ Len32 w"
  using assms
proof (induction w rule: Len32.induct)
  case (1 w)
  have d: "unat (drop_bit 1 w) = unat w div 2"
    by (simp add: drop_bit_eq_div unat_div)
  show ?case
  proof (cases "drop_bit 1 w = 0")
    case True
    then have "unat w div 2 = 0" using d by simp
    moreover have "0 < unat w" using "1.prems" by (simp add: unat_gt_0)
    ultimately have "unat w = 1" by simp
    then show ?thesis using True "1.prems" by (simp add: Len32.simps [of w] Len32.simps [of 0])
  next
    case False
    with "1.IH" "1.prems"
    have ih: "1 \<le> Len32 (drop_bit 1 w)" "2 ^ (Len32 (drop_bit 1 w) - 1) \<le> unat w div 2"
      "unat w div 2 < 2 ^ Len32 (drop_bit 1 w)"
      using d by auto
    obtain m where m: "Len32 (drop_bit 1 w) = Suc m"
      using ih(1) by (cases "Len32 (drop_bit 1 w)") auto
    then have "Len32 w = Suc (Suc m)"
      using "1.prems" by (simp add: Len32.simps [of w])
    moreover have "2 * M \<le> unat w \<and> unat w < 4 * M"
      if "M \<le> unat w div 2" "unat w div 2 < 2 * M" for M
      using that by arith
    ultimately show ?thesis using ih(2,3) m by simp
  qed
qed

lemma Len32_le_32: "Len32 w \<le> 32"
proof (cases "w = 0")
  case True
  then show ?thesis by (simp add: Len32.simps)
next
  case False
  then have "2 ^ (Len32 w - 1) \<le> unat w" using Len32_bounds by blast
  also have "unat w < 2 ^ 32" using unsigned_less [of w, where ?'a = nat] by simp
  finally have "Len32 w - 1 < 32" by (rule power_less_imp_less_exp [rotated]) simp
  then show ?thesis by simp
qed

definition ue_code :: "u32 \<Rightarrow> bool list" where
  "ue_code v = replicate (Len32 (v + 1) - 1) False @ word_bits (Len32 (v + 1)) (v + 1)"

lemma writes_write_zeros: "writes (write_zeros n) (replicate n False)"
proof (induction n)
  case (Suc n)
  then show ?case using writes_thn [OF writes_WriteBit [of 0] Suc] by simp
qed simp

lemma no_wrap: "v \<noteq> 0xffffffff \<Longrightarrow> v + 1 \<noteq> (0 :: u32)"
  by (auto simp: add_eq_0_iff2)

lemma ue_code_Cons:
  assumes "v \<noteq> 0xffffffff"
  obtains n where "n < 32" "Len32 (v + 1) = Suc n"
    "ue_code v = replicate n False @ True # word_bits n (v + 1)"
    "unat v + 1 = 2 ^ n + unat (v + 1) mod 2 ^ n"
proof -
  let ?w = "v + 1"
  have w: "?w \<noteq> 0" using assms by (rule no_wrap)
  obtain n where n: "Len32 ?w = Suc n"
    using Len32_bounds [OF w] by (cases "Len32 ?w") auto
  have b: "2 ^ n \<le> unat ?w" "unat ?w < 2 * 2 ^ n"
    using Len32_bounds [OF w] n by auto
  have d: "unat ?w div 2 ^ n = 1"
    using b by (intro div_nat_eqI) auto
  then have "bit (unat ?w) n" by (simp add: bit_iff_odd)
  then have "bit ?w n" by (simp add: bit_unsigned_iff)
  moreover have "unat ?w = 2 ^ n + unat ?w mod 2 ^ n"
    using div_mult_mod_eq [of "unat ?w" "2 ^ n"] d by simp
  moreover have "unat ?w = unat v + 1"
    using w by (simp add: unatSuc add.commute)
  ultimately show ?thesis
    using that [of n] n Len32_le_32 [of ?w] by (simp add: ue_code_def)
qed

lemma writes_WriteUEGolomb:
  assumes "v \<noteq> 0xffffffff"
  shows "writes (WriteUEGolomb v) (ue_code v)"
proof -
  have "unat (word_of_nat (Len32 (v + 1)) :: u32) = Len32 (v + 1)"
    using Len32_le_32 [of "v + 1"] by (simp add: unat_of_nat)
  then show ?thesis
    using writes_thn [OF writes_write_zeros [of "Len32 (v + 1) - 1"]
        writes_WriteBits [of "word_of_nat (Len32 (v + 1))" "v + 1"]] Len32_le_32 [of "v + 1"] no_wrap [OF assms]
    by (simp add: WriteUEGolomb_def Let_def ue_code_def)
qed

lemma reads_readUEGolombLong:
  assumes "v \<noteq> 0xffffffff"
  shows "reads readUEGolombLong (ue_code v) v"
proof -
  obtain n where n: "n < 32" "ue_code v = replicate n False @ True # word_bits n (v + 1)"
    "unat v + 1 = 2 ^ n + unat (v + 1) mod 2 ^ n"
    using ue_code_Cons [OF assms] by metis
  have "2 ^ n - 1 + unat (v + 1) mod 2 ^ n = unat v"
    using n(3) by (metis Nat.add_diff_assoc2 add_diff_cancel_right' one_le_numeral one_le_power)
  then have "(word_of_nat (2 ^ n - 1 + bits_val (word_bits n (v + 1))) :: u32) = v"
    by (simp add: bits_val_word_bits)
  then show ?thesis
    using readUEGolombLong_value [OF _ n(1) length_word_bits [of n "v + 1"]] n(2)
    by (auto simp: reads_def mult_2)
qed

text \<open>The signed mapping of \<open>WriteSEGolomb\<close> and its inverse in \<open>readSEGolombLong\<close>.\<close>

definition se_code :: "int \<Rightarrow> u32" where
  "se_code v = word_of_int (if v \<le> 0 then - (v * 2) else v * 2 - 1)"

lemma se_of_code_se_code:
  assumes "- MaxInt32 \<le> v" "v \<le> MaxInt32"
  shows "se_of_code (se_code v) = v" "se_code v \<noteq> 0xffffffff"
proof -
  define c where "c = (if v \<le> 0 then - (v * 2) else v * 2 - 1)"
  have c: "0 \<le> c" "c \<le> 4294967294" using assms by (auto simp: c_def)
  have u: "unat (se_code v) = nat c" "se_code v = word_of_int c"
    using c by (simp_all add: se_code_def c_def [symmetric] unat_eq_nat_uint uint_word_of_int del: uint_nat)
  then show "se_code v \<noteq> 0xffffffff" using c by auto
  have "unat (se_code v + 1) = nat (c + 1)"
    using u c by (simp add: unat_word_ariths nat_add_distrib)
  then have d: "i32_of (drop_bit 1 (se_code v + 1)) = (c + 1) div 2"
    using c by (subst i32_of_small) (simp_all add: drop_bit_eq_div unat_div nat_div_distrib)
  have "bit (se_code v) 0 \<longleftrightarrow> odd c"
    unfolding u(2) bit_word_of_int_iff by (simp add: bit_0)
  then have o: "(se_code v AND 1 = 0) \<longleftrightarrow> even c"
    using odd_and1 [of "se_code v"] by metis
  show "se_of_code (se_code v) = v"
    using assms by (auto simp: se_of_code_def Let_def o d [unfolded One_nat_def]) (auto simp: c_def i32_id split: if_splits)
qed

lemma writes_WriteSEGolomb:
  assumes "- MaxInt32 \<le> v" "v \<le> MaxInt32"
  shows "writes (WriteSEGolomb v) (ue_code (se_code v))"
proof -
  have "WriteSEGolomb v = WriteUEGolomb (se_code v)"
    using assms by (auto simp: WriteSEGolomb_def Let_def se_code_def)
  then show ?thesis
    using writes_WriteUEGolomb se_of_code_se_code(2) [OF assms] by simp
qed

lemma reads_readSEGolombLong:
  assumes "- MaxInt32 \<le> v" "v \<le> MaxInt32"
  shows "reads readSEGolombLong (ue_code (se_code v)) v"
  using reads_bnd [OF reads_readUEGolombLong [OF se_of_code_se_code(2) [OF assms]] reads_ret,
      of se_of_code] se_of_code_se_code(1) [OF assms]
  by (simp add: readSEGolombLong_def)

section \<open>The interface of a syntax element\<close>

text \<open>
  A syntax element is written by one operation and read by another, which agree on a bit code.
  What holds of any such element: whole sequences come back in order, and the codes parse
  uniquely.
\<close>

locale syntax_element =
  fixes put :: "'a \<Rightarrow> (bitWriter, unit) go"
    and read_as :: "'a \<Rightarrow> (bitReader, 'a) go"
    and code :: "'a \<Rightarrow> bool list"
    and valid :: "'a \<Rightarrow> bool"
  assumes put_code: "valid a \<Longrightarrow> writes (put a) (code a)"
    and read_code: "valid a \<Longrightarrow> reads (read_as a) (code a) a"
begin

lemma writes_all: "\<forall>a \<in> set as. valid a \<Longrightarrow> writes (forM as put) (concat (map code as))"
  by (induction as) (auto intro: writes_thn put_code)

lemma reads_all: "\<forall>a \<in> set as. valid a \<Longrightarrow> reads (mapM read_as as) (concat (map code as)) as"
proof (induction as)
  case (Cons a as)
  then have "reads (bnd (mapM read_as as) (\<lambda>xs. ret (a # xs))) (concat (map code as) @ []) (a # as)"
    by (intro reads_bnd reads_ret Cons.IH) auto
  then show ?case using Cons.prems
    by (auto intro: reads_bnd read_code)
qed simp

end

text \<open>The elements the code writes and reads: fixed-width fields, unsigned and signed Exp-Golomb.\<close>

datatype element = Bits u32 u32 | UE u32 | SE int

fun write_element :: "element \<Rightarrow> (bitWriter, unit) go" where
  "write_element (Bits n v) = WriteBits v n"
| "write_element (UE v) = WriteUEGolomb v"
| "write_element (SE v) = WriteSEGolomb v"

text \<open>Reading an element of the same kind (and width) as a given one.\<close>

fun read_element :: "element \<Rightarrow> (bitReader, element) go" where
  "read_element (Bits n _) = bnd (readBits n) (\<lambda>v. ret (Bits n v))"
| "read_element (UE _) = bnd readUEGolombLong (\<lambda>v. ret (UE v))"
| "read_element (SE _) = bnd readSEGolombLong (\<lambda>v. ret (SE v))"

fun element_code :: "element \<Rightarrow> bool list" where
  "element_code (Bits n v) = word_bits (unat n) v"
| "element_code (UE v) = ue_code v"
| "element_code (SE v) = ue_code (se_code v)"

fun element_ok :: "element \<Rightarrow> bool" where
  "element_ok (Bits n v) \<longleftrightarrow> 0 < unat n \<and> unat n \<le> 32 \<and> unat v < 2 ^ unat n"
| "element_ok (UE v) \<longleftrightarrow> v \<noteq> 0xffffffff"
| "element_ok (SE v) \<longleftrightarrow> - MaxInt32 \<le> v \<and> v \<le> MaxInt32"

lemma take_bit_unat_self:
  assumes "unat (v :: 'a::len word) < 2 ^ n"
  shows "take_bit n v = v"
proof -
  have "unat (take_bit n v) = unat v"
    using assms by (simp add: unsigned_take_bit_eq take_bit_nat_eq_self)
  then show ?thesis by (metis word_of_nat_unat)
qed

interpretation h264_element: syntax_element write_element read_element element_code element_ok
proof
  fix e
  assume "element_ok e"
  then show "writes (write_element e) (element_code e)"
    by (cases e) (auto intro: writes_WriteBits writes_WriteUEGolomb writes_WriteSEGolomb)
next
  fix e
  assume ok: "element_ok e"
  show "reads (read_element e) (element_code e) e"
  proof (cases e)
    case (Bits n v)
    then have "take_bit (unat n) v = v" "n \<noteq> 0"
      using ok by (auto intro: take_bit_unat_self)
    then show ?thesis using ok Bits reads_bnd [OF reads_readBits [of n v] reads_ret, of "Bits n"] by simp
  next
    case (UE v)
    then show ?thesis using ok reads_bnd [OF reads_readUEGolombLong reads_ret, of v UE] by simp
  next
    case (SE v)
    then show ?thesis using ok reads_bnd [OF reads_readSEGolombLong reads_ret, of v SE] by simp
  qed
qed

section \<open>RBSP trailing bits\<close>

lemma pad8: "((m :: nat) + (8 - m mod 8) mod 8) mod 8 = 0"
proof -
  have "(m + (8 - m mod 8) mod 8) mod 8 = (m mod 8 + (8 - m mod 8)) mod 8"
    by (simp only: mod_add_left_eq mod_add_right_eq)
  also have "m mod 8 + (8 - m mod 8) = 8" by simp
  finally show ?thesis by simp
qed

lemma not_aligned: "((m :: nat) + Suc n) mod 8 = 0 \<Longrightarrow> n < 7 \<Longrightarrow> m mod 8 \<noteq> 0"
  by presburger

lemma zero_align_holds:
  assumes "holds bw bs" "length bs + 8 \<le> 2 ^ 32"
  obtains bw' k where "zero_align_loop bw = Some (Inr (), bw')" "k < 8"
    "holds bw' (bs @ replicate k False)" "(length bs + k) mod 8 = 0"
proof -
  define n where "n = (8 - length bs mod 8) mod 8"
  have n: "n < 8" "(length bs + n) mod 8 = 0"
    unfolding n_def by (simp_all add: pad8)
  have "\<exists>bw'. zero_align_loop bw = Some (Inr (), bw') \<and> holds bw' (bs @ replicate n False)"
    using assms n
  proof (induction n arbitrary: bw bs)
    case 0
    then have "bw_bitPos bw AND 7 = 0"
      by (simp add: and7_eq_0 holds_def)
    then show ?case using 0 by (subst zero_align_loop.simps) simp
  next
    case (Suc n)
    have ne: "length bs mod 8 \<noteq> 0" using not_aligned Suc.prems(3,4) by simp
    then have "bw_bitPos bw AND 7 \<noteq> 0"
      using Suc.prems(1) by (simp add: and7_eq_0 holds_def)
    moreover obtain bw1 where 1: "WriteBit 0 bw = (Inr (), bw1)" "holds bw1 (bs @ [False])"
      using WriteBit_holds [OF Suc.prems(1), of 0] Suc.prems(2) by auto
    moreover have "length bs \<noteq> 2 ^ 32 - 8" using ne by auto
    then have "length (bs @ [False]) + 8 \<le> 2 ^ 32" using Suc.prems(2) by simp
    then have "\<exists>bw'. zero_align_loop bw1 = Some (Inr (), bw')
        \<and> holds bw' ((bs @ [False]) @ replicate n False)"
      using Suc.prems(3,4) by (intro Suc.IH 1(2)) simp_all
    ultimately show ?case by (subst zero_align_loop.simps) simp
  qed
  then obtain bw' where "zero_align_loop bw = Some (Inr (), bw')" "holds bw' (bs @ replicate n False)"
    by blast
  then show ?thesis using that [of bw' n] n by simp
qed

lemma holds_aligned:
  assumes "holds bw bs" "length bs mod 8 = 0"
  shows "bytes_bits (bw_buf bw) = bs"
proof -
  obtain j where j: "j < 8" "bytes_bits (bw_buf bw) = bs @ replicate j False"
    using assms(1) by (auto simp: holds_def)
  have "8 * length (bw_buf bw) = length bs + j"
    using arg_cong [OF j(2), of length] by simp
  then have "(length bs + j) mod 8 = 0"
    by (metis mod_mult_self1_is_0)
  then have "j mod 8 = 0" using assms(2) by (metis add_0 mod_add_left_eq)
  then show ?thesis using j by simp
qed

lemma WriteRBSPTrailingBits_bytes:
  assumes "holds bw bs" "length bs + 9 \<le> 2 ^ 32"
  obtains bw' k where "WriteRBSPTrailingBits bw = Some (Inr (), bw')" "k < 8"
    "bytes_bits (bw_buf bw') = bs @ True # replicate k False"
proof -
  obtain bw1 where 1: "WriteBit 1 bw = (Inr (), bw1)" "holds bw1 (bs @ [True])"
    using WriteBit_holds [OF assms(1), of 1] assms(2) by auto
  obtain bw' k where 2: "zero_align_loop bw1 = Some (Inr (), bw')" "k < 8"
    "holds bw' ((bs @ [True]) @ replicate k False)" "(length (bs @ [True]) + k) mod 8 = 0"
    by (rule zero_align_holds [OF 1(2)]) (use assms(2) in auto)
  then have "bytes_bits (bw_buf bw') = bs @ True # replicate k False"
    using holds_aligned [OF 2(3)] by simp
  then show ?thesis
    using that [of bw' k] 1(1) 2 assms(1)
    by (simp add: WriteRBSPTrailingBits_def holds_def)
qed

lemma TrailingZeros8_bits: "TrailingZeros8 w = length (takeWhile Not (rev (byte_bits w)))"
  by (simp add: TrailingZeros8_def byte_bits_def numeral_eq_Suc)

lemma byte_bits_eq_0: "(byte_bits w = replicate 8 False) \<longleftrightarrow> w = 0"
proof
  assume "byte_bits w = replicate 8 False"
  then have "\<not> bit w n" if "n < 8" for n
    using that byte_bits_nth [of "7 - n" w] by simp
  then show "w = 0" by (intro bit_word_eqI) simp
qed simp

lemma strip_zero_bytes_append:
  "n \<le> length b \<Longrightarrow> strip_zero_bytes (b @ c) n = strip_zero_bytes b n"
  by (induction n) (auto simp: nth_append)

text \<open>The RBSP's bit length is the position of its last one bit, however many zeros follow.\<close>

lemma rbspBitLength_last_one:
  assumes "bytes_bits b = bs @ True # replicate k False" "int (length b) \<le> maxBitReaderByteLen"
  shows "rbspBitLength b = Inr (word_of_nat (length bs))"
  using assms
proof (induction b arbitrary: k rule: rev_induct)
  case Nil
  then show ?case by simp
next
  case (snoc x b)
  show ?case
  proof (cases "x = 0")
    case True
    have "8 \<le> k"
    proof (rule ccontr)
      assume "\<not> 8 \<le> k"
      then have "(bytes_bits b @ replicate 8 False) ! (length bs) = False"
        using arg_cong [OF snoc.prems(1), of length] by (simp add: nth_append)
      then show False using snoc.prems(1) True by simp
    qed
    then obtain k' where k: "k = k' + 8" by (metis le_add_diff_inverse2)
    then have "bytes_bits b = bs @ True # replicate k' False"
      using snoc.prems(1) True by (simp add: replicate_add)
    then have "rbspBitLength b = Inr (word_of_nat (length bs))"
      using snoc.prems(2) by (intro snoc.IH) auto
    moreover have "rbspBitLength (b @ [0]) = rbspBitLength b"
    proof -
      have "strip_zero_bytes (b @ [0]) (length (b @ [0])) = strip_zero_bytes b (length b)"
        by (simp add: strip_zero_bytes_append)
      moreover have "0 < strip_zero_bytes b (length b) \<Longrightarrow> strip_zero_bytes b (length b) - 1 < length b"
        using strip_zero_bytes_le [of b "length b"] by linarith
      then have "0 < strip_zero_bytes b (length b) \<Longrightarrow>
          (b @ [0]) ! (strip_zero_bytes b (length b) - 1) = b ! (strip_zero_bytes b (length b) - 1)"
        by (simp add: nth_append)
      ultimately show ?thesis
        using snoc.prems(2) by (simp add: rbspBitLength_def Let_def)
    qed
    ultimately show ?thesis using True by simp
  next
    case False
    have s: "strip_zero_bytes (b @ [x]) (length (b @ [x])) = Suc (length b)" using False by simp
    have t: "TrailingZeros8 x = k"
    proof -
      have "takeWhile Not (rev (bytes_bits (b @ [x]))) = replicate k False"
        using snoc.prems(1) by (simp add: takeWhile_append)
      moreover have "takeWhile Not (rev (bytes_bits (b @ [x]))) = takeWhile Not (rev (byte_bits x))"
        using False byte_bits_eq_0 [of x]
        by (auto simp: takeWhile_append intro: replicate_eqI)
      ultimately show ?thesis by (metis TrailingZeros8_bits length_replicate)
    qed
    have l: "8 * length b + 8 = length bs + 1 + k"
      using arg_cong [OF snoc.prems(1), of length] by simp
    then have "int (Suc (length b)) * 8 - (int k + 1) = int (length bs)" by simp
    then show ?thesis
      using s t snoc.prems(2) unfolding rbspBitLength_def Let_def s by simp
  qed
qed

lemma newRBSPBitReader_last_one:
  assumes "bytes_bits b = bs @ True # replicate k False" "int (length b) \<le> maxBitReaderByteLen"
  obtains gb where "newRBSPBitReader b = Inr gb" "wf_reader gb" "rem_bits gb = bs" "bitsLeft gb = int (length bs)"
proof -
  have l: "8 * length b = length bs + 1 + k"
    using arg_cong [OF assms(1), of length] by simp
  moreover have "8 * length b < 2 ^ 31" using assms(2) by (simp add: maxBitReaderByteLen_def)
  ultimately have "unat (word_of_nat (length bs) :: u32) = length bs"
    by (simp add: unat_of_nat)
  then show ?thesis
    using that [of "\<lparr>gb_buf = b, gb_bitPos = 0, gb_numBits = word_of_nat (length bs), gb_invalid = False\<rparr>"]
      rbspBitLength_last_one [OF assms] l \<open>8 * length b < 2 ^ 31\<close>
    by (simp add: newRBSPBitReader_def wf_reader_def rem_bits_def assms(1) bitsLeft_def i32_of_small i32_id)
qed

lemma bitsLeft_adv:
  assumes "wf_reader gb" "int n \<le> bitsLeft gb" "0 \<le> bitsLeft gb"
  shows "bitsLeft (adv n gb) = bitsLeft gb - int n"
proof -
  have v: "\<not> gb_invalid gb" using assms(3) by (auto simp: bitsLeft_def)
  have b: "bitsLeft gb = int (unat (gb_numBits gb)) - int (unat (gb_bitPos gb))"
    by (rule bitsLeft_int [OF assms(1) v])
  have "unat (gb_numBits gb) < 2 ^ 31" using assms(1) v by (auto simp: wf_reader_def)
  then have l: "unat (gb_bitPos gb) + n < 2 ^ 31" using assms(2) b by linarith
  then have "unat (word_of_nat n :: u32) = n" by (simp add: unat_of_nat)
  then have "unat (gb_bitPos gb + word_of_nat n) = unat (gb_bitPos gb) + n"
    using l by (subst unat_add_lem [THEN iffD1]) auto
  moreover have "wf_reader (adv n gb)" by (rule wf_adv_bitsLeft(1) [OF assms(1,2)])
  ultimately show ?thesis
    using b v bitsLeft_int [of "adv n gb"] by (simp add: adv_def)
qed

text \<open>
  A whole RBSP: the elements written into an empty buffer, then the trailing bits; and the
  reader of the bytes.
\<close>

definition write_rbsp :: "element list \<Rightarrow> (unit result \<times> bitWriter) option" where
  "write_rbsp es = (case forM es write_element (NewBitWriter []) of
       (Inl e, bw) \<Rightarrow> Some (Inl e, bw)
     | (Inr _, bw) \<Rightarrow> WriteRBSPTrailingBits bw)"

definition read_rbsp :: "element list \<Rightarrow> bytes \<Rightarrow> (element list \<times> int) result" where
  "read_rbsp es b = rbind (newRBSPBitReader b) (\<lambda>gb.
     case mapM read_element es gb of (r, gb') \<Rightarrow> rbind r (\<lambda>xs. Inr (xs, bitsLeft gb')))"

definition elements_bits :: "element list \<Rightarrow> nat" where
  "elements_bits es = length (concat (map element_code es))"

lemma holds_new: "holds (NewBitWriter []) []"
  by (simp add: holds_def NewBitWriter_def maxBitWriterByteLen_def)

text \<open>
  C1. Round trip of the bit layer: any sequence of valid syntax elements (fixed-width fields of 1
  to 32 bits, unsigned and signed Exp-Golomb codes) of fewer than \<open>2^31 - 16\<close> bits in total is
  written without an error, and the RBSP reader of the bytes (the trailing bits found and
  discarded) delivers the same elements and then holds no more bits.
\<close>

theorem rbsp_roundtrip:
  assumes "\<forall>e \<in> set es. element_ok e" and "elements_bits es < 2 ^ 31 - 16"
  shows "\<exists>bw. write_rbsp es = Some (Inr (), bw) \<and> read_rbsp es (bw_buf bw) = Inr (es, 0)"
proof -
  let ?code = "concat (map element_code es)"
  have len: "length ?code < 2 ^ 31 - 16" using assms(2) by (simp add: elements_bits_def)
  obtain bw0 where 0: "forM es write_element (NewBitWriter []) = (Inr (), bw0)" "holds bw0 ([] @ ?code)"
    by (rule writesD [OF h264_element.writes_all [OF assms(1)] holds_new]) (use len in simp)
  obtain bw k where 1: "WriteRBSPTrailingBits bw0 = Some (Inr (), bw)" "k < 8"
    "bytes_bits (bw_buf bw) = ?code @ True # replicate k False"
    by (rule WriteRBSPTrailingBits_bytes [OF 0(2)]) (use len in auto)
  have "8 * length (bw_buf bw) = length ?code + 1 + k"
    using arg_cong [OF 1(3), of length] by simp
  then have "int (length (bw_buf bw)) \<le> maxBitReaderByteLen"
    using len 1(2) by (simp add: maxBitReaderByteLen_def)
  then obtain gb where gb: "newRBSPBitReader (bw_buf bw) = Inr gb" "wf_reader gb" "rem_bits gb = ?code"
    "bitsLeft gb = int (length ?code)"
    by (rule newRBSPBitReader_last_one [OF 1(3)])
  have "mapM read_element es gb = (Inr es, adv (length ?code) gb)"
    using h264_element.reads_all [OF assms(1)] gb(2,3) unfolding reads_def by (metis append_Nil2)
  moreover have "bitsLeft (adv (length ?code) gb) = 0"
    using bitsLeft_adv [OF gb(2), of "length ?code"] gb(4) by simp
  ultimately show ?thesis
    using 0(1) 1(1) gb(1) by (simp add: write_rbsp_def read_rbsp_def)
qed

lemma rbsp_roundtrip_witness:
  "\<exists>bw. write_rbsp [UE 100, SE (- 7), Bits 5 19, Bits 32 0xdeadbeef, UE 0] = Some (Inr (), bw)
     \<and> read_rbsp [UE 100, SE (- 7), Bits 5 19, Bits 32 0xdeadbeef, UE 0] (bw_buf bw)
       = Inr ([UE 100, SE (- 7), Bits 5 19, Bits 32 0xdeadbeef, UE 0], 0)"
proof (rule rbsp_roundtrip)
  show "\<forall>e \<in> set [UE 100, SE (- 7), Bits 5 19, Bits 32 0xdeadbeef, UE 0]. element_ok e"
    by simp
  have "elements_bits [UE 100, SE (- 7), Bits 5 19, Bits 32 0xdeadbeef, UE 0] = 58" by code_simp
  then show "elements_bits [UE 100, SE (- 7), Bits 5 19, Bits 32 0xdeadbeef, UE 0] < 2 ^ 31 - 16" by simp
qed

text \<open>
  The alignment loops end: a writer holding at most \<open>2^32 - 9\<close> bits is aligned by
  \<open>WriteZeroAlign\<close> with fewer than eight zero bits and closed by
  \<open>WriteRBSPTrailingBits\<close> with a one bit and fewer than eight zero bits, no error, no
  panic, and nothing else written.
\<close>

theorem writer_align_returns:
  assumes "holds bw bs" and "length bs + 9 \<le> 2 ^ 32"
  shows "(\<exists>bw' k. WriteZeroAlign bw = Some (Inr (), bw') \<and> k < 8
       \<and> bytes_bits (bw_buf bw') = bs @ replicate k False)
    \<and> (\<exists>bw' k. WriteRBSPTrailingBits bw = Some (Inr (), bw') \<and> k < 8
       \<and> bytes_bits (bw_buf bw') = bs @ True # replicate k False)"
proof
  obtain bw' k where a: "zero_align_loop bw = Some (Inr (), bw')" "k < 8"
    "holds bw' (bs @ replicate k False)" "(length bs + k) mod 8 = 0"
    by (rule zero_align_holds [OF assms(1)]) (use assms(2) in auto)
  then show "\<exists>bw' k. WriteZeroAlign bw = Some (Inr (), bw') \<and> k < 8
       \<and> bytes_bits (bw_buf bw') = bs @ replicate k False"
    using assms(1) holds_aligned [OF a(3)] by (auto simp: WriteZeroAlign_def holds_def)
  show "\<exists>bw' k. WriteRBSPTrailingBits bw = Some (Inr (), bw') \<and> k < 8
       \<and> bytes_bits (bw_buf bw') = bs @ True # replicate k False"
    by (rule WriteRBSPTrailingBits_bytes [OF assms]) blast
qed

lemma writer_align_returns_witness:
  "(\<exists>bw' k. WriteZeroAlign (NewBitWriter []) = Some (Inr (), bw') \<and> k < 8
       \<and> bytes_bits (bw_buf bw') = replicate k False)
    \<and> (\<exists>bw' k. WriteRBSPTrailingBits (NewBitWriter []) = Some (Inr (), bw') \<and> k < 8
       \<and> bytes_bits (bw_buf bw') = True # replicate k False)"
  using writer_align_returns [OF holds_new] by simp

lemma zero_align_stuck_aux:
  assumes "zero_align_loop bw = Some y"
  shows "bw_bitPos bw \<noteq> 0xffffffff"
proof (rule zero_align_loop.raw_induct [OF _ assms])
  fix f :: "bitWriter \<Rightarrow> (unit result \<times> bitWriter) option" and bw y
  assume ih: "\<And>bw y. f bw = Some y \<Longrightarrow> bw_bitPos bw \<noteq> 0xffffffff"
    and step: "(if bw_bitPos bw AND 7 = 0 then Some (Inr (), bw)
      else (case WriteBit 0 bw of (Inl e, bw') \<Rightarrow> Some (Inl e, bw') | (Inr _, bw') \<Rightarrow> f bw')) = Some y"
  show "bw_bitPos bw \<noteq> 0xffffffff"
  proof
    assume p: "bw_bitPos bw = 0xffffffff"
    then have "WriteBit 0 bw = (Inr (), bw\<lparr>bw_invalid := True\<rparr>)"
      by (simp add: WriteBit_def)
    then have "f (bw\<lparr>bw_invalid := True\<rparr>) = Some y" using step p by simp
    from ih [OF this] p show False by simp
  qed
qed

lemma zero_align_stuck: "bw_bitPos bw = 0xffffffff \<Longrightarrow> zero_align_loop bw = None"
  using zero_align_stuck_aux by (cases "zero_align_loop bw") auto

text \<open>
  C20. The full writer loops for ever: a writer whose position has reached \<open>2^32 - 1\<close> bits (valid,
  not aligned) has its invalid flag set by \<open>WriteBit\<close> but does not move, so the alignment loop of
  \<open>WriteZeroAlign\<close> and of \<open>WriteRBSPTrailingBits\<close> never ends.
\<close>

theorem writer_align_stuck:
  "WriteZeroAlign \<lparr>bw_buf = b, bw_bitPos = 0xffffffff, bw_invalid = False\<rparr> = None
   \<and> WriteRBSPTrailingBits \<lparr>bw_buf = b, bw_bitPos = 0xffffffff, bw_invalid = False\<rparr> = None"
  by (simp add: WriteZeroAlign_def WriteRBSPTrailingBits_def WriteBit_def zero_align_stuck)

end
