(* ===== verification/Nal_Units.thy ===== *)
theory Nal_Units
  imports Bit_Writer
begin

text \<open>
  NAL units (\<open>internal/h264/nal.go\<close>, the NAL part of \<open>internal/h264/bitwriter.go\<close>, and the checked
  integer arithmetic of \<open>intcheck.go\<close>): the emulation prevention bytes, the two framings of a
  packet (Annex B start codes and AVC length prefixes), the sniffing of the framing, and the
  \<open>avcC\<close> configuration record as a container.

  Every index expression below is guarded by the length test beside it, as in the source. A NAL
  unit's \<open>RBSP\<close> slice points into a scratch buffer that is only appended to, so it is a value here.
\<close>

section \<open>Checked integers\<close>

definition fitsCInt :: "int \<Rightarrow> bool" where
  "fitsCInt v \<longleftrightarrow> MinInt32 \<le> v \<and> v \<le> MaxInt32"

definition checkedAddInt :: "int \<Rightarrow> int \<Rightarrow> int result" where
  "checkedAddInt a b =
     (if b > 0 \<and> a > maxInt - b then Inl ErrInvalidData
      else if b < 0 \<and> a < - maxInt - 1 - b then Inl ErrInvalidData
      else Inr (a + b))"

definition checkedMulInt :: "int \<Rightarrow> int \<Rightarrow> int result" where
  "checkedMulInt a b =
     (if a = 0 \<or> b = 0 then Inr 0
      else if a < 0 \<or> b < 0 then Inl ErrInvalidData
      else if a > maxInt div b then Inl ErrInvalidData
      else Inr (a * b))"

text \<open>The checks are exact: an error exactly when the true result leaves the 64-bit range.\<close>

definition fits64 :: "int \<Rightarrow> bool" where
  "fits64 x \<longleftrightarrow> - maxInt - 1 \<le> x \<and> x \<le> maxInt"

lemma checkedAddInt_exact:
  assumes "fits64 a" "fits64 b"
  shows "checkedAddInt a b = (if fits64 (a + b) then Inr (a + b) else Inl ErrInvalidData)"
  using assms by (auto simp: checkedAddInt_def fits64_def)

lemma checkedMulInt_exact:
  assumes "0 \<le> a" "0 \<le> b" "fits64 a" "fits64 b"
  shows "checkedMulInt a b = (if fits64 (a * b) then Inr (a * b) else Inl ErrInvalidData)"
proof (cases "a = 0 \<or> b = 0")
  case True
  then show ?thesis by (auto simp: checkedMulInt_def fits64_def)
next
  case False
  then have "0 < a" "0 < b" using assms by auto
  have "a * b \<le> maxInt" if "a \<le> maxInt div b"
  proof -
    have "a * b \<le> (maxInt div b) * b" using that \<open>0 < b\<close> by (intro mult_right_mono) auto
    also have "\<dots> \<le> maxInt"
      using div_mult_mod_eq [of maxInt b] pos_mod_sign [OF \<open>0 < b\<close>, of maxInt] by linarith
    finally show ?thesis .
  qed
  moreover have "a \<le> maxInt div b" if "a * b \<le> maxInt"
    using zdiv_mono1 [OF that \<open>0 < b\<close>] \<open>0 < b\<close> by simp
  ultimately have "a > maxInt div b \<longleftrightarrow> maxInt < a * b" by linarith
  moreover have "0 < a * b" using \<open>0 < a\<close> \<open>0 < b\<close> by simp
  ultimately show ?thesis using False \<open>0 < a\<close> \<open>0 < b\<close>
    by (simp add: checkedMulInt_def fits64_def not_less order.trans [of "- 9223372036854775808" 0 "a * b"])
qed

definition nalAppendCapacity :: "int \<Rightarrow> int \<Rightarrow> int \<Rightarrow> int result" where
  "nalAppendCapacity base pre rbspLen =
     (if base < 0 \<or> pre < 0 \<or> rbspLen < 0 then Inl ErrInvalidData
      else rbind (checkedAddInt base pre) (\<lambda>n.
        rbind (checkedAddInt n rbspLen) (\<lambda>n. checkedAddInt n (rbspLen div 2))))"

section \<open>Emulation prevention\<close>

text \<open>The loop of \<open>AppendEBSP\<close>: \<open>zeros\<close> counts the zero bytes last written.\<close>

fun ebsp_loop :: "nat \<Rightarrow> bytes \<Rightarrow> bytes \<Rightarrow> bytes" where
  "ebsp_loop zeros dst [] = dst"
| "ebsp_loop zeros dst (b # bs) =
     (let (dst, zeros) = (if zeros \<ge> 2 \<and> b \<le> 3 then (dst @ [3], 0) else (dst, zeros))
      in ebsp_loop (if b = 0 then zeros + 1 else 0) (dst @ [b]) bs)"

definition AppendEBSP :: "bytes \<Rightarrow> bytes \<Rightarrow> bytes" where
  "AppendEBSP dst rbsp =
     (case nalAppendCapacity (int (length dst)) 0 (int (length rbsp)) of
        Inl _ \<Rightarrow> []
      | Inr _ \<Rightarrow> ebsp_loop 0 dst rbsp)"

text \<open>The loop of \<open>AppendRBSP\<close>.\<close>

fun rbsp_loop :: "nat \<Rightarrow> bytes \<Rightarrow> bytes \<Rightarrow> bytes result" where
  "rbsp_loop zeros dst [] = Inr dst"
| "rbsp_loop zeros dst (b # bs) =
     (if zeros \<ge> 2 \<and> b = 3 then rbsp_loop 0 dst bs
      else if zeros \<ge> 2 \<and> (b = 1 \<or> b = 2) then Inl ErrInvalidData
      else rbsp_loop (if b = 0 then zeros + 1 else 0) (dst @ [b]) bs)"

definition AppendRBSP :: "bytes \<Rightarrow> bytes \<Rightarrow> bytes result" where
  "AppendRBSP dst ebsp = rbsp_loop 0 dst ebsp"

section \<open>NAL units\<close>

record NALUnit =
  nal_RefIDC :: u8
  nal_Type :: u8
  nal_Raw :: bytes
  nal_RBSP :: bytes

abbreviation (input) NALSlice :: u8 where "NALSlice \<equiv> 1"
abbreviation (input) NALIDRSlice :: u8 where "NALIDRSlice \<equiv> 5"
abbreviation (input) NALSPS :: u8 where "NALSPS \<equiv> 7"
abbreviation (input) NALPPS :: u8 where "NALPPS \<equiv> 8"

text \<open>Appending to the destination; on an error the destination is what it was.\<close>

definition AppendNAL :: "u8 \<Rightarrow> u8 \<Rightarrow> bytes \<Rightarrow> (bytes, unit) go" where
  "AppendNAL refIDC typ rbsp dst =
     (if refIDC > 3 \<or> typ > 31 then (Inl ErrInvalidData, dst)
      else (case nalAppendCapacity (int (length dst)) 1 (int (length rbsp)) of
              Inl e \<Rightarrow> (Inl e, dst)
            | Inr _ \<Rightarrow> (Inr (), AppendEBSP (dst @ [push_bit 5 refIDC OR typ]) rbsp)))"

definition AppendAnnexBNAL :: "u8 \<Rightarrow> u8 \<Rightarrow> bytes \<Rightarrow> (bytes, unit) go" where
  "AppendAnnexBNAL refIDC typ rbsp dst =
     (case nalAppendCapacity (int (length dst)) 5 (int (length rbsp)) of
        Inl e \<Rightarrow> (Inl e, dst)
      | Inr _ \<Rightarrow>
          (case AppendNAL refIDC typ rbsp (dst @ [0, 0, 0, 1]) of
             (Inl e, dst') \<Rightarrow> (Inl e, take (length dst) dst')
           | (Inr _, dst') \<Rightarrow> (Inr (), dst')))"

text \<open>The loop that fills in the length prefix from its last byte to its first.\<close>

fun patch_length :: "bytes \<Rightarrow> nat \<Rightarrow> nat \<Rightarrow> nat \<Rightarrow> bytes" where
  "patch_length dst start 0 nalLen = dst"
| "patch_length dst start (Suc i) nalLen =
     patch_length (dst[start + i := word_of_nat nalLen]) start i (drop_bit 8 nalLen)"

definition AppendAVCNAL :: "int \<Rightarrow> u8 \<Rightarrow> u8 \<Rightarrow> bytes \<Rightarrow> (bytes, unit) go" where
  "AppendAVCNAL nalLengthSize refIDC typ rbsp dst =
     (if nalLengthSize < 1 \<or> nalLengthSize > 4 then (Inl ErrInvalidData, dst)
      else (case checkedAddInt (int (length dst)) nalLengthSize of
        Inl _ \<Rightarrow> (Inl ErrInvalidData, dst)
      | Inr _ \<Rightarrow>
          let start = length dst;
              dst1 = dst @ replicate (nat nalLengthSize) 0;
              nalStart = length dst1
          in (case AppendNAL refIDC typ rbsp dst1 of
                (Inl e, dst2) \<Rightarrow> (Inl e, take start dst2)
              | (Inr _, dst2) \<Rightarrow>
                  let nalLen = length dst2 - nalStart
                  in if int nalLen \<ge> 2 ^ nat (nalLengthSize * 8) then (Inl ErrInvalidData, take start dst2)
                     else (Inr (), patch_length dst2 start (nat nalLengthSize) nalLen))))"

definition nalInputTooLarge :: "bytes \<Rightarrow> bool" where
  "nalInputTooLarge data \<longleftrightarrow> int (length data) > maxInt div 2 \<or> int (length data) > 4294967295"

definition parseNALInto :: "bytes \<Rightarrow> bytes \<Rightarrow> (NALUnit \<times> bytes) result" where
  "parseNALInto raw rbspScratch =
     (case raw of [] \<Rightarrow> Inl ErrInvalidData
      | header # body \<Rightarrow>
          if header AND 0x80 \<noteq> 0 then Inl ErrInvalidData
          else rbind (AppendRBSP rbspScratch body) (\<lambda>scratch.
            Inr (\<lparr>nal_RefIDC = drop_bit 5 header AND 3, nal_Type = header AND 0x1f, nal_Raw = raw,
                  nal_RBSP = drop (length rbspScratch) scratch\<rparr>, scratch)))"

definition parseNAL :: "bytes \<Rightarrow> NALUnit result" where
  "parseNAL raw = rbind (parseNALInto raw []) (\<lambda>(nal, _). Inr nal)"

section \<open>Annex B\<close>

function findStartCode :: "bytes \<Rightarrow> nat \<Rightarrow> (nat \<times> nat) option" where
  "findStartCode data i =
     (if i + 3 \<le> length data then
        if data ! i \<noteq> 0 \<or> data ! (i + 1) \<noteq> 0 then findStartCode data (i + 1)
        else if data ! (i + 2) = 1 then Some (i, 3)
        else if i + 4 \<le> length data \<and> data ! (i + 2) = 0 \<and> data ! (i + 3) = 1 then Some (i, 4)
        else findStartCode data (i + 1)
      else None)"
  by pat_completeness auto
termination by (relation "measure (\<lambda>(data, i). length data - i)") auto

declare findStartCode.simps [simp del]

lemma findStartCode_Some:
  "findStartCode data i = Some (s, p) \<Longrightarrow> i \<le> s \<and> (p = 3 \<or> p = 4) \<and> s + p \<le> length data"
proof (induction data i rule: findStartCode.induct)
  case (1 data i)
  then show ?case
    by (subst (asm) (3) findStartCode.simps) (auto split: if_splits)
qed

text \<open>
  The splitter's loop, from the first byte of a unit: the unit runs up to the next start code or
  to the end of the data, an empty one is skipped. The result is the output, the scratch buffer
  and the error, as in the source.
\<close>

type_synonym split_result = "NALUnit list \<times> bytes \<times> unit result"

function SplitAnnexB_loop :: "bytes \<Rightarrow> nat \<Rightarrow> NALUnit list \<Rightarrow> bytes \<Rightarrow> split_result" where
  "SplitAnnexB_loop data nalStart out scratch =
     (let next = findStartCode data nalStart;
          nalEnd = (case next of Some (s, _) \<Rightarrow> s | None \<Rightarrow> length data)
      in if nalEnd > nalStart
         then (case parseNALInto (drop nalStart (take nalEnd data)) scratch of
                 Inl e \<Rightarrow> (out, scratch, Inl e)
               | Inr (nal, scratch') \<Rightarrow>
                   (case next of
                      None \<Rightarrow> (out @ [nal], scratch', Inr ())
                    | Some (s, p) \<Rightarrow> SplitAnnexB_loop data (s + p) (out @ [nal]) scratch'))
         else (case next of
                 None \<Rightarrow> (out, scratch, Inr ())
               | Some (s, p) \<Rightarrow> SplitAnnexB_loop data (s + p) out scratch))"
  by pat_completeness auto
termination
  by (relation "measure (\<lambda>(data, nalStart, _). length data - nalStart)")
     (auto dest!: findStartCode_Some [OF sym])

declare SplitAnnexB_loop.simps [simp del]

definition SplitAnnexBInto :: "bytes \<Rightarrow> split_result" where
  "SplitAnnexBInto data =
     (if nalInputTooLarge data then ([], [], Inl ErrInvalidData)
      else (case findStartCode data 0 of
              None \<Rightarrow> ([], [], Inl ErrInvalidData)
            | Some (s, p) \<Rightarrow>
                (case SplitAnnexB_loop data (s + p) [] [] of
                   (out, scratch, Inl e) \<Rightarrow> (out, scratch, Inl e)
                 | (out, scratch, Inr _) \<Rightarrow>
                     if out = [] then (out, scratch, Inl ErrInvalidData) else (out, scratch, Inr ()))))"

definition SplitAnnexB :: "bytes \<Rightarrow> NALUnit list \<times> unit result" where
  "SplitAnnexB data = (case SplitAnnexBInto data of (out, _, r) \<Rightarrow> (out, r))"

section \<open>AVC length prefixes\<close>

text \<open>\<open>nalSize = (nalSize << 8) | int(data[pos])\<close> over the bytes of the prefix.\<close>

definition be_value :: "bytes \<Rightarrow> int" where
  "be_value bs = foldl (\<lambda>n b. push_bit 8 n OR int (unat b)) 0 bs"

function SplitAVCC_loop :: "bytes \<Rightarrow> nat \<Rightarrow> nat \<Rightarrow> NALUnit list \<Rightarrow> bytes \<Rightarrow> split_result" where
  "SplitAVCC_loop data n pos out scratch =
     (if pos < length data then
        if int pos \<ge> int (length data) - int n then (out, scratch, Inl ErrInvalidData)
        else let nalSize = be_value (take n (drop pos data)); pos = pos + n
          in if nalSize \<le> 0 \<or> nalSize > int (length data - pos) then (out, scratch, Inl ErrInvalidData)
             else (case parseNALInto (take (nat nalSize) (drop pos data)) scratch of
                     Inl e \<Rightarrow> (out, scratch, Inl e)
                   | Inr (nal, scratch') \<Rightarrow>
                       SplitAVCC_loop data n (pos + nat nalSize) (out @ [nal]) scratch')
      else (out, scratch, Inr ()))"
  by pat_completeness auto
termination
  by (relation "measure (\<lambda>(data, n, pos, _). length data - pos)") auto

declare SplitAVCC_loop.simps [simp del]

definition SplitAVCCInto :: "bytes \<Rightarrow> int \<Rightarrow> split_result" where
  "SplitAVCCInto data nalLengthSize =
     (if nalLengthSize < 1 \<or> nalLengthSize > 4 then ([], [], Inl ErrInvalidData)
      else if nalInputTooLarge data then ([], [], Inl ErrInvalidData)
      else (case SplitAVCC_loop data (nat nalLengthSize) 0 [] [] of
              (out, scratch, Inl e) \<Rightarrow> (out, scratch, Inl e)
            | (out, scratch, Inr _) \<Rightarrow>
                if out = [] then (out, scratch, Inl ErrInvalidData) else (out, scratch, Inr ())))"

definition SplitAVCC :: "bytes \<Rightarrow> int \<Rightarrow> NALUnit list \<times> unit result" where
  "SplitAVCC data nalLengthSize = (case SplitAVCCInto data nalLengthSize of (out, _, r) \<Rightarrow> (out, r))"

section \<open>Sniffing the framing\<close>

datatype H264PacketFormat = H264PacketFormatAnnexB | H264PacketFormatAVC

definition looksAnnexB :: "bytes \<Rightarrow> bool" where
  "looksAnnexB data \<longleftrightarrow> findStartCode data 0 \<noteq> None"

definition be32 :: "bytes \<Rightarrow> nat \<Rightarrow> int" where
  "be32 data off = be_value (take 4 (drop off data))"

definition annexB_packet :: "bytes \<Rightarrow> NALUnit list \<times> H264PacketFormat \<times> unit result" where
  "annexB_packet data = (case SplitAnnexB data of (nals, r) \<Rightarrow> (nals, H264PacketFormatAnnexB, r))"

definition avc_packet :: "bytes \<Rightarrow> int \<Rightarrow> NALUnit list \<times> H264PacketFormat \<times> unit result" where
  "avc_packet data n = (case SplitAVCC data n of (nals, r) \<Rightarrow> (nals, H264PacketFormatAVC, r))"

definition SplitAutoPacket :: "bytes \<Rightarrow> int \<Rightarrow> NALUnit list \<times> H264PacketFormat \<times> unit result" where
  "SplitAutoPacket data n =
     (if data = [] \<or> nalInputTooLarge data \<or> n < 0 \<or> n > 4
      then ([], H264PacketFormatAnnexB, Inl ErrInvalidData)
      else if n = 4 \<and> length data > 8 \<and> be32 data 0 = 1 \<and> be32 data 5 > int (length data)
      then annexB_packet data
      else if n = 4 \<and> length data > 3 \<and> be32 data 0 > 1 \<and> be32 data 0 \<le> int (length data)
      then avc_packet data 4
      else if n \<ge> 1
      then (case SplitAVCC data n of
              (nals, Inl e) \<Rightarrow> if looksAnnexB data then annexB_packet data
                              else (nals, H264PacketFormatAVC, Inl e)
            | (nals, Inr u) \<Rightarrow> (nals, H264PacketFormatAVC, Inr u))
      else if looksAnnexB data then annexB_packet data
      else if length data > 3 \<and> be32 data 0 > 1 \<and> be32 data 0 \<le> int (length data)
      then avc_packet data 4
      else ([], H264PacketFormatAnnexB, Inl ErrInvalidData))"

section \<open>Emulation prevention is sound\<close>

lemma ebsp_loop_append: "ebsp_loop z dst bs = dst @ ebsp_loop z [] bs"
proof (induction bs arbitrary: z dst)
  case (Cons b bs)
  have "ebsp_loop n (dst @ ys) bs = dst @ ebsp_loop n ys bs" for n ys
    using Cons.IH [of n "dst @ ys"] Cons.IH [of n ys] by simp
  then show ?case by (simp add: Let_def)
qed simp

lemma rbsp_ebsp_loop: "rbsp_loop z dst (ebsp_loop z [] bs) = Inr (dst @ bs)"
proof (induction bs arbitrary: z dst)
  case (Cons b bs)
  have small: "(b = 1 \<or> b = 2 \<or> b = 3) \<Longrightarrow> b \<le> 3" by auto
  show ?case
  proof (cases "z \<ge> 2 \<and> b \<le> 3")
    case True
    then show ?thesis
      by (simp add: Let_def Cons.IH ebsp_loop_append [of _ "[3, b]"])
  next
    case False
    moreover have "b = 0 \<Longrightarrow> b \<le> 3" by simp
    ultimately show ?thesis using small
      by (auto simp: Let_def Cons.IH ebsp_loop_append [of _ "[b]"])
  qed
qed simp

text \<open>
  The bytes that may not stand after two zero bytes in a NAL unit: 0, 1 and 2 (clause 7.4.1); the
  scanner below carries the zeros already seen.
\<close>

fun emulation_free_from :: "nat \<Rightarrow> bytes \<Rightarrow> bool" where
  "emulation_free_from z [] \<longleftrightarrow> True"
| "emulation_free_from z (b # bs) \<longleftrightarrow>
     (z \<ge> 2 \<longrightarrow> b > 2) \<and> emulation_free_from (if b = 0 then z + 1 else 0) bs"

definition emulation_free :: "bytes \<Rightarrow> bool" where
  "emulation_free bs \<longleftrightarrow>
     (\<forall>i < length bs - 2. bs ! i = 0 \<and> bs ! (i + 1) = 0 \<longrightarrow> bs ! (i + 2) > 2)"

lemma emulation_free_from_ebsp: "emulation_free_from z (ebsp_loop z [] bs)"
proof (induction bs arbitrary: z)
  case (Cons b bs)
  have "\<not> b \<le> 3 \<Longrightarrow> (2 :: u8) < b" by (simp add: word_le_nat_alt word_less_nat_alt)
  then show ?case
    using Cons.IH
    by (auto simp: Let_def ebsp_loop_append [of _ "[3, b]"] ebsp_loop_append [of _ "[b]"])
qed simp

lemma emulation_free_from_mono:
  "emulation_free_from z bs \<Longrightarrow> z' \<le> z \<Longrightarrow> emulation_free_from z' bs"
proof (induction bs arbitrary: z z')
  case (Cons b bs)
  then show ?case by auto
qed simp

lemma emulation_free_fromD:
  "emulation_free_from z bs \<Longrightarrow> i < length bs - 2 \<Longrightarrow> bs ! i = 0 \<Longrightarrow> bs ! (i + 1) = 0 \<Longrightarrow> bs ! (i + 2) > 2"
proof (induction i arbitrary: z bs)
  case 0
  then obtain a b c cs where "bs = a # b # c # cs"
    by (cases bs; cases "tl bs"; cases "tl (tl bs)") auto
  then show ?case using 0 by simp
next
  case (Suc i)
  then obtain a as where "bs = a # as" by (cases bs) auto
  then show ?case using Suc.IH [of _ as] Suc.prems by auto
qed

lemma emulation_freeI: "emulation_free_from z bs \<Longrightarrow> emulation_free bs"
  using emulation_free_fromD unfolding emulation_free_def by blast

text \<open>A capacity that is granted is one the buffer can have.\<close>

lemma nalAppendCapacity_ok:
  assumes "0 \<le> b" "0 \<le> p" "0 \<le> n" "b + p + n + n div 2 \<le> maxInt"
  shows "nalAppendCapacity b p n = Inr (b + p + n + n div 2)"
proof -
  have "0 \<le> n div 2" using assms(3) by simp
  then have "fits64 b" "fits64 p" "fits64 n" "fits64 (n div 2)"
    "fits64 (b + p)" "fits64 (b + p + n)" "fits64 (b + p + n + n div 2)"
    unfolding fits64_def using assms by linarith+
  then show ?thesis using assms(1-3)
    by (simp add: nalAppendCapacity_def checkedAddInt_exact)
qed

lemma length_ebsp_loop:
  "2 * length (ebsp_loop z [] bs) \<le> 3 * length bs + z"
proof (induction bs arbitrary: z)
  case (Cons b bs)
  show ?case
  proof (cases "z \<ge> 2 \<and> b \<le> 3")
    case True
    then show ?thesis
      using Cons.IH [of 0] Cons.IH [of 1]
      by (auto simp: Let_def ebsp_loop_append [of _ "[3, b]"])
  next
    case False
    then show ?thesis
      using Cons.IH [of 0] Cons.IH [of "Suc z"]
      by (auto simp: Let_def ebsp_loop_append [of _ "[b]"])
  qed
qed simp

text \<open>What one \<open>AppendEBSP\<close> within the address space adds.\<close>

definition ebsp :: "bytes \<Rightarrow> bytes" where
  "ebsp rbsp = ebsp_loop 0 [] rbsp"

definition capacity_ok :: "nat \<Rightarrow> bytes \<Rightarrow> bool" where
  "capacity_ok base rbsp \<longleftrightarrow> int base + int (length rbsp) + int (length rbsp) div 2 \<le> maxInt"

lemma AppendEBSP_ebsp: "capacity_ok (length dst) rbsp \<Longrightarrow> AppendEBSP dst rbsp = dst @ ebsp rbsp"
  using nalAppendCapacity_ok [of "int (length dst)" 0 "int (length rbsp)"]
  by (simp add: AppendEBSP_def capacity_ok_def ebsp_def ebsp_loop_append [of _ dst])

lemma AppendRBSP_ebsp [simp]: "AppendRBSP dst (ebsp rbsp) = Inr (dst @ rbsp)"
  by (simp add: AppendRBSP_def ebsp_def rbsp_ebsp_loop)

lemma length_ebsp: "length (ebsp rbsp) \<le> length rbsp + length rbsp div 2"
  using length_ebsp_loop [of 0 rbsp] by (simp add: ebsp_def)

section \<open>The interface of a framing\<close>

text \<open>
  What a packet's framing promises: \<open>run\<close>, the splitter started at a byte position, consumes the
  frame of one unit and goes on behind it, and stops at the end of the data. Then it splits a
  sequence of frames into exactly the units that were framed.
\<close>

record nal_spec =
  spec_refIDC :: u8
  spec_typ :: u8
  spec_rbsp :: bytes

definition nal_header :: "nal_spec \<Rightarrow> u8" where
  "nal_header u = push_bit 5 (spec_refIDC u) OR spec_typ u"

definition nal_bytes :: "nal_spec \<Rightarrow> bytes" where
  "nal_bytes u = nal_header u # ebsp (spec_rbsp u)"

definition unit_of :: "nal_spec \<Rightarrow> NALUnit" where
  "unit_of u = \<lparr>nal_RefIDC = spec_refIDC u, nal_Type = spec_typ u, nal_Raw = nal_bytes u,
                nal_RBSP = spec_rbsp u\<rparr>"

definition nal_ok :: "nal_spec \<Rightarrow> bool" where
  "nal_ok u \<longleftrightarrow> spec_refIDC u \<le> 3 \<and> spec_typ u \<le> 31"

locale nal_framing =
  fixes frame :: "nal_spec \<Rightarrow> bytes"
    and run :: "bytes \<Rightarrow> nat \<Rightarrow> NALUnit list \<Rightarrow> bytes \<Rightarrow> split_result"
    and valid :: "nal_spec \<Rightarrow> bool"
  assumes run_end: "run data (length data) out scratch = (out, scratch, Inr ())"
    and run_frame: "valid u \<Longrightarrow> rest = [] \<or> (\<exists>v rest'. valid v \<and> rest = frame v @ rest') \<Longrightarrow>
      run (pre @ frame u @ rest) (length pre) out scratch
      = run (pre @ frame u @ rest) (length (pre @ frame u)) (out @ [unit_of u]) (scratch @ spec_rbsp u)"
begin

lemma run_frames:
  "\<forall>u \<in> set us. valid u \<Longrightarrow>
    run (pre @ concat (map frame us)) (length pre) out scratch
    = (out @ map unit_of us, scratch @ concat (map spec_rbsp us), Inr ())"
proof (induction us arbitrary: pre out scratch)
  case Nil
  then show ?case using run_end [of pre] by simp
next
  case (Cons u us)
  have "us = [] \<or> (\<exists>v vs. us = v # vs \<and> valid v)"
    using Cons.prems by (cases us) auto
  then have "concat (map frame us) = [] \<or> (\<exists>v rest'. valid v \<and> concat (map frame us) = frame v @ rest')"
    by auto
  then have "run (pre @ frame u @ concat (map frame us)) (length pre) out scratch
      = run (pre @ frame u @ concat (map frame us)) (length (pre @ frame u)) (out @ [unit_of u]) (scratch @ spec_rbsp u)"
    using Cons.prems by (intro run_frame) auto
  then show ?case
    using Cons.IH [of "pre @ frame u" "out @ [unit_of u]" "scratch @ spec_rbsp u"] Cons.prems by simp
qed

end

text \<open>An upper bound of the bytes a framed unit takes, whatever the framing.\<close>

definition spec_size :: "nal_spec \<Rightarrow> nat" where
  "spec_size u = 2 * length (spec_rbsp u) + 5"

definition packet_size :: "nal_spec list \<Rightarrow> nat" where
  "packet_size us = sum_list (map spec_size us)"

text \<open>A framing with its writer: the frames go to the end of the destination.\<close>

locale nal_codec = nal_framing frame run valid
  for frame :: "nal_spec \<Rightarrow> bytes"
    and run :: "bytes \<Rightarrow> nat \<Rightarrow> NALUnit list \<Rightarrow> bytes \<Rightarrow> split_result"
    and valid :: "nal_spec \<Rightarrow> bool" +
  fixes put :: "nal_spec \<Rightarrow> (bytes, unit) go"
  assumes put_frame: "valid u \<Longrightarrow> int (length dst + spec_size u) \<le> maxInt \<Longrightarrow>
      put u dst = (Inr (), dst @ frame u)"
    and frame_size: "length (frame u) \<le> spec_size u"
begin

lemma length_frames: "length (concat (map frame us)) \<le> packet_size us"
proof (induction us)
  case (Cons u us)
  then show ?case using frame_size [of u] by (simp add: packet_size_def)
qed (simp add: packet_size_def)

lemma put_all:
  "\<forall>u \<in> set us. valid u \<Longrightarrow> int (length dst + packet_size us) \<le> maxInt \<Longrightarrow>
    forM us put dst = (Inr (), dst @ concat (map frame us))"
proof (induction us arbitrary: dst)
  case Nil
  then show ?case by (simp add: ret_def)
next
  case (Cons u us)
  have "put u dst = (Inr (), dst @ frame u)"
    using Cons.prems by (intro put_frame) (auto simp: packet_size_def)
  moreover have "forM us put (dst @ frame u) = (Inr (), (dst @ frame u) @ concat (map frame us))"
    using Cons.prems frame_size [of u] by (intro Cons.IH) (auto simp: packet_size_def)
  ultimately show ?case by (simp add: thn_def bnd_def)
qed

text \<open>Writing a packet and splitting it.\<close>

lemma put_run:
  assumes "\<forall>u \<in> set us. valid u" "packet_size us < 2 ^ 32"
  obtains data where "forM us put [] = (Inr (), data)" "data = concat (map frame us)"
    "run data 0 [] [] = (map unit_of us, concat (map spec_rbsp us), Inr ())"
    "\<not> nalInputTooLarge data"
proof (rule that)
  show "forM us put [] = (Inr (), concat (map frame us))"
    using put_all [OF assms(1), of "[]"] assms(2) by simp
  show "run (concat (map frame us)) 0 [] [] = (map unit_of us, concat (map spec_rbsp us), Inr ())"
    using run_frames [OF assms(1), of "[]" "[]" "[]"] by simp
  show "\<not> nalInputTooLarge (concat (map frame us))"
    using length_frames [of us] assms(2) by (simp add: nalInputTooLarge_def)
qed simp

end

lemma nal_header_fields:
  assumes "nal_ok u"
  shows "nal_header u AND 0x80 = 0" "drop_bit 5 (nal_header u) AND 3 = spec_refIDC u"
    "nal_header u AND 0x1f = spec_typ u"
proof -
  have r: "take_bit 2 (spec_refIDC u) = spec_refIDC u" and t: "take_bit 5 (spec_typ u) = spec_typ u"
    using assms by (auto intro!: take_bit_unat_self simp: nal_ok_def word_le_nat_alt)
  have m: "(3 :: u8) = mask 2" "(0x1f :: u8) = mask 5"
    by (simp_all add: mask_eq_exp_minus_1)
  have rb: "bit (spec_refIDC u) n \<Longrightarrow> n < 2" and tb: "bit (spec_typ u) n \<Longrightarrow> n < 5" for n
    by (metis r bit_take_bit_iff, metis t bit_take_bit_iff)
  have b7: "bit (0x80 :: int) n \<Longrightarrow> n = 7" for n
    using bit_exp_iff [of 7 n, where ?'a = int] by simp
  show "nal_header u AND 0x80 = 0" unfolding nal_header_def
    by (rule bit_word_eqI) (auto simp: bit_simps dest!: b7 dest: rb tb)
  show "drop_bit 5 (nal_header u) AND 3 = spec_refIDC u" unfolding m nal_header_def
    by (rule bit_word_eqI) (auto simp: bit_simps dest: rb tb)
  show "nal_header u AND 0x1f = spec_typ u" unfolding m nal_header_def
    by (rule bit_word_eqI) (auto simp: bit_simps dest: rb tb)
qed

lemma parse_nal_bytes:
  assumes "nal_ok u"
  shows "parseNALInto (nal_bytes u) scratch = Inr (unit_of u, scratch @ spec_rbsp u)"
  by (simp add: parseNALInto_def nal_bytes_def unit_of_def nal_header_fields [OF assms])

section \<open>The Annex B framing\<close>

text \<open>The start code that stands at a position, as \<open>findStartCode\<close> tests for it.\<close>

definition start_code_at :: "bytes \<Rightarrow> nat \<Rightarrow> nat option" where
  "start_code_at data i =
     (if i + 3 \<le> length data \<and> data ! i = 0 \<and> data ! (i + 1) = 0
      then if data ! (i + 2) = 1 then Some 3
           else if i + 4 \<le> length data \<and> data ! (i + 2) = 0 \<and> data ! (i + 3) = 1 then Some 4
           else None
      else None)"

lemma findStartCode_step:
  "findStartCode data i = (if i + 3 \<le> length data then
     (case start_code_at data i of Some p \<Rightarrow> Some (i, p) | None \<Rightarrow> findStartCode data (i + 1)) else None)"
  by (subst findStartCode.simps) (auto simp: start_code_at_def)

lemma findStartCode_skip:
  assumes "\<And>j. i \<le> j \<Longrightarrow> j < n \<Longrightarrow> start_code_at data j = None" "i \<le> n" "n + 3 \<le> length data"
  shows "findStartCode data i = findStartCode data n"
  using assms
proof (induction "n - i" arbitrary: i)
  case (Suc k)
  then have "findStartCode data i = findStartCode data (i + 1)"
    by (subst findStartCode_step) auto
  also have "\<dots> = findStartCode data n" using Suc by (intro Suc.hyps) auto
  finally show ?case .
qed simp

lemma findStartCode_None:
  assumes "\<And>j. i \<le> j \<Longrightarrow> start_code_at data j = None"
  shows "findStartCode data i = None"
  using assms
proof (induction "length data - i" arbitrary: i)
  case 0
  then show ?case by (subst findStartCode_step) auto
next
  case (Suc k)
  then have "findStartCode data (i + 1) = None" by (intro Suc.hyps) auto
  then show ?case using Suc.prems by (subst findStartCode_step) auto
qed

text \<open>
  A unit whose header is not zero contains no start code, also where its last bytes and the next
  start code meet.
\<close>

definition start_code :: bytes where "start_code = [0, 0, 0, 1]"

lemma no_start_code_in:
  assumes "emulation_free_from 1 body" "rest = [] \<or> (\<exists>r. rest = start_code @ r)"
    "length pre \<le> j" "j < length pre + length body"
  shows "start_code_at (pre @ body @ rest) j = None"
proof -
  define i where "i = j - length pre"
  have i: "i < length body" "j = length pre + i" using assms(3,4) by (auto simp: i_def)
  let ?d = "body @ rest"
  have shift: "(pre @ ?d) ! (j + k) = ?d ! (i + k)" for k
    using i by (simp add: nth_append)
  have free: "i + 2 < length body \<Longrightarrow> body ! i = 0 \<Longrightarrow> body ! (i + 1) = 0 \<Longrightarrow> body ! (i + 2) > 2"
    using emulation_free_fromD [OF assms(1), of i] by auto
  have "\<not> (?d ! (i + 2) = 1 \<or> (i + 4 \<le> length ?d \<and> ?d ! (i + 2) = 0 \<and> ?d ! (i + 3) = 1))"
    if z: "i + 3 \<le> length ?d" "?d ! i = 0" "?d ! (i + 1) = 0"
  proof (cases "i + 2 < length body")
    case True
    then show ?thesis using free z by (auto simp: nth_append)
  next
    case False
    then have "i + 2 = length body \<or> i + 1 = length body" using i by linarith
    moreover have "rest \<noteq> []" using z False by auto
    ultimately show ?thesis using assms(2) i
      by (auto simp: nth_append start_code_def)
  qed
  then show ?thesis
    using shift [of 0] shift [of 1] shift [of 2] shift [of 3] i
    by (auto simp: start_code_at_def)
qed

text \<open>
  The splitter's loop, seen from the end of one unit: it looks for the next start code. This form
  is also what \<open>SplitAnnexBInto\<close> does at the start of the data.
\<close>

definition annexb_run :: "bytes \<Rightarrow> nat \<Rightarrow> NALUnit list \<Rightarrow> bytes \<Rightarrow> split_result" where
  "annexb_run data pos out scratch =
     (case findStartCode data pos of
        None \<Rightarrow> (out, scratch, Inr ())
      | Some (s, p) \<Rightarrow> SplitAnnexB_loop data (s + p) out scratch)"

definition annexb_frame :: "nal_spec \<Rightarrow> bytes" where
  "annexb_frame u = start_code @ nal_bytes u"

text \<open>
  A unit that Annex B can carry: \<open>AppendNAL\<close>'s field ranges, and a header byte that is not zero
  (the header is outside the reach of the emulation prevention).
\<close>

definition annexb_ok :: "nal_spec \<Rightarrow> bool" where
  "annexb_ok u \<longleftrightarrow> nal_ok u \<and> nal_header u \<noteq> 0"

lemma emulation_free_nal_bytes:
  assumes "nal_header u \<noteq> 0"
  shows "emulation_free_from 1 (nal_bytes u)"
  using assms emulation_free_from_ebsp [of 0 "spec_rbsp u"]
  by (simp add: nal_bytes_def ebsp_def)

lemma start_code_found:
  "start_code_at (pre @ start_code @ rest) (length pre) = Some 4"
  by (simp add: start_code_at_def start_code_def nth_append)

lemma findStartCode_at: "findStartCode (pre @ start_code @ rest) (length pre) = Some (length pre, 4)"
  by (subst findStartCode_step) (simp add: start_code_found, simp add: start_code_def)

lemma findStartCode_next:
  assumes "annexb_ok u" "rest = [] \<or> (\<exists>r. rest = start_code @ r)"
  shows "findStartCode (pre @ nal_bytes u @ rest) (length pre)
    = (if rest = [] then None else Some (length pre + length (nal_bytes u), 4))"
proof -
  let ?d = "pre @ nal_bytes u @ rest" and ?n = "length pre + length (nal_bytes u)"
  have no: "start_code_at ?d j = None" if "length pre \<le> j" "j < ?n" for j
    using assms that no_start_code_in [OF emulation_free_nal_bytes] by (auto simp: annexb_ok_def)
  show ?thesis
  proof (cases "rest = []")
    case True
    have "start_code_at ?d j = None" if "length pre \<le> j" for j
      using no [OF that] True by (cases "j < ?n") (auto simp: start_code_at_def)
    then show ?thesis using True by (simp add: findStartCode_None)
  next
    case False
    then obtain r where r: "rest = start_code @ r" using assms(2) by auto
    have "findStartCode ?d (length pre) = findStartCode ?d ?n"
      by (rule findStartCode_skip [OF no]) (auto simp: r start_code_def)
    also have "\<dots> = Some (?n, 4)"
      using findStartCode_at [of "pre @ nal_bytes u" r] r by simp
    finally show ?thesis using False by simp
  qed
qed

interpretation annexb: nal_framing annexb_frame annexb_run annexb_ok
proof
  fix data out scratch
  show "annexb_run data (length data) out scratch = (out, scratch, Inr ())"
    by (simp add: annexb_run_def) (subst findStartCode_step, simp)
next
  fix u rest pre out scratch
  assume u: "annexb_ok u" and rest: "rest = [] \<or> (\<exists>v rest'. annexb_ok v \<and> rest = annexb_frame v @ rest')"
  let ?p = "pre @ start_code" and ?d = "pre @ annexb_frame u @ rest"
  have rest': "rest = [] \<or> (\<exists>r. rest = start_code @ r)" using rest by (auto simp: annexb_frame_def)
  have d: "?d = ?p @ nal_bytes u @ rest" by (simp add: annexb_frame_def)
  have first: "annexb_run ?d (length pre) out scratch = SplitAnnexB_loop ?d (length ?p) out scratch"
    using findStartCode_at [of pre "nal_bytes u @ rest"]
    by (simp add: annexb_run_def annexb_frame_def start_code_def eval_nat_numeral)
  have nx: "findStartCode ?d (length ?p) = (if rest = [] then None else Some (length (?p @ nal_bytes u), 4))"
    unfolding d using findStartCode_next [OF u rest', of ?p] by simp
  have end_: "findStartCode ?d (length (pre @ annexb_frame u))
      = (if rest = [] then None else Some (length (?p @ nal_bytes u), 4))"
  proof (cases "rest = []")
    case True
    then show ?thesis by (subst findStartCode_step) simp
  next
    case False
    then obtain r where "rest = start_code @ r" using rest' by auto
    then show ?thesis using findStartCode_at [of "?p @ nal_bytes u" r] False by (simp add: annexb_frame_def)
  qed
  have parse: "parseNALInto (nal_bytes u) scratch = Inr (unit_of u, scratch @ spec_rbsp u)"
    using u by (simp add: annexb_ok_def parse_nal_bytes)
  have sl: "drop (length ?p) (take (length (?p @ nal_bytes u)) ?d) = nal_bytes u"
    unfolding d by simp
  show "annexb_run ?d (length pre) out scratch
      = annexb_run ?d (length (pre @ annexb_frame u)) (out @ [unit_of u]) (scratch @ spec_rbsp u)"
  proof (cases "rest = []")
    case True
    have "length ?d = length (?p @ nal_bytes u)" using True by (simp add: annexb_frame_def)
    then show ?thesis unfolding first
      using nx end_ True parse sl
      by (subst SplitAnnexB_loop.simps) (simp add: annexb_run_def Let_def nal_bytes_def)
  next
    case False
    then show ?thesis unfolding first
      using nx end_ parse sl
      by (subst SplitAnnexB_loop.simps) (simp add: annexb_run_def Let_def nal_bytes_def)
  qed
qed

definition append_annexb :: "nal_spec \<Rightarrow> (bytes, unit) go" where
  "append_annexb u = AppendAnnexBNAL (spec_refIDC u) (spec_typ u) (spec_rbsp u)"

lemma AppendNAL_bytes:
  assumes "nal_ok u" "int (length dst) + 2 * int (length (spec_rbsp u)) + 1 \<le> maxInt"
  shows "AppendNAL (spec_refIDC u) (spec_typ u) (spec_rbsp u) dst = (Inr (), dst @ nal_bytes u)"
proof -
  have h: "int (length (spec_rbsp u)) div 2 \<le> int (length (spec_rbsp u))" by simp
  have "nalAppendCapacity (int (length dst)) 1 (int (length (spec_rbsp u)))
      = Inr (int (length dst) + 1 + int (length (spec_rbsp u)) + int (length (spec_rbsp u)) div 2)"
    using assms(2) h by (intro nalAppendCapacity_ok) linarith+
  moreover have "capacity_ok (length (dst @ [nal_header u])) (spec_rbsp u)"
    using assms(2) h unfolding capacity_ok_def by simp
  ultimately show ?thesis
    using assms(1) AppendEBSP_ebsp [of "dst @ [nal_header u]" "spec_rbsp u"]
    by (simp add: AppendNAL_def nal_ok_def nal_bytes_def nal_header_def not_less)
qed

lemma length_nal_bytes: "length (nal_bytes u) \<le> Suc (2 * length (spec_rbsp u))"
  using length_ebsp [of "spec_rbsp u"] by (simp add: nal_bytes_def)

interpretation annexb: nal_codec annexb_frame annexb_run annexb_ok append_annexb
proof
  fix u and dst :: bytes
  assume u: "annexb_ok u" and l: "int (length dst + spec_size u) \<le> maxInt"
  have h: "int (length (spec_rbsp u)) div 2 \<le> int (length (spec_rbsp u))" by simp
  have "nalAppendCapacity (int (length dst)) 5 (int (length (spec_rbsp u)))
      = Inr (int (length dst) + 5 + int (length (spec_rbsp u)) + int (length (spec_rbsp u)) div 2)"
    using l h by (intro nalAppendCapacity_ok) (auto simp: spec_size_def)
  moreover have "AppendNAL (spec_refIDC u) (spec_typ u) (spec_rbsp u) (dst @ start_code)
      = (Inr (), (dst @ start_code) @ nal_bytes u)"
    using u l by (intro AppendNAL_bytes) (auto simp: annexb_ok_def start_code_def spec_size_def)
  ultimately show "append_annexb u dst = (Inr (), dst @ annexb_frame u)"
    by (simp add: append_annexb_def AppendAnnexBNAL_def start_code_def annexb_frame_def)
next
  fix u
  show "length (annexb_frame u) \<le> spec_size u"
    using length_nal_bytes [of u] by (simp add: annexb_frame_def start_code_def spec_size_def)
qed

section \<open>The AVC framing\<close>

text \<open>The big-endian bytes of a number.\<close>

definition be_bytes :: "nat \<Rightarrow> nat \<Rightarrow> bytes" where
  "be_bytes n v = map (\<lambda>i. word_of_nat (drop_bit (8 * i) v)) (rev [0..<n])"

lemma length_be_bytes [simp]: "length (be_bytes n v) = n"
  by (simp add: be_bytes_def)

lemma be_bytes_Suc: "be_bytes (Suc n) v = be_bytes n (drop_bit 8 v) @ [word_of_nat v]"
proof -
  have "rev [0..<Suc n] = map Suc (rev [0..<n]) @ [0]"
    by (simp only: map_Suc_upt rev_map [symmetric] upt_conv_Cons) simp
  then show ?thesis
    by (simp add: be_bytes_def drop_bit_drop_bit add.commute del: upt_Suc)
qed

lemma patch_length_be:
  "length xs = k \<Longrightarrow> patch_length (dst @ xs @ ys) (length dst) k v = dst @ be_bytes k v @ ys"
proof (induction k arbitrary: xs ys v)
  case 0
  then show ?case by (simp add: be_bytes_def)
next
  case (Suc k)
  then obtain zs z where xs: "xs = zs @ [z]" "length zs = k"
    by (cases xs rule: rev_cases) auto
  have "(dst @ xs @ ys)[length dst + k := word_of_nat v] = dst @ zs @ word_of_nat v # ys"
    using xs by (simp add: list_update_append)
  then show ?case
    using Suc.IH [of zs "word_of_nat v # ys" "drop_bit 8 v"] xs Suc.prems
    by (simp add: be_bytes_Suc)
qed

lemma byte_join: "push_bit 8 n OR int (unat (w :: u8)) = n * 256 + int (unat w)"
proof -
  have "take_bit 8 (int (unat w)) = int (unat w)"
    using unsigned_less [of w, where ?'a = nat] by (intro take_bit_int_eq_self) auto
  then have "push_bit 8 n AND int (unat w) = 0"
    by (intro bit_eqI) (auto simp: bit_simps dest: bit_imp_le_length)
  then show ?thesis by (simp flip: disjunctive_add_eq_or add: push_bit_eq_mult)
qed

lemma be_value_snoc: "be_value (bs @ [b]) = be_value bs * 256 + int (unat b)"
  by (simp add: be_value_def byte_join)

lemma be_value_be_bytes: "be_value (be_bytes n v) = int (v mod 2 ^ (8 * n))"
proof (induction n arbitrary: v)
  case 0
  then show ?case by (simp add: be_bytes_def be_value_def)
next
  case (Suc n)
  have "v mod 2 ^ (8 * Suc n) = (v div 256) mod 2 ^ (8 * n) * 256 + v mod 256"
    using mod_mult2_eq [of v 256 "2 ^ (8 * n)"] by (simp add: power_add)
  then show ?case
    by (simp add: be_bytes_Suc be_value_snoc Suc unat_of_nat drop_bit_eq_div)
qed

lemma be_bytes_be_value: "length bs = n \<Longrightarrow> be_bytes n (nat (be_value bs)) = bs"
proof (induction n arbitrary: bs)
  case 0
  then show ?case by (simp add: be_bytes_def)
next
  case (Suc n)
  then obtain cs c where bs: "bs = cs @ [c]" "length cs = n"
    by (cases bs rule: rev_cases) auto
  have nn: "0 \<le> be_value cs"
    by (induction cs rule: rev_induct) (auto simp: be_value_snoc, simp add: be_value_def)
  have c: "unat c < 256" using unsigned_less [of c, where ?'a = nat] by simp
  have v: "nat (be_value bs) = nat (be_value cs) * 256 + unat c"
    using nn by (simp add: bs be_value_snoc nat_add_distrib nat_mult_distrib)
  then have "drop_bit 8 (nat (be_value bs)) = nat (be_value cs)"
    using c by (simp add: drop_bit_eq_div)
  moreover have "(word_of_nat (nat (be_value bs)) :: u8) = c"
  proof -
    have "(256 :: u8) = 0" by simp
    then show ?thesis by (simp only: v of_nat_add of_nat_mult of_nat_numeral word_of_nat_unat) simp
  qed
  ultimately show ?case using Suc.IH [OF bs(2)] bs(1) by (simp add: be_bytes_Suc)
qed

definition avc_frame :: "nat \<Rightarrow> nal_spec \<Rightarrow> bytes" where
  "avc_frame n u = be_bytes n (length (nal_bytes u)) @ nal_bytes u"

text \<open>A unit whose size the prefix of \<open>n\<close> bytes can hold.\<close>

definition avc_ok :: "nat \<Rightarrow> nal_spec \<Rightarrow> bool" where
  "avc_ok n u \<longleftrightarrow> nal_ok u \<and> length (nal_bytes u) < 2 ^ (8 * n)"

definition append_avc :: "nat \<Rightarrow> nal_spec \<Rightarrow> (bytes, unit) go" where
  "append_avc n u = AppendAVCNAL (int n) (spec_refIDC u) (spec_typ u) (spec_rbsp u)"

lemma avc_framing:
  assumes "0 < n"
  shows "nal_framing (avc_frame n) (\<lambda>data. SplitAVCC_loop data n) (avc_ok n)"
proof
  fix data out scratch
  show "SplitAVCC_loop data n (length data) out scratch = (out, scratch, Inr ())"
    by (subst SplitAVCC_loop.simps) simp
next
  fix u rest pre out scratch
  assume u: "avc_ok n u"
  let ?d = "pre @ avc_frame n u @ rest"
  obtain k where l: "length (nal_bytes u) = Suc k" by (simp add: nal_bytes_def)
  have v: "be_value (take n (drop (length pre) ?d)) = int (length (nal_bytes u))"
    using u by (simp add: avc_frame_def avc_ok_def be_value_be_bytes)
  have "parseNALInto (nal_bytes u) scratch = Inr (unit_of u, scratch @ spec_rbsp u)"
    using u by (simp add: avc_ok_def parse_nal_bytes)
  moreover have "take (length (nal_bytes u)) (drop (length pre + n) ?d) = nal_bytes u"
    by (simp add: avc_frame_def)
  moreover have "length ?d = length pre + n + length (nal_bytes u) + length rest"
    by (simp add: avc_frame_def)
  ultimately show "SplitAVCC_loop ?d n (length pre) out scratch
      = SplitAVCC_loop ?d n (length (pre @ avc_frame n u)) (out @ [unit_of u]) (scratch @ spec_rbsp u)"
    using v l by (subst SplitAVCC_loop.simps) (simp add: Let_def avc_frame_def add.assoc nat_add_distrib)
qed

lemma append_avc_frame:
  assumes "1 \<le> n" "n \<le> 4" "avc_ok n u" "int (length dst + spec_size u) \<le> maxInt"
  shows "append_avc n u dst = (Inr (), dst @ avc_frame n u)"
proof -
  have "fits64 (int (length dst))" "fits64 (int n)" "fits64 (int (length dst) + int n)"
    using assms(2,4) by (auto simp: fits64_def spec_size_def)
  then have c: "checkedAddInt (int (length dst)) (int n) = Inr (int (length dst) + int n)"
    by (simp add: checkedAddInt_exact)
  let ?z = "replicate n (0 :: u8)"
  have a: "AppendNAL (spec_refIDC u) (spec_typ u) (spec_rbsp u) (dst @ ?z) = (Inr (), (dst @ ?z) @ nal_bytes u)"
    using assms by (intro AppendNAL_bytes) (auto simp: avc_ok_def spec_size_def)
  have "(2 :: int) ^ nat (int n * 8) = int (2 ^ (8 * n))"
    by (simp add: nat_mult_distrib mult.commute)
  then have s: "\<not> (2 :: int) ^ nat (int n * 8) \<le> int (length (nal_bytes u))"
    using assms(3) by (simp only: avc_ok_def of_nat_le_iff) simp
  show ?thesis
    using c a s assms(1,2) patch_length_be [of ?z n dst "nal_bytes u" "length (nal_bytes u)"]
    by (simp add: append_avc_def AppendAVCNAL_def Let_def avc_frame_def)
qed

lemma avc_codec:
  assumes "1 \<le> n" "n \<le> 4"
  shows "nal_codec (avc_frame n) (\<lambda>data. SplitAVCC_loop data n) (avc_ok n) (append_avc n)"
proof (intro nal_codec.intro avc_framing nal_codec_axioms.intro append_avc_frame assms)
  show "length (avc_frame n u) \<le> spec_size u" for u
    using length_nal_bytes [of u] assms(2) by (simp add: avc_frame_def spec_size_def)
qed (use assms in auto)

interpretation avc4: nal_codec "avc_frame 4" "\<lambda>data. SplitAVCC_loop data 4" "avc_ok 4" "append_avc 4"
  by (rule avc_codec) simp_all

section \<open>Properties of the framings\<close>

text \<open>
  C11. Emulation prevention round trip: for any RBSP (within the address space), removing the
  emulation prevention bytes from what \<open>AppendEBSP\<close> wrote gives the RBSP back, appended to any
  scratch buffer, without an error.
\<close>

theorem ebsp_roundtrip:
  assumes "capacity_ok 0 rbsp"
  shows "AppendRBSP dst (AppendEBSP [] rbsp) = Inr (dst @ rbsp)"
  using AppendEBSP_ebsp [of "[]" rbsp] assms by simp

lemma ebsp_roundtrip_witness:
  "AppendRBSP [7] (AppendEBSP [] [0, 0, 0, 0, 1, 0, 0, 3]) = Inr [7, 0, 0, 0, 0, 1, 0, 0, 3]"
  using ebsp_roundtrip [of "[0, 0, 0, 0, 1, 0, 0, 3]" "[7]"] by (simp add: capacity_ok_def)

text \<open>
  The escaped bytes contain none of the patterns \<open>00 00 00\<close>, \<open>00 00 01\<close>, \<open>00 00 02\<close> that
  clause 7.4.1 forbids, whatever the RBSP, and their number is within the capacity that
  \<open>nalAppendCapacity\<close> computes for them.
\<close>

theorem ebsp_emulation_free:
  assumes "capacity_ok 0 rbsp"
  shows "emulation_free (AppendEBSP [] rbsp)
    \<and> (\<exists>n. nalAppendCapacity 0 0 (int (length rbsp)) = Inr n \<and> int (length (AppendEBSP [] rbsp)) \<le> n)"
proof -
  have "emulation_free (ebsp rbsp)"
    unfolding ebsp_def by (rule emulation_freeI [OF emulation_free_from_ebsp])
  moreover have "int (length (ebsp rbsp)) \<le> int (length rbsp) + int (length rbsp) div 2"
    using length_ebsp [of rbsp] by linarith
  moreover have "nalAppendCapacity 0 0 (int (length rbsp)) = Inr (int (length rbsp) + int (length rbsp) div 2)"
    using nalAppendCapacity_ok [of 0 0 "int (length rbsp)"] assms by (simp add: capacity_ok_def)
  ultimately show ?thesis
    using AppendEBSP_ebsp [of "[]" rbsp] assms by simp
qed

lemma ebsp_emulation_free_witness:
  "emulation_free (AppendEBSP [] [0, 0, 1])
    \<and> (\<exists>n. nalAppendCapacity 0 0 3 = Inr n \<and> int (length (AppendEBSP [] [0, 0, 1])) \<le> n)"
  using ebsp_emulation_free [of "[0, 0, 1]"] by (simp add: capacity_ok_def)

text \<open>
  C6. Annex B round trip: any non-empty sequence of units with a header byte that is not zero,
  appended one after the other by \<open>AppendAnnexBNAL\<close>, is split by \<open>SplitAnnexB\<close> into exactly these
  units: header fields, raw bytes and RBSP. The units have a \<open>nal_ref_idc\<close> up to 3 and a type up to 31
  (\<open>nal_ok\<close>, what \<open>AppendNAL\<close> accepts), and the packet stays below \<open>2 ^ 32\<close> bytes, the splitter's limit,
  even if every payload byte were escaped: the sum of \<open>2 * payload + 5\<close> over the units is below it.
\<close>

theorem annexb_roundtrip:
  assumes "us \<noteq> []" and "\<forall>u \<in> set us. annexb_ok u" and "packet_size us < 2 ^ 32"
  shows "\<exists>data. forM us append_annexb [] = (Inr (), data) \<and> SplitAnnexB data = (map unit_of us, Inr ())"
proof -
  obtain data where d: "forM us append_annexb [] = (Inr (), data)" "data = concat (map annexb_frame us)"
    "annexb_run data 0 [] [] = (map unit_of us, concat (map spec_rbsp us), Inr ())" "\<not> nalInputTooLarge data"
    by (rule annexb.put_run [OF assms(2,3)])
  obtain u vs where "us = u # vs" using assms(1) by (cases us) auto
  then have "findStartCode data 0 = Some (0, 4)"
    using d(2) findStartCode_at [of "[]"] by (simp add: annexb_frame_def)
  then have "SplitAnnexB data = (map unit_of us, Inr ())"
    using d(3,4) assms(1) by (simp add: SplitAnnexB_def SplitAnnexBInto_def annexb_run_def)
  then show ?thesis using d(1) by blast
qed

lemma annexb_roundtrip_witness:
  "\<exists>data. forM [\<lparr>spec_refIDC = 3, spec_typ = 7, spec_rbsp = [0, 0, 0]\<rparr>,
           \<lparr>spec_refIDC = 0, spec_typ = 1, spec_rbsp = []\<rparr>] append_annexb [] = (Inr (), data)
     \<and> SplitAnnexB data = (map unit_of [\<lparr>spec_refIDC = 3, spec_typ = 7, spec_rbsp = [0, 0, 0]\<rparr>,
           \<lparr>spec_refIDC = 0, spec_typ = 1, spec_rbsp = []\<rparr>], Inr ())"
  by (rule annexb_roundtrip)
     (simp_all add: annexb_ok_def nal_ok_def nal_header_def packet_size_def spec_size_def)

lemma ebsp_01: "ebsp (0 # 1 # bs) = [0, 1] @ ebsp bs"
  using ebsp_loop_append [of 0 "[0, 1]" bs] by (simp add: ebsp_def)

lemma smuggled_bytes:
  "nal_bytes \<lparr>spec_refIDC = 0, spec_typ = 0, spec_rbsp = 0 # 1 # nal_header v # spec_rbsp v\<rparr>
     = [0, 0, 1] @ ebsp (nal_header v # spec_rbsp v)"
  using ebsp_01 by (simp add: nal_bytes_def nal_header_def)

lemma ebsp_nonzero: "b \<noteq> 0 \<Longrightarrow> ebsp (b # bs) = b # ebsp bs"
  using ebsp_loop_append [of 0 "[b]"] by (simp add: ebsp_def)

lemma smuggled_split:
  assumes "annexb_ok v" "d = start_code @ [0, 0, 1] @ nal_bytes v" "\<not> nalInputTooLarge d"
  shows "SplitAnnexB d = ([unit_of v], Inr ())"
proof -
  have f0: "findStartCode d 0 = Some (0, 4)"
    using findStartCode_at [of "[]" "[0, 0, 1] @ nal_bytes v"] assms(2) by simp
  have f4: "findStartCode d 4 = Some (4, 3)"
    unfolding assms(2) by (subst findStartCode_step) (simp add: start_code_at_def start_code_def nal_bytes_def)
  have f7: "findStartCode d 7 = None"
    using findStartCode_next [OF assms(1), of "[]" "start_code @ [0, 0, 1]"] assms(2)
    by (simp add: start_code_def eval_nat_numeral)
  have p: "parseNALInto (nal_bytes v) [] = Inr (unit_of v, spec_rbsp v)"
    using assms(1) by (simp add: annexb_ok_def parse_nal_bytes)
  have l: "length d = 7 + length (nal_bytes v)" "drop 7 d = nal_bytes v" "0 < length (nal_bytes v)"
    by (simp_all add: assms(2) start_code_def nal_bytes_def)
  have "SplitAnnexB_loop d 4 [] [] = SplitAnnexB_loop d 7 [] []"
    by (subst SplitAnnexB_loop.simps) (simp add: f4)
  also have "\<dots> = ([unit_of v], spec_rbsp v, Inr ())"
    using p l by (subst SplitAnnexB_loop.simps) (simp add: f7)
  finally show ?thesis using f0 assms(3) by (simp add: SplitAnnexB_def SplitAnnexBInto_def)
qed

text \<open>
  C21. A unit with a zero header byte is not safe in Annex B: \<open>AppendAnnexBNAL\<close> accepts
  \<open>nal_ref_idc\<close> 0 with type 0 and escapes the payload only, so with a payload that begins with
  \<open>00 01\<close> the header completes a start code. Whatever unit the rest of the payload spells (a nonzero
  header byte and its payload, shorter than \<open>2 ^ 30\<close> bytes), the call succeeds, and the splitter
  loses the unit that was written and delivers the spelled one, which nobody wrote.
\<close>

theorem annexb_zero_header_emulates_start_code:
  assumes "annexb_ok v" "length (spec_rbsp v) < 2 ^ 30"
  shows "\<exists>data. AppendAnnexBNAL 0 0 (0 # 1 # nal_header v # spec_rbsp v) [] = (Inr (), data)
    \<and> SplitAnnexB data = ([unit_of v], Inr ())"
proof -
  let ?u = "\<lparr>spec_refIDC = 0, spec_typ = 0, spec_rbsp = 0 # 1 # nal_header v # spec_rbsp v\<rparr> :: nal_spec"
  have l: "length (spec_rbsp v) < 2 ^ 30" using assms(2) by simp
  have "nal_ok ?u" by (simp add: nal_ok_def)
  from AppendNAL_bytes [OF this, of start_code]
  have "AppendNAL 0 0 (spec_rbsp ?u) start_code = (Inr (), start_code @ nal_bytes ?u)"
    using l by (simp add: start_code_def)
  moreover have "nalAppendCapacity 0 5 (int (length (spec_rbsp ?u)))
      = Inr (0 + 5 + int (length (spec_rbsp ?u)) + int (length (spec_rbsp ?u)) div 2)"
    using l by (intro nalAppendCapacity_ok) auto
  ultimately have a: "AppendAnnexBNAL 0 0 (spec_rbsp ?u) [] = (Inr (), start_code @ nal_bytes ?u)"
    by (simp add: AppendAnnexBNAL_def start_code_def)
  have n: "nal_bytes ?u = [0, 0, 1] @ nal_bytes v"
    using smuggled_bytes [of v] ebsp_nonzero assms(1) by (simp add: annexb_ok_def nal_bytes_def)
  have "\<not> nalInputTooLarge (start_code @ [0, 0, 1] @ nal_bytes v)"
    using length_nal_bytes [of v] assms(2) by (simp add: nalInputTooLarge_def start_code_def)
  then show ?thesis using a n smuggled_split [OF assms(1) refl] by simp
qed

text \<open>An IDR slice (header \<open>0x65\<close>) out of a unit of type 0.\<close>

lemma annexb_zero_header_witness:
  "\<exists>data. AppendAnnexBNAL 0 0 [0, 1, 0x65, 0x88] [] = (Inr (), data)
    \<and> SplitAnnexB data = ([\<lparr>nal_RefIDC = 3, nal_Type = NALIDRSlice, nal_Raw = [0x65, 0x88], nal_RBSP = [0x88]\<rparr>], Inr ())"
proof -
  let ?v = "\<lparr>spec_refIDC = 3, spec_typ = 5, spec_rbsp = [0x88]\<rparr> :: nal_spec"
  have "annexb_ok ?v" "nal_header ?v = 0x65" "unit_of ?v
      = \<lparr>nal_RefIDC = 3, nal_Type = NALIDRSlice, nal_Raw = [0x65, 0x88], nal_RBSP = [0x88]\<rparr>"
    by (simp_all add: annexb_ok_def nal_ok_def nal_header_def unit_of_def nal_bytes_def ebsp_def)
  then show ?thesis using annexb_zero_header_emulates_start_code [of ?v] by simp
qed

lemma avc_split:
  assumes "1 \<le> n" "n \<le> 4" "us \<noteq> []" "\<forall>u \<in> set us. avc_ok n u" "packet_size us < 2 ^ 32"
  obtains data where "forM us (append_avc n) [] = (Inr (), data)" "data = concat (map (avc_frame n) us)"
    "SplitAVCC data (int n) = (map unit_of us, Inr ())" "\<not> nalInputTooLarge data"
proof -
  obtain data where d: "forM us (append_avc n) [] = (Inr (), data)" "data = concat (map (avc_frame n) us)"
    "SplitAVCC_loop data n 0 [] [] = (map unit_of us, concat (map spec_rbsp us), Inr ())"
    "\<not> nalInputTooLarge data"
    by (rule nal_codec.put_run [OF avc_codec [OF assms(1,2)] assms(4,5)])
  then have "SplitAVCC data (int n) = (map unit_of us, Inr ())"
    using assms(1-3) by (simp add: SplitAVCC_def SplitAVCCInto_def)
  with d show ?thesis by (rule_tac that)
qed

text \<open>
  C7. AVC round trip: for every prefix size of 1 to 4 bytes, any non-empty sequence of units that
  fit the prefix, appended by \<open>AppendAVCNAL\<close>, is split by \<open>SplitAVCC\<close> into exactly these units. As for
  Annex B, the fields are within their ranges and the sum of \<open>2 * payload + 5\<close> over the units is below
  \<open>2 ^ 32\<close>, the splitter's limit.
\<close>

theorem avcc_roundtrip:
  assumes "1 \<le> n" and "n \<le> 4" and "us \<noteq> []" and "\<forall>u \<in> set us. avc_ok n u" and "packet_size us < 2 ^ 32"
  shows "\<exists>data. forM us (append_avc n) [] = (Inr (), data) \<and> SplitAVCC data (int n) = (map unit_of us, Inr ())"
  by (rule avc_split [OF assms]) blast

lemma avcc_roundtrip_witness:
  "\<exists>data. forM [\<lparr>spec_refIDC = 3, spec_typ = 7, spec_rbsp = [0, 0, 1]\<rparr>,
           \<lparr>spec_refIDC = 0, spec_typ = 0, spec_rbsp = []\<rparr>] (append_avc 2) [] = (Inr (), data)
     \<and> SplitAVCC data (int 2) = (map unit_of [\<lparr>spec_refIDC = 3, spec_typ = 7, spec_rbsp = [0, 0, 1]\<rparr>,
           \<lparr>spec_refIDC = 0, spec_typ = 0, spec_rbsp = []\<rparr>], Inr ())"
  by (rule avcc_roundtrip)
     (simp_all add: avc_ok_def nal_ok_def nal_bytes_def ebsp_def packet_size_def spec_size_def Let_def)

text \<open>
  The sniffing of a configured stream never mistakes AVC framing for Annex B: with any
  configured prefix size of 1 to 4 bytes, a packet of AVC frames is split by \<open>SplitAutoPacket\<close> as
  AVC, into its units, although the prefixes may look like start codes (the length 1 does).
\<close>

theorem auto_packet_avc:
  assumes "1 \<le> n" and "n \<le> 4" and "us \<noteq> []" and "\<forall>u \<in> set us. avc_ok n u" and "packet_size us < 2 ^ 32"
  shows "\<exists>data. forM us (append_avc n) [] = (Inr (), data)
    \<and> SplitAutoPacket data (int n) = (map unit_of us, H264PacketFormatAVC, Inr ())"
proof -
  obtain data where d: "forM us (append_avc n) [] = (Inr (), data)" "data = concat (map (avc_frame n) us)"
    "SplitAVCC data (int n) = (map unit_of us, Inr ())" "\<not> nalInputTooLarge data"
    by (rule avc_split [OF assms])
  obtain u vs where us: "us = u # vs" using assms(3) by (cases us) auto
  have ne: "data \<noteq> []" using d(2) us by (simp add: avc_frame_def nal_bytes_def)
  have "\<not> be32 data 5 > int (length data)" if n: "n = 4" "be32 data 0 = 1" "length data > 8"
  proof (cases vs)
    case Nil
    then have "be32 data 0 = int (length (nal_bytes u))"
      using d(2) us assms(4) n(1) by (simp add: be32_def avc_frame_def avc_ok_def be_value_be_bytes)
    then show ?thesis using n d(2) us Nil by (simp add: avc_frame_def)
  next
    case (Cons v ws)
    have "be32 data 0 = int (length (nal_bytes u))"
      using d(2) us assms(4) n(1) by (simp add: be32_def avc_frame_def avc_ok_def be_value_be_bytes)
    then have l: "length (nal_bytes u) = 1" using n by simp
    then have "be32 data 5 = int (length (nal_bytes v))"
      using d(2) us assms(4) n(1) Cons
      by (simp add: be32_def avc_frame_def avc_ok_def be_value_be_bytes)
    then show ?thesis using d(2) us Cons by (simp add: avc_frame_def)
  qed
  then have "SplitAutoPacket data (int n) = (map unit_of us, H264PacketFormatAVC, Inr ())"
    using d(3,4) ne assms(1,2) by (auto simp: SplitAutoPacket_def avc_packet_def)
  then show ?thesis using d(1) by blast
qed

lemma auto_packet_avc_witness:
  "\<exists>data. forM [\<lparr>spec_refIDC = 0, spec_typ = 9, spec_rbsp = []\<rparr>,
           \<lparr>spec_refIDC = 3, spec_typ = 5, spec_rbsp = [1, 2]\<rparr>] (append_avc 4) [] = (Inr (), data)
     \<and> SplitAutoPacket data (int 4) = (map unit_of [\<lparr>spec_refIDC = 0, spec_typ = 9, spec_rbsp = []\<rparr>,
           \<lparr>spec_refIDC = 3, spec_typ = 5, spec_rbsp = [1, 2]\<rparr>], H264PacketFormatAVC, Inr ())"
  by (rule auto_packet_avc)
     (simp_all add: avc_ok_def nal_ok_def nal_bytes_def ebsp_def packet_size_def spec_size_def Let_def)

section \<open>What the splitters deliver on any input\<close>

text \<open>A delivered unit is a contiguous piece of the data, with a clear forbidden bit, and parses to itself.\<close>

definition sound_unit :: "bytes \<Rightarrow> NALUnit \<Rightarrow> bool" where
  "sound_unit data u \<longleftrightarrow> (\<exists>pre post. data = pre @ nal_Raw u @ post) \<and> parseNAL (nal_Raw u) = Inr u"

lemma rbsp_loop_append:
  "rbsp_loop z dst bs = rbind (rbsp_loop z [] bs) (\<lambda>xs. Inr (dst @ xs))"
proof (induction bs arbitrary: z dst)
  case (Cons b bs)
  have "rbsp_loop n (dst @ ys) bs = rbind (rbsp_loop n ys bs) (\<lambda>xs. Inr (dst @ xs))" for n ys
    using Cons.IH [of n "dst @ ys"] Cons.IH [of n ys] by (cases "rbsp_loop n [] bs") auto
  then show ?case
    using Cons.IH [of 0 dst] by (cases "z \<ge> 2 \<and> (b = 1 \<or> b = 2)") auto
qed simp

lemma rbsp_loop_error: "rbsp_loop z dst bs = Inl e \<Longrightarrow> e = ErrInvalidData"
  by (induction z dst bs rule: rbsp_loop.induct) (auto split: if_splits)

lemma parseNALInto_parseNAL:
  assumes "parseNALInto raw scratch = Inr (u, scratch')"
  shows "parseNAL raw = Inr u \<and> nal_Raw u = raw \<and> scratch' = scratch @ nal_RBSP u"
proof -
  obtain h body where raw: "raw = h # body" "h AND 0x80 = 0"
    using assms by (auto simp: parseNALInto_def split: list.splits if_splits)
  obtain xs where "rbsp_loop 0 [] body = Inr xs"
    using assms raw rbsp_loop_append [of 0 scratch body]
    by (cases "rbsp_loop 0 [] body") (auto simp: parseNALInto_def AppendRBSP_def)
  then show ?thesis
    using assms raw rbsp_loop_append [of 0 scratch body]
    by (auto simp: parseNALInto_def AppendRBSP_def parseNAL_def)
qed

lemma parseNALInto_error:
  "parseNALInto raw scratch = Inl e \<Longrightarrow> e = ErrInvalidData"
  by (auto simp: parseNALInto_def AppendRBSP_def rbind_eq_Inl split: list.splits if_splits
      dest: rbsp_loop_error)

lemma sound_piece:
  assumes "parseNALInto (take m (drop n data)) scratch = Inr (u, scratch')"
  shows "sound_unit data u"
proof -
  have "data = take n data @ take m (drop n data) @ drop m (drop n data)"
    by (metis append_take_drop_id)
  then show ?thesis
    using parseNALInto_parseNAL [OF assms] unfolding sound_unit_def by metis
qed

lemma SplitAnnexB_loop_sound:
  assumes "SplitAnnexB_loop data i out scratch = (out', scratch', r)" "\<forall>u \<in> set out. sound_unit data u"
  shows "(\<forall>u \<in> set out'. sound_unit data u) \<and> (\<forall>e. r = Inl e \<longrightarrow> e = ErrInvalidData)"
  using assms
proof (induction "length data - i" arbitrary: i out scratch rule: less_induct)
  case less
  define nalEnd where "nalEnd = (case findStartCode data i of Some (s, _) \<Rightarrow> s | None \<Rightarrow> length data)"
  have rest: ?case
    if "case findStartCode data i of None \<Rightarrow> (out1, sc1, Inr ()) = (out', scratch', r)
        | Some (s, p) \<Rightarrow> SplitAnnexB_loop data (s + p) out1 sc1 = (out', scratch', r)"
      and "\<forall>u \<in> set out1. sound_unit data u" for out1 sc1
  proof (cases "findStartCode data i")
    case None
    then show ?thesis using that by auto
  next
    case (Some sp)
    obtain s p where sp: "sp = (s, p)" by (cases sp) auto
    then have "i \<le> s" "0 < p" "s + p \<le> length data" using findStartCode_Some [of data i s p] Some by auto
    then show ?thesis using less.hyps [of "s + p" out1 sc1] that Some sp by auto
  qed
  note eq = less.prems(1) [unfolded SplitAnnexB_loop.simps [of data i] Let_def nalEnd_def [symmetric]]
  show ?case
  proof (cases "nalEnd > i")
    case True
    show ?thesis
    proof (cases "parseNALInto (drop i (take nalEnd data)) scratch")
      case (Inl e)
      then show ?thesis using eq True less.prems(2) parseNALInto_error by auto
    next
      case (Inr p)
      then obtain u sc where p: "parseNALInto (drop i (take nalEnd data)) scratch = Inr (u, sc)"
        by (cases p) auto
      then have "\<forall>v \<in> set (out @ [u]). sound_unit data v"
        using sound_piece less.prems(2) by (auto simp: drop_take)
      then show ?thesis using eq True p by (intro rest [of "out @ [u]" sc]) (auto split: option.splits)
    qed
  next
    case False
    then show ?thesis using eq less.prems(2) by (intro rest [of out scratch]) (auto split: option.splits)
  qed
qed

lemma SplitAVCC_loop_sound:
  assumes "SplitAVCC_loop data n pos out scratch = (out', scratch', r)" "\<forall>u \<in> set out. sound_unit data u"
    "pos \<le> length data"
    "take pos data = concat (map (\<lambda>u. be_bytes n (length (nal_Raw u)) @ nal_Raw u) out)"
  shows "(\<forall>u \<in> set out'. sound_unit data u) \<and> (\<forall>e. r = Inl e \<longrightarrow> e = ErrInvalidData)
    \<and> (r = Inr () \<longrightarrow> data = concat (map (\<lambda>u. be_bytes n (length (nal_Raw u)) @ nal_Raw u) out'))"
  using assms
proof (induction "length data - pos" arbitrary: pos out scratch rule: less_induct)
  case less
  note eq = less.prems(1) [unfolded SplitAVCC_loop.simps [of data n pos] Let_def]
  let ?size = "be_value (take n (drop pos data))"
  show ?case
  proof (cases "pos < length data")
    case False
    then show ?thesis using eq less.prems by auto
  next
    case pos: True
    show ?thesis
    proof (cases "int pos \<ge> int (length data) - int n \<or> ?size \<le> 0 \<or> ?size > int (length data - (pos + n))")
      case True
      then show ?thesis using eq pos less.prems(2) by (auto split: if_splits)
    next
      case ok: False
      let ?raw = "take (nat ?size) (drop (pos + n) data)"
      show ?thesis
      proof (cases "parseNALInto ?raw scratch")
        case (Inl e)
        then show ?thesis using eq pos ok less.prems(2) parseNALInto_error by auto
      next
        case (Inr p)
        then obtain u sc where p: "parseNALInto ?raw scratch = Inr (u, sc)" by (cases p) auto
        have raw: "nal_Raw u = ?raw" using parseNALInto_parseNAL [OF p] by simp
        have su: "\<forall>v \<in> set (out @ [u]). sound_unit data v"
          using sound_piece [OF p] less.prems(2) by auto
        have len: "length ?raw = nat ?size" using ok by auto
        have n: "length (take n (drop pos data)) = n" using ok by auto
        define sz where "sz = nat ?size"
        have "be_bytes n sz = take n (drop pos data)"
          using be_bytes_be_value [OF n] by (simp add: sz_def)
        moreover have "take (pos + n + sz) data = take pos data @ take n (drop pos data) @ take sz (drop (pos + n) data)"
          by (simp add: take_add)
        ultimately have "take (pos + n + nat ?size) data
            = concat (map (\<lambda>u. be_bytes n (length (nal_Raw u)) @ nal_Raw u) (out @ [u]))"
          using less.prems(4) raw len by (simp only: sz_def [symmetric]) simp
        then show ?thesis
          using eq pos ok p su by (intro less.hyps [of "pos + n + nat ?size" "out @ [u]" sc]) auto
      qed
    qed
  qed
qed

text \<open>
  On any input at all, the Annex B splitter delivers only sound units (also those delivered
  before an error): each raw unit is a contiguous piece of the input, its forbidden bit is clear and
  it parses to the delivered header fields and RBSP; the only error is \<open>ErrInvalidData\<close>, and a
  success delivers at least one unit.
\<close>

theorem SplitAnnexB_sound:
  "case SplitAnnexB data of (nals, r) \<Rightarrow>
     list_all (sound_unit data) nals \<and> r \<in> {Inr (), Inl ErrInvalidData} \<and> \<not> (r = Inr () \<and> nals = [])"
proof -
  have ok: "(\<forall>u \<in> set out. sound_unit data u) \<and> (\<forall>e. r = Inl e \<longrightarrow> e = ErrInvalidData)"
    if "SplitAnnexB_loop data i [] [] = (out, sc, r)" for i out sc r
    using SplitAnnexB_loop_sound [OF that] by simp
  show ?thesis
    using ok by (fastforce simp: SplitAnnexB_def SplitAnnexBInto_def list_all_iff
        split: prod.splits option.splits sum.splits if_splits)
qed

text \<open>
  The AVC splitter loses nothing: on any input and prefix size, its units are sound, the only
  error is \<open>ErrInvalidData\<close>, and when it succeeds the input is exactly the concatenation of the
  length-prefixed raw units it delivered.
\<close>

theorem SplitAVCC_exact:
  "case SplitAVCC data n of (nals, r) \<Rightarrow>
     list_all (sound_unit data) nals \<and> r \<in> {Inr (), Inl ErrInvalidData}
     \<and> (r = Inl ErrInvalidData
        \<or> (1 \<le> n \<and> n \<le> 4 \<and> nals \<noteq> []
           \<and> data = concat (map (\<lambda>u. be_bytes (nat n) (length (nal_Raw u)) @ nal_Raw u) nals)))"
proof -
  have ok: "(\<forall>u \<in> set out. sound_unit data u) \<and> (\<forall>e. r = Inl e \<longrightarrow> e = ErrInvalidData)
      \<and> (r = Inr () \<longrightarrow> data = concat (map (\<lambda>u. be_bytes (nat n) (length (nal_Raw u)) @ nal_Raw u) out))"
    if "SplitAVCC_loop data (nat n) 0 [] [] = (out, sc, r)" for out sc r
    using SplitAVCC_loop_sound [OF that] by simp
  obtain out sc r where l: "SplitAVCC_loop data (nat n) 0 [] [] = (out, sc, r)"
    by (metis prod_cases3)
  show ?thesis
    using ok [OF l] l
    by (cases r) (auto simp: SplitAVCC_def SplitAVCCInto_def list_all_iff)
qed

section \<open>The avcC configuration record as a container\<close>

definition validateAVCConfigRawNAL :: "bytes \<Rightarrow> u8 \<Rightarrow> unit result" where
  "validateAVCConfigRawNAL raw wantType =
     (if raw = [] \<or> length raw > 0xffff \<or> raw ! 0 AND 0x80 \<noteq> 0 \<or> raw ! 0 AND 0x1f \<noteq> wantType
      then Inl ErrInvalidData else Inr ())"

definition appendAVCConfigRawNAL :: "bytes \<Rightarrow> u8 \<Rightarrow> (bytes, unit) go" where
  "appendAVCConfigRawNAL raw wantType dst =
     (case validateAVCConfigRawNAL raw wantType of
        Inl _ \<Rightarrow> (Inl ErrInvalidData, dst)
      | Inr _ \<Rightarrow>
          (case rbind (checkedAddInt (int (length dst)) 2) (\<lambda>n. checkedAddInt n (int (length raw))) of
             Inl _ \<Rightarrow> (Inl ErrInvalidData, dst)
           | Inr _ \<Rightarrow> (Inr (), dst @ [word_of_nat (drop_bit 8 (length raw)), word_of_nat (length raw)] @ raw)))"

fun config_capacity_loop :: "bytes list \<Rightarrow> u8 \<Rightarrow> int \<Rightarrow> int result" where
  "config_capacity_loop [] wantType n = Inr n"
| "config_capacity_loop (raw # raws) wantType n =
     rbind (validateAVCConfigRawNAL raw wantType) (\<lambda>_.
     rbind (checkedAddInt n 2) (\<lambda>n.
     rbind (checkedAddInt n (int (length raw))) (\<lambda>n.
       config_capacity_loop raws wantType n)))"

definition avcDecoderConfigurationRecordCapacity :: "int \<Rightarrow> bytes list \<Rightarrow> bytes list \<Rightarrow> int result" where
  "avcDecoderConfigurationRecordCapacity base spsNALs ppsNALs =
     rbind (checkedAddInt base 6) (\<lambda>n.
     rbind (config_capacity_loop spsNALs NALSPS n) (\<lambda>n.
     rbind (checkedAddInt n 1) (\<lambda>n.
       config_capacity_loop ppsNALs NALPPS n)))"

definition AppendAVCDecoderConfigurationRecord ::
    "u8 \<Rightarrow> u8 \<Rightarrow> u8 \<Rightarrow> int \<Rightarrow> bytes list \<Rightarrow> bytes list \<Rightarrow> (bytes, unit) go" where
  "AppendAVCDecoderConfigurationRecord profileIDC profileCompatibility levelIDC nalLengthSize spsNALs ppsNALs dst =
     (if nalLengthSize < 1 \<or> nalLengthSize > 4 \<or> length spsNALs = 0 \<or> length spsNALs > 31
         \<or> length ppsNALs = 0 \<or> length ppsNALs > 255
      then (Inl ErrInvalidData, dst)
      else (case avcDecoderConfigurationRecordCapacity (int (length dst)) spsNALs ppsNALs of
        Inl _ \<Rightarrow> (Inl ErrInvalidData, dst)
      | Inr _ \<Rightarrow>
         (case (thn (upd (\<lambda>dst. dst @ [0x01, profileIDC, profileCompatibility, levelIDC,
                          0xfc OR word_of_int (nalLengthSize - 1), 0xe0 OR word_of_nat (length spsNALs)]))
                (thn (forM spsNALs (\<lambda>raw. appendAVCConfigRawNAL raw NALSPS))
                (thn (bnd (gets length) (\<lambda>n. lift (rbind (checkedAddInt (int n) 1) (\<lambda>_. Inr ()))))
                (thn (upd (\<lambda>dst. dst @ [word_of_nat (length ppsNALs)]))
                     (forM ppsNALs (\<lambda>raw. appendAVCConfigRawNAL raw NALPPS)))))) dst of
            (Inl e, dst') \<Rightarrow> (Inl e, take (length dst) dst')
          | (Inr u, dst') \<Rightarrow> (Inr u, dst'))))"

text \<open>
  Reading a length-prefixed NAL unit at a position of the record: the unit and the position behind
  it. \<open>peekAVCConfigNAL\<close> has the same body and returns a flag where this returns the error.
\<close>

definition readAVCConfigNAL :: "bytes \<Rightarrow> (nat, bytes) go" where
  "readAVCConfigNAL data pos =
     (if pos + 2 > length data then (Inl ErrInvalidData, pos)
      else let nalSize = push_bit 8 (int (unat (data ! pos))) OR int (unat (data ! (pos + 1)));
               pos = pos + 2
        in if nalSize \<le> 0 \<or> nalSize > int (length data - pos) then (Inl ErrInvalidData, pos)
           else (Inr (take (nat nalSize) (drop pos data)), pos + nat nalSize))"

definition peekAVCConfigNAL :: "bytes \<Rightarrow> nat \<Rightarrow> bytes option \<times> nat" where
  "peekAVCConfigNAL data pos =
     (if pos + 2 > length data then (None, pos)
      else let nalSize = push_bit 8 (int (unat (data ! pos))) OR int (unat (data ! (pos + 1)));
               pos = pos + 2
        in if nalSize \<le> 0 \<or> nalSize > int (length data - pos) then (None, pos)
           else (Some (take (nat nalSize) (drop pos data)), pos + nat nalSize))"

definition parseAVCConfigNAL :: "bytes \<Rightarrow> u8 \<Rightarrow> NALUnit result" where
  "parseAVCConfigNAL raw wantType =
     (if raw = [] \<or> raw ! 0 AND 0x80 \<noteq> 0 \<or> raw ! 0 AND 0x1f \<noteq> wantType then Inl ErrInvalidData
      else (case parseNAL raw of
              Inr nal \<Rightarrow> Inr nal
            | Inl _ \<Rightarrow> Inr \<lparr>nal_RefIDC = drop_bit 5 (raw ! 0) AND 3, nal_Type = wantType, nal_Raw = raw,
                             nal_RBSP = tl raw\<rparr>))"

text \<open>The loop over the parameter sets of one kind: the position behind them, if all have the type.\<close>

fun probe_loop :: "bytes \<Rightarrow> u8 \<Rightarrow> nat \<Rightarrow> nat \<Rightarrow> nat option" where
  "probe_loop data wantType 0 pos = Some pos"
| "probe_loop data wantType (Suc n) pos =
     (case peekAVCConfigNAL data pos of
        (None, _) \<Rightarrow> None
      | (Some raw, pos') \<Rightarrow> if raw ! 0 AND 0x9f \<noteq> wantType then None else probe_loop data wantType n pos')"

definition IsAVCDecoderConfigurationRecord :: "bytes \<Rightarrow> bool" where
  "IsAVCDecoderConfigurationRecord data =
     (if nalInputTooLarge data \<or> length data < 9 \<or> data ! 0 \<noteq> 1
         \<or> data ! 4 AND 0xfc \<noteq> 0xfc \<or> data ! 5 AND 0xe0 \<noteq> 0xe0 then False
      else let spsCount = unat (data ! 5 AND 0x1f)
        in if spsCount = 0 then False
           else (case probe_loop data NALSPS spsCount 6 of
                   None \<Rightarrow> False
                 | Some pos \<Rightarrow>
                     if pos \<ge> length data then False
                     else let ppsCount = unat (data ! pos)
                       in if ppsCount = 0 then False
                          else probe_loop data NALPPS ppsCount (pos + 1) \<noteq> None))"

definition config_nal :: "bytes \<Rightarrow> bytes" where
  "config_nal raw = [word_of_nat (drop_bit 8 (length raw)), word_of_nat (length raw)] @ raw"

lemma appendAVCConfigRawNAL_atomic:
  "appendAVCConfigRawNAL raw t dst = (r, dst') \<Longrightarrow>
    (r = Inr () \<and> validateAVCConfigRawNAL raw t = Inr () \<and> dst' = dst @ config_nal raw) \<or> (r \<noteq> Inr () \<and> dst' = dst)"
  by (auto simp: appendAVCConfigRawNAL_def config_nal_def split: sum.splits)

lemma append_config_all:
  "forM raws (\<lambda>raw. appendAVCConfigRawNAL raw t) dst = (r, dst') \<Longrightarrow>
    (\<exists>xs. dst' = dst @ xs) \<and> (r = Inr () \<longrightarrow>
      dst' = dst @ concat (map config_nal raws) \<and> (\<forall>raw \<in> set raws. validateAVCConfigRawNAL raw t = Inr ()))"
proof (induction raws arbitrary: dst)
  case Nil
  then show ?case by (auto simp: ret_def)
next
  case (Cons raw raws)
  obtain r1 d1 where 1: "appendAVCConfigRawNAL raw t dst = (r1, d1)" by (cases "appendAVCConfigRawNAL raw t dst") auto
  note a = appendAVCConfigRawNAL_atomic [OF 1]
  show ?case
  proof (cases r1)
    case (Inl e)
    then show ?thesis using Cons.prems 1 a by (auto simp: thn_def bnd_def)
  next
    case (Inr u)
    then have "forM raws (\<lambda>raw. appendAVCConfigRawNAL raw t) d1 = (r, dst')"
      using Cons.prems 1 by (simp add: thn_def bnd_def)
    then show ?thesis using Cons.IH [of d1] a Inr by auto
  qed
qed

lemma peek_config_nal:
  assumes "validateAVCConfigRawNAL raw t = Inr ()"
  shows "peekAVCConfigNAL (pre @ config_nal raw @ post) (length pre) = (Some raw, length (pre @ config_nal raw))"
    and "readAVCConfigNAL (pre @ config_nal raw @ post) (length pre) = (Inr raw, length (pre @ config_nal raw))"
    and "raw ! 0 AND 0x9f = t"
proof -
  have v: "raw \<noteq> []" "length raw \<le> 0xffff" "raw ! 0 AND 0x80 = 0" "raw ! 0 AND 0x1f = t"
    using assms by (auto simp: validateAVCConfigRawNAL_def split: if_splits)
  have two: "be_bytes 2 m = [word_of_nat (drop_bit 8 m), word_of_nat m]" for m
    by (simp add: be_bytes_def upt_rec)
  have "be_value (be_bytes 2 (length raw)) = int (length raw)"
    using v(2) by (simp add: be_value_be_bytes)
  then have len: "push_bit 8 (int (unat (word_of_nat (drop_bit 8 (length raw)) :: u8)))
      OR int (unat (word_of_nat (length raw) :: u8)) = int (length raw)"
    unfolding two be_value_def by simp
  have d: "(pre @ config_nal raw @ post) ! (length pre) = word_of_nat (drop_bit 8 (length raw))"
    "(pre @ config_nal raw @ post) ! (length pre + 1) = word_of_nat (length raw)"
    "drop (length pre + 2) (pre @ config_nal raw @ post) = raw @ post"
    "length (pre @ config_nal raw @ post) = length pre + 2 + length raw + length post"
    by (simp_all add: config_nal_def nth_append)
  show "peekAVCConfigNAL (pre @ config_nal raw @ post) (length pre) = (Some raw, length (pre @ config_nal raw))"
    unfolding peekAVCConfigNAL_def d Let_def len using v(1) by (simp add: config_nal_def)
  show "readAVCConfigNAL (pre @ config_nal raw @ post) (length pre) = (Inr raw, length (pre @ config_nal raw))"
    unfolding readAVCConfigNAL_def d Let_def len using v(1) by (simp add: config_nal_def)
  have "(0x9f :: u8) = 0x80 OR 0x1f" by simp
  then have "raw ! 0 AND 0x9f = (raw ! 0 AND 0x80) OR (raw ! 0 AND 0x1f)"
    by (metis bit.conj_disj_distrib)
  then show "raw ! 0 AND 0x9f = t" using v(3,4) by simp
qed

lemma probe_config_nals:
  assumes "\<forall>raw \<in> set raws. validateAVCConfigRawNAL raw t = Inr ()"
  shows "probe_loop (pre @ concat (map config_nal raws) @ post) t (length raws) (length pre)
      = Some (length (pre @ concat (map config_nal raws)))"
    and "mapM (\<lambda>_. readAVCConfigNAL (pre @ concat (map config_nal raws) @ post)) raws (length pre)
      = (Inr raws, length (pre @ concat (map config_nal raws)))"
  using assms
proof (induction raws arbitrary: pre)
  case (Cons raw raws)
  {
    case 1
    then have v: "validateAVCConfigRawNAL raw t = Inr ()" by simp
    show ?case
      using 1 peek_config_nal(3) [OF v] Cons.IH(1) [of "pre @ config_nal raw"]
        peek_config_nal(1) [OF v, of pre "concat (map config_nal raws) @ post"] by simp
  next
    case 2
    then have v: "validateAVCConfigRawNAL raw t = Inr ()" by simp
    show ?case
      using 2 Cons.IH(2) [of "pre @ config_nal raw"]
        peek_config_nal(2) [OF v, of pre "concat (map config_nal raws) @ post"] by (simp add: bnd_def ret_def)
  }
qed (simp_all add: ret_def)

lemma config_capacity_ok:
  assumes "\<forall>raw \<in> set raws. validateAVCConfigRawNAL raw t = Inr ()"
    "0 \<le> n" "n + int (length raws) * 65537 \<le> maxInt"
  shows "\<exists>m. config_capacity_loop raws t n = Inr m \<and> n \<le> m \<and> m \<le> n + int (length raws) * 65537"
  using assms
proof (induction raws arbitrary: n)
  case (Cons raw raws)
  have l: "int (length raw) \<le> 65535"
    using Cons.prems(1) by (auto simp: validateAVCConfigRawNAL_def split: if_splits)
  have "fits64 n" "fits64 (n + 2)" "fits64 (n + 2 + int (length raw))" "fits64 (int (length raw))"
    using l Cons.prems(2,3) by (simp_all add: fits64_def)
  then have "config_capacity_loop (raw # raws) t n = config_capacity_loop raws t (n + 2 + int (length raw))"
    using Cons.prems(1) by (simp add: checkedAddInt_exact fits64_def)
  moreover have "\<exists>m. config_capacity_loop raws t (n + 2 + int (length raw)) = Inr m
      \<and> n + 2 + int (length raw) \<le> m \<and> m \<le> n + 2 + int (length raw) + int (length raws) * 65537"
    using Cons.prems l by (intro Cons.IH) auto
  ultimately show ?case using l by auto
qed simp

lemma append_config_ok:
  assumes "\<forall>raw \<in> set raws. validateAVCConfigRawNAL raw t = Inr ()"
    "int (length dst) + int (length raws) * 65537 \<le> maxInt"
  shows "forM raws (\<lambda>raw. appendAVCConfigRawNAL raw t) dst = (Inr (), dst @ concat (map config_nal raws))"
  using assms
proof (induction raws arbitrary: dst)
  case Nil
  then show ?case by (simp add: ret_def)
next
  case (Cons raw raws)
  have l: "int (length raw) \<le> 65535"
    using Cons.prems(1) by (auto simp: validateAVCConfigRawNAL_def split: if_splits)
  have "fits64 (int (length dst))" "fits64 (int (length dst) + 2)" "fits64 (int (length dst) + 2 + int (length raw))"
      "fits64 (int (length raw))"
    using l Cons.prems(2) by (simp_all add: fits64_def)
  then have "appendAVCConfigRawNAL raw t dst = (Inr (), dst @ config_nal raw)"
    using Cons.prems(1) by (simp add: appendAVCConfigRawNAL_def checkedAddInt_exact fits64_def config_nal_def)
  moreover have "forM raws (\<lambda>raw. appendAVCConfigRawNAL raw t) (dst @ config_nal raw)
      = (Inr (), (dst @ config_nal raw) @ concat (map config_nal raws))"
    using Cons.prems l by (intro Cons.IH) (auto simp: config_nal_def)
  ultimately show ?case by (simp add: thn_def bnd_def)
qed

definition config_units_ok :: "bytes list \<Rightarrow> bytes list \<Rightarrow> bool" where
  "config_units_ok spss ppss \<longleftrightarrow>
     1 \<le> length spss \<and> length spss \<le> 31 \<and> 1 \<le> length ppss \<and> length ppss \<le> 255
     \<and> (\<forall>raw \<in> set spss. validateAVCConfigRawNAL raw NALSPS = Inr ())
     \<and> (\<forall>raw \<in> set ppss. validateAVCConfigRawNAL raw NALPPS = Inr ())"

lemma or_and_absorb: "((a :: u8) OR x) AND a = a"
  by (rule bit_word_eqI) (auto simp: bit_simps)

lemma count_bits: "k \<le> 31 \<Longrightarrow> unat (((0xe0 :: u8) OR word_of_nat k) AND 0x1f) = k"
proof -
  assume k: "k \<le> 31"
  have "((0xe0 :: u8) OR word_of_nat k) AND 0x1f = word_of_nat k AND mask 5"
    by (simp add: bit.conj_disj_distrib2 mask_eq_exp_minus_1)
  also have "\<dots> = take_bit 5 (word_of_nat k)" by (simp add: take_bit_eq_mask)
  finally show ?thesis using k by (simp add: unsigned_take_bit_eq unat_of_nat take_bit_nat_eq_self)
qed

lemma length_config_nals:
  "\<forall>raw \<in> set raws. validateAVCConfigRawNAL raw t = Inr () \<Longrightarrow>
    length (concat (map config_nal raws)) \<le> length raws * 65537"
proof (induction raws)
  case (Cons raw raws)
  then have "length raw \<le> 65535" by (auto simp: validateAVCConfigRawNAL_def split: if_splits)
  then show ?case using Cons by (simp add: config_nal_def)
qed simp

text \<open>
  C18. The avcC record: from 1 to 31 valid raw SPS units, 1 to 255 valid raw PPS units and a
  prefix size of 1 to 4, the writer builds a record without an error; the probe recognises it; the
  length-prefixed reader, run over the record as the decoder runs it, gives back every SPS and then
  every PPS and ends at the end of the record.
\<close>

theorem avcc_record_roundtrip:
  assumes "1 \<le> n" and "n \<le> 4" and "config_units_ok spss ppss"
  shows "\<exists>data p. AppendAVCDecoderConfigurationRecord prof flags level n spss ppss [] = (Inr (), data)
    \<and> IsAVCDecoderConfigurationRecord data
    \<and> mapM (\<lambda>_. readAVCConfigNAL data) spss 6 = (Inr spss, p)
    \<and> unat (data ! p) = length ppss
    \<and> mapM (\<lambda>_. readAVCConfigNAL data) ppss (p + 1) = (Inr ppss, length data)"
proof -
  have ns: "length spss \<noteq> 0" "length spss \<le> 31" and np: "length ppss \<noteq> 0" "length ppss \<le> 255"
    and vs: "\<forall>raw \<in> set spss. validateAVCConfigRawNAL raw NALSPS = Inr ()"
    and vp: "\<forall>raw \<in> set ppss. validateAVCConfigRawNAL raw NALPPS = Inr ()"
    using assms(3) by (auto simp: config_units_ok_def)
  let ?head = "[0x01, prof, flags, level, 0xfc OR word_of_int (n - 1), 0xe0 OR word_of_nat (length spss)] :: bytes"
  let ?S = "concat (map config_nal spss)" and ?P = "concat (map config_nal ppss)"
  let ?cnt = "word_of_nat (length ppss) :: u8"
  define data where "data = ?head @ ?S @ [?cnt] @ ?P"
  let ?p = "6 + length ?S"
  have lS: "length ?S \<le> 31 * 65537" and lP: "length ?P \<le> 255 * 65537"
    using length_config_nals [OF vs] length_config_nals [OF vp] ns(2) np(2) by linarith+
  obtain m1 where m1: "config_capacity_loop spss NALSPS 6 = Inr m1" "6 \<le> m1" "m1 \<le> 6 + 31 * 65537"
    using config_capacity_ok [OF vs, of 6] ns(2) by auto
  obtain m2 where m2: "config_capacity_loop ppss NALPPS (m1 + 1) = Inr m2"
    using config_capacity_ok [OF vp, of "m1 + 1"] np(2) m1 by auto
  have cap: "avcDecoderConfigurationRecordCapacity 0 spss ppss = Inr m2"
    using m1 m2 by (simp add: avcDecoderConfigurationRecordCapacity_def checkedAddInt_def)
  have fS: "forM spss (\<lambda>raw. appendAVCConfigRawNAL raw NALSPS) ?head = (Inr (), ?head @ ?S)"
    by (rule append_config_ok [OF vs]) (use ns(2) in simp)
  have fP: "forM ppss (\<lambda>raw. appendAVCConfigRawNAL raw NALPPS) (?head @ ?S @ [?cnt])
      = (Inr (), (?head @ ?S @ [?cnt]) @ ?P)"
    by (rule append_config_ok [OF vp]) (use np(2) lS in simp)
  have "AppendAVCDecoderConfigurationRecord prof flags level n spss ppss [] = (Inr (), data)"
    using assms(1,2) ns np cap fS fP lS
    by (simp add: AppendAVCDecoderConfigurationRecord_def thn_def bnd_def upd_def gets_def lift_def
        checkedAddInt_def data_def)
  moreover have dS: "data = ?head @ ?S @ (?cnt # ?P)" and dP: "data = (?head @ ?S @ [?cnt]) @ ?P @ []"
    by (simp_all add: data_def)
  have hl: "length ?head = 6" and pl: "length (?head @ ?S @ [?cnt]) = ?p + 1" by simp_all
  have S: "probe_loop data NALSPS (length spss) 6 = Some ?p"
      "mapM (\<lambda>_. readAVCConfigNAL data) spss 6 = (Inr spss, ?p)"
    using probe_config_nals [OF vs, of ?head "?cnt # ?P"] unfolding dS [symmetric] hl by simp_all
  have P: "probe_loop data NALPPS (length ppss) (?p + 1) \<noteq> None"
      "mapM (\<lambda>_. readAVCConfigNAL data) ppss (?p + 1) = (Inr ppss, length data)"
    using probe_config_nals [OF vp, of "?head @ ?S @ [?cnt]" "[]"] unfolding dP [symmetric] pl
    by (simp_all add: data_def)
  have cnt: "data ! ?p = ?cnt" "unat ?cnt = length ppss"
    using np(2) by (simp_all add: data_def nth_append unat_of_nat)
  moreover have "IsAVCDecoderConfigurationRecord data"
  proof -
    have "config_nal (hd spss) \<noteq> []" "config_nal (hd ppss) \<noteq> []" by (simp_all add: config_nal_def)
    have len: "2 \<le> length ?S"
      using ns(1) by (cases spss) (auto simp: config_nal_def)
    have "\<not> nalInputTooLarge data" "\<not> length data < 9" "?p < length data"
      using lS lP len np(1) by (auto simp: nalInputTooLarge_def data_def)
    moreover have "data ! 0 = 1" "data ! 4 AND 0xfc = 0xfc" "data ! 5 AND 0xe0 = 0xe0"
      "unat (data ! 5 AND 0x1f) = length spss"
      using ns(2) by (simp_all add: data_def or_and_absorb count_bits)
    ultimately show ?thesis
      using S(1) P(1) cnt ns(1) np(1) by (simp add: IsAVCDecoderConfigurationRecord_def Let_def)
  qed
  ultimately show ?thesis using S(2) P(2) by (metis cnt)
qed

lemma avcc_record_roundtrip_witness:
  "\<exists>data p. AppendAVCDecoderConfigurationRecord 66 0 30 4 [[0x67, 1, 2]] [[0x68, 3]] [] = (Inr (), data)
    \<and> IsAVCDecoderConfigurationRecord data
    \<and> mapM (\<lambda>_. readAVCConfigNAL data) [[0x67, 1, 2 :: u8]] 6 = (Inr [[0x67, 1, 2]], p)
    \<and> unat (data ! p) = length [[0x68, 3 :: u8]]
    \<and> mapM (\<lambda>_. readAVCConfigNAL data) [[0x68, 3 :: u8]] (p + 1) = (Inr [[0x68, 3]], length data)"
  by (rule avcc_record_roundtrip) (simp_all add: config_units_ok_def validateAVCConfigRawNAL_def)

end
