(* ===== verification/Tables.thy ===== *)
theory Tables
  imports H264_Prelude
begin

text \<open>
  The decoder tables of \<open>internal/h264/data.go\<close>: macroblock types, coded block patterns, scans,
  scaling lists, dequantisation seeds and the chroma QP mapping. Sums such as \<open>1 + 2*4\<close> in the
  source's array literals are written as their values.
\<close>

abbreviation (input) qpMaxNum :: nat where "qpMaxNum \<equiv> 87"

section \<open>Macroblock types\<close>

definition MBTypeIntra4x4 :: u32 where "MBTypeIntra4x4 = 0x1"
definition MBTypeIntra16x16 :: u32 where "MBTypeIntra16x16 = 0x2"
definition MBTypeIntraPCM :: u32 where "MBTypeIntraPCM = 0x4"
definition MBType16x16 :: u32 where "MBType16x16 = 0x8"
definition MBType16x8 :: u32 where "MBType16x8 = 0x10"
definition MBType8x16 :: u32 where "MBType8x16 = 0x20"
definition MBType8x8 :: u32 where "MBType8x8 = 0x40"
definition MBTypeInterlaced :: u32 where "MBTypeInterlaced = 0x80"
definition MBTypeDirect2 :: u32 where "MBTypeDirect2 = 0x100"
definition MBTypeRef0 :: u32 where "MBTypeRef0 = 0x200"
definition MBTypeCBP :: u32 where "MBTypeCBP = 0x400"
definition MBTypeQuant :: u32 where "MBTypeQuant = 0x800"
definition MBTypeP0L0 :: u32 where "MBTypeP0L0 = 0x1000"
definition MBTypeP1L0 :: u32 where "MBTypeP1L0 = 0x2000"
definition MBTypeP0L1 :: u32 where "MBTypeP0L1 = 0x4000"
definition MBTypeP1L1 :: u32 where "MBTypeP1L1 = 0x8000"
definition MBTypeSkip :: u32 where "MBTypeSkip = 0x20000"
definition MBTypeACPRed :: u32 where "MBTypeACPRed = 0x40000"
definition MBType8x8DCT :: u32 where "MBType8x8DCT = 0x1000000"
definition MBTypeL0 :: u32 where "MBTypeL0 = MBTypeP0L0 OR MBTypeP1L0"
definition MBTypeL1 :: u32 where "MBTypeL1 = MBTypeP0L1 OR MBTypeP1L1"
definition MBTypeL0L1 :: u32 where "MBTypeL0L1 = MBTypeL0 OR MBTypeL1"

lemmas mb_type_defs =
  MBTypeIntra4x4_def MBTypeIntra16x16_def MBTypeIntraPCM_def MBType16x16_def MBType16x8_def MBType8x16_def MBType8x8_def MBTypeInterlaced_def MBTypeDirect2_def MBTypeRef0_def MBTypeCBP_def MBTypeQuant_def MBTypeP0L0_def MBTypeP1L0_def MBTypeP0L1_def MBTypeP1L1_def MBTypeSkip_def MBTypeACPRed_def MBType8x8DCT_def MBTypeL0_def MBTypeL1_def MBTypeL0L1_def

record IMBInfo =
  imb_Type :: u32
  imb_PredMode :: int
  imb_CBP :: int

record PMBInfo =
  pmb_Type :: u32
  pmb_PartitionCount :: nat

definition h264IMBTypeInfo :: "IMBInfo list" where
  "h264IMBTypeInfo = map (\<lambda>(t, p, c). \<lparr>imb_Type = t, imb_PredMode = p, imb_CBP = c\<rparr>)
    [(MBTypeIntra4x4, -1, -1),
     (MBTypeIntra16x16, 2, 0),
     (MBTypeIntra16x16, 1, 0),
     (MBTypeIntra16x16, 0, 0),
     (MBTypeIntra16x16, 3, 0),
     (MBTypeIntra16x16, 2, 16),
     (MBTypeIntra16x16, 1, 16),
     (MBTypeIntra16x16, 0, 16),
     (MBTypeIntra16x16, 3, 16),
     (MBTypeIntra16x16, 2, 32),
     (MBTypeIntra16x16, 1, 32),
     (MBTypeIntra16x16, 0, 32),
     (MBTypeIntra16x16, 3, 32),
     (MBTypeIntra16x16, 2, 15),
     (MBTypeIntra16x16, 1, 15),
     (MBTypeIntra16x16, 0, 15),
     (MBTypeIntra16x16, 3, 15),
     (MBTypeIntra16x16, 2, 15 + 16),
     (MBTypeIntra16x16, 1, 15 + 16),
     (MBTypeIntra16x16, 0, 15 + 16),
     (MBTypeIntra16x16, 3, 15 + 16),
     (MBTypeIntra16x16, 2, 15 + 32),
     (MBTypeIntra16x16, 1, 15 + 32),
     (MBTypeIntra16x16, 0, 15 + 32),
     (MBTypeIntra16x16, 3, 15 + 32),
     (MBTypeIntraPCM, -1, -1)]"

definition h264PMBTypeInfo :: "PMBInfo list" where
  "h264PMBTypeInfo = map (\<lambda>(t, n). \<lparr>pmb_Type = t, pmb_PartitionCount = n\<rparr>)
    [(MBType16x16 OR MBTypeP0L0, 1),
     (MBType16x8 OR MBTypeP0L0 OR MBTypeP1L0, 2),
     (MBType8x16 OR MBTypeP0L0 OR MBTypeP1L0, 2),
     (MBType8x8 OR MBTypeP0L0 OR MBTypeP1L0, 4),
     (MBType8x8 OR MBTypeP0L0 OR MBTypeP1L0 OR MBTypeRef0, 4)]"

definition h264PSubMBTypeInfo :: "PMBInfo list" where
  "h264PSubMBTypeInfo = map (\<lambda>(t, n). \<lparr>pmb_Type = t, pmb_PartitionCount = n\<rparr>)
    [(MBType16x16 OR MBTypeP0L0, 1),
     (MBType16x8 OR MBTypeP0L0, 2),
     (MBType8x16 OR MBTypeP0L0, 2),
     (MBType8x8 OR MBTypeP0L0, 4)]"

definition h264BMBTypeInfo :: "PMBInfo list" where
  "h264BMBTypeInfo = map (\<lambda>(t, n). \<lparr>pmb_Type = t, pmb_PartitionCount = n\<rparr>)
    [(MBTypeDirect2 OR MBTypeL0L1, 1),
     (MBType16x16 OR MBTypeP0L0, 1),
     (MBType16x16 OR MBTypeP0L1, 1),
     (MBType16x16 OR MBTypeP0L0 OR MBTypeP0L1, 1),
     (MBType16x8 OR MBTypeP0L0 OR MBTypeP1L0, 2),
     (MBType8x16 OR MBTypeP0L0 OR MBTypeP1L0, 2),
     (MBType16x8 OR MBTypeP0L1 OR MBTypeP1L1, 2),
     (MBType8x16 OR MBTypeP0L1 OR MBTypeP1L1, 2),
     (MBType16x8 OR MBTypeP0L0 OR MBTypeP1L1, 2),
     (MBType8x16 OR MBTypeP0L0 OR MBTypeP1L1, 2),
     (MBType16x8 OR MBTypeP0L1 OR MBTypeP1L0, 2),
     (MBType8x16 OR MBTypeP0L1 OR MBTypeP1L0, 2),
     (MBType16x8 OR MBTypeP0L0 OR MBTypeP1L0 OR MBTypeP1L1, 2),
     (MBType8x16 OR MBTypeP0L0 OR MBTypeP1L0 OR MBTypeP1L1, 2),
     (MBType16x8 OR MBTypeP0L1 OR MBTypeP1L0 OR MBTypeP1L1, 2),
     (MBType8x16 OR MBTypeP0L1 OR MBTypeP1L0 OR MBTypeP1L1, 2),
     (MBType16x8 OR MBTypeP0L0 OR MBTypeP0L1 OR MBTypeP1L0, 2),
     (MBType8x16 OR MBTypeP0L0 OR MBTypeP0L1 OR MBTypeP1L0, 2),
     (MBType16x8 OR MBTypeP0L0 OR MBTypeP0L1 OR MBTypeP1L1, 2),
     (MBType8x16 OR MBTypeP0L0 OR MBTypeP0L1 OR MBTypeP1L1, 2),
     (MBType16x8 OR MBTypeP0L0 OR MBTypeP0L1 OR MBTypeP1L0 OR MBTypeP1L1, 2),
     (MBType8x16 OR MBTypeP0L0 OR MBTypeP0L1 OR MBTypeP1L0 OR MBTypeP1L1, 2),
     (MBType8x8 OR MBTypeP0L0 OR MBTypeP0L1 OR MBTypeP1L0 OR MBTypeP1L1, 4)]"

definition h264BSubMBTypeInfo :: "PMBInfo list" where
  "h264BSubMBTypeInfo = map (\<lambda>(t, n). \<lparr>pmb_Type = t, pmb_PartitionCount = n\<rparr>)
    [(MBTypeDirect2, 1),
     (MBType16x16 OR MBTypeP0L0, 1),
     (MBType16x16 OR MBTypeP0L1, 1),
     (MBType16x16 OR MBTypeP0L0 OR MBTypeP0L1, 1),
     (MBType16x8 OR MBTypeP0L0 OR MBTypeP1L0, 2),
     (MBType8x16 OR MBTypeP0L0 OR MBTypeP1L0, 2),
     (MBType16x8 OR MBTypeP0L1 OR MBTypeP1L1, 2),
     (MBType8x16 OR MBTypeP0L1 OR MBTypeP1L1, 2),
     (MBType16x8 OR MBTypeP0L0 OR MBTypeP0L1 OR MBTypeP1L0 OR MBTypeP1L1, 2),
     (MBType8x16 OR MBTypeP0L0 OR MBTypeP0L1 OR MBTypeP1L0 OR MBTypeP1L1, 2),
     (MBType8x8 OR MBTypeP0L0 OR MBTypeP1L0, 4),
     (MBType8x8 OR MBTypeP0L1 OR MBTypeP1L1, 4),
     (MBType8x8 OR MBTypeP0L0 OR MBTypeP0L1 OR MBTypeP1L0 OR MBTypeP1L1, 4)]"

section \<open>Coded block patterns, dequantisation\<close>

definition h264GolombToIntra4x4CBP :: "u8 list" where
  "h264GolombToIntra4x4CBP =
    [47, 31, 15, 0, 23, 27, 29, 30, 7, 11, 13, 14, 39, 43, 45, 46, 16, 3, 5, 10, 12, 19,
     21, 26, 28, 35, 37, 42, 44, 1, 2, 4, 8, 17, 18, 20, 24, 6, 9, 22, 25, 32, 33, 34, 36,
     40, 38, 41]"

definition h264GolombToInterCBP :: "u8 list" where
  "h264GolombToInterCBP =
    [0, 16, 1, 2, 4, 8, 32, 3, 5, 10, 12, 15, 47, 7, 11, 13, 14, 6, 9, 31, 35, 37, 42, 44,
     33, 34, 36, 40, 39, 43, 45, 46, 17, 18, 20, 24, 19, 21, 26, 28, 23, 27, 29, 30, 22,
     25, 38, 41]"

definition h264IntraPCMSampleCount :: "int list" where
  "h264IntraPCMSampleCount = [256, 384, 512, 768]"

definition h264Dequant4CoeffInit :: "u8 list list" where
  "h264Dequant4CoeffInit =
    [[10, 13, 16],
     [11, 14, 18],
     [13, 16, 20],
     [14, 18, 23],
     [16, 20, 25],
     [18, 23, 29]]"

definition h264Dequant8CoeffInitScan :: "u8 list" where
  "h264Dequant8CoeffInitScan =
    [0, 3, 4, 3, 3, 1, 5, 1, 4, 5, 2, 5, 3, 1, 5, 1]"

definition h264Dequant8CoeffInit :: "u8 list list" where
  "h264Dequant8CoeffInit =
    [[20, 18, 32, 19, 25, 24],
     [22, 19, 35, 21, 28, 26],
     [26, 23, 42, 24, 33, 31],
     [28, 25, 45, 26, 35, 33],
     [32, 28, 51, 30, 40, 38],
     [36, 32, 58, 34, 46, 43]]"

definition h264QuantRem6 :: "u8 list" where
  "h264QuantRem6 =
    [0, 1, 2, 3, 4, 5, 0, 1, 2, 3, 4, 5, 0, 1, 2, 3, 4, 5, 0, 1, 2, 3, 4, 5, 0, 1, 2, 3, 4,
     5, 0, 1, 2, 3, 4, 5, 0, 1, 2, 3, 4, 5, 0, 1, 2, 3, 4, 5, 0, 1, 2, 3, 4, 5, 0, 1, 2, 3,
     4, 5, 0, 1, 2, 3, 4, 5, 0, 1, 2, 3, 4, 5, 0, 1, 2, 3, 4, 5, 0, 1, 2, 3, 4, 5, 0, 1, 2,
     3]"

definition h264QuantDiv6 :: "u8 list" where
  "h264QuantDiv6 =
    [0, 0, 0, 0, 0, 0, 1, 1, 1, 1, 1, 1, 2, 2, 2, 2, 2, 2, 3, 3, 3, 3, 3, 3, 4, 4, 4, 4, 4,
     4, 5, 5, 5, 5, 5, 5, 6, 6, 6, 6, 6, 6, 7, 7, 7, 7, 7, 7, 8, 8, 8, 8, 8, 8, 9, 9, 9, 9,
     9, 9, 10, 10, 10, 10, 10, 10, 11, 11, 11, 11, 11, 11, 12, 12, 12, 12, 12, 12, 13, 13,
     13, 13, 13, 13, 14, 14, 14, 14]"

section \<open>Scans\<close>

definition h264ZigzagScan :: "u8 list" where
  "h264ZigzagScan =
    [0, 1, 4, 8, 5, 2, 3, 6, 9, 12, 13, 10, 7, 11, 14, 15]"

definition h264Scan8 :: "u8 list" where
  "h264Scan8 =
    [12, 13, 20, 21, 14, 15, 22, 23, 28, 29, 36, 37, 30, 31, 38, 39, 52, 53, 60, 61, 54,
     55, 62, 63, 68, 69, 76, 77, 70, 71, 78, 79, 92, 93, 100, 101, 94, 95, 102, 103, 108,
     109, 116, 117, 110, 111, 118, 119, 0, 40, 80]"

definition h264FieldScan :: "u8 list" where
  "h264FieldScan =
    [0, 4, 1, 8, 12, 5, 9, 13, 2, 6, 10, 14, 3, 7, 11, 15]"

definition h264FieldScan8x8Raw :: "u8 list" where
  "h264FieldScan8x8Raw =
    [0, 8, 16, 1, 9, 24, 32, 17, 2, 25, 40, 48, 56, 33, 10, 3, 18, 41, 49, 57, 26, 11, 4,
     19, 34, 42, 50, 58, 27, 12, 5, 20, 35, 43, 51, 59, 28, 13, 6, 21, 36, 44, 52, 60, 29,
     14, 22, 37, 45, 53, 61, 30, 7, 15, 38, 46, 54, 62, 23, 31, 39, 47, 55, 63]"

definition h264ZigzagDirect :: "u8 list" where
  "h264ZigzagDirect =
    [0, 1, 8, 16, 9, 2, 3, 10, 17, 24, 32, 25, 18, 11, 4, 5, 12, 19, 26, 33, 40, 48, 41,
     34, 27, 20, 13, 6, 7, 14, 21, 28, 35, 42, 49, 56, 57, 50, 43, 36, 29, 22, 15, 23, 30,
     37, 44, 51, 58, 59, 52, 45, 38, 31, 39, 46, 53, 60, 61, 54, 47, 55, 62, 63]"

definition h264ZigzagScan8x8CAVLCRaw :: "u8 list" where
  "h264ZigzagScan8x8CAVLCRaw =
    [0, 9, 17, 18, 12, 40, 27, 7, 35, 57, 29, 30, 58, 38, 53, 47, 1, 2, 24, 11, 19, 48, 20,
     14, 42, 50, 22, 37, 59, 31, 60, 55, 8, 3, 32, 4, 26, 41, 13, 21, 49, 43, 15, 44, 52,
     39, 61, 62, 16, 10, 25, 5, 33, 34, 6, 28, 56, 36, 23, 51, 45, 46, 54, 63]"

definition h264FieldScan8x8CAVLCRaw :: "u8 list" where
  "h264FieldScan8x8CAVLCRaw =
    [0, 9, 2, 56, 18, 26, 34, 27, 35, 28, 36, 29, 45, 7, 54, 39, 8, 24, 25, 33, 41, 11, 42,
     12, 43, 13, 44, 14, 53, 15, 62, 47, 16, 32, 40, 10, 49, 4, 50, 5, 51, 6, 52, 22, 61,
     38, 23, 55, 1, 17, 48, 3, 57, 19, 58, 20, 59, 21, 60, 37, 30, 46, 31, 63]"

definition h264ChromaDCScan :: "u8 list" where
  "h264ChromaDCScan =
    [0, 16, 32, 48]"

definition h264Chroma422DCScan :: "u8 list" where
  "h264Chroma422DCScan =
    [0, 32, 16, 64, 96, 48, 80, 112]"

definition transposeScan4 :: "u8 list \<Rightarrow> u8 list" where
  "transposeScan4 = map (\<lambda>v. drop_bit 2 v OR (push_bit 2 v AND 0x0f))"

definition transposeScan8 :: "u8 list \<Rightarrow> u8 list" where
  "transposeScan8 = map (\<lambda>v. drop_bit 3 v OR push_bit 3 (v AND 7))"

definition h264ZigzagScanCAVLC :: "u8 list" where "h264ZigzagScanCAVLC = transposeScan4 h264ZigzagScan"
definition h264FieldScanCAVLC :: "u8 list" where "h264FieldScanCAVLC = transposeScan4 h264FieldScan"
definition h264ZigzagScan8x8CAVLC :: "u8 list" where
  "h264ZigzagScan8x8CAVLC = transposeScan8 h264ZigzagScan8x8CAVLCRaw"
definition h264FieldScan8x8CAVLC :: "u8 list" where
  "h264FieldScan8x8CAVLC = transposeScan8 h264FieldScan8x8CAVLCRaw"
definition h264ZigzagScan8x8CABAC :: "u8 list" where
  "h264ZigzagScan8x8CABAC = transposeScan8 h264ZigzagDirect"
definition h264FieldScan8x8CABAC :: "u8 list" where
  "h264FieldScan8x8CABAC = transposeScan8 h264FieldScan8x8Raw"

text \<open>
  The scans of a macroblock; the SPS enters only through \<open>TransformBypass\<close> (\<open>None\<close>: no SPS).
\<close>

definition h264CAVLCScansForQScale :: "int option \<Rightarrow> int \<Rightarrow> bool \<Rightarrow> u8 list \<times> u8 list" where
  "h264CAVLCScansForQScale transformBypass qscale mbField =
     (if (case transformBypass of Some b \<Rightarrow> b \<noteq> 0 | None \<Rightarrow> False) \<and> qscale = 0
      then if mbField then (h264FieldScan, h264FieldScan8x8CAVLCRaw)
           else (h264ZigzagScan, h264ZigzagScan8x8CAVLCRaw)
      else if mbField then (h264FieldScanCAVLC, h264FieldScan8x8CAVLC)
      else (h264ZigzagScanCAVLC, h264ZigzagScan8x8CAVLC))"

definition h264CABACScansForQScale :: "int option \<Rightarrow> int \<Rightarrow> bool \<Rightarrow> u8 list \<times> u8 list" where
  "h264CABACScansForQScale transformBypass qscale mbField =
     (if (case transformBypass of Some b \<Rightarrow> b \<noteq> 0 | None \<Rightarrow> False) \<and> qscale = 0
      then if mbField then (h264FieldScan, h264FieldScan8x8Raw)
           else (h264ZigzagScan, h264ZigzagDirect)
      else if mbField then (h264FieldScanCAVLC, h264FieldScan8x8CABAC)
      else (h264ZigzagScanCAVLC, h264ZigzagScan8x8CABAC))"

section \<open>Scaling lists and the chroma QP\<close>

definition h264DefaultScaling4 :: "u8 list list" where
  "h264DefaultScaling4 =
    [[6, 13, 20, 28, 13, 20, 28, 32, 20, 28, 32, 37, 28, 32, 37, 42],
     [10, 14, 20, 24, 14, 20, 24, 27, 20, 24, 27, 30, 24, 27, 30, 34]]"

definition h264DefaultScaling8 :: "u8 list list" where
  "h264DefaultScaling8 =
    [[6, 10, 13, 16, 18, 23, 25, 27, 10, 11, 16, 18, 23, 25, 27, 29, 13, 16, 18, 23, 25,
      27, 29, 31, 16, 18, 23, 25, 27, 29, 31, 33, 18, 23, 25, 27, 29, 31, 33, 36, 23, 25,
      27, 29, 31, 33, 36, 38, 25, 27, 29, 31, 33, 36, 38, 40, 27, 29, 31, 33, 36, 38, 40,
      42],
     [9, 13, 15, 17, 19, 21, 22, 24, 13, 13, 17, 19, 21, 22, 24, 25, 15, 17, 19, 21, 22,
      24, 25, 27, 17, 19, 21, 22, 24, 25, 27, 28, 19, 21, 22, 24, 25, 27, 28, 30, 21, 22,
      24, 25, 27, 28, 30, 32, 22, 24, 25, 27, 28, 30, 32, 33, 24, 25, 27, 28, 30, 32, 33,
      35]]"

definition chroma_qp_base :: "u8 list" where
  "chroma_qp_base =
    [0, 1, 2, 3, 4, 5, 6, 7, 8, 9, 10, 11, 12, 13, 14, 15, 16, 17, 18, 19, 20, 21, 22, 23,
     24, 25, 26, 27, 28, 29, 29, 30, 31, 32, 32, 33, 34, 34, 35, 35, 36, 36, 37, 37, 37,
     38, 38, 38, 39, 39, 39, 39]"

definition h264ChromaQP :: "int \<Rightarrow> u32 \<Rightarrow> u8 result" where
  "h264ChromaQP depth qp =
     (if depth < 8 \<or> depth > 14 then Inr 0
      else let pre = (depth - 8) * 6
        in if int (unat qp) < pre then Inr (ucast qp)
           else rbind (idx chroma_qp_base (nat (int (unat qp) - pre))) (\<lambda>b. Inr (b + word_of_int pre)))"

section \<open>What the tables satisfy\<close>

text \<open>A scan of \<open>n\<close> positions visits each of them, and hence each of them once.\<close>

definition is_scan :: "nat \<Rightarrow> u8 list \<Rightarrow> bool" where
  "is_scan n t \<longleftrightarrow> sort (map uint t) = [0..int n - 1]"

lemma scans_4x4:
  "is_scan 16 h264ZigzagScan \<and> is_scan 16 h264FieldScan
   \<and> is_scan 16 h264ZigzagScanCAVLC \<and> is_scan 16 h264FieldScanCAVLC"
  by code_simp

lemma scans_8x8:
  "is_scan 64 h264ZigzagDirect \<and> is_scan 64 h264FieldScan8x8Raw
   \<and> is_scan 64 h264ZigzagScan8x8CAVLCRaw \<and> is_scan 64 h264FieldScan8x8CAVLCRaw"
  "is_scan 64 h264ZigzagScan8x8CAVLC \<and> is_scan 64 h264FieldScan8x8CAVLC
   \<and> is_scan 64 h264ZigzagScan8x8CABAC \<and> is_scan 64 h264FieldScan8x8CABAC"
  by code_simp+

lemma quant_tables:
  "length h264QuantRem6 = 88 \<and> length h264QuantDiv6 = 88
   \<and> list_all (\<lambda>q. unat (h264QuantRem6 ! q) = q mod 6 \<and> unat (h264QuantDiv6 ! q) = q div 6) [0..<88]"
  by code_simp

lemma is_scan_permutation:
  assumes "is_scan n t"
  shows "distinct t \<and> set (map unat t) = {0..<n}"
proof -
  have s: "set (map uint t) = {0..int n - 1}" "distinct (map uint t)"
    using assms unfolding is_scan_def by (metis set_sort set_upto, metis distinct_sort distinct_upto)
  have "int ` set (map unat t) = set (map uint t)" by (simp add: image_image)
  also have "\<dots> = int ` {0..<n}"
    using s(1) by (simp add: image_int_atLeastLessThan atLeastLessThanPlusOne_atLeastAtMost_int [symmetric])
  finally have "set (map unat t) = {0..<n}" by (simp add: inj_image_eq_iff)
  then show ?thesis using s(2) by (simp add: distinct_map)
qed

text \<open>
  C19. Every scan that the residual decoders can be handed is a permutation of the block's
  positions: for any SPS, quantiser and field flag, the 4x4 scan visits each of 0..15 once and the
  8x8 scan each of 0..63 once. So no coefficient index is out of the block and none is lost.
\<close>

theorem scans_are_permutations:
  "distinct (fst (h264CAVLCScansForQScale b q f)) \<and> set (map unat (fst (h264CAVLCScansForQScale b q f))) = {0..<16}
   \<and> distinct (snd (h264CAVLCScansForQScale b q f)) \<and> set (map unat (snd (h264CAVLCScansForQScale b q f))) = {0..<64}
   \<and> distinct (fst (h264CABACScansForQScale b q f)) \<and> set (map unat (fst (h264CABACScansForQScale b q f))) = {0..<16}
   \<and> distinct (snd (h264CABACScansForQScale b q f)) \<and> set (map unat (snd (h264CABACScansForQScale b q f))) = {0..<64}"
proof -
  have "is_scan 16 (fst (h264CAVLCScansForQScale b q f)) \<and> is_scan 64 (snd (h264CAVLCScansForQScale b q f))"
    "is_scan 16 (fst (h264CABACScansForQScale b q f)) \<and> is_scan 64 (snd (h264CABACScansForQScale b q f))"
    using scans_4x4 scans_8x8 by (simp_all add: h264CAVLCScansForQScale_def h264CABACScansForQScale_def)
  then show ?thesis using is_scan_permutation [of 16] is_scan_permutation [of 64] by blast
qed

text \<open>
  The coded block pattern tables map the 48 code numbers onto the 48 patterns, one to one; the
  chroma quantiser stays within its table and never exceeds \<open>39 + 6 (depth - 8)\<close>.
\<close>

lemma cbp_tables: "is_scan 48 h264GolombToIntra4x4CBP \<and> is_scan 48 h264GolombToInterCBP"
  by code_simp

lemma chroma_qp_base_le:
  "length chroma_qp_base = 52
   \<and> list_all2 (\<lambda>b i. unat b \<le> 39 \<and> unat b \<le> i) chroma_qp_base [0..<52]"
  by code_simp

lemma h264ChromaQP_ok:
  assumes "8 \<le> d" "d \<le> 14" "0 \<le> q" "q \<le> 51 + 6 * (d - 8)"
  shows "\<exists>c. h264ChromaQP d (word_of_int q) = Inr c \<and> int (unat c) \<le> 39 + 6 * (d - 8) \<and> int (unat c) \<le> q"
proof -
  have q: "int (unat (word_of_int q :: u32)) = q" "q < 256"
    using assms by (simp_all add: unsigned_of_int take_bit_int_eq_self)
  show ?thesis
  proof (cases "q < (d - 8) * 6")
    case True
    have "unat (ucast (word_of_int q :: u32) :: u8) = nat q"
      using q by (simp add: unsigned_ucast_eq take_bit_nat_eq_self nat_less_iff)
    then show ?thesis using True q assms by (simp add: h264ChromaQP_def Let_def)
  next
    case False
    define i where "i = nat (q - (d - 8) * 6)"
    have i: "i < 52" "int i = q - (d - 8) * 6" using False assms by (auto simp: i_def)
    then have b: "unat (chroma_qp_base ! i) \<le> 39" "unat (chroma_qp_base ! i) \<le> i"
      using chroma_qp_base_le by (auto simp: list_all2_conv_all_nth)
    have p: "unat (word_of_int ((d - 8) * 6) :: u8) = nat ((d - 8) * 6)"
    proof -
      have "(d - 8) * 6 < 256" "0 \<le> (d - 8) * 6" using assms by auto
      then show ?thesis by (simp only: unsigned_of_int take_bit_int_eq_self) (simp add: take_bit_int_eq_self)
    qed
    have "unat (chroma_qp_base ! i + word_of_int ((d - 8) * 6)) = unat (chroma_qp_base ! i) + nat ((d - 8) * 6)"
      using b p assms by (subst unat_add_lem [THEN iffD1]) auto
    then have "int (unat (chroma_qp_base ! i + word_of_int ((d - 8) * 6))) \<le> 39 + 6 * (d - 8)
        \<and> int (unat (chroma_qp_base ! i + word_of_int ((d - 8) * 6))) \<le> q"
      using b i assms by auto
    moreover have "h264ChromaQP d (word_of_int q) = Inr (chroma_qp_base ! i + word_of_int ((d - 8) * 6))"
      using False q i chroma_qp_base_le assms(1,2) unfolding i_def by (simp add: h264ChromaQP_def Let_def)
    ultimately show ?thesis by blast
  qed
qed

end
