(* ===== verification/Sps.thy ===== *)
theory Sps
  imports Bit_Reader Tables Nal_Units
begin

text \<open>
  The sequence parameter set (\<open>internal/h264/sps.go\<close>): the record, the parser with its VUI and HRD
  parts, the scaling matrices, and the recovery of \<open>DecodeSPSFromNAL\<close>. The record fields are the
  struct's, arrays are lists of the array's length. The parser's state is the reader extended with
  the parameter set it fills in.
\<close>

section \<open>The parameter set\<close>

record H2645VUI =
  vui_SARNum :: int
  vui_SARDen :: int
  vui_AspectRatioIDC :: int
  vui_AspectRatioInfoPresentFlag :: int
  vui_OverscanInfoPresentFlag :: int
  vui_OverscanAppropriateFlag :: int
  vui_VideoSignalTypePresentFlag :: int
  vui_VideoFormat :: int
  vui_VideoFullRangeFlag :: int
  vui_ColourDescriptionPresentFlag :: int
  vui_ColourPrimaries :: int
  vui_TransferCharacteristics :: int
  vui_MatrixCoeffs :: int
  vui_ChromaLocInfoPresentFlag :: int
  vui_ChromaSampleLocTypeTopField :: int
  vui_ChromaSampleLocTypeBottomField :: int
  vui_ChromaLocation :: int

record SPS =
  sps_SPSID :: u32
  sps_ProfileIDC :: int
  sps_LevelIDC :: int
  sps_ChromaFormatIDC :: u32
  sps_TransformBypass :: int
  sps_Log2MaxFrameNum :: int
  sps_PocType :: u32
  sps_Log2MaxPocLSB :: int
  sps_DeltaPicOrderAlwaysZeroFlag :: int
  sps_OffsetForNonRefPic :: int
  sps_OffsetForTopToBottomField :: int
  sps_PocCycleLength :: u32
  sps_OffsetForRefFrame :: "int list"
  sps_RefFrameCount :: u32
  sps_GapsInFrameNumAllowedFlag :: int
  sps_MBWidth :: int
  sps_MBHeight :: int
  sps_FrameMBSOnlyFlag :: int
  sps_MBAFF :: int
  sps_Direct8x8InferenceFlag :: int
  sps_Crop :: int
  sps_CropLeft :: u32
  sps_CropRight :: u32
  sps_CropTop :: u32
  sps_CropBottom :: u32
  sps_VUIParametersPresentFlag :: int
  sps_BitDepthLuma :: int
  sps_BitDepthChroma :: int
  sps_ResidualColorTransformFlag :: int
  sps_ConstraintSetFlags :: int
  sps_ScalingMatrixPresent :: int
  sps_ScalingMatrixPresentMask :: u16
  sps_ScalingMatrix4 :: "u8 list list"
  sps_ScalingMatrix8 :: "u8 list list"
  sps_BitstreamRestrictionFlag :: int
  sps_NumReorderFrames :: int
  sps_MaxDecFrameBuffering :: int
  sps_NALHRDParametersPresentFlag :: int
  sps_VCLHRDParametersPresentFlag :: int
  sps_PicStructPresentFlag :: int
  sps_TimeOffsetLength :: int
  sps_TimingInfoPresentFlag :: int
  sps_NumUnitsInTick :: u32
  sps_TimeScale :: u32
  sps_FixedFrameRateFlag :: int
  sps_Width :: int
  sps_Height :: int
  sps_VUI :: H2645VUI
  sps_CPBCount :: int
  sps_BitRateScale :: int
  sps_BitRateValue :: "u32 list"
  sps_CPBSizeValue :: "u32 list"
  sps_CPRFlag :: u32
  sps_InitialCPBRemovalDelayLength :: int
  sps_CPBRemovalDelayLength :: int
  sps_DPBOutputDelayLength :: int

text \<open>The struct literals with which \<open>decodeSPS\<close> starts, \<open>initFlatScalingMatrices\<close> included.\<close>

definition vui_init :: H2645VUI where
  "vui_init = \<lparr>vui_SARNum = 0,
     vui_SARDen = 1,
     vui_AspectRatioIDC = 0,
     vui_AspectRatioInfoPresentFlag = 0,
     vui_OverscanInfoPresentFlag = 0,
     vui_OverscanAppropriateFlag = 0,
     vui_VideoSignalTypePresentFlag = 0,
     vui_VideoFormat = 0,
     vui_VideoFullRangeFlag = -1,
     vui_ColourDescriptionPresentFlag = 0,
     vui_ColourPrimaries = 0,
     vui_TransferCharacteristics = 0,
     vui_MatrixCoeffs = 2,
     vui_ChromaLocInfoPresentFlag = 0,
     vui_ChromaSampleLocTypeTopField = 0,
     vui_ChromaSampleLocTypeBottomField = 0,
     vui_ChromaLocation = 0\<rparr>"

definition sps_init :: SPS where
  "sps_init = \<lparr>sps_SPSID = 0,
     sps_ProfileIDC = 0,
     sps_LevelIDC = 0,
     sps_ChromaFormatIDC = 0,
     sps_TransformBypass = 0,
     sps_Log2MaxFrameNum = 0,
     sps_PocType = 0,
     sps_Log2MaxPocLSB = 0,
     sps_DeltaPicOrderAlwaysZeroFlag = 0,
     sps_OffsetForNonRefPic = 0,
     sps_OffsetForTopToBottomField = 0,
     sps_PocCycleLength = 0,
     sps_OffsetForRefFrame = replicate 256 0,
     sps_RefFrameCount = 0,
     sps_GapsInFrameNumAllowedFlag = 0,
     sps_MBWidth = 0,
     sps_MBHeight = 0,
     sps_FrameMBSOnlyFlag = 0,
     sps_MBAFF = 0,
     sps_Direct8x8InferenceFlag = 0,
     sps_Crop = 0,
     sps_CropLeft = 0,
     sps_CropRight = 0,
     sps_CropTop = 0,
     sps_CropBottom = 0,
     sps_VUIParametersPresentFlag = 0,
     sps_BitDepthLuma = 8,
     sps_BitDepthChroma = 8,
     sps_ResidualColorTransformFlag = 0,
     sps_ConstraintSetFlags = 0,
     sps_ScalingMatrixPresent = 0,
     sps_ScalingMatrixPresentMask = 0,
     sps_ScalingMatrix4 = replicate 6 (replicate 16 16),
     sps_ScalingMatrix8 = replicate 6 (replicate 64 16),
     sps_BitstreamRestrictionFlag = 0,
     sps_NumReorderFrames = 0,
     sps_MaxDecFrameBuffering = 0,
     sps_NALHRDParametersPresentFlag = 0,
     sps_VCLHRDParametersPresentFlag = 0,
     sps_PicStructPresentFlag = 0,
     sps_TimeOffsetLength = 24,
     sps_TimingInfoPresentFlag = 0,
     sps_NumUnitsInTick = 0,
     sps_TimeScale = 0,
     sps_FixedFrameRateFlag = 0,
     sps_Width = 0,
     sps_Height = 0,
     sps_VUI = vui_init,
     sps_CPBCount = 0,
     sps_BitRateScale = 0,
     sps_BitRateValue = replicate 32 0,
     sps_CPBSizeValue = replicate 32 0,
     sps_CPRFlag = 0,
     sps_InitialCPBRemovalDelayLength = 0,
     sps_CPBRemovalDelayLength = 0,
     sps_DPBOutputDelayLength = 0\<rparr>"

section \<open>Constants and small tables\<close>

abbreviation (input) maxSPSCount :: nat where "maxSPSCount \<equiv> 32"
abbreviation (input) h264MaxDPBFrames :: nat where "h264MaxDPBFrames \<equiv> 16"
abbreviation (input) h264MaxMBWidth :: nat where "h264MaxMBWidth \<equiv> 1055"
abbreviation (input) h264MaxMBHeight :: nat where "h264MaxMBHeight \<equiv> 1055"

definition h2645PixelAspect :: "(int \<times> int) list" where
  "h2645PixelAspect =
    [(0, 1), (1, 1), (12, 11), (10, 11), (16, 11), (40, 33), (24, 11), (20, 11), (32, 11),
     (80, 33), (18, 11), (15, 11), (64, 33), (160, 99), (4, 3), (3, 2), (2, 1)]"

definition levelMaxDPBMbs :: "(int \<times> int) list" where
  "levelMaxDPBMbs =
    [(10, 396), (11, 900), (12, 2376), (13, 2376), (20, 2376), (21, 4752), (22, 8100), (30,
     8100), (31, 18000), (32, 20480), (40, 32768), (41, 32768), (42, 34816), (50, 110400), (51,
     184320), (52, 184320)]"

definition isHighProfile :: "int \<Rightarrow> bool" where
  "isHighProfile p \<longleftrightarrow> p \<in> {100, 110, 122, 244, 44, 83, 86, 118, 128, 138, 144}"

definition validColorPrimaries :: "int \<Rightarrow> bool" where
  "validColorPrimaries v \<longleftrightarrow> v \<in> {1, 2, 4, 5, 6, 7, 8, 9, 10, 11, 12, 22}"

definition validColorTransfer :: "int \<Rightarrow> bool" where
  "validColorTransfer v \<longleftrightarrow> v \<in> {1, 2, 4, 5, 6, 7, 8, 9, 10, 11, 12, 13, 14, 15, 16, 17, 18}"

definition validColorSpace :: "int \<Rightarrow> bool" where
  "validColorSpace v \<longleftrightarrow> v \<in> {0, 1, 2, 4, 5, 6, 7, 8, 9, 10, 11, 12, 13, 14, 15, 16, 17}"

definition normalizeColorPrimaries :: "int \<Rightarrow> int" where
  "normalizeColorPrimaries v = (if v = 0 \<or> v = 3 \<or> \<not> validColorPrimaries v then 2 else v)"

definition normalizeColorTransfer :: "int \<Rightarrow> int" where
  "normalizeColorTransfer v = (if v = 0 \<or> v = 3 \<or> \<not> validColorTransfer v then 2 else v)"

definition normalizeColorSpace :: "int \<Rightarrow> int" where
  "normalizeColorSpace v = (if v = 3 \<or> \<not> validColorSpace v then 2 else v)"

section \<open>The parser's state\<close>

record sps_parse = bitReader +
  pr_sps :: SPS

type_synonym 'a sp = "(sps_parse, 'a) go"

definition setS :: "(SPS \<Rightarrow> SPS) \<Rightarrow> unit sp" where
  "setS f = upd (\<lambda>s. s\<lparr>pr_sps := f (pr_sps s)\<rparr>)"

definition getS :: "(SPS \<Rightarrow> 'a) \<Rightarrow> 'a sp" where
  "getS f = gets (\<lambda>s. f (pr_sps s))"

definition setV :: "(H2645VUI \<Rightarrow> H2645VUI) \<Rightarrow> unit sp" where
  "setV f = setS (\<lambda>p. p\<lparr>sps_VUI := f (sps_VUI p)\<rparr>)"

lemma wp_setS [wp_simps]: "wp (setS f) Q E s = Q () (s\<lparr>pr_sps := f (pr_sps s)\<rparr>)"
  by (simp add: setS_def wp_simps)

lemma wp_getS [wp_simps]: "wp (getS f) Q E s = Q (f (pr_sps s)) s"
  by (simp add: getS_def wp_simps)

lemma wp_setV [wp_simps]:
  "wp (setV f) Q E s = Q () (s\<lparr>pr_sps := (pr_sps s)\<lparr>sps_VUI := f (sps_VUI (pr_sps s))\<rparr>\<rparr>)"
  by (simp add: setV_def wp_simps)

section \<open>Scaling matrices\<close>

text \<open>Go's \<open>copy\<close>.\<close>

definition copy :: "'a list \<Rightarrow> 'a list \<Rightarrow> 'a list" where
  "copy dst src = take (length dst) src @ drop (length src) dst"

text \<open>
  The loop of \<open>decodeScalingList\<close> over the indices still to come; \<open>break\<close> at the first index with
  \<open>next = 0\<close> leaves the default list.
\<close>

fun scaling_loop :: "u8 list \<Rightarrow> u8 list \<Rightarrow> nat list \<Rightarrow> int \<Rightarrow> int \<Rightarrow> u8 list \<Rightarrow> ('z bitReader_scheme, u8 list) go" where
  "scaling_loop scan jvtList [] lst nxt factors = ret factors"
| "scaling_loop scan jvtList (i # is) lst nxt factors =
     bnd (if nxt \<noteq> 0
          then bnd readSEGolombLong (\<lambda>delta.
            if delta < -128 \<or> delta > 127 then fail ErrInvalidData else ret ((lst + delta) AND 0xff))
          else ret nxt) (\<lambda>nxt.
     if i = 0 \<and> nxt = 0 then ret (copy factors jvtList)
     else let lst = (if nxt \<noteq> 0 then nxt else lst) in
       bnd (lift (idx scan i)) (\<lambda>pos.
       bnd (lift (set_idx factors (unat pos) (word_of_int lst))) (\<lambda>factors.
         scaling_loop scan jvtList is lst nxt factors)))"

definition decodeScalingList ::
    "u8 list \<Rightarrow> u8 list \<Rightarrow> u8 list \<Rightarrow> u16 \<Rightarrow> nat \<Rightarrow> ('z bitReader_scheme, u8 list \<times> u16) go" where
  "decodeScalingList factors jvtList fallbackList msk pos =
     bnd readBit (\<lambda>present.
       let msk = msk OR push_bit pos (ucast present) in
       if present = 0 then ret (copy factors fallbackList, msk)
       else let scan = (if length factors = 16 then h264ZigzagScan else h264ZigzagDirect) in
         bnd (scaling_loop scan jvtList [0..<length factors] 8 8 factors) (\<lambda>f. ret (f, msk)))"

text \<open>
  The six 4x4 and the up to six 8x8 lists. The result is the presence mask and the two matrices,
  which the caller stores (an error discards the parameter set, so partial updates are not seen).
\<close>

definition decodeScalingMatrices ::
    "SPS option \<Rightarrow> u32 \<Rightarrow> bool \<Rightarrow> bool \<Rightarrow> bool \<Rightarrow> u8 list list \<Rightarrow> u8 list list
     \<Rightarrow> ('z bitReader_scheme, u16 \<times> u8 list list \<times> u8 list list) go" where
  "decodeScalingMatrices sps chromaFormatIDC isSPS include8x8 presentFlag sm4 sm8 =
     (if \<not> presentFlag then ret (0, sm4, sm8)
      else let
        D4 = h264DefaultScaling4; D8 = h264DefaultScaling8;
        (f4a, f4b, f8a, f8b) =
          (case (if isSPS then None else sps) of
             Some p \<Rightarrow> if sps_ScalingMatrixPresent p \<noteq> 0
                       then (sps_ScalingMatrix4 p ! 0, sps_ScalingMatrix4 p ! 3,
                             sps_ScalingMatrix8 p ! 0, sps_ScalingMatrix8 p ! 3)
                       else (D4 ! 0, D4 ! 1, D8 ! 0, D8 ! 1)
           | None \<Rightarrow> (D4 ! 0, D4 ! 1, D8 ! 0, D8 ! 1))
      in
        bnd (decodeScalingList (sm4 ! 0) (D4 ! 0) f4a 0 0) (\<lambda>(a0, msk).
        bnd (decodeScalingList (sm4 ! 1) (D4 ! 0) a0 msk 1) (\<lambda>(a1, msk).
        bnd (decodeScalingList (sm4 ! 2) (D4 ! 0) a1 msk 2) (\<lambda>(a2, msk).
        bnd (decodeScalingList (sm4 ! 3) (D4 ! 1) f4b msk 3) (\<lambda>(a3, msk).
        bnd (decodeScalingList (sm4 ! 4) (D4 ! 1) a3 msk 4) (\<lambda>(a4, msk).
        bnd (decodeScalingList (sm4 ! 5) (D4 ! 1) a4 msk 5) (\<lambda>(a5, msk).
        let sm4 = [a0, a1, a2, a3, a4, a5] in
        if isSPS \<or> include8x8 then
          bnd (decodeScalingList (sm8 ! 0) (D8 ! 0) f8a msk 6) (\<lambda>(b0, msk).
          bnd (decodeScalingList (sm8 ! 3) (D8 ! 1) f8b msk 7) (\<lambda>(b3, msk).
          if chromaFormatIDC = 3 then
            bnd (decodeScalingList (sm8 ! 1) (D8 ! 0) b0 msk 8) (\<lambda>(b1, msk).
            bnd (decodeScalingList (sm8 ! 4) (D8 ! 1) b3 msk 9) (\<lambda>(b4, msk).
            bnd (decodeScalingList (sm8 ! 2) (D8 ! 0) b1 msk 10) (\<lambda>(b2, msk).
            bnd (decodeScalingList (sm8 ! 5) (D8 ! 1) b4 msk 11) (\<lambda>(b5, msk).
              ret (msk, sm4, [b0, b1, b2, b3, b4, b5])))))
          else ret (msk, sm4, [b0, sm8 ! 1, sm8 ! 2, b3, sm8 ! 4, sm8 ! 5])))
        else ret (msk, sm4, sm8))))))))"

section \<open>Video usability information\<close>

definition vui_aspect_ratio :: "unit sp" where
  "vui_aspect_ratio =
     bnd readBit (\<lambda>present.
     thn (setV (\<lambda>v. v\<lparr>vui_AspectRatioInfoPresentFlag := i32_of present\<rparr>))
     (if present \<noteq> 0 then
        bnd (readBits 8) (\<lambda>idc.
        thn (setV (\<lambda>v. v\<lparr>vui_AspectRatioIDC := i32_of idc\<rparr>))
        (if unat idc < length h2645PixelAspect then
           setV (\<lambda>v. v\<lparr>vui_SARNum := fst (h2645PixelAspect ! unat idc),
                      vui_SARDen := snd (h2645PixelAspect ! unat idc)\<rparr>)
         else if idc = 255 then
           bnd (readBits 16) (\<lambda>sarNum.
           bnd (readBits 16) (\<lambda>sarDen.
             setV (\<lambda>v. v\<lparr>vui_SARNum := i32_of sarNum, vui_SARDen := i32_of sarDen\<rparr>)))
         else ret ()))
      else setV (\<lambda>v. v\<lparr>vui_SARNum := 0, vui_SARDen := 1\<rparr>)))"

definition vui_video_signal :: "unit sp" where
  "vui_video_signal =
     bnd readBit (\<lambda>overscanPresent.
     thn (setV (\<lambda>v. v\<lparr>vui_OverscanInfoPresentFlag := i32_of overscanPresent\<rparr>))
     (thn (whenM (overscanPresent \<noteq> 0)
            (bnd readBit (\<lambda>a. setV (\<lambda>v. v\<lparr>vui_OverscanAppropriateFlag := i32_of a\<rparr>))))
     (bnd readBit (\<lambda>videoSignalPresent.
      thn (setV (\<lambda>v. v\<lparr>vui_VideoSignalTypePresentFlag := i32_of videoSignalPresent\<rparr>))
      (whenM (videoSignalPresent \<noteq> 0)
        (bnd (readBits 3) (\<lambda>videoFormat.
         bnd readBit (\<lambda>fullRange.
         bnd readBit (\<lambda>colourDescriptionPresent.
         thn (setV (\<lambda>v. v\<lparr>vui_VideoFormat := i32_of videoFormat,
                         vui_VideoFullRangeFlag := i32_of fullRange,
                         vui_ColourDescriptionPresentFlag := i32_of colourDescriptionPresent\<rparr>))
         (whenM (colourDescriptionPresent \<noteq> 0)
           (bnd (readBits 8) (\<lambda>primaries.
            bnd (readBits 8) (\<lambda>transfer.
            bnd (readBits 8) (\<lambda>matrix.
              setV (\<lambda>v. v\<lparr>vui_ColourPrimaries := normalizeColorPrimaries (i32_of primaries),
                         vui_TransferCharacteristics := normalizeColorTransfer (i32_of transfer),
                         vui_MatrixCoeffs := normalizeColorSpace (i32_of matrix)\<rparr>)))))))))))))))"

definition vui_chroma_loc :: "unit sp" where
  "vui_chroma_loc =
     bnd readBit (\<lambda>present.
     thn (setV (\<lambda>v. v\<lparr>vui_ChromaLocInfoPresentFlag := i32_of present\<rparr>))
     (if present \<noteq> 0 then
        bnd readUEGolomb31 (\<lambda>top.
        bnd readUEGolomb31 (\<lambda>bottom.
          setV (\<lambda>v. v\<lparr>vui_ChromaSampleLocTypeTopField := i32_of top,
                     vui_ChromaSampleLocTypeBottomField := i32_of bottom,
                     vui_ChromaLocation := (if top \<le> 5 then i32_of top + 1 else 0)\<rparr>)))
      else setV (\<lambda>v. v\<lparr>vui_ChromaLocation := 1\<rparr>)))"

definition decodeCommonVUIParameters :: "unit sp" where
  "decodeCommonVUIParameters = thn vui_aspect_ratio (thn vui_video_signal vui_chroma_loc)"

text \<open>
  A read inside \<open>decodeVUIParameters\<close>: on an error, \<open>ignoreTruncation\<close> and no bits left make the
  function return normally (after an adjustment of the parameter set); otherwise the error goes up.
\<close>

definition tryT :: "bool \<Rightarrow> 'a sp \<Rightarrow> (SPS \<Rightarrow> SPS) \<Rightarrow> ('a \<Rightarrow> unit sp) \<Rightarrow> unit sp" where
  "tryT ignoreTruncation m onTrunc k s =
     (case m s of
        (Inr a, s') \<Rightarrow> k a s'
      | (Inl e, s') \<Rightarrow> if ignoreTruncation \<and> bitsLeft s' \<le> 0 then setS onTrunc s' else (Inl e, s'))"

lemma wp_tryT:
  "wp (tryT ign m f k) Q E s = wp m (\<lambda>a. wp (k a) Q E)
     (\<lambda>e s'. if ign \<and> bitsLeft s' \<le> 0 then Q () (s'\<lparr>pr_sps := f (pr_sps s')\<rparr>) else E e s') s"
  by (auto simp: wp_def tryT_def setS_def upd_def split: prod.splits sum.splits)

definition clear_restriction :: "SPS \<Rightarrow> SPS" where
  "clear_restriction p = p\<lparr>sps_NumReorderFrames := 0, sps_BitstreamRestrictionFlag := 0\<rparr>"

definition clear_timing :: "SPS \<Rightarrow> SPS" where
  "clear_timing p = p\<lparr>sps_TimingInfoPresentFlag := 0\<rparr>"

definition hrd_entry :: "nat \<Rightarrow> unit sp" where
  "hrd_entry i =
     bnd readUEGolombLong (\<lambda>bitRateValueMinus1.
     bnd readUEGolombLong (\<lambda>cpbSizeValueMinus1.
     bnd readBit (\<lambda>cbrFlag.
     bnd (getS sps_BitRateValue) (\<lambda>br.
     bnd (lift (set_idx br i (bitRateValueMinus1 + 1))) (\<lambda>br.
     bnd (getS sps_CPBSizeValue) (\<lambda>cs.
     bnd (lift (set_idx cs i (cpbSizeValueMinus1 + 1))) (\<lambda>cs.
       setS (\<lambda>p. p\<lparr>sps_BitRateValue := br, sps_CPBSizeValue := cs,
                  sps_CPRFlag := sps_CPRFlag p OR push_bit i cbrFlag\<rparr>))))))))"

definition decodeHRDParameters :: "unit sp" where
  "decodeHRDParameters =
     bnd readUEGolomb31 (\<lambda>cpbCountMinus1.
     let cpbCount = cpbCountMinus1 + 1 in
     if cpbCount > 32 then fail ErrInvalidData
     else
       thn (setS (\<lambda>p. p\<lparr>sps_CPRFlag := 0\<rparr>))
       (bnd (readBits 4) (\<lambda>bitRateScale.
        thn (setS (\<lambda>p. p\<lparr>sps_BitRateScale := i32_of bitRateScale\<rparr>))
        (thn (skipBits 4)
        (thn (forM [0..<unat cpbCount] hrd_entry)
        (bnd (readBits 5) (\<lambda>initialDelayLen.
         bnd (readBits 5) (\<lambda>cpbRemovalLen.
         bnd (readBits 5) (\<lambda>dpbOutputLen.
         bnd (readBits 5) (\<lambda>timeOffsetLen.
           setS (\<lambda>p. p\<lparr>sps_InitialCPBRemovalDelayLength := i32_of initialDelayLen + 1,
                      sps_CPBRemovalDelayLength := i32_of cpbRemovalLen + 1,
                      sps_DPBOutputDelayLength := i32_of dpbOutputLen + 1,
                      sps_TimeOffsetLength := i32_of timeOffsetLen,
                      sps_CPBCount := i32_of cpbCount\<rparr>)))))))))))"

definition vui_restriction :: "bool \<Rightarrow> unit sp" where
  "vui_restriction ign =
     tryT ign readBit (\<lambda>p. p) (\<lambda>bitstreamRestriction.
     thn (setS (\<lambda>p. p\<lparr>sps_BitstreamRestrictionFlag := i32_of bitstreamRestriction\<rparr>))
     (if bitstreamRestriction = 0 then ret ()
      else
        tryT ign (skipBits 1) clear_restriction (\<lambda>_.
        tryT ign readUEGolomb31 clear_restriction (\<lambda>_.
        tryT ign readUEGolomb31 clear_restriction (\<lambda>_.
        tryT ign readUEGolomb31 clear_restriction (\<lambda>_.
        tryT ign readUEGolomb31 clear_restriction (\<lambda>_.
        tryT ign readUEGolomb31 clear_restriction (\<lambda>numReorderFrames.
        tryT ign readUEGolomb31 clear_restriction (\<lambda>maxDecFrameBuffering.
        thn (setS (\<lambda>p. p\<lparr>sps_NumReorderFrames := i32_of numReorderFrames,
                       sps_MaxDecFrameBuffering := i32_of maxDecFrameBuffering\<rparr>))
        (if numReorderFrames > 16
         then thn (setS (\<lambda>p. p\<lparr>sps_NumReorderFrames := 16\<rparr>)) (fail ErrInvalidData)
         else ret ()))))))))))"

definition vui_pic_struct :: "bool \<Rightarrow> unit sp" where
  "vui_pic_struct ign =
     tryT ign readBit (\<lambda>p. p) (\<lambda>picStructPresent.
     thn (setS (\<lambda>p. p\<lparr>sps_PicStructPresentFlag := i32_of picStructPresent\<rparr>))
     (bnd (gets bitsLeft) (\<lambda>left. if left \<le> 0 then ret () else vui_restriction ign)))"

definition vui_hrd :: "bool \<Rightarrow> unit sp" where
  "vui_hrd ign =
     tryT ign readBit (\<lambda>p. p) (\<lambda>nalHRDPresent.
     thn (setS (\<lambda>p. p\<lparr>sps_NALHRDParametersPresentFlag := i32_of nalHRDPresent\<rparr>))
     (thn (whenM (nalHRDPresent \<noteq> 0) decodeHRDParameters)
     (tryT ign readBit (\<lambda>p. p) (\<lambda>vclHRDPresent.
      thn (setS (\<lambda>p. p\<lparr>sps_VCLHRDParametersPresentFlag := i32_of vclHRDPresent\<rparr>))
      (thn (whenM (vclHRDPresent \<noteq> 0) decodeHRDParameters)
      (if nalHRDPresent \<noteq> 0 \<or> vclHRDPresent \<noteq> 0
       then tryT ign (skipBits 1) (\<lambda>p. p) (\<lambda>_. vui_pic_struct ign)
       else vui_pic_struct ign))))))"

definition vui_timing :: "bool \<Rightarrow> unit sp" where
  "vui_timing ign =
     tryT ign readBit (\<lambda>p. p) (\<lambda>timingInfoPresent.
     thn (setS (\<lambda>p. p\<lparr>sps_TimingInfoPresentFlag := i32_of timingInfoPresent\<rparr>))
     (if timingInfoPresent \<noteq> 0 then
        tryT ign (readBits 32) clear_timing (\<lambda>numUnitsInTick.
        tryT ign (readBits 32) clear_timing (\<lambda>timeScale.
        thn (if numUnitsInTick = 0 \<or> timeScale = 0 then setS clear_timing
             else setS (\<lambda>p. p\<lparr>sps_NumUnitsInTick := numUnitsInTick, sps_TimeScale := timeScale\<rparr>))
        (tryT ign readBit (\<lambda>p. p) (\<lambda>fixedFrameRateFlag.
         thn (setS (\<lambda>p. p\<lparr>sps_FixedFrameRateFlag := i32_of fixedFrameRateFlag\<rparr>))
         (vui_hrd ign)))))
      else vui_hrd ign))"

text \<open>The look-ahead after the common part: an error or too few bits after a one bit end the VUI.\<close>

definition decodeVUIParameters :: "bool \<Rightarrow> unit sp" where
  "decodeVUIParameters ign =
     tryT ign decodeCommonVUIParameters (\<lambda>p. p) (\<lambda>_.
     bnd (gets bitsLeft) (\<lambda>left.
     if left \<le> 0 then ret ()
     else bnd (catch (bnd (showBits 1) (\<lambda>v. ret (Some v))) (\<lambda>_. ret None)) (\<lambda>look.
       case look of
         None \<Rightarrow> ret ()
       | Some v \<Rightarrow> bnd (gets bitsLeft) (\<lambda>left.
           if v \<noteq> 0 \<and> left < 10 then ret () else vui_timing ign))))"

section \<open>Cropping and derived values\<close>

text \<open>
  The products are \<open>uint64\<close>; with 32-bit factors and steps of at most 4 they are exact.
\<close>

definition decodeCrop :: "unit sp" where
  "decodeCrop =
     bnd readUEGolombLong (\<lambda>cropLeft.
     bnd readUEGolombLong (\<lambda>cropRight.
     bnd readUEGolombLong (\<lambda>cropTop.
     bnd readUEGolombLong (\<lambda>cropBottom.
     bnd (getS (\<lambda>p. p)) (\<lambda>p.
     let width = 16 * sps_MBWidth p; height = 16 * sps_MBHeight p;
         vsub = (if sps_ChromaFormatIDC p = 1 then 1 else 0);
         hsub = (if sps_ChromaFormatIDC p = 1 \<or> sps_ChromaFormatIDC p = 2 then 1 else 0);
         stepX = push_bit hsub (1 :: int);
         frameMBSFactor = (if sps_FrameMBSOnlyFlag p \<noteq> 0 then 1 else 2 :: int);
         stepY = push_bit vsub frameMBSFactor;
         cropLeftScaled = int (unat cropLeft) * stepX;
         cropRightScaled = int (unat cropRight) * stepX;
         cropTopScaled = int (unat cropTop) * stepY;
         cropBottomScaled = int (unat cropBottom) * stepY
     in if cropLeftScaled + cropRightScaled \<ge> width \<or> cropTopScaled + cropBottomScaled \<ge> height
        then fail ErrInvalidData
        else setS (\<lambda>p. p\<lparr>sps_CropLeft := word_of_int cropLeftScaled,
                       sps_CropRight := word_of_int cropRightScaled,
                       sps_CropTop := word_of_int cropTopScaled,
                       sps_CropBottom := word_of_int cropBottomScaled\<rparr>))))))"

text \<open>
  \<open>deriveNumReorderFrames\<close>: the first table entry with the stream's level decides; a zero divisor
  would be a panic. \<open>MBWidth * MBHeight\<close> is an \<open>int32\<close> product.
\<close>

definition deriveNumReorderFrames :: "SPS \<Rightarrow> SPS result" where
  "deriveNumReorderFrames sps =
     (if sps_BitstreamRestrictionFlag sps \<noteq> 0 \<or> sps_RefFrameCount sps = 0 then Inr sps
      else (case find (\<lambda>entry. fst entry = sps_LevelIDC sps) levelMaxDPBMbs of
              None \<Rightarrow> Inr (sps\<lparr>sps_NumReorderFrames := 15\<rparr>)
            | Some entry \<Rightarrow>
                let d = i32 (sps_MBWidth sps * sps_MBHeight sps)
                in if d = 0 then Inl Panic
                   else let maxByLevel = snd entry div d
                     in Inr (sps\<lparr>sps_NumReorderFrames := (if maxByLevel < 15 then maxByLevel else 15)\<rparr>)))"

section \<open>The parser\<close>

text \<open>\<open>decodeSPS\<close>, one definition per block of the function, in its order.\<close>

definition sps_constraint_flag :: "nat \<Rightarrow> unit sp" where
  "sps_constraint_flag i = bnd readBit (\<lambda>flag.
     setS (\<lambda>p. p\<lparr>sps_ConstraintSetFlags := sps_ConstraintSetFlags p OR i32_of (push_bit i flag)\<rparr>))"

definition sps_header :: "unit sp" where
  "sps_header =
     bnd (readBits 8) (\<lambda>profileIDC.
     thn (setS (\<lambda>p. p\<lparr>sps_ProfileIDC := i32_of profileIDC\<rparr>))
     (thn (forM [0..<6] sps_constraint_flag)
     (thn (skipBits 2)
     (bnd (readBits 8) (\<lambda>levelIDC.
      thn (setS (\<lambda>p. p\<lparr>sps_LevelIDC := i32_of levelIDC\<rparr>))
      (bnd readUEGolomb31 (\<lambda>spsID.
       if unat spsID \<ge> maxSPSCount then fail ErrInvalidData
       else setS (\<lambda>p. p\<lparr>sps_SPSID := spsID\<rparr>))))))))"

definition sps_bit_depth :: "unit sp" where
  "sps_bit_depth =
     bnd readUEGolomb31 (\<lambda>bitDepthLuma.
     bnd readUEGolomb31 (\<lambda>bitDepthChroma.
     thn (setS (\<lambda>p. p\<lparr>sps_BitDepthLuma := i32 (i32_of bitDepthLuma + 8),
                     sps_BitDepthChroma := i32 (i32_of bitDepthChroma + 8)\<rparr>))
     (bnd (getS (\<lambda>p. p)) (\<lambda>p.
       if sps_BitDepthChroma p \<noteq> sps_BitDepthLuma p then fail ErrUnsupported
       else if sps_BitDepthLuma p < 8 \<or> sps_BitDepthLuma p > 14 then fail ErrInvalidData
       else ret ()))))"

definition sps_scaling :: "unit sp" where
  "sps_scaling =
     bnd readBit (\<lambda>flag.
     thn (setS (\<lambda>p. p\<lparr>sps_TransformBypass := i32_of flag\<rparr>))
     (bnd readBit (\<lambda>present.
      whenM (present \<noteq> 0)
        (bnd (getS (\<lambda>p. p)) (\<lambda>p.
         bnd (decodeScalingMatrices None (sps_ChromaFormatIDC p) True True True
                (sps_ScalingMatrix4 p) (sps_ScalingMatrix8 p)) (\<lambda>(msk, sm4, sm8).
           setS (\<lambda>p. p\<lparr>sps_ScalingMatrixPresentMask := msk, sps_ScalingMatrix4 := sm4,
                      sps_ScalingMatrix8 := sm8, sps_ScalingMatrixPresent := 1\<rparr>)))))))"

definition sps_high_profile :: "unit sp" where
  "sps_high_profile =
     bnd (getS sps_ProfileIDC) (\<lambda>profileIDC.
     if isHighProfile profileIDC then
       bnd readUEGolomb31 (\<lambda>chromaFormatIDC.
       if chromaFormatIDC > 3 then fail ErrUnsupported
       else
         thn (setS (\<lambda>p. p\<lparr>sps_ChromaFormatIDC := chromaFormatIDC\<rparr>))
         (thn (whenM (chromaFormatIDC = 3)
                (bnd readBit (\<lambda>flag.
                 thn (setS (\<lambda>p. p\<lparr>sps_ResidualColorTransformFlag := i32_of flag\<rparr>))
                 (whenM (flag \<noteq> 0) (fail ErrUnsupported)))))
         (thn sps_bit_depth sps_scaling)))
     else setS (\<lambda>p. p\<lparr>sps_ChromaFormatIDC := 1\<rparr>))"

definition sps_poc_offset :: "nat \<Rightarrow> unit sp" where
  "sps_poc_offset i =
     bnd readSEGolombLong (\<lambda>v.
     bnd (getS sps_OffsetForRefFrame) (\<lambda>a.
     bnd (lift (set_idx a i v)) (\<lambda>a. setS (\<lambda>p. p\<lparr>sps_OffsetForRefFrame := a\<rparr>))))"

definition sps_poc_cycle :: "unit sp" where
  "sps_poc_cycle =
     bnd readBit (\<lambda>flag.
     thn (setS (\<lambda>p. p\<lparr>sps_DeltaPicOrderAlwaysZeroFlag := i32_of flag\<rparr>))
     (bnd readSEGolombLong (\<lambda>v.
      thn (setS (\<lambda>p. p\<lparr>sps_OffsetForNonRefPic := v\<rparr>))
      (bnd readSEGolombLong (\<lambda>v.
       thn (setS (\<lambda>p. p\<lparr>sps_OffsetForTopToBottomField := v\<rparr>))
       (bnd readUEGolombLong (\<lambda>n.
        thn (setS (\<lambda>p. p\<lparr>sps_PocCycleLength := n\<rparr>))
        (bnd (getS sps_OffsetForRefFrame) (\<lambda>a.
          if unat n \<ge> length a then fail ErrInvalidData
          else forM [0..<unat n] sps_poc_offset)))))))))"

definition sps_frame_num_poc :: "unit sp" where
  "sps_frame_num_poc =
     bnd readUEGolomb31 (\<lambda>log2MaxFrameNumMinus4.
     if unat log2MaxFrameNumMinus4 > 12 then fail ErrInvalidData
     else
       thn (setS (\<lambda>p. p\<lparr>sps_Log2MaxFrameNum := i32_of log2MaxFrameNumMinus4 + 4\<rparr>))
       (bnd readUEGolomb31 (\<lambda>pocType.
        thn (setS (\<lambda>p. p\<lparr>sps_PocType := pocType\<rparr>))
        (if pocType = 0 then
           bnd readUEGolomb31 (\<lambda>t.
           if unat t > 12 then fail ErrInvalidData
           else setS (\<lambda>p. p\<lparr>sps_Log2MaxPocLSB := i32_of t + 4\<rparr>))
         else if pocType = 1 then sps_poc_cycle
         else if pocType = 2 then ret ()
         else fail ErrInvalidData))))"

definition sps_frame_size :: "unit sp" where
  "sps_frame_size =
     bnd readUEGolomb31 (\<lambda>refFrameCount.
     thn (setS (\<lambda>p. p\<lparr>sps_RefFrameCount := refFrameCount\<rparr>))
     (if unat refFrameCount > h264MaxDPBFrames then fail ErrInvalidData
      else
        bnd readBit (\<lambda>flag.
        thn (setS (\<lambda>p. p\<lparr>sps_GapsInFrameNumAllowedFlag := i32_of flag\<rparr>))
        (bnd readUEGolombLong (\<lambda>mbWidthMinus1.
         bnd readUEGolombLong (\<lambda>mbHeightMinus1.
         if unat mbWidthMinus1 \<ge> h264MaxMBWidth \<or> unat mbHeightMinus1 \<ge> h264MaxMBHeight
         then fail ErrInvalidData
         else
           thn (setS (\<lambda>p. p\<lparr>sps_MBWidth := i32_of (mbWidthMinus1 + 1),
                          sps_MBHeight := i32_of (mbHeightMinus1 + 1)\<rparr>))
           (bnd readBit (\<lambda>frameMBSOnlyFlag.
            thn (setS (\<lambda>p. p\<lparr>sps_FrameMBSOnlyFlag := i32_of frameMBSOnlyFlag,
                           sps_MBHeight := sps_MBHeight p * (2 - i32_of frameMBSOnlyFlag)\<rparr>))
            (thn (whenM (frameMBSOnlyFlag = 0)
                   (bnd readBit (\<lambda>mbAFF. setS (\<lambda>p. p\<lparr>sps_MBAFF := i32_of mbAFF\<rparr>))))
            (bnd readBit (\<lambda>direct8x8.
              setS (\<lambda>p. p\<lparr>sps_Direct8x8InferenceFlag := i32_of direct8x8\<rparr>))))))))))))"

definition sps_derive :: "unit sp" where
  "sps_derive = bnd (getS deriveNumReorderFrames) (\<lambda>r. bnd (lift r) (\<lambda>p. setS (\<lambda>_. p)))"

definition sps_crop_vui :: "bool \<Rightarrow> unit sp" where
  "sps_crop_vui ign =
     bnd readBit (\<lambda>crop.
     thn (setS (\<lambda>p. p\<lparr>sps_Crop := i32_of crop\<rparr>))
     (thn (whenM (crop \<noteq> 0) decodeCrop)
     (bnd readBit (\<lambda>vuiPresent.
      thn (setS (\<lambda>p. p\<lparr>sps_VUIParametersPresentFlag := i32_of vuiPresent\<rparr>))
      (thn (whenM (vuiPresent \<noteq> 0) (decodeVUIParameters ign)) sps_derive)))))"

definition sps_dimensions :: "unit sp" where
  "sps_dimensions =
     bnd (getS (\<lambda>p. p)) (\<lambda>p.
     let codedWidth = 16 * sps_MBWidth p; codedHeight = 16 * sps_MBHeight p;
         cropWidth = int (unat (sps_CropLeft p)) + int (unat (sps_CropRight p));
         cropHeight = int (unat (sps_CropTop p)) + int (unat (sps_CropBottom p))
     in if cropWidth \<ge> codedWidth \<or> cropHeight \<ge> codedHeight then fail ErrInvalidData
        else setS (\<lambda>p. p\<lparr>sps_Width := i32 (codedWidth - cropWidth),
                       sps_Height := i32 (codedHeight - cropHeight)\<rparr>))"

definition sps_parser :: "bool \<Rightarrow> unit sp" where
  "sps_parser ign =
     thn sps_header (thn sps_high_profile (thn sps_frame_num_poc (thn sps_frame_size
       (thn (sps_crop_vui ign) sps_dimensions))))"

definition sps_start :: "bitReader \<Rightarrow> sps_parse" where
  "sps_start gb = \<lparr>gb_buf = gb_buf gb, gb_bitPos = gb_bitPos gb, gb_numBits = gb_numBits gb,
                   gb_invalid = gb_invalid gb, pr_sps = sps_init\<rparr>"

definition decodeSPS :: "bytes \<Rightarrow> bool \<Rightarrow> SPS result" where
  "decodeSPS rbsp ignoreTruncation =
     rbind (newRBSPBitReader rbsp) (\<lambda>gb.
       case sps_parser ignoreTruncation (sps_start gb) of (r, s) \<Rightarrow> rbind r (\<lambda>_. Inr (pr_sps s)))"

definition DecodeSPS :: "bytes \<Rightarrow> SPS result" where
  "DecodeSPS rbsp = decodeSPS rbsp False"

text \<open>
  The recovery of \<open>DecodeSPSFromNAL\<close>: the RBSP, then the raw payload, then the RBSP with truncation
  ignored; the first error is the one returned.
\<close>

definition DecodeSPSFromNAL :: "NALUnit \<Rightarrow> SPS result" where
  "DecodeSPSFromNAL nal =
     (if nal_Type nal \<noteq> NALSPS then Inl ErrInvalidData
      else (case DecodeSPS (nal_RBSP nal) of
              Inr sps \<Rightarrow> Inr sps
            | Inl err \<Rightarrow>
                if length (nal_Raw nal) \<le> 1 then Inl err
                else (case DecodeSPS (drop 1 (nal_Raw nal)) of
                        Inr rawSPS \<Rightarrow> Inr rawSPS
                      | Inl _ \<Rightarrow>
                          (case decodeSPS (nal_RBSP nal) True of
                             Inr truncatedSPS \<Rightarrow> Inr truncatedSPS
                           | Inl _ \<Rightarrow> Inl err))))"

section \<open>What an admitted parameter set satisfies\<close>

definition nonzero_matrix :: "nat \<Rightarrow> u8 list list \<Rightarrow> bool" where
  "nonzero_matrix n m \<longleftrightarrow> length m = 6 \<and> (\<forall>l \<in> set m. length l = n \<and> 0 \<notin> set l)"

text \<open>Array lengths, no zero scaling factor, and the bounds that hold from the start.\<close>

definition sps_shape :: "SPS \<Rightarrow> bool" where
  "sps_shape p \<longleftrightarrow> length (sps_OffsetForRefFrame p) = 256 \<and> length (sps_BitRateValue p) = 32
     \<and> length (sps_CPBSizeValue p) = 32
     \<and> nonzero_matrix 16 (sps_ScalingMatrix4 p) \<and> nonzero_matrix 64 (sps_ScalingMatrix8 p)
     \<and> 0 \<le> sps_NumReorderFrames p \<and> sps_NumReorderFrames p \<le> 16
     \<and> 0 \<le> sps_CPBCount p \<and> sps_CPBCount p \<le> 32
     \<and> 0 \<le> sps_TimeOffsetLength p \<and> sps_TimeOffsetLength p \<le> 31"

definition sps_format_ok :: "SPS \<Rightarrow> bool" where
  "sps_format_ok p \<longleftrightarrow> unat (sps_SPSID p) < 32 \<and> unat (sps_ChromaFormatIDC p) \<le> 3
     \<and> 8 \<le> sps_BitDepthLuma p \<and> sps_BitDepthLuma p \<le> 14 \<and> sps_BitDepthChroma p = sps_BitDepthLuma p"

definition sps_poc_ok :: "SPS \<Rightarrow> bool" where
  "sps_poc_ok p \<longleftrightarrow> 4 \<le> sps_Log2MaxFrameNum p \<and> sps_Log2MaxFrameNum p \<le> 16
     \<and> unat (sps_PocType p) \<le> 2
     \<and> (sps_PocType p = 0 \<longrightarrow> 4 \<le> sps_Log2MaxPocLSB p \<and> sps_Log2MaxPocLSB p \<le> 16)
     \<and> (sps_PocType p = 1 \<longrightarrow> unat (sps_PocCycleLength p) < 256)"

definition sps_size_ok :: "SPS \<Rightarrow> bool" where
  "sps_size_ok p \<longleftrightarrow> unat (sps_RefFrameCount p) \<le> 16
     \<and> 1 \<le> sps_MBWidth p \<and> sps_MBWidth p \<le> 1055 \<and> 1 \<le> sps_MBHeight p \<and> sps_MBHeight p \<le> 2110
     \<and> (sps_FrameMBSOnlyFlag p = 1 \<or> sps_FrameMBSOnlyFlag p = 0 \<and> even (sps_MBHeight p))
     \<and> 0 \<le> sps_MBAFF p \<and> sps_MBAFF p \<le> 1 - sps_FrameMBSOnlyFlag p"

definition sps_dim_ok :: "SPS \<Rightarrow> bool" where
  "sps_dim_ok p \<longleftrightarrow>
     sps_Width p = 16 * sps_MBWidth p - int (unat (sps_CropLeft p)) - int (unat (sps_CropRight p))
     \<and> sps_Height p = 16 * sps_MBHeight p - int (unat (sps_CropTop p)) - int (unat (sps_CropBottom p))
     \<and> 0 < sps_Width p \<and> 0 < sps_Height p"

definition sps_ok :: "SPS \<Rightarrow> bool" where
  "sps_ok p \<longleftrightarrow> sps_shape p \<and> sps_format_ok p \<and> sps_poc_ok p \<and> sps_size_ok p \<and> sps_dim_ok p"

section \<open>The parser keeps to them\<close>

lemma wf_reader_sps [simp]: "wf_reader (s\<lparr>pr_sps := x\<rparr>) = wf_reader s"
  by (simp add: wf_reader_def)

lemma bitsLeft_sps [simp]: "bitsLeft (s\<lparr>pr_sps := x\<rparr>) = bitsLeft s"
  by (simp add: bitsLeft_def)

text \<open>The contract of a reading operation, as the parser sees it: the parameter set is untouched.\<close>

lemma sp_op:
  fixes m :: "'a sp"
  assumes "reader_op m R" "wf_reader s"
    and "\<And>v s'. R v \<Longrightarrow> wf_reader s' \<Longrightarrow> pr_sps s' = pr_sps s \<Longrightarrow> Q v s'"
    and "\<And>s'. wf_reader s' \<Longrightarrow> pr_sps s' = pr_sps s \<Longrightarrow> E ErrInvalidData s'"
  shows "wp m Q E s"
  using assms(2) by (rule reader_op.wp_op [OF assms(1)]) (auto intro: assms(3,4))

lemma i32_of_bit [simp]: "i32_of 0 = 0" "i32_of 1 = 1"
  by (simp_all add: i32_of_def)

lemma copy_same_length: "length src = length dst \<Longrightarrow> copy dst src = src"
  by (simp add: copy_def)

lemma last_nonzero: "0 < l \<Longrightarrow> l < 256 \<Longrightarrow> (word_of_int l :: u8) \<noteq> 0"
  by (simp add: word_of_int_eq_0_iff zdvd_not_zless)

definition good_list :: "nat \<Rightarrow> u8 list \<Rightarrow> bool" where
  "good_list n l \<longleftrightarrow> length l = n \<and> 0 \<notin> set l"

lemma good_list_update:
  "good_list n l \<Longrightarrow> v \<noteq> 0 \<Longrightarrow> good_list n (l[i := v])"
  using set_update_subset_insert [of l i v] by (auto simp: good_list_def)

lemma and_255: "0 \<le> x AND (255 :: int)" "x AND (255 :: int) < 256"
proof -
  have "x AND (255 :: int) = take_bit 8 x" by (simp add: take_bit_eq_mask mask_eq_exp_minus_1)
  then show "0 \<le> x AND (255 :: int)" "x AND (255 :: int) < 256"
    using take_bit_int_less_exp [of 8 x] by simp_all
qed

lemma scaling_loop_op:
  assumes "good_list n factors" "good_list n jvt" "\<forall>i \<in> set is. i < length scan"
    "\<forall>p \<in> set scan. unat p < n" "0 < l" "l < 256" "0 \<le> nxt" "nxt < 256"
  shows "reader_op (scaling_loop scan jvt is l nxt factors :: ('z bitReader_scheme, u8 list) go) (good_list n)"
  using assms
proof (induction scan jvt "is" l nxt factors rule: scaling_loop.induct)
  case (1 scan jvt l nxt factors)
  then show ?case by (auto intro: reader_op_ret)
next
  case (2 scan jvt i "is" l nxt factors)
  have len: "length factors = n" using 2(2) by (simp add: good_list_def)
  have p: "unat (scan ! i) < n" using 2(4,5) by simp
  let ?m = "(if nxt \<noteq> 0 then bnd readSEGolombLong (\<lambda>delta.
      if delta < -128 \<or> delta > 127 then fail ErrInvalidData else ret ((l + delta) AND 0xff)) else ret nxt)
      :: ('z bitReader_scheme, int) go"
  have m: "reader_op ?m (\<lambda>x. 0 \<le> x \<and> x < 256)"
    using 2(8,9) and_255
    by (intro reader_op_if reader_op_ret reader_op_bnd [OF readSEGolombLong.reader_op_axioms] reader_op_fail) auto
  show ?case
    unfolding scaling_loop.simps Let_def
  proof (rule reader_op_bnd [OF m], intro reader_op_intros)
    fix x :: int assume x: "0 \<le> x \<and> x < 256"
    show "good_list n (copy factors jvt)"
      using 2(2,3) by (simp add: copy_same_length good_list_def)
    let ?l = "if x \<noteq> 0 then x else l"
    have l: "0 < ?l" "?l < 256" using x 2(6,7) by auto
    show "idx scan i = Inr (scan ! i)" using 2(4) by simp
    assume c: "\<not> (i = 0 \<and> x = 0)"
    fix pos assume pos: "pos = scan ! i"
    show "set_idx factors (unat pos) (word_of_int ?l) = Inr (factors[unat pos := word_of_int ?l])"
      using p len pos by simp
    fix f assume f: "f = factors[unat pos := word_of_int ?l]"
    have g: "good_list n f"
      unfolding f by (rule good_list_update [OF 2(2) last_nonzero [OF l]])
    show "reader_op (scaling_loop scan jvt is ?l x f :: ('z bitReader_scheme, u8 list) go) (good_list n)"
      by (rule "2.IH" [OF c refl g]) (use 2 l x in auto)
  qed (rule refl)+
qed

lemma scan_bounds:
  "length h264ZigzagScan = 16 \<and> (\<forall>p \<in> set h264ZigzagScan. unat p < 16)"
  "length h264ZigzagDirect = 64 \<and> (\<forall>p \<in> set h264ZigzagDirect. unat p < 64)"
proof -
  have *: "length t = n \<and> (\<forall>p \<in> set t. unat p < n)" if "is_scan n t" for n t
  proof -
    have "length (sort (map uint t)) = length [0..int n - 1]"
      using that unfolding is_scan_def by (rule arg_cong)
    then have "length t = n" by simp
    moreover have "unat ` set t = {0..<n}" using is_scan_permutation [OF that] by simp
    ultimately show ?thesis by auto
  qed
  show "length h264ZigzagScan = 16 \<and> (\<forall>p \<in> set h264ZigzagScan. unat p < 16)"
    using * scans_4x4 by blast
  show "length h264ZigzagDirect = 64 \<and> (\<forall>p \<in> set h264ZigzagDirect. unat p < 64)"
    using * scans_8x8(1) by blast
qed

lemma decodeScalingList_op:
  assumes "good_list n factors" "good_list n jvt" "good_list n fb" "n = 16 \<or> n = 64"
  shows "reader_op (decodeScalingList factors jvt fb msk pos) (\<lambda>(f, _). good_list n f)"
proof -
  have len: "length factors = n" using assms(1) by (simp add: good_list_def)
  define scan where "scan = (if length factors = 16 then h264ZigzagScan else h264ZigzagDirect)"
  have sc: "length scan = n" "\<forall>p \<in> set scan. unat p < n"
    using assms(4) scan_bounds len by (auto simp: scan_def)
  have "reader_op (scaling_loop scan jvt [0..<n] 8 8 factors) (good_list n)"
    using assms sc by (intro scaling_loop_op) auto
  moreover have "good_list n (copy factors fb)"
    using assms(1,3) by (simp add: copy_same_length good_list_def)
  ultimately have "reader_op (bnd (scaling_loop scan jvt [0..<n] 8 8 factors) (\<lambda>f. ret (f, m))) (\<lambda>(f, _). good_list n f)"
    and "reader_op (ret (copy factors fb, m)) (\<lambda>(f, _). good_list n f)" for m :: u16
    by (auto intro: reader_op_bnd reader_op_ret)
  then show ?thesis
    unfolding decodeScalingList_def Let_def scan_def [symmetric]
    unfolding len by (intro reader_op_bnd [OF readBit.reader_op_axioms] reader_op_if)
qed

lemma reader_op_bnd_pair:
  "reader_op m (\<lambda>(a, _). P a) \<Longrightarrow> (\<And>a b. P a \<Longrightarrow> reader_op (f a b) R) \<Longrightarrow> reader_op (bnd m (\<lambda>(a, b). f a b)) R"
  by (rule reader_op_bnd [where R = "\<lambda>(a, _). P a"]) auto

lemma default_scaling_good:
  "good_list 16 (h264DefaultScaling4 ! 0)" "good_list 16 (h264DefaultScaling4 ! 1)"
  "good_list 64 (h264DefaultScaling8 ! 0)" "good_list 64 (h264DefaultScaling8 ! 1)"
  by (simp_all add: good_list_def h264DefaultScaling4_def h264DefaultScaling8_def)

lemma nonzero_matrix_good:
  "nonzero_matrix n m \<longleftrightarrow> length m = 6 \<and> (\<forall>i < 6. good_list n (m ! i))"
proof -
  have "nonzero_matrix n m \<longleftrightarrow> length m = 6 \<and> (\<forall>l \<in> set m. good_list n l)"
    by (simp add: nonzero_matrix_def good_list_def)
  then show ?thesis by (metis all_set_conv_all_nth)
qed

lemma decodeScalingMatrices_op:
  assumes "nonzero_matrix 16 sm4" "nonzero_matrix 64 sm8"
    "case sps of Some p \<Rightarrow> sps_shape p | None \<Rightarrow> True"
  shows "reader_op (decodeScalingMatrices sps cf isSPS inc present sm4 sm8)
    (\<lambda>(_, m4, m8). nonzero_matrix 16 m4 \<and> nonzero_matrix 64 m8)"
proof -
  have m4: "good_list 16 (sm4 ! i)" and m8: "good_list 64 (sm8 ! i)" if "i < 6" for i
    using assms(1,2) that by (auto simp: nonzero_matrix_good)
  have out: "nonzero_matrix n [a, b, c, d, e, f]"
    if "good_list n a" "good_list n b" "good_list n c" "good_list n d" "good_list n e" "good_list n f" for n a b c d e f
    using that by (auto simp: nonzero_matrix_def good_list_def)
  define fb where "fb = (case (if isSPS then None else sps) of
       Some p \<Rightarrow> if sps_ScalingMatrixPresent p \<noteq> 0
                 then (sps_ScalingMatrix4 p ! 0, sps_ScalingMatrix4 p ! 3,
                       sps_ScalingMatrix8 p ! 0, sps_ScalingMatrix8 p ! 3)
                 else (h264DefaultScaling4 ! 0, h264DefaultScaling4 ! 1, h264DefaultScaling8 ! 0, h264DefaultScaling8 ! 1)
     | None \<Rightarrow> (h264DefaultScaling4 ! 0, h264DefaultScaling4 ! 1, h264DefaultScaling8 ! 0, h264DefaultScaling8 ! 1))"
  obtain f4a f4b f8a f8b where fb: "fb = (f4a, f4b, f8a, f8b)" by (metis prod_cases4)
  have "good_list 16 f4a" "good_list 16 f4b" "good_list 64 f8a" "good_list 64 f8b"
    using fb assms(3) default_scaling_good
    by (auto simp: fb_def sps_shape_def nonzero_matrix_good split: if_splits option.splits)
  note good = this default_scaling_good m4 m8
  have l4: "reader_op (decodeScalingList f j b k n) (\<lambda>(l, _). good_list 16 l)"
    if "good_list 16 f" "good_list 16 j" "good_list 16 b" for f j b k n
    using decodeScalingList_op [OF that] by simp
  have l8: "reader_op (decodeScalingList f j b k n) (\<lambda>(l, _). good_list 64 l)"
    if "good_list 64 f" "good_list 64 j" "good_list 64 b" for f j b k n
    using decodeScalingList_op [OF that] by simp
  show ?thesis
    unfolding decodeScalingMatrices_def Let_def fb_def [symmetric] fb prod.case
    by (intro reader_op_if reader_op_ret reader_op_bnd_pair [OF l4] reader_op_bnd_pair [OF l8])
       (use good assms(1,2) out in auto)
qed

text \<open>Each part of the invariant is untouched by the updates of the fields it does not read.\<close>

lemma sps_shape_frame [simp]:
  "sps_shape (sps_SPSID_update f0 p) = sps_shape p"
  "sps_shape (sps_ProfileIDC_update f1 p) = sps_shape p"
  "sps_shape (sps_LevelIDC_update f2 p) = sps_shape p"
  "sps_shape (sps_ChromaFormatIDC_update f3 p) = sps_shape p"
  "sps_shape (sps_TransformBypass_update f4 p) = sps_shape p"
  "sps_shape (sps_Log2MaxFrameNum_update f5 p) = sps_shape p"
  "sps_shape (sps_PocType_update f6 p) = sps_shape p"
  "sps_shape (sps_Log2MaxPocLSB_update f7 p) = sps_shape p"
  "sps_shape (sps_DeltaPicOrderAlwaysZeroFlag_update f8 p) = sps_shape p"
  "sps_shape (sps_OffsetForNonRefPic_update f9 p) = sps_shape p"
  "sps_shape (sps_OffsetForTopToBottomField_update f10 p) = sps_shape p"
  "sps_shape (sps_PocCycleLength_update f11 p) = sps_shape p"
  "sps_shape (sps_RefFrameCount_update f13 p) = sps_shape p"
  "sps_shape (sps_GapsInFrameNumAllowedFlag_update f14 p) = sps_shape p"
  "sps_shape (sps_MBWidth_update f15 p) = sps_shape p"
  "sps_shape (sps_MBHeight_update f16 p) = sps_shape p"
  "sps_shape (sps_FrameMBSOnlyFlag_update f17 p) = sps_shape p"
  "sps_shape (sps_MBAFF_update f18 p) = sps_shape p"
  "sps_shape (sps_Direct8x8InferenceFlag_update f19 p) = sps_shape p"
  "sps_shape (sps_Crop_update f20 p) = sps_shape p"
  "sps_shape (sps_CropLeft_update f21 p) = sps_shape p"
  "sps_shape (sps_CropRight_update f22 p) = sps_shape p"
  "sps_shape (sps_CropTop_update f23 p) = sps_shape p"
  "sps_shape (sps_CropBottom_update f24 p) = sps_shape p"
  "sps_shape (sps_VUIParametersPresentFlag_update f25 p) = sps_shape p"
  "sps_shape (sps_BitDepthLuma_update f26 p) = sps_shape p"
  "sps_shape (sps_BitDepthChroma_update f27 p) = sps_shape p"
  "sps_shape (sps_ResidualColorTransformFlag_update f28 p) = sps_shape p"
  "sps_shape (sps_ConstraintSetFlags_update f29 p) = sps_shape p"
  "sps_shape (sps_ScalingMatrixPresent_update f30 p) = sps_shape p"
  "sps_shape (sps_ScalingMatrixPresentMask_update f31 p) = sps_shape p"
  "sps_shape (sps_BitstreamRestrictionFlag_update f34 p) = sps_shape p"
  "sps_shape (sps_MaxDecFrameBuffering_update f36 p) = sps_shape p"
  "sps_shape (sps_NALHRDParametersPresentFlag_update f37 p) = sps_shape p"
  "sps_shape (sps_VCLHRDParametersPresentFlag_update f38 p) = sps_shape p"
  "sps_shape (sps_PicStructPresentFlag_update f39 p) = sps_shape p"
  "sps_shape (sps_TimingInfoPresentFlag_update f41 p) = sps_shape p"
  "sps_shape (sps_NumUnitsInTick_update f42 p) = sps_shape p"
  "sps_shape (sps_TimeScale_update f43 p) = sps_shape p"
  "sps_shape (sps_FixedFrameRateFlag_update f44 p) = sps_shape p"
  "sps_shape (sps_Width_update f45 p) = sps_shape p"
  "sps_shape (sps_Height_update f46 p) = sps_shape p"
  "sps_shape (sps_VUI_update f47 p) = sps_shape p"
  "sps_shape (sps_BitRateScale_update f49 p) = sps_shape p"
  "sps_shape (sps_CPRFlag_update f52 p) = sps_shape p"
  "sps_shape (sps_InitialCPBRemovalDelayLength_update f53 p) = sps_shape p"
  "sps_shape (sps_CPBRemovalDelayLength_update f54 p) = sps_shape p"
  "sps_shape (sps_DPBOutputDelayLength_update f55 p) = sps_shape p"
  by (simp_all add: sps_shape_def)

lemma sps_format_ok_frame [simp]:
  "sps_format_ok (sps_ProfileIDC_update f1 p) = sps_format_ok p"
  "sps_format_ok (sps_LevelIDC_update f2 p) = sps_format_ok p"
  "sps_format_ok (sps_TransformBypass_update f4 p) = sps_format_ok p"
  "sps_format_ok (sps_Log2MaxFrameNum_update f5 p) = sps_format_ok p"
  "sps_format_ok (sps_PocType_update f6 p) = sps_format_ok p"
  "sps_format_ok (sps_Log2MaxPocLSB_update f7 p) = sps_format_ok p"
  "sps_format_ok (sps_DeltaPicOrderAlwaysZeroFlag_update f8 p) = sps_format_ok p"
  "sps_format_ok (sps_OffsetForNonRefPic_update f9 p) = sps_format_ok p"
  "sps_format_ok (sps_OffsetForTopToBottomField_update f10 p) = sps_format_ok p"
  "sps_format_ok (sps_PocCycleLength_update f11 p) = sps_format_ok p"
  "sps_format_ok (sps_OffsetForRefFrame_update f12 p) = sps_format_ok p"
  "sps_format_ok (sps_RefFrameCount_update f13 p) = sps_format_ok p"
  "sps_format_ok (sps_GapsInFrameNumAllowedFlag_update f14 p) = sps_format_ok p"
  "sps_format_ok (sps_MBWidth_update f15 p) = sps_format_ok p"
  "sps_format_ok (sps_MBHeight_update f16 p) = sps_format_ok p"
  "sps_format_ok (sps_FrameMBSOnlyFlag_update f17 p) = sps_format_ok p"
  "sps_format_ok (sps_MBAFF_update f18 p) = sps_format_ok p"
  "sps_format_ok (sps_Direct8x8InferenceFlag_update f19 p) = sps_format_ok p"
  "sps_format_ok (sps_Crop_update f20 p) = sps_format_ok p"
  "sps_format_ok (sps_CropLeft_update f21 p) = sps_format_ok p"
  "sps_format_ok (sps_CropRight_update f22 p) = sps_format_ok p"
  "sps_format_ok (sps_CropTop_update f23 p) = sps_format_ok p"
  "sps_format_ok (sps_CropBottom_update f24 p) = sps_format_ok p"
  "sps_format_ok (sps_VUIParametersPresentFlag_update f25 p) = sps_format_ok p"
  "sps_format_ok (sps_ResidualColorTransformFlag_update f28 p) = sps_format_ok p"
  "sps_format_ok (sps_ConstraintSetFlags_update f29 p) = sps_format_ok p"
  "sps_format_ok (sps_ScalingMatrixPresent_update f30 p) = sps_format_ok p"
  "sps_format_ok (sps_ScalingMatrixPresentMask_update f31 p) = sps_format_ok p"
  "sps_format_ok (sps_ScalingMatrix4_update f32 p) = sps_format_ok p"
  "sps_format_ok (sps_ScalingMatrix8_update f33 p) = sps_format_ok p"
  "sps_format_ok (sps_BitstreamRestrictionFlag_update f34 p) = sps_format_ok p"
  "sps_format_ok (sps_NumReorderFrames_update f35 p) = sps_format_ok p"
  "sps_format_ok (sps_MaxDecFrameBuffering_update f36 p) = sps_format_ok p"
  "sps_format_ok (sps_NALHRDParametersPresentFlag_update f37 p) = sps_format_ok p"
  "sps_format_ok (sps_VCLHRDParametersPresentFlag_update f38 p) = sps_format_ok p"
  "sps_format_ok (sps_PicStructPresentFlag_update f39 p) = sps_format_ok p"
  "sps_format_ok (sps_TimeOffsetLength_update f40 p) = sps_format_ok p"
  "sps_format_ok (sps_TimingInfoPresentFlag_update f41 p) = sps_format_ok p"
  "sps_format_ok (sps_NumUnitsInTick_update f42 p) = sps_format_ok p"
  "sps_format_ok (sps_TimeScale_update f43 p) = sps_format_ok p"
  "sps_format_ok (sps_FixedFrameRateFlag_update f44 p) = sps_format_ok p"
  "sps_format_ok (sps_Width_update f45 p) = sps_format_ok p"
  "sps_format_ok (sps_Height_update f46 p) = sps_format_ok p"
  "sps_format_ok (sps_VUI_update f47 p) = sps_format_ok p"
  "sps_format_ok (sps_CPBCount_update f48 p) = sps_format_ok p"
  "sps_format_ok (sps_BitRateScale_update f49 p) = sps_format_ok p"
  "sps_format_ok (sps_BitRateValue_update f50 p) = sps_format_ok p"
  "sps_format_ok (sps_CPBSizeValue_update f51 p) = sps_format_ok p"
  "sps_format_ok (sps_CPRFlag_update f52 p) = sps_format_ok p"
  "sps_format_ok (sps_InitialCPBRemovalDelayLength_update f53 p) = sps_format_ok p"
  "sps_format_ok (sps_CPBRemovalDelayLength_update f54 p) = sps_format_ok p"
  "sps_format_ok (sps_DPBOutputDelayLength_update f55 p) = sps_format_ok p"
  by (simp_all add: sps_format_ok_def)

lemma sps_poc_ok_frame [simp]:
  "sps_poc_ok (sps_SPSID_update f0 p) = sps_poc_ok p"
  "sps_poc_ok (sps_ProfileIDC_update f1 p) = sps_poc_ok p"
  "sps_poc_ok (sps_LevelIDC_update f2 p) = sps_poc_ok p"
  "sps_poc_ok (sps_ChromaFormatIDC_update f3 p) = sps_poc_ok p"
  "sps_poc_ok (sps_TransformBypass_update f4 p) = sps_poc_ok p"
  "sps_poc_ok (sps_DeltaPicOrderAlwaysZeroFlag_update f8 p) = sps_poc_ok p"
  "sps_poc_ok (sps_OffsetForNonRefPic_update f9 p) = sps_poc_ok p"
  "sps_poc_ok (sps_OffsetForTopToBottomField_update f10 p) = sps_poc_ok p"
  "sps_poc_ok (sps_OffsetForRefFrame_update f12 p) = sps_poc_ok p"
  "sps_poc_ok (sps_RefFrameCount_update f13 p) = sps_poc_ok p"
  "sps_poc_ok (sps_GapsInFrameNumAllowedFlag_update f14 p) = sps_poc_ok p"
  "sps_poc_ok (sps_MBWidth_update f15 p) = sps_poc_ok p"
  "sps_poc_ok (sps_MBHeight_update f16 p) = sps_poc_ok p"
  "sps_poc_ok (sps_FrameMBSOnlyFlag_update f17 p) = sps_poc_ok p"
  "sps_poc_ok (sps_MBAFF_update f18 p) = sps_poc_ok p"
  "sps_poc_ok (sps_Direct8x8InferenceFlag_update f19 p) = sps_poc_ok p"
  "sps_poc_ok (sps_Crop_update f20 p) = sps_poc_ok p"
  "sps_poc_ok (sps_CropLeft_update f21 p) = sps_poc_ok p"
  "sps_poc_ok (sps_CropRight_update f22 p) = sps_poc_ok p"
  "sps_poc_ok (sps_CropTop_update f23 p) = sps_poc_ok p"
  "sps_poc_ok (sps_CropBottom_update f24 p) = sps_poc_ok p"
  "sps_poc_ok (sps_VUIParametersPresentFlag_update f25 p) = sps_poc_ok p"
  "sps_poc_ok (sps_BitDepthLuma_update f26 p) = sps_poc_ok p"
  "sps_poc_ok (sps_BitDepthChroma_update f27 p) = sps_poc_ok p"
  "sps_poc_ok (sps_ResidualColorTransformFlag_update f28 p) = sps_poc_ok p"
  "sps_poc_ok (sps_ConstraintSetFlags_update f29 p) = sps_poc_ok p"
  "sps_poc_ok (sps_ScalingMatrixPresent_update f30 p) = sps_poc_ok p"
  "sps_poc_ok (sps_ScalingMatrixPresentMask_update f31 p) = sps_poc_ok p"
  "sps_poc_ok (sps_ScalingMatrix4_update f32 p) = sps_poc_ok p"
  "sps_poc_ok (sps_ScalingMatrix8_update f33 p) = sps_poc_ok p"
  "sps_poc_ok (sps_BitstreamRestrictionFlag_update f34 p) = sps_poc_ok p"
  "sps_poc_ok (sps_NumReorderFrames_update f35 p) = sps_poc_ok p"
  "sps_poc_ok (sps_MaxDecFrameBuffering_update f36 p) = sps_poc_ok p"
  "sps_poc_ok (sps_NALHRDParametersPresentFlag_update f37 p) = sps_poc_ok p"
  "sps_poc_ok (sps_VCLHRDParametersPresentFlag_update f38 p) = sps_poc_ok p"
  "sps_poc_ok (sps_PicStructPresentFlag_update f39 p) = sps_poc_ok p"
  "sps_poc_ok (sps_TimeOffsetLength_update f40 p) = sps_poc_ok p"
  "sps_poc_ok (sps_TimingInfoPresentFlag_update f41 p) = sps_poc_ok p"
  "sps_poc_ok (sps_NumUnitsInTick_update f42 p) = sps_poc_ok p"
  "sps_poc_ok (sps_TimeScale_update f43 p) = sps_poc_ok p"
  "sps_poc_ok (sps_FixedFrameRateFlag_update f44 p) = sps_poc_ok p"
  "sps_poc_ok (sps_Width_update f45 p) = sps_poc_ok p"
  "sps_poc_ok (sps_Height_update f46 p) = sps_poc_ok p"
  "sps_poc_ok (sps_VUI_update f47 p) = sps_poc_ok p"
  "sps_poc_ok (sps_CPBCount_update f48 p) = sps_poc_ok p"
  "sps_poc_ok (sps_BitRateScale_update f49 p) = sps_poc_ok p"
  "sps_poc_ok (sps_BitRateValue_update f50 p) = sps_poc_ok p"
  "sps_poc_ok (sps_CPBSizeValue_update f51 p) = sps_poc_ok p"
  "sps_poc_ok (sps_CPRFlag_update f52 p) = sps_poc_ok p"
  "sps_poc_ok (sps_InitialCPBRemovalDelayLength_update f53 p) = sps_poc_ok p"
  "sps_poc_ok (sps_CPBRemovalDelayLength_update f54 p) = sps_poc_ok p"
  "sps_poc_ok (sps_DPBOutputDelayLength_update f55 p) = sps_poc_ok p"
  by (simp_all add: sps_poc_ok_def)

lemma sps_size_ok_frame [simp]:
  "sps_size_ok (sps_SPSID_update f0 p) = sps_size_ok p"
  "sps_size_ok (sps_ProfileIDC_update f1 p) = sps_size_ok p"
  "sps_size_ok (sps_LevelIDC_update f2 p) = sps_size_ok p"
  "sps_size_ok (sps_ChromaFormatIDC_update f3 p) = sps_size_ok p"
  "sps_size_ok (sps_TransformBypass_update f4 p) = sps_size_ok p"
  "sps_size_ok (sps_Log2MaxFrameNum_update f5 p) = sps_size_ok p"
  "sps_size_ok (sps_PocType_update f6 p) = sps_size_ok p"
  "sps_size_ok (sps_Log2MaxPocLSB_update f7 p) = sps_size_ok p"
  "sps_size_ok (sps_DeltaPicOrderAlwaysZeroFlag_update f8 p) = sps_size_ok p"
  "sps_size_ok (sps_OffsetForNonRefPic_update f9 p) = sps_size_ok p"
  "sps_size_ok (sps_OffsetForTopToBottomField_update f10 p) = sps_size_ok p"
  "sps_size_ok (sps_PocCycleLength_update f11 p) = sps_size_ok p"
  "sps_size_ok (sps_OffsetForRefFrame_update f12 p) = sps_size_ok p"
  "sps_size_ok (sps_GapsInFrameNumAllowedFlag_update f14 p) = sps_size_ok p"
  "sps_size_ok (sps_Direct8x8InferenceFlag_update f19 p) = sps_size_ok p"
  "sps_size_ok (sps_Crop_update f20 p) = sps_size_ok p"
  "sps_size_ok (sps_CropLeft_update f21 p) = sps_size_ok p"
  "sps_size_ok (sps_CropRight_update f22 p) = sps_size_ok p"
  "sps_size_ok (sps_CropTop_update f23 p) = sps_size_ok p"
  "sps_size_ok (sps_CropBottom_update f24 p) = sps_size_ok p"
  "sps_size_ok (sps_VUIParametersPresentFlag_update f25 p) = sps_size_ok p"
  "sps_size_ok (sps_BitDepthLuma_update f26 p) = sps_size_ok p"
  "sps_size_ok (sps_BitDepthChroma_update f27 p) = sps_size_ok p"
  "sps_size_ok (sps_ResidualColorTransformFlag_update f28 p) = sps_size_ok p"
  "sps_size_ok (sps_ConstraintSetFlags_update f29 p) = sps_size_ok p"
  "sps_size_ok (sps_ScalingMatrixPresent_update f30 p) = sps_size_ok p"
  "sps_size_ok (sps_ScalingMatrixPresentMask_update f31 p) = sps_size_ok p"
  "sps_size_ok (sps_ScalingMatrix4_update f32 p) = sps_size_ok p"
  "sps_size_ok (sps_ScalingMatrix8_update f33 p) = sps_size_ok p"
  "sps_size_ok (sps_BitstreamRestrictionFlag_update f34 p) = sps_size_ok p"
  "sps_size_ok (sps_NumReorderFrames_update f35 p) = sps_size_ok p"
  "sps_size_ok (sps_MaxDecFrameBuffering_update f36 p) = sps_size_ok p"
  "sps_size_ok (sps_NALHRDParametersPresentFlag_update f37 p) = sps_size_ok p"
  "sps_size_ok (sps_VCLHRDParametersPresentFlag_update f38 p) = sps_size_ok p"
  "sps_size_ok (sps_PicStructPresentFlag_update f39 p) = sps_size_ok p"
  "sps_size_ok (sps_TimeOffsetLength_update f40 p) = sps_size_ok p"
  "sps_size_ok (sps_TimingInfoPresentFlag_update f41 p) = sps_size_ok p"
  "sps_size_ok (sps_NumUnitsInTick_update f42 p) = sps_size_ok p"
  "sps_size_ok (sps_TimeScale_update f43 p) = sps_size_ok p"
  "sps_size_ok (sps_FixedFrameRateFlag_update f44 p) = sps_size_ok p"
  "sps_size_ok (sps_Width_update f45 p) = sps_size_ok p"
  "sps_size_ok (sps_Height_update f46 p) = sps_size_ok p"
  "sps_size_ok (sps_VUI_update f47 p) = sps_size_ok p"
  "sps_size_ok (sps_CPBCount_update f48 p) = sps_size_ok p"
  "sps_size_ok (sps_BitRateScale_update f49 p) = sps_size_ok p"
  "sps_size_ok (sps_BitRateValue_update f50 p) = sps_size_ok p"
  "sps_size_ok (sps_CPBSizeValue_update f51 p) = sps_size_ok p"
  "sps_size_ok (sps_CPRFlag_update f52 p) = sps_size_ok p"
  "sps_size_ok (sps_InitialCPBRemovalDelayLength_update f53 p) = sps_size_ok p"
  "sps_size_ok (sps_CPBRemovalDelayLength_update f54 p) = sps_size_ok p"
  "sps_size_ok (sps_DPBOutputDelayLength_update f55 p) = sps_size_ok p"
  by (simp_all add: sps_size_ok_def)

lemma sps_shape_lengths [simp]:
  "sps_shape p \<Longrightarrow> length (sps_OffsetForRefFrame p) = 256"
  "sps_shape p \<Longrightarrow> length (sps_BitRateValue p) = 32"
  "sps_shape p \<Longrightarrow> length (sps_CPBSizeValue p) = 32"
  by (simp_all add: sps_shape_def)

text \<open>A flag that has been read; kept folded so that proofs do not split on every flag.\<close>

definition is_flag :: "u32 \<Rightarrow> bool" where
  "is_flag b \<longleftrightarrow> b = 0 \<or> b = 1"

lemma readBit_flag: "reader_op (readBit :: ('z bitReader_scheme, u32) go) is_flag"
  using readBit.reader_op_axioms by (simp add: is_flag_def [abs_def])

lemmas sp_ops =
  sp_op [OF readBit_flag] sp_op [OF readBits_contract] sp_op [OF skipBits_contract]
  sp_op [OF readUEGolombLong.reader_op_axioms] sp_op [OF readUEGolomb31.reader_op_axioms]
  sp_op [OF readSEGolombLong.reader_op_axioms]

abbreviation (input) np :: "goerror \<Rightarrow> 'a \<Rightarrow> bool" where "np \<equiv> \<lambda>e _. e \<noteq> Panic"

definition sps_inv1 :: "sps_parse \<Rightarrow> bool" where
  "sps_inv1 s \<longleftrightarrow> wf_reader s \<and> sps_shape (pr_sps s) \<and> sps_format_ok (pr_sps s) \<and> sps_MBAFF (pr_sps s) = 0"

definition sps_inv2 :: "sps_parse \<Rightarrow> bool" where
  "sps_inv2 s \<longleftrightarrow> sps_inv1 s \<and> sps_poc_ok (pr_sps s)"

definition sps_inv3 :: "sps_parse \<Rightarrow> bool" where
  "sps_inv3 s \<longleftrightarrow> wf_reader s \<and> sps_shape (pr_sps s) \<and> sps_format_ok (pr_sps s)
     \<and> sps_poc_ok (pr_sps s) \<and> sps_size_ok (pr_sps s)"

lemmas sps_inv_defs = sps_inv3_def sps_inv2_def sps_inv1_def

lemma wp_sps_header:
  assumes "sps_inv1 s"
  shows "wp sps_header (\<lambda>_. sps_inv1) np s"
proof -
  have "wp (forM [0..<6] sps_constraint_flag) (\<lambda>_. sps_inv1) np s" if "sps_inv1 s" for s
    by (rule wp_forM_inv [where I = sps_inv1])
       (use that in \<open>auto simp: wp_simps sps_constraint_flag_def sps_inv1_def intro!: sp_ops\<close>)
  note loop = wp_conj_mono [OF this]
  show ?thesis
    using assms
    by (auto simp: wp_simps sps_header_def sps_inv1_def sps_format_ok_def intro!: sp_ops loop)
qed

lemma wp_sps_scaling:
  assumes "sps_inv1 s"
  shows "wp sps_scaling (\<lambda>_. sps_inv1) np s"
  using assms
  by (auto simp: wp_simps sps_scaling_def sps_inv1_def sps_shape_def simp del: sps_shape_lengths
      intro!: sp_ops sp_op [OF decodeScalingMatrices_op])

lemma wp_sps_high_profile:
  assumes "sps_inv1 s"
  shows "wp sps_high_profile (\<lambda>_. sps_inv1) np s"
proof -
  have "wp sps_bit_depth (\<lambda>_. sps_inv1) np s" if "sps_inv1 s" for s
    using that
    by (auto simp: wp_simps sps_bit_depth_def sps_inv1_def sps_format_ok_def intro!: sp_ops)
  note d = wp_conj_mono [OF this] wp_conj_mono [OF wp_sps_scaling]
  have c: "unat c \<le> 3" if "\<not> 3 < c" for c :: u32 using that by (simp add: word_le_nat_alt not_less)
  show ?thesis
    using assms c
    by (auto simp: wp_simps sps_high_profile_def sps_inv1_def sps_format_ok_def intro!: sp_ops d)
qed

lemma wp_sps_frame_num_poc:
  assumes "sps_inv1 s"
  shows "wp sps_frame_num_poc (\<lambda>_. sps_inv2) np s"
proof -
  have "wp (forM [0..<n] sps_poc_offset) (\<lambda>_. sps_inv2) np s" if "sps_inv2 s" "n \<le> 256" for s n
    by (rule wp_forM_inv [where I = sps_inv2])
       (use that in \<open>auto simp: wp_simps sps_poc_offset_def sps_inv_defs sps_shape_def simp del: sps_shape_lengths intro!: sp_ops\<close>)
  note loop = wp_conj_mono [OF this]
  have "wp sps_poc_cycle (\<lambda>_. sps_inv2) np s"
    if "sps_inv1 s" "sps_PocType (pr_sps s) = 1"
      "4 \<le> sps_Log2MaxFrameNum (pr_sps s)" "sps_Log2MaxFrameNum (pr_sps s) \<le> 16" for s
    using that
    by (auto simp: wp_simps sps_poc_cycle_def sps_inv_defs sps_poc_ok_def intro!: sp_ops loop)
  note cyc = wp_conj_mono [OF this]
  show ?thesis
    using assms
    by (auto simp: wp_simps sps_frame_num_poc_def sps_inv_defs sps_poc_ok_def i32_of_small not_less
        intro!: sp_ops cyc)
qed

lemma mb_count:
  assumes "unat (w :: u32) < 1055"
  shows "i32_of (w + 1) = int (unat w) + 1"
proof -
  have "unat (w + 1) = unat w + 1" using assms by (simp add: unat_word_ariths)
  then show ?thesis using assms by (simp add: i32_of_small)
qed

lemma wp_sps_frame_size:
  assumes "sps_inv2 s"
  shows "wp sps_frame_size (\<lambda>_. sps_inv3) np s"
  using assms
  by (auto simp: wp_simps sps_frame_size_def sps_inv_defs sps_size_ok_def is_flag_def mb_count not_le not_less
      intro!: sp_ops)

lemma wp_decodeCrop:
  assumes "sps_inv3 s"
  shows "wp decodeCrop (\<lambda>_. sps_inv3) np s"
  using assms by (auto simp: wp_simps decodeCrop_def sps_inv3_def Let_def intro!: sp_ops)

lemma wp_common_vui:
  assumes "sps_inv3 s"
  shows "wp decodeCommonVUIParameters (\<lambda>_. sps_inv3) (\<lambda>e s'. e \<noteq> Panic \<and> sps_inv3 s') s"
proof -
  have 1: "wp vui_aspect_ratio (\<lambda>_. sps_inv3) (\<lambda>e s'. e \<noteq> Panic \<and> sps_inv3 s') s" if "sps_inv3 s" for s
    using that by (auto simp: wp_simps vui_aspect_ratio_def sps_inv3_def intro!: sp_ops)
  have 2: "wp vui_video_signal (\<lambda>_. sps_inv3) (\<lambda>e s'. e \<noteq> Panic \<and> sps_inv3 s') s" if "sps_inv3 s" for s
    using that by (auto simp: wp_simps vui_video_signal_def sps_inv3_def intro!: sp_ops)
  have 3: "wp vui_chroma_loc (\<lambda>_. sps_inv3) (\<lambda>e s'. e \<noteq> Panic \<and> sps_inv3 s') s" if "sps_inv3 s" for s
    using that by (auto simp: wp_simps vui_chroma_loc_def sps_inv3_def intro!: sp_ops)
  show ?thesis
    unfolding decodeCommonVUIParameters_def wp_thn
    by (rule wp_conj_mono [OF 1 [OF assms]], rule wp_conj_mono [OF 2], assumption, rule 3) auto
qed

lemma wp_decodeHRDParameters:
  assumes "sps_inv3 s"
  shows "wp decodeHRDParameters (\<lambda>_. sps_inv3) (\<lambda>e s'. e \<noteq> Panic \<and> sps_inv3 s') s"
proof -
  have "wp (forM [0..<n] hrd_entry) (\<lambda>_. sps_inv3) (\<lambda>e s'. e \<noteq> Panic \<and> sps_inv3 s') s"
    if "sps_inv3 s" "n \<le> 32" for s n
    by (rule wp_forM_inv [where I = sps_inv3])
       (use that in \<open>auto simp: wp_simps hrd_entry_def sps_inv3_def sps_shape_def simp del: sps_shape_lengths intro!: sp_ops\<close>)
  note loop = wp_conj_mono [OF this]
  have c: "unat c \<le> 32 \<and> 0 \<le> i32_of c \<and> i32_of c \<le> 32" if "\<not> 32 < c" for c :: u32
  proof -
    have "unat c \<le> 32" using that by (simp add: word_le_nat_alt not_less)
    then show ?thesis by (simp add: i32_of_small)
  qed
  show ?thesis
    using assms c
    by (auto simp: wp_simps decodeHRDParameters_def sps_inv3_def sps_shape_def Let_def i32_of_small simp del: sps_shape_lengths
        intro!: sp_ops loop)
qed

text \<open>The VUI: also where truncation is ignored, the bounds hold of what is kept.\<close>

lemma clear_inv [simp]:
  "sps_inv3 s \<Longrightarrow> sps_inv3 (s\<lparr>pr_sps := clear_restriction (pr_sps s)\<rparr>)"
  "sps_inv3 s \<Longrightarrow> sps_inv3 (s\<lparr>pr_sps := clear_timing (pr_sps s)\<rparr>)"
  by (simp_all add: sps_inv3_def clear_restriction_def clear_timing_def sps_shape_def del: sps_shape_lengths)

lemma sps_inv3_wf [simp]: "sps_inv3 s \<Longrightarrow> wf_reader s"
  by (simp add: sps_inv3_def)

lemma sps_inv3_cong: "sps_inv3 s \<Longrightarrow> wf_reader s' \<Longrightarrow> pr_sps s' = pr_sps s \<Longrightarrow> sps_inv3 s'"
  by (simp add: sps_inv3_def)

text \<open>One guarded read: the invariant survives the read, whichever way the guard decides.\<close>

lemma wp_tryT_op:
  assumes "reader_op m R" "sps_inv3 s"
    and "\<And>v s'. R v \<Longrightarrow> sps_inv3 s' \<Longrightarrow> wp (k v) (\<lambda>_. sps_inv3) np s'"
    and "\<And>s'. sps_inv3 s' \<Longrightarrow> sps_inv3 (s'\<lparr>pr_sps := f (pr_sps s')\<rparr>)"
  shows "wp (tryT ign m f k) (\<lambda>_. sps_inv3) np s"
  unfolding wp_tryT
proof (rule sp_op [OF assms(1) sps_inv3_wf [OF assms(2)]])
  fix v and s' :: sps_parse
  assume "R v" "wf_reader s'" "pr_sps s' = pr_sps s"
  then show "wp (k v) (\<lambda>_. sps_inv3) np s'"
    using assms(3) sps_inv3_cong [OF assms(2)] by blast
next
  fix s' :: sps_parse
  assume "wf_reader s'" "pr_sps s' = pr_sps s"
  then have "sps_inv3 s'" by (rule sps_inv3_cong [OF assms(2)])
  then show "if ign \<and> bitsLeft s' \<le> 0 then sps_inv3 (s'\<lparr>pr_sps := f (pr_sps s')\<rparr>) else ErrInvalidData \<noteq> Panic"
    using assms(4) by simp
qed

lemma wp_setS_inv3:
  "sps_inv3 (s\<lparr>pr_sps := f (pr_sps s)\<rparr>) \<Longrightarrow> wp m Q E (s\<lparr>pr_sps := f (pr_sps s)\<rparr>) \<Longrightarrow> wp (thn (setS f) m) Q E s"
  by (simp add: wp_simps)

lemmas tryT_ops =
  wp_tryT_op [OF readBit_flag] wp_tryT_op [OF readBits_contract] wp_tryT_op [OF skipBits_contract]
  wp_tryT_op [OF readUEGolomb31.reader_op_axioms]

lemma sps_inv3_upd [simp]:
  "sps_inv3 s \<Longrightarrow> sps_inv3 (s\<lparr>pr_sps := (pr_sps s)\<lparr>sps_BitstreamRestrictionFlag := v\<rparr>\<rparr>)"
  "sps_inv3 s \<Longrightarrow> sps_inv3 (s\<lparr>pr_sps := (pr_sps s)\<lparr>sps_PicStructPresentFlag := v\<rparr>\<rparr>)"
  "sps_inv3 s \<Longrightarrow> sps_inv3 (s\<lparr>pr_sps := (pr_sps s)\<lparr>sps_NALHRDParametersPresentFlag := v\<rparr>\<rparr>)"
  "sps_inv3 s \<Longrightarrow> sps_inv3 (s\<lparr>pr_sps := (pr_sps s)\<lparr>sps_VCLHRDParametersPresentFlag := v\<rparr>\<rparr>)"
  "sps_inv3 s \<Longrightarrow> sps_inv3 (s\<lparr>pr_sps := (pr_sps s)\<lparr>sps_TimingInfoPresentFlag := v\<rparr>\<rparr>)"
  "sps_inv3 s \<Longrightarrow> sps_inv3 (s\<lparr>pr_sps := (pr_sps s)\<lparr>sps_FixedFrameRateFlag := v\<rparr>\<rparr>)"
  "sps_inv3 s \<Longrightarrow> sps_inv3 (s\<lparr>pr_sps := (pr_sps s)\<lparr>sps_NumUnitsInTick := w, sps_TimeScale := w'\<rparr>\<rparr>)"
  by (simp_all add: sps_inv3_def)

lemma wp_vui_restriction: "sps_inv3 s \<Longrightarrow> wp (vui_restriction ign) (\<lambda>_. sps_inv3) np s"
proof -
  have c: "0 \<le> i32_of c \<and> i32_of c \<le> 16" if "\<not> 16 < c" for c :: u32
  proof -
    have "unat c \<le> 16" using that by (simp add: word_le_nat_alt not_less)
    then show ?thesis by (simp add: i32_of_small)
  qed
  have r: "sps_inv3 (s\<lparr>pr_sps := (pr_sps s)\<lparr>sps_NumReorderFrames := i32_of c, sps_MaxDecFrameBuffering := i32_of d\<rparr>\<rparr>)"
    if "sps_inv3 s" "\<not> 16 < c" for s c d
    using that c [OF that(2)] by (simp add: sps_inv3_def sps_shape_def del: sps_shape_lengths)
  assume "sps_inv3 s"
  then show ?thesis
    unfolding vui_restriction_def
    by (intro tryT_ops) (auto simp: wp_simps r intro!: tryT_ops)
qed

lemma wp_vui_pic_struct: "sps_inv3 s \<Longrightarrow> wp (vui_pic_struct ign) (\<lambda>_. sps_inv3) np s"
  unfolding vui_pic_struct_def
  by (intro tryT_ops) (auto simp: wp_simps intro!: wp_vui_restriction)

lemma wp_vui_hrd: "sps_inv3 s \<Longrightarrow> wp (vui_hrd ign) (\<lambda>_. sps_inv3) np s"
  unfolding vui_hrd_def
  by (intro tryT_ops)
     (auto simp: wp_simps intro!: tryT_ops wp_vui_pic_struct wp_conj_mono [OF wp_decodeHRDParameters])

lemma wp_vui_timing: "sps_inv3 s \<Longrightarrow> wp (vui_timing ign) (\<lambda>_. sps_inv3) np s"
  unfolding vui_timing_def
  by (intro tryT_ops) (auto simp: wp_simps intro!: tryT_ops wp_vui_hrd)

lemma wp_decodeVUIParameters:
  assumes "sps_inv3 s"
  shows "wp (decodeVUIParameters ign) (\<lambda>_. sps_inv3) np s"
  unfolding decodeVUIParameters_def wp_tryT
proof (rule wp_conj_mono [OF wp_common_vui [OF assms]])
  fix s' assume i: "sps_inv3 s'"
  have "wp (showBits 1) (\<lambda>v s'. sps_inv3 s') (\<lambda>e s'. sps_inv3 s') s'"
    by (rule sp_op [OF showBits_contract]) (use i sps_inv3_cong [OF i] in auto)
  note look = wp_conj_mono [OF this]
  show "wp (bnd (gets bitsLeft) (\<lambda>left. if left \<le> 0 then ret ()
     else bnd (catch (bnd (showBits 1) (\<lambda>v. ret (Some v))) (\<lambda>_. ret None)) (\<lambda>look.
       case look of None \<Rightarrow> ret ()
       | Some v \<Rightarrow> bnd (gets bitsLeft) (\<lambda>left. if v \<noteq> 0 \<and> left < 10 then ret () else vui_timing ign)))) (\<lambda>_. sps_inv3) np s'"
    using i by (auto simp: wp_simps intro!: look wp_vui_timing)
qed auto

text \<open>Deriving the reorder depth never divides by zero.\<close>

lemma levelMaxDPBMbs_pos: "find P levelMaxDPBMbs = Some e \<Longrightarrow> 0 \<le> snd e"
proof -
  have "\<forall>e \<in> set levelMaxDPBMbs. 0 \<le> snd e" by (simp add: levelMaxDPBMbs_def)
  then show "find P levelMaxDPBMbs = Some e \<Longrightarrow> 0 \<le> snd e"
    by (auto simp: find_Some_iff)
qed

lemma derive_ok:
  assumes "sps_shape p" "sps_size_ok p"
  shows "\<exists>n. deriveNumReorderFrames p = Inr (p\<lparr>sps_NumReorderFrames := n\<rparr>) \<and> 0 \<le> n \<and> n \<le> 16"
proof -
  have m: "1 \<le> sps_MBWidth p" "sps_MBWidth p \<le> 1055" "1 \<le> sps_MBHeight p" "sps_MBHeight p \<le> 2110"
    using assms(2) by (auto simp: sps_size_ok_def)
  have le: "sps_MBWidth p * sps_MBHeight p \<le> 1055 * 2110"
    by (rule mult_mono) (use m in simp_all)
  have pos: "0 < sps_MBWidth p * sps_MBHeight p"
    by (rule mult_pos_pos) (use m in simp_all)
  have d: "i32 (sps_MBWidth p * sps_MBHeight p) = sps_MBWidth p * sps_MBHeight p"
    by (rule i32_id) (use le pos in simp_all)
  have n: "0 \<le> sps_NumReorderFrames p" "sps_NumReorderFrames p \<le> 16"
    using assms(1) by (simp_all add: sps_shape_def del: sps_shape_lengths)
  show ?thesis
  proof (cases "sps_BitstreamRestrictionFlag p \<noteq> 0 \<or> sps_RefFrameCount p = 0")
    case True
    then show ?thesis
      using n by (intro exI [of _ "sps_NumReorderFrames p"]) (simp add: deriveNumReorderFrames_def)
  next
    case False
    show ?thesis
    proof (cases "find (\<lambda>entry. fst entry = sps_LevelIDC p) levelMaxDPBMbs")
      case None
      then show ?thesis using False
        by (intro exI [of _ 15]) (simp add: deriveNumReorderFrames_def)
    next
      case (Some e)
      define k where "k = snd e div (sps_MBWidth p * sps_MBHeight p)"
      have "0 \<le> k"
        unfolding k_def using levelMaxDPBMbs_pos [OF Some] pos by (simp add: pos_imp_zdiv_nonneg_iff)
      moreover have "sps_MBWidth p \<noteq> 0" "sps_MBHeight p \<noteq> 0" using m by auto
      ultimately show ?thesis using False Some
        by (intro exI [of _ "if k < 15 then k else 15"])
           (simp add: deriveNumReorderFrames_def Let_def d flip: k_def)
    qed
  qed
qed

lemma wp_sps_crop_vui:
  assumes "sps_inv3 s"
  shows "wp (sps_crop_vui ign) (\<lambda>_. sps_inv3) np s"
proof -
  have d: "wp sps_derive (\<lambda>_. sps_inv3) np s"
    if i: "sps_inv3 s" for s
  proof -
    obtain n where n: "deriveNumReorderFrames (pr_sps s) = Inr ((pr_sps s)\<lparr>sps_NumReorderFrames := n\<rparr>)" "0 \<le> n" "n \<le> 16"
      using derive_ok [of "pr_sps s"] i by (auto simp: sps_inv3_def)
    then show ?thesis
      using i by (simp add: wp_simps sps_derive_def sps_inv3_def sps_shape_def del: sps_shape_lengths)
  qed
  have u: "sps_inv3 (s\<lparr>pr_sps := (pr_sps s)\<lparr>sps_Crop := v\<rparr>\<rparr>)"
    "sps_inv3 (s\<lparr>pr_sps := (pr_sps s)\<lparr>sps_VUIParametersPresentFlag := v\<rparr>\<rparr>)" if "sps_inv3 s" for s v
    using that by (simp_all add: sps_inv3_def)
  have rb: "wp readBit (\<lambda>_. sps_inv3) np s" if "sps_inv3 s" for s
    by (rule sp_op [OF readBit_flag]) (use that sps_inv3_cong [OF that] in auto)
  show ?thesis
    using assms unfolding sps_crop_vui_def wp_simps
    by (intro wp_conj_mono [OF rb])
       (auto simp: wp_simps u intro!: wp_conj_mono [OF wp_decodeCrop] wp_conj_mono [OF rb] 
          wp_conj_mono [OF wp_decodeVUIParameters] d)
qed

lemma wp_sps_dimensions:
  assumes "sps_inv3 s"
  shows "wp sps_dimensions (\<lambda>_ s'. wf_reader s' \<and> sps_ok (pr_sps s')) np s"
proof -
  have m: "1 \<le> sps_MBWidth (pr_sps s)" "sps_MBWidth (pr_sps s) \<le> 1055"
    "1 \<le> sps_MBHeight (pr_sps s)" "sps_MBHeight (pr_sps s) \<le> 2110"
    using assms by (auto simp: sps_inv3_def sps_size_ok_def)
  have i: "i32 x = x" if "0 < x" "x \<le> 33760" for x using that by (intro i32_id) auto
  show ?thesis
    using assms m
    by (auto simp: wp_simps sps_dimensions_def sps_inv3_def sps_ok_def sps_dim_ok_def Let_def i)
qed

lemma wp_sps_parser:
  assumes "sps_inv1 s"
  shows "wp (sps_parser ign) (\<lambda>_ s'. sps_ok (pr_sps s')) np s"
  unfolding sps_parser_def wp_thn
  by (rule wp_conj_mono [OF wp_sps_header [OF assms]], rule wp_conj_mono [OF wp_sps_high_profile], assumption,
      rule wp_conj_mono [OF wp_sps_frame_num_poc], assumption, rule wp_conj_mono [OF wp_sps_frame_size], assumption,
      rule wp_conj_mono [OF wp_sps_crop_vui], assumption, rule wp_conj_mono [OF wp_sps_dimensions], assumption)
     auto

lemma rbspBitLength_error: "newRBSPBitReader b = Inl e \<Longrightarrow> e = ErrInvalidData"
  by (auto simp: newRBSPBitReader_def rbspBitLength_def Let_def rbind_eq_Inl split: if_splits)

lemma sps_init_inv: "wf_reader gb \<Longrightarrow> sps_inv1 (sps_start gb)"
  by (simp add: sps_inv1_def sps_start_def wf_reader_def sps_init_def sps_shape_def sps_format_ok_def
      nonzero_matrix_def del: sps_shape_lengths)

lemma decodeSPS_cases:
  "case decodeSPS rbsp ign of Inr sps \<Rightarrow> sps_ok sps | Inl e \<Rightarrow> e \<in> {ErrInvalidData, ErrUnsupported}"
proof (cases "newRBSPBitReader rbsp")
  case (Inl e)
  then show ?thesis using rbspBitLength_error by (simp add: decodeSPS_def)
next
  case (Inr gb)
  have "wp (sps_parser ign) (\<lambda>_ s'. sps_ok (pr_sps s')) np (sps_start gb)"
    by (rule wp_sps_parser [OF sps_init_inv [OF newRBSPBitReader_wf [OF Inr]]])
  then show ?thesis using Inr
    by (cases "sps_parser ign (sps_start gb)")
       (auto simp: decodeSPS_def wp_def split: sum.splits intro: goerror.exhaust)
qed

text \<open>
  C2. The SPS parser is safe on every byte string, strict or with truncation ignored: it
  returns (never a panic: no index, slice or division of it goes wrong), and a parameter set it
  admits satisfies \<open>sps_ok\<close>: identifiers and formats in range, one bit depth of 8 to 14, a
  \<open>frame_num\<close> length of 4 to 16 bits, at most 16 reference frames and 16 reorder frames, no zero
  scaling factor, at most 1055 by 2110 macroblocks, and a positive cropped picture size that is
  exactly the coded size less the cropping.
\<close>

theorem decodeSPS_safe:
  "case decodeSPS rbsp ign of Inr sps \<Rightarrow> sps_ok sps | Inl e \<Rightarrow> e \<in> {ErrInvalidData, ErrUnsupported}"
  by (rule decodeSPS_cases)

text \<open>
  The same of \<open>DecodeSPSFromNAL\<close> with its recovery attempts; whenever the strict parse of the
  RBSP succeeds the recovery changes nothing, and an error is the error of the strict parse.
\<close>

theorem DecodeSPSFromNAL_safe:
  "case DecodeSPSFromNAL nal of
     Inr sps \<Rightarrow> nal_Type nal = NALSPS \<and> sps_ok sps
       \<and> (DecodeSPS (nal_RBSP nal) = Inr sps \<or> (\<exists>e. DecodeSPS (nal_RBSP nal) = Inl e))
   | Inl e \<Rightarrow> e \<in> {ErrInvalidData, ErrUnsupported}
       \<and> (if nal_Type nal = NALSPS then DecodeSPS (nal_RBSP nal) = Inl e else e = ErrInvalidData)"
proof -
  have s: "DecodeSPS b = Inr p \<Longrightarrow> sps_ok p" "decodeSPS b t = Inr p \<Longrightarrow> sps_ok p"
    "DecodeSPS b = Inl e \<Longrightarrow> e \<in> {ErrInvalidData, ErrUnsupported}" for b t p e
    using decodeSPS_cases [of b False] decodeSPS_cases [of b t] by (simp_all add: DecodeSPS_def)
  show ?thesis
    unfolding DecodeSPSFromNAL_def
    by (auto split: sum.splits dest: s)
qed

end
