(* ===== verification/Pps.thy ===== *)
theory Pps
  imports Sps
begin

text \<open>
  The picture parameter set (\<open>internal/h264/pps.go\<close>): the parser, the chroma QP tables and the
  dequantisation tables it builds, and the decoding of an \<open>avcC\<close> configuration record
  (\<open>nal.go\<close>), which fills the tables of both kinds of parameter sets.

  A pointer is an \<open>option\<close>; the table of sequence parameter sets is a list of 32 of them.
\<close>

section \<open>The parameter set\<close>

record PPS =
  pps_PPSID :: u32
  pps_SPSID :: u32
  pps_SPS :: "SPS option"
  pps_CABAC :: int
  pps_PicOrderPresent :: int
  pps_SliceGroupCount :: u32
  pps_MBSliceGroupMapType :: u32
  pps_RefCount :: "u32 list"
  pps_WeightedPred :: int
  pps_WeightedBipredIDC :: u32
  pps_InitQP :: int
  pps_InitQS :: int
  pps_ChromaQPIndexOffset :: "int list"
  pps_DeblockingFilterParametersPresent :: int
  pps_ConstrainedIntraPred :: int
  pps_RedundantPicCntPresent :: int
  pps_Transform8x8Mode :: int
  pps_PicScalingMatrixPresentFlag :: int
  pps_PicScalingMatrixPresentMask :: u16
  pps_ScalingMatrix4 :: "u8 list list"
  pps_ScalingMatrix8 :: "u8 list list"
  pps_ChromaQPTable :: "u8 list list"
  pps_ChromaQPDiff :: int
  pps_Dequant4Buffer :: "u32 list list list"
  pps_Dequant8Buffer :: "u32 list list list"

definition pps_init :: PPS where
  "pps_init = \<lparr>pps_PPSID = 0, pps_SPSID = 0, pps_SPS = None, pps_CABAC = 0, pps_PicOrderPresent = 0,
     pps_SliceGroupCount = 0, pps_MBSliceGroupMapType = 0, pps_RefCount = [0, 0], pps_WeightedPred = 0,
     pps_WeightedBipredIDC = 0, pps_InitQP = 0, pps_InitQS = 0, pps_ChromaQPIndexOffset = [0, 0],
     pps_DeblockingFilterParametersPresent = 0, pps_ConstrainedIntraPred = 0,
     pps_RedundantPicCntPresent = 0, pps_Transform8x8Mode = 0, pps_PicScalingMatrixPresentFlag = 0,
     pps_PicScalingMatrixPresentMask = 0, pps_ScalingMatrix4 = replicate 6 (replicate 16 0),
     pps_ScalingMatrix8 = replicate 6 (replicate 64 0), pps_ChromaQPTable = replicate 2 (replicate 88 0),
     pps_ChromaQPDiff = 0, pps_Dequant4Buffer = replicate 6 (replicate 88 (replicate 16 0)),
     pps_Dequant8Buffer = replicate 6 (replicate 88 (replicate 64 0))\<rparr>"

section \<open>Loops over arrays\<close>

text \<open>\<open>for i := range is { xs[i] = body(i, xs[i]) }\<close>.\<close>

fun update_each :: "nat list \<Rightarrow> (nat \<Rightarrow> 'a \<Rightarrow> 'a result) \<Rightarrow> 'a list \<Rightarrow> 'a list result" where
  "update_each [] body xs = Inr xs"
| "update_each (i # is) body xs =
     rbind (idx xs i) (\<lambda>x. rbind (body i x) (\<lambda>y. rbind (set_idx xs i y) (update_each is body)))"

text \<open>\<open>for x := range is { row[dst(x)] = val(x) }\<close>.\<close>

fun store_each :: "nat list \<Rightarrow> (nat \<Rightarrow> nat) \<Rightarrow> (nat \<Rightarrow> 'a result) \<Rightarrow> 'a list \<Rightarrow> 'a list result" where
  "store_each [] dst val row = Inr row"
| "store_each (x # xs) dst val row =
     rbind (val x) (\<lambda>v. rbind (set_idx row (dst x) v) (store_each xs dst val))"

section \<open>Quantiser tables\<close>

definition clipInt32 :: "int \<Rightarrow> int \<Rightarrow> int \<Rightarrow> int" where
  "clipInt32 v lo hi = (if v < lo then lo else if v > hi then hi else v)"

text \<open>The row of \<open>ChromaQPTable\<close> for one chroma plane.\<close>

definition max_qp :: "int \<Rightarrow> int" where
  "max_qp depth = 51 + 6 * (depth - 8)"

definition buildQPTable :: "int \<Rightarrow> int \<Rightarrow> u8 list \<Rightarrow> u8 list result" where
  "buildQPTable index depth row =
     store_each [0..<nat (max_qp depth + 1)] (\<lambda>i. i)
       (\<lambda>i. h264ChromaQP depth (u32_of (clipInt32 (int i + index) 0 (max_qp depth)))) row"

definition dequant4_dst :: "nat \<Rightarrow> nat" where
  "dequant4_dst x = drop_bit 2 x OR (push_bit 2 x AND 0x0f)"

definition dequant4_value :: "u8 list \<Rightarrow> nat \<Rightarrow> nat \<Rightarrow> u32 result" where
  "dequant4_value scaling q x =
     rbind (idx h264QuantDiv6 q) (\<lambda>d.
     rbind (idx h264QuantRem6 q) (\<lambda>r.
     rbind (idx h264Dequant4CoeffInit (unat r)) (\<lambda>row.
     rbind (idx row ((x AND 1) + (drop_bit 2 x AND 1))) (\<lambda>c.
     rbind (idx scaling x) (\<lambda>s.
       Inr (push_bit (unat d + 2) (ucast c * ucast s)))))))"

definition initDequant4CoeffTable :: "int \<Rightarrow> u8 list list \<Rightarrow> u32 list list list \<Rightarrow> u32 list list list result" where
  "initDequant4CoeffTable depth sm4 =
     update_each [0..<6] (\<lambda>i m. rbind (idx sm4 i) (\<lambda>scaling.
       update_each [0..<nat (max_qp depth + 1)] (\<lambda>q row.
         store_each [0..<16] dequant4_dst (dequant4_value scaling q) row) m))"

definition dequant8_dst :: "nat \<Rightarrow> nat" where
  "dequant8_dst x = drop_bit 3 x OR push_bit 3 (x AND 7)"

definition dequant8_value :: "u8 list \<Rightarrow> nat \<Rightarrow> nat \<Rightarrow> u32 result" where
  "dequant8_value scaling q x =
     rbind (idx h264QuantDiv6 q) (\<lambda>d.
     rbind (idx h264QuantRem6 q) (\<lambda>r.
     rbind (idx h264Dequant8CoeffInitScan ((drop_bit 1 x AND 12) OR (x AND 3))) (\<lambda>initIdx.
     rbind (idx h264Dequant8CoeffInit (unat r)) (\<lambda>row.
     rbind (idx row (unat initIdx)) (\<lambda>c.
     rbind (idx scaling x) (\<lambda>s.
       Inr (push_bit (unat d) (ucast c * ucast s))))))))"

definition initDequant8CoeffTable :: "int \<Rightarrow> u8 list list \<Rightarrow> u32 list list list \<Rightarrow> u32 list list list result" where
  "initDequant8CoeffTable depth sm8 =
     update_each [0..<6] (\<lambda>i m. rbind (idx sm8 i) (\<lambda>scaling.
       update_each [0..<nat (max_qp depth + 1)] (\<lambda>q row.
         store_each [0..<64] dequant8_dst (dequant8_value scaling q) row) m))"

text \<open>The lossless case: the first row of every table is \<open>1 << 6\<close>.\<close>

definition bypass_rows :: "nat \<Rightarrow> u32 list list list \<Rightarrow> u32 list list list result" where
  "bypass_rows n = update_each [0..<6] (\<lambda>i m. update_each [0] (\<lambda>_ row.
     store_each [0..<n] (\<lambda>x. x) (\<lambda>_. Inr (push_bit 6 1)) row) m)"

definition initDequantTables :: "PPS \<Rightarrow> SPS \<Rightarrow> PPS result" where
  "initDequantTables pps sps =
     rbind (initDequant4CoeffTable (sps_BitDepthLuma sps) (pps_ScalingMatrix4 pps) (pps_Dequant4Buffer pps)) (\<lambda>d4.
     rbind (if pps_Transform8x8Mode pps \<noteq> 0
            then initDequant8CoeffTable (sps_BitDepthLuma sps) (pps_ScalingMatrix8 pps) (pps_Dequant8Buffer pps)
            else Inr (pps_Dequant8Buffer pps)) (\<lambda>d8.
     rbind (if sps_TransformBypass sps \<noteq> 0 then bypass_rows 16 d4 else Inr d4) (\<lambda>d4.
     rbind (if sps_TransformBypass sps \<noteq> 0 \<and> pps_Transform8x8Mode pps \<noteq> 0
            then bypass_rows 64 d8 else Inr d8) (\<lambda>d8.
       Inr (pps\<lparr>pps_Dequant4Buffer := d4, pps_Dequant8Buffer := d8\<rparr>)))))"

section \<open>The parser\<close>

record pps_parse = bitReader +
  pr_pps :: PPS

type_synonym 'a pp = "(pps_parse, 'a) go"

definition setP :: "(PPS \<Rightarrow> PPS) \<Rightarrow> unit pp" where
  "setP f = upd (\<lambda>s. s\<lparr>pr_pps := f (pr_pps s)\<rparr>)"

definition getP :: "(PPS \<Rightarrow> 'a) \<Rightarrow> 'a pp" where
  "getP f = gets (\<lambda>s. f (pr_pps s))"

lemma wp_setP [wp_simps]: "wp (setP f) Q E s = Q () (s\<lparr>pr_pps := f (pr_pps s)\<rparr>)"
  by (simp add: setP_def wp_simps)

lemma wp_getP [wp_simps]: "wp (getP f) Q E s = Q (f (pr_pps s)) s"
  by (simp add: getP_def wp_simps)

definition maxPPSCount :: nat where
  "maxPPSCount = 256"

definition moreRBSPDataInPPS :: "SPS \<Rightarrow> bool" where
  "moreRBSPDataInPPS sps \<longleftrightarrow>
     \<not> ((sps_ProfileIDC sps = 66 \<or> sps_ProfileIDC sps = 77 \<or> sps_ProfileIDC sps = 88)
        \<and> sps_ConstraintSetFlags sps AND 7 \<noteq> 0)"

text \<open>Indexing the array of SPS pointers, then testing it for nil.\<close>

definition pps_ids :: "SPS option list \<Rightarrow> SPS pp" where
  "pps_ids spsList =
     bnd readUEGolombLong (\<lambda>ppsID.
     if unat ppsID \<ge> maxPPSCount then fail ErrInvalidData
     else
       thn (setP (\<lambda>p. p\<lparr>pps_PPSID := ppsID\<rparr>))
       (bnd readUEGolomb31 (\<lambda>spsID.
        thn (setP (\<lambda>p. p\<lparr>pps_SPSID := spsID\<rparr>))
        (if unat spsID \<ge> maxSPSCount then fail ErrInvalidData
         else bnd (lift (idx spsList (unat spsID))) (\<lambda>entry.
           case entry of
             None \<Rightarrow> fail ErrInvalidData
           | Some sps \<Rightarrow>
               thn (setP (\<lambda>p. p\<lparr>pps_SPS := Some sps, pps_ScalingMatrix4 := sps_ScalingMatrix4 sps,
                             pps_ScalingMatrix8 := sps_ScalingMatrix8 sps\<rparr>))
               (if sps_BitDepthLuma sps > 14 then fail ErrInvalidData
                else if sps_BitDepthLuma sps = 11 \<or> sps_BitDepthLuma sps = 13 then fail ErrUnsupported
                else ret sps))))))"

definition pps_ref_count :: "nat \<Rightarrow> unit pp" where
  "pps_ref_count i =
     bnd readUEGolombLong (\<lambda>refCountMinus1.
     bnd (getP pps_RefCount) (\<lambda>a.
     bnd (lift (set_idx a i (refCountMinus1 + 1))) (\<lambda>a.
     thn (setP (\<lambda>p. p\<lparr>pps_RefCount := a\<rparr>))
     (if refCountMinus1 + 1 - 1 > 31 then fail ErrInvalidData else ret ()))))"

definition pps_groups_refs :: "unit pp" where
  "pps_groups_refs =
     bnd readBit (\<lambda>flag.
     thn (setP (\<lambda>p. p\<lparr>pps_CABAC := i32_of flag\<rparr>))
     (bnd readBit (\<lambda>flag.
      thn (setP (\<lambda>p. p\<lparr>pps_PicOrderPresent := i32_of flag\<rparr>))
      (bnd readUEGolombLong (\<lambda>sliceGroupCountMinus1.
       thn (setP (\<lambda>p. p\<lparr>pps_SliceGroupCount := sliceGroupCountMinus1 + 1\<rparr>))
       (if sliceGroupCountMinus1 + 1 > 1 then
          bnd readUEGolombLong (\<lambda>mapType.
          thn (setP (\<lambda>p. p\<lparr>pps_MBSliceGroupMapType := mapType\<rparr>)) (fail ErrUnsupported))
        else forM [0, 1] pps_ref_count))))))"

definition pps_chroma_offset :: "nat \<Rightarrow> unit pp" where
  "pps_chroma_offset i =
     bnd readSEGolombLong (\<lambda>v.
     bnd (getP pps_ChromaQPIndexOffset) (\<lambda>a.
     bnd (lift (set_idx a i v)) (\<lambda>a.
     thn (setP (\<lambda>p. p\<lparr>pps_ChromaQPIndexOffset := a\<rparr>))
     (if v < -12 \<or> v > 12 then fail ErrInvalidData else ret ()))))"

definition pps_quant :: "SPS \<Rightarrow> unit pp" where
  "pps_quant sps =
     (let qpBDOffset = 6 * (sps_BitDepthLuma sps - 8) in
     bnd readBit (\<lambda>flag.
     thn (setP (\<lambda>p. p\<lparr>pps_WeightedPred := i32_of flag\<rparr>))
     (bnd (readBits 2) (\<lambda>weightedBipredIDC.
      thn (setP (\<lambda>p. p\<lparr>pps_WeightedBipredIDC := weightedBipredIDC\<rparr>))
      (bnd readSEGolombLong (\<lambda>initQPDelta.
       thn (setP (\<lambda>p. p\<lparr>pps_InitQP := i32 (i32 (initQPDelta + 26) + qpBDOffset)\<rparr>))
       (bnd readSEGolombLong (\<lambda>initQSDelta.
        thn (setP (\<lambda>p. p\<lparr>pps_InitQS := i32 (i32 (initQSDelta + 26) + qpBDOffset)\<rparr>))
        (thn (pps_chroma_offset 0)
        (bnd readBit (\<lambda>flag.
         thn (setP (\<lambda>p. p\<lparr>pps_DeblockingFilterParametersPresent := i32_of flag\<rparr>))
         (bnd readBit (\<lambda>flag.
          thn (setP (\<lambda>p. p\<lparr>pps_ConstrainedIntraPred := i32_of flag\<rparr>))
          (bnd readBit (\<lambda>flag.
            setP (\<lambda>p. p\<lparr>pps_RedundantPicCntPresent := i32_of flag\<rparr>))))))))))))))))"

definition pps_scaling :: "SPS \<Rightarrow> unit pp" where
  "pps_scaling sps =
     bnd (getP (\<lambda>p. p)) (\<lambda>p.
     bnd (decodeScalingMatrices (Some sps) (sps_ChromaFormatIDC sps) False (pps_Transform8x8Mode p \<noteq> 0) True
            (pps_ScalingMatrix4 p) (pps_ScalingMatrix8 p)) (\<lambda>(msk, sm4, sm8).
       setP (\<lambda>p. p\<lparr>pps_PicScalingMatrixPresentMask := msk, pps_ScalingMatrix4 := sm4,
                  pps_ScalingMatrix8 := sm8\<rparr>)))"

definition pps_extension :: "SPS \<Rightarrow> unit pp" where
  "pps_extension sps =
     bnd (gets bitsLeft) (\<lambda>left.
     if left > 0 \<and> moreRBSPDataInPPS sps then
       bnd readBit (\<lambda>flag.
       thn (setP (\<lambda>p. p\<lparr>pps_Transform8x8Mode := i32_of flag\<rparr>))
       (bnd readBit (\<lambda>flag.
        thn (setP (\<lambda>p. p\<lparr>pps_PicScalingMatrixPresentFlag := i32_of flag\<rparr>))
        (thn (whenM (flag \<noteq> 0) (pps_scaling sps))
             (pps_chroma_offset 1)))))
     else
       bnd (getP pps_ChromaQPIndexOffset) (\<lambda>a.
       bnd (lift (rbind (idx a 0) (set_idx a 1))) (\<lambda>a.
         setP (\<lambda>p. p\<lparr>pps_ChromaQPIndexOffset := a\<rparr>))))"

definition pps_tables :: "SPS \<Rightarrow> PPS \<Rightarrow> PPS result" where
  "pps_tables sps pps =
     rbind (idx (pps_ChromaQPIndexOffset pps) 0) (\<lambda>o0.
     rbind (idx (pps_ChromaQPIndexOffset pps) 1) (\<lambda>o1.
     let pps = (if o0 \<noteq> o1 then pps\<lparr>pps_ChromaQPDiff := 1\<rparr> else pps) in
     rbind (update_each [0, 1] (\<lambda>t row. buildQPTable (if t = 0 then o0 else o1) (sps_BitDepthLuma sps) row)
              (pps_ChromaQPTable pps)) (\<lambda>tab.
       initDequantTables (pps\<lparr>pps_ChromaQPTable := tab\<rparr>) sps)))"

definition pps_parser :: "SPS option list \<Rightarrow> unit pp" where
  "pps_parser spsList =
     bnd (pps_ids spsList) (\<lambda>sps.
     thn pps_groups_refs
     (thn (pps_quant sps)
     (thn (pps_extension sps)
     (bnd (getP (pps_tables sps)) (\<lambda>r. bnd (lift r) (\<lambda>p. setP (\<lambda>_. p)))))))"

definition pps_start :: "bitReader \<Rightarrow> pps_parse" where
  "pps_start gb = \<lparr>gb_buf = gb_buf gb, gb_bitPos = gb_bitPos gb, gb_numBits = gb_numBits gb,
                   gb_invalid = gb_invalid gb, pr_pps = pps_init\<rparr>"

definition DecodePPS :: "bytes \<Rightarrow> SPS option list \<Rightarrow> PPS result" where
  "DecodePPS rbsp spsList =
     rbind (newRBSPBitReader rbsp) (\<lambda>gb.
       case pps_parser spsList (pps_start gb) of (r, s) \<Rightarrow> rbind r (\<lambda>_. Inr (pr_pps s)))"

section \<open>The avcC configuration record\<close>

record AVCDecoderConfigurationRecord =
  cfg_NALLengthSize :: int
  cfg_FirstSPSID :: u32
  cfg_SPS :: "SPS option list"
  cfg_PPS :: "PPS option list"

definition cfg_init :: AVCDecoderConfigurationRecord where
  "cfg_init = \<lparr>cfg_NALLengthSize = 0, cfg_FirstSPSID = 0, cfg_SPS = replicate 32 None,
               cfg_PPS = replicate 256 None\<rparr>"

text \<open>The loops over the parameter sets; the state is the position, the record and the \<open>have\<close> flag.\<close>

fun cfg_sps_loop :: "bytes \<Rightarrow> nat \<Rightarrow> nat \<Rightarrow> AVCDecoderConfigurationRecord \<Rightarrow> bool
    \<Rightarrow> (nat \<times> AVCDecoderConfigurationRecord \<times> bool) result" where
  "cfg_sps_loop data 0 pos cfg got = Inr (pos, cfg, got)"
| "cfg_sps_loop data (Suc n) pos cfg got =
     (case readAVCConfigNAL data pos of
        (Inl e, _) \<Rightarrow> Inl e
      | (Inr raw, pos') \<Rightarrow>
          rbind (parseAVCConfigNAL raw NALSPS) (\<lambda>nal.
          rbind (DecodeSPSFromNAL nal) (\<lambda>sps.
          rbind (set_idx (cfg_SPS cfg) (unat (sps_SPSID sps)) (Some sps)) (\<lambda>l.
            cfg_sps_loop data n pos'
              (if got then cfg\<lparr>cfg_SPS := l\<rparr> else cfg\<lparr>cfg_SPS := l, cfg_FirstSPSID := sps_SPSID sps\<rparr>) True))))"

fun cfg_pps_loop :: "bytes \<Rightarrow> nat \<Rightarrow> nat \<Rightarrow> AVCDecoderConfigurationRecord \<Rightarrow> bool
    \<Rightarrow> (AVCDecoderConfigurationRecord \<times> bool) result" where
  "cfg_pps_loop data 0 pos cfg got = Inr (cfg, got)"
| "cfg_pps_loop data (Suc n) pos cfg got =
     (case readAVCConfigNAL data pos of
        (Inl e, _) \<Rightarrow> Inl e
      | (Inr raw, pos') \<Rightarrow>
          rbind (parseAVCConfigNAL raw NALPPS) (\<lambda>nal.
          rbind (DecodePPS (nal_RBSP nal) (cfg_SPS cfg)) (\<lambda>pps.
          rbind (set_idx (cfg_PPS cfg) (unat (pps_PPSID pps)) (Some pps)) (\<lambda>l.
            cfg_pps_loop data n pos' (cfg\<lparr>cfg_PPS := l\<rparr>) True))))"

definition DecodeAVCDecoderConfigurationRecord :: "bytes \<Rightarrow> AVCDecoderConfigurationRecord result" where
  "DecodeAVCDecoderConfigurationRecord data =
     (if nalInputTooLarge data \<or> length data < 7 \<or> data ! 0 \<noteq> 1
         \<or> data ! 4 AND 0xfc \<noteq> 0xfc \<or> data ! 5 AND 0xe0 \<noteq> 0xe0 then Inl ErrInvalidData
      else let cfg = cfg_init\<lparr>cfg_NALLengthSize := int (unat (data ! 4 AND 3)) + 1\<rparr> in
        rbind (cfg_sps_loop data (unat (data ! 5 AND 0x1f)) 6 cfg False) (\<lambda>(pos, cfg, haveSPS).
        if pos \<ge> length data then Inl ErrInvalidData
        else rbind (cfg_pps_loop data (unat (data ! pos)) (pos + 1) cfg False) (\<lambda>(cfg, havePPS).
          if \<not> haveSPS \<or> \<not> havePPS then Inl ErrInvalidData else Inr cfg)))"

section \<open>The loops over arrays\<close>

text \<open>
  An update loop over distinct indices in range computes each element from its old value; a
  store loop with distinct destinations in range leaves each of them with its value.
\<close>

lemma update_each_nth:
  assumes "distinct is" "\<forall>i \<in> set is. i < length xs \<and> body i (xs ! i) = Inr (f i)"
  shows "\<exists>ys. update_each is body xs = Inr ys \<and> length ys = length xs
    \<and> (\<forall>i < length xs. ys ! i = (if i \<in> set is then f i else xs ! i))"
  using assms
proof (induction "is" arbitrary: xs)
  case Nil
  then show ?case by simp
next
  case (Cons i "is")
  have i: "i < length xs" "body i (xs ! i) = Inr (f i)" using Cons.prems(2) by auto
  have "\<forall>j \<in> set is. j < length (xs[i := f i]) \<and> body j (xs[i := f i] ! j) = Inr (f j)"
    using Cons.prems by (auto simp: nth_list_update)
  then obtain ys where ys: "update_each is body (xs[i := f i]) = Inr ys" "length ys = length (xs[i := f i])"
    "\<forall>j < length (xs[i := f i]). ys ! j = (if j \<in> set is then f j else xs[i := f i] ! j)"
    using Cons.IH [of "xs[i := f i]"] Cons.prems(1) by auto
  then show ?case using i Cons.prems(1) by (auto simp: nth_list_update)
qed

lemma store_each_nth:
  assumes "inj_on dst (set xs)" "distinct xs" "\<forall>x \<in> set xs. dst x < length row \<and> val x = Inr (f x)"
  shows "\<exists>row'. store_each xs dst val row = Inr row' \<and> length row' = length row
    \<and> (\<forall>x \<in> set xs. row' ! dst x = f x) \<and> (\<forall>j < length row. j \<notin> dst ` set xs \<longrightarrow> row' ! j = row ! j)"
  using assms
proof (induction xs arbitrary: row)
  case Nil
  then show ?case by simp
next
  case (Cons x xs)
  have x: "dst x < length row" "val x = Inr (f x)" using Cons.prems(3) by auto
  have "\<forall>y \<in> set xs. dst y < length (row[dst x := f x]) \<and> val y = Inr (f y)"
    using Cons.prems(3) by auto
  then obtain row' where r: "store_each xs dst val (row[dst x := f x]) = Inr row'"
    "length row' = length row" "\<forall>y \<in> set xs. row' ! dst y = f y"
    "\<forall>j < length row. j \<notin> dst ` set xs \<longrightarrow> row' ! j = row[dst x := f x] ! j"
    using Cons.IH [of "row[dst x := f x]"] Cons.prems(1,2) by auto
  have n: "dst x \<notin> dst ` set xs" using Cons.prems(1,2) by (simp add: inj_on_def) blast
  have "row' ! dst x = f x" using r(4) x(1) n by simp
  then show ?case using x r by auto
qed

text \<open>The same for the index ranges the code uses.\<close>

lemma update_each_upt:
  assumes "n \<le> length xs" "\<And>i. i < n \<Longrightarrow> body i (xs ! i) = Inr (f i)"
  obtains ys where "update_each [0..<n] body xs = Inr ys" "length ys = length xs"
    "\<And>i. i < n \<Longrightarrow> ys ! i = f i" "\<And>i. n \<le> i \<Longrightarrow> i < length xs \<Longrightarrow> ys ! i = xs ! i"
  using update_each_nth [of "[0..<n]" xs body f] assms by auto

lemma update_each_rel:
  assumes "n \<le> length xs" "\<And>i. i < n \<Longrightarrow> \<exists>y. body i (xs ! i) = Inr y \<and> P i y"
  obtains ys where "update_each [0..<n] body xs = Inr ys" "length ys = length xs"
    "\<And>i. i < n \<Longrightarrow> P i (ys ! i)" "\<And>i. n \<le> i \<Longrightarrow> i < length xs \<Longrightarrow> ys ! i = xs ! i"
proof -
  obtain f where f: "\<And>i. i < n \<Longrightarrow> body i (xs ! i) = Inr (f i) \<and> P i (f i)"
    using assms(2) by metis
  obtain ys where "update_each [0..<n] body xs = Inr ys" "length ys = length xs"
    "\<And>i. i < n \<Longrightarrow> ys ! i = f i" "\<And>i. n \<le> i \<Longrightarrow> i < length xs \<Longrightarrow> ys ! i = xs ! i"
    using update_each_upt [OF assms(1), of body f] f by blast
  then show ?thesis using f that by metis
qed

lemma store_each_upt:
  assumes "inj_on dst {0..<n}" "\<And>x. x < n \<Longrightarrow> dst x < length row" "\<And>x. x < n \<Longrightarrow> val x = Inr (f x)"
  obtains row' where "store_each [0..<n] dst val row = Inr row'" "length row' = length row"
    "\<And>x. x < n \<Longrightarrow> row' ! dst x = f x"
    "\<And>j. j < length row \<Longrightarrow> j \<notin> dst ` {0..<n} \<Longrightarrow> row' ! j = row ! j"
  using store_each_nth [of dst "[0..<n]" row val f] assms by auto

section \<open>The quantiser tables\<close>

text \<open>
  The standard's tables: \<open>normAdjust4x4\<close> and \<open>normAdjust8x8\<close> (ISO/IEC 14496-10, 8.5.9), by row and
  column and by the quantiser parameter modulo six.
\<close>

definition normAdjust4x4 :: "nat \<Rightarrow> nat \<Rightarrow> nat \<Rightarrow> nat" where
  "normAdjust4x4 m i j =
     [[10, 16, 13], [11, 18, 14], [13, 20, 16], [14, 23, 18], [16, 25, 20], [18, 29, 23]] ! m !
       (if even i \<and> even j then 0 else if odd i \<and> odd j then 1 else 2)"

definition pos_class8 :: "nat \<Rightarrow> nat \<Rightarrow> nat" where
  "pos_class8 i j =
     (if i mod 4 = 0 \<and> j mod 4 = 0 then 0 else if odd i \<and> odd j then 1
      else if i mod 4 = 2 \<and> j mod 4 = 2 then 2
      else if i mod 4 = 0 \<and> odd j \<or> odd i \<and> j mod 4 = 0 then 3
      else if i mod 4 = 0 \<and> j mod 4 = 2 \<or> i mod 4 = 2 \<and> j mod 4 = 0 then 4 else 5)"

definition normAdjust8x8 :: "nat \<Rightarrow> nat \<Rightarrow> nat \<Rightarrow> nat" where
  "normAdjust8x8 m i j =
     [[20, 18, 32, 19, 25, 24], [22, 19, 35, 21, 28, 26], [26, 23, 42, 24, 33, 31],
      [28, 25, 45, 26, 35, 33], [32, 28, 51, 30, 40, 38], [36, 32, 58, 34, 46, 43]] ! m ! pos_class8 i j"

lemma coeff4_norm:
  "list_all (\<lambda>m. list_all (\<lambda>x. let k = (x AND 1) + (drop_bit 2 x AND 1)
       in m < length h264Dequant4CoeffInit \<and> k < length (h264Dequant4CoeffInit ! m)
          \<and> unat (h264Dequant4CoeffInit ! m ! k) = normAdjust4x4 m (x div 4) (x mod 4)
          \<and> normAdjust4x4 m (x div 4) (x mod 4) \<le> 29
          \<and> dequant4_dst x = 4 * (x mod 4) + x div 4) [0..<16]) [0..<6]"
  by code_simp

lemma class8:
  "list_all (\<lambda>x. let a = (drop_bit 1 x AND 12) OR (x AND 3)
       in a < length h264Dequant8CoeffInitScan
          \<and> unat (h264Dequant8CoeffInitScan ! a) = pos_class8 (x div 8) (x mod 8)
          \<and> pos_class8 (x div 8) (x mod 8) < 6
          \<and> dequant8_dst x = 8 * (x mod 8) + x div 8) [0..<64]"
  by code_simp

lemma coeff8_norm:
  "list_all (\<lambda>m. m < length h264Dequant8CoeffInit \<and> length (h264Dequant8CoeffInit ! m) = 6 \<and> list_all (\<lambda>k.
       unat (h264Dequant8CoeffInit ! m ! k) = 
     [[20, 18, 32, 19, 25, 24], [22, 19, 35, 21, 28, 26], [26, 23, 42, 24, 33, 31],
      [28, 25, 45, 26, 35, 33], [32, 28, 51, 30, 40, 38], [36, 32, 58, 34, 46, 43]] ! m ! k
     \<and> unat (h264Dequant8CoeffInit ! m ! k) \<le> 58) [0..<6]) [0..<6]"
  by code_simp

lemma list_all_uptD: "list_all P [0..<n] \<Longrightarrow> i < n \<Longrightarrow> P i"
  by (simp add: list_all_iff)

lemma quant6:
  assumes "q < 88"
  shows "q < length h264QuantDiv6" "q < length h264QuantRem6"
    "unat (h264QuantDiv6 ! q) = q div 6" "unat (h264QuantRem6 ! q) = q mod 6"
  using assms quant_tables list_all_uptD [of _ 88 q] by auto

lemma unat_scaled:
  assumes "unat (c :: u8) * unat (s :: u8) * 2 ^ k < 2 ^ 32"
  shows "unat (push_bit k (ucast c * ucast s) :: u32) = unat c * unat s * 2 ^ k"
proof -
  have "(ucast c :: u32) = word_of_nat (unat c)" "(ucast s :: u32) = word_of_nat (unat s)"
    by (simp_all add: of_nat_unat)
  then have "(push_bit k (ucast c * ucast s) :: u32) = word_of_nat (unat c * unat s * 2 ^ k)"
    by (simp add: push_bit_eq_mult)
  then show ?thesis using assms by (simp only: unat_of_nat) simp
qed

lemma scaled_bound:
  assumes "a \<le> c" "b \<le> 255" "q < 88" "c * 255 * 2 ^ (14 + k) < 2 ^ 32"
  shows "a * b * 2 ^ (q div 6 + k) < (2 :: nat) ^ 32"
proof -
  have "q div 6 + k \<le> 14 + k" using assms(3) by simp
  then have "(2::nat) ^ (q div 6 + k) \<le> 2 ^ (14 + k)" by (rule power_increasing) simp
  then have "a * b * 2 ^ (q div 6 + k) \<le> c * 255 * 2 ^ (14 + k)"
    using assms(1,2) by (intro mult_le_mono) auto
  then show ?thesis using assms(4) by (rule le_less_trans)
qed

lemma u8_le: "unat (w :: u8) \<le> 255"
  using unsigned_less [of w, where 'a = nat] by simp

lemma dequant4_value_norm:
  assumes "length scaling = 16" "q < 88" "x < 16"
  shows "\<exists>v. dequant4_value scaling q x = Inr v
    \<and> unat v = normAdjust4x4 (q mod 6) (x div 4) (x mod 4) * unat (scaling ! x) * 2 ^ (q div 6 + 2)"
proof -
  define k where "k = (x AND 1) + (drop_bit 2 x AND 1)"
  have n: "q mod 6 < length h264Dequant4CoeffInit" "k < length (h264Dequant4CoeffInit ! (q mod 6))"
    "unat (h264Dequant4CoeffInit ! (q mod 6) ! k) = normAdjust4x4 (q mod 6) (x div 4) (x mod 4)"
    "normAdjust4x4 (q mod 6) (x div 4) (x mod 4) \<le> 29"
    using list_all_uptD [OF list_all_uptD [OF coeff4_norm, of "q mod 6"] assms(3)]
    by (simp_all only: k_def Let_def mod_less_divisor)
  have "unat (h264Dequant4CoeffInit ! (q mod 6) ! k) * unat (scaling ! x) * 2 ^ (q div 6 + 2) < 2 ^ 32"
    by (rule scaled_bound [where c = 29]) (use n(3,4) assms u8_le in auto)
  from unat_scaled [OF this] show ?thesis
    using n assms quant6 [OF assms(2)] by (simp only: dequant4_value_def k_def [symmetric] idx_simps rbind_simps) simp
qed

lemma dequant8_value_norm:
  assumes "length scaling = 64" "q < 88" "x < 64"
  shows "\<exists>v. dequant8_value scaling q x = Inr v
    \<and> unat v = normAdjust8x8 (q mod 6) (x div 8) (x mod 8) * unat (scaling ! x) * 2 ^ (q div 6)"
proof -
  define a where "a = (drop_bit 1 x AND 12) OR (x AND 3)"
  have a: "a < length h264Dequant8CoeffInitScan"
    "unat (h264Dequant8CoeffInitScan ! a) = pos_class8 (x div 8) (x mod 8)" "pos_class8 (x div 8) (x mod 8) < 6"
    using list_all_uptD [OF class8 assms(3)] by (simp_all add: a_def Let_def)
  note m = list_all_uptD [OF coeff8_norm, of "q mod 6", simplified]
  let ?c = "h264Dequant8CoeffInit ! (q mod 6) ! pos_class8 (x div 8) (x mod 8)"
  have c: "unat ?c = normAdjust8x8 (q mod 6) (x div 8) (x mod 8)" "unat ?c \<le> 58"
    using list_all_uptD [OF m [THEN conjunct2, THEN conjunct2] a(3)] by (simp_all add: normAdjust8x8_def)
  have "unat ?c * unat (scaling ! x) * 2 ^ (q div 6 + 0) < 2 ^ 32"
    by (rule scaled_bound [where c = 58]) (use c assms u8_le in auto)
  from unat_scaled [OF this] show ?thesis
    using m a c(1) assms quant6 [OF assms(2)]
    by (simp only: dequant8_value_def a_def [symmetric] idx_simps rbind_simps) simp
qed

text \<open>A table of six blocks of 88 rows of \<open>n\<close> entries, and the rows one loop nest has filled.\<close>

definition table_shape :: "nat \<Rightarrow> 'a list list list \<Rightarrow> bool" where
  "table_shape n t \<longleftrightarrow> length t = 6 \<and> list_all (\<lambda>m. length m = 88 \<and> list_all (\<lambda>r. length r = n) m) t"

lemma table_shape_nth:
  "table_shape n t \<longleftrightarrow> length t = 6 \<and> (\<forall>i < 6. length (t ! i) = 88 \<and> (\<forall>q < 88. length (t ! i ! q) = n))"
  by (auto simp: table_shape_def list_all_length)

lemma transposed_inj:
  fixes dst :: "nat \<Rightarrow> nat"
  assumes "\<And>x. x < n * n \<Longrightarrow> dst x = n * (x mod n) + x div n"
  shows "inj_on dst {0..<n * n}" "\<And>x. x < n * n \<Longrightarrow> dst x < n * n"
proof -
  have "0 < n" if "x < n * n" for x :: nat
    using that by (metis gr0I mult_0 not_less0)
  then have d: "x mod n < n" "x div n < n" if "x < n * n" for x
    using that by (blast intro: mod_less_divisor) (rule less_mult_imp_div_less [OF that])
  have inv: "n * (dst x mod n) + dst x div n = x" if "x < n * n" for x
    using assms [OF that] d [OF that] by simp
  then show "inj_on dst {0..<n * n}"
    by (intro inj_on_inverseI [where g = "\<lambda>y. n * (y mod n) + y div n"]) simp
  show "dst x < n * n" if x: "x < n * n" for x
  proof -
    have "n * (x mod n) + x div n < n * (x mod n) + n" using d(2) [OF x] by simp
    also have "\<dots> = n * (x mod n + 1)" by simp
    also have "\<dots> \<le> n * n" using d(1) [OF x] by (intro mult_le_mono) auto
    finally show ?thesis using assms [OF x] by simp
  qed
qed

lemma fill_row:
  assumes "length row = n * n" "\<And>x. x < n * n \<Longrightarrow> dst x = n * (x mod n) + x div n"
    and "\<And>x. x < n * n \<Longrightarrow> \<exists>v. val x = Inr v \<and> unat v = (f x :: nat)"
  shows "\<exists>row'. store_each [0..<n * n] dst val row = Inr row' \<and> length row' = n * n
    \<and> (\<forall>x < n * n. unat (row' ! (n * (x mod n) + x div n) :: u32) = f x)"
proof -
  obtain g where g: "\<And>x. x < n * n \<Longrightarrow> val x = Inr (g x) \<and> unat (g x) = f x"
    using assms(3) by metis
  obtain row' where "store_each [0..<n * n] dst val row = Inr row'" "length row' = length row"
    "\<And>x. x < n * n \<Longrightarrow> row' ! dst x = g x"
    using store_each_upt [of dst "n * n" row val g] transposed_inj [of n dst] assms(1,2) g by metis
  then show ?thesis using assms g by auto
qed

lemma fill_tables:
  assumes "table_shape (n * n) t" "length sm = 6" "maxqp < 88"
    and "\<And>i q row. i < 6 \<Longrightarrow> q < 88 \<Longrightarrow> length row = n * n \<Longrightarrow> \<exists>row'. body (sm ! i) q row = Inr row'
       \<and> length row' = n * n \<and> P i q row'"
  shows "\<exists>t'. update_each [0..<6] (\<lambda>i m. rbind (idx sm i) (\<lambda>scaling. update_each [0..<Suc maxqp] (body scaling) m)) t = Inr t'
    \<and> table_shape (n * n) t' \<and> (\<forall>i < 6. \<forall>q < 88. if q \<le> maxqp then P i q (t' ! i ! q) else t' ! i ! q = t ! i ! q)"
proof -
  define B where "B i m = rbind (idx sm i) (\<lambda>scaling. update_each [0..<Suc maxqp] (body scaling) m)" for i m
  have row: "\<exists>m'. B i (t ! i) = Inr m'
      \<and> length m' = 88 \<and> (\<forall>q < 88. length (m' ! q) = n * n
        \<and> (if q \<le> maxqp then P i q (m' ! q) else m' ! q = t ! i ! q))" if i: "i < 6" for i
  proof -
    have l: "length (t ! i) = 88" "\<And>q. q < 88 \<Longrightarrow> length (t ! i ! q) = n * n"
      using assms(1) i by (auto simp: table_shape_nth)
    have "Suc maxqp \<le> length (t ! i)" using assms(3) l(1) by simp
    then obtain m' where m': "update_each [0..<Suc maxqp] (body (sm ! i)) (t ! i) = Inr m'" "length m' = length (t ! i)"
      "\<And>q. q < Suc maxqp \<Longrightarrow> length (m' ! q) = n * n \<and> P i q (m' ! q)"
      "\<And>q. Suc maxqp \<le> q \<Longrightarrow> q < length (t ! i) \<Longrightarrow> m' ! q = t ! i ! q"
      by (rule update_each_rel [where P = "\<lambda>q r. length r = n * n \<and> P i q r"])
         (use assms(3,4) i l in auto)
    then show ?thesis using i l assms(2) by (auto simp: B_def not_le Suc_le_eq simp del: upt_Suc)
  qed
  have "6 \<le> length t" using assms(1) by (simp add: table_shape_nth)
  then obtain t' where "update_each [0..<6] B t = Inr t'" "length t' = length t"
    "\<And>i. i < 6 \<Longrightarrow> length (t' ! i) = 88 \<and> (\<forall>q < 88. length (t' ! i ! q) = n * n
        \<and> (if q \<le> maxqp then P i q (t' ! i ! q) else t' ! i ! q = t ! i ! q))"
    by (rule update_each_rel [where P = "\<lambda>i m. length m = 88 \<and> (\<forall>q < 88. length (m ! q) = n * n
        \<and> (if q \<le> maxqp then P i q (m ! q) else m ! q = t ! i ! q))"]) (erule row | rule that; assumption)+
  then show ?thesis using assms(1) by (auto simp: table_shape_nth B_def [abs_def])
qed

lemma initDequant4_norm:
  assumes "table_shape 16 d4" "nonzero_matrix 16 sm" "8 \<le> depth" "depth \<le> 14"
  shows "\<exists>t. initDequant4CoeffTable depth sm d4 = Inr t \<and> table_shape 16 t
    \<and> (\<forall>i < 6. \<forall>q < 88. if q \<le> nat (max_qp depth)
        then \<forall>x < 16. unat (t ! i ! q ! (4 * (x mod 4) + x div 4))
               = normAdjust4x4 (q mod 6) (x div 4) (x mod 4) * unat (sm ! i ! x) * 2 ^ (q div 6 + 2)
        else t ! i ! q = d4 ! i ! q)"
proof -
  have mq: "nat (max_qp depth + 1) = Suc (nat (max_qp depth))" "nat (max_qp depth) < 88"
    using assms(3,4) by (simp_all add: max_qp_def nat_add_distrib)
  have dst: "dequant4_dst x = 4 * (x mod 4) + x div 4" if "x < 4 * 4" for x
    using list_all_uptD [OF list_all_uptD [OF coeff4_norm, of 0], of x] that by (simp add: Let_def)
  have sm: "length sm = 6" "\<And>i. i < 6 \<Longrightarrow> length (sm ! i) = 16"
    using assms(2) by (auto simp: nonzero_matrix_good good_list_def)
  show ?thesis
    unfolding initDequant4CoeffTable_def mq(1)
    using fill_tables [where n = 4 and t = d4 and sm = sm and maxqp = "nat (max_qp depth)"
        and body = "\<lambda>scaling q. store_each [0..<16] dequant4_dst (dequant4_value scaling q)"
        and P = "\<lambda>i q row. \<forall>x < 16. unat (row ! (4 * (x mod 4) + x div 4))
               = normAdjust4x4 (q mod 6) (x div 4) (x mod 4) * unat (sm ! i ! x) * 2 ^ (q div 6 + 2)"]
      fill_row [where n = 4 and dst = dequant4_dst, OF _ dst] dequant4_value_norm assms(1) sm mq(2) by simp
qed

lemma initDequant8_norm:
  assumes "table_shape 64 d8" "nonzero_matrix 64 sm" "8 \<le> depth" "depth \<le> 14"
  shows "\<exists>t. initDequant8CoeffTable depth sm d8 = Inr t \<and> table_shape 64 t
    \<and> (\<forall>i < 6. \<forall>q < 88. if q \<le> nat (max_qp depth)
        then \<forall>x < 64. unat (t ! i ! q ! (8 * (x mod 8) + x div 8))
               = normAdjust8x8 (q mod 6) (x div 8) (x mod 8) * unat (sm ! i ! x) * 2 ^ (q div 6)
        else t ! i ! q = d8 ! i ! q)"
proof -
  have mq: "nat (max_qp depth + 1) = Suc (nat (max_qp depth))" "nat (max_qp depth) < 88"
    using assms(3,4) by (simp_all add: max_qp_def nat_add_distrib)
  have dst: "dequant8_dst x = 8 * (x mod 8) + x div 8" if "x < 8 * 8" for x
    using list_all_uptD [OF class8, of x] that by (simp add: Let_def)
  have sm: "length sm = 6" "\<And>i. i < 6 \<Longrightarrow> length (sm ! i) = 64"
    using assms(2) by (auto simp: nonzero_matrix_good good_list_def)
  show ?thesis
    unfolding initDequant8CoeffTable_def mq(1)
    using fill_tables [where n = 8 and t = d8 and sm = sm and maxqp = "nat (max_qp depth)"
        and body = "\<lambda>scaling q. store_each [0..<64] dequant8_dst (dequant8_value scaling q)"
        and P = "\<lambda>i q row. \<forall>x < 64. unat (row ! (8 * (x mod 8) + x div 8))
               = normAdjust8x8 (q mod 6) (x div 8) (x mod 8) * unat (sm ! i ! x) * 2 ^ (q div 6)"]
      fill_row [where n = 8 and dst = dequant8_dst, OF _ dst] dequant8_value_norm assms(1) sm mq(2) by simp
qed

section \<open>What an admitted parameter set satisfies\<close>

definition pps_shape :: "PPS \<Rightarrow> bool" where
  "pps_shape p \<longleftrightarrow> length (pps_RefCount p) = 2 \<and> length (pps_ChromaQPIndexOffset p) = 2
     \<and> length (pps_ChromaQPTable p) = 2 \<and> list_all (\<lambda>r. length r = 88) (pps_ChromaQPTable p)
     \<and> table_shape 16 (pps_Dequant4Buffer p) \<and> table_shape 64 (pps_Dequant8Buffer p)"

definition pps_ids_ok :: "SPS \<Rightarrow> PPS \<Rightarrow> bool" where
  "pps_ids_ok sps p \<longleftrightarrow> unat (pps_PPSID p) < 256 \<and> unat (pps_SPSID p) < 32 \<and> pps_SPS p = Some sps
     \<and> sps_ok sps \<and> sps_BitDepthLuma sps \<in> {8, 9, 10, 12, 14}
     \<and> nonzero_matrix 16 (pps_ScalingMatrix4 p) \<and> nonzero_matrix 64 (pps_ScalingMatrix8 p)"

definition pps_refs_ok :: "PPS \<Rightarrow> bool" where
  "pps_refs_ok p \<longleftrightarrow> pps_SliceGroupCount p \<le> 1
     \<and> list_all (\<lambda>c. 1 \<le> unat c \<and> unat c \<le> 32) (pps_RefCount p)"

definition pps_offset_ok :: "int \<Rightarrow> bool" where
  "pps_offset_ok v \<longleftrightarrow> -12 \<le> v \<and> v \<le> 12"

text \<open>The tables that the decoder indexes with a quantiser parameter.\<close>

definition pps_qp_ok :: "SPS \<Rightarrow> PPS \<Rightarrow> bool" where
  "pps_qp_ok sps p \<longleftrightarrow> list_all pps_offset_ok (pps_ChromaQPIndexOffset p)
     \<and> pps_ChromaQPDiff p = (if pps_ChromaQPIndexOffset p ! 0 = pps_ChromaQPIndexOffset p ! 1 then 0 else 1)
     \<and> list_all (\<lambda>r. list_all (\<lambda>c. int (unat c) \<le> 39 + 6 * (sps_BitDepthLuma sps - 8))
          (take (nat (max_qp (sps_BitDepthLuma sps) + 1)) r)) (pps_ChromaQPTable p)"

definition pps_ok :: "PPS \<Rightarrow> bool" where
  "pps_ok p \<longleftrightarrow> pps_shape p \<and> pps_refs_ok p \<and> unat (pps_WeightedBipredIDC p) < 4
     \<and> (case pps_SPS p of None \<Rightarrow> False | Some sps \<Rightarrow> pps_ids_ok sps p \<and> pps_qp_ok sps p)"

section \<open>The chroma QP table and the lossless rows\<close>

lemma buildQPTable_ok:
  assumes "length row = 88" "8 \<le> depth" "depth \<le> 14"
  shows "\<exists>row'. buildQPTable off depth row = Inr row' \<and> length row' = 88
    \<and> (\<forall>i \<le> nat (max_qp depth). h264ChromaQP depth (u32_of (clipInt32 (int i + off) 0 (max_qp depth))) = Inr (row' ! i)
         \<and> int (unat (row' ! i)) \<le> 39 + 6 * (depth - 8))"
proof -
  have mq: "nat (max_qp depth + 1) = Suc (nat (max_qp depth))" "nat (max_qp depth) < 88" "0 \<le> max_qp depth"
    using assms(2,3) by (simp_all add: max_qp_def nat_add_distrib)
  have "\<exists>v. h264ChromaQP depth (u32_of (clipInt32 (int i + off) 0 (max_qp depth))) = Inr v
      \<and> int (unat v) \<le> 39 + 6 * (depth - 8)" for i
    using h264ChromaQP_ok [OF assms(2,3), of "clipInt32 (int i + off) 0 (max_qp depth)"] mq(3)
    by (auto simp: u32_of_def clipInt32_def max_qp_def)
  then obtain f where f: "\<And>i. h264ChromaQP depth (u32_of (clipInt32 (int i + off) 0 (max_qp depth))) = Inr (f i)
      \<and> int (unat (f i)) \<le> 39 + 6 * (depth - 8)" by metis
  obtain row' where "buildQPTable off depth row = Inr row'" "length row' = length row"
    "\<And>i. i < Suc (nat (max_qp depth)) \<Longrightarrow> row' ! i = f i"
    unfolding buildQPTable_def mq(1)
    by (rule store_each_upt [of "\<lambda>i. i" "Suc (nat (max_qp depth))" row _ f]) (use assms mq f in auto)
  then show ?thesis using f assms(1) by auto
qed

lemma bypass_rows_ok:
  assumes "table_shape n t"
  shows "\<exists>t'. bypass_rows n t = Inr t' \<and> table_shape n t'
    \<and> (\<forall>i < 6. \<forall>q < 88. if q = 0 then \<forall>x < n. t' ! i ! q ! x = 64 else t' ! i ! q = t ! i ! q)"
proof -
  define B where "B m = update_each [0] (\<lambda>_ row. store_each [0..<n] (\<lambda>x. x) (\<lambda>_. Inr (push_bit 6 1)) row) m"
    for m :: "u32 list list"
  have row: "\<exists>m'. B (t ! i) = Inr m' \<and> length m' = 88 \<and> (\<forall>q < 88. length (m' ! q) = n
       \<and> (if q = 0 then \<forall>x < n. m' ! q ! x = 64 else m' ! q = t ! i ! q))" if "i < 6" for i
  proof -
    have l: "length (t ! i) = 88" "\<And>q. q < 88 \<Longrightarrow> length (t ! i ! q) = n"
      using assms that by (auto simp: table_shape_nth)
    obtain r where "store_each [0..<n] (\<lambda>x. x) (\<lambda>_. Inr (push_bit 6 1)) (t ! i ! 0) = Inr r"
      "length r = n" "\<And>x. x < n \<Longrightarrow> r ! x = (push_bit 6 1 :: u32)"
      by (rule store_each_upt [of "\<lambda>x. x" n "t ! i ! 0" _ "\<lambda>_. push_bit 6 1"]) (use l in auto)
    then show ?thesis using l by (auto simp: B_def nth_list_update)
  qed
  have "6 \<le> length t" using assms by (simp add: table_shape_nth)
  then obtain t' where "update_each [0..<6] (\<lambda>_. B) t = Inr t'" "length t' = length t"
    "\<And>i. i < 6 \<Longrightarrow> length (t' ! i) = 88 \<and> (\<forall>q < 88. length (t' ! i ! q) = n
       \<and> (if q = 0 then \<forall>x < n. t' ! i ! q ! x = 64 else t' ! i ! q = t ! i ! q))"
    by (rule update_each_rel [where P = "\<lambda>i m'. length m' = 88 \<and> (\<forall>q < 88. length (m' ! q) = n
       \<and> (if q = 0 then \<forall>x < n. m' ! q ! x = 64 else m' ! q = t ! i ! q))"]) (erule row | rule that; assumption)+
  then show ?thesis using assms by (auto simp: table_shape_nth B_def [abs_def] bypass_rows_def)
qed

lemma bypass_if:
  assumes "table_shape n t"
  obtains t' where "(if b then bypass_rows n t else Inr t) = Inr t'" "table_shape n t'"
    "\<And>i q. i < 6 \<Longrightarrow> q < 88 \<Longrightarrow> if b \<and> q = 0 then \<forall>x < n. t' ! i ! q ! x = 64 else t' ! i ! q = t ! i ! q"
proof (cases b)
  case True
  then show ?thesis using bypass_rows_ok [OF assms] that by force
next
  case False
  then show ?thesis using assms that by simp
qed

text \<open>
  The value an entry of a dequantisation table is to have: the standard's level scale, shifted; in
  the lossless mode, 64 for the quantiser parameter zero.
\<close>

definition level_scale4 :: "SPS \<Rightarrow> u8 list \<Rightarrow> nat \<Rightarrow> nat \<Rightarrow> nat \<Rightarrow> nat" where
  "level_scale4 sps sm q i j =
     (if sps_TransformBypass sps \<noteq> 0 \<and> q = 0 then 64
      else normAdjust4x4 (q mod 6) i j * unat (sm ! (4 * i + j)) * 2 ^ (q div 6 + 2))"

definition level_scale8 :: "SPS \<Rightarrow> u8 list \<Rightarrow> nat \<Rightarrow> nat \<Rightarrow> nat \<Rightarrow> nat" where
  "level_scale8 sps sm q i j =
     (if sps_TransformBypass sps \<noteq> 0 \<and> q = 0 then 64
      else normAdjust8x8 (q mod 6) i j * unat (sm ! (8 * i + j)) * 2 ^ (q div 6))"

lemma initDequantTables_ok:
  assumes "table_shape 16 (pps_Dequant4Buffer p)" "table_shape 64 (pps_Dequant8Buffer p)"
    "nonzero_matrix 16 (pps_ScalingMatrix4 p)" "nonzero_matrix 64 (pps_ScalingMatrix8 p)"
    "8 \<le> sps_BitDepthLuma sps" "sps_BitDepthLuma sps \<le> 14"
  shows "\<exists>d4 d8. initDequantTables p sps = Inr (p\<lparr>pps_Dequant4Buffer := d4, pps_Dequant8Buffer := d8\<rparr>)
    \<and> table_shape 16 d4 \<and> table_shape 64 d8
    \<and> (\<forall>m < 6. \<forall>q \<le> nat (max_qp (sps_BitDepthLuma sps)). \<forall>i < 4. \<forall>j < 4.
         unat (d4 ! m ! q ! (4 * j + i)) = level_scale4 sps (pps_ScalingMatrix4 p ! m) q i j)
    \<and> (if pps_Transform8x8Mode p = 0 then d8 = pps_Dequant8Buffer p
       else \<forall>m < 6. \<forall>q \<le> nat (max_qp (sps_BitDepthLuma sps)). \<forall>i < 8. \<forall>j < 8.
         unat (d8 ! m ! q ! (8 * j + i)) = level_scale8 sps (pps_ScalingMatrix8 p ! m) q i j)"
proof -
  let ?d = "sps_BitDepthLuma sps"
  have mq: "nat (max_qp ?d) < 88" using assms(5,6) by (simp add: max_qp_def)
  obtain t4 where t4: "initDequant4CoeffTable ?d (pps_ScalingMatrix4 p) (pps_Dequant4Buffer p) = Inr t4" "table_shape 16 t4"
    and v4: "\<And>m q x. m < 6 \<Longrightarrow> q \<le> nat (max_qp ?d) \<Longrightarrow> x < 16 \<Longrightarrow> unat (t4 ! m ! q ! (4 * (x mod 4) + x div 4))
      = normAdjust4x4 (q mod 6) (x div 4) (x mod 4) * unat (pps_ScalingMatrix4 p ! m ! x) * 2 ^ (q div 6 + 2)"
    using initDequant4_norm [OF assms(1,3,5,6)] mq by (auto split: if_splits)
  obtain t8 where t8: "initDequant8CoeffTable ?d (pps_ScalingMatrix8 p) (pps_Dequant8Buffer p) = Inr t8" "table_shape 64 t8"
    and v8: "\<And>m q x. m < 6 \<Longrightarrow> q \<le> nat (max_qp ?d) \<Longrightarrow> x < 64 \<Longrightarrow> unat (t8 ! m ! q ! (8 * (x mod 8) + x div 8))
      = normAdjust8x8 (q mod 6) (x div 8) (x mod 8) * unat (pps_ScalingMatrix8 p ! m ! x) * 2 ^ (q div 6)"
    using initDequant8_norm [OF assms(2,4,5,6)] mq by (auto split: if_splits)
  define b where "b \<longleftrightarrow> sps_TransformBypass sps \<noteq> 0"
  obtain d4 where d4: "(if b then bypass_rows 16 t4 else Inr t4) = Inr d4" "table_shape 16 d4"
    "\<And>i q. i < 6 \<Longrightarrow> q < 88 \<Longrightarrow> if b \<and> q = 0 then \<forall>x < 16. d4 ! i ! q ! x = 64 else d4 ! i ! q = t4 ! i ! q"
    by (rule bypass_if [OF t4(2), of b]) (rule that; assumption)
  have w4: "unat (d4 ! m ! q ! (4 * j + i)) = level_scale4 sps (pps_ScalingMatrix4 p ! m) q i j"
    if "m < 6" "q \<le> nat (max_qp ?d)" "i < 4" "j < 4" for m q i j
    using that mq d4(3) [of m q] v4 [of m q "4 * i + j"] by (auto simp: level_scale4_def b_def split: if_splits)
  define u8s where "u8s = (if pps_Transform8x8Mode p \<noteq> 0 then t8 else pps_Dequant8Buffer p)"
  define c where "c \<longleftrightarrow> b \<and> pps_Transform8x8Mode p \<noteq> 0"
  have u8: "table_shape 64 u8s" using t8(2) assms(2) by (simp add: u8s_def)
  obtain d8 where d8: "(if c then bypass_rows 64 u8s else Inr u8s) = Inr d8" "table_shape 64 d8"
    "\<And>i q. i < 6 \<Longrightarrow> q < 88 \<Longrightarrow> if c \<and> q = 0 then \<forall>x < 64. d8 ! i ! q ! x = 64 else d8 ! i ! q = u8s ! i ! q"
    by (rule bypass_if [OF u8, of c]) (rule that; assumption)
  have w8: "unat (d8 ! m ! q ! (8 * j + i)) = level_scale8 sps (pps_ScalingMatrix8 p ! m) q i j"
    if "m < 6" "q \<le> nat (max_qp ?d)" "i < 8" "j < 8" "pps_Transform8x8Mode p \<noteq> 0" for m q i j
    using that mq d8(3) [of m q] v8 [of m q "8 * i + j"]
    by (auto simp: level_scale8_def b_def c_def u8s_def split: if_splits)
  have k8: "d8 = pps_Dequant8Buffer p" if "pps_Transform8x8Mode p = 0"
    using that d8(1) by (simp add: c_def u8s_def)
  have e8: "(if pps_Transform8x8Mode p \<noteq> 0
      then initDequant8CoeffTable ?d (pps_ScalingMatrix8 p) (pps_Dequant8Buffer p)
      else Inr (pps_Dequant8Buffer p)) = Inr u8s"
    by (simp add: u8s_def t8(1))
  have "initDequantTables p sps = Inr (p\<lparr>pps_Dequant4Buffer := d4, pps_Dequant8Buffer := d8\<rparr>)"
    by (simp only: initDequantTables_def b_def [symmetric] c_def [symmetric] t4(1) e8 d4(1) d8(1) rbind_simps)
  moreover have "\<forall>m < 6. \<forall>q \<le> nat (max_qp ?d). \<forall>i < 4. \<forall>j < 4.
      unat (d4 ! m ! q ! (4 * j + i)) = level_scale4 sps (pps_ScalingMatrix4 p ! m) q i j"
    using w4 by blast
  moreover have "if pps_Transform8x8Mode p = 0 then d8 = pps_Dequant8Buffer p
      else \<forall>m < 6. \<forall>q \<le> nat (max_qp ?d). \<forall>i < 8. \<forall>j < 8.
        unat (d8 ! m ! q ! (8 * j + i)) = level_scale8 sps (pps_ScalingMatrix8 p ! m) q i j"
    using w8 k8 by (simp only: if_bool_eq_conj) blast
  ultimately show ?thesis using d4(2) d8(2) by blast
qed

section \<open>The parser keeps to it\<close>

lemma wf_reader_pps [simp]: "wf_reader (s\<lparr>pr_pps := x\<rparr>) = wf_reader s"
  by (simp add: wf_reader_def)

lemma bitsLeft_pps [simp]: "bitsLeft (s\<lparr>pr_pps := x\<rparr>) = bitsLeft s"
  by (simp add: bitsLeft_def)

lemma pp_op:
  fixes m :: "'a pp"
  assumes "reader_op m R" "wf_reader s"
    and "\<And>v s'. R v \<Longrightarrow> wf_reader s' \<Longrightarrow> pr_pps s' = pr_pps s \<Longrightarrow> Q v s'"
    and "\<And>s'. wf_reader s' \<Longrightarrow> pr_pps s' = pr_pps s \<Longrightarrow> E ErrInvalidData s'"
  shows "wp m Q E s"
  using assms(2) by (rule reader_op.wp_op [OF assms(1)]) (auto intro: assms(3,4))

lemmas pp_ops =
  pp_op [OF readBit_flag] pp_op [OF readBits_contract]
  pp_op [OF readUEGolombLong.reader_op_axioms] pp_op [OF readUEGolomb31.reader_op_axioms]
  pp_op [OF readSEGolombLong.reader_op_axioms]

text \<open>Each part of the invariant is untouched by the updates of the fields it does not read.\<close>

lemma pps_shape_frame [simp]:
  "pps_shape (pps_PPSID_update f0 p) = pps_shape p"
  "pps_shape (pps_SPSID_update f1 p) = pps_shape p"
  "pps_shape (pps_SPS_update f2 p) = pps_shape p"
  "pps_shape (pps_CABAC_update f3 p) = pps_shape p"
  "pps_shape (pps_PicOrderPresent_update f4 p) = pps_shape p"
  "pps_shape (pps_SliceGroupCount_update f5 p) = pps_shape p"
  "pps_shape (pps_MBSliceGroupMapType_update f6 p) = pps_shape p"
  "pps_shape (pps_WeightedPred_update f7 p) = pps_shape p"
  "pps_shape (pps_WeightedBipredIDC_update f8 p) = pps_shape p"
  "pps_shape (pps_InitQP_update f9 p) = pps_shape p"
  "pps_shape (pps_InitQS_update f10 p) = pps_shape p"
  "pps_shape (pps_DeblockingFilterParametersPresent_update f11 p) = pps_shape p"
  "pps_shape (pps_ConstrainedIntraPred_update f12 p) = pps_shape p"
  "pps_shape (pps_RedundantPicCntPresent_update f13 p) = pps_shape p"
  "pps_shape (pps_Transform8x8Mode_update f14 p) = pps_shape p"
  "pps_shape (pps_PicScalingMatrixPresentFlag_update f15 p) = pps_shape p"
  "pps_shape (pps_PicScalingMatrixPresentMask_update f16 p) = pps_shape p"
  "pps_shape (pps_ScalingMatrix4_update f17 p) = pps_shape p"
  "pps_shape (pps_ScalingMatrix8_update f18 p) = pps_shape p"
  "pps_shape (pps_ChromaQPDiff_update f19 p) = pps_shape p"
  by (simp_all add: pps_shape_def)

lemma pps_ids_ok_frame [simp]:
  "pps_ids_ok sps (pps_CABAC_update f0 p) = pps_ids_ok sps p"
  "pps_ids_ok sps (pps_PicOrderPresent_update f1 p) = pps_ids_ok sps p"
  "pps_ids_ok sps (pps_SliceGroupCount_update f2 p) = pps_ids_ok sps p"
  "pps_ids_ok sps (pps_MBSliceGroupMapType_update f3 p) = pps_ids_ok sps p"
  "pps_ids_ok sps (pps_RefCount_update f4 p) = pps_ids_ok sps p"
  "pps_ids_ok sps (pps_WeightedPred_update f5 p) = pps_ids_ok sps p"
  "pps_ids_ok sps (pps_WeightedBipredIDC_update f6 p) = pps_ids_ok sps p"
  "pps_ids_ok sps (pps_InitQP_update f7 p) = pps_ids_ok sps p"
  "pps_ids_ok sps (pps_InitQS_update f8 p) = pps_ids_ok sps p"
  "pps_ids_ok sps (pps_ChromaQPIndexOffset_update f9 p) = pps_ids_ok sps p"
  "pps_ids_ok sps (pps_DeblockingFilterParametersPresent_update f10 p) = pps_ids_ok sps p"
  "pps_ids_ok sps (pps_ConstrainedIntraPred_update f11 p) = pps_ids_ok sps p"
  "pps_ids_ok sps (pps_RedundantPicCntPresent_update f12 p) = pps_ids_ok sps p"
  "pps_ids_ok sps (pps_Transform8x8Mode_update f13 p) = pps_ids_ok sps p"
  "pps_ids_ok sps (pps_PicScalingMatrixPresentFlag_update f14 p) = pps_ids_ok sps p"
  "pps_ids_ok sps (pps_PicScalingMatrixPresentMask_update f15 p) = pps_ids_ok sps p"
  "pps_ids_ok sps (pps_ChromaQPTable_update f16 p) = pps_ids_ok sps p"
  "pps_ids_ok sps (pps_ChromaQPDiff_update f17 p) = pps_ids_ok sps p"
  "pps_ids_ok sps (pps_Dequant4Buffer_update f18 p) = pps_ids_ok sps p"
  "pps_ids_ok sps (pps_Dequant8Buffer_update f19 p) = pps_ids_ok sps p"
  by (simp_all add: pps_ids_ok_def)

lemma pps_refs_ok_frame [simp]:
  "pps_refs_ok (pps_PPSID_update f0 p) = pps_refs_ok p"
  "pps_refs_ok (pps_SPSID_update f1 p) = pps_refs_ok p"
  "pps_refs_ok (pps_SPS_update f2 p) = pps_refs_ok p"
  "pps_refs_ok (pps_CABAC_update f3 p) = pps_refs_ok p"
  "pps_refs_ok (pps_PicOrderPresent_update f4 p) = pps_refs_ok p"
  "pps_refs_ok (pps_MBSliceGroupMapType_update f5 p) = pps_refs_ok p"
  "pps_refs_ok (pps_WeightedPred_update f6 p) = pps_refs_ok p"
  "pps_refs_ok (pps_WeightedBipredIDC_update f7 p) = pps_refs_ok p"
  "pps_refs_ok (pps_InitQP_update f8 p) = pps_refs_ok p"
  "pps_refs_ok (pps_InitQS_update f9 p) = pps_refs_ok p"
  "pps_refs_ok (pps_ChromaQPIndexOffset_update f10 p) = pps_refs_ok p"
  "pps_refs_ok (pps_DeblockingFilterParametersPresent_update f11 p) = pps_refs_ok p"
  "pps_refs_ok (pps_ConstrainedIntraPred_update f12 p) = pps_refs_ok p"
  "pps_refs_ok (pps_RedundantPicCntPresent_update f13 p) = pps_refs_ok p"
  "pps_refs_ok (pps_Transform8x8Mode_update f14 p) = pps_refs_ok p"
  "pps_refs_ok (pps_PicScalingMatrixPresentFlag_update f15 p) = pps_refs_ok p"
  "pps_refs_ok (pps_PicScalingMatrixPresentMask_update f16 p) = pps_refs_ok p"
  "pps_refs_ok (pps_ScalingMatrix4_update f17 p) = pps_refs_ok p"
  "pps_refs_ok (pps_ScalingMatrix8_update f18 p) = pps_refs_ok p"
  "pps_refs_ok (pps_ChromaQPTable_update f19 p) = pps_refs_ok p"
  "pps_refs_ok (pps_ChromaQPDiff_update f20 p) = pps_refs_ok p"
  "pps_refs_ok (pps_Dequant4Buffer_update f21 p) = pps_refs_ok p"
  "pps_refs_ok (pps_Dequant8Buffer_update f22 p) = pps_refs_ok p"
  by (simp_all add: pps_refs_ok_def)

lemma pps_shape_update [simp]:
  "pps_shape p \<Longrightarrow> pps_shape (pps_RefCount_update (\<lambda>_. a) p) = (length a = 2)"
  "pps_shape p \<Longrightarrow> pps_shape (pps_ChromaQPIndexOffset_update (\<lambda>_. b) p) = (length b = 2)"
  by (simp_all add: pps_shape_def)

lemma pps_shape_two:
  "pps_shape p \<Longrightarrow> length (pps_RefCount p) = 2" "pps_shape p \<Longrightarrow> length (pps_ChromaQPIndexOffset p) = 2"
  by (simp_all add: pps_shape_def)

text \<open>Two-element arrays, which the loops over the lists and planes fill one by one.\<close>

lemma list_of_two: "length xs = 2 \<Longrightarrow> xs = [xs ! 0, xs ! 1]"
  by (auto simp: numeral_2_eq_2 length_Suc_conv)

definition pps_inv1 :: "SPS \<Rightarrow> pps_parse \<Rightarrow> bool" where
  "pps_inv1 sps s \<longleftrightarrow> wf_reader s \<and> pps_shape (pr_pps s) \<and> pps_ids_ok sps (pr_pps s) \<and> pps_ChromaQPDiff (pr_pps s) = 0"

definition pps_inv2 :: "SPS \<Rightarrow> pps_parse \<Rightarrow> bool" where
  "pps_inv2 sps s \<longleftrightarrow> pps_inv1 sps s \<and> pps_refs_ok (pr_pps s)"

definition pps_inv3 :: "SPS \<Rightarrow> pps_parse \<Rightarrow> bool" where
  "pps_inv3 sps s \<longleftrightarrow> pps_inv2 sps s \<and> unat (pps_WeightedBipredIDC (pr_pps s)) < 4
     \<and> pps_offset_ok (pps_ChromaQPIndexOffset (pr_pps s) ! 0)"

lemmas pps_inv_defs = pps_inv3_def pps_inv2_def pps_inv1_def

definition sps_list_ok :: "SPS option list \<Rightarrow> bool" where
  "sps_list_ok l \<longleftrightarrow> length l = 32 \<and> list_all (\<lambda>e. case e of None \<Rightarrow> True | Some sps \<Rightarrow> sps_ok sps) l"

lemma sps_list_okD: "sps_list_ok l \<Longrightarrow> i < 32 \<Longrightarrow> l ! i = Some sps \<Longrightarrow> sps_ok sps"
  by (auto simp: sps_list_ok_def list_all_length split: option.splits)

lemma pps_start_inv: "wf_reader gb \<Longrightarrow> wf_reader (pps_start gb) \<and> pps_shape (pr_pps (pps_start gb))
    \<and> pps_ChromaQPDiff (pr_pps (pps_start gb)) = 0"
  by (simp add: pps_start_def wf_reader_def pps_init_def pps_shape_def table_shape_def list_all_iff)

lemma sps_ok_admitted:
  assumes "sps_ok sps"
  shows "nonzero_matrix 16 (sps_ScalingMatrix4 sps)" "nonzero_matrix 64 (sps_ScalingMatrix8 sps)"
    and "\<not> 14 < sps_BitDepthLuma sps \<Longrightarrow> sps_BitDepthLuma sps \<noteq> 11 \<Longrightarrow> sps_BitDepthLuma sps \<noteq> 13
      \<Longrightarrow> sps_BitDepthLuma sps \<in> {8, 9, 10, 12, 14}"
  using assms by (auto simp: sps_ok_def sps_format_ok_def sps_shape_def simp del: sps_shape_lengths)

lemma wp_case_option [wp_simps]:
  "wp (case x of None \<Rightarrow> m | Some y \<Rightarrow> f y) Q E s = (case x of None \<Rightarrow> wp m Q E s | Some y \<Rightarrow> wp (f y) Q E s)"
  by (cases x) simp_all

lemma wp_pps_ids:
  assumes "wf_reader s" "pps_shape (pr_pps s)" "pps_ChromaQPDiff (pr_pps s) = 0" "sps_list_ok l"
  shows "wp (pps_ids l) (\<lambda>sps s'. pps_inv1 sps s') np s"
proof -
  have "length l = 32" using assms(4) by (simp add: sps_list_ok_def)
  then show ?thesis
    using assms(1-3) sps_list_okD [OF assms(4)] sps_ok_admitted(3)
    by (auto simp: wp_simps pps_ids_def maxPPSCount_def not_le pps_inv1_def pps_ids_ok_def sps_ok_admitted(1,2)
        simp del: insert_iff intro!: pp_ops split: option.splits)
qed

lemma wp_pps_groups_refs:
  assumes "pps_inv1 sps s"
  shows "wp pps_groups_refs (\<lambda>_. pps_inv2 sps) np s"
proof -
  have c: "unat (w + 1) = unat w + 1" if "unat w \<le> 31" for w :: u32
    using that by (simp add: unat_word_ariths)
  have one: "wp (pps_ref_count i) (\<lambda>_ s'. pps_inv1 sps s' \<and> pps_SliceGroupCount (pr_pps s') \<le> 1
      \<and> (\<forall>j \<le> i. 1 \<le> unat (pps_RefCount (pr_pps s') ! j) \<and> unat (pps_RefCount (pr_pps s') ! j) \<le> 32)) np s"
    if "pps_inv1 sps s" "pps_SliceGroupCount (pr_pps s) \<le> 1" "i < 2"
      "\<forall>j < i. 1 \<le> unat (pps_RefCount (pr_pps s) ! j) \<and> unat (pps_RefCount (pr_pps s) ! j) \<le> 32" for s i
    using that c
    by (auto simp: wp_simps pps_ref_count_def pps_inv1_def pps_shape_two word_less_nat_alt not_less nth_list_update le_less intro!: pp_ops)
  have two: "list_all P xs" if "length xs = 2" "\<forall>j \<le> 1. P (xs ! j)" for P and xs :: "u32 list"
    using that by (subst list_of_two) auto
  have loop: "wp (forM [0, Suc 0] pps_ref_count) (\<lambda>_. pps_inv2 sps) np s"
    if "pps_inv1 sps s" "pps_SliceGroupCount (pr_pps s) \<le> 1" for s
    unfolding forM.simps wp_simps
    by (rule wp_conj_mono [OF one [of s 0] wp_conj_mono [OF one [of _ "Suc 0"]]])
       (use that in \<open>auto simp: pps_inv2_def pps_refs_ok_def pps_inv1_def pps_shape_two intro!: two\<close>)
  note l = wp_conj_mono [OF loop]
  show ?thesis
    using assms
    by (auto simp: wp_simps pps_groups_refs_def pps_inv1_def not_less simp del: forM.simps intro!: pp_ops l)
qed

lemma wp_chroma_offset:
  assumes "pps_inv2 sps s" "i < 2"
  shows "wp (pps_chroma_offset i) (\<lambda>_ s'. pps_inv2 sps s'
      \<and> pps_WeightedBipredIDC (pr_pps s') = pps_WeightedBipredIDC (pr_pps s)
      \<and> pps_offset_ok (pps_ChromaQPIndexOffset (pr_pps s') ! i)
      \<and> pps_ChromaQPIndexOffset (pr_pps s') = (pps_ChromaQPIndexOffset (pr_pps s))[i := pps_ChromaQPIndexOffset (pr_pps s') ! i]) np s"
  using assms
  by (auto simp: wp_simps pps_chroma_offset_def pps_inv2_def pps_inv1_def pps_shape_two pps_offset_ok_def intro!: pp_ops)

lemma wp_pps_quant:
  assumes "pps_inv2 sps s"
  shows "wp (pps_quant sps) (\<lambda>_. pps_inv3 sps) np s"
proof -
  have "wp (pps_chroma_offset 0) (\<lambda>_. pps_inv3 sps) np s"
    if "pps_inv2 sps s" "unat (pps_WeightedBipredIDC (pr_pps s)) < 4" for s
    by (rule wp_conj_mono [OF wp_chroma_offset [OF that(1)]])
       (use that in \<open>auto simp: pps_inv3_def pps_inv2_def pps_inv1_def pps_shape_two\<close>)
  note off = wp_conj_mono [OF this]
  have inv: "pps_inv3 sps s \<longleftrightarrow> wf_reader s \<and> pps_shape (pr_pps s) \<and> pps_ids_ok sps (pr_pps s)
      \<and> pps_ChromaQPDiff (pr_pps s) = 0 \<and> pps_refs_ok (pr_pps s)
      \<and> unat (pps_WeightedBipredIDC (pr_pps s)) < 4 \<and> pps_offset_ok (pps_ChromaQPIndexOffset (pr_pps s) ! 0)" for s
    by (auto simp: pps_inv_defs)
  show ?thesis
    using assms
    by (auto simp: wp_simps pps_quant_def Let_def inv pps_inv2_def pps_inv1_def intro!: pp_ops off)
qed

definition pps_inv4 :: "SPS \<Rightarrow> pps_parse \<Rightarrow> bool" where
  "pps_inv4 sps s \<longleftrightarrow> pps_inv3 sps s \<and> list_all pps_offset_ok (pps_ChromaQPIndexOffset (pr_pps s))"

lemma wp_pps_scaling:
  assumes "pps_inv3 sps s"
  shows "wp (pps_scaling sps) (\<lambda>_. pps_inv3 sps) np s"
proof -
  have k: "sps_shape sps" "nonzero_matrix 16 (pps_ScalingMatrix4 (pr_pps s))" "nonzero_matrix 64 (pps_ScalingMatrix8 (pr_pps s))"
    using assms by (auto simp: pps_inv_defs pps_ids_ok_def sps_ok_def simp del: sps_shape_lengths)
  show ?thesis
    using assms k
    by (auto simp: wp_simps pps_scaling_def pps_inv_defs pps_ids_ok_def simp del: sps_shape_lengths
        intro!: pp_op [OF decodeScalingMatrices_op])
qed

lemma wp_pps_extension:
  assumes "pps_inv3 sps s"
  shows "wp (pps_extension sps) (\<lambda>_. pps_inv4 sps) np s"
proof -
  have two: "list_all P xs" if "length xs = 2" "P (xs ! 0)" "P (xs ! Suc 0)" for P and xs :: "int list"
    using that by (subst list_of_two) auto
  have old: "xs ! 0 = ys ! 0" if "xs = ys[Suc 0 := v]" for xs ys :: "int list" and v
    using that by simp
  have "wp (pps_chroma_offset (Suc 0)) (\<lambda>_. pps_inv4 sps) np s" if "pps_inv3 sps s" for s
  proof -
    have inv2: "pps_inv2 sps s" using that by (simp add: pps_inv3_def)
    show ?thesis
      by (rule wp_conj_mono [OF wp_chroma_offset [OF inv2]])
         (use that in \<open>auto simp: pps_inv4_def pps_inv_defs pps_shape_two dest!: old intro!: two\<close>)
  qed
  note off = wp_conj_mono [OF this] and sc = wp_conj_mono [OF wp_pps_scaling]
  have same: "pps_inv4 sps (s\<lparr>pr_pps := pr_pps s\<lparr>pps_ChromaQPIndexOffset := (pps_ChromaQPIndexOffset (pr_pps s))
      [Suc 0 := pps_ChromaQPIndexOffset (pr_pps s) ! 0]\<rparr>\<rparr>)" and len: "length (pps_ChromaQPIndexOffset (pr_pps s)) = 2"
    if "pps_inv3 sps s" for s
    using that by (auto simp: pps_inv4_def pps_inv_defs pps_shape_two intro!: two)
  show ?thesis
    using assms same [OF assms] len [OF assms]
    by (auto simp: wp_simps pps_extension_def pps_inv_defs
        intro!: pp_ops off sc)
qed

section \<open>The tables of an admitted parameter set\<close>

text \<open>
  The standard's chroma quantiser (8.5.8): \<open>QPc\<close> as a function of \<open>qPI\<close>, and the value
  \<open>QP'c\<close> the decoder uses for the luma quantiser \<open>QP'y\<close>, both offset by the bit depth.
\<close>

definition std_QPc :: "int \<Rightarrow> int" where
  "std_QPc q = (if q < 30 then q
     else [29, 30, 31, 32, 32, 33, 34, 34, 35, 35, 36, 36, 37, 37, 37, 38, 38, 38, 39, 39, 39, 39] ! nat (q - 30))"

definition std_chroma_qp :: "int \<Rightarrow> int \<Rightarrow> int \<Rightarrow> int" where
  "std_chroma_qp bdOffset off qpy = std_QPc (max (- bdOffset) (min 51 (qpy - bdOffset + off))) + bdOffset"

lemma chroma_base_std: "list_all (\<lambda>i. int (unat (chroma_qp_base ! i)) = std_QPc (int i)) [0..<52]"
  by code_simp

lemma h264ChromaQP_std:
  assumes "8 \<le> d" "d \<le> 14" "0 \<le> i" "h264ChromaQP d (u32_of (clipInt32 (i + off) 0 (max_qp d))) = Inr v"
  shows "int (unat v) = std_chroma_qp (6 * (d - 8)) off i"
proof -
  define o' where "o' = 6 * (d - 8)"
  define x where "x = max (- o') (min 51 (i - o' + off))"
  have std: "std_chroma_qp (6 * (d - 8)) off i = std_QPc x + o'"
    by (simp only: std_chroma_qp_def o'_def x_def)
  have o: "0 \<le> o'" "o' \<le> 36" using assms(1,2) by (auto simp: o'_def)
  have x: "clipInt32 (i + off) 0 (max_qp d) = x + o'" "- o' \<le> x" "x \<le> 51"
    using o by (auto simp: clipInt32_def max_qp_def x_def o'_def)
  have u: "unat (u32_of (x + o')) = nat (x + o')"
    using x(2,3) o by (simp add: u32_of_def unsigned_of_int take_bit_int_eq_self del: of_int_add)
  show ?thesis
  proof (cases "x < 0")
    case True
    then have "v = ucast (u32_of (x + o'))" "std_QPc x = x"
      using assms x o u by (auto simp: h264ChromaQP_def Let_def o'_def std_QPc_def split: if_splits)
    then show ?thesis using u o x(2) True unfolding std
      by (simp add: unsigned_ucast_eq take_bit_nat_eq_self nat_less_iff)
  next
    case False
    then have n: "nat x < 52" "nat (x + o' - o') = nat x" using x(3) by auto
    have l: "length chroma_qp_base = 52" using chroma_qp_base_le by simp
    have "v = chroma_qp_base ! nat x + word_of_int o'"
      using assms False x u n o l by (auto simp: h264ChromaQP_def Let_def o'_def mult.commute split: if_splits)
    moreover have b: "int (unat (chroma_qp_base ! nat x)) = std_QPc x" "unat (chroma_qp_base ! nat x) \<le> 39"
      using list_all_uptD [OF chroma_base_std n(1)] chroma_qp_base_le n(1) False by (auto simp: list_all2_conv_all_nth)
    moreover have "unat (chroma_qp_base ! nat x + word_of_int o') = unat (chroma_qp_base ! nat x) + nat o'"
      using o b(2) by (simp add: unat_word_ariths unsigned_of_int take_bit_int_eq_self)
    ultimately show ?thesis using o unfolding std by simp
  qed
qed

definition pps_chroma_std :: "SPS \<Rightarrow> PPS \<Rightarrow> bool" where
  "pps_chroma_std sps p \<longleftrightarrow> list_all (\<lambda>t. list_all (\<lambda>i.
     int (unat (pps_ChromaQPTable p ! t ! i))
       = std_chroma_qp (6 * (sps_BitDepthLuma sps - 8)) (pps_ChromaQPIndexOffset p ! t) (int i))
     [0..<Suc (nat (max_qp (sps_BitDepthLuma sps)))]) [0, 1]"

definition pps_dequant_std :: "SPS \<Rightarrow> PPS \<Rightarrow> bool" where
  "pps_dequant_std sps p \<longleftrightarrow> list_all (\<lambda>m. list_all (\<lambda>q.
       list_all (\<lambda>i. list_all (\<lambda>j. unat (pps_Dequant4Buffer p ! m ! q ! (4 * j + i))
          = level_scale4 sps (pps_ScalingMatrix4 p ! m) q i j) [0..<4]) [0..<4]
       \<and> (if pps_Transform8x8Mode p = 0 then True
          else list_all (\<lambda>i. list_all (\<lambda>j. unat (pps_Dequant8Buffer p ! m ! q ! (8 * j + i))
            = level_scale8 sps (pps_ScalingMatrix8 p ! m) q i j) [0..<8]) [0..<8]))
     [0..<Suc (nat (max_qp (sps_BitDepthLuma sps)))]) [0..<6]"

lemma pps_tables_ok:
  assumes "pps_inv4 sps s"
  shows "\<exists>p. pps_tables sps (pr_pps s) = Inr p \<and> pps_ok p \<and> pps_SPS p = Some sps
    \<and> pps_chroma_std sps p \<and> pps_dequant_std sps p"
proof -
  define p0 where "p0 = pr_pps s"
  let ?d = "sps_BitDepthLuma sps"
  have i: "pps_shape p0" "pps_ids_ok sps p0" "pps_refs_ok p0" "unat (pps_WeightedBipredIDC p0) < 4"
    "list_all pps_offset_ok (pps_ChromaQPIndexOffset p0)" "pps_ChromaQPDiff p0 = 0"
    using assms by (auto simp: pps_inv4_def pps_inv_defs p0_def)
  have d: "8 \<le> ?d" "?d \<le> 14" using i(2) by (auto simp: pps_ids_ok_def)
  define o0 where "o0 = pps_ChromaQPIndexOffset p0 ! 0"
  define o1 where "o1 = pps_ChromaQPIndexOffset p0 ! 1"
  have lo: "length (pps_ChromaQPIndexOffset p0) = 2" using i(1) by (rule pps_shape_two)
  define p1 where "p1 = (if o0 \<noteq> o1 then p0\<lparr>pps_ChromaQPDiff := 1\<rparr> else p0)"
  define good where "good t row \<longleftrightarrow> length row = 88 \<and> (\<forall>i \<le> nat (max_qp ?d).
      int (unat (row ! i)) = std_chroma_qp (6 * (?d - 8)) (pps_ChromaQPIndexOffset p0 ! t) (int i)
      \<and> int (unat (row ! i)) \<le> 39 + 6 * (?d - 8))" for t and row :: "u8 list"
  have row: "\<exists>r. buildQPTable (if t = 0 then o0 else o1) ?d (pps_ChromaQPTable p1 ! t) = Inr r \<and> good t r" if "t < 2" for t
  proof -
    have "length (pps_ChromaQPTable p1 ! t) = 88"
      using i(1) that by (simp add: p1_def pps_shape_def list_all_length)
    moreover have off: "(if t = 0 then o0 else o1) = pps_ChromaQPIndexOffset p0 ! t"
      using that by (auto simp: o0_def o1_def less_2_cases_iff)
    ultimately obtain r where r: "buildQPTable (pps_ChromaQPIndexOffset p0 ! t) ?d (pps_ChromaQPTable p1 ! t) = Inr r"
      "length r = 88"
      "\<forall>i \<le> nat (max_qp ?d). h264ChromaQP ?d (u32_of (clipInt32 (int i + pps_ChromaQPIndexOffset p0 ! t) 0 (max_qp ?d))) = Inr (r ! i)
         \<and> int (unat (r ! i)) \<le> 39 + 6 * (?d - 8)"
      using buildQPTable_ok [of "pps_ChromaQPTable p1 ! t", OF _ d] by blast
    then have "good t r"
      unfolding good_def using h264ChromaQP_std [OF d of_nat_0_le_iff] by blast
    with r(1) off have "buildQPTable (if t = 0 then o0 else o1) ?d (pps_ChromaQPTable p1 ! t) = Inr r \<and> good t r"
      by simp
    then show ?thesis by blast
  qed
  have "2 \<le> length (pps_ChromaQPTable p1)" using i(1) by (simp add: p1_def pps_shape_def)
  then obtain tab where tab: "update_each [0..<2] (\<lambda>t row. buildQPTable (if t = 0 then o0 else o1) ?d row) (pps_ChromaQPTable p1) = Inr tab"
    "length tab = length (pps_ChromaQPTable p1)" "\<And>t. t < 2 \<Longrightarrow> good t (tab ! t)"
    by (rule update_each_rel [where P = good]) (erule row | rule that; assumption)+
  define p2 where "p2 = p1\<lparr>pps_ChromaQPTable := tab\<rparr>"
  have s2: "table_shape 16 (pps_Dequant4Buffer p2)" "table_shape 64 (pps_Dequant8Buffer p2)"
    "nonzero_matrix 16 (pps_ScalingMatrix4 p2)" "nonzero_matrix 64 (pps_ScalingMatrix8 p2)"
    using i(1,2) by (simp_all add: p2_def p1_def pps_shape_def pps_ids_ok_def)
  obtain d4 d8 where q: "initDequantTables p2 sps = Inr (p2\<lparr>pps_Dequant4Buffer := d4, pps_Dequant8Buffer := d8\<rparr>)"
    "table_shape 16 d4" "table_shape 64 d8"
    and q4: "\<forall>m < 6. \<forall>q \<le> nat (max_qp ?d). \<forall>i < 4. \<forall>j < 4.
         unat (d4 ! m ! q ! (4 * j + i)) = level_scale4 sps (pps_ScalingMatrix4 p2 ! m) q i j"
    and q8: "if pps_Transform8x8Mode p2 = 0 then d8 = pps_Dequant8Buffer p2
       else \<forall>m < 6. \<forall>q \<le> nat (max_qp ?d). \<forall>i < 8. \<forall>j < 8.
         unat (d8 ! m ! q ! (8 * j + i)) = level_scale8 sps (pps_ScalingMatrix8 p2 ! m) q i j"
    using initDequantTables_ok [OF s2 d] by blast
  define p3 where "p3 = p2\<lparr>pps_Dequant4Buffer := d4, pps_Dequant8Buffer := d8\<rparr>"
  have upt: "[0..<2] = [0, 1 :: nat]" by (simp add: upt_rec numeral_2_eq_2)
  have i0: "idx (pps_ChromaQPIndexOffset p0) 0 = Inr o0" "idx (pps_ChromaQPIndexOffset p0) 1 = Inr o1"
    using lo by (simp_all add: o0_def o1_def)
  have "pps_tables sps p0 = rbind (update_each [0, 1] (\<lambda>t row. buildQPTable (if t = 0 then o0 else o1) ?d row)
      (pps_ChromaQPTable p1)) (\<lambda>tab. initDequantTables (p1\<lparr>pps_ChromaQPTable := tab\<rparr>) sps)"
    unfolding pps_tables_def i0 rbind_simps Let_def p1_def ..
  also have "\<dots> = Inr p3"
    unfolding tab(1) [unfolded upt] rbind_simps p2_def [symmetric] p3_def by (rule q(1))
  finally have "pps_tables sps p0 = Inr p3" .
  moreover have two: "length tab = 2" using tab(2) i(1) by (simp add: p1_def pps_shape_def)
  have "pps_dequant_std sps p3"
    using q4 q8 unfolding pps_dequant_std_def list_all_iff
    by (cases "pps_Transform8x8Mode p2 = 0") (simp_all add: p3_def less_Suc_eq_le)
  moreover have "pps_chroma_std sps p3"
    using tab(3) by (auto simp: pps_chroma_std_def p3_def p2_def p1_def good_def list_all_iff)
  moreover have "pps_SPS p3 = Some sps" using i(2) by (simp add: p3_def p2_def p1_def pps_ids_ok_def)
  moreover have "pps_ok p3"
  proof -
    have "pps_shape p3"
      using i(1) q(2,3) two tab(3) by (auto simp: p3_def p2_def p1_def pps_shape_def list_all_length good_def)
    moreover have "pps_refs_ok p3" "pps_ids_ok sps p3" "unat (pps_WeightedBipredIDC p3) < 4"
      using i by (simp_all add: p3_def p2_def p1_def)
    moreover have le: "int (unat (tab ! t ! i)) \<le> 39 + 6 * (?d - 8)" if "t < 2" "i < nat (max_qp ?d + 1)" for t i
    proof -
      have "i \<le> nat (max_qp ?d)" using that(2) by linarith
      then show ?thesis using tab(3) [OF that(1)] unfolding good_def by blast
    qed
    have "pps_qp_ok sps p3"
      using i(5,6) two le
      by (auto simp: pps_qp_ok_def p3_def p2_def p1_def o0_def o1_def list_all_length)
    ultimately show ?thesis using i(2) by (simp add: pps_ok_def) (simp add: p3_def p2_def p1_def pps_ids_ok_def)
  qed
  ultimately show ?thesis by (auto simp: p0_def)
qed

lemma wp_pps_parser:
  assumes "wf_reader s" "pps_shape (pr_pps s)" "pps_ChromaQPDiff (pr_pps s) = 0" "sps_list_ok l"
  shows "wp (pps_parser l) (\<lambda>_ s'. pps_ok (pr_pps s') \<and> (case pps_SPS (pr_pps s') of None \<Rightarrow> False
     | Some sps \<Rightarrow> pps_chroma_std sps (pr_pps s') \<and> pps_dequant_std sps (pr_pps s'))) np s"
proof -
  let ?Q = "\<lambda>_ s'. pps_ok (pr_pps s') \<and> (case pps_SPS (pr_pps s') of None \<Rightarrow> False
     | Some sps \<Rightarrow> pps_chroma_std sps (pr_pps s') \<and> pps_dequant_std sps (pr_pps s'))"
  have fin: "wp (bnd (getP (pps_tables sps)) (\<lambda>r. bnd (lift r) (\<lambda>p. setP (\<lambda>_. p)))) ?Q np s"
    if "pps_inv4 sps s" for sps s
    using pps_tables_ok [OF that] by (auto simp: wp_simps)
  show ?thesis
    unfolding pps_parser_def wp_bnd wp_thn
    by (rule wp_conj_mono [OF wp_pps_ids [OF assms]], rule wp_conj_mono [OF wp_pps_groups_refs], assumption,
        rule wp_conj_mono [OF wp_pps_quant], assumption, rule wp_conj_mono [OF wp_pps_extension], assumption)
       (use fin in \<open>auto simp: wp_simps\<close>)
qed

section \<open>Decoding a picture parameter set\<close>

lemma DecodePPS_cases:
  assumes "sps_list_ok l"
  shows "case DecodePPS rbsp l of
     Inr p \<Rightarrow> pps_ok p \<and> (case pps_SPS p of None \<Rightarrow> False | Some sps \<Rightarrow> pps_chroma_std sps p \<and> pps_dequant_std sps p)
   | Inl e \<Rightarrow> e \<in> {ErrInvalidData, ErrUnsupported}"
proof (cases "newRBSPBitReader rbsp")
  case (Inl e)
  then show ?thesis using rbspBitLength_error by (simp add: DecodePPS_def)
next
  case (Inr gb)
  note i = pps_start_inv [OF newRBSPBitReader_wf [OF Inr]]
  show ?thesis using Inr wp_pps_parser [of "pps_start gb" l] i assms
    by (cases "pps_parser l (pps_start gb)")
       (auto simp: DecodePPS_def wp_def split: sum.splits intro: goerror.exhaust)
qed

text \<open>
  The tables of parameter sets, as a caller builds them from the NAL units it sees, each PPS parsed against the
  table of SPSs of that moment. A set that does not parse leaves the tables as they are.
\<close>

definition store_SPS :: "NALUnit \<Rightarrow> SPS option list \<Rightarrow> SPS option list result" where
  "store_SPS nal spsList = (case DecodeSPSFromNAL nal of
     Inl e \<Rightarrow> if e = Panic then Inl Panic else Inr spsList
   | Inr sps \<Rightarrow> set_idx spsList (unat (sps_SPSID sps)) (Some sps))"

definition store_PPS :: "NALUnit \<Rightarrow> SPS option list \<Rightarrow> PPS option list \<Rightarrow> PPS option list result" where
  "store_PPS nal spsList ppsList = (case DecodePPS (nal_RBSP nal) spsList of
     Inl e \<Rightarrow> if e = Panic then Inl Panic else Inr ppsList
   | Inr pps \<Rightarrow> set_idx ppsList (unat (pps_PPSID pps)) (Some pps))"

definition store_param_set :: "NALUnit \<Rightarrow> SPS option list \<times> PPS option list \<Rightarrow> (SPS option list \<times> PPS option list) result" where
  "store_param_set nal = (\<lambda>(spsList, ppsList).
     if nal_Type nal = NALSPS then rbind (store_SPS nal spsList) (\<lambda>spsList. Inr (spsList, ppsList))
     else if nal_Type nal = NALPPS then rbind (store_PPS nal spsList ppsList) (\<lambda>ppsList. Inr (spsList, ppsList))
     else Inr (spsList, ppsList))"

primrec store_param_sets :: "NALUnit list \<Rightarrow> SPS option list \<times> PPS option list \<Rightarrow> (SPS option list \<times> PPS option list) result" where
  "store_param_sets [] t = Inr t"
| "store_param_sets (nal # nals) t = rbind (store_param_set nal t) (store_param_sets nals)"

definition param_sets :: "NALUnit list \<Rightarrow> (SPS option list \<times> PPS option list) result" where
  "param_sets nals = store_param_sets nals (replicate 32 None, replicate 256 None)"

definition pps_list_ok :: "PPS option list \<Rightarrow> bool" where
  "pps_list_ok l \<longleftrightarrow> length l = 256 \<and> list_all (\<lambda>e. case e of None \<Rightarrow> True | Some p \<Rightarrow> pps_ok p) l"

lemma sps_list_ok_update: "sps_list_ok l \<Longrightarrow> sps_ok sps \<Longrightarrow> sps_list_ok (l[i := Some sps])"
  using set_update_subset_insert [of l i "Some sps"] by (auto simp: sps_list_ok_def list_all_iff)

lemma sps_list_ok_empty: "sps_list_ok (replicate 32 None)"
  by (simp add: sps_list_ok_def list_all_iff)

lemma pps_list_ok_update: "pps_list_ok l \<Longrightarrow> pps_ok pps \<Longrightarrow> pps_list_ok (l[i := Some pps])"
  using set_update_subset_insert [of l i "Some pps"] by (auto simp: pps_list_ok_def list_all_iff)

lemma DecodeSPSFromNAL_ok:
  "case DecodeSPSFromNAL nal of Inr sps \<Rightarrow> sps_ok sps | Inl e \<Rightarrow> e \<in> {ErrInvalidData, ErrUnsupported}"
  using decodeSPS_cases [of "nal_RBSP nal" False] decodeSPS_cases [of "drop 1 (nal_Raw nal)" False]
    decodeSPS_cases [of "nal_RBSP nal" True]
  by (auto simp: DecodeSPSFromNAL_def DecodeSPS_def split: sum.splits)

lemma sps_ok_id: "sps_ok sps \<Longrightarrow> unat (sps_SPSID sps) < 32"
  by (simp add: sps_ok_def sps_format_ok_def)

lemma pps_ok_id: "pps_ok pps \<Longrightarrow> unat (pps_PPSID pps) < 256"
  by (auto simp: pps_ok_def pps_ids_ok_def split: option.splits)

definition tables_admitted :: "SPS option list \<times> PPS option list \<Rightarrow> bool" where
  "tables_admitted t \<longleftrightarrow> sps_list_ok (fst t) \<and> pps_list_ok (snd t)"

lemma store_param_set_ok: "tables_admitted t \<Longrightarrow> \<exists>t'. store_param_set nal t = Inr t' \<and> tables_admitted t'"
proof -
  assume t: "tables_admitted t"
  obtain sl pl where p: "t = (sl, pl)" by (cases t)
  have l: "sps_list_ok sl" "pps_list_ok pl" "length sl = 32" "length pl = 256"
    using t by (simp_all add: p tables_admitted_def sps_list_ok_def pps_list_ok_def)
  show ?thesis
    using DecodeSPSFromNAL_ok [of nal] DecodePPS_cases [OF l(1), of "nal_RBSP nal"] l
    by (auto simp: p store_param_set_def store_SPS_def store_PPS_def tables_admitted_def sps_ok_id pps_ok_id sps_list_ok_update pps_list_ok_update split: sum.splits)
qed

lemma param_sets_ok: "\<exists>sl pl. param_sets nals = Inr (sl, pl) \<and> sps_list_ok sl \<and> pps_list_ok pl"
proof -
  have "tables_admitted t \<Longrightarrow> \<exists>t'. store_param_sets nals t = Inr t' \<and> tables_admitted t'" for t
  proof (induction nals arbitrary: t)
    case (Cons nal nals)
    then show ?case using store_param_set_ok [OF Cons.prems, of nal] by auto
  qed simp
  from this [of "(replicate 32 None, replicate 256 None)"] show ?thesis
    by (auto simp: param_sets_def tables_admitted_def sps_list_ok_empty pps_list_ok_def list_all_iff)
qed

text \<open>
  C4. The PPS parser is safe on every byte string, with the tables that any sequence of NAL units leaves (the
  SPSs parsed with their recovery, sets replaced as they come; a caller that skips some units has the tables
  of the others): storing the sets does not panic, nor does the parser, and a parameter set it admits refers
  to an admitted SPS of a supported bit depth, has one slice group, 1 to 32 references in each list, chroma
  offsets of -12 to 12 with the difference flag set exactly when they differ, scaling lists without a zero,
  and tables that cover every quantiser parameter.
\<close>

theorem DecodePPS_safe:
  "case param_sets nals of
     Inl e \<Rightarrow> False
   | Inr (spsList, ppsList) \<Rightarrow>
       (case DecodePPS rbsp spsList of Inr p \<Rightarrow> pps_ok p | Inl e \<Rightarrow> e \<in> {ErrInvalidData, ErrUnsupported})"
proof -
  obtain sl pl where t: "param_sets nals = Inr (sl, pl)" "sps_list_ok sl" using param_sets_ok by blast
  show ?thesis using DecodePPS_cases [OF t(2), of rbsp] by (auto simp: t(1) split: sum.splits)
qed

text \<open>
  C3. The tables of an admitted PPS are the standard's, whatever NAL units its SPS and the tables come from:
  for every luma quantiser parameter of the bit depth, each chroma entry is \<open>QP'c\<close> of clause 8.5.8 for its
  plane's offset, and each dequantisation entry is the level scale of clause 8.5.9, \<open>normAdjust\<close> of the
  position times the scaling factor, shifted by a sixth of the quantiser parameter (64 for the lossless
  parameter 0), stored transposed; no product overflows its 32 bits.
\<close>

theorem DecodePPS_tables_standard:
  "case param_sets nals of
     Inl e \<Rightarrow> False
   | Inr (spsList, ppsList) \<Rightarrow>
       (case DecodePPS rbsp spsList of
          Inr p \<Rightarrow> (case pps_SPS p of None \<Rightarrow> False | Some sps \<Rightarrow> pps_chroma_std sps p \<and> pps_dequant_std sps p)
        | Inl e \<Rightarrow> True)"
proof -
  obtain sl pl where t: "param_sets nals = Inr (sl, pl)" "sps_list_ok sl" using param_sets_ok by blast
  show ?thesis using DecodePPS_cases [OF t(2), of rbsp] by (auto simp: t(1) split: sum.splits option.splits)
qed

section \<open>Decoding a configuration record\<close>

definition cfg_ok :: "AVCDecoderConfigurationRecord \<Rightarrow> bool" where
  "cfg_ok cfg \<longleftrightarrow> 1 \<le> cfg_NALLengthSize cfg \<and> cfg_NALLengthSize cfg \<le> 4 \<and> sps_list_ok (cfg_SPS cfg)
     \<and> length (cfg_PPS cfg) = 256 \<and> list_all (\<lambda>e. case e of None \<Rightarrow> True | Some p \<Rightarrow> pps_ok p) (cfg_PPS cfg)"

definition cfg_first_ok :: "AVCDecoderConfigurationRecord \<Rightarrow> bool" where
  "cfg_first_ok cfg \<longleftrightarrow> unat (cfg_FirstSPSID cfg) < 32 \<and> cfg_SPS cfg ! unat (cfg_FirstSPSID cfg) \<noteq> None"

abbreviation (input) go_errors :: "goerror set" where
  "go_errors \<equiv> {ErrInvalidData, ErrUnsupported}"

lemma readAVCConfigNAL_cases:
  "case readAVCConfigNAL data pos of (Inl e, _) \<Rightarrow> e = ErrInvalidData | (Inr raw, pos') \<Rightarrow> pos' \<le> length data"
proof -
  define n where "n = push_bit 8 (int (unat (data ! pos))) OR int (unat (data ! (pos + 1)))"
  show ?thesis
    unfolding readAVCConfigNAL_def n_def [symmetric] Let_def by auto
qed

lemma parseAVCConfigNAL_error: "parseAVCConfigNAL raw t = Inl e \<Longrightarrow> e = ErrInvalidData"
  by (auto simp: parseAVCConfigNAL_def split: if_splits sum.splits)

lemma cfg_sps_loop_ok:
  assumes "cfg_ok cfg" "if got then cfg_first_ok cfg else True"
  shows "case cfg_sps_loop data n pos cfg got of
     Inr (pos', cfg', got') \<Rightarrow> cfg_ok cfg' \<and> (if got' then cfg_first_ok cfg' else True)
   | Inl e \<Rightarrow> e \<in> go_errors"
  using assms
proof (induction n arbitrary: pos cfg got)
  case 0
  then show ?case by simp
next
  case (Suc n)
  show ?case
  proof (cases "readAVCConfigNAL data pos")
    case (Pair r pos')
    show ?thesis
    proof (cases r)
      case (Inl e)
      then show ?thesis using Pair readAVCConfigNAL_cases [of data pos] by simp
    next
      case raw: (Inr raw)
      show ?thesis
      proof (cases "parseAVCConfigNAL raw NALSPS")
        case (Inl e)
        then show ?thesis using Pair raw parseAVCConfigNAL_error [OF Inl] by simp
      next
        case nal: (Inr nal)
        show ?thesis
        proof (cases "DecodeSPSFromNAL nal")
          case (Inl e)
          then show ?thesis using Pair raw nal DecodeSPSFromNAL_ok [of nal] by simp
        next
          case sps: (Inr sps)
          have ok: "sps_ok sps" using DecodeSPSFromNAL_ok [of nal] sps by simp
          have l: "length (cfg_SPS cfg) = 32" using Suc.prems(1) by (simp add: cfg_ok_def sps_list_ok_def)
          define l' where "l' = (cfg_SPS cfg)[unat (sps_SPSID sps) := Some sps]"
          define cfg' where "cfg' = (if got then cfg\<lparr>cfg_SPS := l'\<rparr> else cfg\<lparr>cfg_SPS := l', cfg_FirstSPSID := sps_SPSID sps\<rparr>)"
          have set: "set_idx (cfg_SPS cfg) (unat (sps_SPSID sps)) (Some sps) = Inr l'"
            using sps_ok_id [OF ok] l by (simp add: l'_def)
          have "cfg_ok cfg'" using Suc.prems(1) ok by (simp add: cfg'_def cfg_ok_def l'_def sps_list_ok_update)
          moreover have "cfg_first_ok cfg'"
            using Suc.prems(2) ok l sps_ok_id [OF ok] by (auto simp: cfg'_def cfg_first_ok_def l'_def nth_list_update)
          ultimately show ?thesis
            using Suc.IH [of cfg' True pos'] Pair raw nal sps set
            by (simp add: cfg'_def)
        qed
      qed
    qed
  qed
qed

lemma cfg_pps_loop_ok:
  assumes "cfg_ok cfg"
  shows "case cfg_pps_loop data n pos cfg got of
     Inr (cfg', got') \<Rightarrow> cfg_ok cfg' \<and> cfg_SPS cfg' = cfg_SPS cfg \<and> cfg_FirstSPSID cfg' = cfg_FirstSPSID cfg
   | Inl e \<Rightarrow> e \<in> go_errors"
  using assms
proof (induction n arbitrary: pos cfg got)
  case 0
  then show ?case by simp
next
  case (Suc n)
  have sl: "sps_list_ok (cfg_SPS cfg)" "length (cfg_PPS cfg) = 256" using Suc.prems(1) by (simp_all add: cfg_ok_def)
  show ?case
  proof (cases "readAVCConfigNAL data pos")
    case (Pair r pos')
    show ?thesis
    proof (cases r)
      case (Inl e)
      then show ?thesis using Pair readAVCConfigNAL_cases [of data pos] by simp
    next
      case raw: (Inr raw)
      show ?thesis
      proof (cases "parseAVCConfigNAL raw NALPPS")
        case (Inl e)
        then show ?thesis using Pair raw parseAVCConfigNAL_error [OF Inl] by simp
      next
        case nal: (Inr nal)
        show ?thesis
        proof (cases "DecodePPS (nal_RBSP nal) (cfg_SPS cfg)")
          case (Inl e)
          then show ?thesis using Pair raw nal DecodePPS_cases [OF sl(1), of "nal_RBSP nal"] by simp
        next
          case pps: (Inr pps)
          have ok: "pps_ok pps" using DecodePPS_cases [OF sl(1), of "nal_RBSP nal"] pps by simp
          then have id: "unat (pps_PPSID pps) < 256" by (auto simp: pps_ok_def pps_ids_ok_def split: option.splits)
          define l' where "l' = (cfg_PPS cfg)[unat (pps_PPSID pps) := Some pps]"
          have set: "set_idx (cfg_PPS cfg) (unat (pps_PPSID pps)) (Some pps) = Inr l'"
            using id sl(2) by (simp add: l'_def)
          have "cfg_ok (cfg\<lparr>cfg_PPS := l'\<rparr>)"
            using Suc.prems(1) ok set_update_subset_insert [of "cfg_PPS cfg" "unat (pps_PPSID pps)" "Some pps"]
            by (auto simp: cfg_ok_def l'_def list_all_iff)
          then show ?thesis
            using Suc.IH [of "cfg\<lparr>cfg_PPS := l'\<rparr>" pos' True] Pair raw nal pps set
            by (auto split: sum.splits)
        qed
      qed
    qed
  qed
qed

text \<open>
  The decoding of an \<open>avcC\<close> configuration record is safe on every byte string: no panic, and
  a record it returns has a NAL length size of 1 to 4, tables of admitted parameter sets only,
  and a first SPS that is in the table.
\<close>

theorem DecodeAVCDecoderConfigurationRecord_safe:
  "case DecodeAVCDecoderConfigurationRecord data of
     Inr cfg \<Rightarrow> cfg_ok cfg \<and> cfg_first_ok cfg | Inl e \<Rightarrow> e \<in> {ErrInvalidData, ErrUnsupported}"
proof -
  define cfg0 where "cfg0 = cfg_init\<lparr>cfg_NALLengthSize := int (unat (data ! 4 AND 3)) + 1\<rparr>"
  have "data ! 4 AND 3 \<le> 3" by (rule word_and_le1)
  then have "unat (data ! 4 AND 3) \<le> 3" by (simp add: word_le_nat_alt)
  then have "cfg_ok cfg0"
    by (simp add: cfg0_def cfg_init_def cfg_ok_def sps_list_ok_empty list_all_iff)
  then have s: "case cfg_sps_loop data n 6 cfg0 False of
     Inr (pos', cfg', got') \<Rightarrow> cfg_ok cfg' \<and> (if got' then cfg_first_ok cfg' else True)
   | Inl e \<Rightarrow> e \<in> go_errors" for n
    by (intro cfg_sps_loop_ok) auto
  show ?thesis
    using s [of "unat (data ! 5 AND 0x1f)"] cfg_pps_loop_ok
    unfolding DecodeAVCDecoderConfigurationRecord_def Let_def cfg0_def [symmetric]
    by (fastforce simp: rbind_def cfg_first_ok_def split: sum.splits prod.splits if_splits)
qed

end
