(* ===== verification/Slice_Header.thy ===== *)
theory Slice_Header
  imports Pps
begin

text \<open>
  The slice header (\<open>internal/h264/slice.go\<close>): slice and picture types, picture numbers, picture
  order count syntax, reference counts, list modification commands, the prediction weight table,
  the marking commands (MMCO), the quantiser and the deblocking parameters.

  The header is filled in through a pointer and stays with the caller on an error, so the
  parser's result is the reader (or the error) together with the header as it was left.
\<close>

section \<open>Types\<close>

abbreviation (input) PictureTypeI :: int where "PictureTypeI \<equiv> 1"
abbreviation (input) PictureTypeP :: int where "PictureTypeP \<equiv> 2"
abbreviation (input) PictureTypeB :: int where "PictureTypeB \<equiv> 3"
abbreviation (input) PictureTypeSI :: int where "PictureTypeSI \<equiv> 5"
abbreviation (input) PictureTypeSP :: int where "PictureTypeSP \<equiv> 6"
abbreviation (input) PictureTopField :: int where "PictureTopField \<equiv> 1"
abbreviation (input) PictureBottomField :: int where "PictureBottomField \<equiv> 2"
abbreviation (input) PictureFrame :: int where "PictureFrame \<equiv> 3"

abbreviation (input) mmcoEnd :: u32 where "mmcoEnd \<equiv> 0"
abbreviation (input) mmcoShort2Unused :: u32 where "mmcoShort2Unused \<equiv> 1"
abbreviation (input) mmcoLong2Unused :: u32 where "mmcoLong2Unused \<equiv> 2"
abbreviation (input) mmcoShort2Long :: u32 where "mmcoShort2Long \<equiv> 3"
abbreviation (input) mmcoSetMaxLong :: u32 where "mmcoSetMaxLong \<equiv> 4"
abbreviation (input) mmcoReset :: u32 where "mmcoReset \<equiv> 5"
abbreviation (input) mmcoLong :: u32 where "mmcoLong \<equiv> 6"

abbreviation (input) maxRefMods :: nat where "maxRefMods \<equiv> 32"
abbreviation (input) maxMMCOCount :: nat where "maxMMCOCount \<equiv> 67"

definition h264GolombToPictureType :: "int list" where
  "h264GolombToPictureType = [PictureTypeP, PictureTypeB, PictureTypeI, PictureTypeSP, PictureTypeSI]"

record RefModification =
  rm_Op :: u32
  rm_Val :: u32

record MMCO =
  mmco_Opcode :: u32
  mmco_ShortPicNum :: u32
  mmco_LongArg :: u32

record PredWeightTable =
  pwt_UseWeight :: int
  pwt_UseWeightChroma :: int
  pwt_LumaLog2WeightDenom :: u32
  pwt_ChromaLog2WeightDenom :: u32
  pwt_LumaWeightFlag :: "int list"
  pwt_ChromaWeightFlag :: "int list"
  pwt_LumaWeight :: "int list list list"
  pwt_ChromaWeight :: "int list list list list"
  pwt_ImplicitWeight :: "int list list list"

record SliceHeader =
  sh_NALType :: u8
  sh_NALRefIDC :: u8
  sh_FirstMBAddr :: u32
  sh_SliceType :: int
  sh_SliceTypeNoS :: int
  sh_SliceTypeFixed :: int
  sh_PPSID :: u32
  sh_PPS :: "PPS option"
  sh_SPS :: "SPS option"
  sh_FrameNum :: u32
  sh_PictureStructure :: int
  sh_MBFieldDecodingFlag :: int
  sh_CurrPicNum :: u32
  sh_MaxPicNum :: u32
  sh_IDRPicID :: u32
  sh_POCLSB :: u32
  sh_DeltaPOCBottom :: int
  sh_DeltaPOC :: "int list"
  sh_RedundantPicCount :: u32
  sh_DirectSpatialMVPred :: int
  sh_ListCount :: int
  sh_RefCount :: "u32 list"
  sh_RefModifications :: "RefModification list list"
  sh_NBRefModifications :: "u32 list"
  sh_PredWeightTable :: PredWeightTable
  sh_ExplicitRefMarking :: int
  sh_MMCO :: "MMCO list"
  sh_NBMMCO :: u32
  sh_CABACInitIDC :: u32
  sh_QScale :: u32
  sh_ChromaQP :: "u8 list"
  sh_SPForSwitchFlag :: int
  sh_SliceQSDelta :: int
  sh_DeblockingFilter :: int
  sh_SliceAlphaC0Offset :: int
  sh_SliceBetaOffset :: int

definition pwt_init :: PredWeightTable where
  "pwt_init = \<lparr>pwt_UseWeight = 0, pwt_UseWeightChroma = 0, pwt_LumaLog2WeightDenom = 0,
     pwt_ChromaLog2WeightDenom = 0, pwt_LumaWeightFlag = [0, 0], pwt_ChromaWeightFlag = [0, 0],
     pwt_LumaWeight = replicate 48 (replicate 2 (replicate 2 0)),
     pwt_ChromaWeight = replicate 48 (replicate 2 (replicate 2 (replicate 2 0))),
     pwt_ImplicitWeight = replicate 48 (replicate 48 (replicate 2 0))\<rparr>"

definition sh_init :: SliceHeader where
  "sh_init = \<lparr>sh_NALType = 0, sh_NALRefIDC = 0, sh_FirstMBAddr = 0, sh_SliceType = 0, sh_SliceTypeNoS = 0,
     sh_SliceTypeFixed = 0, sh_PPSID = 0, sh_PPS = None, sh_SPS = None, sh_FrameNum = 0,
     sh_PictureStructure = 0, sh_MBFieldDecodingFlag = 0, sh_CurrPicNum = 0, sh_MaxPicNum = 0,
     sh_IDRPicID = 0, sh_POCLSB = 0, sh_DeltaPOCBottom = 0, sh_DeltaPOC = [0, 0], sh_RedundantPicCount = 0,
     sh_DirectSpatialMVPred = 0, sh_ListCount = 0, sh_RefCount = [0, 0],
     sh_RefModifications = replicate 2 (replicate 32 \<lparr>rm_Op = 0, rm_Val = 0\<rparr>),
     sh_NBRefModifications = [0, 0], sh_PredWeightTable = pwt_init, sh_ExplicitRefMarking = 0,
     sh_MMCO = replicate 67 \<lparr>mmco_Opcode = 0, mmco_ShortPicNum = 0, mmco_LongArg = 0\<rparr>, sh_NBMMCO = 0,
     sh_CABACInitIDC = 0, sh_QScale = 0, sh_ChromaQP = [0, 0], sh_SPForSwitchFlag = 0,
     sh_SliceQSDelta = 0, sh_DeblockingFilter = 0, sh_SliceAlphaC0Offset = 0, sh_SliceBetaOffset = 0\<rparr>"

section \<open>The parser's state\<close>

record slice_parse = bitReader +
  pr_sh :: SliceHeader

type_synonym 'a sl = "(slice_parse, 'a) go"

definition setH :: "(SliceHeader \<Rightarrow> SliceHeader) \<Rightarrow> unit sl" where
  "setH f = upd (\<lambda>s. s\<lparr>pr_sh := f (pr_sh s)\<rparr>)"

definition getH :: "(SliceHeader \<Rightarrow> 'a) \<Rightarrow> 'a sl" where
  "getH f = gets (\<lambda>s. f (pr_sh s))"

text \<open>Assignments to elements of the header's arrays, a panic out of range.\<close>

definition putH :: "(SliceHeader \<Rightarrow> SliceHeader result) \<Rightarrow> unit sl" where
  "putH f = bnd (getH f) (\<lambda>r. bnd (lift r) (\<lambda>h. setH (\<lambda>_. h)))"

definition set_RefCount :: "nat \<Rightarrow> u32 \<Rightarrow> unit sl" where
  "set_RefCount i v = putH (\<lambda>h. rbind (set_idx (sh_RefCount h) i v) (\<lambda>a. Inr (h\<lparr>sh_RefCount := a\<rparr>)))"

definition set_NBRefModifications :: "nat \<Rightarrow> u32 \<Rightarrow> unit sl" where
  "set_NBRefModifications i v =
     putH (\<lambda>h. rbind (set_idx (sh_NBRefModifications h) i v) (\<lambda>a. Inr (h\<lparr>sh_NBRefModifications := a\<rparr>)))"

definition set_DeltaPOC :: "nat \<Rightarrow> int \<Rightarrow> unit sl" where
  "set_DeltaPOC i v = putH (\<lambda>h. rbind (set_idx (sh_DeltaPOC h) i v) (\<lambda>a. Inr (h\<lparr>sh_DeltaPOC := a\<rparr>)))"

definition set_ChromaQP :: "nat \<Rightarrow> u8 \<Rightarrow> unit sl" where
  "set_ChromaQP i v = putH (\<lambda>h. rbind (set_idx (sh_ChromaQP h) i v) (\<lambda>a. Inr (h\<lparr>sh_ChromaQP := a\<rparr>)))"

definition set_RefModification :: "nat \<Rightarrow> nat \<Rightarrow> RefModification \<Rightarrow> unit sl" where
  "set_RefModification l i v = putH (\<lambda>h.
     rbind (idx (sh_RefModifications h) l) (\<lambda>row.
     rbind (set_idx row i v) (\<lambda>row.
     rbind (set_idx (sh_RefModifications h) l row) (\<lambda>a. Inr (h\<lparr>sh_RefModifications := a\<rparr>)))))"

definition upd_MMCO :: "nat \<Rightarrow> (MMCO \<Rightarrow> MMCO) \<Rightarrow> unit sl" where
  "upd_MMCO i f = putH (\<lambda>h.
     rbind (idx (sh_MMCO h) i) (\<lambda>c.
     rbind (set_idx (sh_MMCO h) i (f c)) (\<lambda>a. Inr (h\<lparr>sh_MMCO := a\<rparr>))))"

section \<open>Reference counts and list modifications\<close>

definition parseRefCount :: "PPS \<Rightarrow> unit sl" where
  "parseRefCount pps =
     bnd (lift (idx (pps_RefCount pps) 0)) (\<lambda>c0.
     bnd (lift (idx (pps_RefCount pps) 1)) (\<lambda>c1.
     thn (set_RefCount 0 c0)
     (thn (set_RefCount 1 c1)
     (bnd (getH (\<lambda>h. h)) (\<lambda>sh.
     if sh_SliceTypeNoS sh = PictureTypeI then
       thn (setH (\<lambda>h. h\<lparr>sh_ListCount := 0\<rparr>)) (thn (set_RefCount 0 0) (set_RefCount 1 0))
     else
       let maxCount = (if sh_PictureStructure sh = PictureFrame then 15 else 31 :: u32) in
       bnd readBit (\<lambda>override.
       thn (whenM (override \<noteq> 0)
         (bnd readUEGolombLong (\<lambda>refCount0.
          thn (set_RefCount 0 (refCount0 + 1))
          (if sh_SliceTypeNoS sh = PictureTypeB
           then bnd readUEGolombLong (\<lambda>refCount1. set_RefCount 1 (refCount1 + 1))
           else set_RefCount 1 1))))
       (thn (setH (\<lambda>h. h\<lparr>sh_ListCount := (if sh_SliceTypeNoS sh = PictureTypeB then 2 else 1)\<rparr>))
       (bnd (getH (\<lambda>h. h)) (\<lambda>sh.
        bnd (lift (idx (sh_RefCount sh) 0)) (\<lambda>r0.
        bnd (lift (idx (sh_RefCount sh) 1)) (\<lambda>r1.
        if r0 - 1 > maxCount \<or> (sh_ListCount sh = 2 \<and> r1 - 1 > maxCount) then
          thn (set_RefCount 0 0) (thn (set_RefCount 1 0)
            (thn (setH (\<lambda>h. h\<lparr>sh_ListCount := 0\<rparr>)) (fail ErrInvalidData)))
        else whenM (r1 - 1 > maxCount) (set_RefCount 1 0))))))))))))"

text \<open>The inner loop, \<open>for index := 0; ; index++\<close>; it stops at the latest at \<open>maxRefMods\<close>.\<close>

function refMods_loop :: "nat \<Rightarrow> nat \<Rightarrow> unit sl" where
  "refMods_loop l i =
     bnd readUEGolomb31 (\<lambda>op.
     if op = 3 then ret ()
     else bnd (getH sh_RefCount) (\<lambda>rc.
       bnd (lift (idx rc l)) (\<lambda>count.
       if i \<ge> unat count \<or> i \<ge> maxRefMods then fail ErrInvalidData
       else if op > 2 then fail ErrInvalidData
       else bnd readUEGolombLong (\<lambda>val.
         thn (set_RefModification l i \<lparr>rm_Op = op, rm_Val = val\<rparr>)
         (bnd (getH sh_NBRefModifications) (\<lambda>nb.
          bnd (lift (idx nb l)) (\<lambda>n.
          thn (set_NBRefModifications l (n + 1)) (refMods_loop l (Suc i)))))))))"
  by pat_completeness auto
termination
  by (relation "measure (\<lambda>(l, i). 33 - i)") auto

declare refMods_loop.simps [simp del]

definition decodeRefPicListReordering :: "unit sl" where
  "decodeRefPicListReordering =
     thn (set_NBRefModifications 0 0)
     (thn (set_NBRefModifications 1 0)
     (bnd (getH sh_ListCount) (\<lambda>n.
       forM [0..<nat n] (\<lambda>l. bnd readBit (\<lambda>flag. whenM (flag \<noteq> 0) (refMods_loop l 0))))))"

section \<open>The prediction weight table\<close>

definition fitsInt8 :: "int \<Rightarrow> bool" where
  "fitsInt8 v \<longleftrightarrow> v \<ge> -128 \<and> v \<le> 127"

definition setW :: "(PredWeightTable \<Rightarrow> PredWeightTable) \<Rightarrow> unit sl" where
  "setW f = setH (\<lambda>h. h\<lparr>sh_PredWeightTable := f (sh_PredWeightTable h)\<rparr>)"

definition putW :: "(PredWeightTable \<Rightarrow> PredWeightTable result) \<Rightarrow> unit sl" where
  "putW f = putH (\<lambda>h. rbind (f (sh_PredWeightTable h)) (\<lambda>w. Inr (h\<lparr>sh_PredWeightTable := w\<rparr>)))"

definition set2 :: "'a list list \<Rightarrow> nat \<Rightarrow> nat \<Rightarrow> 'a \<Rightarrow> 'a list list result" where
  "set2 a i j v = rbind (idx a i) (\<lambda>r. rbind (set_idx r j v) (set_idx a i))"

definition set3 :: "'a list list list \<Rightarrow> nat \<Rightarrow> nat \<Rightarrow> nat \<Rightarrow> 'a \<Rightarrow> 'a list list list result" where
  "set3 a i j k v = rbind (idx a i) (\<lambda>r. rbind (set2 r j k v) (set_idx a i))"

definition set4 :: "'a list list list list \<Rightarrow> nat \<Rightarrow> nat \<Rightarrow> nat \<Rightarrow> nat \<Rightarrow> 'a \<Rightarrow> 'a list list list list result" where
  "set4 a i j k l v = rbind (idx a i) (\<lambda>r. rbind (set3 r j k l v) (set_idx a i))"

definition set_LumaWeight :: "nat \<Rightarrow> nat \<Rightarrow> nat \<Rightarrow> int \<Rightarrow> unit sl" where
  "set_LumaWeight i l k v = putW (\<lambda>w. rbind (set3 (pwt_LumaWeight w) i l k v) (\<lambda>a. Inr (w\<lparr>pwt_LumaWeight := a\<rparr>)))"

definition set_ChromaWeight :: "nat \<Rightarrow> nat \<Rightarrow> nat \<Rightarrow> nat \<Rightarrow> int \<Rightarrow> unit sl" where
  "set_ChromaWeight i l j k v =
     putW (\<lambda>w. rbind (set4 (pwt_ChromaWeight w) i l j k v) (\<lambda>a. Inr (w\<lparr>pwt_ChromaWeight := a\<rparr>)))"

definition get_LumaWeight :: "nat \<Rightarrow> nat \<Rightarrow> nat \<Rightarrow> int sl" where
  "get_LumaWeight i l k = bnd (getH (\<lambda>h. pwt_LumaWeight (sh_PredWeightTable h))) (\<lambda>a.
     lift (rbind (idx a i) (\<lambda>r. rbind (idx r l) (\<lambda>r. idx r k))))"

definition get_ChromaWeight :: "nat \<Rightarrow> nat \<Rightarrow> nat \<Rightarrow> nat \<Rightarrow> int sl" where
  "get_ChromaWeight i l j k = bnd (getH (\<lambda>h. pwt_ChromaWeight (sh_PredWeightTable h))) (\<lambda>a.
     lift (rbind (idx a i) (\<lambda>r. rbind (idx r l) (\<lambda>r. rbind (idx r j) (\<lambda>r. idx r k)))))"

definition set_LumaWeightFlag :: "nat \<Rightarrow> int \<Rightarrow> unit sl" where
  "set_LumaWeightFlag l v =
     putW (\<lambda>w. rbind (set_idx (pwt_LumaWeightFlag w) l v) (\<lambda>a. Inr (w\<lparr>pwt_LumaWeightFlag := a\<rparr>)))"

definition set_ChromaWeightFlag :: "nat \<Rightarrow> int \<Rightarrow> unit sl" where
  "set_ChromaWeightFlag l v =
     putW (\<lambda>w. rbind (set_idx (pwt_ChromaWeightFlag w) l v) (\<lambda>a. Inr (w\<lparr>pwt_ChromaWeightFlag := a\<rparr>)))"

definition pwt_luma :: "int \<Rightarrow> nat \<Rightarrow> nat \<Rightarrow> unit sl" where
  "pwt_luma lumaDef l i =
     bnd readBit (\<lambda>lumaFlag.
     if lumaFlag \<noteq> 0 then
       bnd readSEGolombLong (\<lambda>v. thn (set_LumaWeight i l 0 v)
       (bnd readSEGolombLong (\<lambda>v. thn (set_LumaWeight i l 1 v)
       (bnd (get_LumaWeight i l 0) (\<lambda>w.
        bnd (get_LumaWeight i l 1) (\<lambda>off.
        if \<not> fitsInt8 w \<or> \<not> fitsInt8 off then fail ErrInvalidData
        else whenM (w \<noteq> lumaDef \<or> off \<noteq> 0)
          (thn (setW (\<lambda>t. t\<lparr>pwt_UseWeight := 1\<rparr>)) (set_LumaWeightFlag l 1))))))))
     else thn (set_LumaWeight i l 0 lumaDef) (set_LumaWeight i l 1 0))"

definition pwt_chroma_plane :: "int \<Rightarrow> nat \<Rightarrow> nat \<Rightarrow> nat \<Rightarrow> unit sl" where
  "pwt_chroma_plane chromaDef l i j =
     bnd readSEGolombLong (\<lambda>v. thn (set_ChromaWeight i l j 0 v)
     (bnd readSEGolombLong (\<lambda>v. thn (set_ChromaWeight i l j 1 v)
     (bnd (get_ChromaWeight i l j 0) (\<lambda>w.
      bnd (get_ChromaWeight i l j 1) (\<lambda>off.
      if \<not> fitsInt8 w \<or> \<not> fitsInt8 off then fail ErrInvalidData
      else whenM (w \<noteq> chromaDef \<or> off \<noteq> 0)
        (thn (setW (\<lambda>t. t\<lparr>pwt_UseWeightChroma := 1\<rparr>)) (set_ChromaWeightFlag l 1))))))))"

definition pwt_chroma :: "int \<Rightarrow> nat \<Rightarrow> nat \<Rightarrow> unit sl" where
  "pwt_chroma chromaDef l i =
     bnd readBit (\<lambda>chromaFlag.
     if chromaFlag \<noteq> 0 then forM [0, 1] (pwt_chroma_plane chromaDef l i)
     else forM [0, 1] (\<lambda>j. thn (set_ChromaWeight i l j 0 chromaDef) (set_ChromaWeight i l j 1 0)))"

text \<open>In a frame, the entries \<open>16 + 2 i\<close> and \<open>17 + 2 i\<close> of the fields of a macroblock pair.\<close>

definition pwt_fields :: "bool \<Rightarrow> nat \<Rightarrow> nat \<Rightarrow> unit sl" where
  "pwt_fields chroma l i =
     thn (forM [0, 1] (\<lambda>k. bnd (get_LumaWeight i l k) (\<lambda>v.
            thn (set_LumaWeight (16 + 2 * i) l k v) (set_LumaWeight (16 + 2 * i + 1) l k v))))
     (whenM chroma (forM [0, 1] (\<lambda>j. forM [0, 1] (\<lambda>k. bnd (get_ChromaWeight i l j k) (\<lambda>v.
            thn (set_ChromaWeight (16 + 2 * i) l j k v) (set_ChromaWeight (16 + 2 * i + 1) l j k v))))))"

definition pwt_list :: "SPS \<Rightarrow> int \<Rightarrow> int \<Rightarrow> nat \<Rightarrow> unit sl" where
  "pwt_list sps lumaDef chromaDef l =
     thn (set_LumaWeightFlag l 0)
     (thn (set_ChromaWeightFlag l 0)
     (bnd (getH (\<lambda>h. h)) (\<lambda>sh.
      bnd (lift (idx (sh_RefCount sh) l)) (\<lambda>count.
      forM [0..<unat count] (\<lambda>i.
        thn (pwt_luma lumaDef l i)
        (thn (whenM (sps_ChromaFormatIDC sps \<noteq> 0) (pwt_chroma chromaDef l i))
        (whenM (sh_PictureStructure sh = PictureFrame) (pwt_fields (sps_ChromaFormatIDC sps \<noteq> 0) l i))))))))"

definition log2_denom :: "u32 \<Rightarrow> u32" where
  "log2_denom d = (if d > 7 then 0 else d)"

definition predWeightTable :: "SPS \<Rightarrow> unit sl" where
  "predWeightTable sps =
     thn (setW (\<lambda>w. w\<lparr>pwt_UseWeight := 0, pwt_UseWeightChroma := 0\<rparr>))
     (bnd readUEGolomb31 (\<lambda>lumaDenom.
      thn (setW (\<lambda>w. w\<lparr>pwt_LumaLog2WeightDenom := log2_denom lumaDenom\<rparr>))
      (bnd (if sps_ChromaFormatIDC sps \<noteq> 0 then
              bnd readUEGolomb31 (\<lambda>chromaDenom.
              thn (setW (\<lambda>w. w\<lparr>pwt_ChromaLog2WeightDenom := log2_denom chromaDenom\<rparr>))
              (ret (push_bit (unat (log2_denom chromaDenom)) 1)))
            else ret 0) (\<lambda>chromaDef.
       let lumaDef = push_bit (unat (log2_denom lumaDenom)) 1 in
       bnd (getH sh_SliceTypeNoS) (\<lambda>ty.
       thn (pwt_list sps lumaDef chromaDef 0)
       (thn (whenM (ty = PictureTypeB) (pwt_list sps lumaDef chromaDef 1))
        (setW (\<lambda>w. if pwt_UseWeightChroma w \<noteq> 0 then w\<lparr>pwt_UseWeight := 1\<rparr> else w))))))))"

section \<open>The marking commands\<close>

definition longArg_invalid :: "u32 \<Rightarrow> u32 \<Rightarrow> int \<Rightarrow> bool" where
  "longArg_invalid opcode longArg structure \<longleftrightarrow>
     longArg \<ge> 32
     \<or> (longArg \<ge> 16 \<and> \<not> (opcode = mmcoSetMaxLong \<and> longArg = 16)
        \<and> \<not> (opcode = mmcoLong2Unused \<and> structure \<noteq> PictureFrame))"

text \<open>One round of the loop over the commands: the opcode read, its arguments stored.\<close>

definition mmco_args :: "nat \<Rightarrow> u32 \<Rightarrow> unit sl" where
  "mmco_args i opcode =
     thn (upd_MMCO i (\<lambda>c. c\<lparr>mmco_Opcode := opcode\<rparr>))
     (thn (whenM (opcode = mmcoShort2Unused \<or> opcode = mmcoShort2Long)
       (bnd readUEGolombLong (\<lambda>diff.
        bnd (getH (\<lambda>h. h)) (\<lambda>sh.
          upd_MMCO i (\<lambda>c. c\<lparr>mmco_ShortPicNum := (sh_CurrPicNum sh - diff - 1) AND (sh_MaxPicNum sh - 1)\<rparr>)))))
     (whenM (opcode = mmcoShort2Long \<or> opcode = mmcoLong2Unused \<or> opcode = mmcoLong \<or> opcode = mmcoSetMaxLong)
       (bnd readUEGolomb31 (\<lambda>longArg.
        bnd (getH sh_PictureStructure) (\<lambda>structure.
        if longArg_invalid opcode longArg structure then
          thn (setH (\<lambda>h. h\<lparr>sh_NBMMCO := word_of_nat i\<rparr>)) (fail ErrInvalidData)
        else upd_MMCO i (\<lambda>c. c\<lparr>mmco_LongArg := longArg\<rparr>))))))"

text \<open>The loop over the commands: the number of commands read when it ends.\<close>

function mmco_loop :: "nat \<Rightarrow> u32 \<Rightarrow> u32 sl" where
  "mmco_loop i nbMMCO =
     (if i < maxMMCOCount then
        bnd readUEGolomb31 (\<lambda>opcode.
        thn (mmco_args i opcode)
        (if opcode > mmcoLong then
           thn (setH (\<lambda>h. h\<lparr>sh_NBMMCO := word_of_nat i\<rparr>)) (fail ErrInvalidData)
         else if opcode = mmcoEnd then ret (word_of_nat i)
         else mmco_loop (Suc i) (word_of_nat (Suc i))))
      else ret nbMMCO)"
  by pat_completeness auto
termination
  by (relation "measure (\<lambda>(i, _). 67 - i)") auto

declare mmco_loop.simps [simp del]

definition decodeRefPicMarking :: "unit sl" where
  "decodeRefPicMarking =
     bnd (getH sh_NALType) (\<lambda>nalType.
     if nalType = NALIDRSlice then
       thn (skipBits 1)
       (bnd readBit (\<lambda>longTermReferenceFlag.
        thn (whenM (longTermReferenceFlag \<noteq> 0)
          (upd_MMCO 0 (\<lambda>c. c\<lparr>mmco_Opcode := mmcoLong, mmco_LongArg := 0\<rparr>)))
        (setH (\<lambda>h. h\<lparr>sh_ExplicitRefMarking := 1, sh_NBMMCO := (if longTermReferenceFlag \<noteq> 0 then 1 else 0)\<rparr>))))
     else
       bnd readBit (\<lambda>explicit.
       thn (setH (\<lambda>h. h\<lparr>sh_ExplicitRefMarking := i32_of explicit\<rparr>))
       (if explicit = 0 then setH (\<lambda>h. h\<lparr>sh_NBMMCO := 0\<rparr>)
        else bnd (mmco_loop 0 0) (\<lambda>nbMMCO. setH (\<lambda>h. h\<lparr>sh_NBMMCO := nbMMCO\<rparr>)))))"

section \<open>The header\<close>

definition slice_type :: "unit sl" where
  "slice_type =
     bnd readUEGolombLong (\<lambda>firstMB.
     thn (setH (\<lambda>h. h\<lparr>sh_FirstMBAddr := firstMB\<rparr>))
     (bnd readUEGolomb31 (\<lambda>sliceType.
      if sliceType > 9 then fail ErrInvalidData
      else
        thn (whenM (sliceType > 4) (setH (\<lambda>h. h\<lparr>sh_SliceTypeFixed := 1\<rparr>)))
        (bnd (lift (idx h264GolombToPictureType (unat (if sliceType > 4 then sliceType - 5 else sliceType)))) (\<lambda>ty.
         thn (setH (\<lambda>h. h\<lparr>sh_SliceType := ty, sh_SliceTypeNoS := ty AND 3\<rparr>))
         (bnd (getH (\<lambda>h. h)) (\<lambda>sh.
          if sh_NALType sh = NALIDRSlice \<and> sh_SliceTypeNoS sh \<noteq> PictureTypeI then fail ErrInvalidData
          else ret ())))))))"

text \<open>The parameter sets; a nil SPS pointer would be dereferenced.\<close>

definition slice_pps :: "PPS option list \<Rightarrow> (PPS \<times> SPS) sl" where
  "slice_pps ppsList =
     bnd readUEGolombLong (\<lambda>ppsID.
     thn (setH (\<lambda>h. h\<lparr>sh_PPSID := ppsID\<rparr>))
     (if unat ppsID \<ge> maxPPSCount then fail ErrInvalidData
      else bnd (lift (idx ppsList (unat ppsID))) (\<lambda>entry.
        case entry of
          None \<Rightarrow> fail ErrInvalidData
        | Some pps \<Rightarrow>
            thn (setH (\<lambda>h. h\<lparr>sh_PPS := Some pps, sh_SPS := pps_SPS pps\<rparr>))
            (case pps_SPS pps of None \<Rightarrow> fail Panic | Some sps \<Rightarrow> ret (pps, sps)))))"

definition slice_structure :: "SPS \<Rightarrow> unit sl" where
  "slice_structure sps =
     thn (if sps_FrameMBSOnlyFlag sps \<noteq> 0 then setH (\<lambda>h. h\<lparr>sh_PictureStructure := PictureFrame\<rparr>)
      else
        bnd (getH sh_SliceType) (\<lambda>ty.
        if sps_Direct8x8InferenceFlag sps = 0 \<and> ty = PictureTypeB then fail ErrInvalidData
        else bnd readBit (\<lambda>fieldPicFlag.
          if fieldPicFlag \<noteq> 0
          then bnd readBit (\<lambda>bottomFieldFlag.
                 setH (\<lambda>h. h\<lparr>sh_PictureStructure := PictureTopField + i32_of bottomFieldFlag\<rparr>))
          else setH (\<lambda>h. h\<lparr>sh_PictureStructure := PictureFrame\<rparr>))))
     (setH (\<lambda>h. if sh_PictureStructure h \<noteq> PictureFrame
        then h\<lparr>sh_MBFieldDecodingFlag := 1, sh_CurrPicNum := 2 * sh_FrameNum h + 1,
               sh_MaxPicNum := push_bit (unat (u32_of (sps_Log2MaxFrameNum sps + 1))) 1\<rparr>
        else h\<lparr>sh_CurrPicNum := sh_FrameNum h,
               sh_MaxPicNum := push_bit (unat (u32_of (sps_Log2MaxFrameNum sps))) 1\<rparr>))"

definition slice_poc :: "PPS \<Rightarrow> SPS \<Rightarrow> unit sl" where
  "slice_poc pps sps =
     bnd (getH (\<lambda>h. h)) (\<lambda>sh.
     thn (whenM (sh_NALType sh = NALIDRSlice)
       (bnd readUEGolombLong (\<lambda>idrPicID. whenM (idrPicID < 65536) (setH (\<lambda>h. h\<lparr>sh_IDRPicID := idrPicID\<rparr>)))))
     (thn (whenM (sps_PocType sps = 0)
       (bnd (readBits (u32_of (sps_Log2MaxPocLSB sps))) (\<lambda>pocLSB.
        thn (setH (\<lambda>h. h\<lparr>sh_POCLSB := pocLSB\<rparr>))
        (whenM (pps_PicOrderPresent pps = 1 \<and> sh_PictureStructure sh = PictureFrame)
          (bnd readSEGolombLong (\<lambda>d. setH (\<lambda>h. h\<lparr>sh_DeltaPOCBottom := d\<rparr>)))))))
     (whenM (sps_PocType sps = 1 \<and> sps_DeltaPicOrderAlwaysZeroFlag sps = 0)
       (bnd readSEGolombLong (\<lambda>d. thn (set_DeltaPOC 0 d)
        (whenM (pps_PicOrderPresent pps = 1 \<and> sh_PictureStructure sh = PictureFrame)
          (bnd readSEGolombLong (\<lambda>d. set_DeltaPOC 1 d))))))))"

definition slice_refs :: "PPS \<Rightarrow> SPS \<Rightarrow> unit sl" where
  "slice_refs pps sps =
     thn (whenM (pps_RedundantPicCntPresent pps \<noteq> 0)
       (bnd readUEGolombLong (\<lambda>v. setH (\<lambda>h. h\<lparr>sh_RedundantPicCount := v\<rparr>))))
     (bnd (getH (\<lambda>h. h)) (\<lambda>sh.
      thn (whenM (sh_SliceTypeNoS sh = PictureTypeB)
        (bnd readBit (\<lambda>b. setH (\<lambda>h. h\<lparr>sh_DirectSpatialMVPred := i32_of b\<rparr>))))
      (thn (parseRefCount pps)
      (thn (whenM (sh_SliceTypeNoS sh \<noteq> PictureTypeI)
        (catch decodeRefPicListReordering (\<lambda>e. thn (set_RefCount 0 0) (thn (set_RefCount 1 0) (fail e)))))
      (thn (whenM ((pps_WeightedPred pps \<noteq> 0 \<and> sh_SliceTypeNoS sh = PictureTypeP)
             \<or> (pps_WeightedBipredIDC pps = 1 \<and> sh_SliceTypeNoS sh = PictureTypeB)) (predWeightTable sps))
      (whenM (sh_NALRefIDC sh \<noteq> 0) decodeRefPicMarking))))))"

definition slice_quant :: "PPS \<Rightarrow> SPS \<Rightarrow> unit sl" where
  "slice_quant pps sps =
     bnd (getH (\<lambda>h. h)) (\<lambda>sh.
     thn (whenM (sh_SliceTypeNoS sh \<noteq> PictureTypeI \<and> pps_CABAC pps \<noteq> 0)
       (bnd readUEGolomb31 (\<lambda>cabacInitIDC.
        if cabacInitIDC > 2 then fail ErrInvalidData else setH (\<lambda>h. h\<lparr>sh_CABACInitIDC := cabacInitIDC\<rparr>))))
     (bnd readSEGolombLong (\<lambda>sliceQPDelta.
      let qscale = i32 (pps_InitQP pps + sliceQPDelta)
      in if qscale < 0 \<or> qscale > max_qp (sps_BitDepthLuma sps) then fail ErrInvalidData
         else
           thn (setH (\<lambda>h. h\<lparr>sh_QScale := u32_of qscale\<rparr>))
           (thn (forM [0, 1] (\<lambda>t.
              bnd (lift (rbind (idx (pps_ChromaQPTable pps) t) (\<lambda>row. idx row (unat (u32_of qscale))))) (set_ChromaQP t)))
           (thn (whenM (sh_SliceType sh = PictureTypeSP)
              (bnd readBit (\<lambda>b. setH (\<lambda>h. h\<lparr>sh_SPForSwitchFlag := i32_of b\<rparr>))))
            (whenM (sh_SliceType sh = PictureTypeSP \<or> sh_SliceType sh = PictureTypeSI)
              (bnd readSEGolombLong (\<lambda>d. setH (\<lambda>h. h\<lparr>sh_SliceQSDelta := d\<rparr>)))))))))"

definition slice_deblock :: "PPS \<Rightarrow> unit sl" where
  "slice_deblock pps =
     thn (setH (\<lambda>h. h\<lparr>sh_DeblockingFilter := 1\<rparr>))
     (whenM (pps_DeblockingFilterParametersPresent pps \<noteq> 0)
       (bnd readUEGolomb31 (\<lambda>disableIDC.
        if disableIDC > 2 then fail ErrInvalidData
        else let filter = (if i32_of disableIDC < 2 then i32_of disableIDC XOR 1 else i32_of disableIDC) in
          thn (setH (\<lambda>h. h\<lparr>sh_DeblockingFilter := filter\<rparr>))
          (whenM (filter \<noteq> 0)
            (bnd readSEGolombLong (\<lambda>alpha.
             bnd readSEGolombLong (\<lambda>beta.
             if alpha > 6 \<or> alpha < -6 \<or> beta > 6 \<or> beta < -6 then fail ErrInvalidData
             else setH (\<lambda>h. h\<lparr>sh_SliceAlphaC0Offset := alpha * 2, sh_SliceBetaOffset := beta * 2\<rparr>))))))))"

definition slice_parser :: "PPS option list \<Rightarrow> unit sl" where
  "slice_parser ppsList =
     thn slice_type
     (bnd (slice_pps ppsList) (\<lambda>(pps, sps).
      thn (bnd (readBits (u32_of (sps_Log2MaxFrameNum sps))) (\<lambda>v. setH (\<lambda>h. h\<lparr>sh_FrameNum := v\<rparr>)))
      (thn (slice_structure sps)
      (thn (slice_poc pps sps)
      (thn (slice_refs pps sps)
      (thn (slice_quant pps sps)
       (slice_deblock pps)))))))"

definition slice_start :: "NALUnit \<Rightarrow> bitReader \<Rightarrow> slice_parse" where
  "slice_start nal gb = \<lparr>gb_buf = gb_buf gb, gb_bitPos = gb_bitPos gb, gb_numBits = gb_numBits gb,
     gb_invalid = gb_invalid gb,
     pr_sh = sh_init\<lparr>sh_NALType := nal_Type nal, sh_NALRefIDC := nal_RefIDC nal\<rparr>\<rparr>"

text \<open>
  The reader behind the header, and the header as the caller finds it; the header passed in is
  only read when the parser returns before it starts.
\<close>

definition parseSliceHeaderWithPayloadInto :: "NALUnit \<Rightarrow> PPS option list \<Rightarrow> SliceHeader \<Rightarrow> bitReader result \<times> SliceHeader" where
  "parseSliceHeaderWithPayloadInto nal ppsList sh =
     (if nal_Type nal \<noteq> NALSlice \<and> nal_Type nal \<noteq> NALIDRSlice then (Inl ErrInvalidData, sh)
      else case newRBSPBitReader (nal_RBSP nal) of
        Inl e \<Rightarrow> (Inl e, sh)
      | Inr gb \<Rightarrow> (case slice_parser ppsList (slice_start nal gb) of
          (Inl e, s) \<Rightarrow> (Inl e, pr_sh s)
        | (Inr _, s) \<Rightarrow> (Inr (bitReader.truncate s), pr_sh s)))"

definition parseSliceHeaderWithPayload :: "NALUnit \<Rightarrow> PPS option list \<Rightarrow> (SliceHeader \<times> bitReader) result" where
  "parseSliceHeaderWithPayload nal ppsList =
     (case parseSliceHeaderWithPayloadInto nal ppsList sh_init of
        (Inl e, _) \<Rightarrow> Inl e
      | (Inr gb, sh) \<Rightarrow> Inr (sh, gb))"

definition ParseSliceHeader :: "NALUnit \<Rightarrow> PPS option list \<Rightarrow> SliceHeader \<times> unit result" where
  "ParseSliceHeader nal ppsList =
     (case parseSliceHeaderWithPayloadInto nal ppsList sh_init of (r, sh) \<Rightarrow> (sh, rbind r (\<lambda>_. Inr ())))"

section \<open>Arrays of arrays\<close>

text \<open>An array of \<open>n\<close> elements that all satisfy \<open>P\<close>, to be nested.\<close>

definition arr :: "('a \<Rightarrow> bool) \<Rightarrow> nat \<Rightarrow> 'a list \<Rightarrow> bool" where
  "arr P n a \<longleftrightarrow> length a = n \<and> list_all P a"

lemma arr_length: "arr P n a \<Longrightarrow> length a = n"
  by (simp add: arr_def)

lemma arr_nth: "arr P n a \<Longrightarrow> i < n \<Longrightarrow> P (a ! i)"
  by (simp add: arr_def list_all_length)

lemma arr_update: "arr P n a \<Longrightarrow> P v \<Longrightarrow> arr P n (a[i := v])"
  using set_update_subset_insert [of a i v] by (auto simp: arr_def list_all_iff)

lemma arr_replicate: "P v \<Longrightarrow> arr P n (replicate n v)"
  by (simp add: arr_def list_all_iff)

lemma arr_two: "arr P 2 [a, b] \<longleftrightarrow> P a \<and> P b"
  by (simp add: arr_def)

text \<open>The array after an assignment to one element.\<close>

definition upd2 :: "'a list list \<Rightarrow> nat \<Rightarrow> nat \<Rightarrow> 'a \<Rightarrow> 'a list list" where
  "upd2 a i j v = a[i := (a ! i)[j := v]]"

definition upd3 :: "'a list list list \<Rightarrow> nat \<Rightarrow> nat \<Rightarrow> nat \<Rightarrow> 'a \<Rightarrow> 'a list list list" where
  "upd3 a i j k v = a[i := upd2 (a ! i) j k v]"

definition upd4 :: "'a list list list list \<Rightarrow> nat \<Rightarrow> nat \<Rightarrow> nat \<Rightarrow> nat \<Rightarrow> 'a \<Rightarrow> 'a list list list list" where
  "upd4 a i j k l v = a[i := upd3 (a ! i) j k l v]"

lemma set2_upd:
  assumes "arr (arr P m) n a" "i < n" "j < m"
  shows "set2 a i j v = Inr (upd2 a i j v)" "P v \<Longrightarrow> arr (arr P m) n (upd2 a i j v)"
    and "upd2 a i j v ! i ! j = v"
  using assms arr_nth [OF assms(1,2)] by (auto simp: set2_def upd2_def arr_length intro!: arr_update)

lemma set3_upd:
  assumes "arr (arr (arr P l) m) n a" "i < n" "j < m" "k < l"
  shows "set3 a i j k v = Inr (upd3 a i j k v)" "P v \<Longrightarrow> arr (arr (arr P l) m) n (upd3 a i j k v)"
    and "upd3 a i j k v ! i ! j ! k = v"
  using assms set2_upd [OF arr_nth [OF assms(1,2)] assms(3,4), of v]
  by (auto simp: set3_def upd3_def arr_length intro!: arr_update)

lemma set4_upd:
  assumes "arr (arr (arr (arr P o') l) m) n a" "i < n" "j < m" "k < l" "h < o'"
  shows "set4 a i j k h v = Inr (upd4 a i j k h v)" "P v \<Longrightarrow> arr (arr (arr (arr P o') l) m) n (upd4 a i j k h v)"
    and "upd4 a i j k h v ! i ! j ! k ! h = v"
  using assms set3_upd [OF arr_nth [OF assms(1,2)] assms(3-5), of v]
  by (auto simp: set4_def upd4_def arr_length intro!: arr_update)

section \<open>What a parsed header satisfies\<close>

text \<open>The predicates are on the fields they concern, so that an update of another field leaves them.\<close>

definition type_ok :: "int \<Rightarrow> int \<Rightarrow> bool" where
  "type_ok ty nos \<longleftrightarrow> ty \<in> {PictureTypeI, PictureTypeP, PictureTypeB, PictureTypeSI, PictureTypeSP}
     \<and> nos = (if ty = PictureTypeSI then PictureTypeI else if ty = PictureTypeSP then PictureTypeP else ty)"

definition num_ok :: "SPS \<Rightarrow> int \<Rightarrow> int \<Rightarrow> u32 \<Rightarrow> u32 \<Rightarrow> u32 \<Rightarrow> bool" where
  "num_ok sps structure mbField frameNum currPicNum maxPicNum \<longleftrightarrow>
     structure \<in> {PictureTopField, PictureBottomField, PictureFrame}
     \<and> (sps_FrameMBSOnlyFlag sps \<noteq> 0 \<longrightarrow> structure = PictureFrame)
     \<and> mbField = (if structure = PictureFrame then 0 else 1)
     \<and> int (unat frameNum) < 2 ^ nat (sps_Log2MaxFrameNum sps)
     \<and> unat maxPicNum = 2 ^ nat (sps_Log2MaxFrameNum sps) * (if structure = PictureFrame then 1 else 2)
     \<and> unat currPicNum = (if structure = PictureFrame then unat frameNum else 2 * unat frameNum + 1)"

definition max_refs :: "int \<Rightarrow> nat" where
  "max_refs structure = (if structure = PictureFrame then 16 else 32)"

definition refs_ok :: "int \<Rightarrow> int \<Rightarrow> int \<Rightarrow> u32 list \<Rightarrow> bool" where
  "refs_ok nos structure listCount rc \<longleftrightarrow>
     length rc = 2 \<and> unat (rc ! 0) \<le> max_refs structure \<and> unat (rc ! 1) \<le> max_refs structure
     \<and> listCount = (if nos = PictureTypeI then 0 else if nos = PictureTypeP then 1 else 2)
     \<and> (if nos = PictureTypeI then rc = [0, 0] else rc ! 0 \<noteq> 0 \<and> (nos = PictureTypeB \<longrightarrow> rc ! 1 \<noteq> 0))"

definition mods_ok :: "u32 list \<Rightarrow> u32 list \<Rightarrow> RefModification list list \<Rightarrow> bool" where
  "mods_ok rc nb mods \<longleftrightarrow> length nb = 2 \<and> arr (arr (\<lambda>m. rm_Op m \<le> 2) 32) 2 mods
     \<and> unat (nb ! 0) \<le> unat (rc ! 0) \<and> unat (nb ! 1) \<le> unat (rc ! 1)"

definition weight_ok :: "int \<Rightarrow> bool" where
  "weight_ok w \<longleftrightarrow> -128 \<le> w \<and> w \<le> 128"

definition pwt_ok :: "PredWeightTable \<Rightarrow> bool" where
  "pwt_ok w \<longleftrightarrow> unat (pwt_LumaLog2WeightDenom w) \<le> 7 \<and> unat (pwt_ChromaLog2WeightDenom w) \<le> 7
     \<and> length (pwt_LumaWeightFlag w) = 2 \<and> length (pwt_ChromaWeightFlag w) = 2
     \<and> arr (arr (arr weight_ok 2) 2) 48 (pwt_LumaWeight w)
     \<and> arr (arr (arr (arr weight_ok 2) 2) 2) 48 (pwt_ChromaWeight w)"

definition mmco_cmd_ok :: "int \<Rightarrow> u32 \<Rightarrow> MMCO \<Rightarrow> bool" where
  "mmco_cmd_ok structure maxPicNum c \<longleftrightarrow> 1 \<le> mmco_Opcode c \<and> mmco_Opcode c \<le> 6
     \<and> (mmco_Opcode c = mmcoShort2Unused \<or> mmco_Opcode c = mmcoShort2Long \<longrightarrow> mmco_ShortPicNum c < maxPicNum)
     \<and> (mmco_Opcode c \<in> {mmcoShort2Long, mmcoLong2Unused, mmcoLong, mmcoSetMaxLong}
         \<longrightarrow> \<not> longArg_invalid (mmco_Opcode c) (mmco_LongArg c) structure)"

definition mmco_ok :: "int \<Rightarrow> u32 \<Rightarrow> nat \<Rightarrow> MMCO list \<Rightarrow> bool" where
  "mmco_ok structure maxPicNum n cmds \<longleftrightarrow> length cmds = 67 \<and> n \<le> 67
     \<and> list_all (mmco_cmd_ok structure maxPicNum) (take n cmds)"

definition quant_ok :: "PPS \<Rightarrow> SPS \<Rightarrow> u32 \<Rightarrow> u8 list \<Rightarrow> bool" where
  "quant_ok pps sps q cqp \<longleftrightarrow> int (unat q) \<le> max_qp (sps_BitDepthLuma sps)
     \<and> cqp = [pps_ChromaQPTable pps ! 0 ! unat q, pps_ChromaQPTable pps ! 1 ! unat q]"

definition deblock_ok :: "int \<Rightarrow> int \<Rightarrow> int \<Rightarrow> bool" where
  "deblock_ok mode alpha beta \<longleftrightarrow> 0 \<le> mode \<and> mode \<le> 2
     \<and> -12 \<le> alpha \<and> alpha \<le> 12 \<and> even alpha \<and> -12 \<le> beta \<and> beta \<le> 12 \<and> even beta"

definition slice_ok :: "PPS option list \<Rightarrow> SliceHeader \<Rightarrow> bool" where
  "slice_ok ppsList h \<longleftrightarrow>
     type_ok (sh_SliceType h) (sh_SliceTypeNoS h) \<and> unat (sh_PPSID h) < 256
     \<and> ppsList ! unat (sh_PPSID h) = sh_PPS h
     \<and> refs_ok (sh_SliceTypeNoS h) (sh_PictureStructure h) (sh_ListCount h) (sh_RefCount h)
     \<and> mods_ok (sh_RefCount h) (sh_NBRefModifications h) (sh_RefModifications h)
     \<and> pwt_ok (sh_PredWeightTable h)
     \<and> mmco_ok (sh_PictureStructure h) (sh_MaxPicNum h) (unat (sh_NBMMCO h)) (sh_MMCO h)
     \<and> unat (sh_CABACInitIDC h) \<le> 2 \<and> unat (sh_IDRPicID h) < 65536 \<and> length (sh_DeltaPOC h) = 2
     \<and> deblock_ok (sh_DeblockingFilter h) (sh_SliceAlphaC0Offset h) (sh_SliceBetaOffset h)
     \<and> (case (sh_PPS h, sh_SPS h) of
          (Some pps, Some sps) \<Rightarrow> pps_ok pps \<and> pps_SPS pps = Some sps
            \<and> num_ok sps (sh_PictureStructure h) (sh_MBFieldDecodingFlag h) (sh_FrameNum h) (sh_CurrPicNum h) (sh_MaxPicNum h)
            \<and> (sps_PocType sps = 0 \<longrightarrow> unat (sh_POCLSB h) < 2 ^ nat (sps_Log2MaxPocLSB sps))
            \<and> quant_ok pps sps (sh_QScale h) (sh_ChromaQP h)
        | _ \<Rightarrow> False)"

section \<open>The parser keeps to it\<close>

lemma wf_reader_sh [simp]: "wf_reader (s\<lparr>pr_sh := x\<rparr>) = wf_reader s"
  by (simp add: wf_reader_def)

lemma wp_setH [wp_simps]: "wp (setH f) Q E s = Q () (s\<lparr>pr_sh := f (pr_sh s)\<rparr>)"
  by (simp add: setH_def wp_simps)

lemma wp_getH [wp_simps]: "wp (getH f) Q E s = Q (f (pr_sh s)) s"
  by (simp add: getH_def wp_simps)

lemma wp_putH [wp_simps]:
  "wp (putH f) Q E s = (case f (pr_sh s) of Inr h \<Rightarrow> Q () (s\<lparr>pr_sh := h\<rparr>) | Inl e \<Rightarrow> E e s)"
  by (simp add: putH_def wp_simps split: sum.split)

lemma sl_op:
  fixes m :: "'a sl"
  assumes "reader_op m R" "wf_reader s"
    and "\<And>v s'. R v \<Longrightarrow> wf_reader s' \<Longrightarrow> pr_sh s' = pr_sh s \<Longrightarrow> Q v s'"
    and "\<And>s'. wf_reader s' \<Longrightarrow> pr_sh s' = pr_sh s \<Longrightarrow> E ErrInvalidData s'"
  shows "wp m Q E s"
  using assms(2) by (rule reader_op.wp_op [OF assms(1)]) (auto intro: assms(3,4))

lemmas sl_ops =
  sl_op [OF readBit_flag] sl_op [OF readBits_contract] sl_op [OF skipBits_contract]
  sl_op [OF readUEGolombLong.reader_op_axioms] sl_op [OF readUEGolomb31.reader_op_axioms]
  sl_op [OF readSEGolombLong.reader_op_axioms]

text \<open>The assignments, where the arrays have their lengths.\<close>

lemma wp_set_elems [wp_simps]:
  "wp (set_RefCount i v) Q E s = (if i < length (sh_RefCount (pr_sh s))
     then Q () (s\<lparr>pr_sh := (pr_sh s)\<lparr>sh_RefCount := (sh_RefCount (pr_sh s))[i := v]\<rparr>\<rparr>) else E Panic s)"
  "wp (set_NBRefModifications i v) Q E s = (if i < length (sh_NBRefModifications (pr_sh s))
     then Q () (s\<lparr>pr_sh := (pr_sh s)\<lparr>sh_NBRefModifications := (sh_NBRefModifications (pr_sh s))[i := v]\<rparr>\<rparr>) else E Panic s)"
  "wp (set_DeltaPOC i w) Q E s = (if i < length (sh_DeltaPOC (pr_sh s))
     then Q () (s\<lparr>pr_sh := (pr_sh s)\<lparr>sh_DeltaPOC := (sh_DeltaPOC (pr_sh s))[i := w]\<rparr>\<rparr>) else E Panic s)"
  "wp (set_ChromaQP i c) Q E s = (if i < length (sh_ChromaQP (pr_sh s))
     then Q () (s\<lparr>pr_sh := (pr_sh s)\<lparr>sh_ChromaQP := (sh_ChromaQP (pr_sh s))[i := c]\<rparr>\<rparr>) else E Panic s)"
  "wp (upd_MMCO i f) Q E s = (if i < length (sh_MMCO (pr_sh s))
     then Q () (s\<lparr>pr_sh := (pr_sh s)\<lparr>sh_MMCO := (sh_MMCO (pr_sh s))[i := f (sh_MMCO (pr_sh s) ! i)]\<rparr>\<rparr>) else E Panic s)"
  by (simp_all add: set_RefCount_def set_NBRefModifications_def set_DeltaPOC_def set_ChromaQP_def upd_MMCO_def wp_simps)

lemma wp_set_RefModification:
  assumes "arr (arr P 32) 2 (sh_RefModifications (pr_sh s))" "l < 2" "i < 32"
  shows "wp (set_RefModification l i v) Q E s
    = Q () (s\<lparr>pr_sh := (pr_sh s)\<lparr>sh_RefModifications := upd2 (sh_RefModifications (pr_sh s)) l i v\<rparr>\<rparr>)"
  using assms arr_nth [OF assms(1,2)]
  by (simp add: set_RefModification_def wp_simps upd2_def arr_length)

definition sh_shape :: "SliceHeader \<Rightarrow> bool" where
  "sh_shape h \<longleftrightarrow> length (sh_RefCount h) = 2 \<and> length (sh_NBRefModifications h) = 2 \<and> length (sh_DeltaPOC h) = 2
     \<and> length (sh_ChromaQP h) = 2 \<and> length (sh_MMCO h) = 67
     \<and> arr (arr (\<lambda>m. rm_Op m \<le> 2) 32) 2 (sh_RefModifications h) \<and> pwt_ok (sh_PredWeightTable h)"

text \<open>What holds before the parsing starts, and what each stage adds.\<close>

definition sl_base :: "SliceHeader \<Rightarrow> bool" where
  "sl_base h \<longleftrightarrow> sh_shape h \<and> sh_NBRefModifications h = [0, 0] \<and> sh_NBMMCO h = 0 \<and> sh_CABACInitIDC h = 0
     \<and> sh_IDRPicID h = 0 \<and> sh_SliceAlphaC0Offset h = 0 \<and> sh_SliceBetaOffset h = 0"

definition sl_start :: "SliceHeader \<Rightarrow> bool" where
  "sl_start h \<longleftrightarrow> sl_base h \<and> sh_MBFieldDecodingFlag h = 0"

lemma sl_start_init: "sl_start (sh_init\<lparr>sh_NALType := t, sh_NALRefIDC := r\<rparr>)"
proof -
  have "arr (arr (\<lambda>m. rm_Op m \<le> 2) 32) 2 (replicate 2 (replicate 32 \<lparr>rm_Op = 0, rm_Val = 0\<rparr>))"
    by (intro arr_replicate) simp
  moreover have "pwt_ok pwt_init"
    by (auto simp: pwt_ok_def pwt_init_def weight_ok_def intro!: arr_replicate)
  ultimately show ?thesis by (simp add: sl_start_def sl_base_def sh_shape_def sh_init_def)
qed

lemma golomb_types:
  "length h264GolombToPictureType = 5
   \<and> list_all (\<lambda>n. type_ok (h264GolombToPictureType ! n) (h264GolombToPictureType ! n AND 3)) [0..<5]"
  by code_simp

lemma wp_slice_type:
  assumes "wf_reader s" "sl_start (pr_sh s)"
  shows "wp slice_type (\<lambda>_ s'. wf_reader s' \<and> sl_start (pr_sh s')
      \<and> type_ok (sh_SliceType (pr_sh s')) (sh_SliceTypeNoS (pr_sh s'))) np s"
proof -
  have t: "4 < t \<Longrightarrow> \<not> 9 < t \<Longrightarrow> unat (t - 5) < 5" "\<not> 4 < t \<Longrightarrow> unat t < 5" for t :: u32
    by (simp_all add: unat_sub word_le_nat_alt word_less_nat_alt not_less)
  have l: "length h264GolombToPictureType = 5"
    "\<And>n k. n < 5 \<Longrightarrow> h264GolombToPictureType ! n AND 3 = k \<Longrightarrow> type_ok (h264GolombToPictureType ! n) k"
    using golomb_types by (auto simp: list_all_iff)
  show ?thesis
    using assms
    by (auto simp: wp_simps slice_type_def sl_start_def sl_base_def sh_shape_def t l intro!: sl_ops)
qed

definition sl_ids :: "PPS option list \<Rightarrow> PPS \<Rightarrow> SPS \<Rightarrow> SliceHeader \<Rightarrow> bool" where
  "sl_ids l pps sps h \<longleftrightarrow> unat (sh_PPSID h) < 256 \<and> l ! unat (sh_PPSID h) = Some pps \<and> sh_PPS h = Some pps
     \<and> sh_SPS h = Some sps \<and> pps_SPS pps = Some sps \<and> pps_ok pps"

lemma wp_slice_pps:
  assumes "wf_reader s" "sl_start (pr_sh s)" "type_ok (sh_SliceType (pr_sh s)) (sh_SliceTypeNoS (pr_sh s))" "pps_list_ok l"
  shows "wp (slice_pps l) (\<lambda>(pps, sps) s'. wf_reader s' \<and> sl_start (pr_sh s')
      \<and> type_ok (sh_SliceType (pr_sh s')) (sh_SliceTypeNoS (pr_sh s')) \<and> sl_ids l pps sps (pr_sh s')) np s"
proof -
  have l: "length l = 256" "\<And>i p. i < 256 \<Longrightarrow> l ! i = Some p \<Longrightarrow> pps_ok p"
    using assms(4) by (auto simp: pps_list_ok_def list_all_length split: option.splits)
  have k: False if "l ! i = Some p" "i < 256" "pps_SPS p = None" for i p
    using l(2) [OF that(2,1)] that(3) by (simp add: pps_ok_def)
  show ?thesis
    using assms(1-3) l
    by (auto simp: wp_simps slice_pps_def sl_start_def sl_base_def sh_shape_def sl_ids_def maxPPSCount_def not_le
        intro!: sl_ops split: option.splits dest: k)
qed

text \<open>The syntax-element lengths an admitted SPS gives.\<close>

lemma sl_ids_sps:
  assumes "sl_ids l pps sps h"
  shows "4 \<le> sps_Log2MaxFrameNum sps" "sps_Log2MaxFrameNum sps \<le> 16"
    "sps_PocType sps = 0 \<Longrightarrow> 4 \<le> sps_Log2MaxPocLSB sps" "sps_PocType sps = 0 \<Longrightarrow> sps_Log2MaxPocLSB sps \<le> 16"
    "8 \<le> sps_BitDepthLuma sps" "sps_BitDepthLuma sps \<le> 14"
    and "length (pps_RefCount pps) = 2" "1 \<le> unat (pps_RefCount pps ! 0)" "unat (pps_RefCount pps ! 0) \<le> 32"
    "1 \<le> unat (pps_RefCount pps ! Suc 0)" "unat (pps_RefCount pps ! Suc 0) \<le> 32"
proof -
  have p: "pps_shape pps" "pps_refs_ok pps" "pps_ids_ok sps pps"
    using assms by (auto simp: sl_ids_def pps_ok_def)
  then have "sps_poc_ok sps" "sps_format_ok sps" by (simp_all add: pps_ids_ok_def sps_ok_def)
  then show "4 \<le> sps_Log2MaxFrameNum sps" "sps_Log2MaxFrameNum sps \<le> 16"
    "sps_PocType sps = 0 \<Longrightarrow> 4 \<le> sps_Log2MaxPocLSB sps" "sps_PocType sps = 0 \<Longrightarrow> sps_Log2MaxPocLSB sps \<le> 16"
    "8 \<le> sps_BitDepthLuma sps" "sps_BitDepthLuma sps \<le> 14"
    by (simp_all add: sps_poc_ok_def sps_format_ok_def)
  show l: "length (pps_RefCount pps) = 2" by (rule pps_shape_two [OF p(1)])
  show "1 \<le> unat (pps_RefCount pps ! 0)" "unat (pps_RefCount pps ! 0) \<le> 32"
    "1 \<le> unat (pps_RefCount pps ! Suc 0)" "unat (pps_RefCount pps ! Suc 0) \<le> 32"
    using p(2) l by (auto simp: pps_refs_ok_def list_all_length)
qed

lemma unat_u32_of: "0 \<le> n \<Longrightarrow> n \<le> MaxInt32 \<Longrightarrow> unat (u32_of n) = nat n"
  by (simp add: u32_of_def unsigned_of_int take_bit_int_eq_self)

lemma unat_shift1:
  assumes "n < 32"
  shows "unat (push_bit n 1 :: u32) = 2 ^ n"
proof -
  have "(2 :: nat) ^ n \<le> 2 ^ 31" using assms by (intro power_increasing) auto
  then have "unat (word_of_nat (2 ^ n) :: u32) = 2 ^ n"
    unfolding unat_of_nat by simp
  then show ?thesis by (simp add: push_bit_eq_mult)
qed

definition sl_num :: "PPS option list \<Rightarrow> PPS \<Rightarrow> SPS \<Rightarrow> SliceHeader \<Rightarrow> bool" where
  "sl_num l pps sps h \<longleftrightarrow> sl_ids l pps sps h \<and> type_ok (sh_SliceType h) (sh_SliceTypeNoS h)
     \<and> num_ok sps (sh_PictureStructure h) (sh_MBFieldDecodingFlag h) (sh_FrameNum h) (sh_CurrPicNum h) (sh_MaxPicNum h)"

lemma wp_frame_num:
  assumes "wf_reader s" "sl_start (pr_sh s)" "type_ok (sh_SliceType (pr_sh s)) (sh_SliceTypeNoS (pr_sh s))"
    "sl_ids l pps sps (pr_sh s)"
  shows "wp (bnd (readBits (u32_of (sps_Log2MaxFrameNum sps))) (\<lambda>v. setH (\<lambda>h. h\<lparr>sh_FrameNum := v\<rparr>)))
    (\<lambda>_ s'. wf_reader s' \<and> sl_start (pr_sh s') \<and> type_ok (sh_SliceType (pr_sh s')) (sh_SliceTypeNoS (pr_sh s'))
       \<and> sl_ids l pps sps (pr_sh s') \<and> unat (sh_FrameNum (pr_sh s')) < 2 ^ nat (sps_Log2MaxFrameNum sps)) np s"
proof -
  have u: "unat (u32_of (sps_Log2MaxFrameNum sps)) = nat (sps_Log2MaxFrameNum sps)" "nat (sps_Log2MaxFrameNum sps) \<le> 32"
    using sl_ids_sps(1,2) [OF assms(4)] by (simp_all add: unat_u32_of)
  show ?thesis
    using assms
    by (auto simp: wp_simps u sl_start_def sl_base_def sh_shape_def sl_ids_def intro!: sl_ops)
qed

lemma num_ok_intro:
  assumes "4 \<le> sps_Log2MaxFrameNum sps" "sps_Log2MaxFrameNum sps \<le> 16"
    "unat fn < 2 ^ nat (sps_Log2MaxFrameNum sps)"
  shows "num_ok sps 3 0 fn fn (push_bit (unat (u32_of (sps_Log2MaxFrameNum sps))) 1)"
    and "sps_FrameMBSOnlyFlag sps = 0 \<Longrightarrow> st \<in> {1, 2} \<Longrightarrow>
      num_ok sps st 1 fn (2 * fn + 1) (push_bit (unat (u32_of (sps_Log2MaxFrameNum sps + 1))) 1)"
proof -
  define L where "L = nat (sps_Log2MaxFrameNum sps)"
  have L: "unat (u32_of (sps_Log2MaxFrameNum sps)) = L" "unat (u32_of (sps_Log2MaxFrameNum sps + 1)) = Suc L" "L \<le> 16"
    using assms(1,2) by (simp_all add: unat_u32_of L_def nat_add_distrib)
  have "(2 :: nat) ^ L \<le> 2 ^ 16" using L(3) by (intro power_increasing) auto
  then have b: "unat fn < 2 ^ 16" using assms(3) by (simp add: L_def)
  then have t: "unat (2 * fn + 1) = 2 * unat fn + 1" by (simp add: unat_word_ariths)
  have f: "int (unat fn) < 2 ^ L" using assms(3) unfolding L_def by (metis of_nat_less_iff of_nat_numeral of_nat_power)
  have p: "unat (push_bit L 1 :: u32) = 2 ^ L" "unat (push_bit (Suc L) 1 :: u32) = 2 ^ Suc L"
    using L(3) unat_shift1 [of L] unat_shift1 [of "Suc L"] by auto
  show "num_ok sps 3 0 fn fn (push_bit (unat (u32_of (sps_Log2MaxFrameNum sps))) 1)"
    using f p(1) by (simp add: num_ok_def L flip: L_def)
  show "num_ok sps st 1 fn (2 * fn + 1) (push_bit (unat (u32_of (sps_Log2MaxFrameNum sps + 1))) 1)"
    if "sps_FrameMBSOnlyFlag sps = 0" "st \<in> {1, 2}"
    unfolding num_ok_def L p t using that f by (auto simp flip: L_def)
qed

lemma wp_slice_structure:
  assumes "wf_reader s" "sl_start (pr_sh s)" "type_ok (sh_SliceType (pr_sh s)) (sh_SliceTypeNoS (pr_sh s))"
    "sl_ids l pps sps (pr_sh s)" "unat (sh_FrameNum (pr_sh s)) < 2 ^ nat (sps_Log2MaxFrameNum sps)"
  shows "wp (slice_structure sps) (\<lambda>_ s'. wf_reader s' \<and> sl_base (pr_sh s') \<and> sl_num l pps sps (pr_sh s')) np s"
proof -
  have f: "1 + i32_of v \<in> {1, 2} \<and> 1 + i32_of v \<noteq> 3" if "is_flag v" for v using that by (auto simp: is_flag_def)
  note n = num_ok_intro [OF sl_ids_sps(1,2) [OF assms(4)] assms(5)]
  show ?thesis
    using assms f n
    by (auto simp: wp_simps slice_structure_def sl_start_def sl_num_def sl_ids_def sl_base_def sh_shape_def simp del: insert_iff intro!: sl_ops)
qed

definition sl_poc :: "SPS \<Rightarrow> SliceHeader \<Rightarrow> bool" where
  "sl_poc sps h \<longleftrightarrow> sh_shape h \<and> sh_NBRefModifications h = [0, 0] \<and> sh_NBMMCO h = 0 \<and> sh_CABACInitIDC h = 0
     \<and> sh_SliceAlphaC0Offset h = 0 \<and> sh_SliceBetaOffset h = 0 \<and> unat (sh_IDRPicID h) < 65536
     \<and> (sps_PocType sps = 0 \<longrightarrow> unat (sh_POCLSB h) < 2 ^ nat (sps_Log2MaxPocLSB sps))"

lemma wp_slice_poc:
  assumes "wf_reader s" "sl_base (pr_sh s)" "sl_num l pps sps (pr_sh s)"
  shows "wp (slice_poc pps sps) (\<lambda>_ s'. wf_reader s' \<and> sl_poc sps (pr_sh s') \<and> sl_num l pps sps (pr_sh s')) np s"
proof -
  have ids: "sl_ids l pps sps (pr_sh s)" using assms(3) by (simp add: sl_num_def)
  have u: "unat (u32_of (sps_Log2MaxPocLSB sps)) = nat (sps_Log2MaxPocLSB sps)" "nat (sps_Log2MaxPocLSB sps) \<le> 32"
    if "sps_PocType sps = 0"
    using sl_ids_sps(3,4) [OF ids that] by (simp_all add: unat_u32_of)
  have i: "unat v < 65536" if "v < (65536 :: u32)" for v using that by (simp add: word_less_nat_alt)
  show ?thesis
    using assms
    by (auto simp: wp_simps slice_poc_def u i sl_base_def sl_poc_def sl_num_def sl_ids_def sh_shape_def intro!: sl_ops)
qed

definition sl_refs :: "PPS option list \<Rightarrow> PPS \<Rightarrow> SPS \<Rightarrow> SliceHeader \<Rightarrow> bool" where
  "sl_refs l pps sps h \<longleftrightarrow> sl_poc sps h \<and> sl_num l pps sps h
     \<and> refs_ok (sh_SliceTypeNoS h) (sh_PictureStructure h) (sh_ListCount h) (sh_RefCount h)"

lemma type_ok_nos: "type_ok ty nos \<Longrightarrow> nos = 1 \<or> nos = 2 \<or> nos = 3"
  by (auto simp: type_ok_def)

lemma list_two_eq: "length xs = 2 \<Longrightarrow> xs[0 := a, Suc 0 := b] = [a, b]"
  by (auto simp: numeral_2_eq_2 length_Suc_conv)

text \<open>Everything but the counts, which the stage sets; the counts are seen as a pair.\<close>

definition sl_rest :: "PPS option list \<Rightarrow> PPS \<Rightarrow> SPS \<Rightarrow> SliceHeader \<Rightarrow> bool" where
  "sl_rest l pps sps h \<longleftrightarrow> sl_poc sps h \<and> sl_num l pps sps h"

lemma sl_rest_frame [simp]:
  "sl_rest l pps sps (h\<lparr>sh_ListCount := n\<rparr>) = sl_rest l pps sps h"
  "length (sh_RefCount h) = 2 \<Longrightarrow> length rc = 2 \<Longrightarrow> sl_rest l pps sps (h\<lparr>sh_RefCount := rc\<rparr>) = sl_rest l pps sps h"
  by (simp_all add: sl_rest_def sl_poc_def sl_num_def sl_ids_def sh_shape_def)

lemma sl_rest_rc: "sl_rest l pps sps h \<Longrightarrow> length (sh_RefCount h) = 2"
  by (simp add: sl_rest_def sl_poc_def sh_shape_def)

lemma count_le: "w - 1 \<le> 15 \<longleftrightarrow> w \<noteq> 0 \<and> unat w \<le> 16" "w - 1 \<le> 31 \<longleftrightarrow> w \<noteq> 0 \<and> unat w \<le> 32" for w :: u32
  by (auto simp: word_le_nat_alt unat_sub_if_size unat_eq_0 word_size Suc_le_eq unat_gt_0)

lemma count_gt: "15 < w - 1 \<longleftrightarrow> w = 0 \<or> 16 < unat w" "31 < w - 1 \<longleftrightarrow> w = 0 \<or> 32 < unat w" for w :: u32
  using count_le [of w] by (auto simp: not_le [symmetric])

lemma count_big: "(if c then 15 else 31 :: u32) < w - 1 \<longleftrightarrow> w = 0 \<or> max_refs (if c then 3 else 1) < unat w"
  by (simp add: count_gt max_refs_def)

lemma wp_parseRefCount:
  assumes "wf_reader s" "sl_poc sps (pr_sh s)" "sl_num l pps sps (pr_sh s)"
  shows "wp (parseRefCount pps) (\<lambda>_ s'. wf_reader s' \<and> sl_refs l pps sps (pr_sh s')) np s"
proof -
  have ids: "sl_ids l pps sps (pr_sh s)" and r: "sl_rest l pps sps (pr_sh s)"
    using assms(2,3) by (simp_all add: sl_num_def sl_rest_def)
  note c = sl_ids_sps(7-11) [OF ids]
  have c0: "pps_RefCount pps ! 0 \<noteq> 0" "pps_RefCount pps ! Suc 0 \<noteq> 0" using c(2,4) by auto
  have out: "sl_refs l pps sps h \<longleftrightarrow> sl_rest l pps sps h
      \<and> refs_ok (sh_SliceTypeNoS h) (sh_PictureStructure h) (sh_ListCount h) (sh_RefCount h)" for h
    by (auto simp: sl_refs_def sl_rest_def)
  have nos: "sh_SliceTypeNoS (pr_sh s) = 1 \<or> sh_SliceTypeNoS (pr_sh s) = 2 \<or> sh_SliceTypeNoS (pr_sh s) = 3"
    using assms(3) by (auto simp: sl_num_def dest: type_ok_nos)
  note base = assms(1) r sl_rest_rc [OF r] c(1,3,5) c0
  from nos show ?thesis
    unfolding parseRefCount_def Let_def count_big
    by (elim disjE)
       (use base in \<open>auto simp: wp_simps out refs_ok_def max_refs_def not_less list_two_eq intro!: sl_ops\<close>)
qed

text \<open>The list modifications: each list's commands stay within its count.\<close>

definition sl_mods :: "PPS option list \<Rightarrow> PPS \<Rightarrow> SPS \<Rightarrow> SliceHeader \<Rightarrow> bool" where
  "sl_mods l pps sps h \<longleftrightarrow> sl_ids l pps sps h \<and> type_ok (sh_SliceType h) (sh_SliceTypeNoS h)
     \<and> num_ok sps (sh_PictureStructure h) (sh_MBFieldDecodingFlag h) (sh_FrameNum h) (sh_CurrPicNum h) (sh_MaxPicNum h)
     \<and> refs_ok (sh_SliceTypeNoS h) (sh_PictureStructure h) (sh_ListCount h) (sh_RefCount h)
     \<and> mods_ok (sh_RefCount h) (sh_NBRefModifications h) (sh_RefModifications h)
     \<and> length (sh_DeltaPOC h) = 2 \<and> length (sh_ChromaQP h) = 2 \<and> length (sh_MMCO h) = 67 \<and> pwt_ok (sh_PredWeightTable h)
     \<and> sh_NBMMCO h = 0 \<and> sh_CABACInitIDC h = 0 \<and> sh_SliceAlphaC0Offset h = 0 \<and> sh_SliceBetaOffset h = 0
     \<and> unat (sh_IDRPicID h) < 65536 \<and> (sps_PocType sps = 0 \<longrightarrow> unat (sh_POCLSB h) < 2 ^ nat (sps_Log2MaxPocLSB sps))"

lemma sl_mods_start: "sl_refs l pps sps h \<Longrightarrow> sl_mods l pps sps h"
  by (simp add: sl_mods_def sl_refs_def sl_poc_def sl_num_def mods_ok_def sh_shape_def)

lemma sl_mods_frame [simp]:
  "sl_mods l pps sps (h\<lparr>sh_RefModifications := ms, sh_NBRefModifications := nb\<rparr>)
     = (sl_mods l pps sps h \<and> mods_ok (sh_RefCount h) nb ms)" if "sl_mods l pps sps h"
  using that by (auto simp: sl_mods_def sl_ids_def)

text \<open>On an error the caller clears both counts, which needs the array.\<close>

abbreviation (input) np_rc :: "goerror \<Rightarrow> slice_parse \<Rightarrow> bool" where
  "np_rc \<equiv> \<lambda>e s. e \<noteq> Panic \<and> length (sh_RefCount (pr_sh s)) = 2"

lemma wp_refMods_loop:
  assumes "wf_reader s" "sl_mods l pps sps (pr_sh s)" "j < 2" "unat (sh_NBRefModifications (pr_sh s) ! j) = i" "i \<le> 32"
  shows "wp (refMods_loop j i) (\<lambda>_ s'. wf_reader s' \<and> sl_mods l pps sps (pr_sh s')
      \<and> sh_NALType (pr_sh s') = sh_NALType (pr_sh s)
      \<and> (\<forall>k < 2. k \<noteq> j \<longrightarrow> sh_NBRefModifications (pr_sh s') ! k = sh_NBRefModifications (pr_sh s) ! k)) np_rc s"
  using assms
proof (induction "33 - i" arbitrary: i s rule: less_induct)
  case (less i s)
  have m: "mods_ok (sh_RefCount (pr_sh s)) (sh_NBRefModifications (pr_sh s)) (sh_RefModifications (pr_sh s))"
    and rc: "length (sh_RefCount (pr_sh s)) = 2"
    using less.prems(2) by (auto simp: sl_mods_def refs_ok_def)
  note arr = m [unfolded mods_ok_def, THEN conjunct2, THEN conjunct1]
  have nb: "length (sh_NBRefModifications (pr_sh s)) = 2" using m by (simp add: mods_ok_def)
  have set: "wp (set_RefModification j i v) Q E t
      = Q () (t\<lparr>pr_sh := (pr_sh s)\<lparr>sh_RefModifications := upd2 (sh_RefModifications (pr_sh s)) j i v\<rparr>\<rparr>)"
    if "pr_sh t = pr_sh s" "\<not> 32 \<le> i" for v Q E t
    using wp_set_RefModification [of _ t, unfolded that(1), OF arr less.prems(3)] that(2) by simp
  have step: "wp (refMods_loop j (Suc i)) (\<lambda>_ s''. wf_reader s'' \<and> sl_mods l pps sps (pr_sh s'')
      \<and> sh_NALType (pr_sh s'') = sh_NALType (pr_sh s)
      \<and> (\<forall>k < 2. k \<noteq> j \<longrightarrow> sh_NBRefModifications (pr_sh s'') ! k = sh_NBRefModifications (pr_sh s) ! k)) np_rc s'"
    if ih: "op \<noteq> 3" "\<not> (i \<ge> unat (sh_RefCount (pr_sh s) ! j) \<or> i \<ge> 32)" "\<not> op > 2"
      and t: "wf_reader t"
      and s': "s' = t\<lparr>pr_sh := (pr_sh s)\<lparr>sh_RefModifications := upd2 (sh_RefModifications (pr_sh s)) j i \<lparr>rm_Op = op, rm_Val = val\<rparr>,
        sh_NBRefModifications := (sh_NBRefModifications (pr_sh s))[j := sh_NBRefModifications (pr_sh s) ! j + 1]\<rparr>\<rparr>" for op val s' t
  proof -
    have i: "i < 32" "i < unat (sh_RefCount (pr_sh s) ! j)" using ih(2) by auto
    have n1: "unat (sh_NBRefModifications (pr_sh s) ! j + 1) = Suc i"
      using less.prems(4) i(1) by (simp add: unat_word_ariths)
    have "rm_Op \<lparr>rm_Op = op, rm_Val = val\<rparr> \<le> 2" using ih(3) by simp
    note a = set2_upd(2) [OF arr less.prems(3) i(1), where v = "\<lparr>rm_Op = op, rm_Val = val\<rparr>", OF this]
    have "sl_mods l pps sps (pr_sh s')"
      using less.prems(2,3) m nb a n1 i(2)
      by (auto simp: s' mods_ok_def less_2_cases_iff nth_list_update)
    moreover have "unat (sh_NBRefModifications (pr_sh s') ! j) = Suc i"
      using n1 nb less.prems(3) by (simp add: s')
    ultimately have "wp (refMods_loop j (Suc i)) (\<lambda>_ s''. wf_reader s'' \<and> sl_mods l pps sps (pr_sh s'')
        \<and> sh_NALType (pr_sh s'') = sh_NALType (pr_sh s')
        \<and> (\<forall>k < 2. k \<noteq> j \<longrightarrow> sh_NBRefModifications (pr_sh s'') ! k = sh_NBRefModifications (pr_sh s') ! k)) np_rc s'"
      using i(1) less.prems(3) t s' by (intro less.hyps) auto
    then show ?thesis
      by (rule wp_conj_mono) (auto simp: s')
  qed
  show ?case
    using less.prems(1-3) nb rc
    by (subst refMods_loop.simps)
       (auto simp: wp_simps set intro!: sl_ops step [OF _ _ _ _ refl])
qed

lemma refs_ok_lists: "refs_ok nos st n rc \<Longrightarrow> nat n \<le> 2" "refs_ok nos st n rc \<Longrightarrow> length rc = 2"
  by (auto simp: refs_ok_def split: if_splits)

lemma wp_decodeRefPicListReordering:
  assumes "wf_reader s" "sl_refs l pps sps (pr_sh s)"
  shows "wp decodeRefPicListReordering (\<lambda>_ s'. wf_reader s' \<and> sl_mods l pps sps (pr_sh s')) np_rc s"
proof -
  define I where "I xs t \<longleftrightarrow> wf_reader t \<and> sl_mods l pps sps (pr_sh t) \<and> distinct xs \<and> set xs \<subseteq> {0, 1}
      \<and> (\<forall>j \<in> set xs. sh_NBRefModifications (pr_sh t) ! j = 0)" for xs and t :: slice_parse
  have m: "sl_mods l pps sps (pr_sh s)" by (rule sl_mods_start [OF assms(2)])
  have nb: "sh_NBRefModifications (pr_sh s) = [0, 0]" using assms(2) by (simp add: sl_refs_def sl_poc_def)
  have n: "nat (sh_ListCount (pr_sh s)) \<le> 2"
    using assms(2) by (auto simp: sl_refs_def dest: refs_ok_lists)
  have e: "[0, 0 :: u32] ! j = 0" "j = 0 \<or> j = Suc 0" if "j < nat (sh_ListCount (pr_sh s))" for j
    using that n by (auto simp: nth_Cons split: nat.splits)
  have body: "wp (bnd readBit (\<lambda>flag. whenM (flag \<noteq> 0) (refMods_loop j 0))) (\<lambda>_. I xs) np_rc t"
    if "I (j # xs) t" for j xs t
  proof -
    have p: "wf_reader t" "sl_mods l pps sps (pr_sh t)" "j < 2" "unat (sh_NBRefModifications (pr_sh t) ! j) = 0"
      "length (sh_RefCount (pr_sh t)) = 2"
      using that by (auto simp: I_def sl_mods_def dest: refs_ok_lists)
    have q: "I xs t'" if "wf_reader t'" "sl_mods l pps sps (pr_sh t')"
      "\<forall>k < 2. k \<noteq> j \<longrightarrow> sh_NBRefModifications (pr_sh t') ! k = sh_NBRefModifications (pr_sh t) ! k" for t' :: slice_parse
      using that \<open>I (j # xs) t\<close> by (auto simp: I_def)
    show ?thesis
      unfolding wp_simps
    proof (rule sl_op [OF readBit_flag p(1)])
      fix v and t' :: slice_parse assume t': "wf_reader t'" "pr_sh t' = pr_sh t"
      have "wp (refMods_loop j 0) (\<lambda>_. I xs) np_rc t'"
        by (rule wp_conj_mono [OF wp_refMods_loop [of t' l pps sps j 0]])
           (use p t' q in auto)
      moreover have "I xs t'" using q [of t'] t' p by simp
      ultimately show "if v \<noteq> 0 then wp (refMods_loop j 0) (\<lambda>_. I xs) np_rc t' else I xs t'" by simp
    qed (use p in simp)
  qed
  have "wp (forM [0..<nat (sh_ListCount (pr_sh s))] (\<lambda>j. bnd readBit (\<lambda>flag. whenM (flag \<noteq> 0) (refMods_loop j 0))))
      (\<lambda>_ s'. wf_reader s' \<and> sl_mods l pps sps (pr_sh s')) np_rc s"
  proof (rule wp_forM [where I = I])
    show "I [0..<nat (sh_ListCount (pr_sh s))] s"
      using assms(1) m nb n e by (auto simp: I_def)
  qed (erule body, simp add: I_def)
  moreover have "s\<lparr>pr_sh := pr_sh s\<lparr>sh_NBRefModifications := [0, 0]\<rparr>\<rparr> = s"
    unfolding nb [symmetric] by simp
  moreover have "wp decodeRefPicListReordering Q E s
      = wp (forM [0..<nat (sh_ListCount (pr_sh s))] (\<lambda>j. bnd readBit (\<lambda>flag. whenM (flag \<noteq> 0) (refMods_loop j 0)))) Q E
          (s\<lparr>pr_sh := pr_sh s\<lparr>sh_NBRefModifications := [0, 0]\<rparr>\<rparr>)" for Q E
    by (simp add: decodeRefPicListReordering_def wp_simps nb)
  ultimately show ?thesis by (simp only:)
qed

text \<open>The weight table: the stages keep everything else, and every weight stays within eight bits
  (or is the default \<open>1 << denominator\<close>).\<close>

lemma wp_setW [wp_simps]: "wp (setW f) Q E s
    = Q () (s\<lparr>pr_sh := (pr_sh s)\<lparr>sh_PredWeightTable := f (sh_PredWeightTable (pr_sh s))\<rparr>\<rparr>)"
  by (simp add: setW_def wp_simps)

lemma wp_putW: "wp (putW f) Q E s = (case f (sh_PredWeightTable (pr_sh s)) of
    Inr w \<Rightarrow> Q () (s\<lparr>pr_sh := (pr_sh s)\<lparr>sh_PredWeightTable := w\<rparr>\<rparr>) | Inl e \<Rightarrow> E e s)"
  by (simp add: putW_def wp_simps split: sum.split)

lemma wp_get_weights [wp_simps]:
  "wp (get_LumaWeight i l k) Q E s = (case rbind (idx (pwt_LumaWeight (sh_PredWeightTable (pr_sh s))) i)
     (\<lambda>r. rbind (idx r l) (\<lambda>r. idx r k)) of Inr v \<Rightarrow> Q v s | Inl e \<Rightarrow> E e s)"
  "wp (get_ChromaWeight i l j k) Q E s = (case rbind (idx (pwt_ChromaWeight (sh_PredWeightTable (pr_sh s))) i)
     (\<lambda>r. rbind (idx r l) (\<lambda>r. rbind (idx r j) (\<lambda>r. idx r k))) of Inr v \<Rightarrow> Q v s | Inl e \<Rightarrow> E e s)"
  by (simp_all add: get_LumaWeight_def get_ChromaWeight_def wp_simps split: sum.split)

definition sl_w :: "PPS option list \<Rightarrow> PPS \<Rightarrow> SPS \<Rightarrow> slice_parse \<Rightarrow> bool" where
  "sl_w l pps sps s \<longleftrightarrow> wf_reader s \<and> sl_mods l pps sps (pr_sh s)"

lemma sl_w_upd:
  assumes "sl_w l pps sps s"
  shows "sl_w l pps sps (s\<lparr>pr_sh := (pr_sh s)\<lparr>sh_PredWeightTable := w\<rparr>\<rparr>) = pwt_ok w"
  using assms by (auto simp: sl_w_def sl_mods_def sl_ids_def)

lemma sl_w_pwt: "sl_w l pps sps s \<Longrightarrow> pwt_ok (sh_PredWeightTable (pr_sh s))"
  by (simp add: sl_w_def sl_mods_def)

lemma wp_weight_flags:
  assumes "sl_w l pps sps s" "j < 2"
  shows "wp (set_LumaWeightFlag j v) (\<lambda>_. sl_w l pps sps) np s" "wp (set_ChromaWeightFlag j v) (\<lambda>_. sl_w l pps sps) np s"
  using assms sl_w_pwt [OF assms(1)]
  by (simp_all add: set_LumaWeightFlag_def set_ChromaWeightFlag_def wp_putW sl_w_upd [OF assms(1)] pwt_ok_def)

lemma wp_setW_flags:
  assumes "sl_w l pps sps s"
  shows "wp (setW (\<lambda>t. t\<lparr>pwt_UseWeight := a\<rparr>)) (\<lambda>_. sl_w l pps sps) np s"
    "wp (setW (\<lambda>t. t\<lparr>pwt_UseWeightChroma := a\<rparr>)) (\<lambda>_. sl_w l pps sps) np s"
  using sl_w_pwt [OF assms] by (simp_all add: wp_simps sl_w_upd [OF assms]) (simp_all add: pwt_ok_def)

lemma sl_w_reader: "sl_w l pps sps s \<Longrightarrow> wf_reader s' \<Longrightarrow> pr_sh s' = pr_sh s \<Longrightarrow> sl_w l pps sps s'"
  by (simp add: sl_w_def)

lemma wp_set_LumaWeight:
  assumes "sl_w l pps sps s" "i < 48" "j < 2" "k < 2" "weight_ok v"
  shows "wp (set_LumaWeight i j k v) (\<lambda>_. sl_w l pps sps) np s"
proof -
  have a: "arr (arr (arr weight_ok 2) 2) 48 (pwt_LumaWeight (sh_PredWeightTable (pr_sh s)))"
    using sl_w_pwt [OF assms(1)] by (simp add: pwt_ok_def)
  show ?thesis
    using set3_upd(1,2) [OF a assms(2-4)] assms(5) sl_w_pwt [OF assms(1)]
    by (simp add: set_LumaWeight_def wp_putW sl_w_upd [OF assms(1)]) (simp add: pwt_ok_def)
qed

lemma wp_set_ChromaWeight:
  assumes "sl_w l pps sps s" "i < 48" "j < 2" "k < 2" "h < 2" "weight_ok v"
  shows "wp (set_ChromaWeight i j k h v) (\<lambda>_. sl_w l pps sps) np s"
proof -
  have a: "arr (arr (arr (arr weight_ok 2) 2) 2) 48 (pwt_ChromaWeight (sh_PredWeightTable (pr_sh s)))"
    using sl_w_pwt [OF assms(1)] by (simp add: pwt_ok_def)
  show ?thesis
    using set4_upd(1,2) [OF a assms(2-5)] assms(6) sl_w_pwt [OF assms(1)]
    by (simp add: set_ChromaWeight_def wp_putW sl_w_upd [OF assms(1)]) (simp add: pwt_ok_def)
qed

lemma wp_get_LumaWeight:
  assumes "sl_w l pps sps s" "i < 48" "j < 2" "k < 2"
  shows "wp (get_LumaWeight i j k) (\<lambda>v s'. weight_ok v \<and> s' = s) np s"
proof -
  have a: "arr (arr (arr weight_ok 2) 2) 48 (pwt_LumaWeight (sh_PredWeightTable (pr_sh s)))"
    using sl_w_pwt [OF assms(1)] by (simp add: pwt_ok_def)
  note b = arr_nth [OF a assms(2)] note c = arr_nth [OF b assms(3)] note d = arr_nth [OF c assms(4)]
  show ?thesis using arr_length [OF a] arr_length [OF b] arr_length [OF c] d assms
    by (simp add: wp_simps)
qed

lemma wp_get_ChromaWeight:
  assumes "sl_w l pps sps s" "i < 48" "j < 2" "k < 2" "h < 2"
  shows "wp (get_ChromaWeight i j k h) (\<lambda>v s'. weight_ok v \<and> s' = s) np s"
proof -
  have a: "arr (arr (arr (arr weight_ok 2) 2) 2) 48 (pwt_ChromaWeight (sh_PredWeightTable (pr_sh s)))"
    using sl_w_pwt [OF assms(1)] by (simp add: pwt_ok_def)
  note b = arr_nth [OF a assms(2)] note c = arr_nth [OF b assms(3)] note d = arr_nth [OF c assms(4)]
    note e = arr_nth [OF d assms(5)]
  show ?thesis using arr_length [OF a] arr_length [OF b] arr_length [OF c] arr_length [OF d] e assms
    by (simp add: wp_simps)
qed

text \<open>
  The two assignments from the bitstream with the check behind them; in between, the table is
  only known to have its shape.
\<close>

lemma arr_weaken: "arr P n a \<Longrightarrow> (\<And>x. P x \<Longrightarrow> Q x) \<Longrightarrow> arr Q n a"
  by (auto simp: arr_def list_all_iff)

lemma luma_pair:
  fixes v0 v1 :: 'a
  assumes "arr (arr (arr P 2) 2) 48 a" "i < 48" "j < 2"
  defines "a1 \<equiv> upd3 a i j 0 v0" and "a2 \<equiv> upd3 (upd3 a i j 0 v0) i j 1 v1"
  shows "set3 a i j 0 v0 = Inr a1" "set3 a1 i j 1 v1 = Inr a2"
    "rbind (idx a2 i) (\<lambda>r. rbind (idx r j) (\<lambda>r. idx r 0)) = Inr v0"
    "rbind (idx a2 i) (\<lambda>r. rbind (idx r j) (\<lambda>r. idx r 1)) = Inr v1"
    "P v0 \<Longrightarrow> P v1 \<Longrightarrow> arr (arr (arr P 2) 2) 48 a2"
proof -
  have t: "arr (arr (arr (\<lambda>_. True) 2) 2) 48 a"
    by (rule arr_weaken [OF assms(1)], rule arr_weaken, assumption, erule arr_weaken) simp
  have t1: "arr (arr (arr (\<lambda>_. True) 2) 2) 48 a1" and s1: "set3 a i j 0 v0 = Inr a1"
    using set3_upd [OF t assms(2,3), of 0 v0] by (simp_all add: a1_def)
  show "set3 a i j 0 v0 = Inr a1" by (rule s1)
  show s2: "set3 a1 i j 1 v1 = Inr a2"
    using set3_upd(1) [OF t1 assms(2,3), of 1 v1] by (simp add: a2_def a1_def)
  have l: "length a = 48" "length (a ! i) = 2" "length (a ! i ! j) = 2"
    using arr_length [OF t] arr_length [OF arr_nth [OF t assms(2)]]
      arr_length [OF arr_nth [OF arr_nth [OF t assms(2)] assms(3)]] by auto
  show "rbind (idx a2 i) (\<lambda>r. rbind (idx r j) (\<lambda>r. idx r 0)) = Inr v0"
    "rbind (idx a2 i) (\<lambda>r. rbind (idx r j) (\<lambda>r. idx r 1)) = Inr v1"
    using l assms(2,3) by (simp_all add: a2_def upd3_def upd2_def)
  show "arr (arr (arr P 2) 2) 48 a2" if "P v0" "P v1"
    unfolding a2_def using that assms(1-3) by (intro set3_upd(2)) auto
qed

lemma chroma_pair:
  fixes v0 v1 :: 'a
  assumes "arr (arr (arr (arr P 2) 2) 2) 48 a" "i < 48" "j < 2" "k < 2"
  defines "a1 \<equiv> upd4 a i j k 0 v0" and "a2 \<equiv> upd4 (upd4 a i j k 0 v0) i j k 1 v1"
  shows "set4 a i j k 0 v0 = Inr a1" "set4 a1 i j k 1 v1 = Inr a2"
    "rbind (idx a2 i) (\<lambda>r. rbind (idx r j) (\<lambda>r. rbind (idx r k) (\<lambda>r. idx r 0))) = Inr v0"
    "rbind (idx a2 i) (\<lambda>r. rbind (idx r j) (\<lambda>r. rbind (idx r k) (\<lambda>r. idx r 1))) = Inr v1"
    "P v0 \<Longrightarrow> P v1 \<Longrightarrow> arr (arr (arr (arr P 2) 2) 2) 48 a2"
proof -
  have t: "arr (arr (arr (arr (\<lambda>_. True) 2) 2) 2) 48 a"
    by (rule arr_weaken [OF assms(1)], rule arr_weaken, assumption, erule arr_weaken, erule arr_weaken) simp
  have t1: "arr (arr (arr (arr (\<lambda>_. True) 2) 2) 2) 48 a1" and s1: "set4 a i j k 0 v0 = Inr a1"
    using set4_upd [OF t assms(2-4), of 0 v0] by (simp_all add: a1_def)
  show "set4 a i j k 0 v0 = Inr a1" by (rule s1)
  show s2: "set4 a1 i j k 1 v1 = Inr a2"
    using set4_upd(1) [OF t1 assms(2-4), of 1 v1] by (simp add: a2_def a1_def)
  have l: "length a = 48" "length (a ! i) = 2" "length (a ! i ! j) = 2" "length (a ! i ! j ! k) = 2"
    using arr_length [OF t] arr_length [OF arr_nth [OF t assms(2)]]
      arr_length [OF arr_nth [OF arr_nth [OF t assms(2)] assms(3)]]
      arr_length [OF arr_nth [OF arr_nth [OF arr_nth [OF t assms(2)] assms(3)] assms(4)]] by auto
  show "rbind (idx a2 i) (\<lambda>r. rbind (idx r j) (\<lambda>r. rbind (idx r k) (\<lambda>r. idx r 0))) = Inr v0"
    "rbind (idx a2 i) (\<lambda>r. rbind (idx r j) (\<lambda>r. rbind (idx r k) (\<lambda>r. idx r 1))) = Inr v1"
    using l assms(2-4) by (simp_all add: a2_def upd4_def upd3_def upd2_def)
  show "arr (arr (arr (arr P 2) 2) 2) 48 a2" if "P v0" "P v1"
    unfolding a2_def using that assms(1-4) by (intro set4_upd(2)) auto
qed

lemma fits_weight: "fitsInt8 v \<Longrightarrow> weight_ok v"
  by (simp add: fitsInt8_def weight_ok_def)

lemma sl_w_upd_at:
  assumes "sl_w l pps sps s"
  shows "wf_reader t \<Longrightarrow> sl_w l pps sps (t\<lparr>pr_sh := (pr_sh s)\<lparr>sh_PredWeightTable := w\<rparr>\<rparr>) = pwt_ok w"
  using assms by (auto simp: sl_w_def sl_mods_def sl_ids_def)

lemma wp_pwt_luma:
  assumes "sl_w l pps sps s" "j < 2" "i < 48" "weight_ok dflt"
  shows "wp (pwt_luma dflt j i) (\<lambda>_. sl_w l pps sps) np s"
proof -
  note w = sl_w_pwt [OF assms(1), unfolded pwt_ok_def]
  then have a: "arr (arr (arr weight_ok 2) 2) 48 (pwt_LumaWeight (sh_PredWeightTable (pr_sh s)))" by simp
  note p = luma_pair [OF a assms(3,2), unfolded One_nat_def]
  have z: "weight_ok 0" by (simp add: weight_ok_def)
  have r: "wf_reader s" using assms(1) by (simp add: sl_w_def)
  show ?thesis
    using assms(1) w p(5) fits_weight z assms(4) r
    by (auto simp: pwt_luma_def wp_bnd wp_thn wp_whenM wp_fail wp_ret wp_setW set_LumaWeight_def wp_putW wp_get_weights
        p(1-4) set_LumaWeightFlag_def assms(2) sl_w_upd_at [OF assms(1)] pwt_ok_def
        intro!: sl_ops)
qed

lemma wp_pwt_chroma_plane:
  assumes "sl_w l pps sps s" "j < 2" "i < 48" "k < 2"
  shows "wp (pwt_chroma_plane dflt j i k) (\<lambda>_. sl_w l pps sps) np s"
proof -
  note w = sl_w_pwt [OF assms(1), unfolded pwt_ok_def]
  then have a: "arr (arr (arr (arr weight_ok 2) 2) 2) 48 (pwt_ChromaWeight (sh_PredWeightTable (pr_sh s)))" by simp
  note p = chroma_pair [OF a assms(3,2,4), unfolded One_nat_def]
  have r: "wf_reader s" using assms(1) by (simp add: sl_w_def)
  show ?thesis
    using assms(1) w p(5) fits_weight r
    by (auto simp: pwt_chroma_plane_def wp_bnd wp_thn wp_whenM wp_fail wp_ret wp_setW set_ChromaWeight_def wp_putW wp_get_weights
        p(1-4) set_ChromaWeightFlag_def assms(2) sl_w_upd_at [OF assms(1)] pwt_ok_def
        intro!: sl_ops)
qed

lemma wp_pwt_chroma:
  assumes "sl_w l pps sps s" "j < 2" "i < 48" "weight_ok dflt"
  shows "wp (pwt_chroma dflt j i) (\<lambda>_. sl_w l pps sps) np s"
proof -
  have z: "weight_ok 0" by (simp add: weight_ok_def)
  have "wp (forM [0, 1] (pwt_chroma_plane dflt j i)) (\<lambda>_. sl_w l pps sps) np t" if "sl_w l pps sps t" for t
    by (rule wp_forM_inv [where I = "sl_w l pps sps"]) (use that assms in \<open>auto intro: wp_pwt_chroma_plane\<close>)
  moreover have "wp (forM [0, 1] (\<lambda>k. thn (set_ChromaWeight i j k 0 dflt) (set_ChromaWeight i j k 1 0))) (\<lambda>_. sl_w l pps sps) np t"
    if "sl_w l pps sps t" for t
    by (rule wp_forM_inv [where I = "sl_w l pps sps"])
       (use that assms z in \<open>auto simp: wp_thn intro!: wp_conj_mono [OF wp_set_ChromaWeight] wp_set_ChromaWeight\<close>)
  moreover have "wf_reader s" using assms(1) by (simp add: sl_w_def)
  ultimately show ?thesis
    unfolding pwt_chroma_def wp_bnd wp_if
    by (intro sl_op [OF readBit_flag]) (auto intro: sl_w_reader [OF assms(1)])
qed

lemma wp_pwt_fields:
  assumes "sl_w l pps sps s" "j < 2" "i < 16"
  shows "wp (pwt_fields c j i) (\<lambda>_. sl_w l pps sps) np s"
proof -
  have i: "i < 48" "16 + 2 * i < 48" "16 + 2 * i + 1 < 48" using assms(3) by auto
  have luma: "wp (bnd (get_LumaWeight i j k) (\<lambda>v. thn (set_LumaWeight (16 + 2 * i) j k v) (set_LumaWeight (16 + 2 * i + 1) j k v)))
      (\<lambda>_. sl_w l pps sps) np t" if "sl_w l pps sps t" "k < 2" for t k
    unfolding wp_bnd wp_thn
    by (rule wp_conj_mono [OF wp_get_LumaWeight [OF that(1) i(1) assms(2) that(2)]])
       (use assms(3) in \<open>auto intro!: wp_conj_mono [OF wp_set_LumaWeight] wp_set_LumaWeight simp: that i assms(2)\<close>)
  have chroma: "wp (bnd (get_ChromaWeight i j h k) (\<lambda>v. thn (set_ChromaWeight (16 + 2 * i) j h k v) (set_ChromaWeight (16 + 2 * i + 1) j h k v)))
      (\<lambda>_. sl_w l pps sps) np t" if "sl_w l pps sps t" "h < 2" "k < 2" for t h k
    unfolding wp_bnd wp_thn
    by (rule wp_conj_mono [OF wp_get_ChromaWeight [OF that(1) i(1) assms(2) that(2,3)]])
       (use assms(3) in \<open>auto intro!: wp_conj_mono [OF wp_set_ChromaWeight] wp_set_ChromaWeight simp: that i assms(2)\<close>)
  have l1: "wp (forM [0, 1] (\<lambda>k. bnd (get_LumaWeight i j k) (\<lambda>v. thn (set_LumaWeight (16 + 2 * i) j k v) (set_LumaWeight (16 + 2 * i + 1) j k v))))
      (\<lambda>_. sl_w l pps sps) np t" if "sl_w l pps sps t" for t
    by (rule wp_forM_inv [where I = "sl_w l pps sps"]) (use that luma in auto)
  have c1: "wp (forM [0, 1] (\<lambda>h. forM [0, 1] (\<lambda>k. bnd (get_ChromaWeight i j h k) (\<lambda>v.
        thn (set_ChromaWeight (16 + 2 * i) j h k v) (set_ChromaWeight (16 + 2 * i + 1) j h k v)))))
      (\<lambda>_. sl_w l pps sps) np t" if "sl_w l pps sps t" for t
    by (rule wp_forM_inv [where I = "sl_w l pps sps"], fact that, rule wp_forM_inv [where I = "sl_w l pps sps"])
       (use chroma in auto)
  show ?thesis
    unfolding pwt_fields_def wp_thn wp_whenM
    by (rule wp_conj_mono [OF l1 [OF assms(1)]]) (use c1 in auto)
qed

lemma wp_pwt_list:
  assumes "sl_w l pps sps s" "j < 2" "weight_ok dl" "weight_ok dc"
  shows "wp (pwt_list sps dl dc j) (\<lambda>_. sl_w l pps sps) np s"
proof -
  have rc: "length (sh_RefCount (pr_sh t)) = 2" "unat (sh_RefCount (pr_sh t) ! j) \<le> max_refs (sh_PictureStructure (pr_sh t))"
    if "sl_w l pps sps t" for t
    using that assms(2) by (auto simp: sl_w_def sl_mods_def refs_ok_def less_2_cases_iff)
  have body: "wp (thn (pwt_luma dl j i) (thn (whenM (sps_ChromaFormatIDC sps \<noteq> 0) (pwt_chroma dc j i))
      (whenM (st = PictureFrame) (pwt_fields (sps_ChromaFormatIDC sps \<noteq> 0) j i)))) (\<lambda>_. sl_w l pps sps) np t"
    if "sl_w l pps sps t" "i < max_refs st" for t i st
  proof -
    have i: "i < 48" "st = 3 \<Longrightarrow> i < 16" using that(2) by (auto simp: max_refs_def split: if_splits)
    have f: "wp (whenM (st = 3) (pwt_fields (sps_ChromaFormatIDC sps \<noteq> 0) j i)) (\<lambda>_. sl_w l pps sps) np u"
      if "sl_w l pps sps u" for u
      using that i assms(2) by (auto simp: wp_whenM intro: wp_pwt_fields)
    have c: "wp (whenM (sps_ChromaFormatIDC sps \<noteq> 0) (pwt_chroma dc j i)) (\<lambda>_. sl_w l pps sps) np u"
      if "sl_w l pps sps u" for u
      using that i assms(2,4) by (auto simp: wp_whenM intro: wp_pwt_chroma)
    show ?thesis
      unfolding wp_thn
      by (rule wp_conj_mono [OF wp_pwt_luma [OF that(1) assms(2) i(1) assms(3)]], rule wp_conj_mono [OF c], assumption)
         (auto intro: f)
  qed
  have loop: "wp (forM [0..<n] (\<lambda>i. thn (pwt_luma dl j i) (thn (whenM (sps_ChromaFormatIDC sps \<noteq> 0) (pwt_chroma dc j i))
      (whenM (st = PictureFrame) (pwt_fields (sps_ChromaFormatIDC sps \<noteq> 0) j i))))) (\<lambda>_. sl_w l pps sps) np t"
    if "sl_w l pps sps t" "n \<le> max_refs st" for t n st
    by (rule wp_forM_inv [where I = "sl_w l pps sps"], fact that(1), rule body) (use that in auto)
  show ?thesis
    unfolding pwt_list_def wp_thn
    by (rule wp_conj_mono [OF wp_weight_flags(1) [OF assms(1,2)]], rule wp_conj_mono [OF wp_weight_flags(2) [OF _ assms(2)]], assumption)
       (use rc assms(2) in \<open>auto simp: wp_bnd wp_getH wp_lift intro!: loop\<close>)
qed

lemma weight_ok_denom: "weight_ok (2 ^ unat (log2_denom d))"
proof -
  have "unat (log2_denom d) \<le> 7" by (simp add: log2_denom_def word_le_nat_alt not_less)
  then have "(2 :: int) ^ unat (log2_denom d) \<le> 2 ^ 7" by (intro power_increasing) auto
  moreover have "(-128 :: int) \<le> 2 ^ unat (log2_denom d)" by (rule order_trans [of _ 0]) simp_all
  ultimately show ?thesis unfolding weight_ok_def by auto
qed

lemma wp_predWeightTable:
  assumes "sl_w l pps sps s"
  shows "wp (predWeightTable sps) (\<lambda>_. sl_w l pps sps) np s"
proof -
  have z: "weight_ok 0" by (simp add: weight_ok_def)
  have d: "unat (log2_denom x) \<le> 7" for x by (simp add: log2_denom_def word_le_nat_alt not_less)
  note one = sl_w_pwt [unfolded pwt_ok_def]
  have l2: "wp (whenM b (pwt_list sps dl dc 1)) (\<lambda>_. sl_w l pps sps) np t"
    if "sl_w l pps sps t" "weight_ok dl" "weight_ok dc" for t dl dc b
    using that by (auto simp: wp_whenM intro: wp_pwt_list)
  have fin: "wp (setW (\<lambda>w. if pwt_UseWeightChroma w \<noteq> 0 then w\<lparr>pwt_UseWeight := 1\<rparr> else w)) (\<lambda>_. sl_w l pps sps) np t"
    if "sl_w l pps sps t" for t
    using sl_w_pwt [OF that] by (simp add: wp_setW sl_w_upd [OF that]) (simp add: pwt_ok_def)
  have lists: "wp (thn (pwt_list sps dl dc 0) (thn (whenM b (pwt_list sps dl dc 1))
        (setW (\<lambda>w. if pwt_UseWeightChroma w \<noteq> 0 then w\<lparr>pwt_UseWeight := 1\<rparr> else w)))) (\<lambda>_. sl_w l pps sps) np t"
    if "sl_w l pps sps t" "weight_ok dl" "weight_ok dc" for t dl dc b
    unfolding wp_thn
    by (rule wp_conj_mono [OF wp_pwt_list [OF that(1) _ that(2,3)]], simp, rule wp_conj_mono [OF l2 [OF _ that(2,3)]], assumption)
       (auto intro: fin)
  have r: "wf_reader s" using assms by (simp add: sl_w_def)
  show ?thesis
    using r one [OF assms] z
    by (auto simp: predWeightTable_def wp_bnd wp_setW wp_getH wp_ret wp_if Let_def wp_thn [of "setW f" for f]
        sl_w_upd_at [OF assms] pwt_ok_def d weight_ok_denom intro!: sl_ops lists [unfolded One_nat_def])
qed

section \<open>The marking commands\<close>

lemma sl_w_mmco:
  assumes "sl_w l pps sps s"
  shows "wf_reader t \<Longrightarrow> sl_w l pps sps (t\<lparr>pr_sh := (pr_sh s)\<lparr>sh_MMCO := m\<rparr>\<rparr>) = (length m = 67)"
  using assms by (auto simp: sl_w_def sl_mods_def sl_ids_def)

lemma sl_w_len: "sl_w l pps sps s \<Longrightarrow> length (sh_MMCO (pr_sh s)) = 67"
  by (simp add: sl_w_def sl_mods_def)

lemma sl_w_max: "sl_w l pps sps s \<Longrightarrow> sh_MaxPicNum (pr_sh s) \<noteq> 0"
  by (auto simp: sl_w_def sl_mods_def num_ok_def split: if_splits)

lemma and_below: "m \<noteq> 0 \<Longrightarrow> x AND (m - 1) < m" for m :: u32
  by (rule le_less_trans [OF word_and_le1]) (simp add: word_less_nat_alt unat_sub_if_size word_size Suc_le_eq unat_gt_0)

text \<open>One command: its opcode and the arguments the opcode has, all in range.\<close>

definition mmco_args_ok :: "int \<Rightarrow> u32 \<Rightarrow> u32 \<Rightarrow> MMCO \<Rightarrow> bool" where
  "mmco_args_ok structure maxPicNum opcode c \<longleftrightarrow> mmco_Opcode c = opcode
     \<and> (opcode = mmcoShort2Unused \<or> opcode = mmcoShort2Long \<longrightarrow> mmco_ShortPicNum c < maxPicNum)
     \<and> (opcode \<in> {mmcoShort2Long, mmcoLong2Unused, mmcoLong, mmcoSetMaxLong}
         \<longrightarrow> \<not> longArg_invalid opcode (mmco_LongArg c) structure)"

lemma wp_mmco_args:
  assumes "sl_w l pps sps s" "i < 67"
  shows "wp (mmco_args i op) (\<lambda>_ s'. sl_w l pps sps s'
      \<and> pr_sh s' = (pr_sh s)\<lparr>sh_MMCO := (sh_MMCO (pr_sh s))[i := sh_MMCO (pr_sh s') ! i]\<rparr>
      \<and> mmco_args_ok (sh_PictureStructure (pr_sh s)) (sh_MaxPicNum (pr_sh s)) op (sh_MMCO (pr_sh s') ! i)) np s"
proof -
  have r: "wf_reader s" using assms(1) by (simp add: sl_w_def)
  note facts = r sl_w_len [OF assms(1)] assms(2) and_below [OF sl_w_max [OF assms(1)]]
  note defs = mmco_args_def wp_simps sl_w_mmco [OF assms(1)] mmco_args_ok_def
  consider "op = 1" | "op = 3" | "op = 2 \<or> op = 4 \<or> op = 6" | "op \<notin> {1, 2, 3, 4, 6}" by auto
  then show ?thesis
    by cases (use facts in \<open>auto simp: defs intro!: sl_ops\<close>)
qed

lemma mmco_cmd_args:
  assumes "mmco_args_ok st mx op c" "\<not> op > 6" "op \<noteq> 0"
  shows "mmco_cmd_ok st mx c"
proof -
  have "0 < unat op" using assms(3) by (rule unat_gt_0 [THEN iffD2])
  then have "1 \<le> op" unfolding word_le_nat_alt by simp
  moreover have "op \<le> 6" using assms(2) by (rule leI)
  ultimately show ?thesis using assms(1) unfolding mmco_args_ok_def mmco_cmd_ok_def by auto
qed

lemma wp_mmco_loop:
  assumes "sl_w l pps sps s" "i \<le> 67"
    "list_all (mmco_cmd_ok (sh_PictureStructure (pr_sh s)) (sh_MaxPicNum (pr_sh s))) (take i (sh_MMCO (pr_sh s)))"
  shows "wp (mmco_loop i (word_of_nat i)) (\<lambda>n s'. sl_w l pps sps s'
      \<and> mmco_ok (sh_PictureStructure (pr_sh s')) (sh_MaxPicNum (pr_sh s')) (unat n) (sh_MMCO (pr_sh s'))) np s"
  using assms
proof (induction "67 - i" arbitrary: i s rule: less_induct)
  case (less i s)
  have r: "wf_reader s" using less.prems(1) by (simp add: sl_w_def)
  note len = sl_w_len [OF less.prems(1)]
  have u: "unat (word_of_nat i :: u32) = i" using less.prems(2) by (simp add: unat_of_nat)
  have dn: "mmco_ok (sh_PictureStructure (pr_sh s)) (sh_MaxPicNum (pr_sh s)) (unat (word_of_nat i :: u32)) (sh_MMCO (pr_sh s))"
    using less.prems(2,3) len unfolding u mmco_ok_def by simp
  show ?case
  proof (cases "i < 67")
    case False
    then show ?thesis using less.prems(1) dn by (subst mmco_loop.simps) (simp add: wp_simps)
  next
    case True
    have nxt: "wp (if op > 6 then thn (setH (\<lambda>h. h\<lparr>sh_NBMMCO := word_of_nat i\<rparr>)) (fail ErrInvalidData)
         else if op = 0 then ret (word_of_nat i) else mmco_loop (Suc i) (word_of_nat (Suc i)))
       (\<lambda>n s'. sl_w l pps sps s' \<and> mmco_ok (sh_PictureStructure (pr_sh s')) (sh_MaxPicNum (pr_sh s')) (unat n) (sh_MMCO (pr_sh s'))) np t"
      if t: "sl_w l pps sps t" "pr_sh t = (pr_sh s)\<lparr>sh_MMCO := (sh_MMCO (pr_sh s))[i := c]\<rparr>"
        "mmco_args_ok (sh_PictureStructure (pr_sh s)) (sh_MaxPicNum (pr_sh s)) op c" for t op c
    proof (cases "op > 6 \<or> op = 0")
      case True
      have "mmco_ok (sh_PictureStructure (pr_sh t)) (sh_MaxPicNum (pr_sh t)) i (sh_MMCO (pr_sh t))"
        using dn u by (simp add: t(2) mmco_ok_def)
      then show ?thesis using True t(1) u by (auto simp: wp_simps)
    next
      case False
      then have c: "mmco_cmd_ok (sh_PictureStructure (pr_sh s)) (sh_MaxPicNum (pr_sh s)) c"
        using t(3) by (auto intro: mmco_cmd_args)
      have "take (Suc i) ((sh_MMCO (pr_sh s))[i := c]) = take i (sh_MMCO (pr_sh s)) @ [c]"
        using len \<open>i < 67\<close> by (simp add: take_Suc_conv_app_nth)
      then have "wp (mmco_loop (Suc i) (word_of_nat (Suc i))) (\<lambda>n s'. sl_w l pps sps s'
          \<and> mmco_ok (sh_PictureStructure (pr_sh s')) (sh_MaxPicNum (pr_sh s')) (unat n) (sh_MMCO (pr_sh s'))) np t"
        using t(1) c \<open>i < 67\<close> less.prems(3) by (intro less.hyps) (auto simp: t(2))
      then show ?thesis using False by simp
    qed
    have args: "wp (mmco_args i op) (\<lambda>_. wp (if op > 6 then thn (setH (\<lambda>h. h\<lparr>sh_NBMMCO := word_of_nat i\<rparr>)) (fail ErrInvalidData)
         else if op = 0 then ret (word_of_nat i) else mmco_loop (Suc i) (word_of_nat (Suc i)))
       (\<lambda>n s'. sl_w l pps sps s' \<and> mmco_ok (sh_PictureStructure (pr_sh s')) (sh_MaxPicNum (pr_sh s')) (unat n) (sh_MMCO (pr_sh s'))) np) np t"
      if "wf_reader t" "pr_sh t = pr_sh s" for t op
      by (rule wp_conj_mono [OF wp_mmco_args [OF sl_w_reader [OF less.prems(1) that] True]])
         ((unfold that(2), elim conjE, rule nxt; assumption) | assumption)+
    show ?thesis
      using True unfolding mmco_loop.simps [of i] if_P [OF True] wp_bnd wp_thn
      by (intro sl_op [OF readUEGolomb31.reader_op_axioms r] args) simp_all
  qed
qed

definition sl_mark :: "PPS option list \<Rightarrow> PPS \<Rightarrow> SPS \<Rightarrow> slice_parse \<Rightarrow> bool" where
  "sl_mark l pps sps s \<longleftrightarrow> sl_w l pps sps (s\<lparr>pr_sh := (pr_sh s)\<lparr>sh_NBMMCO := 0\<rparr>\<rparr>)
     \<and> mmco_ok (sh_PictureStructure (pr_sh s)) (sh_MaxPicNum (pr_sh s)) (unat (sh_NBMMCO (pr_sh s))) (sh_MMCO (pr_sh s))"

lemma sl_mark_none: "sl_w l pps sps s \<Longrightarrow> sl_mark l pps sps s"
  by (auto simp: sl_mark_def sl_w_def sl_mods_def sl_ids_def mmco_ok_def)

lemma sl_mark_done:
  "sl_w l pps sps s \<Longrightarrow> wf_reader t \<Longrightarrow> mmco_ok (sh_PictureStructure (pr_sh s)) (sh_MaxPicNum (pr_sh s)) (unat n) (sh_MMCO (pr_sh s))
   \<Longrightarrow> sl_mark l pps sps (t\<lparr>pr_sh := (pr_sh s)\<lparr>sh_ExplicitRefMarking := e, sh_NBMMCO := n\<rparr>\<rparr>)"
  by (auto simp: sl_mark_def sl_w_def sl_mods_def sl_ids_def)

lemma wp_decodeRefPicMarking:
  assumes "sl_w l pps sps s"
  shows "wp decodeRefPicMarking (\<lambda>_. sl_mark l pps sps) np s"
proof -
  have r: "wf_reader s" using assms by (simp add: sl_w_def)
  note len = sl_w_len [OF assms]
  have none: "mmco_ok (sh_PictureStructure (pr_sh s)) (sh_MaxPicNum (pr_sh s)) 0 (sh_MMCO (pr_sh s))"
    using len by (simp add: mmco_ok_def)
  have expl: "wp (bnd (mmco_loop 0 0) (\<lambda>n. setH (\<lambda>h. h\<lparr>sh_NBMMCO := n\<rparr>))) (\<lambda>_. sl_mark l pps sps) np
      (t\<lparr>pr_sh := (pr_sh s)\<lparr>sh_ExplicitRefMarking := e\<rparr>\<rparr>)" if "wf_reader t" "pr_sh t = pr_sh s" for t e
  proof -
    let ?t = "t\<lparr>pr_sh := (pr_sh s)\<lparr>sh_ExplicitRefMarking := e\<rparr>\<rparr>"
    have "sl_w l pps sps ?t" using assms that(1) by (auto simp: sl_w_def sl_mods_def sl_ids_def)
    then have "wp (mmco_loop 0 0) (\<lambda>n s'. sl_w l pps sps s'
      \<and> mmco_ok (sh_PictureStructure (pr_sh s')) (sh_MaxPicNum (pr_sh s')) (unat n) (sh_MMCO (pr_sh s'))) np ?t"
      using wp_mmco_loop [of l pps sps ?t 0] by simp
    then show ?thesis
      unfolding wp_bnd wp_setH
      by (rule wp_conj_mono) (auto simp: sl_mark_def sl_w_def sl_mods_def sl_ids_def)
  qed
  have idr: "mmco_ok (sh_PictureStructure (pr_sh s)) (sh_MaxPicNum (pr_sh s)) (Suc 0)
      ((sh_MMCO (pr_sh s))[0 := (sh_MMCO (pr_sh s) ! 0)\<lparr>mmco_Opcode := 6, mmco_LongArg := 0\<rparr>])"
  proof -
    obtain c cs where "sh_MMCO (pr_sh s) = c # cs" using len by (cases "sh_MMCO (pr_sh s)") auto
    then show ?thesis using len by (simp add: mmco_ok_def mmco_cmd_ok_def longArg_invalid_def)
  qed
  have m: "sl_mark l pps sps (t\<lparr>pr_sh := (pr_sh s)\<lparr>sh_MMCO := m, sh_ExplicitRefMarking := e, sh_NBMMCO := n\<rparr>\<rparr>)"
    if "wf_reader t" "length m = 67" "mmco_ok (sh_PictureStructure (pr_sh s)) (sh_MaxPicNum (pr_sh s)) (unat n) m" for t m e n
    using that assms by (auto simp: sl_mark_def sl_w_def sl_mods_def sl_ids_def)
  show ?thesis
    using r len none idr
    by (auto simp: decodeRefPicMarking_def wp_bnd wp_thn wp_getH wp_setH wp_whenM wp_set_elems wp_if
        intro!: sl_ops m sl_mark_done [OF assms] expl [unfolded wp_bnd])
qed

section \<open>The whole header\<close>

lemma sl_num_ids: "sl_num l pps sps h \<Longrightarrow> sl_ids l pps sps h"
  by (simp add: sl_num_def)

lemma wp_slice_refs:
  assumes "wf_reader s" "sl_poc sps (pr_sh s)" "sl_num l pps sps (pr_sh s)"
  shows "wp (slice_refs pps sps) (\<lambda>_. sl_mark l pps sps) np s"
proof -
  define R where "R t \<longleftrightarrow> wf_reader t \<and> sl_poc sps (pr_sh t) \<and> sl_num l pps sps (pr_sh t)" for t :: slice_parse
  have red: "wp (whenM b (bnd readUEGolombLong (\<lambda>v. setH (\<lambda>h. h\<lparr>sh_RedundantPicCount := v\<rparr>)))) (\<lambda>_. R) np t"
    if "R t" for b t
    using that by (auto simp: R_def sl_poc_def sl_num_def sl_ids_def sh_shape_def wp_whenM wp_bnd wp_setH intro!: sl_ops)
  have dir: "wp (whenM b (bnd readBit (\<lambda>v. setH (\<lambda>h. h\<lparr>sh_DirectSpatialMVPred := i32_of v\<rparr>)))) (\<lambda>_. R) np t"
    if "R t" for b t
    using that by (auto simp: R_def sl_poc_def sl_num_def sl_ids_def sh_shape_def wp_whenM wp_bnd wp_setH intro!: sl_ops)
  have mark: "wp (whenM b decodeRefPicMarking) (\<lambda>_. sl_mark l pps sps) np t" if "sl_w l pps sps t" for b t
    using that by (auto simp: wp_whenM intro: wp_decodeRefPicMarking sl_mark_none)
  have weights: "wp (whenM b (predWeightTable sps)) (\<lambda>_. sl_w l pps sps) np t" if "sl_w l pps sps t" for b t
    using that by (auto simp: wp_whenM intro: wp_predWeightTable)
  have lists: "wp (whenM b (catch decodeRefPicListReordering (\<lambda>e. thn (set_RefCount 0 0) (thn (set_RefCount 1 0) (fail e)))))
      (\<lambda>_. sl_w l pps sps) np t" if "wf_reader t" "sl_refs l pps sps (pr_sh t)" for b t
  proof -
    have "wp (catch decodeRefPicListReordering (\<lambda>e. thn (set_RefCount 0 0) (thn (set_RefCount 1 0) (fail e))))
      (\<lambda>_. sl_w l pps sps) np t"
      unfolding wp_catch
      by (rule wp_conj_mono [OF wp_decodeRefPicListReordering [OF that]]) (auto simp: sl_w_def wp_simps)
    then show ?thesis using that by (auto simp: wp_whenM sl_w_def intro: sl_mods_start)
  qed
  have rest: "wp (thn (parseRefCount pps)
      (thn (whenM b1 (catch decodeRefPicListReordering (\<lambda>e. thn (set_RefCount 0 0) (thn (set_RefCount 1 0) (fail e)))))
      (thn (whenM b2 (predWeightTable sps)) (whenM b3 decodeRefPicMarking)))) (\<lambda>_. sl_mark l pps sps) np t"
    if "R t" for b1 b2 b3 t
    unfolding wp_thn
    by (rule wp_conj_mono [OF wp_parseRefCount [OF that [unfolded R_def, THEN conjunct1]
          that [unfolded R_def, THEN conjunct2, THEN conjunct1] that [unfolded R_def, THEN conjunct2, THEN conjunct2]]],
        elim conjE, rule wp_conj_mono [OF lists], assumption+, rule wp_conj_mono [OF weights], assumption)
       (auto intro: mark)
  have R: "R s" using assms by (simp add: R_def)
  show ?thesis
    unfolding slice_refs_def
    by (subst wp_thn, rule wp_conj_mono [OF red [OF R]], simp only: wp_bnd wp_getH, subst wp_thn,
        rule wp_conj_mono [OF dir], assumption, rule rest, assumption)
qed

definition sl_core :: "PPS option list \<Rightarrow> PPS \<Rightarrow> SPS \<Rightarrow> SliceHeader \<Rightarrow> bool" where
  "sl_core l pps sps h \<longleftrightarrow> sl_ids l pps sps h \<and> type_ok (sh_SliceType h) (sh_SliceTypeNoS h)
     \<and> num_ok sps (sh_PictureStructure h) (sh_MBFieldDecodingFlag h) (sh_FrameNum h) (sh_CurrPicNum h) (sh_MaxPicNum h)
     \<and> refs_ok (sh_SliceTypeNoS h) (sh_PictureStructure h) (sh_ListCount h) (sh_RefCount h)
     \<and> mods_ok (sh_RefCount h) (sh_NBRefModifications h) (sh_RefModifications h)
     \<and> length (sh_DeltaPOC h) = 2 \<and> pwt_ok (sh_PredWeightTable h)
     \<and> mmco_ok (sh_PictureStructure h) (sh_MaxPicNum h) (unat (sh_NBMMCO h)) (sh_MMCO h)
     \<and> unat (sh_IDRPicID h) < 65536 \<and> (sps_PocType sps = 0 \<longrightarrow> unat (sh_POCLSB h) < 2 ^ nat (sps_Log2MaxPocLSB sps))"

lemma sl_mark_core:
  "sl_mark l pps sps s \<Longrightarrow> wf_reader s \<and> sl_core l pps sps (pr_sh s) \<and> length (sh_ChromaQP (pr_sh s)) = 2
     \<and> sh_CABACInitIDC (pr_sh s) = 0 \<and> sh_SliceAlphaC0Offset (pr_sh s) = 0 \<and> sh_SliceBetaOffset (pr_sh s) = 0"
  by (simp add: sl_mark_def sl_w_def sl_mods_def sl_core_def sl_ids_def)

lemma sl_core_frame [simp]:
  "sl_core l pps sps (h\<lparr>sh_CABACInitIDC := a\<rparr>) = sl_core l pps sps h"
  "sl_core l pps sps (h\<lparr>sh_QScale := b\<rparr>) = sl_core l pps sps h"
  "sl_core l pps sps (h\<lparr>sh_ChromaQP := c\<rparr>) = sl_core l pps sps h"
  "sl_core l pps sps (h\<lparr>sh_SPForSwitchFlag := d\<rparr>) = sl_core l pps sps h"
  "sl_core l pps sps (h\<lparr>sh_SliceQSDelta := e\<rparr>) = sl_core l pps sps h"
  "sl_core l pps sps (h\<lparr>sh_DeblockingFilter := f\<rparr>) = sl_core l pps sps h"
  "sl_core l pps sps (h\<lparr>sh_SliceAlphaC0Offset := x\<rparr>) = sl_core l pps sps h"
  "sl_core l pps sps (h\<lparr>sh_SliceBetaOffset := y\<rparr>) = sl_core l pps sps h"
  by (simp_all add: sl_core_def sl_ids_def)

definition sl_quant :: "PPS option list \<Rightarrow> PPS \<Rightarrow> SPS \<Rightarrow> slice_parse \<Rightarrow> bool" where
  "sl_quant l pps sps s \<longleftrightarrow> wf_reader s \<and> sl_core l pps sps (pr_sh s) \<and> unat (sh_CABACInitIDC (pr_sh s)) \<le> 2
     \<and> quant_ok pps sps (sh_QScale (pr_sh s)) (sh_ChromaQP (pr_sh s))
     \<and> sh_SliceAlphaC0Offset (pr_sh s) = 0 \<and> sh_SliceBetaOffset (pr_sh s) = 0"

lemma wp_slice_quant:
  assumes "sl_mark l pps sps s"
  shows "wp (slice_quant pps sps) (\<lambda>_. sl_quant l pps sps) np s"
proof -
  note c = sl_mark_core [OF assms]
  then have ids: "sl_ids l pps sps (pr_sh s)" by (simp add: sl_core_def)
  then have "pps_shape pps" by (auto simp: sl_ids_def pps_ok_def)
  then have t: "length (pps_ChromaQPTable pps) = 2" "length (pps_ChromaQPTable pps ! 0) = 88"
    "length (pps_ChromaQPTable pps ! Suc 0) = 88"
    by (auto simp: pps_shape_def list_all_length)
  have mq: "max_qp (sps_BitDepthLuma sps) < 88" "max_qp (sps_BitDepthLuma sps) \<le> MaxInt32"
    using sl_ids_sps(6) [OF ids] by (simp_all add: max_qp_def)
  have q: "unat (u32_of q) = nat q" if "0 \<le> q" "q \<le> max_qp (sps_BitDepthLuma sps)" for q
    using that mq by (simp add: unat_u32_of)
  have two: "unat v \<le> 2" if "\<not> 2 < v" for v :: u32 using that by (simp add: word_le_nat_alt not_less)
  show ?thesis
    using c t mq
    by (auto simp: slice_quant_def wp_simps Let_def not_less q two list_two_eq sl_quant_def quant_ok_def intro!: sl_ops)
qed

lemma wp_slice_deblock:
  assumes "sl_quant l pps sps s"
  shows "wp (slice_deblock pps) (\<lambda>_ s'. slice_ok l (pr_sh s')) np s"
proof -
  have out: "slice_ok l h" if "sl_core l pps sps h" "unat (sh_CABACInitIDC h) \<le> 2"
    "quant_ok pps sps (sh_QScale h) (sh_ChromaQP h)" "deblock_ok (sh_DeblockingFilter h) (sh_SliceAlphaC0Offset h) (sh_SliceBetaOffset h)" for h
    using that by (simp add: slice_ok_def sl_core_def sl_ids_def)
  have v: "i32_of v \<in> {0, 1, 2}" if "v \<le> 2" for v
  proof -
    have "unat v \<le> 2" using that by (simp add: word_le_nat_alt)
    then show ?thesis by (auto simp: i32_of_small)
  qed
  have mode: "i32_of v < 2 \<Longrightarrow> 0 \<le> i32_of v XOR 1" "i32_of v < 2 \<Longrightarrow> i32_of v XOR 1 \<le> 2" "0 \<le> i32_of v" "i32_of v \<le> 2" if "v \<le> 2" for v
    using v [OF that] by auto
  have d: "deblock_ok m (x * 2) (y * 2)" "deblock_ok m 0 0"
    if "0 \<le> m" "m \<le> 2" "-6 \<le> x" "x \<le> 6" "-6 \<le> y" "y \<le> 6" for m x y
    using that by (auto simp: deblock_ok_def)
  show ?thesis
    using assms mode
    by (auto simp: slice_deblock_def wp_simps Let_def not_less sl_quant_def simp del: insert_iff intro!: sl_ops out d(1) d(2) [where x = 0 and y = 0])
qed

lemma wp_slice_parser:
  assumes "wf_reader s" "sl_start (pr_sh s)" "pps_list_ok l"
  shows "wp (slice_parser l) (\<lambda>_ s'. slice_ok l (pr_sh s')) np s"
proof -
  have rest: "wp (thn (bnd (readBits (u32_of (sps_Log2MaxFrameNum sps))) (\<lambda>v. setH (\<lambda>h. h\<lparr>sh_FrameNum := v\<rparr>)))
      (thn (slice_structure sps) (thn (slice_poc pps sps) (thn (slice_refs pps sps) (thn (slice_quant pps sps) (slice_deblock pps))))))
      (\<lambda>_ s'. slice_ok l (pr_sh s')) np t"
    if "wf_reader t" "sl_start (pr_sh t)" "type_ok (sh_SliceType (pr_sh t)) (sh_SliceTypeNoS (pr_sh t))" "sl_ids l pps sps (pr_sh t)"
    for pps sps t
    unfolding wp_thn
    by (rule wp_conj_mono [OF wp_frame_num [OF that]], elim conjE, rule wp_conj_mono [OF wp_slice_structure], assumption+,
        elim conjE, rule wp_conj_mono [OF wp_slice_poc], assumption+, elim conjE, rule wp_conj_mono [OF wp_slice_refs], assumption+,
        rule wp_conj_mono [OF wp_slice_quant], assumption, rule wp_slice_deblock)
  show ?thesis
    unfolding slice_parser_def wp_thn wp_bnd
    by (rule wp_conj_mono [OF wp_slice_type [OF assms(1,2)]], elim conjE,
        rule wp_conj_mono [OF wp_slice_pps [OF _ _ _ assms(3)]], assumption+)
       (auto intro: rest)
qed

lemma slice_header_cases:
  assumes "pps_list_ok l"
  shows "case parseSliceHeaderWithPayloadInto nal l sh of
     (Inr gb, h) \<Rightarrow> slice_ok l h | (Inl e, h) \<Rightarrow> e \<in> {ErrInvalidData, ErrUnsupported}"
proof (cases "newRBSPBitReader (nal_RBSP nal)")
  case (Inl e)
  then show ?thesis using rbspBitLength_error by (simp add: parseSliceHeaderWithPayloadInto_def)
next
  case (Inr gb)
  have "wf_reader (slice_start nal gb)"
    using newRBSPBitReader_wf [OF Inr] by (simp add: slice_start_def wf_reader_def)
  moreover have "sl_start (pr_sh (slice_start nal gb))"
    by (simp add: slice_start_def sl_start_init)
  ultimately have "wp (slice_parser l) (\<lambda>_ s'. slice_ok l (pr_sh s')) np (slice_start nal gb)"
    by (rule wp_slice_parser [OF _ _ assms])
  then show ?thesis using Inr
    by (cases "slice_parser l (slice_start nal gb)")
       (auto simp: parseSliceHeaderWithPayloadInto_def wp_def split: sum.splits intro: goerror.exhaust)
qed

text \<open>
  C5. The slice-header parser is safe on every NAL unit, with the tables of parameter sets that any sequence of
  NAL units leaves (SPSs and PPSs in any order, parsed with their recovery, replaced as they come, a PPS
  keeping the SPS it was parsed with): no panic, and a header it accepts satisfies \<open>slice_ok\<close>: it refers to
  admitted parameter sets of the table, its picture number is below the maximum, its reference counts, list
  modifications and weights stay within their arrays, every marking command has its arguments in range, the
  quantiser lies within the bit depth and the chroma quantisers are the PPS's, and the deblocking offsets are
  even values of -12 to 12.
\<close>

theorem parseSliceHeader_safe:
  "case param_sets nals of
     Inl e \<Rightarrow> False
   | Inr (spsList, ppsList) \<Rightarrow>
       (case parseSliceHeaderWithPayloadInto nal ppsList sh of
          (Inr gb, h) \<Rightarrow> slice_ok ppsList h
        | (Inl e, h) \<Rightarrow> e \<in> {ErrInvalidData, ErrUnsupported})"
proof -
  obtain sl pl where "param_sets nals = Inr (sl, pl)" "pps_list_ok pl" using param_sets_ok by blast
  then show ?thesis using slice_header_cases [of pl nal sh] by simp
qed

end
