(* ===== verification/Frames.thy ===== *)
theory Frames
  imports Slice_Header "HOL-Library.Signed_Division"
begin

text \<open>
  Decoded frames (\<open>simple_decode.go\<close>, with the plane geometry of \<open>motion_comp.go\<close> and
  \<open>reconstruct_high.go\<close> and the macroblock tables of \<open>macroblock_cache.go\<close>): the struct, its
  allocation from a sequence parameter set, the checks that a frame has the layout its parameter
  set asks for, and the views of its planes that become references.

  A frame is a value here; the decoded picture buffer keeps frames by reference and is the subject
  of \<open>Dpb\<close>. The side data of a frame (SEI messages) is left out of the record.
\<close>

section \<open>Go's integer division and shifts\<close>

abbreviation (input) h264MaxMBWidth :: int where "h264MaxMBWidth \<equiv> 1055"
abbreviation (input) h264MaxMBHeight :: int where "h264MaxMBHeight \<equiv> 1055"
abbreviation (input) h264MBNonZeroCountSize :: nat where "h264MBNonZeroCountSize \<equiv> 48"

definition absInt :: "int \<Rightarrow> int" where
  "absInt v = (if v < 0 then - v else v)"

definition clipInt :: "int \<Rightarrow> int \<Rightarrow> int \<Rightarrow> int" where
  "clipInt v lo hi = (if v < lo then lo else if v > hi then hi else v)"

lemma absInt_abs [simp]: "absInt v = \<bar>v\<bar>"
  by (simp add: absInt_def)

lemma clipInt_range: "lo \<le> hi \<Longrightarrow> lo \<le> clipInt v lo hi \<and> clipInt v lo hi \<le> hi"
  by (simp add: clipInt_def)

section \<open>Plane geometry\<close>

definition h264ChromaFrameSizeChecked :: "int \<Rightarrow> int \<Rightarrow> int \<Rightarrow> (int \<times> int) result" where
  "h264ChromaFrameSizeChecked mbWidth mbHeight chromaFormatIDC =
     (let scaled = (\<lambda>w h. case checkedMulInt mbWidth w of
          Inl _ \<Rightarrow> Inl ErrInvalidData
        | Inr width \<Rightarrow> (case checkedMulInt mbHeight h of
            Inl _ \<Rightarrow> Inl ErrInvalidData
          | Inr height \<Rightarrow> Inr (width, height)))
      in if chromaFormatIDC = 1 then scaled 8 8
         else if chromaFormatIDC = 2 then scaled 8 16
         else if chromaFormatIDC = 3 then scaled 16 16
         else Inl ErrInvalidData)"

definition h264PlaneSpanEnd :: "int \<Rightarrow> int \<Rightarrow> int \<Rightarrow> int \<Rightarrow> int result" where
  "h264PlaneSpanEnd offset stride height width =
     (if offset < 0 \<or> stride \<le> 0 \<or> height < 0 \<or> width < 0 then Inl ErrInvalidData
      else if height = 0 then Inr offset
      else case checkedMulInt (height - 1) stride of
        Inl _ \<Rightarrow> Inl ErrInvalidData
      | Inr lastRow \<Rightarrow> (case checkedAddInt offset lastRow of
          Inl _ \<Rightarrow> Inl ErrInvalidData
        | Inr end0 \<Rightarrow> (case checkedAddInt end0 width of
            Inl _ \<Rightarrow> Inl ErrInvalidData
          | Inr end1 \<Rightarrow> Inr end1)))"

definition h264PlaneSpanLength :: "int \<Rightarrow> int \<Rightarrow> int \<Rightarrow> int result" where
  "h264PlaneSpanLength stride height width = h264PlaneSpanEnd 0 stride height width"

text \<open>\<open>h264PlaneHas\<close> and \<open>h264PlaneHasHigh\<close>, one for each sample type, have the same body.\<close>

definition h264PlaneHas :: "'a list \<Rightarrow> int \<Rightarrow> int \<Rightarrow> int \<Rightarrow> bool" where
  "h264PlaneHas p stride height width =
     (if stride \<le> 0 \<or> height < 0 \<or> width < 0 then False
      else if height = 0 then True
      else if width = 0 \<or> stride < width then False
      else case h264PlaneSpanLength stride height width of
        Inl _ \<Rightarrow> False
      | Inr need \<Rightarrow> int (length p) \<ge> need)"

text \<open>
  \<open>h264PicturePlanes\<close> and \<open>h264PicturePlanesHigh\<close>: the same struct over \<open>uint8\<close> and \<open>uint16\<close>
  samples.
\<close>

record 'a h264PicturePlanes =
  pl_Y :: "'a list"
  pl_Cb :: "'a list"
  pl_Cr :: "'a list"
  pl_LumaStride :: int
  pl_ChromaStride :: int
  pl_MBWidth :: int
  pl_MBHeight :: int
  pl_ChromaFormatIDC :: int
  pl_PictureStructure :: int
  pl_trustedLayout :: bool

definition validate :: "'a h264PicturePlanes \<Rightarrow> unit result" where
  "validate p =
     (if pl_trustedLayout p then Inr ()
      else if pl_MBWidth p \<le> 0 \<or> pl_MBHeight p \<le> 0 \<or> pl_LumaStride p \<le> 0 \<or> pl_ChromaFormatIDC p < 0
              \<or> pl_ChromaFormatIDC p > 3 then Inl ErrInvalidData
      else case checkedMulInt (pl_MBWidth p) 16 of
        Inl _ \<Rightarrow> Inl ErrInvalidData
      | Inr lumaWidth \<Rightarrow> (case checkedMulInt (pl_MBHeight p) 16 of
          Inl _ \<Rightarrow> Inl ErrInvalidData
        | Inr lumaHeight \<Rightarrow>
            if pl_LumaStride p < lumaWidth \<or> \<not> h264PlaneHas (pl_Y p) (pl_LumaStride p) lumaHeight lumaWidth
            then Inl ErrInvalidData
            else if pl_ChromaFormatIDC p = 0 then Inr ()
            else (case h264ChromaFrameSizeChecked (pl_MBWidth p) (pl_MBHeight p) (pl_ChromaFormatIDC p) of
                Inl _ \<Rightarrow> Inl ErrInvalidData
              | Inr (chromaWidth, chromaHeight) \<Rightarrow>
                  if pl_ChromaStride p < chromaWidth
                     \<or> \<not> h264PlaneHas (pl_Cb p) (pl_ChromaStride p) chromaHeight chromaWidth
                     \<or> \<not> h264PlaneHas (pl_Cr p) (pl_ChromaStride p) chromaHeight chromaWidth
                  then Inl ErrInvalidData else Inr ())))"

section \<open>Macroblock tables\<close>

record macroblockTables =
  mt_MBWidth :: int
  mt_MBHeight :: int
  mt_MBStride :: int
  mt_BStride :: int
  mt_ChromaFormatIDC :: int
  mt_ChromaYShift :: int
  mt_MB2BXY :: "u32 list"
  mt_MB2BRXY :: "u32 list"
  mt_NonZeroCount :: "u8 list list"
  mt_CBPTable :: "int list"
  mt_QScaleTable :: "u8 list"
  mt_ChromaPred :: "int list"
  mt_Intra4x4Pred :: "int list"
  mt_MacroblockTyp :: "u32 list"
  mt_SliceTable :: "u16 list"
  mt_RefIndex :: "int list list"
  mt_MotionVal :: "(int \<times> int) list list"
  mt_MVDTable :: "(u8 \<times> u8) list list"
  mt_DirectTable :: "u8 list"
  mt_ListCounts :: "u8 list"

text \<open>The coordinate tables, filled macroblock by macroblock; a write out of range is a panic.\<close>

fun fill_xy :: "int \<Rightarrow> int \<Rightarrow> nat list \<Rightarrow> nat \<Rightarrow> u32 list \<times> u32 list \<Rightarrow> (u32 list \<times> u32 list) result" where
  "fill_xy mbStride bStride [] y (a, b) = Inr (a, b)"
| "fill_xy mbStride bStride (x # xs) y (a, b) =
     (let mbXY = int x + int y * mbStride in
      rbind (set_idx a (nat mbXY) (word_of_int (4 * int x + 4 * int y * bStride))) (\<lambda>a.
      rbind (set_idx b (nat mbXY) (word_of_int (8 * (mbXY mod (2 * mbStride))))) (\<lambda>b.
      fill_xy mbStride bStride xs y (a, b))))"

fun fill_rows :: "int \<Rightarrow> int \<Rightarrow> nat \<Rightarrow> nat list \<Rightarrow> u32 list \<times> u32 list \<Rightarrow> (u32 list \<times> u32 list) result" where
  "fill_rows mbStride bStride w [] ab = Inr ab"
| "fill_rows mbStride bStride w (y # ys) ab =
     rbind (fill_xy mbStride bStride [0..<w] y ab) (fill_rows mbStride bStride w ys)"

definition newMacroblockTables :: "int \<Rightarrow> int \<Rightarrow> int \<Rightarrow> macroblockTables result" where
  "newMacroblockTables mbWidth mbHeight chromaFormatIDC =
     (if mbWidth \<le> 0 \<or> mbHeight \<le> 0 \<or> chromaFormatIDC < 0 \<or> chromaFormatIDC > 3 then Inl ErrInvalidData
      else
        rbind (checkedAddInt mbWidth 1) (\<lambda>mbStride.
        rbind (checkedAddInt mbHeight 1) (\<lambda>mbHeightPlus1.
        rbind (checkedMulInt mbStride mbHeightPlus1) (\<lambda>bigMBNum.
        rbind (checkedMulInt mbStride mbHeight) (\<lambda>mbArraySize.
        rbind (checkedMulInt 2 mbStride) (\<lambda>rowMBNum.
        rbind (checkedMulInt mbWidth 4) (\<lambda>bStride.
        rbind (checkedMulInt rowMBNum 8) (\<lambda>intraPredSize.
        rbind (checkedMulInt bigMBNum 4) (\<lambda>directSize.
        rbind (checkedMulInt 4 mbArraySize) (\<lambda>refIndexSize.
        rbind (checkedMulInt bStride mbHeight) (\<lambda>motionValRows.
        rbind (checkedMulInt motionValRows 4) (\<lambda>motionValSize.
        let zeros = (\<lambda>n. replicate (nat n) 0) in
        rbind (fill_rows mbStride bStride (nat mbWidth) [0..<nat mbHeight] (zeros bigMBNum, zeros bigMBNum))
          (\<lambda>(xy, rxy).
        Inr \<lparr>mt_MBWidth = mbWidth, mt_MBHeight = mbHeight, mt_MBStride = mbStride, mt_BStride = bStride,
          mt_ChromaFormatIDC = chromaFormatIDC, mt_ChromaYShift = (if chromaFormatIDC \<le> 1 then 1 else 0),
          mt_MB2BXY = xy, mt_MB2BRXY = rxy,
          mt_NonZeroCount = replicate (nat bigMBNum) (replicate h264MBNonZeroCountSize 0),
          mt_CBPTable = replicate (nat bigMBNum) 0, mt_QScaleTable = replicate (nat bigMBNum) 0,
          mt_ChromaPred = replicate (nat bigMBNum) 0, mt_Intra4x4Pred = replicate (nat intraPredSize) 0,
          mt_MacroblockTyp = replicate (nat bigMBNum) 0, mt_SliceTable = replicate (nat bigMBNum) (NOT 0),
          mt_RefIndex = replicate 2 (replicate (nat refIndexSize) 0),
          mt_MotionVal = replicate 2 (replicate (nat motionValSize) (0, 0)),
          mt_MVDTable = replicate 2 (replicate (nat intraPredSize) (0, 0)),
          mt_DirectTable = replicate (nat directSize) 0,
          mt_ListCounts = replicate (nat bigMBNum) 0\<rparr>)))))))))))))"

definition resetForDecode :: "macroblockTables \<Rightarrow> macroblockTables" where
  "resetForDecode m = m\<lparr>
     mt_NonZeroCount := replicate (length (mt_NonZeroCount m)) (replicate h264MBNonZeroCountSize 0),
     mt_CBPTable := replicate (length (mt_CBPTable m)) 0,
     mt_QScaleTable := replicate (length (mt_QScaleTable m)) 0,
     mt_ChromaPred := replicate (length (mt_ChromaPred m)) 0,
     mt_Intra4x4Pred := replicate (length (mt_Intra4x4Pred m)) 0,
     mt_MacroblockTyp := replicate (length (mt_MacroblockTyp m)) 0,
     mt_DirectTable := replicate (length (mt_DirectTable m)) 0,
     mt_ListCounts := replicate (length (mt_ListCounts m)) 0,
     mt_SliceTable := replicate (length (mt_SliceTable m)) (NOT 0),
     mt_RefIndex := map (\<lambda>r. replicate (length r) 0) (mt_RefIndex m),
     mt_MotionVal := map (\<lambda>r. replicate (length r) (0, 0)) (mt_MotionVal m),
     mt_MVDTable := map (\<lambda>r. replicate (length r) (0, 0)) (mt_MVDTable m)\<rparr>"

section \<open>Frames\<close>

text \<open>References to frames are addresses; a nil reference is \<open>None\<close>.\<close>

type_synonym fref = nat

record simpleRefEntry =
  re_frame :: "fref option"
  re_picID :: u32
  re_long :: bool
  re_pictureStructure :: int
  re_poc :: int

record DecodedFrame =
  df_Y :: "u8 list"
  df_Cb :: "u8 list"
  df_Cr :: "u8 list"
  df_Y16 :: "u16 list"
  df_Cb16 :: "u16 list"
  df_Cr16 :: "u16 list"
  df_LumaStride :: int
  df_ChromaStride :: int
  df_Width :: int
  df_Height :: int
  df_CropLeft :: int
  df_CropTop :: int
  df_MBWidth :: int
  df_MBHeight :: int
  df_ChromaFormatIDC :: int
  df_BitDepthLuma :: int
  df_BitDepthChroma :: int
  df_SARNum :: int
  df_SARDen :: int
  df_VideoFormat :: int
  df_VideoFullRangeFlag :: int
  df_ColorPrimaries :: int
  df_ColorTransfer :: int
  df_ColorMatrix :: int
  df_ChromaLocation :: int
  df_ChromaSampleLocTypeTopField :: int
  df_ChromaSampleLocTypeBottomField :: int
  df_TimingInfoPresentFlag :: int
  df_NumUnitsInTick :: u32
  df_TimeScale :: u32
  df_FixedFrameRateFlag :: int
  df_RepeatPict :: int
  df_InterlacedFrame :: bool
  df_TopFieldFirst :: bool
  df_KeyFrame :: bool
  df_frameNum :: u32
  df_fieldPOC :: "int \<times> int"
  df_poc :: int
  df_idrKeyFrame :: bool
  df_mmcoReset :: bool
  df_recovered :: u8
  df_frameMBSOnlyFlag :: int
  df_fieldPicture :: bool
  df_mbaff :: bool
  df_tables :: "macroblockTables option"
  df_refEntries :: "simpleRefEntry list \<times> simpleRefEntry list"
  df_fieldRefEntries :: "(simpleRefEntry list \<times> simpleRefEntry list) \<times> (simpleRefEntry list \<times> simpleRefEntry list)"
  df_invalidGap :: bool

definition frame_init :: DecodedFrame where
  "frame_init = \<lparr>df_Y = [], df_Cb = [], df_Cr = [], df_Y16 = [], df_Cb16 = [], df_Cr16 = [], df_LumaStride = 0,
     df_ChromaStride = 0, df_Width = 0, df_Height = 0, df_CropLeft = 0, df_CropTop = 0, df_MBWidth = 0,
     df_MBHeight = 0, df_ChromaFormatIDC = 0, df_BitDepthLuma = 0, df_BitDepthChroma = 0, df_SARNum = 0,
     df_SARDen = 0, df_VideoFormat = 0, df_VideoFullRangeFlag = 0, df_ColorPrimaries = 0,
     df_ColorTransfer = 0, df_ColorMatrix = 0, df_ChromaLocation = 0, df_ChromaSampleLocTypeTopField = 0,
     df_ChromaSampleLocTypeBottomField = 0, df_TimingInfoPresentFlag = 0, df_NumUnitsInTick = 0,
     df_TimeScale = 0, df_FixedFrameRateFlag = 0, df_RepeatPict = 0, df_InterlacedFrame = False,
     df_TopFieldFirst = False, df_KeyFrame = False, df_frameNum = 0, df_fieldPOC = (0, 0), df_poc = 0,
     df_idrKeyFrame = False, df_mmcoReset = False, df_recovered = 0, df_frameMBSOnlyFlag = 0,
     df_fieldPicture = False, df_mbaff = False, df_tables = None, df_refEntries = ([], []),
     df_fieldRefEntries = (([], []), ([], [])), df_invalidGap = False\<rparr>"

text \<open>The fields a frame takes from its parameter set, in \<open>newSimpleDecodedFrame\<close> and on reuse.\<close>

definition frame_of_sps :: "SPS \<Rightarrow> DecodedFrame" where
  "frame_of_sps sps = frame_init\<lparr>
     df_LumaStride := sps_MBWidth sps * 16,
     df_Width := sps_Width sps, df_Height := sps_Height sps,
     df_CropLeft := int (unat (sps_CropLeft sps)), df_CropTop := int (unat (sps_CropTop sps)),
     df_MBWidth := sps_MBWidth sps, df_MBHeight := sps_MBHeight sps,
     df_ChromaFormatIDC := int (unat (sps_ChromaFormatIDC sps)),
     df_BitDepthLuma := sps_BitDepthLuma sps, df_BitDepthChroma := sps_BitDepthChroma sps,
     df_frameMBSOnlyFlag := sps_FrameMBSOnlyFlag sps,
     df_SARNum := vui_SARNum (sps_VUI sps), df_SARDen := vui_SARDen (sps_VUI sps),
     df_VideoFormat := vui_VideoFormat (sps_VUI sps),
     df_VideoFullRangeFlag := vui_VideoFullRangeFlag (sps_VUI sps),
     df_ColorPrimaries := vui_ColourPrimaries (sps_VUI sps),
     df_ColorTransfer := vui_TransferCharacteristics (sps_VUI sps),
     df_ColorMatrix := vui_MatrixCoeffs (sps_VUI sps),
     df_ChromaLocation := vui_ChromaLocation (sps_VUI sps),
     df_ChromaSampleLocTypeTopField := vui_ChromaSampleLocTypeTopField (sps_VUI sps),
     df_ChromaSampleLocTypeBottomField := vui_ChromaSampleLocTypeBottomField (sps_VUI sps),
     df_TimingInfoPresentFlag := sps_TimingInfoPresentFlag sps,
     df_NumUnitsInTick := sps_NumUnitsInTick sps, df_TimeScale := sps_TimeScale sps,
     df_FixedFrameRateFlag := sps_FixedFrameRateFlag sps\<rparr>"

definition picturePlanes :: "DecodedFrame \<Rightarrow> u8 h264PicturePlanes" where
  "picturePlanes f = \<lparr>pl_Y = df_Y f, pl_Cb = df_Cb f, pl_Cr = df_Cr f, pl_LumaStride = df_LumaStride f,
     pl_ChromaStride = df_ChromaStride f, pl_MBWidth = df_MBWidth f, pl_MBHeight = df_MBHeight f,
     pl_ChromaFormatIDC = df_ChromaFormatIDC f, pl_PictureStructure = PictureFrame, pl_trustedLayout = False\<rparr>"

definition picturePlanesHigh :: "DecodedFrame \<Rightarrow> u16 h264PicturePlanes" where
  "picturePlanesHigh f = \<lparr>pl_Y = df_Y16 f, pl_Cb = df_Cb16 f, pl_Cr = df_Cr16 f, pl_LumaStride = df_LumaStride f,
     pl_ChromaStride = df_ChromaStride f, pl_MBWidth = df_MBWidth f, pl_MBHeight = df_MBHeight f,
     pl_ChromaFormatIDC = df_ChromaFormatIDC f, pl_PictureStructure = PictureFrame, pl_trustedLayout = False\<rparr>"

definition checkH264DSPHighBitDepth :: "int \<Rightarrow> unit result" where
  "checkH264DSPHighBitDepth bitDepth =
     (if bitDepth = 9 \<or> bitDepth = 10 \<or> bitDepth = 12 \<or> bitDepth = 14 then Inr () else Inl ErrUnsupported)"

text \<open>The planes, zeroed, at the sample width of the parameter set.\<close>

definition alloc_planes :: "SPS \<Rightarrow> int \<Rightarrow> int \<Rightarrow> int \<Rightarrow> DecodedFrame \<Rightarrow> DecodedFrame" where
  "alloc_planes sps lumaSamples chromaWidth chromaSamples frame =
     (let highBitDepth = sps_BitDepthLuma sps \<noteq> 8;
          frame = (if highBitDepth then frame\<lparr>df_Y16 := replicate (nat lumaSamples) 0\<rparr>
                   else frame\<lparr>df_Y := replicate (nat lumaSamples) 0\<rparr>)
      in if sps_ChromaFormatIDC sps \<noteq> 0 then
           let frame = frame\<lparr>df_ChromaStride := chromaWidth\<rparr> in
           (if highBitDepth then frame\<lparr>df_Cb16 := replicate (nat chromaSamples) 0, df_Cr16 := replicate (nat chromaSamples) 0\<rparr>
            else frame\<lparr>df_Cb := replicate (nat chromaSamples) 0, df_Cr := replicate (nat chromaSamples) 0\<rparr>)
         else frame)"

definition newSimpleDecodedFrame :: "SPS \<Rightarrow> (DecodedFrame \<times> macroblockTables) result" where
  "newSimpleDecodedFrame sps =
     (if sps_FrameMBSOnlyFlag sps \<noteq> 0 \<and> sps_MBAFF sps \<noteq> 0 then Inl ErrUnsupported
      else if sps_BitDepthLuma sps \<noteq> sps_BitDepthChroma sps then Inl ErrUnsupported
      else rbind (if sps_BitDepthLuma sps \<noteq> 8 then checkH264DSPHighBitDepth (sps_BitDepthLuma sps) else Inr ()) (\<lambda>_.
      if unat (sps_ChromaFormatIDC sps) > 3 then Inl ErrUnsupported
      else let mbWidth = sps_MBWidth sps; mbHeight = sps_MBHeight sps;
               chromaFormatIDC = int (unat (sps_ChromaFormatIDC sps)) in
      if mbWidth \<le> 0 \<or> mbHeight \<le> 0 \<or> sps_Width sps \<le> 0 \<or> sps_Height sps \<le> 0 then Inl ErrInvalidData
      else if mbWidth > h264MaxMBWidth \<or> mbHeight > h264MaxMBHeight then Inl ErrInvalidData
      else
        rbind (checkedMulInt mbWidth 16) (\<lambda>lumaStride.
        rbind (checkedMulInt mbHeight 16) (\<lambda>lumaHeight.
        rbind (checkedMulInt lumaStride lumaHeight) (\<lambda>lumaSamples.
        rbind (if chromaFormatIDC \<noteq> 0 then
                 rbind (h264ChromaFrameSizeChecked mbWidth mbHeight chromaFormatIDC) (\<lambda>(chromaWidth, chromaHeight).
                 rbind (checkedMulInt chromaWidth chromaHeight) (\<lambda>chromaSamples. Inr (chromaWidth, chromaSamples)))
               else Inr (0, 0)) (\<lambda>(chromaWidth, chromaSamples).
        let frame = alloc_planes sps lumaSamples chromaWidth chromaSamples
              ((frame_of_sps sps)\<lparr>df_LumaStride := lumaStride\<rparr>) in
        rbind (newMacroblockTables mbWidth mbHeight chromaFormatIDC) (\<lambda>tables.
        let frame = frame\<lparr>df_tables := Some tables\<rparr> in
        rbind (if sps_BitDepthLuma sps \<noteq> 8 then validate (picturePlanesHigh frame)
               else validate (picturePlanes frame)) (\<lambda>_.
        Inr (frame, tables)))))))))"

definition reusableDecodedFrameForSPS :: "DecodedFrame \<Rightarrow> SPS \<Rightarrow> bool" where
  "reusableDecodedFrameForSPS frame sps =
     (case df_tables frame of None \<Rightarrow> False | Some t \<Rightarrow>
      let mbWidth = sps_MBWidth sps; mbHeight = sps_MBHeight sps; chromaFormatIDC = int (unat (sps_ChromaFormatIDC sps)) in
      if df_MBWidth frame \<noteq> mbWidth \<or> df_MBHeight frame \<noteq> mbHeight \<or> df_ChromaFormatIDC frame \<noteq> chromaFormatIDC
         \<or> df_BitDepthLuma frame \<noteq> sps_BitDepthLuma sps \<or> df_BitDepthChroma frame \<noteq> sps_BitDepthChroma sps
         \<or> mt_MBWidth t \<noteq> mbWidth \<or> mt_MBHeight t \<noteq> mbHeight \<or> mt_ChromaFormatIDC t \<noteq> chromaFormatIDC
      then False
      else if sps_BitDepthLuma sps \<noteq> 8 then length (df_Y16 frame) \<noteq> 0 else length (df_Y frame) \<noteq> 0)"

definition resetSimpleDecodedFrame :: "DecodedFrame \<Rightarrow> SPS \<Rightarrow> unit result \<times> DecodedFrame" where
  "resetSimpleDecodedFrame frame sps =
     (let frame = (frame_of_sps sps)\<lparr>df_Y := df_Y frame, df_Cb := df_Cb frame, df_Cr := df_Cr frame,
            df_Y16 := df_Y16 frame, df_Cb16 := df_Cb16 frame, df_Cr16 := df_Cr16 frame,
            df_tables := df_tables frame, df_refEntries := df_refEntries frame,
            df_fieldRefEntries := df_fieldRefEntries frame\<rparr>
      in if sps_ChromaFormatIDC sps \<noteq> 0 then
           (case h264ChromaFrameSizeChecked (sps_MBWidth sps) (sps_MBHeight sps) (int (unat (sps_ChromaFormatIDC sps))) of
              Inl e \<Rightarrow> (Inl e, frame)
            | Inr (chromaWidth, _) \<Rightarrow> (Inr (), frame\<lparr>df_ChromaStride := chromaWidth\<rparr>))
         else (Inr (), frame))"

definition clearForReuse :: "DecodedFrame \<Rightarrow> DecodedFrame" where
  "clearForReuse f = f\<lparr>df_refEntries := ([], []), df_fieldRefEntries := (([], []), ([], [])), df_invalidGap := False\<rparr>"

definition matchesSPS :: "DecodedFrame \<Rightarrow> SPS option \<Rightarrow> unit result" where
  "matchesSPS f sps = (case sps of None \<Rightarrow> Inl ErrInvalidData | Some sps \<Rightarrow>
     if df_MBWidth f \<noteq> sps_MBWidth sps \<or> df_MBHeight f \<noteq> sps_MBHeight sps
        \<or> df_Width f \<noteq> sps_Width sps \<or> df_Height f \<noteq> sps_Height sps
        \<or> df_CropLeft f \<noteq> int (unat (sps_CropLeft sps)) \<or> df_CropTop f \<noteq> int (unat (sps_CropTop sps))
        \<or> df_ChromaFormatIDC f \<noteq> int (unat (sps_ChromaFormatIDC sps))
        \<or> df_frameMBSOnlyFlag f \<noteq> sps_FrameMBSOnlyFlag sps
        \<or> df_BitDepthLuma f \<noteq> sps_BitDepthLuma sps \<or> df_BitDepthChroma f \<noteq> sps_BitDepthChroma sps
     then Inl ErrUnsupported else Inr ())"

section \<open>Field views of a reference\<close>

text \<open>\<open>applySimpleFieldRefPlane\<close> and its \<open>High\<close> twin: every second row, from the field's first.\<close>

definition drop_row :: "int \<Rightarrow> 'a list \<Rightarrow> 'a list" where
  "drop_row stride p = (if int (length p) > stride then drop (nat stride) p else p)"

definition applySimpleFieldRefPlane :: "int \<Rightarrow> 'a h264PicturePlanes \<Rightarrow> 'a h264PicturePlanes" where
  "applySimpleFieldRefPlane pictureStructure pic =
     (let pic = pic\<lparr>pl_PictureStructure := pictureStructure\<rparr>
      in if pictureStructure = PictureFrame then pic
         else let pic = (if pictureStructure = PictureBottomField then
                pic\<lparr>pl_Y := drop_row (pl_LumaStride pic) (pl_Y pic),
                    pl_Cb := drop_row (pl_ChromaStride pic) (pl_Cb pic),
                    pl_Cr := drop_row (pl_ChromaStride pic) (pl_Cr pic)\<rparr> else pic)
              in pic\<lparr>pl_LumaStride := pl_LumaStride pic * 2, pl_ChromaStride := pl_ChromaStride pic * 2,
                     pl_MBHeight := (pl_MBHeight pic + 1) div 2\<rparr>)"

section \<open>Geometry facts\<close>

lemma checkedMulInt_Inr:
  assumes "0 \<le> a" "0 \<le> b" "a * b \<le> maxInt"
  shows "checkedMulInt a b = Inr (a * b)"
proof (cases "b = 0")
  case False
  then have "a \<le> maxInt div b"
    using zdiv_mono1 [of "a * b" maxInt b] assms by simp
  then show ?thesis using assms by (simp add: checkedMulInt_def)
qed (simp add: checkedMulInt_def)

lemma checkedMulInt_nonneg: "checkedMulInt a b = Inr c \<Longrightarrow> 0 \<le> a \<Longrightarrow> 0 \<le> b \<Longrightarrow> c = a * b"
  by (auto simp: checkedMulInt_def split: if_splits)

lemma plane_has_iff:
  assumes "1 \<le> h" "1 \<le> w" "w \<le> s" "(h - 1) * s + w \<le> maxInt"
  shows "h264PlaneHas p s h w \<longleftrightarrow> (h - 1) * s + w \<le> int (length p)"
proof -
  have a: "(h - 1) * s \<le> maxInt - w" "0 \<le> (h - 1) * s" using assms by auto
  then have m: "checkedMulInt (h - 1) s = Inr ((h - 1) * s)" using assms by (intro checkedMulInt_Inr) auto
  have "checkedAddInt 0 ((h - 1) * s) = Inr ((h - 1) * s)"
    using a assms(1,2) by (simp add: checkedAddInt_def)
  moreover have "checkedAddInt ((h - 1) * s) w = Inr ((h - 1) * s + w)"
    using a assms by (simp add: checkedAddInt_def)
  ultimately show ?thesis
    using assms m by (simp add: h264PlaneHas_def h264PlaneSpanLength_def h264PlaneSpanEnd_def)
qed

lemma plane_has_need:
  assumes "h264PlaneHas p s h w" "1 \<le> h"
  shows "1 \<le> w \<and> w \<le> s \<and> (h - 1) * s + w \<le> maxInt \<and> (h - 1) * s + w \<le> int (length p)"
  using assms
  by (auto simp: h264PlaneHas_def h264PlaneSpanLength_def h264PlaneSpanEnd_def checkedAddInt_def
      dest!: checkedMulInt_nonneg split: if_splits sum.splits)

lemma chroma_size:
  assumes "h264ChromaFrameSizeChecked w h c = Inr (cw, ch)" "0 \<le> w" "0 \<le> h"
  shows "1 \<le> c \<and> c \<le> 3 \<and> cw = w * (if c = 3 then 16 else 8) \<and> ch = h * (if c = 1 then 8 else 16)"
  using assms
  by (auto simp: h264ChromaFrameSizeChecked_def Let_def dest!: checkedMulInt_nonneg split: if_splits sum.splits)

lemma plane_field:
  assumes "h264PlaneHas p s (2 * h) w" "1 \<le> h"
  shows "h264PlaneHas p (2 * s) h w" "h264PlaneHas (drop_row s p) (2 * s) h w"
    "drop_row s p = drop (nat s) p" "s < int (length p)"
proof -
  have n: "1 \<le> w" "w \<le> s" "(2 * h - 1) * s + w \<le> maxInt" "(2 * h - 1) * s + w \<le> int (length p)"
    using plane_has_need [OF assms(1)] assms(2) by auto
  have e: "(h - 1) * (2 * s) + w = (2 * h - 1) * s + w - s" by (simp add: algebra_simps)
  have g: "s \<le> (2 * h - 1) * s" using assms(2) n by (simp add: mult_le_cancel_right1)
  show l: "s < int (length p)" using g n by linarith
  then show d: "drop_row s p = drop (nat s) p" by (simp add: drop_row_def)
  have b: "(h - 1) * (2 * s) + w \<le> maxInt" "w \<le> 2 * s" using e n by auto
  show "h264PlaneHas p (2 * s) h w" using e n b assms(2) by (simp add: plane_has_iff)
  show "h264PlaneHas (drop_row s p) (2 * s) h w"
    using e n b assms(2) l unfolding d by (simp add: plane_has_iff of_nat_diff)
qed

lemma drop_row_nth:
  assumes "s < int (length p)" "0 \<le> i" "0 \<le> s"
  shows "drop (nat s) p ! nat i = p ! nat (i + s)"
proof -
  have "nat s + nat i = nat (i + s)" using assms by (simp add: nat_add_distrib)
  then show ?thesis using assms(1,3) by (simp add: nth_drop)
qed

definition plane_valid :: "'a h264PicturePlanes \<Rightarrow> bool" where
  "plane_valid p \<longleftrightarrow> validate (p\<lparr>pl_trustedLayout := False\<rparr>) = Inr ()"

lemma plane_valid_iff:
  "plane_valid p \<longleftrightarrow> 1 \<le> pl_MBWidth p \<and> 1 \<le> pl_MBHeight p \<and> 0 < pl_LumaStride p
     \<and> (\<exists>lw lh. checkedMulInt (pl_MBWidth p) 16 = Inr lw \<and> checkedMulInt (pl_MBHeight p) 16 = Inr lh
          \<and> lw \<le> pl_LumaStride p \<and> h264PlaneHas (pl_Y p) (pl_LumaStride p) lh lw)
     \<and> (pl_ChromaFormatIDC p = 0 \<or>
        (\<exists>cw ch. h264ChromaFrameSizeChecked (pl_MBWidth p) (pl_MBHeight p) (pl_ChromaFormatIDC p) = Inr (cw, ch)
          \<and> cw \<le> pl_ChromaStride p \<and> h264PlaneHas (pl_Cb p) (pl_ChromaStride p) ch cw
          \<and> h264PlaneHas (pl_Cr p) (pl_ChromaStride p) ch cw))"
  by (auto simp: plane_valid_def validate_def h264ChromaFrameSizeChecked_def Let_def not_le not_less
      split: sum.splits if_splits)


lemma field_plane_fields:
  assumes "b = PictureTopField \<or> b = PictureBottomField"
  shows "pl_MBWidth (applySimpleFieldRefPlane b p) = pl_MBWidth p"
    "pl_MBHeight (applySimpleFieldRefPlane b p) = (pl_MBHeight p + 1) div 2"
    "pl_LumaStride (applySimpleFieldRefPlane b p) = 2 * pl_LumaStride p"
    "pl_ChromaStride (applySimpleFieldRefPlane b p) = 2 * pl_ChromaStride p"
    "pl_ChromaFormatIDC (applySimpleFieldRefPlane b p) = pl_ChromaFormatIDC p"
    "pl_Y (applySimpleFieldRefPlane b p) = (if b = PictureBottomField then drop_row (pl_LumaStride p) (pl_Y p) else pl_Y p)"
    "pl_Cb (applySimpleFieldRefPlane b p) = (if b = PictureBottomField then drop_row (pl_ChromaStride p) (pl_Cb p) else pl_Cb p)"
    "pl_Cr (applySimpleFieldRefPlane b p) = (if b = PictureBottomField then drop_row (pl_ChromaStride p) (pl_Cr p) else pl_Cr p)"
    "pl_PictureStructure (applySimpleFieldRefPlane b p) = b"
  using assms by (auto simp: applySimpleFieldRefPlane_def Let_def)

lemma field_plane_valid:
  assumes "plane_valid p" "even (pl_MBHeight p)" "b = PictureTopField \<or> b = PictureBottomField"
  shows "plane_valid (applySimpleFieldRefPlane b p)"
proof -
  obtain k where k: "pl_MBHeight p = 2 * k" using assms(2) by auto
  note v = assms(1) [unfolded plane_valid_iff k]
  have k1: "1 \<le> k" using v by simp
  obtain lw lh where l0: "checkedMulInt (pl_MBWidth p) 16 = Inr lw" "checkedMulInt (2 * k) 16 = Inr lh"
      "lw \<le> pl_LumaStride p" "h264PlaneHas (pl_Y p) (pl_LumaStride p) lh lw"
    using v by blast
  have lh: "lh = 2 * (k * 16)" using checkedMulInt_nonneg [OF l0(2)] k1 by simp
  note l = l0 [unfolded lh]
  have k16: "checkedMulInt k 16 = Inr (k * 16)"
    using l(2) k1 by (intro checkedMulInt_Inr) (auto simp: checkedMulInt_def split: if_splits)
  have hk: "(2 * k + 1) div 2 = k" by simp
  note lf = plane_field [OF l(4)]
  have c: "\<exists>cw ch. h264ChromaFrameSizeChecked (pl_MBWidth p) k (pl_ChromaFormatIDC p) = Inr (cw, ch)
     \<and> h264ChromaFrameSizeChecked (pl_MBWidth p) (2 * k) (pl_ChromaFormatIDC p) = Inr (cw, 2 * ch) \<and> 1 \<le> ch
     \<and> cw \<le> pl_ChromaStride p \<and> h264PlaneHas (pl_Cb p) (pl_ChromaStride p) (2 * ch) cw
     \<and> h264PlaneHas (pl_Cr p) (pl_ChromaStride p) (2 * ch) cw" if nz: "pl_ChromaFormatIDC p \<noteq> 0"
  proof -
    obtain cw ch where c: "h264ChromaFrameSizeChecked (pl_MBWidth p) (2 * k) (pl_ChromaFormatIDC p) = Inr (cw, ch)"
        "cw \<le> pl_ChromaStride p" "h264PlaneHas (pl_Cb p) (pl_ChromaStride p) ch cw"
        "h264PlaneHas (pl_Cr p) (pl_ChromaStride p) ch cw"
      using v nz by auto
    define m :: int where "m = (if pl_ChromaFormatIDC p = 1 then 8 else 16)"
    have m: "ch = 2 * (k * m)" "m = 8 \<or> m = 16" "1 \<le> pl_ChromaFormatIDC p" "pl_ChromaFormatIDC p \<le> 3"
      using chroma_size [OF c(1)] v k1 by (auto simp: m_def)
    have "checkedMulInt k m = Inr (k * m)"
      using k16 k1 m(2) by (intro checkedMulInt_Inr) (auto simp: checkedMulInt_def split: if_splits)
    then have "h264ChromaFrameSizeChecked (pl_MBWidth p) k (pl_ChromaFormatIDC p) = Inr (cw, k * m)"
      using c(1) m_def by (auto simp: h264ChromaFrameSizeChecked_def Let_def split: sum.splits if_splits)
    moreover have "1 \<le> k * m" using k1 m(2) by auto
    ultimately show ?thesis using c m(1) by auto
  qed
  note f = field_plane_fields [OF assms(3), of p]
  have y: "h264PlaneHas (pl_Y (applySimpleFieldRefPlane b p)) (2 * pl_LumaStride p) (k * 16) lw"
    using lf(1,2) k1 by (simp add: f)
  show ?thesis
  proof (cases "pl_ChromaFormatIDC p = 0")
    case True
    then show ?thesis unfolding plane_valid_iff f hk k using v k1 l(1,3) k16 y by (simp add: f)
  next
    case False
    then obtain cw ch where c: "h264ChromaFrameSizeChecked (pl_MBWidth p) k (pl_ChromaFormatIDC p) = Inr (cw, ch)"
        "1 \<le> ch" "cw \<le> pl_ChromaStride p" "h264PlaneHas (pl_Cb p) (pl_ChromaStride p) (2 * ch) cw"
        "h264PlaneHas (pl_Cr p) (pl_ChromaStride p) (2 * ch) cw" using c by blast
    have "h264PlaneHas (pl_Cb (applySimpleFieldRefPlane b p)) (2 * pl_ChromaStride p) ch cw"
         "h264PlaneHas (pl_Cr (applySimpleFieldRefPlane b p)) (2 * pl_ChromaStride p) ch cw"
      using plane_field(1,2) [OF c(4,2)] plane_field(1,2) [OF c(5,2)] by (simp_all add: f)
    moreover have "cw \<le> 2 * pl_ChromaStride p"
      using c(3) plane_has_need [OF c(4)] c(2) by simp
    ultimately show ?thesis
      unfolding plane_valid_iff f(1-5) hk k using v k1 l(1,3) k16 y c(1) by simp
  qed
qed

section \<open>The coordinate tables\<close>

definition bxy :: "int \<Rightarrow> int \<Rightarrow> nat \<Rightarrow> u32" where
  "bxy s bs i = word_of_int (4 * (int i mod s) + 4 * (int i div s) * bs)"

definition brxy :: "int \<Rightarrow> nat \<Rightarrow> u32" where
  "brxy s i = word_of_int (8 * (int i mod (2 * s)))"

lemma fill_xy_spec:
  assumes "\<And>x. x \<in> set xs \<Longrightarrow> int x < s \<and> nat (int x + int y * s) < n" "length a = n" "length b = n"
  shows "\<exists>a' b'. fill_xy s bs xs y (a, b) = Inr (a', b') \<and> length a' = n \<and> length b' = n
    \<and> (\<forall>i. a' ! i = (if i \<in> (\<lambda>x. nat (int x + int y * s)) ` set xs then bxy s bs i else a ! i))
    \<and> (\<forall>i. b' ! i = (if i \<in> (\<lambda>x. nat (int x + int y * s)) ` set xs then brxy s i else b ! i))"
  using assms
proof (induction xs arbitrary: a b)
  case (Cons x xs)
  let ?i = "nat (int x + int y * s)"
  have x: "int x < s" "?i < n" using Cons.prems(1) by auto
  have i: "int ?i = int x + int y * s" using x by simp
  have v: "word_of_int (4 * int x + 4 * int y * bs) = bxy s bs ?i"
    using x by (simp add: bxy_def i del: int_nat_eq)
  have w: "word_of_int (8 * ((int x + int y * s) mod (2 * s))) = brxy s ?i"
    by (simp only: brxy_def i)
  obtain a' b' where r: "fill_xy s bs xs y (a[?i := bxy s bs ?i], b[?i := brxy s ?i]) = Inr (a', b')"
      "length a' = n" "length b' = n"
      "\<forall>i. a' ! i = (if i \<in> (\<lambda>x. nat (int x + int y * s)) ` set xs then bxy s bs i else a[?i := bxy s bs ?i] ! i)"
      "\<forall>i. b' ! i = (if i \<in> (\<lambda>x. nat (int x + int y * s)) ` set xs then brxy s i else b[?i := brxy s ?i] ! i)"
    using Cons.IH [of "a[?i := bxy s bs ?i]" "b[?i := brxy s ?i]"] Cons.prems by auto
  have "fill_xy s bs (x # xs) y (a, b) = Inr (a', b')"
    using x(2) Cons.prems(2,3) r(1) by (simp only: fill_xy.simps Let_def v w) (simp add: set_idx_def)
  then show ?case
    using r(2-5) x(2) Cons.prems(2,3) by (auto simp: nth_list_update)
qed auto

lemma fill_rows_spec:
  assumes "\<And>x y. x < w \<Longrightarrow> y \<in> set ys \<Longrightarrow> nat (int x + int y * s) < n" "int w \<le> s" "length a = n" "length b = n"
  shows "\<exists>a' b'. fill_rows s bs w ys (a, b) = Inr (a', b') \<and> length a' = n \<and> length b' = n
    \<and> (\<forall>x < w. \<forall>y \<in> set ys. a' ! nat (int x + int y * s) = bxy s bs (nat (int x + int y * s))
          \<and> b' ! nat (int x + int y * s) = brxy s (nat (int x + int y * s)))
    \<and> (\<forall>i. a' ! i = bxy s bs i \<or> a' ! i = a ! i) \<and> (\<forall>i. b' ! i = brxy s i \<or> b' ! i = b ! i)"
  using assms
proof (induction ys arbitrary: a b)
  case (Cons y ys)
  have p: "int x < s \<and> nat (int x + int y * s) < n" if "x \<in> set [0..<w]" for x
    using that Cons.prems(1) [of x y] Cons.prems(2) by auto
  obtain a1 b1 where 1: "fill_xy s bs [0..<w] y (a, b) = Inr (a1, b1)" "length a1 = n" "length b1 = n"
      "\<forall>i. a1 ! i = (if i \<in> (\<lambda>x. nat (int x + int y * s)) ` set [0..<w] then bxy s bs i else a ! i)"
      "\<forall>i. b1 ! i = (if i \<in> (\<lambda>x. nat (int x + int y * s)) ` set [0..<w] then brxy s i else b ! i)"
    using fill_xy_spec [of "[0..<w]" s y n, OF p] Cons.prems by blast
  obtain a' b' where 2: "fill_rows s bs w ys (a1, b1) = Inr (a', b')" "length a' = n" "length b' = n"
      "\<forall>x < w. \<forall>y \<in> set ys. a' ! nat (int x + int y * s) = bxy s bs (nat (int x + int y * s))
          \<and> b' ! nat (int x + int y * s) = brxy s (nat (int x + int y * s))"
      "\<forall>i. a' ! i = bxy s bs i \<or> a' ! i = a1 ! i" "\<forall>i. b' ! i = brxy s i \<or> b' ! i = b1 ! i"
    using Cons.IH [OF _ Cons.prems(2) 1(2,3)] Cons.prems(1) by (metis list.set_intros(2))
  have h: "a1 ! nat (int x + int y * s) = bxy s bs (nat (int x + int y * s))"
       "b1 ! nat (int x + int y * s) = brxy s (nat (int x + int y * s))" if "x < w" for x
    using 1(4,5) that by auto
  have "fill_rows s bs w (y # ys) (a, b) = Inr (a', b')" using 1(1) 2(1) by simp
  moreover have "\<forall>x < w. \<forall>y' \<in> set (y # ys). a' ! nat (int x + int y' * s) = bxy s bs (nat (int x + int y' * s))
          \<and> b' ! nat (int x + int y' * s) = brxy s (nat (int x + int y' * s))"
    using 2(4-6) h by (metis set_ConsD)
  moreover have "\<forall>i. a' ! i = bxy s bs i \<or> a' ! i = a ! i" "\<forall>i. b' ! i = brxy s i \<or> b' ! i = b ! i"
    using 2(5,6) 1(4,5) by metis+
  ultimately show ?case using 2(2,3) by blast
qed auto

definition tables_ok :: "int \<Rightarrow> int \<Rightarrow> int \<Rightarrow> macroblockTables \<Rightarrow> bool" where
  "tables_ok w h c t \<longleftrightarrow>
     mt_MBWidth t = w \<and> mt_MBHeight t = h \<and> mt_MBStride t = w + 1 \<and> mt_BStride t = 4 * w
     \<and> mt_ChromaFormatIDC t = c \<and> mt_ChromaYShift t = (if c \<le> 1 then 1 else 0)
     \<and> (let n = nat ((w + 1) * (h + 1)) in length (mt_MB2BXY t) = n \<and> length (mt_MB2BRXY t) = n
         \<and> length (mt_NonZeroCount t) = n \<and> length (mt_CBPTable t) = n \<and> length (mt_QScaleTable t) = n
         \<and> length (mt_ChromaPred t) = n \<and> length (mt_MacroblockTyp t) = n \<and> length (mt_SliceTable t) = n
         \<and> length (mt_ListCounts t) = n \<and> length (mt_DirectTable t) = 4 * n)
     \<and> length (mt_Intra4x4Pred t) = nat (16 * (w + 1)) \<and> map length (mt_MVDTable t) = replicate 2 (nat (16 * (w + 1)))
     \<and> map length (mt_RefIndex t) = replicate 2 (nat (4 * ((w + 1) * h)))
     \<and> map length (mt_MotionVal t) = replicate 2 (nat (16 * (w * h)))
     \<and> (\<forall>x < nat w. \<forall>y < nat h. let i = x + y * nat (w + 1) in
           mt_MB2BXY t ! i = word_of_nat (4 * x + 16 * y * nat w)
         \<and> mt_MB2BRXY t ! i = word_of_nat (8 * (i mod (2 * nat (w + 1)))))"

lemma bxy_at:
  assumes "x < w"
  shows "nat (int x + int y * (int w + 1)) = x + y * (w + 1)"
    "bxy (int w + 1) (4 * int w) (x + y * (w + 1)) = word_of_nat (4 * x + 16 * y * w)"
    "brxy (int w + 1) i = word_of_nat (8 * (i mod (2 * (w + 1))))"
proof -
  show "nat (int x + int y * (int w + 1)) = x + y * (w + 1)"
    by (simp add: nat_eq_iff algebra_simps)
  have e: "int (x + y * (w + 1)) = int x + int y * (int w + 1)" by (simp add: algebra_simps)
  have "int (x + y * (w + 1)) mod (int w + 1) = int x" "int (x + y * (w + 1)) div (int w + 1) = int y"
    using assms unfolding e by (simp_all only: mod_mult_self1 div_mult_self1) (simp_all add: div_pos_pos_trivial)
  moreover have "4 * int x + 4 * int y * (4 * int w) = int (4 * x + 16 * y * w)" by simp
  ultimately show "bxy (int w + 1) (4 * int w) (x + y * (w + 1)) = word_of_nat (4 * x + 16 * y * w)"
    unfolding bxy_def by (simp only: of_int_of_nat_eq)
  have "8 * (int i mod (2 * (int w + 1))) = int (8 * (i mod (2 * (w + 1))))"
    by (simp add: zmod_int algebra_simps)
  then show "brxy (int w + 1) i = word_of_nat (8 * (i mod (2 * (w + 1))))"
    unfolding brxy_def by (metis of_int_of_nat_eq)
qed


theorem newMacroblockTables_spec:
  assumes "1 \<le> w" "w \<le> h264MaxMBWidth" "1 \<le> h" "h \<le> h264MaxMBHeight" "0 \<le> c" "c \<le> 3"
  shows "case newMacroblockTables w h c of Inr t \<Rightarrow> tables_ok w h c t | Inl e \<Rightarrow> False"
proof -
  let ?n = "nat ((w + 1) * (h + 1))"
  have b: "(w + 1) * (h + 1) \<le> 1056 * 1056" "(w + 1) * h \<le> 1056 * 1055" "w * h \<le> 1055 * 1055"
    using assms(1-4) by (intro mult_mono; simp)+
  obtain xy rxy where f: "fill_rows (w + 1) (w * 4) (nat w) [0..<nat h] (replicate ?n 0, replicate ?n 0) = Inr (xy, rxy)"
      "length xy = ?n" "length rxy = ?n"
      "\<forall>x < nat w. \<forall>y \<in> set [0..<nat h]. xy ! nat (int x + int y * (w + 1)) = bxy (w + 1) (w * 4) (nat (int x + int y * (w + 1)))
          \<and> rxy ! nat (int x + int y * (w + 1)) = brxy (w + 1) (nat (int x + int y * (w + 1)))"
  proof -
    have "nat (int x + int y * (w + 1)) < ?n" if "x < nat w" "y \<in> set [0..<nat h]" for x y
    proof -
      have "int x < w + 1" "int y \<le> h" using that by auto
      then have "int x + int y * (w + 1) < (w + 1) + h * (w + 1)"
        using assms(1) by (intro add_less_le_mono mult_right_mono) auto
      also have "(w + 1) + h * (w + 1) = (w + 1) * (h + 1)" by (simp add: algebra_simps)
      finally show ?thesis using assms(1) by (intro nat_less_eq_zless [THEN iffD2]) auto
    qed
    from fill_rows_spec [OF this, of "nat w" "[0..<nat h]" "replicate ?n 0" "replicate ?n 0" "w * 4"] that assms(1)
    show thesis by auto
  qed
  have a: "checkedAddInt w 1 = Inr (w + 1)" "checkedAddInt h 1 = Inr (h + 1)"
    using assms(1-4) by (simp_all add: checkedAddInt_def)
  have m: "checkedMulInt (w + 1) (h + 1) = Inr ((w + 1) * (h + 1))"
    "checkedMulInt (w + 1) h = Inr ((w + 1) * h)" "checkedMulInt 2 (w + 1) = Inr (2 * (w + 1))"
    "checkedMulInt w 4 = Inr (w * 4)" "checkedMulInt (2 * (w + 1)) 8 = Inr (2 * (w + 1) * 8)"
    "checkedMulInt ((w + 1) * (h + 1)) 4 = Inr ((w + 1) * (h + 1) * 4)"
    "checkedMulInt 4 ((w + 1) * h) = Inr (4 * ((w + 1) * h))"
    "checkedMulInt (w * 4) h = Inr (w * 4 * h)" "checkedMulInt (w * 4 * h) 4 = Inr (w * 4 * h * 4)"
    using assms(1-4) b by (intro checkedMulInt_Inr; simp add: algebra_simps)+
  have g: "\<not> (w \<le> 0 \<or> h \<le> 0 \<or> c < 0 \<or> c > 3)" using assms by auto
  have sz: "nat ((w + 1) * (h + 1) * 4) = 4 * ?n" "nat (w * 4 * h * 4) = nat (16 * (w * h))"
    "nat (2 * (w + 1) * 8) = nat (16 * (w + 1))"
    using assms(1,3) by (simp_all add: nat_mult_distrib mult.commute mult.left_commute)
  have w: "int (nat w) = w" using assms(1) by simp
  have xy: "\<forall>x < nat w. \<forall>y < nat h. let i = x + y * nat (w + 1) in
           xy ! i = word_of_nat (4 * x + 16 * y * nat w) \<and> rxy ! i = word_of_nat (8 * (i mod (2 * nat (w + 1))))"
  proof (intro allI impI)
    fix x y assume xy: "x < nat w" "y < nat h"
    have n: "nat (w + 1) = nat w + 1" using assms(1) by simp
    note at = bxy_at [OF xy(1), unfolded w]
    have "xy ! nat (int x + int y * (w + 1)) = bxy (w + 1) (4 * w) (nat (int x + int y * (w + 1)))"
         "rxy ! nat (int x + int y * (w + 1)) = brxy (w + 1) (nat (int x + int y * (w + 1)))"
      using f(4) xy by (simp_all add: mult.commute)
    then show "let i = x + y * nat (w + 1) in
           xy ! i = word_of_nat (4 * x + 16 * y * nat w) \<and> rxy ! i = word_of_nat (8 * (i mod (2 * nat (w + 1))))"
      unfolding at Let_def n by simp
  qed
  show ?thesis
    unfolding newMacroblockTables_def if_not_P [OF g] a m rbind_simps Let_def f(1) prod.case sum.case
    unfolding tables_ok_def Let_def
    using f(2,3) xy sz by (simp add: Let_def mult.commute numeral_2_eq_2)
qed

section \<open>Allocation of a frame\<close>

definition supported_sps :: "SPS \<Rightarrow> bool" where
  "supported_sps sps \<longleftrightarrow> sps_BitDepthLuma sps \<in> {8, 9, 10, 12, 14} \<and> sps_MBHeight sps \<le> h264MaxMBHeight"

lemma plane_has_full:
  assumes "1 \<le> h" "1 \<le> w" "w * h \<le> maxInt" "int (length p) = w * h"
  shows "h264PlaneHas p w h w"
proof -
  have "(h - 1) * w + w = w * h" by (simp add: algebra_simps)
  then show ?thesis using assms plane_has_iff [of h w w p] by simp
qed

definition frame_layout :: "SPS \<Rightarrow> DecodedFrame \<Rightarrow> bool" where
  "frame_layout sps f \<longleftrightarrow> matchesSPS f (Some sps) = Inr ()
     \<and> (if sps_BitDepthLuma sps = 8 then plane_valid (picturePlanes f) else plane_valid (picturePlanesHigh f))"

lemma luma_chroma_sizes:
  assumes "1 \<le> w" "w \<le> h264MaxMBWidth" "1 \<le> h" "h \<le> h264MaxMBHeight"
  shows "checkedMulInt w 16 = Inr (w * 16)" "checkedMulInt h 16 = Inr (h * 16)"
    "checkedMulInt (w * 16) (h * 16) = Inr (w * 16 * (h * 16))"
    "1 \<le> c \<Longrightarrow> c \<le> 3 \<Longrightarrow> \<exists>cw ch. h264ChromaFrameSizeChecked w h c = Inr (cw, ch)
        \<and> checkedMulInt cw ch = Inr (cw * ch) \<and> 1 \<le> cw \<and> 1 \<le> ch \<and> cw * ch \<le> maxInt"
    "w * 16 * (h * 16) \<le> maxInt"
proof -
  have b: "w * h \<le> 1055 * 1055" using assms by (intro mult_mono) auto
  have k: "(w * a) * (h * d) \<le> maxInt" if "a = 8 \<or> a = 16" "d = 8 \<or> d = 16" for a d
    using b that by auto
  show 1: "checkedMulInt w 16 = Inr (w * 16)" and 2: "checkedMulInt h 16 = Inr (h * 16)"
    and "w * 16 * (h * 16) \<le> maxInt"
    using assms k [of 16 16] by (auto intro!: checkedMulInt_Inr)
  show "checkedMulInt (w * 16) (h * 16) = Inr (w * 16 * (h * 16))"
    using assms k [of 16 16] by (intro checkedMulInt_Inr) auto
  have 3: "checkedMulInt w 8 = Inr (w * 8)" "checkedMulInt h 8 = Inr (h * 8)"
    using assms by (auto intro!: checkedMulInt_Inr)
  have m: "checkedMulInt (w * a) (h * d) = Inr (w * a * (h * d))" if "a = 8 \<or> a = 16" "d = 8 \<or> d = 16" for a d
    using assms k [OF that] that by (intro checkedMulInt_Inr) auto
  show "\<exists>cw ch. h264ChromaFrameSizeChecked w h c = Inr (cw, ch)
        \<and> checkedMulInt cw ch = Inr (cw * ch) \<and> 1 \<le> cw \<and> 1 \<le> ch \<and> cw * ch \<le> maxInt" if "1 \<le> c" "c \<le> 3"
  proof -
    have "c = 1 \<or> c = 2 \<or> c = 3" using that by auto
    then show ?thesis
      using assms 1 2 3 m [of 8 8] m [of 8 16] m [of 16 16] k [of 8 8] k [of 8 16] k [of 16 16]
      by (auto simp: h264ChromaFrameSizeChecked_def Let_def)
  qed
qed

lemma alloc_fields:
  "df_MBWidth (alloc_planes sps ls cw cs f) = df_MBWidth f" "df_MBHeight (alloc_planes sps ls cw cs f) = df_MBHeight f"
  "df_Width (alloc_planes sps ls cw cs f) = df_Width f" "df_Height (alloc_planes sps ls cw cs f) = df_Height f"
  "df_CropLeft (alloc_planes sps ls cw cs f) = df_CropLeft f" "df_CropTop (alloc_planes sps ls cw cs f) = df_CropTop f"
  "df_ChromaFormatIDC (alloc_planes sps ls cw cs f) = df_ChromaFormatIDC f"
  "df_frameMBSOnlyFlag (alloc_planes sps ls cw cs f) = df_frameMBSOnlyFlag f"
  "df_BitDepthLuma (alloc_planes sps ls cw cs f) = df_BitDepthLuma f"
  "df_BitDepthChroma (alloc_planes sps ls cw cs f) = df_BitDepthChroma f"
  "df_LumaStride (alloc_planes sps ls cw cs f) = df_LumaStride f"
  "df_poc (alloc_planes sps ls cw cs f) = df_poc f" "df_fieldPOC (alloc_planes sps ls cw cs f) = df_fieldPOC f"
  by (simp_all add: alloc_planes_def Let_def)

lemma alloc_valid:
  assumes "1 \<le> w" "w \<le> h264MaxMBWidth" "1 \<le> h" "h \<le> h264MaxMBHeight"
    and "df_MBWidth f = w" "df_MBHeight f = h" "df_LumaStride f = w * 16"
    and "df_ChromaFormatIDC f = int (unat (sps_ChromaFormatIDC sps))" "unat (sps_ChromaFormatIDC sps) \<le> 3"
    and "if sps_ChromaFormatIDC sps = 0 then True else
         h264ChromaFrameSizeChecked w h (int (unat (sps_ChromaFormatIDC sps))) = Inr (cw, ch) \<and> cs = cw * ch
         \<and> 1 \<le> cw \<and> 1 \<le> ch \<and> cs \<le> maxInt"
  shows "sps_BitDepthLuma sps = 8 \<Longrightarrow> plane_valid (picturePlanes ((alloc_planes sps (w * 16 * (h * 16)) cw cs f)\<lparr>df_tables := t\<rparr>))"
    "sps_BitDepthLuma sps \<noteq> 8 \<Longrightarrow> plane_valid (picturePlanesHigh ((alloc_planes sps (w * 16 * (h * 16)) cw cs f)\<lparr>df_tables := t\<rparr>))"
proof -
  note s = luma_chroma_sizes [OF assms(1-4)]
  have c0: "sps_ChromaFormatIDC sps = 0 \<longleftrightarrow> int (unat (sps_ChromaFormatIDC sps)) = 0"
    by (simp add: unat_eq_0)
  have l: "h264PlaneHas (replicate (nat (w * 16 * (h * 16))) (0::'x::zero)) (w * 16) (h * 16) (w * 16)"
    using assms(1,3) s(5) by (intro plane_has_full) auto
  have c: "h264PlaneHas (replicate (nat cs) (0::'x::zero)) cw ch cw" if "sps_ChromaFormatIDC sps \<noteq> 0"
    using assms(10) that by (intro plane_has_full) auto
  show "plane_valid (picturePlanes ((alloc_planes sps (w * 16 * (h * 16)) cw cs f)\<lparr>df_tables := t\<rparr>))" if "sps_BitDepthLuma sps = 8"
    unfolding plane_valid_iff using that assms l c s(1,2) c0
    by (simp add: picturePlanes_def alloc_fields) (auto simp: alloc_planes_def Let_def)
  show "plane_valid (picturePlanesHigh ((alloc_planes sps (w * 16 * (h * 16)) cw cs f)\<lparr>df_tables := t\<rparr>))" if "sps_BitDepthLuma sps \<noteq> 8"
    unfolding plane_valid_iff using that assms l c s(1,2) c0
    by (simp add: picturePlanesHigh_def alloc_fields) (auto simp: alloc_planes_def Let_def)
qed

lemma frame_of_sps_fields:
  "df_MBWidth (frame_of_sps sps) = sps_MBWidth sps" "df_MBHeight (frame_of_sps sps) = sps_MBHeight sps"
  "df_Width (frame_of_sps sps) = sps_Width sps" "df_Height (frame_of_sps sps) = sps_Height sps"
  "df_CropLeft (frame_of_sps sps) = int (unat (sps_CropLeft sps))"
  "df_CropTop (frame_of_sps sps) = int (unat (sps_CropTop sps))"
  "df_ChromaFormatIDC (frame_of_sps sps) = int (unat (sps_ChromaFormatIDC sps))"
  "df_frameMBSOnlyFlag (frame_of_sps sps) = sps_FrameMBSOnlyFlag sps"
  "df_BitDepthLuma (frame_of_sps sps) = sps_BitDepthLuma sps"
  "df_BitDepthChroma (frame_of_sps sps) = sps_BitDepthChroma sps"
  "df_LumaStride (frame_of_sps sps) = sps_MBWidth sps * 16"
  "df_poc (frame_of_sps sps) = 0" "df_fieldPOC (frame_of_sps sps) = (0, 0)"
  by (simp_all add: frame_of_sps_def frame_init_def)

lemma newSimpleDecodedFrame_cases:
  assumes "sps_ok sps"
  shows "if supported_sps sps then \<exists>f t. newSimpleDecodedFrame sps = Inr (f, t) \<and> frame_layout sps f
             \<and> df_tables f = Some t \<and> tables_ok (sps_MBWidth sps) (sps_MBHeight sps) (int (unat (sps_ChromaFormatIDC sps))) t
         else newSimpleDecodedFrame sps = Inl (if sps_BitDepthLuma sps \<in> {8, 9, 10, 12, 14} then ErrInvalidData else ErrUnsupported)"
proof -
  let ?w = "sps_MBWidth sps" and ?h = "sps_MBHeight sps" and ?c = "int (unat (sps_ChromaFormatIDC sps))"
  have o: "1 \<le> ?w" "?w \<le> 1055" "1 \<le> ?h" "unat (sps_ChromaFormatIDC sps) \<le> 3" "\<not> sps_Width sps \<le> 0" "\<not> sps_Height sps \<le> 0"
      "\<not> (sps_FrameMBSOnlyFlag sps \<noteq> 0 \<and> sps_MBAFF sps \<noteq> 0)" "sps_BitDepthChroma sps = sps_BitDepthLuma sps"
    using assms by (auto simp: sps_ok_def sps_size_ok_def sps_format_ok_def sps_dim_ok_def)
  have d: "(if sps_BitDepthLuma sps \<noteq> 8 then checkH264DSPHighBitDepth (sps_BitDepthLuma sps) else Inr ())
     = (if sps_BitDepthLuma sps \<in> {8, 9, 10, 12, 14} then Inr () else Inl ErrUnsupported)"
    by (auto simp: checkH264DSPHighBitDepth_def)
  have n: "\<not> (?w \<le> 0 \<or> ?h \<le> 0 \<or> sps_Width sps \<le> 0 \<or> sps_Height sps \<le> 0)" "\<not> 3 < unat (sps_ChromaFormatIDC sps)"
    using o by auto
  note pre = newSimpleDecodedFrame_def Let_def if_not_P [OF o(7)] if_not_P [OF n(1)] if_not_P [OF n(2)] d
  show ?thesis
  proof (cases "supported_sps sps")
    case False
    then show ?thesis
      unfolding pre using o by (auto simp: supported_sps_def)
  next
    case True
    then have h: "?h \<le> 1055" "sps_BitDepthLuma sps \<in> {8, 9, 10, 12, 14}"
      by (auto simp: supported_sps_def)
    then have g: "\<not> (?w > 1055 \<or> ?h > 1055)" using o by auto
    note s = luma_chroma_sizes [OF o(1,2,3) h(1)]
    have "\<exists>cw ch cs. (if ?c \<noteq> 0 then
                 rbind (h264ChromaFrameSizeChecked ?w ?h ?c) (\<lambda>(chromaWidth, chromaHeight).
                 rbind (checkedMulInt chromaWidth chromaHeight) (\<lambda>chromaSamples. Inr (chromaWidth, chromaSamples)))
               else Inr (0, 0)) = Inr (cw, cs) \<and>
         (if sps_ChromaFormatIDC sps = 0 then True else
         h264ChromaFrameSizeChecked ?w ?h ?c = Inr (cw, ch) \<and> cs = cw * ch
         \<and> 1 \<le> cw \<and> 1 \<le> ch \<and> cs \<le> maxInt)"
    proof (cases "sps_ChromaFormatIDC sps = 0")
      case False
      then have "?c \<noteq> 0" "1 \<le> ?c" "?c \<le> 3" using o(4) by (auto simp: unat_eq_0 Suc_le_eq unat_gt_0)
      then show ?thesis using s(4) [of ?c] False by auto
    qed simp
    then obtain cw ch cs where c: "(if ?c \<noteq> 0 then
                 rbind (h264ChromaFrameSizeChecked ?w ?h ?c) (\<lambda>(chromaWidth, chromaHeight).
                 rbind (checkedMulInt chromaWidth chromaHeight) (\<lambda>chromaSamples. Inr (chromaWidth, chromaSamples)))
               else Inr (0, 0)) = Inr (cw, cs)"
       "if sps_ChromaFormatIDC sps = 0 then True else
         h264ChromaFrameSizeChecked ?w ?h ?c = Inr (cw, ch) \<and> cs = cw * ch
         \<and> 1 \<le> cw \<and> 1 \<le> ch \<and> cs \<le> maxInt" by blast
    obtain t where t: "newMacroblockTables ?w ?h ?c = Inr t" "tables_ok ?w ?h ?c t"
      using newMacroblockTables_spec [OF o(1,2,3) h(1), of ?c] o(4) by (auto split: sum.splits)
    let ?f = "alloc_planes sps (?w * 16 * (?h * 16)) cw cs ((frame_of_sps sps)\<lparr>df_LumaStride := ?w * 16\<rparr>)\<lparr>df_tables := Some t\<rparr>"
    have v: "sps_BitDepthLuma sps = 8 \<Longrightarrow> plane_valid (picturePlanes ?f)"
            "sps_BitDepthLuma sps \<noteq> 8 \<Longrightarrow> plane_valid (picturePlanesHigh ?f)"
      by (rule alloc_valid [OF o(1,2,3) h(1) _ _ _ _ o(4) c(2)]; simp add: frame_of_sps_fields)+
    have val: "(if sps_BitDepthLuma sps \<noteq> 8 then validate (picturePlanesHigh ?f) else validate (picturePlanes ?f)) = Inr ()"
      using v by (simp add: plane_valid_def picturePlanes_def picturePlanesHigh_def)
    have mt: "matchesSPS ?f (Some sps) = Inr ()"
      by (simp add: matchesSPS_def alloc_fields frame_of_sps_fields)
    have "newSimpleDecodedFrame sps = Inr (?f, t)"
      unfolding pre if_not_P [OF g] s(1-3) rbind_simps c(1) prod.case t(1) val if_P [OF h(2)]
      using o(8) by simp
    then show ?thesis using True v mt t(2) by (auto simp: frame_layout_def)
  qed
qed

text \<open>
  C27. A frame allocated for a parameter set the parser accepts: \<open>newSimpleDecodedFrame\<close> returns a
  frame exactly when the bit depth is one the pixel routines have and the picture is not taller
  than 1055 macroblocks; the frame then matches its parameter set, its planes hold every row the
  geometry names, and its macroblock tables have the sizes and coordinates of the picture.
\<close>

theorem newSimpleDecodedFrame_spec:
  "case decodeSPS rbsp ign of Inl e \<Rightarrow> True | Inr sps \<Rightarrow>
    (case newSimpleDecodedFrame sps of
      Inr (f, t) \<Rightarrow> supported_sps sps \<and> frame_layout sps f \<and> df_tables f = Some t
        \<and> tables_ok (sps_MBWidth sps) (sps_MBHeight sps) (int (unat (sps_ChromaFormatIDC sps))) t
    | Inl e \<Rightarrow> \<not> supported_sps sps
        \<and> e = (if sps_BitDepthLuma sps \<in> {8, 9, 10, 12, 14} then ErrInvalidData else ErrUnsupported))"
proof (cases "decodeSPS rbsp ign")
  case (Inr sps)
  then have "sps_ok sps" using decodeSPS_cases [of rbsp ign] by simp
  from newSimpleDecodedFrame_cases [OF this] Inr show ?thesis by (auto split: if_splits)
qed simp

lemma field_row:
  assumes "h264PlaneHas p s (2 * h) w" "1 \<le> h" "b = PictureTopField \<or> b = PictureBottomField" "0 \<le> r" "0 \<le> c"
  shows "(if b = PictureBottomField then drop_row s p else p) ! nat (r * (2 * s) + c) = p ! nat ((2 * r + (b - 1)) * s + c)"
proof -
  have s: "0 \<le> s" using plane_has_need [OF assms(1)] assms(2) by auto
  have "0 \<le> r * (2 * s) + c" using s assms(4,5) by simp
  from drop_row_nth [OF plane_field(4) [OF assms(1,2)] this s] plane_field(3) [OF assms(1,2)] assms(3)
  show ?thesis by (auto simp: algebra_simps)
qed

text \<open>
  C28. Field references: the field view of a frame with valid planes and an even number of
  macroblock rows has half the height, its planes again hold every row its geometry names - which
  is why the \<open>trustedLayout\<close> mark may skip the check - and row \<open>r\<close> of the view is row \<open>2 r\<close> of the
  frame for the top field, row \<open>2 r + 1\<close> for the bottom field.
\<close>

theorem field_view_spec:
  assumes "plane_valid p" "even (pl_MBHeight p)" "b = PictureTopField \<or> b = PictureBottomField"
    and "q = applySimpleFieldRefPlane b p" "0 \<le> r" "0 \<le> c"
  shows "plane_valid q \<and> 2 * pl_MBHeight q = pl_MBHeight p \<and> pl_PictureStructure q = b
    \<and> pl_Y q ! nat (r * pl_LumaStride q + c) = pl_Y p ! nat ((2 * r + (b - 1)) * pl_LumaStride p + c)
    \<and> (if pl_ChromaFormatIDC p = 0 then True else
       pl_Cb q ! nat (r * pl_ChromaStride q + c) = pl_Cb p ! nat ((2 * r + (b - 1)) * pl_ChromaStride p + c)
     \<and> pl_Cr q ! nat (r * pl_ChromaStride q + c) = pl_Cr p ! nat ((2 * r + (b - 1)) * pl_ChromaStride p + c))"
proof -
  obtain k where k: "pl_MBHeight p = 2 * k" using assms(2) by auto
  note v = assms(1) [unfolded plane_valid_iff k]
  have k1: "1 \<le> k" using v by simp
  note f = field_plane_fields [OF assms(3), of p]
  obtain lw where l: "h264PlaneHas (pl_Y p) (pl_LumaStride p) (2 * (k * 16)) lw"
  proof -
    obtain lw lh where l: "checkedMulInt (2 * k) 16 = Inr lh" "h264PlaneHas (pl_Y p) (pl_LumaStride p) lh lw"
      using v by blast
    then show thesis using that checkedMulInt_nonneg [OF l(1)] k1 by simp
  qed
  have c: "\<exists>cw ch. 1 \<le> ch \<and> h264PlaneHas (pl_Cb p) (pl_ChromaStride p) (2 * ch) cw
     \<and> h264PlaneHas (pl_Cr p) (pl_ChromaStride p) (2 * ch) cw" if nz: "pl_ChromaFormatIDC p \<noteq> 0"
  proof -
    obtain cw ch where c: "h264ChromaFrameSizeChecked (pl_MBWidth p) (2 * k) (pl_ChromaFormatIDC p) = Inr (cw, ch)"
        "h264PlaneHas (pl_Cb p) (pl_ChromaStride p) ch cw" "h264PlaneHas (pl_Cr p) (pl_ChromaStride p) ch cw"
      using v nz by auto
    have "ch = 2 * (k * (if pl_ChromaFormatIDC p = 1 then 8 else 16))"
      using chroma_size [OF c(1)] v k1 by auto
    then show ?thesis using c(2,3) k1
      by (intro exI [of _ cw] exI [of _ "k * (if pl_ChromaFormatIDC p = 1 then 8 else 16)"]) simp
  qed
  have "pl_Y q ! nat (r * pl_LumaStride q + c) = pl_Y p ! nat ((2 * r + (b - 1)) * pl_LumaStride p + c)"
    unfolding assms(4) f using field_row [OF l _ assms(3,5,6)] k1 by simp
  moreover have "if pl_ChromaFormatIDC p = 0 then True else
       pl_Cb q ! nat (r * pl_ChromaStride q + c) = pl_Cb p ! nat ((2 * r + (b - 1)) * pl_ChromaStride p + c)
     \<and> pl_Cr q ! nat (r * pl_ChromaStride q + c) = pl_Cr p ! nat ((2 * r + (b - 1)) * pl_ChromaStride p + c)"
    unfolding assms(4) f using c field_row [OF _ _ assms(3,5,6)] by (metis (no_types, lifting))
  ultimately show ?thesis
    using field_plane_valid [OF assms(1-3)] f(2,9) k assms(4) by auto
qed

definition witness_planes :: "u8 h264PicturePlanes" where
  "witness_planes = \<lparr>pl_Y = replicate 512 7, pl_Cb = [], pl_Cr = [], pl_LumaStride = 16, pl_ChromaStride = 0,
     pl_MBWidth = 1, pl_MBHeight = 2, pl_ChromaFormatIDC = 0, pl_PictureStructure = PictureFrame, pl_trustedLayout = False\<rparr>"

lemma field_view_spec_witness:
  "plane_valid (applySimpleFieldRefPlane PictureBottomField witness_planes)"
proof -
  have "plane_valid witness_planes"
    unfolding plane_valid_iff by (simp add: witness_planes_def checkedMulInt_def plane_has_iff)
  from field_view_spec [OF this _ _ refl, of PictureBottomField 0 0]
  show ?thesis by (simp add: witness_planes_def)
qed

text \<open>A parameter set for the examples: one macroblock, monochrome, two reference frames.\<close>

definition demo_sps :: SPS where
  "demo_sps = sps_init\<lparr>sps_Log2MaxFrameNum := 4, sps_Log2MaxPocLSB := 8, sps_RefFrameCount := 2,
     sps_MBWidth := 1, sps_MBHeight := 1, sps_FrameMBSOnlyFlag := 1, sps_Width := 16, sps_Height := 16\<rparr>"

lemma demo_sps_ok: "sps_ok demo_sps" "supported_sps demo_sps"
  by (simp_all add: demo_sps_def sps_ok_def sps_shape_def sps_format_ok_def sps_poc_ok_def sps_size_ok_def
      sps_dim_ok_def nonzero_matrix_def sps_init_def supported_sps_def)

end
