(* ===== verification/Dpb.thy ===== *)
theory Dpb
  imports Frames
begin

text \<open>
  The decoded picture buffer (\<open>simple_dpb.go\<close>): the reference pictures and how they are marked, the
  picture order counts, gaps in \<open>frame_num\<close>, recovery points, and the copies of the state taken
  before an access unit is tried. The reference lists are in \<open>Ref_Lists\<close> and the output order in
  \<open>Output_Order\<close>.

  Frames are shared by reference, so the state holds the heap of frames: a \<open>*DecodedFrame\<close> is an
  address of it. The queues hold no nil: every frame put into \<open>short\<close> or \<open>delayed\<close> has passed the
  code's nil check, so their element type is the address itself and the checks for a nil element
  have no counterpart; \<open>long\<close> does hold nil and its elements are optional. The receiver \<open>d\<close> is a
  value, so the checks for a nil receiver have no counterpart either.
\<close>

section \<open>State\<close>

abbreviation (input) simpleMaxShortRefs :: nat where "simpleMaxShortRefs \<equiv> 16"
abbreviation (input) simpleMaxLongRefs :: nat where "simpleMaxLongRefs \<equiv> 16"
abbreviation (input) h264MaxDPBFrames :: nat where "h264MaxDPBFrames \<equiv> 16"
abbreviation (input) simpleFrameRecoveredIDR :: u8 where "simpleFrameRecoveredIDR \<equiv> 1"
abbreviation (input) simpleFrameRecoveredSEI :: u8 where "simpleFrameRecoveredSEI \<equiv> 2"

record simplePOCContext =
  pc_pocLSB :: int
  pc_pocMSB :: int
  pc_deltaPOCBottom :: int
  pc_deltaPOC :: "int \<times> int"
  pc_frameNum :: int
  pc_prevPOCMSB :: int
  pc_prevPOCLSB :: int
  pc_frameNumOffset :: int
  pc_prevFrameNumOffset :: int
  pc_prevFrameNum :: int

record simpleFrameDPB =
  dp_heap :: "fref \<Rightarrow> DecodedFrame"
  dp_next :: fref
  dp_short :: "fref list"
  dp_long :: "fref option list"
  dp_refMask :: "fref \<rightharpoonup> int"
  dp_poc :: simplePOCContext
  dp_delayed :: "fref list"
  dp_hasBFrames :: int
  dp_lastPOCs :: "int list"
  dp_lastPOCsInit :: bool
  dp_nextOutputedPOC :: int
  dp_nextOutputedValid :: bool
  dp_prevInterlaced :: bool
  dp_prevInterlacedSet :: bool
  dp_validRecoveryPoint :: bool
  dp_recoveryFrame :: int
  dp_frameRecovered :: u8

type_synonym 'a dpb = "(simpleFrameDPB, 'a) go"

text \<open>The Go zero value, over a heap.\<close>

definition poc_zero :: simplePOCContext where
  "poc_zero = \<lparr>pc_pocLSB = 0, pc_pocMSB = 0, pc_deltaPOCBottom = 0, pc_deltaPOC = (0, 0), pc_frameNum = 0,
     pc_prevPOCMSB = 0, pc_prevPOCLSB = 0, pc_frameNumOffset = 0, pc_prevFrameNumOffset = 0, pc_prevFrameNum = 0\<rparr>"

definition dpb_zero :: "(fref \<Rightarrow> DecodedFrame) \<Rightarrow> fref \<Rightarrow> simpleFrameDPB" where
  "dpb_zero h n = \<lparr>dp_heap = h, dp_next = n, dp_short = [], dp_long = replicate simpleMaxLongRefs None,
     dp_refMask = Map.empty, dp_poc = poc_zero, dp_delayed = [], dp_hasBFrames = 0,
     dp_lastPOCs = replicate h264MaxDPBFrames 0, dp_lastPOCsInit = False, dp_nextOutputedPOC = 0,
     dp_nextOutputedValid = False, dp_prevInterlaced = False, dp_prevInterlacedSet = False,
     dp_validRecoveryPoint = False, dp_recoveryFrame = 0, dp_frameRecovered = 0\<rparr>"

definition upd_frame :: "fref \<Rightarrow> (DecodedFrame \<Rightarrow> DecodedFrame) \<Rightarrow> simpleFrameDPB \<Rightarrow> simpleFrameDPB" where
  "upd_frame f g d = d\<lparr>dp_heap := (dp_heap d)(f := g (dp_heap d f))\<rparr>"

definition upd_poc :: "(simplePOCContext \<Rightarrow> simplePOCContext) \<Rightarrow> simpleFrameDPB \<Rightarrow> simpleFrameDPB" where
  "upd_poc g d = d\<lparr>dp_poc := g (dp_poc d)\<rparr>"

section \<open>Resetting\<close>

definition poc_reset :: simplePOCContext where
  "poc_reset = poc_zero\<lparr>pc_prevPOCMSB := 65536, pc_prevPOCLSB := - 1, pc_prevFrameNum := - 1\<rparr>"

definition resetRefs :: "simpleFrameDPB \<Rightarrow> simpleFrameDPB" where
  "resetRefs d = d\<lparr>dp_short := [], dp_long := map (\<lambda>_. None) (dp_long d), dp_refMask := Map.empty\<rparr>"

definition resetLastPOCs :: "simpleFrameDPB \<Rightarrow> simpleFrameDPB" where
  "resetLastPOCs d = d\<lparr>dp_lastPOCs := map (\<lambda>_. MinInt32) (dp_lastPOCs d), dp_lastPOCsInit := True\<rparr>"

definition dpb_reset :: "simpleFrameDPB \<Rightarrow> simpleFrameDPB" where
  "dpb_reset d = (resetLastPOCs ((resetRefs d)\<lparr>dp_poc := poc_reset, dp_delayed := [], dp_hasBFrames := 0\<rparr>))
     \<lparr>dp_nextOutputedPOC := 0, dp_nextOutputedValid := False, dp_prevInterlaced := True,
      dp_prevInterlacedSet := True, dp_validRecoveryPoint := False, dp_recoveryFrame := - 1,
      dp_frameRecovered := 0\<rparr>"

section \<open>Snapshots\<close>

record simpleFrameDPBSnapshot =
  sn_short :: "fref list"
  sn_long :: "fref option list"
  sn_refMask :: "fref \<rightharpoonup> int"
  sn_poc :: simplePOCContext
  sn_delayed :: "fref list"
  sn_delayedRecovered :: "u8 list"
  sn_hasBFrames :: int
  sn_lastPOCs :: "int list"
  sn_lastPOCsInit :: bool
  sn_nextOutputedPOC :: int
  sn_nextOutputedValid :: bool
  sn_prevInterlaced :: bool
  sn_prevInterlacedSet :: bool
  sn_validRecoveryPoint :: bool
  sn_recoveryFrame :: int
  sn_frameRecovered :: u8

text \<open>The recovery flags of the delayed frames, as many as the snapshot's array of 16 has room for.\<close>

definition saved_recovered :: "simpleFrameDPB \<Rightarrow> u8 list" where
  "saved_recovered d =
     map (\<lambda>i. if i < length (dp_delayed d) then df_recovered (dp_heap d (dp_delayed d ! i)) else 0) [0..<h264MaxDPBFrames]"

definition snapshot :: "simpleFrameDPB \<Rightarrow> simpleFrameDPBSnapshot" where
  "snapshot d = \<lparr>sn_short = dp_short d, sn_long = dp_long d, sn_refMask = dp_refMask d, sn_poc = dp_poc d,
     sn_delayed = dp_delayed d, sn_delayedRecovered = saved_recovered d, sn_hasBFrames = dp_hasBFrames d,
     sn_lastPOCs = dp_lastPOCs d, sn_lastPOCsInit = dp_lastPOCsInit d,
     sn_nextOutputedPOC = dp_nextOutputedPOC d, sn_nextOutputedValid = dp_nextOutputedValid d,
     sn_prevInterlaced = dp_prevInterlaced d, sn_prevInterlacedSet = dp_prevInterlacedSet d,
     sn_validRecoveryPoint = dp_validRecoveryPoint d, sn_recoveryFrame = dp_recoveryFrame d,
     sn_frameRecovered = dp_frameRecovered d\<rparr>"

fun restore_recovered :: "fref list \<Rightarrow> u8 list \<Rightarrow> (fref \<Rightarrow> DecodedFrame) \<Rightarrow> fref \<Rightarrow> DecodedFrame" where
  "restore_recovered (f # fs) (r # rs) h = restore_recovered fs rs (h(f := (h f)\<lparr>df_recovered := r\<rparr>))"
| "restore_recovered _ _ h = h"

definition restore :: "simpleFrameDPBSnapshot \<Rightarrow> simpleFrameDPB \<Rightarrow> simpleFrameDPB" where
  "restore snap d =
     d\<lparr>dp_heap := restore_recovered (sn_delayed snap) (sn_delayedRecovered snap) (dp_heap d),
       dp_short := sn_short snap, dp_long := sn_long snap, dp_refMask := sn_refMask snap, dp_poc := sn_poc snap,
       dp_delayed := sn_delayed snap, dp_hasBFrames := sn_hasBFrames snap, dp_lastPOCs := sn_lastPOCs snap,
       dp_lastPOCsInit := sn_lastPOCsInit snap, dp_nextOutputedPOC := sn_nextOutputedPOC snap,
       dp_nextOutputedValid := sn_nextOutputedValid snap, dp_prevInterlaced := sn_prevInterlaced snap,
       dp_prevInterlacedSet := sn_prevInterlacedSet snap, dp_validRecoveryPoint := sn_validRecoveryPoint snap,
       dp_recoveryFrame := sn_recoveryFrame snap, dp_frameRecovered := sn_frameRecovered snap\<rparr>"

section \<open>Interlacing and recovery\<close>

definition previousInterlacedFrame :: "simpleFrameDPB \<Rightarrow> bool \<times> simpleFrameDPB" where
  "previousInterlacedFrame d =
     (let d = (if \<not> dp_prevInterlacedSet d then d\<lparr>dp_prevInterlaced := True, dp_prevInterlacedSet := True\<rparr> else d)
      in (dp_prevInterlaced d, d))"

definition setPreviousInterlacedFrame :: "bool \<Rightarrow> simpleFrameDPB \<Rightarrow> simpleFrameDPB" where
  "setPreviousInterlacedFrame v d = d\<lparr>dp_prevInterlaced := v, dp_prevInterlacedSet := True\<rparr>"

definition avZeroExtendSimple :: "int \<Rightarrow> int \<Rightarrow> u32" where
  "avZeroExtendSimple v bits =
     (if bits \<le> 0 then 0 else if bits \<ge> 32 then u32_of v else u32_of v AND (push_bit (nat bits) 1 - 1))"

text \<open>
  The recovery point of the access unit, if any: the SEI context enters only through its
  \<open>RecoveryFrameCount\<close> (\<open>- 1\<close> when there is no SEI context).
\<close>

definition note_recovery_point :: "fref \<Rightarrow> SliceHeader \<Rightarrow> SPS \<Rightarrow> int \<Rightarrow> simpleFrameDPB \<Rightarrow> simpleFrameDPB" where
  "note_recovery_point frame sh sps count d =
     (if count \<ge> 0 then
        let frameNum = i32_of (sh_FrameNum sh);
            d = (if frameNum \<noteq> count \<or> sh_SliceTypeNoS sh \<noteq> PictureTypeI then d\<lparr>dp_validRecoveryPoint := True\<rparr> else d);
            d = (if dp_recoveryFrame d < 0
                    \<or> avZeroExtendSimple (i32 (dp_recoveryFrame d - frameNum)) (sps_Log2MaxFrameNum sps) > u32_of count
                 then let d = d\<lparr>dp_recoveryFrame := i32_of (avZeroExtendSimple (i32 (frameNum + count)) (sps_Log2MaxFrameNum sps))\<rparr>
                      in (if \<not> dp_validRecoveryPoint d then d\<lparr>dp_recoveryFrame := frameNum\<rparr> else d)
                 else d)
        in (if count = 0 then upd_frame frame (\<lambda>f. f\<lparr>df_KeyFrame := True\<rparr>) d else d)
      else d)"

definition applySimpleRecoveryPoint :: "fref \<Rightarrow> SliceHeader \<Rightarrow> u8 \<Rightarrow> int \<Rightarrow> simpleFrameDPB \<Rightarrow> simpleFrameDPB" where
  "applySimpleRecoveryPoint frame sh nalRefIDC recoveryFrameCount d = (case sh_SPS sh of None \<Rightarrow> d | Some sps \<Rightarrow>
     let d = note_recovery_point frame sh sps recoveryFrameCount d;
         d = (if sh_NALType sh = NALIDRSlice then
                (upd_frame frame (\<lambda>f. f\<lparr>df_KeyFrame := True, df_idrKeyFrame := True,
                    df_recovered := df_recovered f OR simpleFrameRecoveredIDR\<rparr>) d)
                \<lparr>dp_frameRecovered := dp_frameRecovered d OR simpleFrameRecoveredIDR\<rparr>
              else d);
         d = (if dp_recoveryFrame d = i32_of (sh_FrameNum sh) \<and> nalRefIDC \<noteq> 0 then
                (upd_frame frame (\<lambda>f. f\<lparr>df_recovered := df_recovered f OR simpleFrameRecoveredSEI\<rparr>) d)
                \<lparr>dp_recoveryFrame := - 1\<rparr>
              else d);
         d = (if dp_frameRecovered d = 0 \<and> df_recovered (dp_heap d frame) AND simpleFrameRecoveredSEI \<noteq> 0
                 \<and> sps_NumReorderFrames sps > i32 (dp_hasBFrames d)
              then d\<lparr>dp_hasBFrames := sps_NumReorderFrames sps\<rparr> else d)
     in upd_frame frame (\<lambda>f. f\<lparr>df_recovered := df_recovered f OR dp_frameRecovered d\<rparr>) d)"

section \<open>Picture order counts\<close>

definition i64 :: "int \<Rightarrow> int" where
  "i64 x = (x + 2 ^ 63) mod 2 ^ 64 - 2 ^ 63"

text \<open>\<open>int32(1) << uint32(n)\<close>: the shift count is the unsigned value, and a count past 31 gives 0.\<close>

definition shl32 :: "int \<Rightarrow> int" where
  "shl32 n = (if 0 \<le> n \<and> n < 32 then i32 (2 ^ nat n) else 0)"

text \<open>Type 0: the least significant bits are in the slice header, the rest follows the last reference.\<close>

definition poc_type0 :: "SPS \<Rightarrow> int \<Rightarrow> simplePOCContext \<Rightarrow> (int \<times> int) \<times> simplePOCContext" where
  "poc_type0 sps pictureStructure p =
     (let maxPOCLSB = shl32 (sps_Log2MaxPocLSB sps);
          p = (if pc_prevPOCLSB p < 0 then p\<lparr>pc_prevPOCLSB := pc_pocLSB p\<rparr> else p);
          diff = i32 (pc_prevPOCLSB p - pc_pocLSB p);
          msb = (if pc_pocLSB p < pc_prevPOCLSB p \<and> diff \<ge> maxPOCLSB sdiv 2 then i32 (pc_prevPOCMSB p + maxPOCLSB)
                 else if pc_pocLSB p > pc_prevPOCLSB p \<and> diff < (i32 (- maxPOCLSB)) sdiv 2 then i32 (pc_prevPOCMSB p - maxPOCLSB)
                 else pc_prevPOCMSB p);
          p = p\<lparr>pc_pocMSB := msb\<rparr>;
          top = i32 (msb + pc_pocLSB p);
          bottom = (if pictureStructure = PictureFrame then i64 (top + pc_deltaPOCBottom p) else top)
      in ((top, bottom), p))"

text \<open>Type 1: a cycle of expected differences. Reading past the 256 offsets is a panic.\<close>

fun sum_offsets :: "int list \<Rightarrow> nat list \<Rightarrow> int \<Rightarrow> int result" where
  "sum_offsets offs [] acc = Inr acc"
| "sum_offsets offs (i # is) acc = rbind (idx offs i) (\<lambda>v. sum_offsets offs is (i64 (acc + v)))"

definition poc_type1 :: "SPS \<Rightarrow> int \<Rightarrow> u8 \<Rightarrow> simplePOCContext \<Rightarrow> (int \<times> int) result" where
  "poc_type1 sps pictureStructure nalRefIDC p =
     (let cycle = sps_PocCycleLength sps;
          absFrameNum = (if cycle \<noteq> 0 then i32 (pc_frameNumOffset p + pc_frameNum p) else 0);
          absFrameNum = (if nalRefIDC = 0 \<and> absFrameNum > 0 then absFrameNum - 1 else absFrameNum)
      in rbind (sum_offsets (sps_OffsetForRefFrame sps) [0..<unat cycle] 0) (\<lambda>expectedDeltaPerPOCCycle.
         rbind (if absFrameNum > 0 then
                  let pocCycleCnt = (absFrameNum - 1) sdiv int (unat cycle);
                      frameNumInPOCCycle = u32_of ((absFrameNum - 1) smod i32_of cycle)
                  in sum_offsets (sps_OffsetForRefFrame sps) [0..<unat frameNumInPOCCycle + 1]
                       (i64 (pocCycleCnt * expectedDeltaPerPOCCycle))
                else Inr 0) (\<lambda>expectedPOC.
         let expectedPOC = (if nalRefIDC = 0 then i64 (expectedPOC + sps_OffsetForNonRefPic sps) else expectedPOC);
             top = i64 (expectedPOC + fst (pc_deltaPOC p));
             bottom = i64 (top + sps_OffsetForTopToBottomField sps)
         in Inr (top, if pictureStructure = PictureFrame then i64 (bottom + snd (pc_deltaPOC p)) else bottom))))"

text \<open>Type 2: output order is decoding order. The doubling is an \<open>int32\<close> multiplication.\<close>

definition poc_type2 :: "u8 \<Rightarrow> simplePOCContext \<Rightarrow> int \<times> int" where
  "poc_type2 nalRefIDC p =
     (let poc = i32 (2 * i32 (pc_frameNumOffset p + pc_frameNum p));
          poc = (if nalRefIDC = 0 then poc - 1 else poc)
      in (poc, poc))"

text \<open>What \<open>initPOC\<close> does with the two counts: the range check and the fields it fills in.\<close>

definition store_poc :: "int \<Rightarrow> int \<times> int \<Rightarrow> int \<times> int \<Rightarrow> ((int \<times> int) \<times> int) result" where
  "store_poc pictureStructure out fp =
     (if fst fp < MinInt32 \<or> fst fp > MaxInt32 \<or> snd fp < MinInt32 \<or> snd fp > MaxInt32 then Inl ErrInvalidData
      else let out0 = (if pictureStructure \<noteq> PictureBottomField then fst fp else fst out);
               out1 = (if pictureStructure \<noteq> PictureTopField then snd fp else snd out)
           in Inr ((out0, out1), if out1 < out0 then out1 else out0))"

definition initPOC :: "SPS \<Rightarrow> int \<Rightarrow> u8 \<Rightarrow> int \<times> int \<Rightarrow> (simplePOCContext, (int \<times> int) \<times> int) go" where
  "initPOC sps pictureStructure nalRefIDC out p =
     (let maxFrameNum = shl32 (sps_Log2MaxFrameNum sps);
          off = pc_prevFrameNumOffset p;
          p = p\<lparr>pc_frameNumOffset := (if pc_frameNum p < pc_prevFrameNum p then i32 (off + maxFrameNum) else off)\<rparr>
      in if sps_PocType sps = 0 then
           (case poc_type0 sps pictureStructure p of (fp, p) \<Rightarrow> (store_poc pictureStructure out fp, p))
         else if sps_PocType sps = 1 then
           (rbind (poc_type1 sps pictureStructure nalRefIDC p) (store_poc pictureStructure out), p)
         else if sps_PocType sps = 2 then (store_poc pictureStructure out (poc_type2 nalRefIDC p), p)
         else (Inl ErrInvalidData, p))"

definition delta_poc_of :: "SliceHeader \<Rightarrow> int \<times> int" where
  "delta_poc_of sh = (sh_DeltaPOC sh ! 0, sh_DeltaPOC sh ! 1)"

definition initFramePOC :: "fref \<Rightarrow> SliceHeader \<Rightarrow> u8 \<Rightarrow> unit dpb" where
  "initFramePOC frame sh nalRefIDC d = (case sh_SPS sh of None \<Rightarrow> (Inl ErrInvalidData, d) | Some sps \<Rightarrow>
     let d = (if sh_NALType sh = NALIDRSlice then resetLastPOCs ((resetRefs d)\<lparr>dp_poc := poc_reset\<rparr>) else d);
         d = (if sh_PictureStructure sh \<noteq> PictureFrame \<and> df_fieldPOC (dp_heap d frame) = (0, 0)
              then upd_frame frame (\<lambda>f. f\<lparr>df_fieldPOC := (MaxInt32, MaxInt32)\<rparr>) d else d);
         p = (dp_poc d)\<lparr>pc_frameNum := i32_of (sh_FrameNum sh), pc_pocLSB := i32_of (sh_POCLSB sh),
               pc_deltaPOCBottom := sh_DeltaPOCBottom sh, pc_deltaPOC := delta_poc_of sh\<rparr>
     in case initPOC sps (sh_PictureStructure sh) nalRefIDC (df_fieldPOC (dp_heap d frame)) p of
          (Inl e, p) \<Rightarrow> (Inl e, d\<lparr>dp_poc := p\<rparr>)
        | (Inr (fieldPOC, poc), p) \<Rightarrow>
            (Inr (), upd_frame frame (\<lambda>f. f\<lparr>df_fieldPOC := fieldPOC, df_poc := poc\<rparr>) (d\<lparr>dp_poc := p\<rparr>)))"

definition finish_poc :: "u8 \<Rightarrow> simplePOCContext \<Rightarrow> simplePOCContext" where
  "finish_poc nalRefIDC p =
     (let p = (if nalRefIDC \<noteq> 0 then p\<lparr>pc_prevPOCMSB := pc_pocMSB p, pc_prevPOCLSB := pc_pocLSB p\<rparr> else p)
      in p\<lparr>pc_prevFrameNumOffset := pc_frameNumOffset p, pc_prevFrameNum := pc_frameNum p\<rparr>)"

definition finishFramePOC :: "u8 \<Rightarrow> simpleFrameDPB \<Rightarrow> simpleFrameDPB" where
  "finishFramePOC nalRefIDC = upd_poc (finish_poc nalRefIDC)"

section \<open>Reference masks and searches\<close>

definition simpleReferenceMask :: "int \<Rightarrow> int" where
  "simpleReferenceMask s = (if s = PictureTopField \<or> s = PictureBottomField then s else PictureFrame)"

definition simpleOppositeField :: "int \<Rightarrow> int" where
  "simpleOppositeField s = (if s = PictureTopField \<or> s = PictureBottomField then s XOR PictureFrame else PictureFrame)"

definition simplePicNumExtract :: "int \<Rightarrow> u32 \<Rightarrow> u32 \<times> int" where
  "simplePicNumExtract pictureStructure picNum =
     (if pictureStructure \<noteq> PictureFrame then
        (drop_bit 1 picNum, if picNum AND 1 = 0 then pictureStructure XOR PictureFrame else pictureStructure)
      else (picNum, pictureStructure))"

definition simpleFrameCurrentPOC :: "DecodedFrame \<Rightarrow> int \<Rightarrow> int result" where
  "simpleFrameCurrentPOC f s =
     (if s = PictureFrame then Inr (df_poc f)
      else if s = PictureTopField then
        (if fst (df_fieldPOC f) = MaxInt32 then Inl ErrInvalidData else Inr (fst (df_fieldPOC f)))
      else if s = PictureBottomField then
        (if snd (df_fieldPOC f) = MaxInt32 then Inl ErrInvalidData else Inr (snd (df_fieldPOC f)))
      else Inl ErrInvalidData)"

definition frameIsShort :: "fref \<Rightarrow> simpleFrameDPB \<Rightarrow> bool" where
  "frameIsShort f d = list_ex (\<lambda>r. r = f) (dp_short d)"

definition frameIsLong :: "fref \<Rightarrow> simpleFrameDPB \<Rightarrow> bool" where
  "frameIsLong f d = list_ex (\<lambda>r. r = Some f) (dp_long d)"

definition frameRefMask :: "fref \<Rightarrow> simpleFrameDPB \<Rightarrow> int" where
  "frameRefMask f d = (case dp_refMask d f of Some msk \<Rightarrow> msk | None \<Rightarrow>
     let fp = df_fieldPOC (dp_heap d f);
         msk = (if fst fp \<noteq> MaxInt32 then PictureTopField else 0);
         msk = (if snd fp \<noteq> MaxInt32 then msk OR PictureBottomField else msk)
     in if msk = 0 then PictureFrame else msk)"

definition setFrameRefMask :: "fref \<Rightarrow> int \<Rightarrow> simpleFrameDPB \<Rightarrow> simpleFrameDPB" where
  "setFrameRefMask f msk d =
     (if msk = 0 then d\<lparr>dp_refMask := (dp_refMask d)(f := None)\<rparr>
      else d\<lparr>dp_refMask := (dp_refMask d)(f \<mapsto> msk AND PictureFrame)\<rparr>)"

definition clearFrameRefMaskIfUnreferenced :: "fref \<Rightarrow> simpleFrameDPB \<Rightarrow> simpleFrameDPB" where
  "clearFrameRefMaskIfUnreferenced f d =
     (if frameIsShort f d \<or> frameIsLong f d then d else setFrameRefMask f 0 d)"

definition frameHasReferenceStructure :: "fref \<Rightarrow> int \<Rightarrow> simpleFrameDPB \<Rightarrow> bool" where
  "frameHasReferenceStructure f s d =
     (let msk = frameRefMask f d in if s = PictureFrame then msk AND PictureFrame = PictureFrame else msk AND s \<noteq> 0)"

definition findShortByFrameNum :: "u32 \<Rightarrow> simpleFrameDPB \<Rightarrow> fref option" where
  "findShortByFrameNum n d = find (\<lambda>f. df_frameNum (dp_heap d f) = n) (dp_short d)"

definition findShortByFrameNumAndStructure :: "u32 \<Rightarrow> int \<Rightarrow> simpleFrameDPB \<Rightarrow> fref option" where
  "findShortByFrameNumAndStructure n s d =
     find (\<lambda>f. df_frameNum (dp_heap d f) = n \<and> frameHasReferenceStructure f s d) (dp_short d)"

definition findLongByIndex :: "u32 \<Rightarrow> simpleFrameDPB \<Rightarrow> fref option" where
  "findLongByIndex i d = (if unat i \<ge> simpleMaxLongRefs then None else dp_long d ! unat i)"

definition findLongByIndexAndStructure :: "u32 \<Rightarrow> int \<Rightarrow> simpleFrameDPB \<Rightarrow> fref option" where
  "findLongByIndexAndStructure i s d = (case findLongByIndex i d of None \<Rightarrow> None | Some f \<Rightarrow>
     if \<not> frameHasReferenceStructure f s d then None else Some f)"

definition longCount :: "simpleFrameDPB \<Rightarrow> nat" where
  "longCount d = length (filter (\<lambda>r. r \<noteq> None) (dp_long d))"

definition refCount :: "simpleFrameDPB \<Rightarrow> nat" where
  "refCount d = length (dp_short d) + longCount d"

section \<open>Removing references\<close>

definition removeShortAtIndex :: "nat \<Rightarrow> simpleFrameDPB \<Rightarrow> simpleFrameDPB" where
  "removeShortAtIndex i d =
     (if i \<ge> length (dp_short d) then d
      else clearFrameRefMaskIfUnreferenced (dp_short d ! i)
        (d\<lparr>dp_short := take i (dp_short d) @ drop (i + 1) (dp_short d)\<rparr>))"

text \<open>The index of the first element with a property.\<close>

fun first_index :: "('a \<Rightarrow> bool) \<Rightarrow> 'a list \<Rightarrow> nat option" where
  "first_index P [] = None"
| "first_index P (x # xs) = (if P x then Some 0 else map_option Suc (first_index P xs))"

definition removeShortByFrameNum :: "u32 \<Rightarrow> simpleFrameDPB \<Rightarrow> simpleFrameDPB" where
  "removeShortByFrameNum n d =
     (case first_index (\<lambda>f. df_frameNum (dp_heap d f) = n) (dp_short d) of
        None \<Rightarrow> d
      | Some i \<Rightarrow> clearFrameRefMaskIfUnreferenced (dp_short d ! i) (removeShortAtIndex i d))"

definition removeShortByFrameNumAndStructure :: "u32 \<Rightarrow> int \<Rightarrow> simpleFrameDPB \<Rightarrow> simpleFrameDPB" where
  "removeShortByFrameNumAndStructure n s d =
     (if s = PictureFrame then removeShortByFrameNum n d
      else case first_index (\<lambda>f. df_frameNum (dp_heap d f) = n \<and> frameHasReferenceStructure f s d) (dp_short d) of
        None \<Rightarrow> d
      | Some i \<Rightarrow> let f = dp_short d ! i; msk = frameRefMask f d AND NOT s in
          (if msk = 0 then clearFrameRefMaskIfUnreferenced f (removeShortAtIndex i d)
           else setFrameRefMask f msk d))"

text \<open>The scan that drops the gap frames too far behind, from the element the index has reached.\<close>

function removeInvalidGap_loop :: "u32 \<Rightarrow> SPS \<Rightarrow> nat \<Rightarrow> simpleFrameDPB \<Rightarrow> simpleFrameDPB" where
  "removeInvalidGap_loop n sps i d =
     (if i < length (dp_short d) then
        let f = dp_heap d (dp_short d ! i) in
        if df_invalidGap f \<and> avZeroExtendSimple (i32 (i32_of n - i32_of (df_frameNum f))) (sps_Log2MaxFrameNum sps) > sps_RefFrameCount sps
        then removeInvalidGap_loop n sps i (removeShortAtIndex i d)
        else removeInvalidGap_loop n sps (i + 1) d
      else d)"
  by pat_completeness auto

definition clear_long :: "nat \<Rightarrow> simpleFrameDPB \<Rightarrow> simpleFrameDPB" where
  "clear_long i d = d\<lparr>dp_long := (dp_long d)[i := None]\<rparr>"

definition clear_mask_opt :: "fref option \<Rightarrow> simpleFrameDPB \<Rightarrow> simpleFrameDPB" where
  "clear_mask_opt f d = (case f of None \<Rightarrow> d | Some f \<Rightarrow> clearFrameRefMaskIfUnreferenced f d)"

definition removeLongByIndex :: "nat \<Rightarrow> simpleFrameDPB \<Rightarrow> simpleFrameDPB" where
  "removeLongByIndex i d =
     (if i \<ge> simpleMaxLongRefs then d else clear_mask_opt (dp_long d ! i) (clear_long i d))"

definition removeLongByIndexAndStructure :: "nat \<Rightarrow> int \<Rightarrow> simpleFrameDPB \<Rightarrow> simpleFrameDPB" where
  "removeLongByIndexAndStructure i s d =
     (if i \<ge> simpleMaxLongRefs then d
      else case dp_long d ! i of None \<Rightarrow> d | Some f \<Rightarrow>
        if \<not> frameHasReferenceStructure f s d then d
        else if s = PictureFrame then removeLongByIndex i d
        else let msk = frameRefMask f d AND NOT s in
          if msk = 0 then clearFrameRefMaskIfUnreferenced f (clear_long i d) else setFrameRefMask f msk d)"

definition removeLongRefsForFrame :: "fref \<Rightarrow> simpleFrameDPB \<Rightarrow> simpleFrameDPB" where
  "removeLongRefsForFrame f d =
     clearFrameRefMaskIfUnreferenced f (d\<lparr>dp_long := map (\<lambda>r. if r = Some f then None else r) (dp_long d)\<rparr>)"

definition removeFirstLong :: "simpleFrameDPB \<Rightarrow> simpleFrameDPB" where
  "removeFirstLong d = (case first_index (\<lambda>r. r \<noteq> None) (dp_long d) of
     None \<Rightarrow> d | Some i \<Rightarrow> clear_mask_opt (dp_long d ! i) (clear_long i d))"


lemma clear_mask_short [simp]:
  "dp_short (setFrameRefMask f m d) = dp_short d" "dp_long (setFrameRefMask f m d) = dp_long d"
  "dp_heap (setFrameRefMask f m d) = dp_heap d"
  "dp_short (clearFrameRefMaskIfUnreferenced f d) = dp_short d"
  "dp_long (clearFrameRefMaskIfUnreferenced f d) = dp_long d"
  "dp_heap (clearFrameRefMaskIfUnreferenced f d) = dp_heap d"
  by (simp_all add: setFrameRefMask_def clearFrameRefMaskIfUnreferenced_def)

lemma removeShortAtIndex_short:
  "dp_short (removeShortAtIndex i d) = take i (dp_short d) @ drop (i + 1) (dp_short d)"
  by (simp add: removeShortAtIndex_def)

termination removeInvalidGap_loop
  by (relation "measure (\<lambda>(n, sps, i, d). length (dp_short d) - i)") (auto simp: removeShortAtIndex_short)

declare removeInvalidGap_loop.simps [simp del]

definition removeInvalidGapShortRefs :: "u32 \<Rightarrow> SPS \<Rightarrow> simpleFrameDPB \<Rightarrow> simpleFrameDPB" where
  "removeInvalidGapShortRefs curFrameNum sps d = removeInvalidGap_loop curFrameNum sps 0 d"

section \<open>Memory management control operations\<close>

text \<open>
  One command of \<open>applyMMCO\<close>. The loop carries the two flags it returns: whether \<open>frame_num\<close> was
  reset, and whether the current picture has been marked.
\<close>

text \<open>The accesses to the array of long-term references by an index that a command gives.\<close>

definition long_at :: "nat \<Rightarrow> fref option dpb" where
  "long_at i = (\<lambda>d. (idx (dp_long d) i, d))"

definition put_long :: "nat \<Rightarrow> fref \<Rightarrow> unit dpb" where
  "put_long i f = (\<lambda>d. case set_idx (dp_long d) i (Some f) of Inl e \<Rightarrow> (Inl e, d) | Inr l \<Rightarrow> (Inr (), d\<lparr>dp_long := l\<rparr>))"

definition mmco_short2long :: "int \<Rightarrow> MMCO \<Rightarrow> unit dpb" where
  "mmco_short2long ps c = (\<lambda>d.
     if unat (mmco_LongArg c) \<ge> simpleMaxLongRefs then (Inl ErrInvalidData, d)
     else case simplePicNumExtract ps (mmco_ShortPicNum c) of (frameNum, s) \<Rightarrow>
       (case findShortByFrameNumAndStructure frameNum s d of
          None \<Rightarrow> (case findLongByIndex (mmco_LongArg c) d of
              None \<Rightarrow> (Inl ErrInvalidData, d)
            | Some lg \<Rightarrow> if df_frameNum (dp_heap d lg) \<noteq> frameNum then (Inl ErrInvalidData, d) else (Inr (), d))
        | Some pic \<Rightarrow>
            let longIndex = unat (mmco_LongArg c) in
            bnd (long_at longIndex) (\<lambda>f.
            thn (whenM (f \<noteq> Some pic) (upd (removeLongByIndex longIndex)))
            (bnd (gets (frameRefMask pic)) (\<lambda>msk.
            thn (upd (removeShortByFrameNum frameNum))
            (thn (put_long longIndex pic) (upd (setFrameRefMask pic (msk OR s))))))) d))"

definition mmco_long2unused :: "int \<Rightarrow> MMCO \<Rightarrow> unit dpb" where
  "mmco_long2unused ps c d =
     (case simplePicNumExtract ps (mmco_LongArg c) of (longIndex, s) \<Rightarrow>
        if unat longIndex \<ge> simpleMaxLongRefs then (Inl ErrInvalidData, d)
        else (Inr (), removeLongByIndexAndStructure (unat longIndex) s d))"

definition mmco_long :: "fref \<Rightarrow> int \<Rightarrow> MMCO \<Rightarrow> unit dpb" where
  "mmco_long frame ps c = (\<lambda>d.
     if unat (mmco_LongArg c) \<ge> simpleMaxLongRefs then (Inl ErrInvalidData, d)
     else let longIndex = unat (mmco_LongArg c) in
       thn (whenM (dp_short d \<noteq> [] \<and> dp_short d ! 0 = frame) (upd (removeShortAtIndex 0)))
       (thn (upd (removeLongRefsForFrame frame))
       (bnd (long_at longIndex) (\<lambda>f.
        thn (whenM (f \<noteq> Some frame) (thn (upd (removeLongByIndex longIndex)) (put_long longIndex frame)))
        (upd (\<lambda>d. setFrameRefMask frame (frameRefMask frame d OR simpleReferenceMask ps) d))))) d)"

definition mmco_set_max_long :: "MMCO \<Rightarrow> unit dpb" where
  "mmco_set_max_long c d =
     (if unat (mmco_LongArg c) > simpleMaxLongRefs then (Inl ErrInvalidData, d)
      else (Inr (), fold removeLongByIndex [unat (mmco_LongArg c)..<simpleMaxLongRefs] d))"

definition mmco_step :: "fref \<Rightarrow> int \<Rightarrow> MMCO \<Rightarrow> bool \<times> bool \<Rightarrow> (bool \<times> bool) dpb" where
  "mmco_step frame ps c flags =
     (if mmco_Opcode c = mmcoShort2Unused then
        (\<lambda>d. case simplePicNumExtract ps (mmco_ShortPicNum c) of (frameNum, s) \<Rightarrow>
           (Inr flags, removeShortByFrameNumAndStructure frameNum s d))
      else if mmco_Opcode c = mmcoShort2Long then thn (mmco_short2long ps c) (ret flags)
      else if mmco_Opcode c = mmcoLong2Unused then thn (mmco_long2unused ps c) (ret flags)
      else if mmco_Opcode c = mmcoLong then thn (mmco_long frame ps c) (ret (fst flags, True))
      else if mmco_Opcode c = mmcoSetMaxLong then thn (mmco_set_max_long c) (ret flags)
      else if mmco_Opcode c = mmcoReset then
        thn (upd (\<lambda>d. resetLastPOCs (upd_poc (\<lambda>p. p\<lparr>pc_frameNum := 0\<rparr>) (resetRefs d)))) (ret (True, snd flags))
      else fail ErrUnsupported)"

fun applyMMCO_loop :: "fref \<Rightarrow> int \<Rightarrow> MMCO list \<Rightarrow> bool \<times> bool \<Rightarrow> (bool \<times> bool) dpb" where
  "applyMMCO_loop frame ps [] flags = ret flags"
| "applyMMCO_loop frame ps (c # cs) flags =
     (if mmco_Opcode c = mmcoEnd then ret flags
      else bnd (mmco_step frame ps c flags) (applyMMCO_loop frame ps cs))"

text \<open>The commands \<open>MMCO[0]\<close> to \<open>MMCO[NBMMCO - 1]\<close>; past the array of 67 is a panic.\<close>

definition applyMMCO :: "fref \<Rightarrow> SliceHeader \<Rightarrow> (bool \<times> bool) dpb" where
  "applyMMCO frame sh =
     bnd (applyMMCO_loop frame (sh_PictureStructure sh) (take (unat (sh_NBMMCO sh)) (sh_MMCO sh)) (False, False))
       (\<lambda>flags. if unat (sh_NBMMCO sh) > length (sh_MMCO sh) \<and> list_all (\<lambda>c. mmco_Opcode c \<noteq> mmcoEnd) (sh_MMCO sh)
                then fail Panic else ret flags)"

section \<open>Marking the decoded picture\<close>

definition dpb_max_refs :: "SPS \<Rightarrow> nat" where
  "dpb_max_refs sps = (if unat (sps_RefFrameCount sps) < 1 then 1 else unat (sps_RefFrameCount sps))"

definition push_short :: "fref \<Rightarrow> simpleFrameDPB \<Rightarrow> simpleFrameDPB" where
  "push_short frame d =
     (let d = removeShortByFrameNum (df_frameNum (dp_heap d frame)) d in d\<lparr>dp_short := frame # dp_short d\<rparr>)"

definition removeLastShort :: "simpleFrameDPB \<Rightarrow> simpleFrameDPB" where
  "removeLastShort d = removeShortAtIndex (length (dp_short d) - 1) d"

text \<open>The trimming after a picture has been added; it also tells whether anything had to go.\<close>

definition trim_refs :: "nat \<Rightarrow> simpleFrameDPB \<Rightarrow> bool \<times> simpleFrameDPB" where
  "trim_refs maxRefs d =
     (if refCount d > maxRefs then
        (True, if longCount d \<noteq> 0 \<and> dp_short d = [] then removeFirstLong d
               else if dp_short d \<noteq> [] then removeLastShort d else d)
      else (False, d))"

definition mark_current :: "fref \<Rightarrow> int \<Rightarrow> bool \<Rightarrow> unit dpb" where
  "mark_current frame ps secondFieldRef d =
     (if secondFieldRef then
        (if dp_short d \<noteq> [] \<and> dp_short d ! 0 = frame then
           (Inr (), setFrameRefMask frame (frameRefMask frame d OR ps) d)
         else if frameIsLong frame d then (Inl ErrInvalidData, d)
         else (Inr (), setFrameRefMask frame (frameRefMask frame d OR ps) d))
      else (Inr (), setFrameRefMask frame (simpleReferenceMask ps) (push_short frame d)))"

text \<open>The commands of the slice, with the effect of a reset on the frame; returns whether they marked it.\<close>

definition run_mmco :: "fref \<Rightarrow> SliceHeader \<Rightarrow> bool dpb" where
  "run_mmco frame sh =
     (if sh_NBMMCO sh \<noteq> 0 then
        bnd (applyMMCO frame sh) (\<lambda>(resetFrameNum, assigned).
        thn (whenM resetFrameNum (upd (upd_frame frame (\<lambda>f. f\<lparr>df_frameNum := 0, df_mmcoReset := True\<rparr>))))
          (ret assigned))
      else ret False)"

definition store_reference :: "fref \<Rightarrow> SliceHeader \<Rightarrow> SPS \<Rightarrow> bool \<Rightarrow> bool \<Rightarrow> unit dpb" where
  "store_reference frame sh sps secondFieldRef assigned =
     (let maxRefs = dpb_max_refs sps in
      if maxRefs > simpleMaxShortRefs then fail ErrUnsupported
      else
        thn (upd (\<lambda>d. if sh_ExplicitRefMarking sh = 0 \<and> \<not> secondFieldRef \<and> dp_short d \<noteq> [] \<and> refCount d \<ge> maxRefs
                      then removeLastShort d else d))
        (thn (whenM (\<not> assigned) (mark_current frame (sh_PictureStructure sh) secondFieldRef))
        (bnd (\<lambda>d. (Inr (fst (trim_refs maxRefs d)), snd (trim_refs maxRefs d))) (\<lambda>over.
         thn (upd (\<lambda>d. removeInvalidGapShortRefs (df_frameNum (dp_heap d frame)) sps d))
         (if over then fail ErrInvalidData else ret ())))))"

definition is_second_field :: "fref \<Rightarrow> SliceHeader \<Rightarrow> simpleFrameDPB \<Rightarrow> bool" where
  "is_second_field frame sh d \<longleftrightarrow> sh_PictureStructure sh \<noteq> PictureFrame
     \<and> (frameIsShort frame d \<or> frameIsLong frame d) \<and> frameRefMask frame d \<noteq> 0"

definition mark_body :: "fref \<Rightarrow> SliceHeader \<Rightarrow> SPS \<Rightarrow> u8 \<Rightarrow> unit dpb" where
  "mark_body frame sh sps nalRefIDC =
     thn (upd (upd_frame frame (\<lambda>f. f\<lparr>df_frameNum := sh_FrameNum sh\<rparr>)))
     (bnd (gets (is_second_field frame sh)) (\<lambda>secondFieldRef.
      let idr = sh_NALType sh = NALIDRSlice in
      thn (whenM idr (upd resetRefs))
      (bnd (run_mmco frame sh) (\<lambda>assigned.
       if nalRefIDC = 0 then ret ()
       else store_reference frame sh sps (secondFieldRef \<and> \<not> idr) assigned))))"

text \<open>The deferred \<open>finishFramePOC\<close> runs on every way out past the nil checks.\<close>

definition markDecodedFrame :: "fref \<Rightarrow> SliceHeader \<Rightarrow> u8 \<Rightarrow> unit dpb" where
  "markDecodedFrame frame sh nalRefIDC d = (case sh_SPS sh of None \<Rightarrow> (Inl ErrInvalidData, d) | Some sps \<Rightarrow>
     case mark_body frame sh sps nalRefIDC d of (r, d) \<Rightarrow> (r, finishFramePOC nalRefIDC d))"

section \<open>Gaps in frame_num\<close>

definition markFrameNumGapFrame :: "fref \<Rightarrow> SPS \<Rightarrow> unit dpb" where
  "markFrameNumGapFrame frame sps =
     (let maxRefs = dpb_max_refs sps in
      if maxRefs > simpleMaxShortRefs then fail ErrUnsupported
      else upd (\<lambda>d.
        let d = (if dp_short d \<noteq> [] \<and> refCount d \<ge> maxRefs then removeLastShort d else d);
            d = setFrameRefMask frame PictureFrame (push_short frame d);
            d = snd (trim_refs maxRefs d)
        in removeInvalidGapShortRefs (df_frameNum (dp_heap d frame)) sps d))"

definition simpleCopyGapFramePixels :: "DecodedFrame \<Rightarrow> DecodedFrame option \<Rightarrow> DecodedFrame option" where
  "simpleCopyGapFramePixels dst src = (case src of None \<Rightarrow> None | Some src \<Rightarrow>
     if df_MBWidth dst \<noteq> df_MBWidth src \<or> df_MBHeight dst \<noteq> df_MBHeight src
        \<or> df_Width dst \<noteq> df_Width src \<or> df_Height dst \<noteq> df_Height src
        \<or> df_ChromaFormatIDC dst \<noteq> df_ChromaFormatIDC src
        \<or> df_BitDepthLuma dst \<noteq> df_BitDepthLuma src \<or> df_BitDepthChroma dst \<noteq> df_BitDepthChroma src
     then None
     else if df_BitDepthLuma dst > 8 then
       (if length (df_Y16 dst) \<noteq> length (df_Y16 src) \<or> length (df_Cb16 dst) \<noteq> length (df_Cb16 src)
           \<or> length (df_Cr16 dst) \<noteq> length (df_Cr16 src) then None
        else Some (dst\<lparr>df_Y16 := copy (df_Y16 dst) (df_Y16 src), df_Cb16 := copy (df_Cb16 dst) (df_Cb16 src),
                       df_Cr16 := copy (df_Cr16 dst) (df_Cr16 src)\<rparr>))
     else if length (df_Y dst) \<noteq> length (df_Y src) \<or> length (df_Cb dst) \<noteq> length (df_Cb src)
             \<or> length (df_Cr dst) \<noteq> length (df_Cr src) then None
     else Some (dst\<lparr>df_Y := copy (df_Y dst) (df_Y src), df_Cb := copy (df_Cb dst) (df_Cb src),
                    df_Cr := copy (df_Cr dst) (df_Cr src)\<rparr>))"

definition simpleFillGrayGapFrame :: "DecodedFrame \<Rightarrow> DecodedFrame" where
  "simpleFillGrayGapFrame f =
     (if df_BitDepthLuma f > 8 then
        let y = push_bit (nat (df_BitDepthLuma f - 1)) 1; c = push_bit (nat (df_BitDepthChroma f - 1)) 1 in
        f\<lparr>df_Y16 := map (\<lambda>_. y) (df_Y16 f), df_Cb16 := map (\<lambda>_. c) (df_Cb16 f), df_Cr16 := map (\<lambda>_. c) (df_Cr16 f)\<rparr>
      else f\<lparr>df_Y := map (\<lambda>_. 128) (df_Y f), df_Cb := map (\<lambda>_. 128) (df_Cb f), df_Cr := map (\<lambda>_. 128) (df_Cr f)\<rparr>)"

definition newSimpleFrameNumGapFrame :: "SPS \<Rightarrow> u32 \<Rightarrow> DecodedFrame option \<Rightarrow> DecodedFrame result" where
  "newSimpleFrameNumGapFrame sps frameNum prev =
     rbind (newSimpleDecodedFrame sps) (\<lambda>(frame, _).
       let frame = frame\<lparr>df_frameNum := frameNum\<rparr> in
       case (simpleCopyGapFramePixels frame prev, prev) of
         (Some frame, Some prev) \<Rightarrow>
           Inr (frame\<lparr>df_poc := i32 (df_poc prev + 2),
                      df_fieldPOC := (i32 (fst (df_fieldPOC prev) + 2), i32 (snd (df_fieldPOC prev) + 2))\<rparr>)
       | _ \<Rightarrow> Inr (simpleFillGrayGapFrame frame))"

text \<open>A new frame goes to a fresh address.\<close>

definition alloc_frame :: "DecodedFrame \<Rightarrow> fref dpb" where
  "alloc_frame f d = (Inr (dp_next d), d\<lparr>dp_heap := (dp_heap d)(dp_next d := f), dp_next := dp_next d + 1\<rparr>)"

text \<open>The \<open>unwrapPrevFrameNum\<close> adjustment: a gap longer than the buffer starts inside it.\<close>

definition unwrap_prev :: "SPS \<Rightarrow> int \<Rightarrow> int \<Rightarrow> int \<Rightarrow> int" where
  "unwrap_prev sps maxFrameNum frameNum prev =
     (if frameNum \<noteq> prev then
        let u = (if prev > frameNum then i32 (prev - maxFrameNum) else prev);
            refs = i32_of (sps_RefFrameCount sps)
        in if i32 (frameNum - u) > refs then
             let u = i32 (i32 (frameNum - refs) - 1) in (if u < 0 then i32 (u + maxFrameNum) else u)
           else prev
      else prev)"

definition gap_step :: "SPS \<Rightarrow> int \<Rightarrow> unit dpb" where
  "gap_step sps maxFrameNum =
     bnd (gets (\<lambda>d. if dp_short d \<noteq> [] then Some (dp_heap d (dp_short d ! 0)) else None)) (\<lambda>prev.
     thn (upd (upd_poc (\<lambda>p. p\<lparr>pc_prevFrameNum := i32 (pc_prevFrameNum p + 1) smod maxFrameNum\<rparr>)))
     (bnd (gets (\<lambda>d. u32_of (pc_prevFrameNum (dp_poc d)))) (\<lambda>n.
      bnd (lift (newSimpleFrameNumGapFrame sps n prev)) (\<lambda>f.
      bnd (alloc_frame (f\<lparr>df_invalidGap := (sps_GapsInFrameNumAllowedFlag sps = 0)\<rparr>)) (\<lambda>r.
      markFrameNumGapFrame r sps)))))"

partial_function (option) gap_loop :: "SPS \<Rightarrow> int \<Rightarrow> int \<Rightarrow> simpleFrameDPB \<Rightarrow> (unit result \<times> simpleFrameDPB) option" where
  "gap_loop sps maxFrameNum frameNum d =
     (let prev = pc_prevFrameNum (dp_poc d) in
      if frameNum \<noteq> prev \<and> frameNum \<noteq> i32 (prev + 1) smod maxFrameNum then
        (case gap_step sps maxFrameNum d of
           (Inl e, d) \<Rightarrow> Some (Inl e, d)
         | (Inr _, d) \<Rightarrow> gap_loop sps maxFrameNum frameNum d)
      else Some (Inr (), d))"

definition handleFrameNumGaps :: "SliceHeader \<Rightarrow> bool \<Rightarrow> simpleFrameDPB \<Rightarrow> (unit result \<times> simpleFrameDPB) option" where
  "handleFrameNumGaps sh firstField d = (case sh_SPS sh of None \<Rightarrow> Some (Inl ErrInvalidData, d) | Some sps \<Rightarrow>
     if sh_NALType sh = NALIDRSlice \<or> firstField \<or> sh_PictureStructure sh \<noteq> PictureFrame then Some (Inr (), d)
     else if sps_Log2MaxFrameNum sps \<le> 0 \<or> sps_Log2MaxFrameNum sps \<ge> 31 then Some (Inl ErrInvalidData, d)
     else let maxFrameNum = shl32 (sps_Log2MaxFrameNum sps); frameNum = i32_of (sh_FrameNum sh) in
       gap_loop sps maxFrameNum frameNum
         (upd_poc (\<lambda>p. p\<lparr>pc_prevFrameNum := unwrap_prev sps maxFrameNum frameNum (pc_prevFrameNum p)\<rparr>) d))"

end
