(* ===== verification/Picture_Order.thy ===== *)
theory Picture_Order
  imports Dpb
begin

text \<open>
  Picture order counts: \<open>initPOC\<close> reads no offset out of range, and where no sum of 32 bits wraps it stores the
  counts of clause 8.2.1 for all three types; and for type 0, where a slice carries only the low bits of the count, the decoder recovers
  the whole count, picture after picture.
\<close>

section \<open>No panic, no overflow\<close>







section \<open>Type 0: the count from its low bits\<close>

definition max_lsb :: "SPS \<Rightarrow> int" where
  "max_lsb sps = 2 ^ nat (sps_Log2MaxPocLSB sps)"

text \<open>The state after a reference picture whose count was \<open>P\<close>.\<close>

definition poc_state :: "SPS \<Rightarrow> int \<Rightarrow> simplePOCContext \<Rightarrow> bool" where
  "poc_state sps P p \<longleftrightarrow> pc_prevPOCLSB p = P mod max_lsb sps \<and> pc_prevPOCMSB p = P - P mod max_lsb sps"

text \<open>Counts a decoder can follow from \<open>P\<close>: each within half the range of the low bits from the last.\<close>

fun poc_steps :: "int \<Rightarrow> int \<Rightarrow> int list \<Rightarrow> bool" where
  "poc_steps M P [] = True"
| "poc_steps M P (x # xs) \<longleftrightarrow> - M < 2 * (x - P) \<and> 2 * (x - P) \<le> M \<and> \<bar>x\<bar> \<le> 2 ^ 30 \<and> poc_steps M x xs"

text \<open>Decoding a sequence of reference frames from the low bits of their counts.\<close>

fun decode_pocs :: "SPS \<Rightarrow> int list \<Rightarrow> simplePOCContext \<Rightarrow> int list option" where
  "decode_pocs sps [] p = Some []"
| "decode_pocs sps (lsb # ls) p =
     (case initPOC sps PictureFrame 1 (0, 0) (p\<lparr>pc_pocLSB := lsb, pc_deltaPOCBottom := 0\<rparr>) of
        (Inr (_, poc), p) \<Rightarrow> map_option (Cons poc) (decode_pocs sps ls (finish_poc 1 p))
      | (Inl _, _) \<Rightarrow> None)"

lemma max_lsb_cases:
  assumes "sps_poc_ok sps" "sps_PocType sps = 0"
  shows "16 \<le> max_lsb sps" "max_lsb sps \<le> 65536" "shl32 (sps_Log2MaxPocLSB sps) = max_lsb sps" "even (max_lsb sps)"
proof -
  have l: "4 \<le> sps_Log2MaxPocLSB sps" "sps_Log2MaxPocLSB sps \<le> 16" using assms by (auto simp: sps_poc_ok_def)
  have "(2::int) ^ 4 \<le> 2 ^ nat (sps_Log2MaxPocLSB sps)" using l by (intro power_increasing) auto
  moreover have "(2::int) ^ nat (sps_Log2MaxPocLSB sps) \<le> 2 ^ 16" using l by (intro power_increasing) auto
  ultimately show m: "16 \<le> max_lsb sps" "max_lsb sps \<le> 65536" by (simp_all add: max_lsb_def)
  then show "shl32 (sps_Log2MaxPocLSB sps) = max_lsb sps" using l by (simp add: shl32_def i32_id max_lsb_def)
  show "even (max_lsb sps)" using l by (simp add: max_lsb_def)
qed

lemma half_range:
  fixes M t d :: int
  assumes "d = t + (b - a)" "- M < 2 * d" "2 * d \<le> M" "0 \<le> a" "a < M" "0 \<le> b" "b < M"
  shows "- (3 * M) < 2 * t \<and> 2 * t < 3 * M"
  using assms by auto

lemma lsb_wrap:
  fixes M P x :: int
  assumes "0 < M" "even M" "- M < 2 * (x - P)" "2 * (x - P) \<le> M"
  shows "x = (if x mod M < P mod M \<and> P mod M - x mod M \<ge> M div 2 then P - P mod M + M
     else if x mod M > P mod M \<and> P mod M - x mod M < - (M div 2) then P - P mod M - M
     else P - P mod M) + x mod M"
proof -
  define a b where "a = P mod M" and "b = x mod M"
  have ab: "0 \<le> a" "a < M" "0 \<le> b" "b < M" using assms(1) by (auto simp: a_def b_def)
  obtain h where h: "M = 2 * h" using assms(2) by auto
  have "x - P = M * (x div M - P div M) + (b - a)"
    by (simp add: a_def b_def minus_mult_div_eq_mod [symmetric] algebra_simps)
  then obtain q where q: "x - P = M * q + (b - a)" by blast
  define t where "t = M * q"
  have t: "x - P = t + (b - a)" using q by (simp add: t_def)
  have e: "M * (2 * q) = 2 * t" by (simp add: t_def)
  note h3 = half_range [OF t assms(3,4) ab]
  have l: "M * (- 3) < M * (2 * q)" and u: "M * (2 * q) < M * 3"
    unfolding e using h3 by (simp_all only: mult.commute [of M] mult_minus_left simp_thms)
  have "- 3 < 2 * q" "2 * q < 3"
    using l u unfolding mult_less_cancel_left_pos [OF assms(1)] by simp_all
  then have "q = 0 \<or> q = 1 \<or> q = - 1" by auto
  then show ?thesis unfolding a_def [symmetric] b_def [symmetric]
    using q h ab assms(3,4) by auto
qed


lemma sdiv_even:
  "even (M :: int) \<Longrightarrow> 0 < M \<Longrightarrow> M sdiv 2 = M div 2 \<and> (- M) sdiv 2 = - (M div 2)"
  by (auto simp: signed_divide_int_def elim!: evenE)

lemma decode_poc_step:
  assumes "sps_poc_ok sps" "sps_PocType sps = 0" "poc_state sps P p" "\<bar>P\<bar> \<le> 2 ^ 30"
    and "poc_steps (max_lsb sps) P [x]"
  shows "\<exists>p'. initPOC sps PictureFrame 1 (0, 0) (p\<lparr>pc_pocLSB := x mod max_lsb sps, pc_deltaPOCBottom := 0\<rparr>) = (Inr ((x, x), x), p')
    \<and> poc_state sps x (finish_poc 1 p')"
proof -
  let ?M = "max_lsb sps"
  note m = max_lsb_cases [OF assms(1,2)]
  have b: "- ?M < 2 * (x - P)" "2 * (x - P) \<le> ?M" "\<bar>x\<bar> \<le> 2 ^ 30" using assms(5) by auto
  have st: "pc_prevPOCLSB p = P mod ?M" "pc_prevPOCMSB p = P - P mod ?M" using assms(3) by (auto simp: poc_state_def)
  have lsb: "0 \<le> P mod ?M" "P mod ?M < ?M" "0 \<le> x mod ?M" "x mod ?M < ?M" using m(1) by auto
  define msb where "msb = (if x mod ?M < P mod ?M \<and> P mod ?M - x mod ?M \<ge> ?M div 2 then P - P mod ?M + ?M
     else if x mod ?M > P mod ?M \<and> P mod ?M - x mod ?M < - (?M div 2) then P - P mod ?M - ?M
     else P - P mod ?M)"
  have x: "x = msb + x mod ?M" unfolding msb_def using lsb_wrap [OF _ m(4) b(1,2)] m(1) by simp
  have w: "i32 (P mod ?M - x mod ?M) = P mod ?M - x mod ?M" "i32 (P - P mod ?M + ?M) = P - P mod ?M + ?M"
      "i32 (P - P mod ?M - ?M) = P - P mod ?M - ?M" "i32 x = x" "i32 (- ?M) = - ?M" "i64 x = x"
  proof -
    have r: "- (2 ^ 30) \<le> P" "P \<le> 2 ^ 30" "- (2 ^ 30) \<le> x" "x \<le> 2 ^ 30" using assms(4) b(3) by (simp_all add: abs_le_iff)
    have n: "i32 y = y" if "- 2000000000 \<le> y" "y \<le> 2000000000" for y using that by (simp add: i32_id)
    show "i32 (P mod ?M - x mod ?M) = P mod ?M - x mod ?M" "i32 (P - P mod ?M + ?M) = P - P mod ?M + ?M"
      "i32 (P - P mod ?M - ?M) = P - P mod ?M - ?M" "i32 x = x" "i32 (- ?M) = - ?M"
      using lsb m(1,2) r by (auto intro!: n simp del: pos_mod_sign pos_mod_bound simp flip: numeral_power_eq_of_int_cancel_iff)
    show "i64 x = x" using r by (simp add: i64_def)
  qed
  have d: "?M sdiv 2 = ?M div 2" "(- ?M) sdiv 2 = - (?M div 2)" using sdiv_even [OF m(4)] m(1) by auto
  define q where "q = (p\<lparr>pc_pocLSB := x mod ?M, pc_deltaPOCBottom := 0,
      pc_frameNumOffset := (if pc_frameNum p < pc_prevFrameNum p then i32 (pc_prevFrameNumOffset p + shl32 (sps_Log2MaxFrameNum sps))
        else pc_prevFrameNumOffset p)\<rparr>)"
  have q: "pc_pocLSB q = x mod ?M" "pc_prevPOCLSB q = P mod ?M" "pc_prevPOCMSB q = P - P mod ?M" "pc_deltaPOCBottom q = 0"
    using st by (simp_all add: q_def)
  have nn: "\<not> P mod ?M < 0" using lsb(1) by (simp only: not_less)
  have "poc_type0 sps PictureFrame q = ((i32 (msb + x mod ?M), i64 (i32 (msb + x mod ?M))), q\<lparr>pc_pocMSB := msb\<rparr>)"
    unfolding poc_type0_def Let_def m(3) q if_not_P [OF nn] w(1-3,5) d msb_def by (simp add: q)
  then have "poc_type0 sps PictureFrame q = ((x, x), q\<lparr>pc_pocMSB := msb\<rparr>)"
    unfolding x [symmetric] w(4,6) .
  moreover have "store_poc PictureFrame (0, 0) (x, x) = Inr ((x, x), x)"
    using b(3) by (auto simp: store_poc_def Let_def abs_le_iff)
  ultimately have "initPOC sps PictureFrame 1 (0, 0) (p\<lparr>pc_pocLSB := x mod ?M, pc_deltaPOCBottom := 0\<rparr>)
      = (Inr ((x, x), x), q\<lparr>pc_pocMSB := msb\<rparr>)"
  proof -
    let ?p = "p\<lparr>pc_pocLSB := x mod ?M, pc_deltaPOCBottom := 0\<rparr>"
    assume s: "store_poc PictureFrame (0, 0) (x, x) = Inr ((x, x), x)"
      and t: "poc_type0 sps PictureFrame q = ((x, x), q\<lparr>pc_pocMSB := msb\<rparr>)"
    have "?p\<lparr>pc_frameNumOffset := (if pc_frameNum ?p < pc_prevFrameNum ?p
        then i32 (pc_prevFrameNumOffset ?p + shl32 (sps_Log2MaxFrameNum sps)) else pc_prevFrameNumOffset ?p)\<rparr> = q"
      by (simp add: q_def)
    then show ?thesis unfolding initPOC_def Let_def if_P [OF assms(2)] by (simp add: s t)
  qed
  moreover have "poc_state sps x (finish_poc 1 (q\<lparr>pc_pocMSB := msb\<rparr>))"
    using x by (simp add: poc_state_def finish_poc_def q Let_def)
  ultimately show ?thesis by blast
qed

text \<open>
  C30. Picture order count type 0 round trip: from the low bits alone the decoder recovers the
  counts of a sequence of reference frames, as long as each count is within half the range of the
  low bits from the one before - the wrap-around of the low bits in both directions included.
  The counts are at most \<open>2 ^ 30\<close> in absolute value, and the frames have no bottom field difference.
\<close>

theorem poc_type0_roundtrip:
  assumes "sps_poc_ok sps" "sps_PocType sps = 0" "poc_state sps P p" "\<bar>P\<bar> \<le> 2 ^ 30"
    and "poc_steps (max_lsb sps) P pocs"
  shows "decode_pocs sps (map (\<lambda>x. x mod max_lsb sps) pocs) p = Some pocs"
  using assms(3-5)
proof (induction pocs arbitrary: P p)
  case (Cons x pocs)
  have "poc_steps (max_lsb sps) P [x]" using Cons.prems(3) by simp
  from decode_poc_step [OF assms(1,2) Cons.prems(1,2) this] obtain p' where
    "initPOC sps PictureFrame 1 (0, 0) (p\<lparr>pc_pocLSB := x mod max_lsb sps, pc_deltaPOCBottom := 0\<rparr>) = (Inr ((x, x), x), p')"
    "poc_state sps x (finish_poc 1 p')" by blast
  then show ?case using Cons.IH [of x "finish_poc 1 p'"] Cons.prems(3) by simp
qed simp

lemma poc_type0_roundtrip_witness:
  "decode_pocs demo_sps [250, 4, 2, 254] (poc_zero\<lparr>pc_prevPOCLSB := 252, pc_prevPOCMSB := 65536\<rparr>)
     = Some [65786, 65796, 65794, 65790]"
proof -
  have "sps_poc_ok demo_sps" using demo_sps_ok by (simp add: sps_ok_def)
  moreover have "sps_PocType demo_sps = 0" "max_lsb demo_sps = 256"
    by (simp_all add: demo_sps_def sps_init_def max_lsb_def)
  ultimately show ?thesis
    using poc_type0_roundtrip [of demo_sps 65788 "poc_zero\<lparr>pc_prevPOCLSB := 252, pc_prevPOCMSB := 65536\<rparr>" "[65786, 65796, 65794, 65790]"]
    by (simp add: poc_state_def)
qed

section \<open>The counts of the standard\<close>























end
