(* ===== verification/Dpb_Marking.thy ===== *)
theory Dpb_Marking
  imports Dpb "HOL-Library.Sublist"
begin

text \<open>
  What marking does to the references of the decoded picture buffer: the operations that remove
  references, the memory management commands and the sliding window keep the invariant of the
  reference lists, and the number of references stays within what the parameter set asks for.
\<close>

section \<open>Removing references\<close>

definition masks_ok :: "(fref \<rightharpoonup> int) \<Rightarrow> bool" where
  "masks_ok m \<longleftrightarrow> ran m \<subseteq> {1, 2, 3}"

definition refs_only :: "simpleFrameDPB \<Rightarrow> simpleFrameDPB \<Rightarrow> bool" where
  "refs_only d d' \<longleftrightarrow> d' = d\<lparr>dp_short := dp_short d', dp_long := dp_long d', dp_refMask := dp_refMask d'\<rparr>"

definition shrinks :: "simpleFrameDPB \<Rightarrow> simpleFrameDPB \<Rightarrow> bool" where
  "shrinks d d' \<longleftrightarrow> refs_only d d' \<and> subseq (dp_short d') (dp_short d)
     \<and> list_all2 (\<lambda>x y. x = None \<or> x = y) (dp_long d') (dp_long d)
     \<and> (masks_ok (dp_refMask d) \<longrightarrow> masks_ok (dp_refMask d'))"

lemma refs_only_refl [simp]: "refs_only d d"
  by (simp add: refs_only_def)

lemma refs_only_trans: "refs_only a b \<Longrightarrow> refs_only b c \<Longrightarrow> refs_only a c"
  unfolding refs_only_def
  by (cases a; cases b; cases c) simp

lemma refs_only_fields:
  "refs_only d d' \<Longrightarrow> dp_heap d' = dp_heap d \<and> dp_next d' = dp_next d \<and> dp_poc d' = dp_poc d
     \<and> dp_delayed d' = dp_delayed d \<and> dp_lastPOCs d' = dp_lastPOCs d \<and> dp_hasBFrames d' = dp_hasBFrames d"
  unfolding refs_only_def by (cases d; cases d') simp

lemma shrinks_refl [simp]: "shrinks d d"
  by (simp add: shrinks_def list.rel_refl)

lemma shrinks_trans:
  assumes "shrinks a b" "shrinks b c"
  shows "shrinks a c"
proof -
  have "list_all2 (\<lambda>x y. x = None \<or> x = y) (dp_long c) (dp_long a)"
    using assms unfolding shrinks_def list_all2_conv_all_nth by metis
  then show ?thesis
    using assms refs_only_trans [of a b c] subseq_order.trans [of "dp_short c" "dp_short b" "dp_short a"]
    by (simp add: shrinks_def)
qed

lemma masks_ok_del: "masks_ok m \<Longrightarrow> masks_ok (m(f := None))"
  by (auto simp: masks_ok_def ran_def split: if_splits)

lemma mask_and_3: "0 \<le> (m::int) \<Longrightarrow> m \<le> 3 \<Longrightarrow> m AND 3 = m"
  using take_bit_int_eq_self_iff [of 2 m] by (simp add: take_bit_eq_mask mask_eq_exp_minus_1)

lemma setFrameRefMask_masks:
  assumes "masks_ok (dp_refMask d)" "0 \<le> m" "m \<le> 3"
  shows "masks_ok (dp_refMask (setFrameRefMask f m d))"
proof (cases "m = 0")
  case False
  then have "m AND 3 \<in> {1, 2, 3}" using mask_and_3 [of m] assms(2,3) by auto
  then show ?thesis using assms(1) False
    by (auto simp: setFrameRefMask_def masks_ok_def ran_def split: if_splits)
qed (use assms in \<open>simp add: setFrameRefMask_def masks_ok_del\<close>)

lemma setFrameRefMask_refs_only [simp]: "refs_only d (setFrameRefMask f m d)"
  by (simp add: refs_only_def setFrameRefMask_def)

lemma clear_mask_shrinks [simp]: "shrinks d (clearFrameRefMaskIfUnreferenced f d)"
  by (simp add: clearFrameRefMaskIfUnreferenced_def shrinks_def list.rel_refl setFrameRefMask_masks)

lemma shrinks_clear: "shrinks d d' \<Longrightarrow> shrinks d (clearFrameRefMaskIfUnreferenced f d')"
  by (rule shrinks_trans [OF _ clear_mask_shrinks])

lemma frameRefMask_range:
  assumes "masks_ok (dp_refMask d)"
  shows "frameRefMask f d \<in> {1, 2, 3}"
proof (cases "dp_refMask d f")
  case (Some m)
  then show ?thesis using assms by (auto simp: frameRefMask_def masks_ok_def ran_def)
qed (simp add: frameRefMask_def Let_def)

lemma mask_ops:
  assumes "m \<in> {1, 2, 3 :: int}" "s \<in> {1, 2, 3 :: int}"
  shows "0 \<le> m AND NOT s" "m AND NOT s \<le> 3" "0 \<le> m OR s" "m OR s \<le> 3" "m OR s \<noteq> 0"
  using assms by auto

lemma removeShortAtIndex_shrinks [simp]: "shrinks d (removeShortAtIndex i d)"
proof (cases "i < length (dp_short d)")
  case True
  have "subseq (take i (dp_short d) @ drop (i + 1) (dp_short d)) (take i (dp_short d) @ drop i (dp_short d))"
    using True by (intro list_emb_append_mono subseq_order.refl)
      (simp add: Cons_nth_drop_Suc [symmetric] list_emb_Cons)
  then have "shrinks d (d\<lparr>dp_short := take i (dp_short d) @ drop (i + 1) (dp_short d)\<rparr>)"
    by (simp add: shrinks_def refs_only_def list.rel_refl)
  then show ?thesis using True by (simp add: removeShortAtIndex_def shrinks_clear)
qed (simp add: removeShortAtIndex_def)

lemma removeShortByFrameNum_shrinks [simp]: "shrinks d (removeShortByFrameNum n d)"
  by (auto simp: removeShortByFrameNum_def shrinks_clear split: option.split)

lemma shrinks_set_mask:
  assumes "masks_ok (dp_refMask d) \<Longrightarrow> 0 \<le> m \<and> m \<le> 3"
  shows "shrinks d (setFrameRefMask f m d)"
  using assms by (auto simp: shrinks_def list.rel_refl setFrameRefMask_masks)

lemma andnot_shrinks:
  assumes "s \<in> {1, 2, 3}"
  shows "shrinks d (setFrameRefMask f (frameRefMask f d AND NOT s) d)"
  by (rule shrinks_set_mask) (use frameRefMask_range [of d f] mask_ops(1,2) assms in blast)

lemma removeShortByFrameNumAndStructure_shrinks:
  assumes "s \<in> {1, 2, 3}"
  shows "shrinks d (removeShortByFrameNumAndStructure n s d)"
  unfolding removeShortByFrameNumAndStructure_def Let_def
  by (simp add: shrinks_clear andnot_shrinks [OF assms] split: option.split)

lemma clear_long_shrinks [simp]: "shrinks d (clear_long i d)"
proof -
  have "list_all2 (\<lambda>x y. x = None \<or> x = y) ((dp_long d)[i := None]) (dp_long d)"
    by (cases "i < length (dp_long d)") (auto simp: list_all2_conv_all_nth nth_list_update)
  then show ?thesis by (simp add: clear_long_def shrinks_def refs_only_def)
qed

lemma clear_mask_opt_shrinks: "shrinks d d' \<Longrightarrow> shrinks d (clear_mask_opt f d')"
  by (auto simp: clear_mask_opt_def shrinks_clear split: option.split)

lemma removeLongByIndex_shrinks [simp]: "shrinks d (removeLongByIndex i d)"
  by (simp add: removeLongByIndex_def clear_mask_opt_shrinks)

lemma removeFirstLong_shrinks [simp]: "shrinks d (removeFirstLong d)"
  by (auto simp: removeFirstLong_def clear_mask_opt_shrinks split: option.split)

lemma removeLongByIndexAndStructure_shrinks:
  assumes "s \<in> {1, 2, 3}"
  shows "shrinks d (removeLongByIndexAndStructure i s d)"
  unfolding removeLongByIndexAndStructure_def Let_def
  by (simp add: shrinks_clear andnot_shrinks [OF assms] split: option.split)

lemma removeLongRefsForFrame_shrinks [simp]: "shrinks d (removeLongRefsForFrame f d)"
proof -
  have "list_all2 (\<lambda>x y. x = None \<or> x = y) (map (\<lambda>r. if r = Some f then None else r) (dp_long d)) (dp_long d)"
    by (auto simp: list_all2_conv_all_nth)
  then have "shrinks d (d\<lparr>dp_long := map (\<lambda>r. if r = Some f then None else r) (dp_long d)\<rparr>)"
    by (simp add: shrinks_def refs_only_def)
  then show ?thesis by (simp add: removeLongRefsForFrame_def shrinks_clear)
qed

definition gap_stale :: "u32 \<Rightarrow> SPS \<Rightarrow> DecodedFrame \<Rightarrow> bool" where
  "gap_stale n sps f \<longleftrightarrow> df_invalidGap f
     \<and> avZeroExtendSimple (i32 (i32_of n - i32_of (df_frameNum f))) (sps_Log2MaxFrameNum sps) > sps_RefFrameCount sps"

lemma gap_loop_step:
  "removeInvalidGap_loop n sps i d =
     (if i < length (dp_short d) then
        if gap_stale n sps (dp_heap d (dp_short d ! i)) then removeInvalidGap_loop n sps i (removeShortAtIndex i d)
        else removeInvalidGap_loop n sps (i + 1) d
      else d)"
  by (subst removeInvalidGap_loop.simps) (simp only: gap_stale_def Let_def)

lemma removeInvalidGap_loop_shrinks: "shrinks d (removeInvalidGap_loop n sps i d)"
proof (induction "length (dp_short d) - i" arbitrary: i d rule: less_induct)
  case less
  show ?case
  proof (cases "i < length (dp_short d)")
    case True
    then have l: "length (dp_short (removeShortAtIndex i d)) - i < length (dp_short d) - i"
        "length (dp_short d) - (i + 1) < length (dp_short d) - i"
      by (auto simp: removeShortAtIndex_short)
    show ?thesis
      unfolding gap_loop_step [of n sps i d] if_P [OF True]
      using less [OF l(1)] less [OF l(2)] shrinks_trans [OF removeShortAtIndex_shrinks] by (simp split: if_split)
  next
    case False
    then show ?thesis unfolding gap_loop_step [of n sps i d] by simp
  qed
qed

lemma resetRefs_shrinks [simp]: "shrinks d (resetRefs d)"
  by (auto simp: resetRefs_def shrinks_def refs_only_def masks_ok_def list_all2_conv_all_nth)

lemma fold_removeLong_shrinks: "shrinks d (fold removeLongByIndex is d)"
  by (induction "is" arbitrary: d) (auto intro: shrinks_trans [OF removeLongByIndex_shrinks])

lemma removeLastShort_shrinks [simp]: "shrinks d (removeLastShort d)"
  by (simp add: removeLastShort_def)

lemma trim_refs_shrinks: "shrinks d (snd (trim_refs n d))"
  by (simp add: trim_refs_def)


section \<open>The invariant of the reference lists\<close>

text \<open>
  With \<open>u\<close>, no two short-term references have one \<open>frame_num\<close>. Marking keeps the rest whatever the numbers are.
\<close>

definition refs_core_of :: "bool \<Rightarrow> simpleFrameDPB \<Rightarrow> bool" where
  "refs_core_of u d \<longleftrightarrow> length (dp_long d) = simpleMaxLongRefs
     \<and> (u \<longrightarrow> distinct (map (\<lambda>f. df_frameNum (dp_heap d f)) (dp_short d))) \<and> masks_ok (dp_refMask d)
     \<and> (\<forall>f \<in> set (dp_short d). f < dp_next d) \<and> (\<forall>f. Some f \<in> set (dp_long d) \<longrightarrow> f < dp_next d)"

definition refs_inv_of :: "bool \<Rightarrow> simpleFrameDPB \<Rightarrow> bool" where
  "refs_inv_of u d \<longleftrightarrow> refs_core_of u d \<and> length (dp_short d) \<le> simpleMaxShortRefs"

abbreviation refs_core :: "simpleFrameDPB \<Rightarrow> bool" where "refs_core \<equiv> refs_core_of True"

abbreviation refs_inv :: "simpleFrameDPB \<Rightarrow> bool" where "refs_inv \<equiv> refs_inv_of True"

lemmas refs_core_def = refs_core_of_def [of True, simplified]

lemmas refs_inv_def = refs_inv_of_def [of True]

lemma subseq_distinct: "subseq xs ys \<Longrightarrow> distinct ys \<Longrightarrow> distinct xs"
  by (induction rule: list_emb.induct) (auto dest: list_emb_set)

lemma subseq_subset: "subseq xs ys \<Longrightarrow> set xs \<subseteq> set ys"
  by (induction rule: list_emb.induct) auto

lemma shrinks_long:
  "list_all2 (\<lambda>x y. x = None \<or> x = y) xs ys \<Longrightarrow> Some f \<in> set xs \<Longrightarrow> Some f \<in> set ys"
  by (auto simp: list_all2_conv_all_nth in_set_conv_nth) (metis option.distinct(1))

lemma refs_core_shrinks:
  assumes "shrinks d d'" "refs_core_of u d"
  shows "refs_core_of u d'"
proof -
  note s = assms(1) [unfolded shrinks_def]
  note f = refs_only_fields [OF conjunct1 [OF s]]
  have "u \<longrightarrow> distinct (map (\<lambda>f. df_frameNum (dp_heap d f)) (dp_short d'))"
    using s assms(2) by (auto simp: refs_core_of_def intro: subseq_distinct subseq_map)
  moreover have "length (dp_long d') = length (dp_long d)"
    using s by (auto dest: list_all2_lengthD)
  ultimately show ?thesis
    using s f assms(2) subseq_subset [of "dp_short d'" "dp_short d"] shrinks_long [of "dp_long d'" "dp_long d"]
    unfolding refs_core_of_def by auto
qed

lemma refs_inv_shrinks: "shrinks d d' \<Longrightarrow> refs_inv_of u d \<Longrightarrow> refs_inv_of u d'"
  using refs_core_shrinks [of d d' u] by (auto simp: refs_inv_of_def shrinks_def dest: list_emb_length)

lemma refs_inv_set_long:
  "refs_inv_of u d \<Longrightarrow> f < dp_next d \<Longrightarrow> refs_inv_of u (d\<lparr>dp_long := (dp_long d)[i := Some f]\<rparr>)"
  by (auto simp: refs_inv_of_def refs_core_of_def dest!: set_update_subset_insert [THEN subsetD])

lemma refs_core_set_mask:
  assumes "refs_core_of u d" "0 \<le> m" "m \<le> 3"
  shows "refs_core_of u (setFrameRefMask f m d)"
proof -
  have n: "dp_next (setFrameRefMask f m d) = dp_next d" by (simp add: setFrameRefMask_def)
  show ?thesis using assms setFrameRefMask_masks [of d m f] by (simp add: refs_core_of_def n)
qed

lemma refs_inv_set_mask: "refs_inv_of u d \<Longrightarrow> 0 \<le> m \<Longrightarrow> m \<le> 3 \<Longrightarrow> refs_inv_of u (setFrameRefMask f m d)"
  by (simp add: refs_inv_of_def refs_core_set_mask)

lemma refs_inv_poc [simp]:
  "refs_inv_of u (upd_poc g d) = refs_inv_of u d" "refs_inv_of u (resetLastPOCs d) = refs_inv_of u d"
  by (simp_all add: refs_inv_of_def refs_core_of_def upd_poc_def resetLastPOCs_def)

lemma simpleReferenceMask_range: "simpleReferenceMask s \<in> {1, 2, 3}"
  by (simp add: simpleReferenceMask_def)

lemma picNum_structure:
  assumes "ps \<in> {1, 2, 3}" "simplePicNumExtract ps n = (m, s)"
  shows "s \<in> {1, 2, 3}"
  using assms by (auto simp: simplePicNumExtract_def split: if_splits)

lemma find_in: "find P xs = Some x \<Longrightarrow> x \<in> set xs \<and> P x"
  by (auto simp: find_Some_iff)

lemma frameRefMask_or:
  assumes "refs_inv_of u d" "s \<in> {1, 2, 3}"
  shows "0 \<le> frameRefMask f d OR s" "frameRefMask f d OR s \<le> 3"
  using frameRefMask_range [of d f] mask_ops [of "frameRefMask f d" s] assms by (auto simp: refs_inv_of_def refs_core_of_def)

section \<open>The commands\<close>

text \<open>What a command may do: the references change, the invariant is kept, frames are untouched.\<close>

definition mmco_frame :: "bool \<Rightarrow> simpleFrameDPB \<Rightarrow> simpleFrameDPB \<Rightarrow> bool" where
  "mmco_frame u d d' \<longleftrightarrow> refs_inv_of u d' \<and> subseq (dp_short d') (dp_short d) \<and> dp_heap d' = dp_heap d \<and> dp_next d' = dp_next d
     \<and> dp_delayed d' = dp_delayed d \<and> dp_hasBFrames d' = dp_hasBFrames d
     \<and> length (dp_lastPOCs d') = length (dp_lastPOCs d)"

lemma mmco_frame_trans: "mmco_frame u a b \<Longrightarrow> mmco_frame u b c \<Longrightarrow> mmco_frame u a c"
  by (auto simp: mmco_frame_def intro: subseq_order.trans)

lemma mmco_frame_shrinks: "refs_inv_of u d \<Longrightarrow> shrinks d d' \<Longrightarrow> mmco_frame u d d'"
  using refs_inv_shrinks refs_only_fields by (auto simp: mmco_frame_def shrinks_def)

lemma mmco_frame_set_long:
  "refs_inv_of u d \<Longrightarrow> f < dp_next d \<Longrightarrow> mmco_frame u d (d\<lparr>dp_long := (dp_long d)[i := Some f]\<rparr>)"
  by (simp add: mmco_frame_def refs_inv_set_long)

lemma mmco_frame_set_mask:
  "refs_inv_of u d \<Longrightarrow> 0 \<le> m \<Longrightarrow> m \<le> 3 \<Longrightarrow> mmco_frame u d (setFrameRefMask f m d)"
  using refs_only_fields [OF setFrameRefMask_refs_only] by (simp add: mmco_frame_def refs_inv_set_mask)


lemma mmco_frame_shrinks2: "mmco_frame u d d' \<Longrightarrow> shrinks d' d'' \<Longrightarrow> mmco_frame u d d''"
  by (rule mmco_frame_trans, assumption, rule mmco_frame_shrinks) (simp_all add: mmco_frame_def)

lemma mmco_frame_set_long2:
  "mmco_frame u d d' \<Longrightarrow> f < dp_next d \<Longrightarrow> mmco_frame u d (d'\<lparr>dp_long := (dp_long d')[i := Some f]\<rparr>)"
  by (rule mmco_frame_trans, assumption, rule mmco_frame_set_long) (simp_all add: mmco_frame_def)

lemma mmco_frame_set_mask2:
  "mmco_frame u d d' \<Longrightarrow> 0 \<le> m \<Longrightarrow> m \<le> 3 \<Longrightarrow> mmco_frame u d (setFrameRefMask f m d')"
  by (rule mmco_frame_trans, assumption, rule mmco_frame_set_mask) (simp_all add: mmco_frame_def)

lemma mmco_frame_refl: "refs_inv_of u d \<Longrightarrow> mmco_frame u d d"
  by (simp add: mmco_frame_def)

lemma mmco_frame_inv: "mmco_frame u d d' \<Longrightarrow> refs_inv_of u d'"
  by (simp add: mmco_frame_def)

lemma mmco_frame_or_mask:
  "mmco_frame u d d' \<Longrightarrow> s \<in> {1, 2, 3} \<Longrightarrow> mmco_frame u d (setFrameRefMask f (frameRefMask f d' OR s) d')"
  using frameRefMask_or [of u d' s f] mmco_frame_inv by (intro mmco_frame_set_mask2) auto

text \<open>
  The checked accesses of the two commands never leave the array of 16: the lists keep their length.
\<close>

lemma refs_inv_long_length: "refs_inv_of u d \<Longrightarrow> length (dp_long d) = simpleMaxLongRefs"
  by (simp add: refs_inv_of_def refs_core_of_def)

lemma shrinks_long_length: "shrinks d d' \<Longrightarrow> length (dp_long d') = length (dp_long d)"
  by (auto simp: shrinks_def dest: list_all2_lengthD)

lemmas long_lengths [simp] = shrinks_long_length [OF removeLongByIndex_shrinks]
  shrinks_long_length [OF removeShortByFrameNum_shrinks] shrinks_long_length [OF removeShortAtIndex_shrinks]
  shrinks_long_length [OF removeLongRefsForFrame_shrinks]

lemmas step_simps = bnd_def thn_def upd_def gets_def ret_def whenM_def fail_def

lemma mmco_short2long_checked:
  assumes "length (dp_long d) = simpleMaxLongRefs"
  shows "mmco_short2long ps c d =
     (if unat (mmco_LongArg c) \<ge> simpleMaxLongRefs then (Inl ErrInvalidData, d)
      else case simplePicNumExtract ps (mmco_ShortPicNum c) of (frameNum, s) \<Rightarrow>
       (case findShortByFrameNumAndStructure frameNum s d of
          None \<Rightarrow> (case findLongByIndex (mmco_LongArg c) d of
              None \<Rightarrow> (Inl ErrInvalidData, d)
            | Some lg \<Rightarrow> if df_frameNum (dp_heap d lg) \<noteq> frameNum then (Inl ErrInvalidData, d) else (Inr (), d))
        | Some pic \<Rightarrow>
            let i = unat (mmco_LongArg c);
                d1 = (if dp_long d ! i \<noteq> Some pic then removeLongByIndex i d else d);
                d2 = removeShortByFrameNum frameNum d1
            in (Inr (), setFrameRefMask pic (frameRefMask pic d1 OR s) (d2\<lparr>dp_long := (dp_long d2)[i := Some pic]\<rparr>))))"
  using assms by (simp add: mmco_short2long_def long_at_def put_long_def step_simps Let_def split: prod.split option.split)

lemma mmco_long_checked:
  assumes "length (dp_long d) = simpleMaxLongRefs"
  shows "mmco_long frame ps c d =
     (if unat (mmco_LongArg c) \<ge> simpleMaxLongRefs then (Inl ErrInvalidData, d)
      else let i = unat (mmco_LongArg c);
               d1 = removeLongRefsForFrame frame (if dp_short d \<noteq> [] \<and> dp_short d ! 0 = frame then removeShortAtIndex 0 d else d);
               d2 = (if dp_long d1 ! i \<noteq> Some frame
                     then (removeLongByIndex i d1)\<lparr>dp_long := (dp_long (removeLongByIndex i d1))[i := Some frame]\<rparr> else d1)
           in (Inr (), setFrameRefMask frame (frameRefMask frame d2 OR simpleReferenceMask ps) d2))"
  using assms by (simp add: mmco_long_def long_at_def put_long_def step_simps Let_def)

lemma short2long_frame:
  assumes "refs_inv_of u d" "ps \<in> {1, 2, 3}"
  shows "wp (mmco_short2long ps c) (\<lambda>_ d'. mmco_frame u d d') (\<lambda>e d'. e = ErrInvalidData \<and> mmco_frame u d d') d"
proof -
  obtain n s where ns: "simplePicNumExtract ps (mmco_ShortPicNum c) = (n, s)" by fastforce
  have s: "s \<in> {1, 2, 3}" using picNum_structure [OF assms(2) ns] .
  note r = mmco_frame_refl [OF assms(1)]
  have pic: "mmco_frame u d (setFrameRefMask pic (frameRefMask pic d1 OR s)
       ((removeShortByFrameNum n d1)\<lparr>dp_long := (dp_long (removeShortByFrameNum n d1))[i := Some pic]\<rparr>))"
    if p: "findShortByFrameNumAndStructure n s d = Some pic" and d1: "mmco_frame u d d1" for pic d1 i
  proof -
    have "pic \<in> set (dp_short d)" using find_in [OF p [unfolded findShortByFrameNumAndStructure_def]] by simp
    then have "pic < dp_next d" using assms(1) by (auto simp: refs_inv_of_def refs_core_of_def)
    then show ?thesis
      using frameRefMask_or [OF mmco_frame_inv [OF d1] s, of pic] d1
      by (intro mmco_frame_set_mask2 mmco_frame_set_long2 mmco_frame_shrinks2 [OF d1]) auto
  qed
  have "mmco_frame u d (removeLongByIndex i d)" for i
    by (rule mmco_frame_shrinks2 [OF r]) simp
  then show ?thesis
    unfolding wp_def mmco_short2long_checked [OF refs_inv_long_length [OF assms(1)]]
    using r pic by (auto simp: ns Let_def split: option.splits)
qed

lemma mmco_long_frame:
  assumes "refs_inv_of u d" "ps \<in> {1, 2, 3}" "frame < dp_next d"
  shows "wp (mmco_long frame ps c) (\<lambda>_ d'. mmco_frame u d d') (\<lambda>e d'. e = ErrInvalidData \<and> mmco_frame u d d') d"
proof -
  note r = mmco_frame_refl [OF assms(1)]
  have a: "mmco_frame u d (if b then removeShortAtIndex 0 d else d)" for b
    using r by (simp add: mmco_frame_shrinks2)
  have b: "mmco_frame u d (removeLongRefsForFrame frame (if b then removeShortAtIndex 0 d else d))" for b
    using mmco_frame_shrinks2 [OF a removeLongRefsForFrame_shrinks] .
  have c: "mmco_frame u d (if b' then (removeLongByIndex i d1)\<lparr>dp_long := (dp_long (removeLongByIndex i d1))[i := Some frame]\<rparr> else d1)"
    if "mmco_frame u d d1" for b' i d1
    using that mmco_frame_set_long2 [OF mmco_frame_shrinks2 [OF that removeLongByIndex_shrinks] assms(3)] by simp
  show ?thesis
  proof (cases "unat (mmco_LongArg c) \<ge> simpleMaxLongRefs")
    case True
    then show ?thesis using r by (simp add: wp_def mmco_long_def)
  next
    case False
    show ?thesis
      unfolding wp_def mmco_long_checked [OF refs_inv_long_length [OF assms(1)]] Let_def if_not_P [OF False] prod.case sum.case
      by (rule mmco_frame_or_mask [OF c [OF b] simpleReferenceMask_range])
  qed
qed

lemma wp_thn_ret:
  assumes "wp m (\<lambda>_. P) E s" "\<And>s'. P s' \<Longrightarrow> Q x s'"
  shows "wp (thn m (ret x)) Q E s"
  using wp_conj_mono [OF assms(1)] assms(2) by (simp add: wp_simps)

abbreviation mmco_err :: "bool \<Rightarrow> simpleFrameDPB \<Rightarrow> goerror \<Rightarrow> simpleFrameDPB \<Rightarrow> bool" where
  "mmco_err u d e d' \<equiv> e \<in> {ErrInvalidData, ErrUnsupported} \<and> mmco_frame u d d'"

text \<open>After a reset command the short references are gone, and no later command brings one back.\<close>

definition mmco_post :: "bool \<Rightarrow> simpleFrameDPB \<Rightarrow> bool \<Rightarrow> bool \<times> bool \<Rightarrow> simpleFrameDPB \<Rightarrow> bool" where
  "mmco_post u d b flags d' \<longleftrightarrow> mmco_frame u d d' \<and> (fst flags \<longrightarrow> b \<or> dp_short d' = [])"

lemma mmco_step_frame:
  assumes "refs_inv_of u d" "ps \<in> {1, 2, 3}" "frame < dp_next d"
  shows "wp (mmco_step frame ps c flags) (mmco_post u d (fst flags)) (mmco_err u d) d"
proof -
  note r = mmco_frame_refl [OF assms(1)]
  have short: "wp (\<lambda>d. case simplePicNumExtract ps n of (frameNum, s) \<Rightarrow>
           (Inr flags, removeShortByFrameNumAndStructure frameNum s d)) (mmco_post u d (fst flags)) (mmco_err u d) d" for n
    using mmco_frame_shrinks2 [OF r removeShortByFrameNumAndStructure_shrinks [OF picNum_structure [OF assms(2)]]]
    by (auto simp: wp_def mmco_post_def split: prod.split)
  have l2u: "wp (mmco_long2unused ps c) (\<lambda>_ d'. mmco_frame u d d') (mmco_err u d) d"
    using mmco_frame_shrinks2 [OF r removeLongByIndexAndStructure_shrinks [OF picNum_structure [OF assms(2)]]] r
    by (auto simp: wp_def mmco_long2unused_def split: prod.split)
  have ml: "wp (mmco_set_max_long c) (\<lambda>_ d'. mmco_frame u d d') (mmco_err u d) d"
    using r by (auto simp: wp_def mmco_set_max_long_def intro!: mmco_frame_shrinks2 [OF r] fold_removeLong_shrinks)
  have "mmco_frame u d (resetLastPOCs (upd_poc g (resetRefs d)))" for g
    using mmco_frame_shrinks [OF assms(1) resetRefs_shrinks]
    by (simp add: mmco_frame_def) (simp add: resetLastPOCs_def upd_poc_def)
  then have rst: "wp (thn (upd (\<lambda>d. resetLastPOCs (upd_poc g (resetRefs d)))) (ret x)) (mmco_post u d (fst flags)) (mmco_err u d) d"
    for g and x :: "bool \<times> bool"
    by (simp add: wp_simps mmco_post_def) (simp add: resetLastPOCs_def upd_poc_def resetRefs_def)
  have sl: "wp (mmco_short2long ps c) (\<lambda>_ d'. mmco_frame u d d') (mmco_err u d) d"
    by (rule wp_conj_mono [OF short2long_frame [OF assms(1,2)]]) auto
  have lg: "wp (mmco_long frame ps c) (\<lambda>_ d'. mmco_frame u d d') (mmco_err u d) d"
    by (rule wp_conj_mono [OF mmco_long_frame [OF assms]]) auto
  have un: "wp (fail ErrUnsupported) (mmco_post u d (fst flags)) (mmco_err u d) d"
    using r by (simp add: wp_simps)
  have ret: "wp (thn m (ret x)) (mmco_post u d (fst flags)) (mmco_err u d) d"
    if "wp m (\<lambda>_ d'. mmco_frame u d d') (mmco_err u d) d" "fst x = fst flags" for m x
    by (rule wp_thn_ret [OF that(1)]) (simp add: mmco_post_def that(2))
  have "wp (thn (mmco_short2long ps c) (ret flags)) (mmco_post u d (fst flags)) (mmco_err u d) d"
       "wp (thn (mmco_long2unused ps c) (ret flags)) (mmco_post u d (fst flags)) (mmco_err u d) d"
       "wp (thn (mmco_set_max_long c) (ret flags)) (mmco_post u d (fst flags)) (mmco_err u d) d"
       "wp (thn (mmco_long frame ps c) (ret (fst flags, True))) (mmco_post u d (fst flags)) (mmco_err u d) d"
    using ret sl l2u ml lg by simp_all
  note steps = short this rst un
  show ?thesis
    unfolding mmco_step_def wp_if
    by (split if_split | intro conjI impI | rule steps)+
qed

lemma applyMMCO_loop_frame:
  assumes "refs_inv_of u d" "ps \<in> {1, 2, 3}" "frame < dp_next d"
  shows "wp (applyMMCO_loop frame ps cs flags) (mmco_post u d (fst flags \<and> dp_short d \<noteq> [])) (mmco_err u d) d"
  using assms(1,3)
proof (induction cs arbitrary: d flags)
  case (Cons c cs)
  have "wp (applyMMCO_loop frame ps cs fl) (mmco_post u d (fst flags \<and> dp_short d \<noteq> [])) (mmco_err u d) d1"
    if m: "mmco_post u d (fst flags) fl d1" for d1 fl
  proof (rule wp_conj_mono [OF Cons.IH])
    have f: "mmco_frame u d d1" using m by (simp add: mmco_post_def)
    show "refs_inv_of u d1" "frame < dp_next d1" using f Cons.prems by (simp_all add: mmco_frame_def)
    show "mmco_post u d (fst flags \<and> dp_short d \<noteq> []) fl' d2"
      if "mmco_post u d1 (fst fl \<and> dp_short d1 \<noteq> []) fl' d2" for fl' d2
    proof -
      have n: "dp_short d1 = [] \<Longrightarrow> dp_short d2 = []" "dp_short d = [] \<Longrightarrow> dp_short d2 = []"
        using that m by (auto simp: mmco_post_def mmco_frame_def dest: list_emb_Nil2 subseq_order.trans)
      show ?thesis using that m n mmco_frame_trans [of u d d1 d2] by (auto simp: mmco_post_def)
    qed
    show "mmco_err u d e d2" if "mmco_err u d1 e d2" for e d2
      using that f by (auto elim: mmco_frame_trans)
  qed
  then have "wp (bnd (mmco_step frame ps c flags) (applyMMCO_loop frame ps cs))
      (mmco_post u d (fst flags \<and> dp_short d \<noteq> [])) (mmco_err u d) d"
    unfolding wp_bnd by (rule wp_conj_mono [OF mmco_step_frame [OF Cons.prems(1) assms(2) Cons.prems(2)]]) auto
  then show ?case
    using mmco_frame_refl [OF Cons.prems(1)]
    by (cases "mmco_Opcode c = mmcoEnd") (simp_all add: wp_ret mmco_post_def [of u d _ flags d])
qed (simp add: wp_simps mmco_frame_refl mmco_post_def)

lemma applyMMCO_frame:
  assumes "refs_inv_of u d" "sh_PictureStructure sh \<in> {1, 2, 3}" "frame < dp_next d"
    and "unat (sh_NBMMCO sh) \<le> length (sh_MMCO sh)"
  shows "wp (applyMMCO frame sh) (mmco_post u d False) (mmco_err u d) d"
  unfolding applyMMCO_def wp_bnd
  by (rule wp_conj_mono [OF applyMMCO_loop_frame [OF assms(1-3)]]) (use assms(4) in \<open>auto simp: wp_simps\<close>)


section \<open>Counting references\<close>

lemma shrinks_longCount: "shrinks d d' \<Longrightarrow> longCount d' \<le> longCount d"
  unfolding shrinks_def longCount_def
proof (elim conjE)
  assume "list_all2 (\<lambda>x y. x = None \<or> x = y) (dp_long d') (dp_long d)"
  then show "length (filter (\<lambda>r. r \<noteq> None) (dp_long d')) \<le> length (filter (\<lambda>r. r \<noteq> None) (dp_long d))"
    by (induction rule: list_all2_induct) auto
qed

lemma shrinks_refCount: "shrinks d d' \<Longrightarrow> refCount d' \<le> refCount d"
  using shrinks_longCount [of d d'] list_emb_length [of "(=)" "dp_short d'" "dp_short d"]
  by (auto simp: refCount_def shrinks_def)

lemma shrinks_heap: "shrinks d d' \<Longrightarrow> dp_heap d' = dp_heap d \<and> dp_next d' = dp_next d \<and> dp_delayed d' = dp_delayed d"
  using refs_only_fields by (simp add: shrinks_def)

lemma removeFirstLong_short [simp]: "dp_short (removeFirstLong d) = dp_short d"
  by (simp add: removeFirstLong_def clear_mask_opt_def clear_long_def split: option.split)

lemma trim_refs_spec:
  assumes "n \<le> 16" "length (dp_short d) \<le> 17"
  shows "length (dp_short (snd (trim_refs n d))) \<le> 16"
    "\<not> fst (trim_refs n d) \<Longrightarrow> snd (trim_refs n d) = d \<and> refCount d \<le> n"
    "fst (trim_refs n d) \<longleftrightarrow> n < refCount d"
  using assms by (auto simp: trim_refs_def refCount_def removeLastShort_def removeShortAtIndex_short)

section \<open>Adding the current picture\<close>

lemma first_index_None: "first_index P xs = None \<longleftrightarrow> (\<forall>x \<in> set xs. \<not> P x)"
  by (induction xs) auto

lemma first_index_Some: "first_index P xs = Some i \<Longrightarrow> i < length xs \<and> P (xs ! i)"
  by (induction xs arbitrary: i) (auto split: if_splits)

lemma removeShortByFrameNum_gone:
  assumes "distinct (map (\<lambda>f. df_frameNum (dp_heap d f)) (dp_short d))"
  shows "\<forall>f \<in> set (dp_short (removeShortByFrameNum n d)). df_frameNum (dp_heap d f) \<noteq> n"
proof (cases "first_index (\<lambda>f. df_frameNum (dp_heap d f) = n) (dp_short d)")
  case (Some i)
  let ?xs = "dp_short d"
  have i: "i < length ?xs" "df_frameNum (dp_heap d (?xs ! i)) = n" using first_index_Some [OF Some] by auto
  have "take i ?xs @ ?xs ! i # drop (i + 1) ?xs = ?xs" using i(1) by (simp add: id_take_nth_drop [symmetric])
  with assms have "distinct (map (\<lambda>f. df_frameNum (dp_heap d f)) (take i ?xs @ ?xs ! i # drop (i + 1) ?xs))" by simp
  then have "n \<notin> set (map (\<lambda>f. df_frameNum (dp_heap d f)) (take i ?xs @ drop (i + 1) ?xs))" using i(2) by auto
  then show ?thesis using Some by (auto simp: removeShortByFrameNum_def removeShortAtIndex_short)
next
  case None
  then have "removeShortByFrameNum n d = d" by (simp add: removeShortByFrameNum_def)
  then show ?thesis using None by (auto simp: first_index_None)
qed

lemma push_short_core:
  assumes "refs_core_of u d" "f < dp_next d"
  shows "refs_core_of u (push_short f d)" "length (dp_short (push_short f d)) \<le> Suc (length (dp_short d))"
    "dp_heap (push_short f d) = dp_heap d" "dp_next (push_short f d) = dp_next d"
    "dp_delayed (push_short f d) = dp_delayed d" "hd (dp_short (push_short f d)) = f" "dp_short (push_short f d) \<noteq> []"
proof -
  let ?d = "removeShortByFrameNum (df_frameNum (dp_heap d f)) d"
  have s: "shrinks d ?d" by simp
  note h = shrinks_heap [OF s]
  have c: "refs_core_of u ?d" using refs_core_shrinks [OF s assms(1)] .
  have "u \<longrightarrow> (\<forall>g \<in> set (dp_short ?d). df_frameNum (dp_heap d g) \<noteq> df_frameNum (dp_heap d f))"
    using removeShortByFrameNum_gone assms(1) by (simp add: refs_core_of_def)
  then have "u \<longrightarrow> df_frameNum (dp_heap d f) \<notin> (\<lambda>g. df_frameNum (dp_heap d g)) ` set (dp_short ?d)" by auto
  then show "refs_core_of u (push_short f d)" using c assms(2) h by (auto simp: push_short_def Let_def refs_core_of_def)
  show "length (dp_short (push_short f d)) \<le> Suc (length (dp_short d))"
    using s by (auto simp: push_short_def Let_def shrinks_def dest: list_emb_length)
qed (use shrinks_heap [OF removeShortByFrameNum_shrinks] in \<open>simp_all add: push_short_def Let_def\<close>)

lemma refs_inv_upd_frame:
  assumes "refs_inv_of u d"
    and "u \<Longrightarrow> f \<in> set (dp_short d) \<Longrightarrow> \<forall>x \<in> set (dp_short d). x \<noteq> f \<longrightarrow> df_frameNum (dp_heap d x) \<noteq> df_frameNum (g (dp_heap d f))"
  shows "refs_inv_of u (upd_frame f g d)"
proof -
  have m: "distinct (map (\<lambda>x. df_frameNum (dp_heap (upd_frame f g d) x)) (dp_short d))" if u
    using assms that by (auto simp: upd_frame_def refs_inv_of_def refs_core_of_def distinct_map inj_on_def)
  have u: "dp_short (upd_frame f g d) = dp_short d" "dp_long (upd_frame f g d) = dp_long d"
    "dp_next (upd_frame f g d) = dp_next d" "dp_refMask (upd_frame f g d) = dp_refMask d"
    by (simp_all add: upd_frame_def)
  show ?thesis using assms(1) m unfolding refs_inv_of_def refs_core_of_def u by blast
qed

definition same_frames :: "simpleFrameDPB \<Rightarrow> simpleFrameDPB \<Rightarrow> bool" where
  "same_frames d d' \<longleftrightarrow> dp_heap d' = dp_heap d \<and> dp_next d' = dp_next d \<and> dp_delayed d' = dp_delayed d"

lemma same_frames_shrinks: "shrinks d d' \<Longrightarrow> same_frames d d'"
  using shrinks_heap by (simp add: same_frames_def)

lemma same_frames_trans: "same_frames a b \<Longrightarrow> same_frames b c \<Longrightarrow> same_frames a c"
  by (simp add: same_frames_def)

lemma same_frames_mask: "same_frames d (setFrameRefMask f m d)"
  using refs_only_fields [OF setFrameRefMask_refs_only] by (simp add: same_frames_def)

lemma mark_current_spec:
  assumes "refs_inv_of u d" "frame < dp_next d" "ps \<in> {1, 2, 3}"
  shows "wp (mark_current frame ps second)
           (\<lambda>_ d'. refs_core_of u d' \<and> length (dp_short d') \<le> 17 \<and> same_frames d d')
           (\<lambda>e d'. e = ErrInvalidData \<and> refs_inv_of u d' \<and> same_frames d d') d"
proof -
  note or = frameRefMask_or [OF assms(1,3), of frame]
  have a: "refs_core_of u (setFrameRefMask frame (frameRefMask frame d OR ps) d)
     \<and> length (dp_short (setFrameRefMask frame (frameRefMask frame d OR ps) d)) \<le> 17"
    using refs_inv_set_mask [OF assms(1) or, of frame] by (auto simp: refs_inv_of_def)
  note c = push_short_core [OF _ assms(2)]
  have r: "refs_core_of u d" "length (dp_short d) \<le> 16" using assms(1) by (auto simp: refs_inv_of_def)
  have b: "refs_core_of u (setFrameRefMask frame (simpleReferenceMask ps) (push_short frame d))"
    using c(1) [OF r(1)] simpleReferenceMask_range [of ps] by (intro refs_core_set_mask) auto
  have e: "length (dp_short (setFrameRefMask frame (simpleReferenceMask ps) (push_short frame d))) \<le> 17"
    using c(2) [OF r(1)] r(2) by simp
  have sf: "same_frames d (setFrameRefMask frame (simpleReferenceMask ps) (push_short frame d))"
    by (rule same_frames_trans [OF _ same_frames_mask]) (use c(3-5) [OF r(1)] in \<open>simp add: same_frames_def\<close>)
  have r0: "same_frames d d" by (simp add: same_frames_def)
  show ?thesis
    using a b e sf r0 same_frames_mask assms(1) by (simp add: wp_def mark_current_def)
qed

lemma max_refs_pos: "1 \<le> dpb_max_refs sps"
  by (simp add: dpb_max_refs_def)

lemma store_reference_spec:
  assumes "refs_inv_of u d" "frame < dp_next d" "sh_PictureStructure sh \<in> {1, 2, 3}"
  shows "wp (store_reference frame sh sps second assigned)
           (\<lambda>_ d'. refs_inv_of u d' \<and> same_frames d d' \<and> refCount d' \<le> dpb_max_refs sps \<and> dpb_max_refs sps \<le> 16)
           (\<lambda>e d'. e \<in> {ErrInvalidData, ErrUnsupported} \<and> refs_inv_of u d' \<and> same_frames d d') d"
proof (cases "dpb_max_refs sps > 16")
  case True
  then show ?thesis using assms(1) by (simp add: store_reference_def Let_def wp_simps same_frames_def)
next
  case False
  let ?E = "\<lambda>e d'. e \<in> {ErrInvalidData, ErrUnsupported} \<and> refs_inv_of u d' \<and> same_frames d d'"
  define d1 where "d1 = (if sh_ExplicitRefMarking sh = 0 \<and> \<not> second \<and> dp_short d \<noteq> [] \<and> refCount d \<ge> dpb_max_refs sps
                      then removeLastShort d else d)"
  have s1: "shrinks d d1" by (simp add: d1_def)
  have i1: "refs_inv_of u d1" "same_frames d d1" "frame < dp_next d1"
    using refs_inv_shrinks [OF s1 assms(1)] same_frames_shrinks [OF s1] assms(2) by (auto simp: same_frames_def)
  have m: "wp (whenM (\<not> assigned) (mark_current frame (sh_PictureStructure sh) second))
      (\<lambda>_ d'. refs_core_of u d' \<and> length (dp_short d') \<le> 17 \<and> same_frames d d') ?E d1"
  proof (cases assigned)
    case True
    then show ?thesis using i1 by (simp add: wp_whenM refs_inv_of_def)
  next
    case False
    have "wp (mark_current frame (sh_PictureStructure sh) second)
      (\<lambda>_ d'. refs_core_of u d' \<and> length (dp_short d') \<le> 17 \<and> same_frames d d') ?E d1"
      by (rule wp_conj_mono [OF mark_current_spec [OF i1(1,3) assms(3)]])
         (use same_frames_trans [OF i1(2)] in auto)
    then show ?thesis using False by (simp add: wp_whenM)
  qed
  have t: "refs_inv_of u d3 \<and> same_frames d d3 \<and> (\<not> fst (trim_refs (dpb_max_refs sps) d2) \<longrightarrow> refCount d3 \<le> dpb_max_refs sps)"
    if "refs_core_of u d2" "length (dp_short d2) \<le> 17" "same_frames d d2"
      and d3: "d3 = removeInvalidGapShortRefs n sps (snd (trim_refs (dpb_max_refs sps) d2))" for d2 d3 n
  proof -
    note tr = trim_refs_spec [of "dpb_max_refs sps", OF _ that(2)]
    have s: "shrinks d2 (snd (trim_refs (dpb_max_refs sps) d2))" "shrinks (snd (trim_refs (dpb_max_refs sps) d2)) d3"
      using trim_refs_shrinks d3 by (auto simp: removeInvalidGapShortRefs_def removeInvalidGap_loop_shrinks)
    have "refs_inv_of u (snd (trim_refs (dpb_max_refs sps) d2))"
      using tr(1) False refs_core_shrinks [OF s(1) that(1)] by (simp add: refs_inv_of_def)
    then show ?thesis
      using s refs_inv_shrinks [OF s(2)] same_frames_shrinks [OF s(1)] same_frames_shrinks [OF s(2)] that(3)
        tr(2) shrinks_refCount [OF s(2)] False
      by (auto intro: same_frames_trans)
  qed
  show ?thesis
    unfolding store_reference_def Let_def if_not_P [OF False] wp_thn wp_upd d1_def [symmetric] wp_bnd
    by (rule wp_conj_mono [OF m]) (use t False in \<open>auto simp: wp_def ret_def fail_def thn_def bnd_def upd_def\<close>)
qed


section \<open>Marking a decoded picture\<close>

text \<open>
  What the caller grants: the frame is allocated, the picture structure is one of the three, the
  commands fit their array (the slice parser guarantees both). With \<open>u\<close>, when the frame is a short-term
  reference already (by its first field), no other one has the \<open>frame_num\<close> of the picture.
\<close>

definition mark_pre :: "bool \<Rightarrow> fref \<Rightarrow> SliceHeader \<Rightarrow> simpleFrameDPB \<Rightarrow> bool" where
  "mark_pre u frame sh d \<longleftrightarrow> frame < dp_next d \<and> sh_PictureStructure sh \<in> {1, 2, 3}
     \<and> unat (sh_NBMMCO sh) \<le> length (sh_MMCO sh)
     \<and> (u \<longrightarrow> frame \<in> set (dp_short d) \<longrightarrow> (\<forall>g \<in> set (dp_short d). g \<noteq> frame \<longrightarrow> df_frameNum (dp_heap d g) \<noteq> sh_FrameNum sh))"

definition kept :: "bool \<Rightarrow> fref \<Rightarrow> simpleFrameDPB \<Rightarrow> simpleFrameDPB \<Rightarrow> bool" where
  "kept u frame d d' \<longleftrightarrow> refs_inv_of u d' \<and> dp_next d' = dp_next d \<and> dp_delayed d' = dp_delayed d
     \<and> (\<forall>f. f \<noteq> frame \<longrightarrow> dp_heap d' f = dp_heap d f)
     \<and> (\<exists>n b. dp_heap d' frame = (dp_heap d frame)\<lparr>df_frameNum := n, df_mmcoReset := b\<rparr>)"

lemma same_update: "f = f\<lparr>df_frameNum := df_frameNum f, df_mmcoReset := df_mmcoReset f\<rparr>"
  by simp

lemma kept_same: "refs_inv_of u d' \<Longrightarrow> same_frames d d' \<Longrightarrow> kept u frame d d'"
  unfolding kept_def same_frames_def by (metis same_update)

lemma kept_trans:
  assumes "kept u f a b" "kept u f b c"
  shows "kept u f a c"
proof -
  obtain n x m y where "dp_heap b f = (dp_heap a f)\<lparr>df_frameNum := n, df_mmcoReset := x\<rparr>"
      "dp_heap c f = (dp_heap b f)\<lparr>df_frameNum := m, df_mmcoReset := y\<rparr>"
    using assms by (auto simp: kept_def)
  then have "dp_heap c f = (dp_heap a f)\<lparr>df_frameNum := m, df_mmcoReset := y\<rparr>" by simp
  then show ?thesis using assms by (auto simp: kept_def)
qed

lemma kept_upd_frame:
  assumes "refs_inv_of u (upd_frame f (\<lambda>x. x\<lparr>df_frameNum := n, df_mmcoReset := b x\<rparr>) d)"
  shows "kept u f d (upd_frame f (\<lambda>x. x\<lparr>df_frameNum := n, df_mmcoReset := b x\<rparr>) d)"
  using assms by (auto simp: kept_def upd_frame_def)

lemma run_mmco_spec:
  assumes "refs_inv_of u d" "sh_PictureStructure sh \<in> {1, 2, 3}" "frame < dp_next d"
    and "unat (sh_NBMMCO sh) \<le> length (sh_MMCO sh)"
  shows "wp (run_mmco frame sh) (\<lambda>_. kept u frame d) (\<lambda>e d'. e \<in> {ErrInvalidData, ErrUnsupported} \<and> kept u frame d d') d"
proof -
  have k: "kept u frame d d'" if "mmco_frame u d d'" for d'
    using that by (intro kept_same) (auto simp: mmco_frame_def same_frames_def)
  have r: "kept u frame d (if b then upd_frame frame (\<lambda>f. f\<lparr>df_frameNum := 0, df_mmcoReset := True\<rparr>) d' else d')"
    if "mmco_post u d False (b, c) d'" for b c d'
  proof (cases b)
    case True
    then have "refs_inv_of u (upd_frame frame (\<lambda>f. f\<lparr>df_frameNum := 0, df_mmcoReset := True\<rparr>) d')"
      using that by (intro refs_inv_upd_frame) (auto simp: mmco_post_def mmco_frame_def)
    from kept_trans [OF k kept_upd_frame [OF this]] that True show ?thesis by (simp add: mmco_post_def)
  qed (use that k in \<open>simp add: mmco_post_def\<close>)
  show ?thesis
  proof (cases "sh_NBMMCO sh = 0")
    case True
    then show ?thesis using assms(1) by (simp add: run_mmco_def wp_simps kept_same same_frames_def)
  next
    case False
    have "wp (applyMMCO frame sh)
       (\<lambda>(b, c) d'. kept u frame d (if b then upd_frame frame (\<lambda>f. f\<lparr>df_frameNum := 0, df_mmcoReset := True\<rparr>) d' else d'))
       (\<lambda>e d'. e \<in> {ErrInvalidData, ErrUnsupported} \<and> kept u frame d d') d"
    proof (rule wp_conj_mono [OF applyMMCO_frame [OF assms]])
      fix fl :: "bool \<times> bool" and d' assume "mmco_post u d False fl d'"
      then show "(\<lambda>(b, c) d'. kept u frame d (if b then upd_frame frame (\<lambda>f. f\<lparr>df_frameNum := 0, df_mmcoReset := True\<rparr>) d' else d')) fl d'"
        using r [of "fst fl" "snd fl" d'] by (cases fl) simp
    qed (use k in auto)
    then show ?thesis
      unfolding run_mmco_def wp_if if_P [OF False] wp_bnd
      by (rule wp_conj_mono) (auto simp: wp_simps split: if_splits)
  qed
qed

lemma mark_body_spec:
  assumes "refs_inv_of u d" "mark_pre u frame sh d"
  shows "wp (mark_body frame sh sps ref)
     (\<lambda>_ d'. kept u frame d d' \<and> (ref \<noteq> 0 \<longrightarrow> refCount d' \<le> dpb_max_refs sps \<and> dpb_max_refs sps \<le> 16))
     (\<lambda>e d'. e \<in> {ErrInvalidData, ErrUnsupported} \<and> kept u frame d d') d"
proof -
  let ?E = "\<lambda>e d'. e \<in> {ErrInvalidData, ErrUnsupported} \<and> kept u frame d d'"
  define d1 where "d1 = upd_frame frame (\<lambda>f. f\<lparr>df_frameNum := sh_FrameNum sh\<rparr>) d"
  define d2 where "d2 = (if sh_NALType sh = NALIDRSlice then resetRefs d1 else d1)"
  have p: "frame < dp_next d" "sh_PictureStructure sh \<in> {1, 2, 3}" "unat (sh_NBMMCO sh) \<le> length (sh_MMCO sh)"
    using assms(2) by (auto simp: mark_pre_def)
  have i1: "refs_inv_of u d1"
    unfolding d1_def using assms by (intro refs_inv_upd_frame) (auto simp: mark_pre_def)
  have k1: "kept u frame d d1"
  proof -
    have "d1 = upd_frame frame (\<lambda>x. x\<lparr>df_frameNum := sh_FrameNum sh, df_mmcoReset := df_mmcoReset x\<rparr>) d"
      by (simp add: d1_def)
    then show ?thesis using kept_upd_frame [where f = frame and n = "sh_FrameNum sh" and b = df_mmcoReset and d = d] i1 by simp
  qed
  have s2: "shrinks d1 d2" by (simp add: d2_def)
  have i2: "refs_inv_of u d2" using refs_inv_shrinks [OF s2 i1] .
  have k2: "kept u frame d d2" using kept_trans [OF k1 kept_same [OF i2 same_frames_shrinks [OF s2]]] .
  have n2: "frame < dp_next d2" using k2 p(1) by (simp add: kept_def)
  have st: "wp (if ref = 0 then ret () else store_reference frame sh sps second a)
     (\<lambda>_ d'. kept u frame d d' \<and> (ref \<noteq> 0 \<longrightarrow> refCount d' \<le> dpb_max_refs sps \<and> dpb_max_refs sps \<le> 16)) ?E d3"
    if "kept u frame d d3" for d3 second a
  proof (cases "ref = 0")
    case False
    have "refs_inv_of u d3" "frame < dp_next d3" using that p(1) by (simp_all add: kept_def)
    from store_reference_spec [OF this p(2), of sps second a] False show ?thesis
      by (simp del: insert_iff) (erule wp_conj_mono; use kept_trans [OF that kept_same] in blast)
  qed (use that in \<open>simp add: wp_simps\<close>)
  have rm: "wp (run_mmco frame sh) (\<lambda>a. kept u frame d) ?E d2"
    by (rule wp_conj_mono [OF run_mmco_spec [OF i2 p(2) n2 p(3)]]) (use kept_trans [OF k2] in auto)
  have "wp (bnd (run_mmco frame sh) (\<lambda>a. if ref = 0 then ret () else store_reference frame sh sps second a))
     (\<lambda>_ d'. kept u frame d d' \<and> (ref \<noteq> 0 \<longrightarrow> refCount d' \<le> dpb_max_refs sps \<and> dpb_max_refs sps \<le> 16)) ?E d2" for second
    unfolding wp_bnd
    by (rule wp_conj_mono [OF rm]) (use st in blast)+
  note w = this [of "is_second_field frame sh d1 \<and> sh_NALType sh \<noteq> NALIDRSlice", unfolded wp_bnd d2_def]
  show ?thesis
    unfolding mark_body_def wp_thn wp_upd d1_def [symmetric] wp_bnd wp_gets Let_def wp_whenM
    using w by (cases "sh_NALType sh = NALIDRSlice") (simp_all only: if_True if_False simp_thms)
qed

lemma finish_kept: "kept u f d d' \<Longrightarrow> kept u f d (finishFramePOC r d')"
  by (simp add: kept_def finishFramePOC_def) (simp add: upd_poc_def)

lemma finish_refCount: "refCount (finishFramePOC r d) = refCount d"
  by (simp add: finishFramePOC_def upd_poc_def refCount_def longCount_def)

lemma markDecodedFrame_cases:
  assumes "refs_inv_of u d" "mark_pre u frame sh d"
  shows "case markDecodedFrame frame sh ref d of (r, d') \<Rightarrow> kept u frame d d'
     \<and> (case r of Inl e \<Rightarrow> e \<in> {ErrInvalidData, ErrUnsupported}
        | Inr _ \<Rightarrow> (case sh_SPS sh of None \<Rightarrow> False
            | Some sps \<Rightarrow> if ref = 0 then True else refCount d' \<le> dpb_max_refs sps \<and> dpb_max_refs sps \<le> 16))"
proof (cases "sh_SPS sh")
  case None
  then show ?thesis using assms(1) by (simp add: markDecodedFrame_def kept_same same_frames_def)
next
  case (Some sps)
  show ?thesis
    using mark_body_spec [OF assms, of sps ref] Some
    by (auto simp: markDecodedFrame_def wp_def finish_refCount intro: finish_kept split: prod.splits sum.splits)
qed


section \<open>The sliding window\<close>

lemma first_index_none: "list_all (\<lambda>x. \<not> P x) xs \<Longrightarrow> first_index P xs = None"
  by (induction xs) auto

lemma gap_loop_idle:
  "list_all (\<lambda>f. \<not> df_invalidGap (dp_heap d f)) (dp_short d) \<Longrightarrow> removeInvalidGap_loop n sps i d = d"
proof (induction "length (dp_short d) - i" arbitrary: i rule: less_induct)
  case less
  show ?case
  proof (cases "i < length (dp_short d)")
    case True
    then have "\<not> df_invalidGap (dp_heap d (dp_short d ! i))" using less.prems by (auto simp: list_all_length)
    then have "\<not> gap_stale n sps (dp_heap d (dp_short d ! i))" by (simp add: gap_stale_def)
    then show ?thesis using less.hyps [of "i + 1"] True less.prems by (subst gap_loop_step) simp
  qed (subst gap_loop_step, simp)
qed

text \<open>
  A reference picture that the sliding window takes: a frame or a first field (its frame is no reference
  yet), not an IDR picture, without marking commands, \<open>frame_num\<close> new among the short-term references,
  none of them (nor the frame) filled in for an invalid gap.
\<close>

definition slides :: "SPS \<Rightarrow> nat \<Rightarrow> fref \<times> SliceHeader \<Rightarrow> simpleFrameDPB \<Rightarrow> bool" where
  "slides sps longs = (\<lambda>(frame, sh) d. sh_SPS sh = Some sps \<and> \<not> frameIsShort frame d \<and> \<not> frameIsLong frame d
     \<and> sh_NALType sh \<noteq> NALIDRSlice \<and> sh_NBMMCO sh = 0
     \<and> sh_ExplicitRefMarking sh = 0 \<and> dpb_max_refs sps \<le> simpleMaxShortRefs \<and> refCount d \<le> dpb_max_refs sps
     \<and> longCount d = longs \<and> list_all (\<lambda>f. df_frameNum (dp_heap d f) \<noteq> sh_FrameNum sh) (dp_short d)
     \<and> list_all (\<lambda>f. \<not> df_invalidGap (dp_heap d f)) (frame # dp_short d))"

definition mark_reference :: "fref \<times> SliceHeader \<Rightarrow> simpleFrameDPB \<Rightarrow> simpleFrameDPB" where
  "mark_reference = (\<lambda>(frame, sh) d. snd (markDecodedFrame frame sh 1 d))"

lemma longCount_cong: "dp_long d = dp_long d' \<Longrightarrow> longCount d = longCount d'"
  by (simp add: longCount_def)

lemma finish_short: "dp_short (finishFramePOC r d) = dp_short d" "dp_long (finishFramePOC r d) = dp_long d"
  by (simp_all add: finishFramePOC_def upd_poc_def)

lemma slide_once:
  assumes "slides sps longs (frame, sh) d"
  shows "dp_short (mark_reference (frame, sh) d) = take (dpb_max_refs sps - longs) (frame # dp_short d)"
    "dp_long (mark_reference (frame, sh) d) = dp_long d"
    "fst (markDecodedFrame frame sh 1 d) = (if longs < dpb_max_refs sps then Inr () else Inl ErrInvalidData)"
proof -
  let ?M = "dpb_max_refs sps"
  have a: "sh_SPS sh = Some sps" "\<not> frameIsShort frame d \<and> \<not> frameIsLong frame d" "sh_NALType sh \<noteq> NALIDRSlice"
      "sh_NBMMCO sh = 0" "sh_ExplicitRefMarking sh = 0" "\<not> ?M > simpleMaxShortRefs" "refCount d \<le> ?M" "longCount d = longs"
      "list_all (\<lambda>f. df_frameNum (dp_heap d f) \<noteq> sh_FrameNum sh) (dp_short d)"
      "list_all (\<lambda>f. \<not> df_invalidGap (dp_heap d f)) (frame # dp_short d)"
    using assms by (auto simp: slides_def)
  define d1 where "d1 = upd_frame frame (\<lambda>f. f\<lparr>df_frameNum := sh_FrameNum sh\<rparr>) d"
  have u: "dp_short d1 = dp_short d" "dp_long d1 = dp_long d" "df_frameNum (dp_heap d1 frame) = sh_FrameNum sh"
    "\<And>f. df_invalidGap (dp_heap d1 f) = df_invalidGap (dp_heap d f)"
    "\<And>f. f \<noteq> frame \<Longrightarrow> dp_heap d1 f = dp_heap d f"
    by (simp_all add: d1_def upd_frame_def)
  have fr: "frame \<notin> set (dp_short d)" using a(2) by (auto simp: frameIsShort_def list_ex_iff)
  define d2 where "d2 = (if dp_short d1 \<noteq> [] \<and> refCount d1 \<ge> ?M then removeLastShort d1 else d1)"
  have s2: "shrinks d1 d2" by (simp add: d2_def)
  have l2: "dp_long d2 = dp_long d" by (simp add: d2_def removeLastShort_def removeShortAtIndex_def u)
  have sh2: "dp_short d2 = (if dp_short d \<noteq> [] \<and> refCount d \<ge> ?M then butlast (dp_short d) else dp_short d)"
    by (simp add: d2_def u removeLastShort_def removeShortAtIndex_short butlast_conv_take refCount_def longCount_def)
  have sub: "set (dp_short d2) \<subseteq> set (dp_short d)" using sh2 by (auto dest: in_set_butlastD)
  have nf: "list_all (\<lambda>f. df_frameNum (dp_heap d2 f) \<noteq> df_frameNum (dp_heap d2 frame)) (dp_short d2)"
    using sub a(9) fr u(3,5) shrinks_heap [OF s2] by (auto simp: list_all_iff) (metis subsetD)
  define d3 where "d3 = setFrameRefMask frame (simpleReferenceMask (sh_PictureStructure sh)) (push_short frame d2)"
  have p3: "dp_short d3 = frame # dp_short d2" "dp_long d3 = dp_long d" "dp_heap d3 = dp_heap d1"
    using first_index_none [OF nf] shrinks_heap [OF s2]
    by (simp_all add: d3_def push_short_def removeShortByFrameNum_def l2)
  define d4 where "d4 = snd (trim_refs ?M d3)"
  have n3: "refCount d3 = Suc (length (dp_short d2)) + longs"
    using p3(1,2) a(8) by (simp add: refCount_def longCount_def)
  have n: "length (dp_short d) + longs \<le> ?M" using a(7,8) by (simp add: refCount_def)
  have o: "fst (trim_refs ?M d3) \<longleftrightarrow> \<not> longs < ?M"
    using n3 n sh2 by (auto simp: trim_refs_def refCount_def a(8))
  have s4: "dp_short d4 = take (?M - longs) (frame # dp_short d)"
  proof (cases "longs < ?M")
    case True
    then have "\<not> refCount d3 > ?M" using o trim_refs_spec(3) [of ?M d3] n3 by (simp add: trim_refs_def split: if_splits)
    then have "d4 = d3" by (simp add: d4_def trim_refs_def)
    then show ?thesis
    proof (cases "dp_short d \<noteq> [] \<and> refCount d \<ge> ?M")
      case c: True
      then have "length (dp_short d) = ?M - longs" "0 < ?M - longs" using n a(8) by (auto simp: refCount_def)
      then obtain k where k: "?M - longs = Suc k" "length (dp_short d) = Suc k" by (cases "?M - longs") auto
      have "dp_short d2 = take k (dp_short d)" using sh2 c k(2) by (simp add: butlast_conv_take)
      then show ?thesis using \<open>d4 = d3\<close> p3(1) k(1) by simp
    next
      case c: False
      then have "length (dp_short d) < ?M - longs" using True n a(8) by (auto simp: refCount_def)
      moreover have "dp_short d2 = dp_short d" using sh2 if_not_P [OF c] by metis
      ultimately show ?thesis using \<open>d4 = d3\<close> p3(1) by simp
    qed
  next
    case False
    then have "length (dp_short d) = 0" "?M - longs = 0" using n by linarith+
    then have e: "dp_short d = []" "?M - longs = 0" by auto
    then have "refCount d3 > ?M" using n3 False by simp
    then have "d4 = removeLastShort d3" using p3(1) by (simp add: d4_def trim_refs_def)
    then show ?thesis using e p3(1) sh2 by (simp add: removeLastShort_def removeShortAtIndex_short)
  qed
  have l4: "dp_long d4 = dp_long d"
  proof -
    have "dp_short d3 \<noteq> []" using p3(1) by simp
    then show ?thesis by (simp add: d4_def trim_refs_def removeLastShort_def removeShortAtIndex_def p3(2))
  qed
  have h4: "dp_heap d4 = dp_heap d1" using shrinks_heap [OF trim_refs_shrinks [of d3 ?M]] p3(3) by (simp add: d4_def)
  have "list_all (\<lambda>f. \<not> df_invalidGap (dp_heap d4 f)) (dp_short d4)"
    using a(10) set_take_subset [of "?M - longs" "frame # dp_short d"] unfolding s4 h4 by (auto simp: list_all_iff u(4) dest: in_set_takeD)
  then have g: "removeInvalidGapShortRefs m sps d4 = d4" for m
    by (simp add: removeInvalidGapShortRefs_def gap_loop_idle)
  have r: "markDecodedFrame frame sh 1 d = (if longs < ?M then Inr () else Inl ErrInvalidData, finishFramePOC 1 d4)"
  proof -
    have ns: "\<not> is_second_field frame sh d1" using a(2) by (simp add: is_second_field_def frameIsShort_def frameIsLong_def u)
    have st: "store_reference frame sh sps False False d1 = (if longs < ?M then Inr () else Inl ErrInvalidData, d4)"
      unfolding store_reference_def Let_def if_not_P [OF a(6)]
      using o a(5) g by (simp add: thn_def bnd_def upd_def whenM_def mark_current_def ret_def fail_def
          d2_def [symmetric] d3_def [symmetric] d4_def [symmetric])
    show ?thesis
      using ns a(1,3,4) st
      by (simp add: markDecodedFrame_def mark_body_def thn_def bnd_def upd_def gets_def whenM_def ret_def run_mmco_def d1_def [symmetric] Let_def)
  qed
  show "dp_short (mark_reference (frame, sh) d) = take (?M - longs) (frame # dp_short d)"
    "dp_long (mark_reference (frame, sh) d) = dp_long d"
    "fst (markDecodedFrame frame sh 1 d) = (if longs < ?M then Inr () else Inl ErrInvalidData)"
    using s4 l4 by (simp_all add: mark_reference_def r finish_short)
qed


text \<open>
  The abstract specification: a window of bounded size over the items pushed, the newest first.
  An item may be pushed when \<open>ok\<close> admits it.
\<close>

fun seq_ok :: "('x \<Rightarrow> 's \<Rightarrow> bool) \<Rightarrow> ('x \<Rightarrow> 's \<Rightarrow> 's) \<Rightarrow> 'x list \<Rightarrow> 's \<Rightarrow> bool" where
  "seq_ok ok push [] s = True"
| "seq_ok ok push (x # xs) s = (ok x s \<and> seq_ok ok push xs (push x s))"

locale sliding_window =
  fixes ok :: "'x \<Rightarrow> 's \<Rightarrow> bool" and push :: "'x \<Rightarrow> 's \<Rightarrow> 's" and contents :: "'s \<Rightarrow> 'y list"
    and item :: "'x \<Rightarrow> 'y" and cap :: nat
  assumes push_contents: "ok x s \<Longrightarrow> contents (push x s) = take cap (item x # contents s)"
begin

lemma window:
  assumes "seq_ok ok push xs s" "length (contents s) \<le> cap"
  shows "contents (fold push xs s) = take cap (rev (map item xs) @ contents s)"
  using assms
proof (induction xs arbitrary: s)
  case (Cons x xs)
  have c: "contents (push x s) = take cap (item x # contents s)" using push_contents Cons.prems(1) by simp
  have "contents (fold push (x # xs) s) = take cap (rev (map item xs) @ take cap (item x # contents s))"
    using Cons.IH [of "push x s"] Cons.prems(1) c by simp
  also have "\<dots> = take cap (rev (map item xs) @ item x # contents s)"
    by (simp add: take_append)
  finally show ?case by simp
qed simp

end

interpretation reference_window: sliding_window "slides sps longs" mark_reference dp_short fst "dpb_max_refs sps - longs"
  for sps longs
proof
  fix x d assume "slides sps longs x d"
  then show "dp_short (mark_reference x d) = take (dpb_max_refs sps - longs) (fst x # dp_short d)"
    using slide_once(1) [of sps longs "fst x" "snd x" d] by simp
qed


section \<open>Properties\<close>

text \<open>The references as the code needs them, and their numbers.\<close>

definition refs_ok :: "simpleFrameDPB \<Rightarrow> bool" where
  "refs_ok d \<longleftrightarrow> refs_inv_of False d"

definition nums_distinct :: "simpleFrameDPB \<Rightarrow> bool" where
  "nums_distinct d \<longleftrightarrow> distinct (map (\<lambda>f. df_frameNum (dp_heap d f)) (dp_short d))"

definition num_free :: "fref \<Rightarrow> u32 \<Rightarrow> simpleFrameDPB \<Rightarrow> bool" where
  "num_free frame n d \<longleftrightarrow> (\<forall>g \<in> set (dp_short d). g \<noteq> frame \<longrightarrow> df_frameNum (dp_heap d g) \<noteq> n)"

lemma refs_inv_distinct: "refs_inv_of True d \<longleftrightarrow> refs_inv_of False d \<and> nums_distinct d"
  by (auto simp: refs_inv_of_def refs_core_of_def nums_distinct_def)

text \<open>
  C23. Marking a picture keeps the decoded picture buffer consistent, whatever the marking commands are and
  whatever \<open>frame_num\<close> values the frames have: at most 16 short-term references and 16 places for long-term
  ones, every reference an allocated frame with a mask of one or both fields; only the current frame is
  written, and only its \<open>frame_num\<close> and reset mark. The result is success or one of the two errors, never a
  panic (the indices of the commands are checked against the array of long-term references). Short-term
  references with different \<open>frame_num\<close> values stay so, unless the picture is a second field, its frame a
  short-term reference already, and another one has the picture's \<open>frame_num\<close>. What is asked of the caller:
  the frame is allocated, and the header has a picture structure and a number of commands that its array holds.
\<close>

theorem markDecodedFrame_invariant:
  assumes "refs_ok d" "frame < dp_next d" "sh_PictureStructure sh \<in> {1, 2, 3}" "unat (sh_NBMMCO sh) \<le> length (sh_MMCO sh)"
    and "markDecodedFrame frame sh ref d = (r, d')"
  shows "refs_ok d' \<and> dp_next d' = dp_next d \<and> dp_delayed d' = dp_delayed d
    \<and> (\<forall>f. f = frame \<or> dp_heap d' f = dp_heap d f)
    \<and> (\<exists>n b. dp_heap d' frame = (dp_heap d frame)\<lparr>df_frameNum := n, df_mmcoReset := b\<rparr>)
    \<and> r \<in> {Inr (), Inl ErrInvalidData, Inl ErrUnsupported}
    \<and> (nums_distinct d \<and> (frame \<in> set (dp_short d) \<longrightarrow> num_free frame (sh_FrameNum sh) d) \<longrightarrow> nums_distinct d')"
proof -
  have f: "refs_inv_of False d" "mark_pre False frame sh d"
    using assms(1-4) by (simp_all add: refs_ok_def mark_pre_def)
  have t: "refs_inv_of True d \<and> mark_pre True frame sh d"
    if "nums_distinct d" "frame \<in> set (dp_short d) \<longrightarrow> num_free frame (sh_FrameNum sh) d"
    using assms(1-4) that by (simp add: refs_ok_def refs_inv_distinct mark_pre_def num_free_def)
  have "nums_distinct d'" if "refs_inv_of True d" "mark_pre True frame sh d"
    using markDecodedFrame_cases [OF that, of ref] assms(5) by (auto simp: kept_def refs_inv_distinct split: sum.splits)
  then show ?thesis
    using markDecodedFrame_cases [OF f, of ref] assms(5) t by (auto simp: kept_def refs_ok_def split: sum.splits)
qed

text \<open>
  C24. The bound the parameter set puts on the references: when marking a reference picture
  succeeds, short-term and long-term references together are at most
  \<open>max(1, max_num_ref_frames)\<close>, and that is at most 16. What is asked of the caller
  is what C23 asks: references within their bounds, the frame allocated, a picture structure, and a number of
  commands that the header's array holds.
\<close>

theorem markDecodedFrame_bounded:
  assumes "refs_ok d" "frame < dp_next d" "sh_PictureStructure sh \<in> {1, 2, 3}" "unat (sh_NBMMCO sh) \<le> length (sh_MMCO sh)"
    and "sh_SPS sh = Some sps" "ref \<noteq> 0" "markDecodedFrame frame sh ref d = (Inr (), d')"
  shows "length (dp_short d') + longCount d' \<le> max 1 (unat (sps_RefFrameCount sps))
    \<and> max 1 (unat (sps_RefFrameCount sps)) \<le> 16"
proof -
  have f: "refs_inv_of False d" "mark_pre False frame sh d"
    using assms(1-4) by (simp_all add: refs_ok_def mark_pre_def)
  show ?thesis
    using markDecodedFrame_cases [OF f, of ref] assms(5-7) by (auto simp: refCount_def dpb_max_refs_def split: if_splits)
qed

text \<open>
  C25. The sliding window: the short-term references are a window on the decoded reference pictures. After any
  sequence of pictures that each satisfy \<open>slides\<close> in the state they meet, \<open>short\<close> holds the latest frames,
  newest first, as many as the parameter set allows beside the long-term references. \<open>slides\<close> asks of a
  picture that it is a reference, a frame or the first field of one, not an IDR picture, without marking
  commands and without explicit marking, that its \<open>frame_num\<close> is new among the short-term references, and
  that no frame filled in for an invalid gap is involved; and of the sequence one parameter set of at most 16
  references, never exceeded, and a fixed number of long-term references.
\<close>

theorem sliding_window_refines:
  assumes "seq_ok (slides sps longs) mark_reference pics d"
    and "length (dp_short d) \<le> dpb_max_refs sps - longs"
  shows "dp_short (fold mark_reference pics d)
    = take (dpb_max_refs sps - longs) (rev (map fst pics) @ dp_short d)"
  using assms by (rule reference_window.window)

section \<open>Examples\<close>

definition demo_dpb :: simpleFrameDPB where
  "demo_dpb = (dpb_zero (\<lambda>f. frame_init\<lparr>df_frameNum := word_of_nat f\<rparr>) 3)\<lparr>dp_short := [1, 2]\<rparr>"

definition demo_sh :: SliceHeader where
  "demo_sh = sh_init\<lparr>sh_SPS := Some demo_sps, sh_PictureStructure := PictureFrame\<rparr>"

lemma demo_dpb_ok: "refs_inv demo_dpb" "mark_pre True 0 demo_sh demo_dpb" "slides demo_sps 0 (0, demo_sh) demo_dpb"
  by (simp_all add: frameIsShort_def frameIsLong_def list_ex_iff demo_dpb_def dpb_zero_def refs_inv_def refs_core_def masks_ok_def mark_pre_def demo_sh_def
      sh_init_def slides_def dpb_max_refs_def refCount_def longCount_def demo_sps_def sps_init_def frame_init_def)

lemma demo_window: "dp_short (mark_reference (0, demo_sh) demo_dpb) = [0, 1]"
    "fst (markDecodedFrame 0 demo_sh 1 demo_dpb) = Inr ()"
  using slide_once(1,3) [OF demo_dpb_ok(3)]
  by (simp_all add: demo_dpb_def dpb_max_refs_def demo_sps_def sps_init_def dpb_zero_def)

lemma demo_dpb_ready: "refs_ok demo_dpb" "0 < dp_next demo_dpb" "sh_PictureStructure demo_sh \<in> {1, 2, 3}"
    "unat (sh_NBMMCO demo_sh) \<le> length (sh_MMCO demo_sh)" "nums_distinct demo_dpb" "0 \<notin> set (dp_short demo_dpb)"
  using demo_dpb_ok by (simp_all add: refs_ok_def refs_inv_distinct mark_pre_def) (simp add: demo_dpb_def dpb_zero_def)

lemma markDecodedFrame_invariant_witness:
  "refs_ok (snd (markDecodedFrame 0 demo_sh 1 demo_dpb)) \<and> nums_distinct (snd (markDecodedFrame 0 demo_sh 1 demo_dpb))"
  using markDecodedFrame_invariant [OF demo_dpb_ready(1-4), of 1] demo_dpb_ready(5,6) by (cases "markDecodedFrame 0 demo_sh 1 demo_dpb") auto

lemma markDecodedFrame_bounded_witness:
  "length (dp_short (snd (markDecodedFrame 0 demo_sh 1 demo_dpb))) \<le> 2"
  using markDecodedFrame_bounded [OF demo_dpb_ready(1-4), of demo_sps 1] demo_window(2)
  by (cases "markDecodedFrame 0 demo_sh 1 demo_dpb") (auto simp: demo_sh_def demo_sps_def sps_init_def)

lemma sliding_window_refines_witness:
  "dp_short (fold mark_reference [(0, demo_sh)] demo_dpb) = [0, 1]"
  using sliding_window_refines [of demo_sps 0 "[(0, demo_sh)]" demo_dpb] demo_dpb_ok(3)
  by (simp add: demo_dpb_def dpb_max_refs_def demo_sps_def sps_init_def dpb_zero_def)

section \<open>A second field that is lost\<close>

text \<open>
  A second field whose marking commands are one: release the first field, as the standard allows.
  The first field left the frame among the short-term references with a mask for its own parity.
\<close>

definition releases_first :: "fref \<Rightarrow> SliceHeader \<Rightarrow> simpleFrameDPB \<Rightarrow> bool" where
  "releases_first frame sh d \<longleftrightarrow>
     sh_PictureStructure sh \<in> {PictureTopField, PictureBottomField}
     \<and> frameIsShort frame d \<and> \<not> frameIsLong frame d
     \<and> dp_refMask d frame = Some (simpleOppositeField (sh_PictureStructure sh))
     \<and> sh_NALType sh \<noteq> NALIDRSlice \<and> sh_NBMMCO sh = 1
     \<and> (case sh_MMCO sh of [] \<Rightarrow> False | c # _ \<Rightarrow> mmco_Opcode c = mmcoShort2Unused
          \<and> simplePicNumExtract (sh_PictureStructure sh) (mmco_ShortPicNum c)
              = (sh_FrameNum sh, simpleOppositeField (sh_PictureStructure sh)))"

lemma first_index_here:
  assumes "distinct xs" "i < length xs" "\<And>x. x \<in> set xs \<Longrightarrow> P x \<longleftrightarrow> x = xs ! i"
  shows "first_index P xs = Some i"
  using assms
proof (induction xs arbitrary: i)
  case (Cons x xs)
  show ?case
  proof (cases i)
    case 0
    then show ?thesis using Cons.prems(3) [of x] by simp
  next
    case (Suc j)
    then have "xs ! j \<noteq> x" using Cons.prems(1,2) by (metis Suc_less_eq distinct.simps(2) length_Cons nth_mem)
    then have "\<not> P x" using Cons.prems(3) [of x] Suc by auto
    moreover have "first_index P xs = Some j"
      using Cons.prems Suc by (intro Cons.IH) (auto dest: Cons.prems(3))
    ultimately show ?thesis using Suc by simp
  qed
qed simp

lemma gap_loop_mask:
  "f \<notin> set (dp_short d) \<Longrightarrow> Some f \<notin> set (dp_long d)
     \<Longrightarrow> f \<notin> set (dp_short (removeInvalidGap_loop n sps i d)) \<and> Some f \<notin> set (dp_long (removeInvalidGap_loop n sps i d))
       \<and> dp_refMask (removeInvalidGap_loop n sps i d) f = dp_refMask d f"
proof (induction "length (dp_short d) - i" arbitrary: i d rule: less_induct)
  case less
  show ?case
  proof (cases "i < length (dp_short d)")
    case True
    then have l: "length (dp_short (removeShortAtIndex i d)) - i < length (dp_short d) - i"
        "length (dp_short d) - (i + 1) < length (dp_short d) - i"
      by (auto simp: removeShortAtIndex_short)
    have m: "dp_refMask (removeShortAtIndex i d) f = dp_refMask d f"
      using True less.prems(1) nth_mem [of i "dp_short d"]
      by (auto simp: removeShortAtIndex_def clearFrameRefMaskIfUnreferenced_def setFrameRefMask_def)
    have s: "f \<notin> set (dp_short (removeShortAtIndex i d))" "Some f \<notin> set (dp_long (removeShortAtIndex i d))"
      using less.prems by (auto simp: removeShortAtIndex_short removeShortAtIndex_def dest: in_set_takeD in_set_dropD)
    show ?thesis
      unfolding gap_loop_step [of n sps i d] if_P [OF True]
      using less.hyps [OF l(1) s] less.hyps [OF l(2) less.prems] m by simp
  qed (use less.prems in \<open>simp add: gap_loop_step [of n sps i d]\<close>)
qed

text \<open>The command takes the frame off the list: its mask was the first field alone.\<close>

lemma release_first:
  assumes "distinct (dp_short d)" "i < length (dp_short d)" "dp_short d ! i = frame" "Some frame \<notin> set (dp_long d)"
    and "df_frameNum (dp_heap d frame) = n" "\<forall>g \<in> set (dp_short d). g \<noteq> frame \<longrightarrow> df_frameNum (dp_heap d g) \<noteq> n"
    and "dp_refMask d frame = Some m" "m = 1 \<or> m = 2"
  shows "let d' = removeShortByFrameNumAndStructure n m d in
    dp_short d' = take i (dp_short d) @ drop (i + 1) (dp_short d) \<and> dp_long d' = dp_long d
    \<and> dp_heap d' = dp_heap d \<and> dp_refMask d' frame = None"
proof -
  let ?P = "\<lambda>f. df_frameNum (dp_heap d f) = n \<and> frameHasReferenceStructure f m d"
  have fm: "frameRefMask frame d = m" using assms(7) by (simp add: frameRefMask_def)
  have hs: "frameHasReferenceStructure frame m d"
    using assms(8) by (auto simp: frameHasReferenceStructure_def fm)
  have x: "first_index ?P (dp_short d) = Some i"
    by (rule first_index_here [OF assms(1,2)]) (use assms(3,5,6) hs in auto)
  have z: "frameRefMask frame d AND NOT m = 0" using fm by simp
  have n: "frame \<notin> set (take i (dp_short d) @ drop (i + 1) (dp_short d))"
    using assms(1-3) id_take_nth_drop [OF assms(2)] distinct_append
    by (metis (no_types, lifting) Un_iff add.commute append_Cons disjoint_insert(2) distinct.simps(2) distinct_append
        insert_disjoint(2) list.simps(15) plus_1_eq_Suc set_append)
  show ?thesis
    using x z n assms(2-4,8)
    by (auto simp: removeShortByFrameNumAndStructure_def removeShortAtIndex_def Let_def
        clearFrameRefMaskIfUnreferenced_def setFrameRefMask_def frameIsShort_def frameIsLong_def list_ex_iff)
qed

lemma lost_store:
  assumes "frame \<notin> set (dp_short d)" "Some frame \<notin> set (dp_long d)" "refCount d \<le> dpb_max_refs sps" "dpb_max_refs sps \<le> 16"
    and "sh_PictureStructure sh = 1 \<or> sh_PictureStructure sh = 2"
  shows "case store_reference frame sh sps True False d of (r, d') \<Rightarrow>
     r = Inr () \<and> frame \<notin> set (dp_short d') \<and> Some frame \<notin> set (dp_long d') \<and> dp_refMask d' frame \<noteq> None"
proof -
  define e where "e = setFrameRefMask frame (frameRefMask frame d OR sh_PictureStructure sh) d"
  have o: "frameRefMask frame d OR sh_PictureStructure sh \<noteq> 0"
    using assms(5) by (auto simp: or_eq_0_iff)
  have e: "dp_short e = dp_short d" "dp_long e = dp_long d" "dp_refMask e frame \<noteq> None"
    using o by (simp_all add: e_def) (simp add: setFrameRefMask_def)
  have "refCount e = refCount d" using e by (simp add: refCount_def longCount_def)
  then have t: "trim_refs (dpb_max_refs sps) e = (False, e)" using assms(3) by (simp add: trim_refs_def)
  have h: "dp_short d \<noteq> [] \<Longrightarrow> dp_short d ! 0 \<noteq> frame" using assms(1) nth_mem [of 0 "dp_short d"] by auto
  have "store_reference frame sh sps True False d = (Inr (), removeInvalidGapShortRefs (df_frameNum (dp_heap e frame)) sps e)"
    using assms(2,4) h t
    by (simp add: store_reference_def step_simps mark_current_def e_def [symmetric] frameIsLong_def list_ex_iff Let_def)
  then show ?thesis
    using gap_loop_mask [of frame e] assms(1,2) e by (simp add: removeInvalidGapShortRefs_def)
qed

lemma run_mmco_one:
  assumes "sh_NBMMCO sh = 1" "sh_MMCO sh = c # cs" "mmco_Opcode c = mmcoShort2Unused"
    and "simplePicNumExtract (sh_PictureStructure sh) (mmco_ShortPicNum c) = (n, m)"
  shows "run_mmco frame sh d = (Inr False, removeShortByFrameNumAndStructure n m d)"
  using assms by (simp add: run_mmco_def applyMMCO_def mmco_step_def step_simps)

text \<open>
  C26. A second reference field whose own marking command releases the first field of its frame is not kept.
  For every buffer within its bounds in which the frame is a short-term reference by the first field, once and
  with a \<open>frame_num\<close> of its own, and every such second field (not of an IDR picture, that one command):
  \<open>markDecodedFrame\<close> reports success, yet the frame is in neither list of references - while a mask for it is
  left behind. FFmpeg inserts the frame again in this case.
\<close>

theorem second_field_lost:
  assumes "sh_SPS sh = Some sps" "releases_first frame sh d" "ref \<noteq> 0"
    and "distinct (dp_short d)" "num_free frame (sh_FrameNum sh) d"
    and "refCount d \<le> dpb_max_refs sps" "dpb_max_refs sps \<le> 16"
    and "markDecodedFrame frame sh ref d = (r, d')"
  shows "r = Inr () \<and> \<not> frameIsShort frame d' \<and> \<not> frameIsLong frame d' \<and> dp_refMask d' frame \<noteq> None"
proof -
  let ?ps = "sh_PictureStructure sh"
  define m where "m = simpleOppositeField ?ps"
  obtain c cs where c: "sh_MMCO sh = c # cs" "mmco_Opcode c = mmcoShort2Unused"
      "simplePicNumExtract ?ps (mmco_ShortPicNum c) = (sh_FrameNum sh, m)"
    using assms(2) by (auto simp: releases_first_def m_def split: list.splits)
  have f: "?ps = 1 \<or> ?ps = 2" "frame \<in> set (dp_short d)" "Some frame \<notin> set (dp_long d)" "dp_refMask d frame = Some m"
      "sh_NALType sh \<noteq> NALIDRSlice" "sh_NBMMCO sh = 1"
    using assms(2) by (auto simp: releases_first_def m_def frameIsShort_def frameIsLong_def list_ex_iff)
  have m: "m = 1 \<or> m = 2" using f(1) by (auto simp: m_def simpleOppositeField_def)
  define d1 where "d1 = upd_frame frame (\<lambda>f. f\<lparr>df_frameNum := sh_FrameNum sh\<rparr>) d"
  have u: "dp_short d1 = dp_short d" "dp_long d1 = dp_long d" "dp_refMask d1 = dp_refMask d"
      "df_frameNum (dp_heap d1 frame) = sh_FrameNum sh" "\<forall>g. g \<noteq> frame \<longrightarrow> dp_heap d1 g = dp_heap d g"
    by (simp_all add: d1_def upd_frame_def)
  define d2 where "d2 = removeShortByFrameNumAndStructure (sh_FrameNum sh) m d1"
  obtain i where i: "i < length (dp_short d)" "dp_short d ! i = frame" using f(2) by (auto simp: in_set_conv_nth)
  have d2: "dp_short d2 = take i (dp_short d) @ drop (i + 1) (dp_short d)" "dp_long d2 = dp_long d"
    using release_first [of d1 i frame "sh_FrameNum sh" m] assms(4,5) i f(3,4) m u
    by (simp_all add: d2_def num_free_def Let_def)
  have g: "frame \<notin> set (dp_short d2)"
    using assms(4) i unfolding d2(1) by (metis add.commute distinct_append id_take_nth_drop list.simps(15) 
      Un_iff disjoint_insert(2) distinct.simps(2) plus_1_eq_Suc set_append)
  have n: "refCount d2 \<le> dpb_max_refs sps"
    using assms(6) i(1) by (simp add: refCount_def longCount_def d2)
  have sec: "is_second_field frame sh d1"
    using f m u by (auto simp: is_second_field_def frameIsShort_def list_ex_iff frameRefMask_def)
  have "mark_body frame sh sps ref d = store_reference frame sh sps True False d2"
    using sec f(5,6) assms(3) run_mmco_one [OF f(6) c, of frame d1]
    by (simp add: mark_body_def step_simps d1_def [symmetric] d2_def Let_def)
  then show ?thesis
    using lost_store [OF g _ n assms(7) f(1)] f(3) d2(2) assms(1,8)
    by (auto simp: markDecodedFrame_def frameIsShort_def frameIsLong_def list_ex_iff finishFramePOC_def upd_poc_def
        split: prod.splits)
qed

text \<open>The first field of frame 0, a top field, is a reference; the bottom field releases it.\<close>

definition field_dpb :: simpleFrameDPB where
  "field_dpb = (dpb_zero (\<lambda>f. frame_init) 1)\<lparr>dp_short := [0], dp_refMask := [0 \<mapsto> PictureTopField]\<rparr>"

definition field_sh :: SliceHeader where
  "field_sh = sh_init\<lparr>sh_SPS := Some demo_sps, sh_PictureStructure := PictureBottomField, sh_NBMMCO := 1,
     sh_ExplicitRefMarking := 1,
     sh_MMCO := (sh_MMCO sh_init)[0 := \<lparr>mmco_Opcode = mmcoShort2Unused, mmco_ShortPicNum = 0, mmco_LongArg = 0\<rparr>]\<rparr>"

lemma second_field_lost_witness:
  "fst (markDecodedFrame 0 field_sh 1 field_dpb) = Inr () \<and> \<not> frameIsShort 0 (snd (markDecodedFrame 0 field_sh 1 field_dpb))"
proof -
  have "sh_SPS field_sh = Some demo_sps" "releases_first 0 field_sh field_dpb"
    "distinct (dp_short field_dpb)" "num_free 0 (sh_FrameNum field_sh) field_dpb"
    "refCount field_dpb \<le> dpb_max_refs demo_sps" "dpb_max_refs demo_sps \<le> 16"
    by code_simp+
  from second_field_lost [OF this(1,2) _ this(3-6), of 1] show ?thesis
    by (cases "markDecodedFrame 0 field_sh 1 field_dpb") auto
qed

end
