(* ===== verification/Dpb_Gaps.thy ===== *)
theory Dpb_Gaps
  imports Dpb_Marking
begin

text \<open>
  Gaps in \<open>frame_num\<close>: the loop of \<open>handleFrameNumGaps\<close> ends, fills in no more frames than the buffer
  holds references, and leaves the buffer consistent and its \<open>frame_num\<close> in step with the slice.
  Then the snapshots of the buffer: restoring one gives back the state it was taken of.
\<close>

section \<open>One substitute frame\<close>

text \<open>What filling in a frame may do to the state.\<close>

definition gap_frame :: "simpleFrameDPB \<Rightarrow> simpleFrameDPB \<Rightarrow> bool" where
  "gap_frame d d' \<longleftrightarrow> refs_inv d' \<and> dp_delayed d' = dp_delayed d \<and> dp_next d \<le> dp_next d'
     \<and> (\<forall>f < dp_next d. dp_heap d' f = dp_heap d f)"

lemma gap_frame_trans: "gap_frame a b \<Longrightarrow> gap_frame b c \<Longrightarrow> gap_frame a c"
  by (auto simp: gap_frame_def)

lemma alloc_inv:
  assumes "refs_inv d"
  shows "refs_inv (d\<lparr>dp_heap := (dp_heap d)(dp_next d := f), dp_next := dp_next d + 1\<rparr>)"
proof -
  let ?d = "d\<lparr>dp_heap := (dp_heap d)(dp_next d := f), dp_next := dp_next d + 1\<rparr>"
  have m: "map (\<lambda>x. df_frameNum (dp_heap ?d x)) (dp_short d) = map (\<lambda>x. df_frameNum (dp_heap d x)) (dp_short d)"
    using assms by (auto simp: refs_inv_def refs_core_def)
  have u: "dp_short ?d = dp_short d" "dp_long ?d = dp_long d" "dp_refMask ?d = dp_refMask d" "dp_next ?d = dp_next d + 1"
    by simp_all
  show ?thesis using assms unfolding refs_inv_def refs_core_def u m by (auto simp: less_Suc_eq)
qed

lemma mark_gap_spec:
  assumes "refs_inv d" "frame < dp_next d" "dpb_max_refs sps \<le> 16"
  shows "\<exists>d'. markFrameNumGapFrame frame sps d = (Inr (), d') \<and> refs_inv d' \<and> same_frames d d' \<and> dp_poc d' = dp_poc d"
proof -
  let ?M = "dpb_max_refs sps"
  define d1 where "d1 = (if dp_short d \<noteq> [] \<and> refCount d \<ge> ?M then removeLastShort d else d)"
  have s1: "shrinks d d1" by (simp add: d1_def)
  have i1: "refs_inv d1" using refs_inv_shrinks [OF s1 assms(1)] .
  define d2 where "d2 = setFrameRefMask frame PictureFrame (push_short frame d1)"
  have f1: "frame < dp_next d1" using shrinks_heap [OF s1] assms(2) by simp
  note p = push_short_core [of True d1 frame, OF _ f1]
  have c1: "refs_core d1" "length (dp_short d1) \<le> 16" using i1 by (auto simp: refs_inv_def)
  have c2: "refs_core d2" unfolding d2_def by (rule refs_core_set_mask [OF p(1) [OF c1(1)]]) auto
  have l2: "length (dp_short d2) \<le> 17" using p(2) [OF c1(1)] c1(2) by (simp add: d2_def)
  define d3 where "d3 = snd (trim_refs ?M d2)"
  have s3: "shrinks d2 d3" using trim_refs_shrinks by (simp add: d3_def)
  have i3: "refs_inv d3"
    using refs_core_shrinks [OF s3 c2] trim_refs_spec(1) [OF assms(3) l2] by (simp add: refs_inv_def d3_def)
  define d4 where "d4 = removeInvalidGapShortRefs (df_frameNum (dp_heap d3 frame)) sps d3"
  have s4: "shrinks d3 d4" using removeInvalidGap_loop_shrinks by (simp add: d4_def removeInvalidGapShortRefs_def)
  have sf: "same_frames d1 d2"
    unfolding d2_def
    by (rule same_frames_trans [OF _ same_frames_mask]) (use p(3-5) [OF c1(1)] in \<open>simp add: same_frames_def\<close>)
  have po: "dp_poc y = dp_poc x" if "shrinks x y" for x y
    using that refs_only_fields by (simp add: shrinks_def)
  have "dp_poc d2 = dp_poc (push_short frame d1)"
    using refs_only_fields [OF setFrameRefMask_refs_only] by (simp add: d2_def)
  also have "\<dots> = dp_poc d1"
    using po [OF removeShortByFrameNum_shrinks] by (simp add: push_short_def Let_def)
  finally have "dp_poc d4 = dp_poc d" using po [OF s1] po [OF s3] po [OF s4] by simp
  moreover have "markFrameNumGapFrame frame sps d = (Inr (), d4)"
    using assms(3) by (simp add: markFrameNumGapFrame_def upd_def Let_def d4_def d3_def d2_def d1_def)
  ultimately show ?thesis
    using refs_inv_shrinks [OF s4 i3] same_frames_trans [OF same_frames_shrinks [OF s1] same_frames_trans [OF sf
        same_frames_trans [OF same_frames_shrinks [OF s3] same_frames_shrinks [OF s4]]]] by blast
qed

lemma gap_step_spec:
  assumes "refs_inv d" "dpb_max_refs sps \<le> 16"
  shows "\<exists>r d'. gap_step sps M d = (r, d') \<and> gap_frame d d' \<and> dp_next d' \<le> dp_next d + 1
     \<and> pc_prevFrameNum (dp_poc d') = i32 (pc_prevFrameNum (dp_poc d) + 1) smod M
     \<and> (case r of Inl e \<Rightarrow> newSimpleDecodedFrame sps = Inl e | Inr _ \<Rightarrow> True)"
proof -
  let ?n = "i32 (pc_prevFrameNum (dp_poc d) + 1) smod M"
  define d1 where "d1 = upd_poc (\<lambda>p. p\<lparr>pc_prevFrameNum := i32 (pc_prevFrameNum p + 1) smod M\<rparr>) d"
  define prev where "prev = (if dp_short d \<noteq> [] then Some (dp_heap d (dp_short d ! 0)) else None)"
  have i1: "refs_inv d1" using assms(1) by (simp add: d1_def)
  have f1: "dp_next d1 = dp_next d" "dp_heap d1 = dp_heap d" "dp_delayed d1 = dp_delayed d" "pc_prevFrameNum (dp_poc d1) = ?n"
    by (simp_all add: d1_def upd_poc_def)
  have e: "gap_step sps M d = (case newSimpleFrameNumGapFrame sps (u32_of ?n) prev of
       Inl e \<Rightarrow> (Inl e, d1)
     | Inr f \<Rightarrow> markFrameNumGapFrame (dp_next d1) sps
         (d1\<lparr>dp_heap := (dp_heap d1)(dp_next d1 := f\<lparr>df_invalidGap := (sps_GapsInFrameNumAllowedFlag sps = 0)\<rparr>), dp_next := dp_next d1 + 1\<rparr>))"
    by (simp add: gap_step_def bnd_def thn_def gets_def upd_def lift_def alloc_frame_def prev_def
        d1_def [symmetric] f1(4) split: sum.split)
  show ?thesis
  proof (cases "newSimpleFrameNumGapFrame sps (u32_of ?n) prev")
    case (Inl er)
    then have "newSimpleDecodedFrame sps = Inl er"
      by (auto simp: newSimpleFrameNumGapFrame_def rbind_def Let_def split: sum.splits option.splits prod.splits)
    then show ?thesis using Inl e i1 f1 by (simp add: gap_frame_def)
  next
    case (Inr f)
    let ?d2 = "d1\<lparr>dp_heap := (dp_heap d1)(dp_next d1 := f\<lparr>df_invalidGap := (sps_GapsInFrameNumAllowedFlag sps = 0)\<rparr>), dp_next := dp_next d1 + 1\<rparr>"
    have "refs_inv ?d2" "dp_next d1 < dp_next ?d2" using alloc_inv [OF i1] by auto
    from mark_gap_spec [OF this assms(2)] obtain d' where
      d': "markFrameNumGapFrame (dp_next d1) sps ?d2 = (Inr (), d')" "refs_inv d'" "same_frames ?d2 d'" "dp_poc d' = dp_poc ?d2"
      by blast
    then show ?thesis using Inr e f1 by (simp add: gap_frame_def same_frames_def)
  qed
qed

section \<open>The loop ends\<close>

text \<open>How many numbers lie between the previous picture's and the slice's, plus one.\<close>

definition gap_left :: "int \<Rightarrow> int \<Rightarrow> int \<Rightarrow> int" where
  "gap_left M F prev = (if prev = - 1 then F + 1 else (F - prev) mod M)"

lemma gap_left_eq:
  assumes "0 < M" "0 \<le> F" "F < M" "- 1 \<le> q" "q < M"
  shows "gap_left M F q = (if q \<le> F then F - q else F - q + M)"
proof -
  have "(F - q) mod M = F - q + M" if "F < q"
  proof -
    have "(F - q) mod M = (F - q + M) mod M" by simp
    also have "\<dots> = F - q + M" using that assms by (intro mod_pos_pos_trivial) auto
    finally show ?thesis .
  qed
  then show ?thesis using assms by (auto simp: gap_left_def mod_pos_pos_trivial)
qed

lemma gap_next:
  assumes "0 < M" "M \<le> 65536" "0 \<le> F" "F < M" "- 1 \<le> prev" "prev < M"
  shows "i32 (prev + 1) smod M = (prev + 1) mod M" "0 \<le> (prev + 1) mod M" "(prev + 1) mod M < M"
    "F \<noteq> prev \<Longrightarrow> F \<noteq> (prev + 1) mod M \<Longrightarrow> 2 \<le> gap_left M F prev"
    "F \<noteq> prev \<Longrightarrow> F \<noteq> (prev + 1) mod M \<Longrightarrow> gap_left M F ((prev + 1) mod M) = gap_left M F prev - 1"
proof -
  have i: "i32 (prev + 1) = prev + 1" using assms by (intro i32_id) auto
  show "i32 (prev + 1) smod M = (prev + 1) mod M"
    unfolding i using assms(1,5) by (simp add: signed_modulo_int_def sgn_if)
  show b: "0 \<le> (prev + 1) mod M" "(prev + 1) mod M < M" using assms(1) by simp_all
  have n: "(prev + 1) mod M = (if prev = M - 1 then 0 else prev + 1)"
    using assms(5,6) by (auto simp: mod_pos_pos_trivial)
  assume ne: "F \<noteq> prev" "F \<noteq> (prev + 1) mod M"
  note g = gap_left_eq [OF assms(1,3,4,5,6)]
  show "2 \<le> gap_left M F prev" using g ne n assms by (auto split: if_splits)
  have "- 1 \<le> (prev + 1) mod M" using b(1) by simp
  note gap_left_eq [OF assms(1,3,4) this b(2)]
  then show "gap_left M F ((prev + 1) mod M) = gap_left M F prev - 1"
    using g ne n assms by (auto split: if_splits)
qed


lemma gap_loop_spec:
  assumes "0 < M" "M \<le> 65536" "0 \<le> F" "F < M" "dpb_max_refs sps \<le> 16" "refs_inv d"
    and "- 1 \<le> pc_prevFrameNum (dp_poc d)" "pc_prevFrameNum (dp_poc d) < M"
  shows "\<exists>r d'. gap_loop sps M F d = Some (r, d') \<and> gap_frame d d'
     \<and> int (dp_next d') \<le> int (dp_next d) + max 0 (gap_left M F (pc_prevFrameNum (dp_poc d)) - 1)
     \<and> (case r of Inl e \<Rightarrow> newSimpleDecodedFrame sps = Inl e
        | Inr _ \<Rightarrow> let p = pc_prevFrameNum (dp_poc d') in F = p \<or> F = (p + 1) mod M)"
  using assms(6-8)
proof (induction "nat (gap_left M F (pc_prevFrameNum (dp_poc d)))" arbitrary: d rule: less_induct)
  case less
  let ?p = "pc_prevFrameNum (dp_poc d)"
  note n = gap_next [OF assms(1-4) less.prems(2,3)]
  show ?case
  proof (cases "F \<noteq> ?p \<and> F \<noteq> i32 (?p + 1) smod M")
    case False
    have "gap_loop sps M F d = Some (Inr (), d)"
      unfolding gap_loop.simps [of sps M F d] Let_def if_not_P [OF False] ..
    then show ?thesis using False less.prems(1) n(1) by (auto simp: gap_frame_def Let_def)
  next
    case True
    obtain r d1 where s: "gap_step sps M d = (r, d1)" "gap_frame d d1" "dp_next d1 \<le> dp_next d + 1"
        "pc_prevFrameNum (dp_poc d1) = (?p + 1) mod M"
        "case r of Inl e \<Rightarrow> newSimpleDecodedFrame sps = Inl e | Inr _ \<Rightarrow> True"
      using gap_step_spec [OF less.prems(1) assms(5), of M] n(1) by auto
    have ne: "F \<noteq> ?p" "F \<noteq> (?p + 1) mod M" using True n(1) by auto
    note g = n(4) [OF ne] n(5) [OF ne]
    show ?thesis
    proof (cases r)
      case (Inl e)
      then have "gap_loop sps M F d = Some (Inl e, d1)"
        unfolding gap_loop.simps [of sps M F d] Let_def if_P [OF True] using s(1) by simp
      then show ?thesis using s Inl g(1) by auto
    next
      case (Inr u)
      then have l: "gap_loop sps M F d = gap_loop sps M F d1"
        unfolding gap_loop.simps [of sps M F d] Let_def if_P [OF True] using s(1) by simp
      have "nat (gap_left M F (pc_prevFrameNum (dp_poc d1))) < nat (gap_left M F ?p)" using g s(4) by simp
      moreover have "refs_inv d1" "- 1 \<le> pc_prevFrameNum (dp_poc d1)" "pc_prevFrameNum (dp_poc d1) < M"
        using s(2,4) n(2,3) by (auto simp: gap_frame_def)
      ultimately obtain r' d' where i: "gap_loop sps M F d1 = Some (r', d')" "gap_frame d1 d'"
          "int (dp_next d') \<le> int (dp_next d1) + max 0 (gap_left M F (pc_prevFrameNum (dp_poc d1)) - 1)"
          "case r' of Inl e \<Rightarrow> newSimpleDecodedFrame sps = Inl e
            | Inr _ \<Rightarrow> let p = pc_prevFrameNum (dp_poc d') in F = p \<or> F = (p + 1) mod M"
        using less.hyps [of d1] by blast
      then show ?thesis using l gap_frame_trans [OF s(2) i(2)] s(3,4) g by auto
    qed
  qed
qed

lemma unwrap_prev_spec:
  assumes "16 \<le> M" "M \<le> 65536" "0 \<le> F" "F < M" "- 1 \<le> prev" "prev < M" "unat (sps_RefFrameCount sps) \<le> 16"
  shows "- 1 \<le> unwrap_prev sps M F prev \<and> unwrap_prev sps M F prev < M
    \<and> gap_left M F (unwrap_prev sps M F prev) \<le> int (unat (sps_RefFrameCount sps)) + 1"
proof -
  define R where "R = int (unat (sps_RefFrameCount sps))"
  have R: "0 \<le> R" "R \<le> 16" "i32_of (sps_RefFrameCount sps) = R"
    using assms(7) i32_of_small [of "sps_RefFrameCount sps"] by (auto simp: R_def)
  define u where "u = (if prev > F then prev - M else prev)"
  have w: "i32 (prev - M) = prev - M" "i32 (F - u) = F - u" "i32 (i32 (F - R) - 1) = F - R - 1"
      "i32 (F - R - 1 + M) = F - R - 1 + M"
    using assms R(1,2) by (auto simp: u_def i32_id)
  have e: "unwrap_prev sps M F prev = (if F \<noteq> prev \<and> F - u > R then if F - R - 1 < 0 then F - R - 1 + M else F - R - 1 else prev)"
    unfolding unwrap_prev_def Let_def R(3) w(1,3,4) u_def [symmetric] w(2) by simp
  have r: "- 1 \<le> unwrap_prev sps M F prev" "unwrap_prev sps M F prev < M" using assms R e by auto
  have "0 < M" using assms(1) by simp
  note g = gap_left_eq [OF this assms(3,4) r]
  show ?thesis using g e r assms R(1,2) unfolding R_def [symmetric] by (auto simp: u_def split: if_splits)
qed

section \<open>Gaps are filled\<close>

lemma max_frame_num:
  assumes "sps_ok sps"
  shows "16 \<le> shl32 (sps_Log2MaxFrameNum sps)" "shl32 (sps_Log2MaxFrameNum sps) \<le> 65536"
    "\<not> (sps_Log2MaxFrameNum sps \<le> 0 \<or> sps_Log2MaxFrameNum sps \<ge> 31)"
proof -
  define n where "n = nat (sps_Log2MaxFrameNum sps)"
  have l: "4 \<le> sps_Log2MaxFrameNum sps" "sps_Log2MaxFrameNum sps \<le> 16" using assms by (simp_all add: sps_ok_def sps_poc_ok_def)
  have n: "4 \<le> n" "n \<le> 16" using l by (auto simp: n_def)
  have "(2::int) ^ 4 \<le> 2 ^ n" "(2::int) ^ n \<le> 2 ^ 16" using n by (intro power_increasing; simp)+
  then have "16 \<le> (2::int) ^ n" "(2::int) ^ n \<le> 65536" by simp_all
  moreover have "shl32 (sps_Log2MaxFrameNum sps) = i32 (2 ^ n)" using l by (simp add: shl32_def n_def)
  ultimately show "16 \<le> shl32 (sps_Log2MaxFrameNum sps)" "shl32 (sps_Log2MaxFrameNum sps) \<le> 65536"
    by (simp_all add: i32_id)
  show "\<not> (sps_Log2MaxFrameNum sps \<le> 0 \<or> sps_Log2MaxFrameNum sps \<ge> 31)" using l by simp
qed

text \<open>The slices whose gaps the code fills in.\<close>

definition fills_gaps :: "SliceHeader \<Rightarrow> bool \<Rightarrow> bool" where
  "fills_gaps sh firstField \<longleftrightarrow> sh_NALType sh \<noteq> NALIDRSlice \<and> \<not> firstField \<and> sh_PictureStructure sh = PictureFrame"

lemma gaps_returns_cases:
  assumes "sps_ok sps" "sh_SPS sh = Some sps" "refs_inv d" "int (unat (sh_FrameNum sh)) < shl32 (sps_Log2MaxFrameNum sps)"
    and "- 1 \<le> pc_prevFrameNum (dp_poc d)" "pc_prevFrameNum (dp_poc d) < shl32 (sps_Log2MaxFrameNum sps)"
  shows "\<exists>r d'. handleFrameNumGaps sh firstField d = Some (r, d') \<and> gap_frame d d'
     \<and> dp_next d' \<le> dp_next d + unat (sps_RefFrameCount sps)
     \<and> (case r of Inl e \<Rightarrow> newSimpleDecodedFrame sps = Inl e
        | Inr _ \<Rightarrow> fills_gaps sh firstField \<longrightarrow>
            (let p = pc_prevFrameNum (dp_poc d'); n = int (unat (sh_FrameNum sh))
             in n = p \<or> n = (p + 1) mod shl32 (sps_Log2MaxFrameNum sps)))"
proof (cases "fills_gaps sh firstField")
  case False
  then have "handleFrameNumGaps sh firstField d = Some (Inr (), d)"
    by (auto simp: handleFrameNumGaps_def assms(2) fills_gaps_def)
  then show ?thesis using False assms(3) by (simp add: gap_frame_def)
next
  case True
  define M where "M = shl32 (sps_Log2MaxFrameNum sps)"
  define F where "F = int (unat (sh_FrameNum sh))"
  note m = max_frame_num [OF assms(1), folded M_def]
  note a = assms(4-6) [folded M_def, folded F_def]
  have r16: "unat (sps_RefFrameCount sps) \<le> 16" using assms(1) by (simp add: sps_ok_def sps_size_ok_def)
  have F: "0 \<le> F" "i32_of (sh_FrameNum sh) = F"
    using a(1) m(2) i32_of_small [of "sh_FrameNum sh"] by (auto simp: F_def)
  define q where "q = unwrap_prev sps M F (pc_prevFrameNum (dp_poc d))"
  define d1 where "d1 = upd_poc (\<lambda>p. p\<lparr>pc_prevFrameNum := unwrap_prev sps M F (pc_prevFrameNum p)\<rparr>) d"
  have d1: "refs_inv d1" "pc_prevFrameNum (dp_poc d1) = q" "dp_next d1 = dp_next d" "gap_frame d d1"
    using assms(3) by (simp_all add: d1_def gap_frame_def) (simp_all add: q_def upd_poc_def)
  have u: "- 1 \<le> q \<and> q < M \<and> gap_left M F q \<le> int (unat (sps_RefFrameCount sps)) + 1"
    unfolding q_def by (rule unwrap_prev_spec [OF m(1,2) F(1) a(1-3) r16])
  have e: "handleFrameNumGaps sh firstField d = gap_loop sps M F d1"
    using True m(3) by (simp add: handleFrameNumGaps_def assms(2) fills_gaps_def M_def [symmetric] F(2) d1_def)
  have "0 < M" "dpb_max_refs sps \<le> 16" using m(1) r16 by (simp_all add: dpb_max_refs_def)
  from gap_loop_spec [OF this(1) m(2) F(1) a(1) this(2) d1(1)] u obtain r d' where
    g: "gap_loop sps M F d1 = Some (r, d')" "gap_frame d1 d'" "int (dp_next d') \<le> int (dp_next d1) + max 0 (gap_left M F q - 1)"
      "case r of Inl e \<Rightarrow> newSimpleDecodedFrame sps = Inl e
        | Inr _ \<Rightarrow> let p = pc_prevFrameNum (dp_poc d') in F = p \<or> F = (p + 1) mod M"
    unfolding d1(2) by blast
  have "dp_next d' \<le> dp_next d + unat (sps_RefFrameCount sps)" using g(3) u d1(3) by linarith
  then show ?thesis
    using g(4) gap_frame_trans [OF d1(4) g(2)] g(1) e unfolding M_def [symmetric] F_def [symmetric]
    by (intro exI [of _ r] exI [of _ d'] conjI) (auto split: sum.splits)
qed

text \<open>
  C31. Filling the gaps before a slice always returns, for a parameter set the parser accepts and a
  previous \<open>frame_num\<close> in range: it fills in at most as many frames as the buffer holds references,
  keeps the buffer's invariant and every frame there was; it fails only when a frame cannot be made,
  and otherwise the slice's \<open>frame_num\<close> is then the previous one's or its successor's.
\<close>

theorem handleFrameNumGaps_returns:
  assumes "sps_ok sps" "sh_SPS sh = Some sps" "refs_inv d" "int (unat (sh_FrameNum sh)) < shl32 (sps_Log2MaxFrameNum sps)"
    and "- 1 \<le> pc_prevFrameNum (dp_poc d)" "pc_prevFrameNum (dp_poc d) < shl32 (sps_Log2MaxFrameNum sps)"
  shows "\<exists>r d'. handleFrameNumGaps sh firstField d = Some (r, d') \<and> gap_frame d d'
     \<and> dp_next d' \<le> dp_next d + unat (sps_RefFrameCount sps)
     \<and> (case r of Inl e \<Rightarrow> newSimpleDecodedFrame sps = Inl e
        | Inr _ \<Rightarrow> fills_gaps sh firstField \<longrightarrow>
            (let p = pc_prevFrameNum (dp_poc d'); n = int (unat (sh_FrameNum sh))
             in n = p \<or> n = (p + 1) mod shl32 (sps_Log2MaxFrameNum sps)))"
  by (rule gaps_returns_cases [OF assms])

lemma handleFrameNumGaps_returns_witness:
  "\<exists>r d'. handleFrameNumGaps (demo_sh\<lparr>sh_FrameNum := 9\<rparr>) False demo_dpb = Some (r, d') \<and> refs_inv d' \<and> dp_next d' \<le> 5"
proof -
  have s: "sh_SPS (demo_sh\<lparr>sh_FrameNum := 9\<rparr>) = Some demo_sps" "shl32 (sps_Log2MaxFrameNum demo_sps) = 16"
      "sps_RefFrameCount demo_sps = 2"
    by (simp_all add: demo_sh_def demo_sps_def sps_init_def shl32_def i32_id)
  have d: "pc_prevFrameNum (dp_poc demo_dpb) = 0" "dp_next demo_dpb = 3"
    by (simp_all add: demo_dpb_def dpb_zero_def poc_zero_def)
  have b: "int (unat (sh_FrameNum (demo_sh\<lparr>sh_FrameNum := 9\<rparr>))) < shl32 (sps_Log2MaxFrameNum demo_sps)"
      "- 1 \<le> pc_prevFrameNum (dp_poc demo_dpb)" "pc_prevFrameNum (dp_poc demo_dpb) < shl32 (sps_Log2MaxFrameNum demo_sps)"
    unfolding s(2) d(1) by simp_all
  obtain r d' where "handleFrameNumGaps (demo_sh\<lparr>sh_FrameNum := 9\<rparr>) False demo_dpb = Some (r, d')" "gap_frame demo_dpb d'"
      "dp_next d' \<le> dp_next demo_dpb + unat (sps_RefFrameCount demo_sps)"
    using handleFrameNumGaps_returns [OF demo_sps_ok(1) s(1) demo_dpb_ok(1) b, of False] by (elim exE conjE)
  then show ?thesis by (intro exI [of _ r] exI [of _ d']) (simp add: gap_frame_def d(2) s(3))
qed

section \<open>Snapshots\<close>

lemma restore_recovered_map:
  "length fs = length rs \<Longrightarrow> (\<And>i. i < length fs \<Longrightarrow> rs ! i = g (fs ! i)) \<Longrightarrow>
     restore_recovered fs rs h = (\<lambda>f. if f \<in> set fs then (h f)\<lparr>df_recovered := g f\<rparr> else h f)"
proof (induction fs rs arbitrary: h rule: list_induct2')
  case (4 f fs r rs)
  have r: "r = g f" using "4.prems"(2) [of 0] by simp
  have "rs ! i = g (fs ! i)" if "i < length fs" for i using "4.prems"(2) [of "Suc i"] that by simp
  with "4.IH" "4.prems"(1) show ?case by (auto simp: r fun_eq_iff)
qed auto

lemma restore_recovered_append:
  "length fs \<le> length rs \<Longrightarrow> restore_recovered fs rs h = restore_recovered fs (take (length fs) rs) h"
proof (induction fs arbitrary: rs h)
  case (Cons f fs)
  from Cons.prems obtain r rs' where rs: "rs = r # rs'" "length fs \<le> length rs'" by (cases rs) auto
  show ?case unfolding rs(1) length_Cons take_Suc_Cons restore_recovered.simps by (rule Cons.IH [OF rs(2)])
qed simp

text \<open>
  C32. Restoring a snapshot undoes whatever was done to the buffer since: every field of it is the one
  saved, and so are the recovery flags of the frames waiting for output; nothing else of any frame
  changes. (The snapshot holds 16 flags, as many as frames may wait.)
\<close>

theorem snapshot_roundtrip:
  assumes "length (dp_delayed d) \<le> 16"
  shows "restore (snapshot d) d' = d\<lparr>dp_next := dp_next d',
     dp_heap := (\<lambda>f. if f \<in> set (dp_delayed d) then (dp_heap d' f)\<lparr>df_recovered := df_recovered (dp_heap d f)\<rparr> else dp_heap d' f)\<rparr>"
proof -
  let ?rs = "take (length (dp_delayed d)) (saved_recovered d)"
  have l: "length (saved_recovered d) = 16" by (simp add: saved_recovered_def)
  have "restore_recovered (dp_delayed d) (saved_recovered d) (dp_heap d') = restore_recovered (dp_delayed d) ?rs (dp_heap d')"
    using assms l by (intro restore_recovered_append) simp
  also have "\<dots> = (\<lambda>f. if f \<in> set (dp_delayed d) then (dp_heap d' f)\<lparr>df_recovered := df_recovered (dp_heap d f)\<rparr> else dp_heap d' f)"
    using assms l by (intro restore_recovered_map) (auto simp: saved_recovered_def)
  finally show ?thesis by (simp add: restore_def snapshot_def)
qed

lemma snapshot_roundtrip_witness:
  "dp_short (restore (snapshot demo_dpb) (dpb_reset demo_dpb)) = [1, 2]"
  by (subst snapshot_roundtrip) (simp_all add: demo_dpb_def dpb_zero_def)

end
