(* ===== verification/Ref_Lists.thy ===== *)
theory Ref_Lists
  imports Dpb_Marking
begin

text \<open>
  Reference picture lists (\<open>simple_dpb.go\<close>, \<open>buildRefContext\<close> and what it calls): the default list
  of a P slice and the two of a B slice, the modification commands of the slice header, the implicit
  weights of bi-prediction, and the pictures handed to motion compensation.

  An element of a default list is a frame of the buffer; the entry with no frame is the one the code
  pads a short list with. The search for the next picture in order of count is a loop without a
  bound, so it is a partial function: \<open>None\<close> is the search that does not return.

  The \<open>Into\<close> functions reuse the buffers of an earlier slice; what they return is what the functions
  without a buffer do, except where \<open>buildRefContextInto\<close> takes another path, which is modelled. That
  the lists of a slice are overwritten by the next slice's is outside the model.
\<close>

section \<open>Default lists\<close>

definition entry_zero :: simpleRefEntry where
  "entry_zero = \<lparr>re_frame = None, re_picID = 0, re_long = False, re_pictureStructure = 0, re_poc = 0\<rparr>"

definition optHasReferenceStructure :: "fref option \<Rightarrow> int \<Rightarrow> simpleFrameDPB \<Rightarrow> bool" where
  "optHasReferenceStructure f s d = (case f of None \<Rightarrow> False | Some f \<Rightarrow> frameHasReferenceStructure f s d)"

definition fieldRefEntry :: "fref option \<Rightarrow> SPS option \<Rightarrow> int \<Rightarrow> bool \<Rightarrow> u32 \<Rightarrow> u32 \<Rightarrow> simpleFrameDPB \<Rightarrow> simpleRefEntry result" where
  "fieldRefEntry frame sps pictureStructure long longIndex idAdd d =
     (case frame of None \<Rightarrow> Inl ErrInvalidData | Some f \<Rightarrow>
      let fr = dp_heap d f in
      rbind (matchesSPS fr sps) (\<lambda>_.
      rbind (simpleFrameCurrentPOC fr pictureStructure) (\<lambda>poc.
      let picID = (if long then longIndex else df_frameNum fr) in
      Inr \<lparr>re_frame = Some f, re_picID = 2 * picID + idAdd, re_long = long,
           re_pictureStructure = pictureStructure, re_poc = poc\<rparr>)))"

text \<open>The loop of a frame picture, from the frame at index \<open>i\<close>.\<close>

fun frame_entries :: "SPS option \<Rightarrow> bool \<Rightarrow> simpleFrameDPB \<Rightarrow> nat \<Rightarrow> fref option list \<Rightarrow> simpleRefEntry list result" where
  "frame_entries sps long d i [] = Inr []"
| "frame_entries sps long d i (None # fs) = frame_entries sps long d (i + 1) fs"
| "frame_entries sps long d i (Some f # fs) =
     (let fr = dp_heap d f in
      rbind (matchesSPS fr sps) (\<lambda>_.
      rbind (frame_entries sps long d (i + 1) fs) (\<lambda>es.
      Inr (\<lparr>re_frame = Some f, re_picID = (if long then word_of_nat i else df_frameNum fr), re_long = long,
            re_pictureStructure = PictureFrame, re_poc = df_poc fr\<rparr> # es))))"

text \<open>The index of the next frame that has a field of the structure, from index \<open>i\<close>.\<close>

function next_with :: "fref option list \<Rightarrow> int \<Rightarrow> simpleFrameDPB \<Rightarrow> nat \<Rightarrow> nat" where
  "next_with frames s d i =
     (if i < length frames \<and> \<not> optHasReferenceStructure (frames ! i) s d then next_with frames s d (i + 1) else i)"
  by pat_completeness auto
termination by (relation "measure (\<lambda>(frames, s, d, i). length frames - i)") auto

declare next_with.simps [simp del]

lemma next_with_ge: "i \<le> next_with frames s d i"
  by (induction frames s d i rule: next_with.induct) (subst next_with.simps, auto)

text \<open>One turn of the loop for a field: the frame the index has reached, if any.\<close>

definition take_field :: "fref option list \<Rightarrow> SPS option \<Rightarrow> int \<Rightarrow> bool \<Rightarrow> u32 \<Rightarrow> simpleFrameDPB \<Rightarrow> nat \<Rightarrow> (simpleRefEntry list \<times> nat) result" where
  "take_field frames sps s long idAdd d i =
     (if i < length frames then
        rbind (fieldRefEntry (frames ! i) sps s long (word_of_nat i) idAdd d) (\<lambda>e. Inr ([e], i + 1))
      else Inr ([], i))"

function field_entries :: "fref option list \<Rightarrow> SPS option \<Rightarrow> int \<Rightarrow> bool \<Rightarrow> simpleFrameDPB \<Rightarrow> nat \<Rightarrow> nat \<Rightarrow> simpleRefEntry list result" where
  "field_entries frames sps sel long d i j =
     (if i < length frames \<or> j < length frames then
        case take_field frames sps sel long 1 d (next_with frames sel d i) of
          Inl e \<Rightarrow> Inl e
        | Inr (es, i') \<Rightarrow>
           (case take_field frames sps (simpleOppositeField sel) long 0 d (next_with frames (simpleOppositeField sel) d j) of
              Inl e \<Rightarrow> Inl e
            | Inr (es', j') \<Rightarrow> rbind (field_entries frames sps sel long d i' j') (\<lambda>rest. Inr (es @ es' @ rest)))
      else Inr [])"
  by pat_completeness auto

lemma take_field_progress:
  assumes "take_field frames sps s long a d (next_with frames s d i) = Inr (es, i')"
  shows "i \<le> i'" "i < length frames \<Longrightarrow> i < i'"
proof -
  have "next_with frames s d i \<le> i'" "next_with frames s d i < length frames \<Longrightarrow> next_with frames s d i < i'"
    using assms by (auto simp: take_field_def rbind_eq_Inr split: if_splits)
  then show "i \<le> i'" "i < length frames \<Longrightarrow> i < i'"
    using next_with_ge [of i frames s d] by linarith+
qed

termination field_entries
proof (relation "measure (\<lambda>(frames, sps, sel, long, d, i, j). (length frames - i) + (length frames - j))", goal_cases)
  case (2 frames sps sel long d i j x es i' y es' j')
  show ?case
    using 2(1) take_field_progress [of frames sps sel long 1 d i es i'] 2(2,3)
      take_field_progress [of frames sps "simpleOppositeField sel" long 0 d j es' j'] 2(4,5) by auto
qed simp

declare field_entries.simps [simp del]

definition buildDefaultEntriesFromFrames :: "fref option list \<Rightarrow> SliceHeader \<Rightarrow> bool \<Rightarrow> simpleFrameDPB \<Rightarrow> simpleRefEntry list result" where
  "buildDefaultEntriesFromFrames frames sh long d =
     (if length frames > simpleMaxShortRefs then Inl ErrInvalidData
      else if sh_PictureStructure sh = PictureFrame then frame_entries (sh_SPS sh) long d 0 frames
      else field_entries frames (sh_SPS sh) (sh_PictureStructure sh) long d 0 0)"

definition buildDefaultPRefList :: "SliceHeader \<Rightarrow> simpleFrameDPB \<Rightarrow> simpleRefEntry list result" where
  "buildDefaultPRefList sh d =
     rbind (buildDefaultEntriesFromFrames (map Some (dp_short d)) sh False d) (\<lambda>list.
     rbind (buildDefaultEntriesFromFrames (dp_long d) sh True d) (\<lambda>lg. Inr (list @ lg)))"

section \<open>Pictures in order of count\<close>

text \<open>One frame of the scan for the best candidate; the direction is down (\<open>dir \<noteq> 0\<close>) or up.\<close>

definition better :: "bool \<Rightarrow> int \<Rightarrow> int \<Rightarrow> int \<Rightarrow> bool" where
  "better down limit bestPOC poc =
     (if down then poc \<le> limit \<and> poc \<ge> bestPOC else poc > limit \<and> poc < bestPOC)"

fun scan_best :: "(fref \<Rightarrow> int) \<Rightarrow> bool \<Rightarrow> int \<Rightarrow> fref list \<Rightarrow> int \<times> fref option \<Rightarrow> int \<times> fref option" where
  "scan_best poc down limit [] b = b"
| "scan_best poc down limit (f # fs) b =
     scan_best poc down limit fs (if better down limit (fst b) (poc f) then (poc f, Some f) else b)"

definition best_ref :: "bool \<Rightarrow> int \<Rightarrow> simpleFrameDPB \<Rightarrow> fref option" where
  "best_ref down limit d =
     snd (scan_best (\<lambda>f. df_poc (dp_heap d f)) down limit (dp_short d) (if down then MinInt32 else MaxInt32, None))"

partial_function (option) addSorted_loop :: "bool \<Rightarrow> simpleFrameDPB \<Rightarrow> int \<Rightarrow> fref list \<Rightarrow> fref list option" where
  "addSorted_loop down d limit out =
     (case best_ref down limit d of
        None \<Rightarrow> Some out
      | Some best \<Rightarrow>
          let poc = df_poc (dp_heap d best) in
          addSorted_loop down d (if down then i32 (poc - 1) else poc) (out @ [best]))"

definition addSortedShortRefs :: "int \<Rightarrow> bool \<Rightarrow> simpleFrameDPB \<Rightarrow> fref list \<Rightarrow> fref list option" where
  "addSortedShortRefs curPOC down d out = addSorted_loop down d curPOC out"

definition buildDefaultBRefList :: "SliceHeader \<Rightarrow> int \<Rightarrow> nat \<Rightarrow> simpleFrameDPB \<Rightarrow> simpleRefEntry list result option" where
  "buildDefaultBRefList sh curPOC list d =
     (if list \<noteq> 0 \<and> list \<noteq> 1 then Some (Inl ErrInvalidData)
      else Option.bind (addSortedShortRefs curPOC (list = 0) d []) (\<lambda>sorted.
           Option.bind (addSortedShortRefs curPOC (list = 1) d sorted) (\<lambda>sorted.
           Some (rbind (buildDefaultEntriesFromFrames (map Some sorted) sh False d) (\<lambda>entries.
                 rbind (buildDefaultEntriesFromFrames (dp_long d) sh True d) (\<lambda>lg. Inr (entries @ lg)))))))"

definition simpleRefListsSameFrames :: "simpleRefEntry list \<Rightarrow> simpleRefEntry list \<Rightarrow> bool" where
  "simpleRefListsSameFrames a b =
     (if length a \<noteq> length b \<or> length a \<le> 1 then False
      else list_all (\<lambda>(x, y). re_frame x = re_frame y) (zip a b))"

section \<open>Modification commands\<close>

text \<open>The picture a command names: the frame, its picture number, whether it is a long-term one, and the new prediction.\<close>

definition mod_picture :: "RefModification \<Rightarrow> SliceHeader \<Rightarrow> u32 \<Rightarrow> simpleFrameDPB \<Rightarrow> (fref option \<times> u32 \<times> bool \<times> u32) result" where
  "mod_picture rmod sh pred d =
     (if rm_Op rmod > 2 then Inl ErrUnsupported
      else if rm_Op rmod = 2 then
        case simplePicNumExtract (sh_PictureStructure sh) (rm_Val rmod) of (longIdx, picStructure) \<Rightarrow>
          if longIdx > 31 then Inl ErrInvalidData
          else Inr (if unat longIdx < simpleMaxLongRefs then findLongByIndexAndStructure longIdx picStructure d else None,
                    rm_Val rmod, True, pred)
      else
        let absDiffPicNum = rm_Val rmod + 1 in
        if absDiffPicNum > sh_MaxPicNum sh then Inl ErrInvalidData
        else let pred = (if rm_Op rmod = 0 then pred - absDiffPicNum else pred + absDiffPicNum) AND (sh_MaxPicNum sh - 1) in
          case simplePicNumExtract (sh_PictureStructure sh) pred of (frameNum, picStructure) \<Rightarrow>
            Inr (findShortByFrameNumAndStructure frameNum picStructure d, pred, False, pred))"

definition mod_entry :: "SliceHeader \<Rightarrow> fref option \<Rightarrow> u32 \<Rightarrow> bool \<Rightarrow> simpleFrameDPB \<Rightarrow> simpleRefEntry result" where
  "mod_entry sh ref picID isLong d = (case ref of None \<Rightarrow> Inl ErrInvalidData | Some f \<Rightarrow>
     let picStructure = (if sh_PictureStructure sh \<noteq> PictureFrame
                         then snd (simplePicNumExtract (sh_PictureStructure sh) picID) else PictureFrame) in
     rbind (simpleFrameCurrentPOC (dp_heap d f) picStructure) (\<lambda>poc.
     Inr \<lparr>re_frame = Some f, re_picID = picID, re_long = isLong, re_pictureStructure = picStructure, re_poc = poc\<rparr>))"

text \<open>Where the picture stands in the list, from index \<open>i\<close>; the last place when it does not.\<close>

function match_index :: "nat \<Rightarrow> bool \<Rightarrow> u32 \<Rightarrow> simpleRefEntry list \<Rightarrow> nat \<Rightarrow> nat" where
  "match_index nrefs isLong picID list i =
     (if i + 1 < nrefs \<and> \<not> (re_frame (list ! i) \<noteq> None \<and> re_long (list ! i) = isLong \<and> re_picID (list ! i) = picID)
      then match_index nrefs isLong picID list (i + 1) else i)"
  by pat_completeness auto
termination by (relation "measure (\<lambda>(nrefs, l, p, list, i). nrefs - i)") auto

declare match_index.simps [simp del]

text \<open>The shift that makes room for the picture at \<open>index\<close>, downwards from \<open>i\<close>.\<close>

fun shift_down :: "nat \<Rightarrow> nat \<Rightarrow> simpleRefEntry list \<Rightarrow> simpleRefEntry list" where
  "shift_down index 0 list = list"
| "shift_down index (Suc i) list = (if Suc i > index then shift_down index i (list[Suc i := list ! i]) else list)"

definition place_entry :: "nat \<Rightarrow> nat \<Rightarrow> simpleRefEntry \<Rightarrow> simpleRefEntry list \<Rightarrow> simpleRefEntry list" where
  "place_entry index nrefs e list =
     (shift_down index (match_index nrefs (re_long e) (re_picID e) list index) list)[index := e]"

fun refmod_loop :: "SliceHeader \<Rightarrow> nat \<Rightarrow> simpleFrameDPB \<Rightarrow> nat list \<Rightarrow> u32 \<Rightarrow> simpleRefEntry list \<Rightarrow> simpleRefEntry list result" where
  "refmod_loop sh l d [] pred list = Inr list"
| "refmod_loop sh l d (index # rest) pred list =
     (if index \<ge> unat (sh_RefCount sh ! l) \<or> index \<ge> maxRefMods then Inl ErrInvalidData
      else rbind (mod_picture (sh_RefModifications sh ! l ! index) sh pred d) (\<lambda>(ref, picID, isLong, pred).
           rbind (mod_entry sh ref picID isLong d) (\<lambda>e.
           refmod_loop sh l d rest pred (place_entry index (unat (sh_RefCount sh ! l)) e list))))"

definition applyRefModificationsEntries :: "simpleRefEntry list \<Rightarrow> SliceHeader \<Rightarrow> nat \<Rightarrow> simpleFrameDPB \<Rightarrow> simpleRefEntry list result" where
  "applyRefModificationsEntries list sh l d =
     (if l \<noteq> 0 \<and> l \<noteq> 1 then Inl ErrInvalidData
      else let nrefs = unat (sh_RefCount sh ! l) in
      if nrefs = 0 then Inl ErrInvalidData
      else if list = [] then Inl ErrInvalidData
      else let defaultRef = list ! 0; list = list @ replicate (nrefs - length list) entry_zero in
      if sh_MaxPicNum sh = 0 then Inl ErrInvalidData
      else rbind (refmod_loop sh l d [0..<unat (sh_NBRefModifications sh ! l)] (sh_CurrPicNum sh) list) (\<lambda>list.
           Inr (map (\<lambda>e. if re_frame e = None then defaultRef else e) (take nrefs list))))"

definition buildPRefEntries :: "SliceHeader \<Rightarrow> simpleFrameDPB \<Rightarrow> simpleRefEntry list result" where
  "buildPRefEntries sh d =
     (if sh_RefCount sh ! 0 = 0 then Inl ErrInvalidData
      else if unat (sh_RefCount sh ! 0) > simpleMaxShortRefs then Inl ErrUnsupported
      else rbind (buildDefaultPRefList sh d) (\<lambda>list. applyRefModificationsEntries list sh 0 d))"

definition swap_first :: "'a list \<Rightarrow> 'a list" where
  "swap_first xs = xs[0 := xs ! 1, 1 := xs ! 0]"

definition b_lists :: "SliceHeader \<Rightarrow> simpleFrameDPB \<Rightarrow> simpleRefEntry list \<Rightarrow> simpleRefEntry list \<Rightarrow> (simpleRefEntry list \<times> simpleRefEntry list) result" where
  "b_lists sh d def0 def1 =
     (let def1 = (if simpleRefListsSameFrames def0 def1 \<and> length def1 > 1 then swap_first def1 else def1) in
      rbind (applyRefModificationsEntries def0 sh 0 d) (\<lambda>l0.
      rbind (applyRefModificationsEntries def1 sh 1 d) (\<lambda>l1. Inr (l0, l1))))"

definition buildBRefEntries :: "SliceHeader \<Rightarrow> int \<Rightarrow> simpleFrameDPB \<Rightarrow> (simpleRefEntry list \<times> simpleRefEntry list) result option" where
  "buildBRefEntries sh curPOC d =
     (if sh_RefCount sh ! 0 = 0 \<or> sh_RefCount sh ! 1 = 0 then Some (Inl ErrInvalidData)
      else if unat (sh_RefCount sh ! 0) > simpleMaxShortRefs \<or> unat (sh_RefCount sh ! 1) > simpleMaxShortRefs
      then Some (Inl ErrUnsupported)
      else Option.bind (buildDefaultBRefList sh curPOC 0 d) (\<lambda>r0. case r0 of Inl e \<Rightarrow> Some (Inl e) | Inr def0 \<Rightarrow>
           map_option (\<lambda>r1. rbind r1 (b_lists sh d def0)) (buildDefaultBRefList sh curPOC 1 d)))"

section \<open>Implicit weights\<close>

definition simpleRefEntryPOC :: "simpleRefEntry \<Rightarrow> simpleFrameDPB \<Rightarrow> int" where
  "simpleRefEntryPOC e d = (case re_frame e of None \<Rightarrow> re_poc e | Some f \<Rightarrow>
     let fr = dp_heap d f in
     if re_poc e \<noteq> 0 then re_poc e
     else if re_pictureStructure e = PictureTopField \<and> fst (df_fieldPOC fr) \<noteq> MaxInt32 then fst (df_fieldPOC fr)
     else if re_pictureStructure e = PictureBottomField \<and> snd (df_fieldPOC fr) \<noteq> MaxInt32 then snd (df_fieldPOC fr)
     else df_poc fr)"

text \<open>The weight of a pair of short-term pictures, as both functions compute it.\<close>

definition implicit_weight :: "int \<Rightarrow> int \<Rightarrow> int \<Rightarrow> int" where
  "implicit_weight curPOC poc0 poc1 =
     (let td = clipInt (poc1 - poc0) (- 128) 127 in
      if td \<noteq> 0 then
        let tb = clipInt (curPOC - poc0) (- 128) 127;
            tx = (16384 + absInt td div 2) sdiv td;
            distScaleFactor = (tb * tx + 32) div 256
        in if distScaleFactor \<ge> - 64 \<and> distScaleFactor \<le> 128 then 64 - distScaleFactor else 32
      else 32)"

definition set_weight :: "nat \<Rightarrow> nat \<Rightarrow> nat \<Rightarrow> int \<Rightarrow> PredWeightTable \<Rightarrow> PredWeightTable" where
  "set_weight r0 r1 k w p = p\<lparr>pwt_ImplicitWeight := (pwt_ImplicitWeight p)[r0 := (pwt_ImplicitWeight p ! r0)
     [r1 := (pwt_ImplicitWeight p ! r0 ! r1)[k := w]]]\<rparr>"

definition use_implicit :: "PredWeightTable \<Rightarrow> PredWeightTable" where
  "use_implicit p = p\<lparr>pwt_UseWeight := 2, pwt_UseWeightChroma := 2, pwt_LumaLog2WeightDenom := 5, pwt_ChromaLog2WeightDenom := 5\<rparr>"

definition initImplicitBWeightTable ::
    "simpleRefEntry list \<times> simpleRefEntry list \<Rightarrow> u32 list \<Rightarrow> int \<Rightarrow> bool \<Rightarrow> simpleFrameDPB \<Rightarrow> (PredWeightTable, unit) go" where
  "initImplicitBWeightTable refs nrefs curPOC frameMBAFF d =
     thn (upd (\<lambda>p. p\<lparr>pwt_LumaWeightFlag := [0, 0], pwt_ChromaWeightFlag := [0, 0]\<rparr>))
     (let refCount0 = unat (nrefs ! 0); refCount1 = unat (nrefs ! 1) in
      thn (require (\<not> (refCount0 \<le> 0 \<or> refCount1 \<le> 0 \<or> refCount0 > length (fst refs) \<or> refCount1 > length (snd refs)
                       \<or> refCount0 > 48 \<or> refCount1 > 48)) ErrInvalidData)
      (if \<not> frameMBAFF \<and> refCount0 = 1 \<and> refCount1 = 1
          \<and> simpleRefEntryPOC (fst refs ! 0) d + simpleRefEntryPOC (snd refs ! 0) d = 2 * curPOC
       then upd (\<lambda>p. p\<lparr>pwt_UseWeight := 0, pwt_UseWeightChroma := 0\<rparr>)
       else thn (upd use_implicit)
         (forM [0..<refCount0] (\<lambda>ref0. forM [0..<refCount1] (\<lambda>ref1.
            let e0 = fst refs ! ref0; e1 = snd refs ! ref1;
                w = (if \<not> re_long e0 \<and> \<not> re_long e1 then implicit_weight curPOC (simpleRefEntryPOC e0 d) (simpleRefEntryPOC e1 d) else 32)
            in upd (\<lambda>p. set_weight ref0 ref1 1 w (set_weight ref0 ref1 0 w p)))))))"

definition implicitMBAFFFieldRefPOC :: "simpleRefEntry list \<Rightarrow> nat \<Rightarrow> simpleFrameDPB \<Rightarrow> (int \<times> bool) result" where
  "implicitMBAFFFieldRefPOC list ref d =
     (let frameIndex = ref div 2 in
      if frameIndex \<ge> length list then Inl ErrInvalidData
      else case re_frame (list ! frameIndex) of None \<Rightarrow> Inl ErrInvalidData | Some f \<Rightarrow>
        rbind (simpleFrameCurrentPOC (dp_heap d f) (if odd ref then PictureBottomField else PictureTopField)) (\<lambda>poc.
        Inr (poc, re_long (list ! frameIndex))))"

abbreviation (input) h264ImplicitMBAFFWeightOffset :: nat where "h264ImplicitMBAFFWeightOffset \<equiv> 16"

definition initImplicitBWeightTableFrameMBAFF ::
    "simpleRefEntry list \<times> simpleRefEntry list \<Rightarrow> u32 list \<Rightarrow> fref \<Rightarrow> simpleFrameDPB \<Rightarrow> (PredWeightTable, unit) go" where
  "initImplicitBWeightTableFrameMBAFF refs nrefs frame d =
     (let refCount0 = unat (nrefs ! 0); refCount1 = unat (nrefs ! 1) in
      thn (require (\<not> (refCount0 \<le> 0 \<or> refCount1 \<le> 0 \<or> refCount0 > length (fst refs) \<or> refCount1 > length (snd refs)
                       \<or> h264ImplicitMBAFFWeightOffset + refCount0 * 2 > 48 \<or> h264ImplicitMBAFFWeightOffset + refCount1 * 2 > 48)) ErrInvalidData)
      (thn (upd use_implicit)
      (forM [0..<2] (\<lambda>field.
         let curPOC = (if field = (0::nat) then fst else snd) (df_fieldPOC (dp_heap d frame)) in
         forM [0..<refCount0 * 2] (\<lambda>ref0.
         bnd (lift (implicitMBAFFFieldRefPOC (fst refs) ref0 d)) (\<lambda>(poc0, long0).
         forM [0..<refCount1 * 2] (\<lambda>ref1.
         bnd (lift (implicitMBAFFFieldRefPOC (snd refs) ref1 d)) (\<lambda>(poc1, long1).
         upd (set_weight (h264ImplicitMBAFFWeightOffset + ref0) (h264ImplicitMBAFFWeightOffset + ref1) field
            (if \<not> long0 \<and> \<not> long1 then implicit_weight curPOC poc0 poc1 else 32))))))))))"

section \<open>The context of a slice\<close>

record simpleFrameRefContext =
  rc_Refs :: "u8 h264PicturePlanes list \<times> u8 h264PicturePlanes list"
  rc_RefsHigh :: "u16 h264PicturePlanes list \<times> u16 h264PicturePlanes list"
  rc_Entries :: "simpleRefEntry list \<times> simpleRefEntry list"

definition ctx_zero :: simpleFrameRefContext where
  "ctx_zero = \<lparr>rc_Refs = ([], []), rc_RefsHigh = ([], []), rc_Entries = ([], [])\<rparr>"

definition cloneSimpleRefEntries :: "simpleRefEntry list \<Rightarrow> simpleRefEntry list" where
  "cloneSimpleRefEntries es = (if es = [] \<or> int (length es) > maxInt div 32 then [] else es)"

definition entry_planes :: "(DecodedFrame \<Rightarrow> 'a h264PicturePlanes) \<Rightarrow> simpleFrameDPB \<Rightarrow> simpleRefEntry \<Rightarrow> 'a h264PicturePlanes result" where
  "entry_planes planes d e = (case re_frame e of None \<Rightarrow> Inl Panic | Some f \<Rightarrow>
     Inr ((applySimpleFieldRefPlane (re_pictureStructure e) (planes (dp_heap d f)))\<lparr>pl_trustedLayout := True\<rparr>))"

fun rmap :: "('a \<Rightarrow> 'b result) \<Rightarrow> 'a list \<Rightarrow> 'b list result" where
  "rmap f [] = Inr []"
| "rmap f (x # xs) = rbind (f x) (\<lambda>y. rbind (rmap f xs) (\<lambda>ys. Inr (y # ys)))"

definition entry_planes_refs :: "(DecodedFrame \<Rightarrow> 'a h264PicturePlanes) \<Rightarrow> simpleRefEntry list \<Rightarrow> simpleFrameDPB \<Rightarrow> 'a h264PicturePlanes list result" where
  "entry_planes_refs planes es d =
     (if es = [] \<or> int (length es) > maxInt div 32 then Inr [] else rmap (entry_planes planes d) es)"

definition simpleFrameEntryPlanesRefs :: "simpleRefEntry list \<Rightarrow> simpleFrameDPB \<Rightarrow> u8 h264PicturePlanes list result" where
  "simpleFrameEntryPlanesRefs = entry_planes_refs picturePlanes"

definition simpleFrameEntryPlanesRefsHigh :: "simpleRefEntry list \<Rightarrow> simpleFrameDPB \<Rightarrow> u16 h264PicturePlanes list result" where
  "simpleFrameEntryPlanesRefsHigh = entry_planes_refs picturePlanesHigh"

text \<open>The planes of both lists, at the sample width of the current frame.\<close>

definition context_of :: "bool \<Rightarrow> simpleRefEntry list \<times> simpleRefEntry list \<Rightarrow> simpleFrameDPB \<Rightarrow> simpleFrameRefContext result" where
  "context_of highDepth es d =
     (if highDepth then
        rbind (simpleFrameEntryPlanesRefsHigh (fst es) d) (\<lambda>r0. rbind (simpleFrameEntryPlanesRefsHigh (snd es) d) (\<lambda>r1.
        Inr (ctx_zero\<lparr>rc_RefsHigh := (r0, r1), rc_Entries := es\<rparr>)))
      else
        rbind (simpleFrameEntryPlanesRefs (fst es) d) (\<lambda>r0. rbind (simpleFrameEntryPlanesRefs (snd es) d) (\<lambda>r1.
        Inr (ctx_zero\<lparr>rc_Refs := (r0, r1), rc_Entries := es\<rparr>))))"

definition p_entries :: "bool \<Rightarrow> SliceHeader \<Rightarrow> simpleFrameDPB \<Rightarrow> simpleRefEntry list result" where
  "p_entries scratch sh d =
     (if scratch then rbind (buildDefaultPRefList sh d) (\<lambda>list. applyRefModificationsEntries list sh 0 d)
      else rbind (buildPRefEntries sh d) (\<lambda>list. Inr (cloneSimpleRefEntries list)))"

definition implicit_weights :: "SliceHeader \<Rightarrow> simpleRefEntry list \<times> simpleRefEntry list \<Rightarrow> int \<Rightarrow> fref \<Rightarrow> simpleFrameDPB \<Rightarrow> (PredWeightTable, unit) go" where
  "implicit_weights sh refs curPOC frame d =
     (case (sh_PPS sh, sh_SPS sh) of (Some pps, Some sps) \<Rightarrow>
        if pps_WeightedBipredIDC pps = 2 then
          let frameMBAFF = (sh_PictureStructure sh = PictureFrame \<and> sps_FrameMBSOnlyFlag sps = 0 \<and> sps_MBAFF sps \<noteq> 0) in
          thn (initImplicitBWeightTable refs (sh_RefCount sh) curPOC frameMBAFF d)
              (whenM frameMBAFF (initImplicitBWeightTableFrameMBAFF refs (sh_RefCount sh) frame d))
        else ret ()
      | _ \<Rightarrow> ret ())"

text \<open>What a B slice does with its lists: the weights, which are stored in the slice header, and the pictures.\<close>

definition b_context :: "bool \<Rightarrow> SliceHeader \<Rightarrow> fref \<Rightarrow> int \<Rightarrow> simpleFrameDPB \<Rightarrow> (simpleRefEntry list \<times> simpleRefEntry list) result
    \<Rightarrow> simpleFrameRefContext result \<times> SliceHeader" where
  "b_context scratch sh f curPOC d r = (case r of Inl e \<Rightarrow> (Inl e, sh) | Inr refs \<Rightarrow>
     (case implicit_weights sh refs curPOC f d (sh_PredWeightTable sh) of
        (Inl e, p) \<Rightarrow> (Inl e, sh\<lparr>sh_PredWeightTable := p\<rparr>)
      | (Inr _, p) \<Rightarrow>
          (context_of (df_BitDepthLuma (dp_heap d f) > 8)
             (if scratch then refs else (cloneSimpleRefEntries (fst refs), cloneSimpleRefEntries (snd refs))) d,
           sh\<lparr>sh_PredWeightTable := p\<rparr>)))"

definition buildRefContextInto :: "bool \<Rightarrow> SliceHeader \<Rightarrow> fref option \<Rightarrow> simpleFrameDPB \<Rightarrow> (simpleFrameRefContext result \<times> SliceHeader) option" where
  "buildRefContextInto scratch sh frame d =
     (if sh_SPS sh = None then Some (Inl ErrInvalidData, sh)
      else if sh_SliceTypeNoS sh = PictureTypeI then Some (Inr ctx_zero, sh)
      else if sh_SliceTypeNoS sh = PictureTypeP then
        let highDepth = (case frame of None \<Rightarrow> False | Some f \<Rightarrow> df_BitDepthLuma (dp_heap d f) > 8) in
        Some (rbind (p_entries scratch sh d) (\<lambda>es. context_of highDepth (es, []) d), sh)
      else if sh_SliceTypeNoS sh = PictureTypeB then
        (case frame of None \<Rightarrow> Some (Inl ErrInvalidData, sh) | Some f \<Rightarrow>
         case simpleFrameCurrentPOC (dp_heap d f) (sh_PictureStructure sh) of
           Inl e \<Rightarrow> Some (Inl e, sh)
         | Inr curPOC \<Rightarrow> map_option (b_context scratch sh f curPOC d) (buildBRefEntries sh curPOC d))
      else Some (Inl ErrUnsupported, sh))"

definition buildRefContext :: "SliceHeader \<Rightarrow> fref option \<Rightarrow> simpleFrameDPB \<Rightarrow> (simpleFrameRefContext result \<times> SliceHeader) option" where
  "buildRefContext sh frame d = buildRefContextInto False sh frame d"

text \<open>The same lists as pictures or frames only.\<close>

definition simpleFrameEntryFrames :: "simpleRefEntry list \<Rightarrow> fref option list" where
  "simpleFrameEntryFrames es = (if es = [] \<or> int (length es) > maxInt div 32 then [] else map re_frame es)"

definition buildPRefList :: "SliceHeader \<Rightarrow> simpleFrameDPB \<Rightarrow> fref option list result" where
  "buildPRefList sh d = rbind (buildPRefEntries sh d) (\<lambda>es. Inr (simpleFrameEntryFrames es))"

definition buildBRefLists :: "SliceHeader \<Rightarrow> int \<Rightarrow> simpleFrameDPB \<Rightarrow> (fref option list \<times> fref option list) result option" where
  "buildBRefLists sh curPOC d = map_option (\<lambda>r. rbind r (\<lambda>(l0, l1).
     Inr (simpleFrameEntryFrames l0, simpleFrameEntryFrames l1))) (buildBRefEntries sh curPOC d)"

definition applyRefModifications :: "simpleRefEntry list \<Rightarrow> SliceHeader \<Rightarrow> nat \<Rightarrow> simpleFrameDPB \<Rightarrow> fref option list result" where
  "applyRefModifications list sh l d = rbind (applyRefModificationsEntries list sh l d) (\<lambda>es. Inr (simpleFrameEntryFrames es))"

definition buildRefLists :: "SliceHeader \<Rightarrow> fref option \<Rightarrow> simpleFrameDPB \<Rightarrow> ((u8 h264PicturePlanes list \<times> u8 h264PicturePlanes list) result \<times> SliceHeader) option" where
  "buildRefLists sh frame d = map_option (\<lambda>(r, sh). (rbind r (\<lambda>c. Inr (rc_Refs c)), sh)) (buildRefContext sh frame d)"

definition buildRefListsHigh :: "SliceHeader \<Rightarrow> fref option \<Rightarrow> simpleFrameDPB \<Rightarrow> ((u16 h264PicturePlanes list \<times> u16 h264PicturePlanes list) result \<times> SliceHeader) option" where
  "buildRefListsHigh sh frame d = map_option (\<lambda>(r, sh). (rbind r (\<lambda>c. Inr (rc_RefsHigh c)), sh)) (buildRefContext sh frame d)"

definition saveRefEntries :: "simpleRefEntry list \<times> simpleRefEntry list \<Rightarrow> int \<Rightarrow> DecodedFrame \<Rightarrow> DecodedFrame" where
  "saveRefEntries entries pictureStructure f =
     (let es = (cloneSimpleRefEntries (fst entries), cloneSimpleRefEntries (snd entries));
          f = f\<lparr>df_refEntries := es\<rparr>
      in if pictureStructure = PictureTopField then f\<lparr>df_fieldRefEntries := (es, snd (df_fieldRefEntries f))\<rparr>
         else if pictureStructure = PictureBottomField then f\<lparr>df_fieldRefEntries := (fst (df_fieldRefEntries f), es)\<rparr>
         else if pictureStructure = PictureFrame then f\<lparr>df_fieldRefEntries := (es, es)\<rparr>
         else f)"

end
