(* ===== verification/Ref_Order.thy ===== *)
theory Ref_Order
  imports Ref_Lists
begin

text \<open>
  What the reference lists hold: the search in order of count returns the pictures sorted, when no
  count is the least \<open>int32\<close>, and does not return at all when one is; the modification commands put
  the pictures they name first and keep the order of the others.
\<close>

section \<open>The search in order of count\<close>

definition pocOf :: "simpleFrameDPB \<Rightarrow> fref \<Rightarrow> int" where
  "pocOf d f = df_poc (dp_heap d f)"

definition ahead :: "bool \<Rightarrow> int \<Rightarrow> int \<Rightarrow> bool" where
  "ahead down limit p \<longleftrightarrow> (if down then p \<le> limit else limit < p)"

lemma scan_best_down:
  "scan_best poc True limit fs (b, x) = (b', x') \<Longrightarrow>
     (b', x') = (b, x) \<and> (\<forall>g\<in>set fs. poc g \<le> limit \<longrightarrow> poc g < b)
     \<or> b \<le> b' \<and> (\<exists>f\<in>set fs. x' = Some f \<and> b' = poc f \<and> poc f \<le> limit) \<and> (\<forall>g\<in>set fs. poc g \<le> limit \<longrightarrow> poc g \<le> b')"
proof (induction fs arbitrary: b x)
  case (Cons f fs)
  show ?case
  proof (cases "better True limit b (poc f)")
    case True
    then have "scan_best poc True limit fs (poc f, Some f) = (b', x')" using Cons.prems by simp
    from Cons.IH [OF this] True show ?thesis by (auto simp: better_def)
  next
    case False
    then have "scan_best poc True limit fs (b, x) = (b', x')" using Cons.prems by simp
    from Cons.IH [OF this] False show ?thesis by (auto simp: better_def)
  qed
qed simp

lemma scan_best_up:
  "scan_best poc False limit fs (b, x) = (b', x') \<Longrightarrow>
     (b', x') = (b, x) \<and> (\<forall>g\<in>set fs. limit < poc g \<longrightarrow> b \<le> poc g)
     \<or> b' < b \<and> (\<exists>f\<in>set fs. x' = Some f \<and> b' = poc f \<and> limit < poc f) \<and> (\<forall>g\<in>set fs. limit < poc g \<longrightarrow> b' \<le> poc g)"
proof (induction fs arbitrary: b x)
  case (Cons f fs)
  show ?case
  proof (cases "better False limit b (poc f)")
    case True
    then have "scan_best poc False limit fs (poc f, Some f) = (b', x')" using Cons.prems by simp
    from Cons.IH [OF this] True show ?thesis by (auto simp: better_def)
  next
    case False
    then have "scan_best poc False limit fs (b, x) = (b', x')" using Cons.prems by simp
    from Cons.IH [OF this] False show ?thesis by (auto simp: better_def)
  qed
qed simp

text \<open>The counts the search can handle.\<close>

definition pocs_inside :: "simpleFrameDPB \<Rightarrow> bool" where
  "pocs_inside d \<longleftrightarrow> list_all (\<lambda>f. MinInt32 < pocOf d f \<and> pocOf d f < MaxInt32) (dp_short d)"

lemma best_ref_None:
  assumes "pocs_inside d" "best_ref down limit d = None" "f \<in> set (dp_short d)"
  shows "\<not> ahead down limit (pocOf d f)"
proof -
  have p: "MinInt32 < pocOf d f" "pocOf d f < MaxInt32" using assms by (auto simp: pocs_inside_def list_all_iff)
  obtain b x where s: "scan_best (pocOf d) down limit (dp_short d) (if down then MinInt32 else MaxInt32, None) = (b, x)"
    by fastforce
  have x: "x = None" using assms(2) s by (simp add: best_ref_def pocOf_def [abs_def])
  show ?thesis
  proof (cases down)
    case True
    with s scan_best_down [of "pocOf d" limit "dp_short d" MinInt32 None b x] x assms(3) p show ?thesis
      by (auto simp: ahead_def)
  next
    case False
    with s scan_best_up [of "pocOf d" limit "dp_short d" MaxInt32 None b x] x assms(3) p show ?thesis
      by (auto simp: ahead_def)
  qed
qed

lemma best_ref_Some:
  assumes "best_ref down limit d = Some f"
  shows "f \<in> set (dp_short d)" "ahead down limit (pocOf d f)"
    "g \<in> set (dp_short d) \<Longrightarrow> ahead down limit (pocOf d g) \<Longrightarrow> (if down then pocOf d g \<le> pocOf d f else pocOf d f \<le> pocOf d g)"
proof -
  obtain b x where s: "scan_best (pocOf d) down limit (dp_short d) (if down then MinInt32 else MaxInt32, None) = (b, x)"
    by fastforce
  have x: "x = Some f" using assms s by (simp add: best_ref_def pocOf_def [abs_def])
  have "f \<in> set (dp_short d) \<and> ahead down limit (pocOf d f) \<and>
    (\<forall>g\<in>set (dp_short d). ahead down limit (pocOf d g) \<longrightarrow> (if down then pocOf d g \<le> pocOf d f else pocOf d f \<le> pocOf d g))"
  proof (cases down)
    case True
    with s scan_best_down [of "pocOf d" limit "dp_short d" MinInt32 None b x] x show ?thesis by (auto simp: ahead_def)
  next
    case False
    with s scan_best_up [of "pocOf d" limit "dp_short d" MaxInt32 None b x] x show ?thesis by (auto simp: ahead_def)
  qed
  then show "f \<in> set (dp_short d)" "ahead down limit (pocOf d f)"
    "g \<in> set (dp_short d) \<Longrightarrow> ahead down limit (pocOf d g) \<Longrightarrow> (if down then pocOf d g \<le> pocOf d f else pocOf d f \<le> pocOf d g)"
    by blast+
qed

definition in_order :: "bool \<Rightarrow> int \<Rightarrow> simpleFrameDPB \<Rightarrow> fref list \<Rightarrow> bool" where
  "in_order down limit d xs \<longleftrightarrow> set xs \<subseteq> set (dp_short d)
     \<and> sorted_wrt (\<lambda>a b. if down then b < a else a < b) (map (pocOf d) xs)
     \<and> pocOf d ` set xs = {p \<in> pocOf d ` set (dp_short d). ahead down limit p}"

lemma in_order_Cons:
  assumes "best_ref down limit d = Some f" "in_order down l' d xs"
    and "l' = (if down then pocOf d f - 1 else pocOf d f)"
  shows "in_order down limit d (f # xs)"
proof -
  note b = best_ref_Some [OF assms(1)]
  have i: "pocOf d ` set xs = {p \<in> pocOf d ` set (dp_short d). ahead down l' p}" and s: "set xs \<subseteq> set (dp_short d)"
    and w: "sorted_wrt (\<lambda>a b. if down then b < a else a < b) (map (pocOf d) xs)"
    using assms(2) by (auto simp: in_order_def)
  have "if down then x < pocOf d f else pocOf d f < x" if "x \<in> pocOf d ` set xs" for x
    using that unfolding i by (auto simp: assms(3) ahead_def)
  moreover have "pocOf d ` set (f # xs) = {p \<in> pocOf d ` set (dp_short d). ahead down limit p}"
  proof -
    have "p = pocOf d f \<or> ahead down l' p" if "p \<in> pocOf d ` set (dp_short d)" "ahead down limit p" for p
    proof -
      from that(1) obtain g where g: "p = pocOf d g" "g \<in> set (dp_short d)" by (rule imageE)
      from b(3) [OF g(2)] that(2) show ?thesis unfolding g(1) by (auto simp: assms(3) ahead_def split: if_splits)
    qed
    moreover have "ahead down limit p" if "ahead down l' p" for p
      using that b(2) by (auto simp: assms(3) ahead_def split: if_splits)
    ultimately show ?thesis using b(1,2) i by auto
  qed
  ultimately show ?thesis using s w b(1) by (auto simp: in_order_def)
qed

lemma addSorted_loop_spec:
  assumes "pocs_inside d"
  shows "\<exists>xs. addSorted_loop down d limit out = Some (out @ xs) \<and> in_order down limit d xs"
proof (induction "card {p \<in> pocOf d ` set (dp_short d). ahead down limit p}" arbitrary: limit out rule: less_induct)
  case less
  show ?case
  proof (cases "best_ref down limit d")
    case None
    then have "addSorted_loop down d limit out = Some (out @ [])" by (subst addSorted_loop.simps) simp
    moreover have "in_order down limit d []" using best_ref_None [OF assms None] by (auto simp: in_order_def)
    ultimately show ?thesis by blast
  next
    case (Some f)
    note b = best_ref_Some [OF Some]
    define l' where "l' = (if down then pocOf d f - 1 else pocOf d f)"
    have "MinInt32 < pocOf d f" "pocOf d f < MaxInt32"
      using assms b(1) by (auto simp: pocs_inside_def list_all_iff)
    then have "(if down then i32 (pocOf d f - 1) else pocOf d f) = l'" by (simp add: l'_def i32_id)
    then have e: "addSorted_loop down d limit out = addSorted_loop down d l' (out @ [f])"
      unfolding addSorted_loop.simps [of down d limit out] Some Let_def pocOf_def option.case by (rule arg_cong)
    have "{p \<in> pocOf d ` set (dp_short d). ahead down l' p} \<subset> {p \<in> pocOf d ` set (dp_short d). ahead down limit p}"
    proof
      show "{p \<in> pocOf d ` set (dp_short d). ahead down l' p} \<subseteq> {p \<in> pocOf d ` set (dp_short d). ahead down limit p}"
        using b(2) by (auto simp: ahead_def l'_def split: if_splits)
      have "\<not> ahead down l' (pocOf d f)" by (simp add: ahead_def l'_def)
      then show "{p \<in> pocOf d ` set (dp_short d). ahead down l' p} \<noteq> {p \<in> pocOf d ` set (dp_short d). ahead down limit p}"
        using b(1,2) by blast
    qed
    from less.hyps [OF psubset_card_mono [OF _ this], of "out @ [f]"] obtain xs where
      "addSorted_loop down d l' (out @ [f]) = Some ((out @ [f]) @ xs)" "in_order down l' d xs"
      by auto
    then show ?thesis using e in_order_Cons [OF Some _ l'_def] by auto
  qed
qed

text \<open>The order of the standard: by count, downwards from the current picture or upwards from it.\<close>

definition by_count :: "bool \<Rightarrow> int \<Rightarrow> simpleFrameDPB \<Rightarrow> fref list" where
  "by_count down curPOC d = (if down then rev else id) (sort_key (pocOf d) (filter (\<lambda>f. ahead down curPOC (pocOf d f)) (dp_short d)))"

lemma sorted_wrt_less_unique:
  "sorted_wrt (<) xs \<Longrightarrow> sorted_wrt (<) ys \<Longrightarrow> set xs = set ys \<Longrightarrow> xs = (ys :: int list)"
  by (simp add: strict_sorted_equal)

lemma in_order_unique:
  assumes "distinct (map (pocOf d) (dp_short d))" "in_order down cur d xs"
  shows "xs = by_count down cur d"
proof -
  let ?p = "pocOf d" and ?fs = "filter (\<lambda>f. ahead down cur (pocOf d f)) (dp_short d)"
  define ys where "ys = (if down then rev xs else xs)"
  have s: "set ys \<subseteq> set (dp_short d)" "?p ` set ys = {p \<in> ?p ` set (dp_short d). ahead down cur p}"
    and w: "sorted_wrt (<) (map ?p ys)"
    using assms(2) by (auto simp: in_order_def ys_def sorted_wrt_map sorted_wrt_rev)
  have "distinct (map ?p ?fs)" using assms(1) by (simp add: distinct_map_filter)
  then have d: "distinct (map ?p (sort_key ?p ?fs))" by (simp add: distinct_map)
  have "sorted (map ?p (sort_key ?p ?fs))" by simp
  then have "sorted_wrt (<) (map ?p (sort_key ?p ?fs))" using d by (simp add: strict_sorted_iff)
  from sorted_wrt_less_unique [OF w this] have m: "map ?p ys = map ?p (sort_key ?p ?fs)"
    using s(2) by auto
  have "inj_on ?p (set ys \<union> set (sort_key ?p ?fs))"
    using assms(1) s(1) by (auto simp: distinct_map intro: inj_on_subset)
  then have "ys = sort_key ?p ?fs" using m inj_on_map_eq_map by blast
  then show ?thesis by (simp add: by_count_def ys_def split: if_splits) (metis rev_rev_ident)
qed

lemma addSorted_by_count:
  assumes "pocs_inside d" "distinct (map (pocOf d) (dp_short d))"
  shows "addSortedShortRefs curPOC down d out = Some (out @ by_count down curPOC d)"
  using addSorted_loop_spec [OF assms(1), of down curPOC out] in_order_unique [OF assms(2)]
  by (auto simp: addSortedShortRefs_def)

text \<open>
  C33. The short-term pictures of a B slice's default lists: when their counts differ and lie strictly
  within the \<open>int32\<close> range, the repeated scan equals the sort of the standard - for list 0 the
  pictures before the current one, latest first, then those after it, earliest first, and for list 1
  the other way round.
\<close>

theorem default_B_order:
  assumes "pocs_inside d" "distinct (map (pocOf d) (dp_short d))" "list = 0 \<or> list = 1"
  shows "buildDefaultBRefList sh curPOC list d = Some (
     let sorted = (if list = 0 then by_count True curPOC d @ by_count False curPOC d
                   else by_count False curPOC d @ by_count True curPOC d) in
     rbind (buildDefaultEntriesFromFrames (map Some sorted) sh False d) (\<lambda>entries.
     rbind (buildDefaultEntriesFromFrames (dp_long d) sh True d) (\<lambda>lg. Inr (entries @ lg))))"
  using assms(3) by (auto simp: buildDefaultBRefList_def addSorted_by_count [OF assms(1,2)] Let_def)

section \<open>A search that does not return\<close>

lemma best_ref_least:
  assumes "f \<in> set (dp_short d)" "pocOf d f = MinInt32" "MinInt32 \<le> limit"
  shows "best_ref True limit d \<noteq> None"
proof
  assume n: "best_ref True limit d = None"
  obtain b x where s: "scan_best (pocOf d) True limit (dp_short d) (MinInt32, None) = (b, x)" by fastforce
  have "x = None" using n s by (simp add: best_ref_def pocOf_def [abs_def])
  then show False using scan_best_down [OF s] assms by auto
qed

lemma addSorted_loop_hangs:
  assumes "f \<in> set (dp_short d)" "pocOf d f = MinInt32" "addSorted_loop True d limit out = Some r"
  shows "\<not> MinInt32 \<le> limit"
proof -
  have "down \<longrightarrow> d' = d \<longrightarrow> \<not> MinInt32 \<le> limit" if "addSorted_loop down d' limit out = Some r" for down d' limit out
  proof (rule addSorted_loop.raw_induct [where P = "\<lambda>down d' limit out r. down \<longrightarrow> d' = d \<longrightarrow> \<not> MinInt32 \<le> limit", OF _ that], goal_cases)
    case (1 loop down d' limit out y)
    show ?case
    proof (intro impI notI)
      assume a: "down" "d' = d" "MinInt32 \<le> limit"
      from best_ref_least [OF assms(1,2) a(3)] obtain g where "best_ref True limit d = Some g" by blast
      then have "loop True d (i32 (pocOf d g - 1)) (out @ [g]) = Some y"
        using 1(2) a by (simp add: Let_def pocOf_def)
      then have "\<not> MinInt32 \<le> i32 (pocOf d g - 1)" using 1(1) by blast
      then show False using i32_range [of "pocOf d g - 1"] by simp
    qed
  qed
  then show ?thesis using assms(3) by blast
qed

lemma addSorted_hangs:
  assumes "f \<in> set (dp_short d)" "pocOf d f = MinInt32" "MinInt32 \<le> curPOC"
  shows "addSortedShortRefs curPOC True d out = None"
proof (cases "addSorted_loop True d curPOC out")
  case (Some r)
  then show ?thesis using addSorted_loop_hangs [OF assms(1,2) Some] assms(3) by simp
qed (simp add: addSortedShortRefs_def)

text \<open>
  C34. A B slice whose buffer holds a short-term reference with the count \<open>-2^31\<close> is never decoded:
  the search for list 0 finds it, sets the next limit to its count minus one, which wraps to the
  greatest count, and starts again - for ever, appending to the list all the while. (The count is
  within reach of a stream: see the witness.)
\<close>

theorem default_B_order_hangs:
  assumes "f \<in> set (dp_short d)" "pocOf d f = MinInt32" "MinInt32 \<le> curPOC"
    and "0 < unat (sh_RefCount sh ! 0)" "unat (sh_RefCount sh ! 0) \<le> 16"
    and "0 < unat (sh_RefCount sh ! 1)" "unat (sh_RefCount sh ! 1) \<le> 16"
  shows "buildBRefEntries sh curPOC d = None"
  using assms(4-7) by (auto simp: buildBRefEntries_def buildDefaultBRefList_def addSorted_hangs [OF assms(1-3)])

section \<open>The entries come from the buffer\<close>

text \<open>No panic, and a property of the value.\<close>

definition res_ok :: "('a \<Rightarrow> bool) \<Rightarrow> 'a result \<Rightarrow> bool" where
  "res_ok P r \<longleftrightarrow> (case r of Inl e \<Rightarrow> e \<noteq> Panic | Inr a \<Rightarrow> P a)"

lemma res_ok_simps [simp]: "res_ok P (Inr a) = P a" "res_ok P (Inl e) = (e \<noteq> Panic)"
  by (simp_all add: res_ok_def)

lemma res_ok_rbind: "res_ok Q r \<Longrightarrow> (\<And>a. r = Inr a \<Longrightarrow> Q a \<Longrightarrow> res_ok P (f a)) \<Longrightarrow> res_ok P (rbind r f)"
  by (cases r) auto

lemma res_ok_mono: "res_ok P r \<Longrightarrow> (\<And>a. P a \<Longrightarrow> Q a) \<Longrightarrow> res_ok Q r"
  by (cases r) auto

definition entry_in :: "fref option set \<Rightarrow> simpleRefEntry \<Rightarrow> bool" where
  "entry_in fs e \<longleftrightarrow> re_frame e \<noteq> None \<and> re_frame e \<in> fs"

lemma entry_in_mono: "entry_in S e \<Longrightarrow> S \<subseteq> A \<Longrightarrow> entry_in A e"
  by (auto simp: entry_in_def)

lemma matches_ok [simp]: "res_ok (\<lambda>_. True) (matchesSPS f sps)"
  by (simp add: matchesSPS_def split: option.split)

lemma currentPOC_ok [simp]: "res_ok (\<lambda>_. True) (simpleFrameCurrentPOC f s)"
  by (simp add: simpleFrameCurrentPOC_def)

lemma fieldRefEntry_ok: "res_ok (entry_in {f}) (fieldRefEntry f sps s long i a d)"
  unfolding fieldRefEntry_def Let_def
  by (auto split: option.split simp: entry_in_def intro!: res_ok_rbind [OF matches_ok] res_ok_rbind [OF currentPOC_ok])

lemma frame_entries_ok:
  "set fs \<subseteq> A \<Longrightarrow> res_ok (\<lambda>es. list_all (entry_in A) es) (frame_entries sps long d i fs)"
proof (induction sps long d i fs rule: frame_entries.induct)
  case (3 sps long d i f fs)
  have "set fs \<subseteq> A" "Some f \<in> A" using "3.prems" by auto
  then show ?case
    unfolding frame_entries.simps Let_def
    by (intro res_ok_rbind [OF matches_ok] res_ok_rbind [OF "3.IH" [OF refl \<open>set fs \<subseteq> A\<close>]])
       (simp_all add: entry_in_def)
qed auto

lemma take_field_ok:
  "set frames \<subseteq> A \<Longrightarrow> res_ok (\<lambda>(es, _). list_all (entry_in A) es) (take_field frames sps s long a d i)"
  unfolding take_field_def
  by (auto intro!: res_ok_rbind [OF fieldRefEntry_ok] elim!: entry_in_mono dest!: nth_mem)

lemma field_entries_ok:
  "set frames \<subseteq> A \<Longrightarrow> res_ok (\<lambda>es. list_all (entry_in A) es) (field_entries frames sps sel long d i j)"
proof (induction frames sps sel long d i j rule: field_entries.induct)
  case (1 frames sps sel long d i j)
  let ?a = "take_field frames sps sel long 1 d (next_with frames sel d i)"
  let ?b = "take_field frames sps (simpleOppositeField sel) long 0 d (next_with frames (simpleOppositeField sel) d j)"
  show ?case
  proof (cases "i < length frames \<or> j < length frames")
    case True
    show ?thesis
    proof (cases ?a)
      case (Inl e)
      then show ?thesis using take_field_ok [OF "1.prems", of sps sel long 1 d "next_with frames sel d i"] True
        by (subst field_entries.simps) simp
    next
      case (Inr p)
      obtain es i' where p: "p = (es, i')" by fastforce
      have a: "list_all (entry_in A) es" using take_field_ok [OF "1.prems", of sps sel long 1 d "next_with frames sel d i"] Inr p by simp
      note tb = take_field_ok [OF "1.prems", of sps "simpleOppositeField sel" long 0 d "next_with frames (simpleOppositeField sel) d j"]
      show ?thesis
      proof (cases ?b)
        case (Inl e)
        then show ?thesis using tb True Inr p by (subst field_entries.simps) simp
      next
        case (Inr q)
        obtain es' j' where q: "q = (es', j')" by fastforce
        have b: "list_all (entry_in A) es'" using tb Inr q by simp
        have "field_entries frames sps sel long d i j =
            rbind (field_entries frames sps sel long d i' j') (\<lambda>rest. Inr (es @ es' @ rest))"
          using True Inr q \<open>?a = Inr p\<close> p by (subst field_entries.simps) simp
        then show ?thesis
          using a b by (auto intro!: res_ok_rbind [OF "1.IH" [OF True \<open>?a = Inr p\<close> p [symmetric] Inr q [symmetric] "1.prems"]])
      qed
    qed
  qed (subst field_entries.simps, simp)
qed

lemma default_entries_ok:
  "set frames \<subseteq> A \<Longrightarrow> res_ok (\<lambda>es. list_all (entry_in A) es) (buildDefaultEntriesFromFrames frames sh long d)"
  by (auto simp: buildDefaultEntriesFromFrames_def intro: frame_entries_ok field_entries_ok)

text \<open>The references of the buffer.\<close>

definition dpb_refs :: "simpleFrameDPB \<Rightarrow> fref option set" where
  "dpb_refs d = Some ` set (dp_short d) \<union> set (dp_long d)"

lemma default_P_ok: "res_ok (\<lambda>es. list_all (entry_in (dpb_refs d)) es) (buildDefaultPRefList sh d)"
  unfolding buildDefaultPRefList_def
  by (rule res_ok_rbind [OF default_entries_ok [of _ "dpb_refs d"]], force simp: dpb_refs_def,
      rule res_ok_rbind [OF default_entries_ok [of _ "dpb_refs d"]]) (auto simp: dpb_refs_def)

lemma by_count_set: "set (by_count down cur d) \<subseteq> set (dp_short d)"
  by (auto simp: by_count_def)

lemma addSorted_total:
  assumes "pocs_inside d"
  shows "\<exists>xs. addSortedShortRefs cur down d out = Some (out @ xs) \<and> set xs \<subseteq> set (dp_short d)"
  using addSorted_loop_spec [OF assms, of down cur out] by (auto simp: addSortedShortRefs_def in_order_def)

lemma default_B_ok:
  assumes "pocs_inside d" "l \<le> 1"
  shows "\<exists>r. buildDefaultBRefList sh cur l d = Some r \<and> res_ok (\<lambda>es. list_all (entry_in (dpb_refs d)) es) r"
proof -
  obtain xs where x: "addSortedShortRefs cur (l = 0) d [] = Some ([] @ xs)" "set xs \<subseteq> set (dp_short d)"
    using addSorted_total [OF assms(1)] by blast
  obtain ys where y: "addSortedShortRefs cur (l = 1) d xs = Some (xs @ ys)" "set ys \<subseteq> set (dp_short d)"
    using addSorted_total [OF assms(1)] by blast
  have l: "\<not> (l \<noteq> 0 \<and> l \<noteq> 1)" using assms(2) by linarith
  have s: "set (map Some (xs @ ys)) \<subseteq> dpb_refs d" "set (dp_long d) \<subseteq> dpb_refs d"
    using x(2) y(2) by (auto simp: dpb_refs_def)
  have "res_ok (\<lambda>es. list_all (entry_in (dpb_refs d)) es)
     (rbind (buildDefaultEntriesFromFrames (map Some (xs @ ys)) sh False d) (\<lambda>entries.
      rbind (buildDefaultEntriesFromFrames (dp_long d) sh True d) (\<lambda>lg. Inr (entries @ lg))))"
    by (rule res_ok_rbind [OF default_entries_ok [OF s(1)]], rule res_ok_rbind [OF default_entries_ok [OF s(2)]]) simp
  then show ?thesis unfolding buildDefaultBRefList_def if_not_P [OF l] using x(1) y(1) by simp
qed

section \<open>Modification commands\<close>

lemma match_index_bounds:
  "index < n \<Longrightarrow> index \<le> match_index n lg p xs index \<and> match_index n lg p xs index < n"
proof (induction n lg p xs index rule: match_index.induct)
  case (1 n lg p xs i)
  then show ?case by (subst (1 2) match_index.simps) auto
qed

lemma shift_down_eq:
  "index \<le> i \<Longrightarrow> i < length xs \<Longrightarrow> shift_down index i xs = take (Suc index) xs @ drop index (take i xs) @ drop (Suc i) xs"
proof (induction i arbitrary: xs)
  case (Suc i)
  show ?case
  proof (cases "Suc i > index")
    case True
    let ?ys = "xs[Suc i := xs ! i]"
    have "shift_down index (Suc i) xs = shift_down index i ?ys" using True by simp
    also have "\<dots> = take (Suc index) ?ys @ drop index (take i ?ys) @ drop (Suc i) ?ys"
      using True Suc.prems by (intro Suc.IH) auto
    also have "drop (Suc i) ?ys = xs ! i # drop (Suc (Suc i)) xs"
      using Suc.prems(2) by (simp add: drop_update_swap Cons_nth_drop_Suc [symmetric])
    finally show ?thesis using True Suc.prems(2) by (simp add: take_Suc_conv_app_nth)
  next
    case False
    then have "index = Suc i" using Suc.prems(1) by simp
    then show ?thesis using append_take_drop_id [of "Suc (Suc i)" xs] by simp
  qed
qed simp

lemma place_entry_eq:
  assumes "index < n" "n \<le> length xs"
  obtains i where "index \<le> i" "i < n" "place_entry index n e xs = take index xs @ e # drop index (take i xs) @ drop (Suc i) xs"
proof -
  define i where "i = match_index n (re_long e) (re_picID e) xs index"
  have i: "index \<le> i" "i < n" using match_index_bounds [OF assms(1)] by (simp_all add: i_def)
  have "place_entry index n e xs = (take (Suc index) xs @ drop index (take i xs) @ drop (Suc i) xs)[index := e]"
    using i assms(2) by (simp add: place_entry_def i_def [symmetric] shift_down_eq)
  also have "\<dots> = take index xs @ e # drop index (take i xs) @ drop (Suc i) xs"
    using assms by (simp add: take_Suc_conv_app_nth list_update_append)
  finally show thesis using that i by blast
qed

lemma place_entry_parts:
  assumes "index < n" "n \<le> length xs"
  shows "length (place_entry index n e xs) = length xs"
    "take (Suc index) (place_entry index n e xs) = take index xs @ [e]"
    "subseq (drop (Suc index) (place_entry index n e xs)) (drop index xs)"
proof -
  obtain i where i: "index \<le> i" "i < n" "place_entry index n e xs = take index xs @ e # drop index (take i xs) @ drop (Suc i) xs"
    using place_entry_eq [OF assms] .
  have l: "min (length xs) index = index" "min (length xs) i = i" using i(1,2) assms(2) by auto
  show "length (place_entry index n e xs) = length xs" using i assms(2) by simp
  show "take (Suc index) (place_entry index n e xs) = take index xs @ [e]" using i(3) l(1) by simp
  have "drop index xs = drop index (take i xs) @ drop i xs"
  proof -
    have "drop index (take i xs @ drop i xs) = drop index (take i xs) @ drop i xs"
      using i(1) l(2) by (simp del: append_take_drop_id)
    then show ?thesis by simp
  qed
  moreover have "subseq (drop (Suc i) xs) (drop i xs)"
    using i(2) assms(2) by (simp add: Cons_nth_drop_Suc [symmetric] list_emb_Cons)
  ultimately show "subseq (drop (Suc index) (place_entry index n e xs)) (drop index xs)"
    using i(3) l(1) by (simp add: list_emb_append_mono)
qed

text \<open>The pictures the commands name, in the order of the commands.\<close>

fun commanded :: "SliceHeader \<Rightarrow> nat \<Rightarrow> simpleFrameDPB \<Rightarrow> nat list \<Rightarrow> u32 \<Rightarrow> simpleRefEntry list result" where
  "commanded sh l d [] pred = Inr []"
| "commanded sh l d (index # rest) pred =
     rbind (mod_picture (sh_RefModifications sh ! l ! index) sh pred d) (\<lambda>(ref, picID, isLong, pred).
     rbind (mod_entry sh ref picID isLong d) (\<lambda>e.
     rbind (commanded sh l d rest pred) (\<lambda>es. Inr (e # es))))"

lemma refmod_loop_spec:
  assumes "unat (sh_RefCount sh ! l) \<le> length xs" "a \<le> n" "refmod_loop sh l d [a..<n] pred xs = Inr ys"
  shows "\<exists>es. commanded sh l d [a..<n] pred = Inr es \<and> take n ys = take a xs @ es
     \<and> subseq (drop n ys) (drop a xs) \<and> length ys = length xs \<and> (a < n \<longrightarrow> n \<le> unat (sh_RefCount sh ! l))"
  using assms
proof (induction "n - a" arbitrary: a pred xs)
  case 0
  then show ?case by simp
next
  case (Suc k)
  then have a: "a < n" by simp
  have u: "[a..<n] = a # [Suc a..<n]" using a by (rule upt_conv_Cons)
  have r: "\<not> (a \<ge> unat (sh_RefCount sh ! l) \<or> a \<ge> maxRefMods)"
    using Suc.prems(3) by (auto simp: u split: if_splits)
  obtain ref picID isLong pred' e where m:
      "mod_picture (sh_RefModifications sh ! l ! a) sh pred d = Inr (ref, picID, isLong, pred')"
      "mod_entry sh ref picID isLong d = Inr e"
      "refmod_loop sh l d [Suc a..<n] pred' (place_entry a (unat (sh_RefCount sh ! l)) e xs) = Inr ys"
    using Suc.prems(3) unfolding u refmod_loop.simps if_not_P [OF r] by (auto simp: rbind_eq_Inr)
  have ar: "a < unat (sh_RefCount sh ! l)" using r by simp
  note p = place_entry_parts [OF ar Suc.prems(1), of e]
  have "k = n - Suc a" "Suc a \<le> n" using Suc.hyps(2) a by auto
  from Suc.hyps(1) [OF this(1) _ this(2) m(3)] p(1) Suc.prems(1) obtain es where es:
      "commanded sh l d [Suc a..<n] pred' = Inr es" "take n ys = (take a xs @ [e]) @ es"
      "subseq (drop n ys) (drop (Suc a) (place_entry a (unat (sh_RefCount sh ! l)) e xs))" "length ys = length xs"
      "Suc a < n \<longrightarrow> n \<le> unat (sh_RefCount sh ! l)"
    unfolding p(2) by auto
  have "n \<le> unat (sh_RefCount sh ! l)" using es(5) ar a by (cases "Suc a < n") auto
  moreover have "commanded sh l d [a..<n] pred = Inr (e # es)" unfolding u by (simp add: m(1,2) es(1))
  ultimately show ?case
    using es(2,4) subseq_order.trans [OF es(3) p(3)] by (intro exI [of _ "e # es"]) simp
qed

lemma commanded_length: "commanded sh l d is pred = Inr es \<Longrightarrow> length es = length is \<and> list_all (\<lambda>e. re_frame e \<noteq> None) es"
proof (induction "is" arbitrary: pred es)
  case (Cons i "is")
  then show ?case
    by (auto simp: rbind_eq_Inr mod_entry_def Let_def split: option.splits prod.splits dest!: Cons.IH)
qed simp

text \<open>A gap of the list filled with its first picture.\<close>

definition fill_entry :: "simpleRefEntry \<Rightarrow> simpleRefEntry \<Rightarrow> simpleRefEntry" where
  "fill_entry dflt e = (if re_frame e = None then dflt else e)"

lemma refmods_cases:
  assumes "applyRefModificationsEntries xs sh l d = Inr es"
  shows "\<exists>cs rest. commanded sh l d [0..<unat (sh_NBRefModifications sh ! l)] (sh_CurrPicNum sh) = Inr cs
     \<and> es = cs @ map (fill_entry (xs ! 0)) rest
     \<and> subseq rest (xs @ replicate (unat (sh_RefCount sh ! l) - length xs) entry_zero)
     \<and> length es = unat (sh_RefCount sh ! l) \<and> xs \<noteq> []"
proof -
  let ?R = "unat (sh_RefCount sh ! l)" and ?n = "unat (sh_NBRefModifications sh ! l)"
  let ?xs = "xs @ replicate (?R - length xs) entry_zero"
  have g: "\<not> (l \<noteq> 0 \<and> l \<noteq> 1)" "?R \<noteq> 0" "xs \<noteq> []" "sh_MaxPicNum sh \<noteq> 0"
    using assms unfolding applyRefModificationsEntries_def Let_def by (metis sum.distinct(1))+
  note ne = g(3)
  have "rbind (refmod_loop sh l d [0..<?n] (sh_CurrPicNum sh) ?xs) (\<lambda>ys. Inr (map (fill_entry (xs ! 0)) (take ?R ys))) = Inr es"
    using assms unfolding applyRefModificationsEntries_def Let_def if_not_P [OF g(1)] if_not_P [OF g(2)] if_not_P [OF g(3)]
      if_not_P [OF g(4)] fill_entry_def [abs_def] .
  then obtain ys where y: "refmod_loop sh l d [0..<?n] (sh_CurrPicNum sh) ?xs = Inr ys" "es = map (fill_entry (xs ! 0)) (take ?R ys)"
    by (auto simp: rbind_eq_Inr)
  have "?R \<le> length ?xs" by simp
  from refmod_loop_spec [OF this le0 y(1)] obtain cs where c: "commanded sh l d [0..<?n] (sh_CurrPicNum sh) = Inr cs"
      "take ?n ys = cs" "subseq (drop ?n ys) ?xs" "length ys = length ?xs" "0 < ?n \<longrightarrow> ?n \<le> ?R"
    unfolding take_0 drop_0 append_Nil by (elim exE conjE)
  have n: "?n \<le> ?R" using c(5) by (cases "?n = 0") auto
  have "take ?R ys = cs @ take (?R - ?n) (drop ?n ys)"
  proof -
    have "take ?R (take ?n ys @ drop ?n ys) = take ?n ys @ take (?R - ?n) (drop ?n ys)"
      using n c(4) by (simp del: append_take_drop_id add: min_def)
    then show ?thesis unfolding append_take_drop_id unfolding c(2) .
  qed
  moreover have "map (fill_entry (xs ! 0)) cs = cs"
    using commanded_length [OF c(1)] by (intro map_idI) (auto simp: list_all_iff fill_entry_def)
  ultimately have "es = cs @ map (fill_entry (xs ! 0)) (take (?R - ?n) (drop ?n ys))" using y(2) by simp
  moreover have "subseq (take (?R - ?n) (drop ?n ys)) ?xs"
    by (rule subseq_order.trans [OF _ c(3)]) (simp add: prefix_imp_subseq take_is_prefix)
  moreover have "length es = ?R" using y(2) c(4) by simp
  ultimately show ?thesis using c(1) ne by blast
qed

text \<open>
  C35. The modification commands: the list they leave has as many entries as the slice header asks
  for; the pictures the commands name come first, in the order of the commands, and what follows
  keeps the order of the default list, the places left over holding its first picture.
\<close>

theorem ref_modifications:
  assumes "applyRefModificationsEntries xs sh l d = Inr es"
  shows "\<exists>cs rest. commanded sh l d [0..<unat (sh_NBRefModifications sh ! l)] (sh_CurrPicNum sh) = Inr cs
     \<and> es = cs @ map (fill_entry (xs ! 0)) rest
     \<and> subseq rest (xs @ replicate (unat (sh_RefCount sh ! l) - length xs) entry_zero)
     \<and> length es = unat (sh_RefCount sh ! l)"
  using refmods_cases [OF assms] by blast

section \<open>Instances\<close>

text \<open>Three short-term references with the counts 2, 4 and 8, and the same buffer with the least count.\<close>

definition ref_frame :: "int \<Rightarrow> u32 \<Rightarrow> DecodedFrame" where
  "ref_frame poc n = (frame_of_sps demo_sps)\<lparr>df_frameNum := n, df_poc := poc, df_fieldPOC := (poc, poc)\<rparr>"

definition ref_dpb :: simpleFrameDPB where
  "ref_dpb = (dpb_zero (\<lambda>f. if f = 1 then ref_frame 2 1 else if f = 2 then ref_frame 4 2 else ref_frame 8 3) 4)\<lparr>dp_short := [3, 2, 1]\<rparr>"

definition ref_sh :: SliceHeader where
  "ref_sh = demo_sh\<lparr>sh_SliceTypeNoS := PictureTypeB, sh_RefCount := [2, 1], sh_MaxPicNum := 16, sh_CurrPicNum := 4,
     sh_NBRefModifications := [1, 0], sh_RefModifications := [\<lparr>rm_Op = 0, rm_Val = 0\<rparr> # replicate 31 \<lparr>rm_Op = 0, rm_Val = 0\<rparr>, replicate 32 \<lparr>rm_Op = 0, rm_Val = 0\<rparr>]\<rparr>"

lemma ref_dpb_simps:
  "pocOf ref_dpb 1 = 2" "pocOf ref_dpb (Suc 0) = 2" "pocOf ref_dpb 2 = 4" "pocOf ref_dpb 3 = 8" "dp_short ref_dpb = [3, 2, 1]" "dp_long ref_dpb = replicate 16 None"
  by (simp_all add: ref_dpb_def pocOf_def ref_frame_def dpb_zero_def)

lemma default_B_order_witness:
  "map_option (map_sum id (map re_frame)) (buildDefaultBRefList ref_sh 5 0 ref_dpb) = Some (Inr [Some 2, Some 1, Some 3])"
proof -
  have "pocs_inside ref_dpb" "distinct (map (pocOf ref_dpb) (dp_short ref_dpb))"
    by (simp_all add: pocs_inside_def ref_dpb_simps)
  moreover have "by_count True 5 ref_dpb = [2, 1]" "by_count False 5 ref_dpb = [3]"
    by (simp_all add: by_count_def ref_dpb_simps ahead_def)
  moreover have "map_sum id (map re_frame) (buildDefaultEntriesFromFrames (map Some [2, 1, 3]) ref_sh False ref_dpb) = Inr [Some 2, Some 1, Some 3]"
    "buildDefaultEntriesFromFrames (dp_long ref_dpb) ref_sh True ref_dpb = Inr []"
    by code_simp+
  ultimately show ?thesis
    using default_B_order [of ref_dpb 0 ref_sh 5]
    by (cases "buildDefaultEntriesFromFrames (map Some [2, 1, 3]) ref_sh False ref_dpb") (auto simp: Let_def)
qed

lemma ref_modifications_witness:
  "\<exists>e es. applyRefModificationsEntries [entry_zero\<lparr>re_frame := Some 1\<rparr>] ref_sh 0 ref_dpb = Inr (e # es)
     \<and> re_frame e = Some 3 \<and> length es = 1"
proof -
  have "map_sum id (\<lambda>_. ()) (applyRefModificationsEntries [entry_zero\<lparr>re_frame := Some 1\<rparr>] ref_sh 0 ref_dpb) = Inr ()" by code_simp
  then obtain es where es: "applyRefModificationsEntries [entry_zero\<lparr>re_frame := Some 1\<rparr>] ref_sh 0 ref_dpb = Inr es"
    by (cases "applyRefModificationsEntries [entry_zero\<lparr>re_frame := Some 1\<rparr>] ref_sh 0 ref_dpb") auto
  have "map_sum id (map re_frame) (commanded ref_sh 0 ref_dpb [0..<unat (sh_NBRefModifications ref_sh ! 0)] (sh_CurrPicNum ref_sh)) = Inr [Some 3]"
    "unat (sh_RefCount ref_sh ! 0) = 2"
    by code_simp+
  then show ?thesis using ref_modifications [OF es] es by (auto simp: map_eq_Cons_conv)
qed

text \<open>The least count comes from a picture order count of type 1, whose offsets the parser accepts.\<close>

definition hang_sps :: SPS where
  "hang_sps = demo_sps\<lparr>sps_PocType := 1, sps_PocCycleLength := 0, sps_OffsetForTopToBottomField := - 1\<rparr>"

definition hang_dpb :: simpleFrameDPB where
  "hang_dpb = (dpb_zero (\<lambda>f. ref_frame MinInt32 1) 2)\<lparr>dp_short := [1]\<rparr>"

lemma default_B_order_hangs_witness:
  "buildBRefEntries ref_sh 5 hang_dpb = None \<and> sps_ok hang_sps
     \<and> map_sum id snd (fst (initPOC hang_sps PictureFrame 1 (0, 0) (poc_zero\<lparr>pc_deltaPOC := (- 2147483647, 0)\<rparr>))) = Inr MinInt32"
proof (intro conjI)
  have "1 \<in> set (dp_short hang_dpb)" "pocOf hang_dpb 1 = MinInt32" by (simp_all add: hang_dpb_def pocOf_def ref_frame_def dpb_zero_def)
  from default_B_order_hangs [OF this, of 5 ref_sh] show "buildBRefEntries ref_sh 5 hang_dpb = None"
    by (simp add: ref_sh_def)
  show "sps_ok hang_sps"
    by (simp add: hang_sps_def demo_sps_def sps_ok_def sps_shape_def sps_format_ok_def sps_poc_ok_def sps_size_ok_def
      sps_dim_ok_def nonzero_matrix_def sps_init_def)
  show "map_sum id snd (fst (initPOC hang_sps PictureFrame 1 (0, 0) (poc_zero\<lparr>pc_deltaPOC := (- 2147483647, 0)\<rparr>))) = Inr MinInt32"
    by code_simp
qed

end
