(* ===== verification/Ref_Context.thy ===== *)
theory Ref_Context
  imports Ref_Order "HOL-Library.Signed_Division"
begin

text \<open>
  The reference context of a slice: the weights of implicit bi-prediction are the standard's, and what
  \<open>buildRefContext\<close> returns is as long as the slice header asks for and made of frames of the buffer.
\<close>

section \<open>Implicit weights\<close>

definition clip3 :: "int \<Rightarrow> int \<Rightarrow> int \<Rightarrow> int" where
  "clip3 lo hi x = max lo (min hi x)"

text \<open>The weight of the second prediction as H.264 states it (8.4.2.3.1): \<open>/\<close> truncates, \<open>>>\<close> does not.\<close>

definition std_scale :: "int \<Rightarrow> int \<Rightarrow> int \<Rightarrow> int" where
  "std_scale curPOC poc0 poc1 =
     (let tb = clip3 (- 128) 127 (curPOC - poc0); td = clip3 (- 128) 127 (poc1 - poc0);
          tx = (16384 + \<bar>td sdiv 2\<bar>) sdiv td
      in clip3 (- 1024) 1023 ((tb * tx + 32) div 2 ^ 6))"

definition std_weight :: "int \<Rightarrow> int \<Rightarrow> int \<Rightarrow> bool \<Rightarrow> int" where
  "std_weight curPOC poc0 poc1 anyLong =
     (let w1 = std_scale curPOC poc0 poc1 div 2 ^ 2 in
      if poc1 = poc0 \<or> anyLong \<or> w1 < - 64 \<or> 128 < w1 then 32 else 64 - w1)"

lemma clip_scaled:
  "(let w = clip3 (- 1024) 1023 (x div 64) div 4 in if w < - 64 \<or> 128 < w then 32 else 64 - w) =
   (let s = x div 256 in if s \<ge> - 64 \<and> s \<le> 128 then 64 - s else (32 :: int))"
proof -
  have "x div 256 = (x div 64) div 4" by (simp add: zdiv_zmult2_eq [of 4 x 64, simplified])
  then show ?thesis by (auto simp: Let_def clip3_def max_def min_def)
qed

lemma half_abs: "\<bar>(t::int) sdiv 2\<bar> = absInt t div 2"
  by (auto simp: absInt_def signed_divide_int_def sgn_if)

lemma clipInt_clip3: "clipInt x (- 128) 127 = clip3 (- 128) 127 x"
  by (auto simp: clipInt_def clip3_def)

lemma implicit_weight_std: "implicit_weight curPOC poc0 poc1 = std_weight curPOC poc0 poc1 False"
proof (cases "poc1 = poc0")
  case True
  then show ?thesis by (simp add: implicit_weight_def std_weight_def clipInt_def)
next
  case False
  define td where "td = clip3 (- 128) 127 (poc1 - poc0)"
  define X where "X = clip3 (- 128) 127 (curPOC - poc0) * ((16384 + absInt td div 2) sdiv td) + 32"
  have td: "td \<noteq> 0" using False by (auto simp: td_def clip3_def max_def min_def)
  have "implicit_weight curPOC poc0 poc1 = (let s = X div 256 in if s \<ge> - 64 \<and> s \<le> 128 then 64 - s else 32)"
    unfolding implicit_weight_def clipInt_clip3 td_def [symmetric] Let_def if_P [OF td] X_def [symmetric] ..
  also have "\<dots> = (let w = clip3 (- 1024) 1023 (X div 64) div 4 in if w < - 64 \<or> 128 < w then 32 else 64 - w)"
    by (rule clip_scaled [symmetric])
  also have "\<dots> = std_weight curPOC poc0 poc1 False"
    unfolding std_weight_def std_scale_def half_abs Let_def td_def [symmetric] X_def [symmetric] using False by simp
  finally show ?thesis .
qed


definition table_shape :: "PredWeightTable \<Rightarrow> bool" where
  "table_shape p \<longleftrightarrow> length (pwt_ImplicitWeight p) = 48
     \<and> list_all (\<lambda>r. length r = 48 \<and> list_all (\<lambda>c. length c = 2) r) (pwt_ImplicitWeight p)"

definition weights_ok :: "PredWeightTable \<Rightarrow> bool" where
  "weights_ok p \<longleftrightarrow> table_shape p
     \<and> list_all (list_all (list_all (\<lambda>w. - 64 \<le> w \<and> w \<le> 128))) (pwt_ImplicitWeight p)"

lemma list_all_update: "list_all P xs \<Longrightarrow> (i < length xs \<Longrightarrow> P x) \<Longrightarrow> list_all P (xs[i := x])"
  by (cases "i < length xs") (auto simp: list_all_length nth_list_update)

lemma set_weight_shape:
  assumes "table_shape p"
  shows "table_shape (set_weight a b k w p)"
  using assms unfolding table_shape_def set_weight_def
  by (auto intro!: list_all_update) (auto simp: list_all_length)


definition weight_at :: "PredWeightTable \<Rightarrow> nat \<Rightarrow> nat \<Rightarrow> nat \<Rightarrow> int" where
  "weight_at p a b k = pwt_ImplicitWeight p ! a ! b ! k"

lemma weight_at_set:
  assumes "table_shape p" "i < 48" "j < 48" "k < 2"
  shows "weight_at (set_weight a b c w p) i j k = (if i = a \<and> j = b \<and> k = c then w else weight_at p i j k)"
proof -
  have l: "length (pwt_ImplicitWeight p) = 48" "length (pwt_ImplicitWeight p ! i) = 48" "length (pwt_ImplicitWeight p ! i ! j) = 2"
    using assms by (auto simp: table_shape_def list_all_length)
  show ?thesis using assms(2-4) l by (cases "i = a"; cases "j = b") (auto simp: weight_at_def set_weight_def nth_list_update)
qed

lemma forM_upd: "(\<And>x s. f x s = (Inr (), g x s)) \<Longrightarrow> forM xs f s = (Inr (), fold g xs s)"
  by (induction xs arbitrary: s) (simp_all add: ret_def thn_def bnd_def)

text \<open>One row of the table, and all of them.\<close>

definition put_weight :: "(nat \<Rightarrow> nat \<Rightarrow> int) \<Rightarrow> nat \<Rightarrow> nat \<Rightarrow> PredWeightTable \<Rightarrow> PredWeightTable" where
  "put_weight w r0 r1 p = set_weight r0 r1 1 (w r0 r1) (set_weight r0 r1 0 (w r0 r1) p)"

lemma put_weight_at:
  assumes "table_shape p" "i < 48" "j < 48" "k < 2"
  shows "weight_at (put_weight w a b p) i j k = (if i = a \<and> j = b then w a b else weight_at p i j k)"
  using assms by (auto simp: put_weight_def weight_at_set set_weight_shape less_2_cases_iff)

lemma put_weight_shape: "table_shape p \<Longrightarrow> table_shape (put_weight w a b p)"
  by (simp add: put_weight_def set_weight_shape)

lemma row_at:
  assumes "table_shape p"
  shows "table_shape (fold (put_weight w a) [0..<n] p)"
    "i < 48 \<Longrightarrow> j < 48 \<Longrightarrow> k < 2 \<Longrightarrow>
       weight_at (fold (put_weight w a) [0..<n] p) i j k = (if i = a \<and> j < n then w a j else weight_at p i j k)"
proof -
  show s: "table_shape (fold (put_weight w a) [0..<n] p)" for n
    by (induction n) (simp_all add: assms put_weight_shape)
  show "i < 48 \<Longrightarrow> j < 48 \<Longrightarrow> k < 2 \<Longrightarrow>
       weight_at (fold (put_weight w a) [0..<n] p) i j k = (if i = a \<and> j < n then w a j else weight_at p i j k)"
    by (induction n) (auto simp: put_weight_at [OF s])
qed

lemma grid_at:
  assumes "table_shape p"
  shows "table_shape (fold (\<lambda>a. fold (put_weight w a) [0..<n]) [0..<m] p)"
    "i < 48 \<Longrightarrow> j < 48 \<Longrightarrow> k < 2 \<Longrightarrow>
       weight_at (fold (\<lambda>a. fold (put_weight w a) [0..<n]) [0..<m] p) i j k = (if i < m \<and> j < n then w i j else weight_at p i j k)"
proof -
  show s: "table_shape (fold (\<lambda>a. fold (put_weight w a) [0..<n]) [0..<m] p)" for m
    by (induction m) (simp_all add: assms row_at(1))
  show "i < 48 \<Longrightarrow> j < 48 \<Longrightarrow> k < 2 \<Longrightarrow>
       weight_at (fold (\<lambda>a. fold (put_weight w a) [0..<n]) [0..<m] p) i j k = (if i < m \<and> j < n then w i j else weight_at p i j k)"
    by (induction m) (auto simp: row_at(2) [OF s])
qed

text \<open>The weight the standard gives the pair of entries \<open>i\<close> of list 0 and \<open>j\<close> of list 1.\<close>

definition pair_weight :: "simpleRefEntry list \<times> simpleRefEntry list \<Rightarrow> int \<Rightarrow> simpleFrameDPB \<Rightarrow> nat \<Rightarrow> nat \<Rightarrow> int" where
  "pair_weight refs curPOC d i j =
     (let e0 = fst refs ! i; e1 = snd refs ! j in
      std_weight curPOC (simpleRefEntryPOC e0 d) (simpleRefEntryPOC e1 d) (re_long e0 \<or> re_long e1))"

lemma pair_weight_eq:
  "(if \<not> re_long (fst refs ! i) \<and> \<not> re_long (snd refs ! j)
    then implicit_weight curPOC (simpleRefEntryPOC (fst refs ! i) d) (simpleRefEntryPOC (snd refs ! j) d) else 32)
   = pair_weight refs curPOC d i j"
  by (auto simp: pair_weight_def implicit_weight_std Let_def) (auto simp: std_weight_def)

definition counts_ok :: "simpleRefEntry list \<times> simpleRefEntry list \<Rightarrow> u32 list \<Rightarrow> bool" where
  "counts_ok refs n \<longleftrightarrow> 0 < unat (n ! 0) \<and> 0 < unat (n ! 1) \<and> unat (n ! 0) \<le> length (fst refs)
     \<and> unat (n ! 1) \<le> length (snd refs) \<and> unat (n ! 0) \<le> 48 \<and> unat (n ! 1) \<le> 48"

lemma grid_run:
  "forM [0..<m] (\<lambda>r0. forM [0..<n] (\<lambda>r1.
     let e0 = fst refs ! r0; e1 = snd refs ! r1;
         w = (if \<not> re_long e0 \<and> \<not> re_long e1 then implicit_weight curPOC (simpleRefEntryPOC e0 d) (simpleRefEntryPOC e1 d) else 32)
     in upd (\<lambda>p. set_weight r0 r1 1 w (set_weight r0 r1 0 w p)))) p
   = (Inr (), fold (\<lambda>a. fold (put_weight (pair_weight refs curPOC d) a) [0..<n]) [0..<m] p)"
  by (rule forM_upd, rule forM_upd) (simp only: Let_def upd_def put_weight_def pair_weight_eq)

lemma implicit_table_run:
  assumes "counts_ok refs n"
    and "\<not> (\<not> mbaff \<and> unat (n ! 0) = 1 \<and> unat (n ! 1) = 1
         \<and> simpleRefEntryPOC (fst refs ! 0) d + simpleRefEntryPOC (snd refs ! 0) d = 2 * curPOC)"
  shows "initImplicitBWeightTable refs n curPOC mbaff d p =
     (Inr (), fold (\<lambda>a. fold (put_weight (pair_weight refs curPOC d) a) [0..<unat (n ! 1)]) [0..<unat (n ! 0)]
        (use_implicit (p\<lparr>pwt_LumaWeightFlag := [0, 0], pwt_ChromaWeightFlag := [0, 0]\<rparr>)))"
proof -
  have c: "\<not> (unat (n ! 0) \<le> 0 \<or> unat (n ! 1) \<le> 0 \<or> unat (n ! 0) > length (fst refs) \<or> unat (n ! 1) > length (snd refs)
      \<or> unat (n ! 0) > 48 \<or> unat (n ! 1) > 48)"
    using assms(1) by (auto simp: counts_ok_def)
  show ?thesis
    unfolding initImplicitBWeightTable_def Let_def [of "unat (n ! 0)"] Let_def [of "unat (n ! 1)"] if_not_P [OF assms(2)]
    by (simp only: thn_def bnd_def upd_def require_def ret_def if_P [OF c] grid_run prod.case sum.case)
qed

text \<open>The shortcut for one reference each way: at equal distances within the clipping range the weights are even.\<close>

lemma even_scale:
  assumes "1 \<le> t" "t \<le> 63"
  shows "(t * ((16384 + t) div (2 * t)) + 32) div 64 = (128 :: int)"
proof -
  define q where "q = (16384 + t) div (2 * t)"
  define r where "r = (16384 + t) mod (2 * t)"
  have "2 * t * q + r = 16384 + t" unfolding q_def r_def by (rule mult_div_mod_eq)
  moreover have "0 \<le> r" "r < 2 * t" using assms(1) by (simp_all add: r_def)
  moreover define y where "y = t * q"
  ultimately have "2 * y + r = 16384 + t" "0 \<le> r" "r < 2 * t" by (simp_all add: mult.assoc)
  then have "128 * 64 \<le> y + 32" "y + 32 < 129 * 64" using assms(2) by linarith+
  then have "(y + 32) div 64 = 128" by (intro int_div_pos_eq [of _ _ _ "y + 32 - 128 * 64"]) auto
  then show ?thesis by (simp add: y_def q_def)
qed

lemma std_weight_even:
  assumes "p0 + p1 = 2 * c" "\<bar>p1 - p0\<bar> \<le> 127"
  shows "std_weight c p0 p1 l = 32"
proof (cases "p1 = p0")
  case False
  define t where "t = c - p0"
  have t: "p1 - p0 = 2 * t" "t \<noteq> 0" "- 63 \<le> t" "t \<le> 63" using assms False by (auto simp: t_def)
  have c: "clip3 (- 128) 127 (2 * t) = 2 * t" "clip3 (- 128) 127 t = t" using t by (auto simp: clip3_def)
  have a: "\<bar>2 * t sdiv 2\<bar> = \<bar>t\<bar>" by (auto simp: signed_divide_int_def sgn_if abs_mult)
  have "t * ((16384 + \<bar>t\<bar>) sdiv (2 * t)) = \<bar>t\<bar> * ((16384 + \<bar>t\<bar>) div (2 * \<bar>t\<bar>))"
    using t(2) by (auto simp: signed_divide_int_def sgn_if abs_mult)
  then have "std_scale c p0 p1 = 128"
    using even_scale [of "\<bar>t\<bar>"] t(2-4)
    by (simp add: std_scale_def t(1) t_def [symmetric] c a Let_def) (simp add: clip3_def)
  then show ?thesis by (simp add: std_weight_def)
qed (simp add: std_weight_def)

definition shortcut :: "simpleRefEntry list \<times> simpleRefEntry list \<Rightarrow> u32 list \<Rightarrow> int \<Rightarrow> bool \<Rightarrow> simpleFrameDPB \<Rightarrow> bool" where
  "shortcut refs n curPOC mbaff d \<longleftrightarrow> \<not> mbaff \<and> unat (n ! 0) = 1 \<and> unat (n ! 1) = 1
     \<and> simpleRefEntryPOC (fst refs ! 0) d + simpleRefEntryPOC (snd refs ! 0) d = 2 * curPOC"

lemma implicit_table_shortcut:
  assumes "counts_ok refs n" "shortcut refs n curPOC mbaff d"
  shows "initImplicitBWeightTable refs n curPOC mbaff d p =
    (Inr (), p\<lparr>pwt_LumaWeightFlag := [0, 0], pwt_ChromaWeightFlag := [0, 0], pwt_UseWeight := 0, pwt_UseWeightChroma := 0\<rparr>)"
proof -
  have c: "\<not> (unat (n ! 0) \<le> 0 \<or> unat (n ! 1) \<le> 0 \<or> unat (n ! 0) > length (fst refs) \<or> unat (n ! 1) > length (snd refs)
      \<or> unat (n ! 0) > 48 \<or> unat (n ! 1) > 48)"
    using assms(1) by (auto simp: counts_ok_def)
  show ?thesis
    unfolding initImplicitBWeightTable_def Let_def [of "unat (n ! 0)"] Let_def [of "unat (n ! 1)"] if_P [OF assms(2) [unfolded shortcut_def]]
    by (simp only: thn_def bnd_def upd_def require_def ret_def if_P [OF c] prod.case sum.case)
qed

lemma use_implicit_shape [simp]:
  "table_shape (use_implicit p) = table_shape p" "table_shape (p\<lparr>pwt_LumaWeightFlag := a, pwt_ChromaWeightFlag := b\<rparr>) = table_shape p"
  by (simp_all add: table_shape_def use_implicit_def)

lemma set_weight_use [simp]: "pwt_UseWeight (set_weight a b k w p) = pwt_UseWeight p"
  by (simp add: set_weight_def)

lemma fold_use: "(\<And>x q. pwt_UseWeight (f x q) = pwt_UseWeight q) \<Longrightarrow> pwt_UseWeight (fold f xs p) = pwt_UseWeight p"
  by (induction xs arbitrary: p) simp_all

text \<open>
  C36. The implicit weights of a B slice are the standard's (8.4.2.3.1): for every pair of references
  the table holds \<open>64 - (DistScaleFactor >> 2)\<close>, or 32 where the standard says so, although the code
  scales in one shift and never clips the factor. The one case without a table - one reference each
  way, at equal distances - is plain averaging, and within the clipping range of the distances the
  standard's weights are even there too.
\<close>

theorem implicit_weights_standard:
  assumes "table_shape p" "counts_ok refs n"
  shows "\<exists>p'. initImplicitBWeightTable refs n curPOC mbaff d p = (Inr (), p')
    \<and> (if shortcut refs n curPOC mbaff d
       then pwt_UseWeight p' = 0 \<and> (\<bar>simpleRefEntryPOC (snd refs ! 0) d - simpleRefEntryPOC (fst refs ! 0) d\<bar> \<le> 127
              \<longrightarrow> pair_weight refs curPOC d 0 0 = 32)
       else pwt_UseWeight p' = 2 \<and> (\<forall>i j k. i < unat (n ! 0) \<and> j < unat (n ! 1) \<and> k < 2
              \<longrightarrow> weight_at p' i j k = pair_weight refs curPOC d i j))"
proof (cases "shortcut refs n curPOC mbaff d")
  case True
  then show ?thesis
    using implicit_table_shortcut [OF assms(2) True, of p] std_weight_even
    by (auto simp: shortcut_def pair_weight_def Let_def)
next
  case False
  let ?q = "use_implicit (p\<lparr>pwt_LumaWeightFlag := [0, 0], pwt_ChromaWeightFlag := [0, 0]\<rparr>)"
  let ?r = "fold (\<lambda>a. fold (put_weight (pair_weight refs curPOC d) a) [0..<unat (n ! 1)]) [0..<unat (n ! 0)] ?q"
  have s: "table_shape ?q" using assms(1) by simp
  have b: "unat (n ! 0) \<le> 48" "unat (n ! 1) \<le> 48" using assms(2) by (auto simp: counts_ok_def)
  have "weight_at ?r i j k = pair_weight refs curPOC d i j" if "i < unat (n ! 0)" "j < unat (n ! 1)" "k < 2" for i j k
    using grid_at(2) [OF s, of i j k "pair_weight refs curPOC d"] that b by simp
  moreover have "pwt_UseWeight ?r = 2"
    by (subst fold_use, rule fold_use) (simp_all add: put_weight_def use_implicit_def)
  moreover have "initImplicitBWeightTable refs n curPOC mbaff d p = (Inr (), ?r)"
    by (rule implicit_table_run [OF assms(2) False [unfolded shortcut_def]])
  ultimately show ?thesis using False by auto
qed

section \<open>The weights stay in range\<close>


lemma weights_ok_fields [simp]:
  "weights_ok (use_implicit p) = weights_ok p"
  "weights_ok (p\<lparr>pwt_LumaWeightFlag := a, pwt_ChromaWeightFlag := b\<rparr>) = weights_ok p"
  "weights_ok (p\<lparr>pwt_UseWeight := c, pwt_UseWeightChroma := e\<rparr>) = weights_ok p"
  by (simp_all add: weights_ok_def table_shape_def use_implicit_def)








section \<open>The lists of a slice\<close>














lemma clone_id: "length es \<le> 16 \<Longrightarrow> cloneSimpleRefEntries es = es"
  by (simp add: cloneSimpleRefEntries_def)










lemma B_entries_length:
  assumes "buildBRefEntries sh cur d = Some (Inr (a, b))"
  shows "length a \<le> 16 \<and> length b \<le> 16"
proof -
  have n: "unat (sh_RefCount sh ! 0) \<le> 16" "unat (sh_RefCount sh ! 1) \<le> 16"
    using assms by (auto simp: buildBRefEntries_def split: if_split_asm)
  obtain x y where "b_lists sh d x y = Inr (a, b)"
    using assms
    apply (auto simp: buildBRefEntries_def bind_eq_Some_conv rbind_eq_Inr split: if_split_asm)
    subgoal for y by (cases y) (auto simp: rbind_eq_Inr)
    done
  then show ?thesis using n by (auto simp: b_lists_def Let_def rbind_eq_Inr dest!: refmods_cases)
qed

lemma b_context_scratch:
  assumes "buildBRefEntries sh cur d = Some r"
  shows "b_context True sh f cur d r = b_context False sh f cur d r"
proof (cases r)
  case (Inr refs)
  then have "length (fst refs) \<le> 16" "length (snd refs) \<le> 16"
    using B_entries_length [of sh cur d "fst refs" "snd refs"] assms by simp_all
  then have "(cloneSimpleRefEntries (fst refs), cloneSimpleRefEntries (snd refs)) = refs" by (simp add: clone_id)
  then show ?thesis unfolding b_context_def Inr sum.case if_True by (simp only: if_False)
qed (simp add: b_context_def)

text \<open>
  The buffers kept from the slice before make no difference: with them and without,
  \<open>buildRefContextInto\<close> returns the same, when a P slice asks for 1 to 16 entries - the check
  of the number is only made on the way without them.
\<close>

theorem buildRefContext_scratch:
  assumes "0 < unat (sh_RefCount sh ! 0)" "unat (sh_RefCount sh ! 0) \<le> 16"
  shows "buildRefContextInto True sh frame d = buildRefContextInto False sh frame d"
proof -
  have P: "p_entries True sh d = p_entries False sh d"
  proof -
    have nz: "sh_RefCount sh ! 0 \<noteq> 0" "\<not> unat (sh_RefCount sh ! 0) > 16" using assms by auto
    have "rbind (applyRefModificationsEntries xs sh 0 d) (\<lambda>es. Inr (cloneSimpleRefEntries es)) = applyRefModificationsEntries xs sh 0 d" for xs
      using refmods_cases [of xs sh 0 d] assms(2)
      by (cases "applyRefModificationsEntries xs sh 0 d") (auto simp: clone_id)
    then show ?thesis
      unfolding p_entries_def buildPRefEntries_def if_not_P [OF nz(1)] if_not_P [OF nz(2)]
      by (cases "buildDefaultPRefList sh d") auto
  qed
  have B: "map_option (b_context True sh f cur d) (buildBRefEntries sh cur d) = map_option (b_context False sh f cur d) (buildBRefEntries sh cur d)" for f cur
    by (cases "buildBRefEntries sh cur d") (auto simp: b_context_scratch)
  show ?thesis unfolding buildRefContextInto_def P B ..
qed

section \<open>Instances\<close>

lemma implicit_weights_standard_witness:
  "\<exists>p'. initImplicitBWeightTable ([entry_zero\<lparr>re_poc := 2\<rparr>], [entry_zero\<lparr>re_poc := 8\<rparr>]) [1, 1] 4 False ref_dpb pwt_init = (Inr (), p')
     \<and> weight_at p' 0 0 0 = 43"
proof -
  let ?refs = "([entry_zero\<lparr>re_poc := 2\<rparr>], [entry_zero\<lparr>re_poc := 8\<rparr>])"
  have s: "table_shape pwt_init" by (simp add: table_shape_def pwt_init_def list_all_iff)
  have c: "counts_ok ?refs [1, 1]" by (simp add: counts_ok_def)
  have n: "\<not> shortcut ?refs [1, 1] 4 False ref_dpb" by (simp add: shortcut_def simpleRefEntryPOC_def entry_zero_def)
  have w: "pair_weight ?refs 4 ref_dpb 0 0 = 43"
    by code_simp
  from implicit_weights_standard [OF s c, of 4 False ref_dpb] obtain p' where
    "initImplicitBWeightTable ?refs [1, 1] 4 False ref_dpb pwt_init = (Inr (), p')"
    "\<forall>i j k. i < unat (([1, 1] :: u32 list) ! 0) \<and> j < unat (([1, 1] :: u32 list) ! 1) \<and> k < 2
       \<longrightarrow> weight_at p' i j k = pair_weight ?refs 4 ref_dpb i j"
    unfolding if_not_P [OF n] by (elim exE conjE)
  then show ?thesis using w by (intro exI [of _ p']) simp
qed



lemma buildRefContext_scratch_witness:
  "buildRefContextInto True ref_sh (Some 2) ref_dpb = buildRefContextInto False ref_sh (Some 2) ref_dpb"
  by (rule buildRefContext_scratch) (simp_all add: ref_sh_def)

end
