(* ===== verification/Output_Order.thy ===== *)
theory Output_Order
  imports Dpb_Marking "HOL-Library.Multiset"
begin

text \<open>
  The output queue of the decoded picture buffer (\<open>simple_dpb.go\<close>): how long pictures are held back
  for reordering, which one is output next, and which are shown at all. The delay is estimated from
  a window of the 16 latest picture order counts.
\<close>

section \<open>The reorder delay\<close>

definition ensureLastPOCs :: "simpleFrameDPB \<Rightarrow> simpleFrameDPB" where
  "ensureLastPOCs d = (if \<not> dp_lastPOCsInit d then resetLastPOCs d else d)"

text \<open>The scan of the window, from index \<open>i\<close>: the counts up to the current one move down a place.\<close>

function note_loop :: "int \<Rightarrow> nat \<Rightarrow> int list \<Rightarrow> nat \<times> int list" where
  "note_loop curPOC i pocs =
     (if i \<ge> h264MaxDPBFrames \<or> curPOC < pocs ! i then
        (i, if i \<noteq> 0 then pocs[i - 1 := curPOC] else pocs)
      else note_loop curPOC (i + 1) (if i \<noteq> 0 then pocs[i - 1 := pocs ! i] else pocs))"
  by pat_completeness auto
termination by (relation "measure (\<lambda>(c, i, p). h264MaxDPBFrames - i)") auto

declare note_loop.simps [simp del]

definition notePOCReorder :: "int \<Rightarrow> bool \<Rightarrow> simpleFrameDPB \<Rightarrow> int \<times> simpleFrameDPB" where
  "notePOCReorder curPOC isB d =
     (let d = ensureLastPOCs d;
          (i, pocs) = note_loop curPOC 0 (dp_lastPOCs d);
          outOfOrder = int h264MaxDPBFrames - int i;
          outOfOrder = (if (isB \<or> pocs ! 14 > MinInt32 \<and> pocs ! 15 - pocs ! 14 > 2) \<and> outOfOrder < 1 then 1 else outOfOrder)
      in (outOfOrder, d\<lparr>dp_lastPOCs := pocs\<rparr>))"

definition updateReorderDelay :: "fref \<Rightarrow> SliceHeader \<Rightarrow> SPS \<Rightarrow> simpleFrameDPB \<Rightarrow> simpleFrameDPB" where
  "updateReorderDelay frame sh sps d =
     (let d = (if sps_BitstreamRestrictionFlag sps \<noteq> 0 \<and> sps_NumReorderFrames sps > i32 (dp_hasBFrames d)
               then d\<lparr>dp_hasBFrames := sps_NumReorderFrames sps\<rparr> else d);
          poc = df_poc (dp_heap d frame);
          (outOfOrder, d) = notePOCReorder poc (sh_SliceTypeNoS sh = PictureTypeB) d
      in if outOfOrder = int h264MaxDPBFrames then
           let d = resetLastPOCs d in
           upd_frame frame (\<lambda>f. f\<lparr>df_mmcoReset := True\<rparr>) (d\<lparr>dp_lastPOCs := (dp_lastPOCs d)[0 := poc]\<rparr>)
         else if dp_hasBFrames d < outOfOrder \<and> sps_BitstreamRestrictionFlag sps = 0
         then d\<lparr>dp_hasBFrames := outOfOrder\<rparr> else d)"

definition holdOutputFrame :: "fref \<Rightarrow> SliceHeader \<Rightarrow> unit dpb" where
  "holdOutputFrame frame sh d = (case sh_SPS sh of None \<Rightarrow> (Inl ErrInvalidData, d) | Some sps \<Rightarrow>
     let d = updateReorderDelay frame sh sps d in
     if dp_hasBFrames d > int h264MaxDPBFrames then (Inl ErrUnsupported, d)
     else if length (dp_delayed d) > h264MaxDPBFrames then (Inl ErrInvalidData, d)
     else (Inr (), d\<lparr>dp_delayed := dp_delayed d @ [frame]\<rparr>))"

section \<open>The next picture\<close>

function next_index_loop :: "simpleFrameDPB \<Rightarrow> nat \<Rightarrow> nat \<Rightarrow> nat" where
  "next_index_loop d i outIdx =
     (if i < length (dp_delayed d)
         \<and> \<not> df_idrKeyFrame (dp_heap d (dp_delayed d ! i)) \<and> \<not> df_mmcoReset (dp_heap d (dp_delayed d ! i)) then
        next_index_loop d (i + 1)
          (if df_poc (dp_heap d (dp_delayed d ! i)) < df_poc (dp_heap d (dp_delayed d ! outIdx)) then i else outIdx)
      else outIdx)"
  by pat_completeness auto
termination by (relation "measure (\<lambda>(d, i, k). length (dp_delayed d) - i)") auto

declare next_index_loop.simps [simp del]

definition nextOutputFrameIndex :: "simpleFrameDPB \<Rightarrow> nat" where
  "nextOutputFrameIndex d =
     (if dp_delayed d \<noteq> [] \<and> df_mmcoReset (dp_heap d (dp_delayed d ! 0)) then 0 else next_index_loop d 1 0)"

definition removeDelayedOutputAt :: "nat \<Rightarrow> simpleFrameDPB \<Rightarrow> simpleFrameDPB" where
  "removeDelayedOutputAt i d = d\<lparr>dp_delayed := take i (dp_delayed d) @ drop (i + 1) (dp_delayed d)\<rparr>"

definition markOutputFrameRecovered :: "fref \<Rightarrow> simpleFrameDPB \<Rightarrow> bool \<times> simpleFrameDPB" where
  "markOutputFrameRecovered frame d =
     (let r = dp_frameRecovered d OR df_recovered (dp_heap d frame);
          d = upd_frame frame (\<lambda>f. f\<lparr>df_recovered := df_recovered f OR (r AND simpleFrameRecoveredSEI)\<rparr>) (d\<lparr>dp_frameRecovered := r\<rparr>)
      in (df_recovered (dp_heap d frame) \<noteq> 0, d))"

text \<open>
  One turn of the loop that drains the queue, once there is a picture to output: its index in the queue.
  It tells whether the picture leaves the queue and whether it is shown.
\<close>

definition drain_step :: "bool \<Rightarrow> nat \<Rightarrow> simpleFrameDPB \<Rightarrow> (bool \<times> bool) \<times> simpleFrameDPB" where
  "drain_step flush outIdx d =
     (let frame = dp_delayed d ! outIdx; first = dp_heap d (dp_delayed d ! 0);
          d = (if dp_hasBFrames d = 0 \<and> (df_idrKeyFrame first \<or> df_mmcoReset first)
               then d\<lparr>dp_nextOutputedValid := False\<rparr> else d);
          poc = df_poc (dp_heap d frame);
          outOfOrder = (dp_nextOutputedValid d \<and> poc < dp_nextOutputedPOC d)
      in if \<not> flush \<and> \<not> outOfOrder \<and> int (length (dp_delayed d)) \<le> dp_hasBFrames d then ((False, False), d)
         else let d = removeDelayedOutputAt outIdx d;
                  d = (if \<not> outOfOrder then d\<lparr>dp_nextOutputedPOC := poc, dp_nextOutputedValid := True\<rparr> else d);
                  (shown, d) = markOutputFrameRecovered frame d
              in ((True, shown), d))"

lemma drain_step_delayed:
  assumes "drain_step flush i d = ((True, shown), d')"
  shows "dp_delayed d' = take i (dp_delayed d) @ drop (i + 1) (dp_delayed d)"
  using assms by (auto simp: drain_step_def Let_def removeDelayedOutputAt_def markOutputFrameRecovered_def upd_frame_def split: if_splits)

function drain_loop :: "bool \<Rightarrow> fref list \<Rightarrow> simpleFrameDPB \<Rightarrow> fref list result \<times> simpleFrameDPB" where
  "drain_loop flush out d =
     (if dp_delayed d = [] then (Inr out, d)
      else let outIdx = nextOutputFrameIndex d in
        if outIdx \<ge> length (dp_delayed d) then (Inl ErrInvalidData, d)
        else case drain_step flush outIdx d of ((removed, shown), d') \<Rightarrow>
          if \<not> removed then (Inr out, d')
          else let out = (if shown then out @ [dp_delayed d ! outIdx] else out) in
            if \<not> flush then (Inr out, d') else drain_loop flush out d')"
  by pat_completeness auto
termination
  by (relation "measure (\<lambda>(f, out, d). length (dp_delayed d))") (auto dest!: drain_step_delayed [OF sym])

declare drain_loop.simps [simp del]

definition drainOutputFrames :: "bool \<Rightarrow> fref list dpb" where
  "drainOutputFrames flush d = drain_loop flush [] d"

section \<open>Priming the delay from a whole stream\<close>

definition canPrimeOutputReorderDelay :: "simpleFrameDPB \<Rightarrow> bool" where
  "canPrimeOutputReorderDelay d =
     (if dp_hasBFrames d \<noteq> 0 \<or> dp_delayed d \<noteq> [] \<or> dp_short d \<noteq> [] \<or> dp_nextOutputedValid d then False
      else longCount d = 0)"

definition primeOutputReorderDelayFromHeader :: "SliceHeader \<Rightarrow> u8 \<Rightarrow> unit dpb" where
  "primeOutputReorderDelayFromHeader sh nalRefIDC =
     bnd (alloc_frame frame_init) (\<lambda>frame.
     thn (initFramePOC frame sh nalRefIDC)
     (upd (\<lambda>d. finishFramePOC nalRefIDC (case sh_SPS sh of None \<Rightarrow> d | Some sps \<Rightarrow> updateReorderDelay frame sh sps d))))"

text \<open>
  The loop over the units: the delay it finds, and the probe, a copy of the buffer that shares its map of
  reference masks. (An error of a decoder is never a panic, see \<open>decodeSPS_safe\<close> and its like.)
\<close>

fun prime_loop :: "NALUnit list \<Rightarrow> SPS option list \<Rightarrow> PPS option list \<Rightarrow> simpleFrameDPB \<Rightarrow> int \<Rightarrow> int \<times> simpleFrameDPB" where
  "prime_loop [] spsList ppsList probe delay = (delay, probe)"
| "prime_loop (nal # nals) spsList ppsList probe delay =
     (if nal_Type nal = NALSPS then
        (case DecodeSPSFromNAL nal of
           Inl _ \<Rightarrow> prime_loop nals spsList ppsList probe delay
         | Inr sps \<Rightarrow> prime_loop nals (if unat (sps_SPSID sps) \<ge> length spsList then spsList else spsList[unat (sps_SPSID sps) := Some sps])
             ppsList probe delay)
      else if nal_Type nal = NALPPS then
        (case DecodePPS (nal_RBSP nal) spsList of
           Inl _ \<Rightarrow> prime_loop nals spsList ppsList probe delay
         | Inr pps \<Rightarrow> prime_loop nals spsList
             (if unat (pps_PPSID pps) \<ge> length ppsList then ppsList else ppsList[unat (pps_PPSID pps) := Some pps]) probe delay)
      else if nal_Type nal = NALSlice \<or> nal_Type nal = NALIDRSlice then
        (case parseSliceHeaderWithPayload nal ppsList of
           Inl _ \<Rightarrow> (delay, probe)
         | Inr (sh, _) \<Rightarrow>
             if sh_RedundantPicCount sh \<noteq> 0 \<or> sh_FirstMBAddr sh \<noteq> 0 then prime_loop nals spsList ppsList probe delay
             else if sh_SliceTypeNoS sh \<noteq> PictureTypeI \<and> sh_SliceTypeNoS sh \<noteq> PictureTypeP \<and> sh_SliceTypeNoS sh \<noteq> PictureTypeB
             then (delay, probe)
             else case primeOutputReorderDelayFromHeader sh (nal_RefIDC nal) probe of
                 (Inl _, probe) \<Rightarrow> (delay, probe)
               | (Inr _, probe) \<Rightarrow> prime_loop nals spsList ppsList probe
                   (if dp_hasBFrames probe > delay then dp_hasBFrames probe else delay))
      else prime_loop nals spsList ppsList probe delay)"

definition primeOutputReorderDelayFromNALs :: "NALUnit list \<Rightarrow> SPS option list \<Rightarrow> PPS option list \<Rightarrow> simpleFrameDPB \<Rightarrow> simpleFrameDPB" where
  "primeOutputReorderDelayFromNALs nals spsList ppsList d =
     (if \<not> canPrimeOutputReorderDelay d then d
      else case prime_loop nals spsList ppsList (d\<lparr>dp_delayed := []\<rparr>) (dp_hasBFrames d) of (delay, probe) \<Rightarrow>
        d\<lparr>dp_hasBFrames := delay, dp_refMask := dp_refMask probe\<rparr>)"

section \<open>The window of counts\<close>

lemma note_loop_spec:
  assumes "length L = 16" "1 \<le> i" "i \<le> 16"
  shows "note_loop cur i L =
    (let j = i + length (takeWhile (\<lambda>x. x \<le> cur) (drop i L)) in (j, take (i - 1) L @ take (j - i) (drop i L) @ [cur] @ drop j L))"
  using assms
proof (induction "16 - i" arbitrary: i L)
  case 0
  then have i: "i = 16" by simp
  have "L[15 := cur] = take 15 L @ [cur]" using 0 by (simp add: upd_conv_take_nth_drop)
  then show ?case unfolding i by (subst note_loop.simps) (simp add: "0.prems"(1))
next
  case (Suc k)
  then have i: "i < 16" by simp
  have d: "drop i L = L ! i # drop (Suc i) L" using i Suc.prems(1) by (simp add: Cons_nth_drop_Suc)
  show ?case
  proof (cases "cur < L ! i")
    case True
    then have "note_loop cur i L = (i, L[i - 1 := cur])" using Suc.prems(2) by (subst note_loop.simps) simp
    moreover have "L[i - 1 := cur] = take (i - 1) L @ [cur] @ drop i L"
      using i Suc.prems by (simp add: upd_conv_take_nth_drop)
    ultimately show ?thesis using True by (simp add: d Let_def)
  next
    case False
    let ?M = "L[i - 1 := L ! i]"
    have m: "drop (Suc i) ?M = drop (Suc i) L" "length ?M = 16" using Suc.prems by simp_all
    have t: "take i ?M = take (i - 1) L @ [L ! i]"
      using Suc.prems i by (cases i) (simp_all add: take_Suc_conv_app_nth)
    have "note_loop cur i L = note_loop cur (Suc i) ?M" using False i Suc.prems(2) by (subst note_loop.simps) simp
    also have "\<dots> = (let j = Suc i + length (takeWhile (\<lambda>x. x \<le> cur) (drop (Suc i) ?M))
        in (j, take (Suc i - 1) ?M @ take (j - Suc i) (drop (Suc i) ?M) @ [cur] @ drop j ?M))"
      by (rule Suc.hyps(1)) (use Suc.hyps(2) i m(2) in auto)
    also have "\<dots> = (let j = i + length (takeWhile (\<lambda>x. x \<le> cur) (drop i L)) in (j, take (i - 1) L @ take (j - i) (drop i L) @ [cur] @ drop j L))"
      using False t m(1) by (simp add: d Let_def)
    finally show ?thesis .
  qed
qed

lemma note_loop_window:
  assumes "length L = 16" "sorted L"
  shows "note_loop cur 0 L =
    (if cur < hd L then (0, L) else (length (filter (\<lambda>x. x \<le> cur) L), tl (insort cur L)))"
proof (cases "cur < hd L")
  case True
  then show ?thesis using assms(1) by (subst note_loop.simps) (cases L, auto)
next
  case False
  obtain x xs where L: "L = x # xs" using assms(1) by (cases L) auto
  define j where "j = length (takeWhile (\<lambda>y. y \<le> cur) L)"
  have x: "x \<le> cur" using False L by simp
  have j: "j = Suc (length (takeWhile (\<lambda>y. y \<le> cur) xs))" using x by (simp add: j_def L)
  have "note_loop cur 0 L = note_loop cur 1 L" using False assms(1) L by (subst note_loop.simps) simp
  also have "\<dots> = (j, take (j - 1) xs @ [cur] @ drop j L)"
    using note_loop_spec [of L 1 cur] assms(1) by (simp add: Let_def L j)
  finally have e: "note_loop cur 0 L = (j, take (j - 1) xs @ [cur] @ drop j L)" .
  have t: "take j L = takeWhile (\<lambda>y. y \<le> cur) L" "drop j L = dropWhile (\<lambda>y. y \<le> cur) L"
    by (simp_all add: j_def takeWhile_eq_take [symmetric] dropWhile_eq_drop [symmetric])
  have dr: "cur < y" if "y \<in> set (drop j L)" for y
  proof -
    have "sorted (dropWhile (\<lambda>y. y \<le> cur) L)" using assms(2) by (rule sorted_dropWhile)
    moreover have "y \<in> set (dropWhile (\<lambda>y. y \<le> cur) L)" using that by (simp add: t(2))
    ultimately show ?thesis
      using hd_dropWhile [of "\<lambda>y. y \<le> cur" L] by (cases "dropWhile (\<lambda>y. y \<le> cur) L") auto
  qed
  have tw: "y \<le> cur" if "y \<in> set (take j L)" for y using that set_takeWhileD t(1) by fastforce
  have "sort (cur # L) = take j L @ [cur] @ drop j L"
  proof (rule properties_for_sort)
    show "mset (take j L @ [cur] @ drop j L) = mset (cur # L)"
      using mset_append [of "take j L" "drop j L"] by simp
    show "sorted (take j L @ [cur] @ drop j L)"
      using sorted_append [of "take j L" "drop j L"] assms(2) dr tw by (force simp: sorted_append)
  qed
  then have "insort cur L = take j L @ [cur] @ drop j L" using assms(2) by (simp add: sorted_sort_id)
  then have "tl (insort cur L) = take (j - 1) xs @ [cur] @ drop j L" by (simp add: L j)
  moreover have "filter (\<lambda>y. y \<le> cur) L = take j L"
  proof -
    have "filter (\<lambda>y. y \<le> cur) (take j L @ drop j L) = take j L"
      using tw by (auto simp del: append_take_drop_id simp: filter_empty_conv not_le dest: dr)
    then show ?thesis by simp
  qed
  moreover have "length (take j L) = j" by (simp add: t(1)) (simp add: j_def)
  ultimately show ?thesis using e False by simp
qed

text \<open>The window a buffer works with: all of it the least count when it has not been set up.\<close>

definition poc_window :: "simpleFrameDPB \<Rightarrow> int list" where
  "poc_window d = (if dp_lastPOCsInit d then dp_lastPOCs d else replicate (length (dp_lastPOCs d)) MinInt32)"

definition window_ok :: "simpleFrameDPB \<Rightarrow> bool" where
  "window_ok d \<longleftrightarrow> length (dp_lastPOCs d) = 16 \<and> sorted (poc_window d)"

lemma ensure_window: "dp_lastPOCs (ensureLastPOCs d) = poc_window d"
  by (simp add: ensureLastPOCs_def poc_window_def resetLastPOCs_def map_replicate_const)

text \<open>
  The window of picture order counts: noting a picture whose count is not below the whole window
  is inserting the count in order and dropping the least, so the window is always sorted and holds
  the 16 greatest counts; and the number returned is how many of them come after the picture, raised
  to one for a B picture and where the two greatest are more than two apart.
\<close>

theorem notePOCReorder_window:
  assumes "window_ok d" "notePOCReorder cur isB d = (n, d')"
  shows "window_ok d' \<and>
    (if cur < hd (poc_window d) then n = 16 \<and> poc_window d' = poc_window d
     else poc_window d' = tl (insort cur (poc_window d))
       \<and> (let later = int (length (filter (\<lambda>p. cur < p) (poc_window d)));
              apart = (poc_window d' ! 14 > MinInt32 \<and> poc_window d' ! 15 - poc_window d' ! 14 > 2)
          in n = (if isB \<or> apart then max 1 later else later)))"
proof -
  have l: "length (poc_window d) = 16" "sorted (poc_window d)" using assms(1) by (simp_all add: window_ok_def poc_window_def)
  have c: "length (filter (\<lambda>p. p \<le> cur) (poc_window d)) + length (filter (\<lambda>p. cur < p) (poc_window d)) = 16"
    using sum_length_filter_compl [of "\<lambda>p. p \<le> cur" "poc_window d"] l(1) by (simp add: not_le)
  have i: "dp_lastPOCsInit (ensureLastPOCs d)" by (simp add: ensureLastPOCs_def resetLastPOCs_def)
  define r where "r = note_loop cur 0 (poc_window d)"
  have e: "n = (let m = 16 - int (fst r) in if (isB \<or> snd r ! 14 > MinInt32 \<and> snd r ! 15 - snd r ! 14 > 2) \<and> m < 1 then 1 else m)"
      "d' = (ensureLastPOCs d)\<lparr>dp_lastPOCs := snd r\<rparr>"
    using assms(2) by (auto simp: notePOCReorder_def Let_def ensure_window r_def split_beta)
  have w: "poc_window d' = snd r" "dp_lastPOCs d' = snd r" using i by (simp_all add: e(2) poc_window_def)
  show ?thesis
  proof (cases "cur < hd (poc_window d)")
    case True
    then have "r = (0, poc_window d)" unfolding r_def note_loop_window [OF l] by simp
    then show ?thesis using True w l by (simp add: e(1) Let_def window_ok_def)
  next
    case False
    then have r: "r = (length (filter (\<lambda>x. x \<le> cur) (poc_window d)), tl (insort cur (poc_window d)))"
      unfolding r_def note_loop_window [OF l] by simp
    have "sorted (tl (insort cur (poc_window d)))" using l(2) by (simp add: sorted_tl sorted_insort)
    moreover have "length (tl (insort cur (poc_window d))) = 16" using l(1) by simp
    ultimately show ?thesis using False w r c by (auto simp: e(1) Let_def window_ok_def)
  qed
qed

section \<open>The order of output\<close>

text \<open>
  The queue falls into runs, each from a picture that restarts the count (an IDR picture or one with a
  reset) up to the next; a run is output by count, the earlier of two equal ones first, except that a
  picture with a reset goes out before the rest of its run.
\<close>

definition plain :: "(fref \<Rightarrow> DecodedFrame) \<Rightarrow> fref \<Rightarrow> bool" where
  "plain h f \<longleftrightarrow> \<not> df_idrKeyFrame (h f) \<and> \<not> df_mmcoReset (h f)"

function output_order :: "(fref \<Rightarrow> DecodedFrame) \<Rightarrow> fref list \<Rightarrow> fref list" where
  "output_order h [] = []"
| "output_order h (f # fs) =
     (if df_mmcoReset (h f) then f # output_order h fs
      else sort_key (\<lambda>g. df_poc (h g)) (f # takeWhile (plain h) fs) @ output_order h (dropWhile (plain h) fs))"
  by pat_completeness auto
termination
  by (relation "measure (\<lambda>(h, fs). length fs)") (auto simp: le_imp_less_Suc length_dropWhile_le)

declare output_order.simps(2) [simp del]

lemma output_order_run:
  "output_order h fs = sort_key (\<lambda>g. df_poc (h g)) (takeWhile (plain h) fs) @ output_order h (dropWhile (plain h) fs)"
proof (cases fs)
  case (Cons f gs)
  show ?thesis
  proof (cases "plain h f")
    case True
    then show ?thesis unfolding Cons by (subst output_order.simps) (simp add: plain_def)
  qed (simp add: Cons)
qed simp

lemma mset_output_order [simp]: "mset (output_order h fs) = mset fs"
proof (induction h fs rule: output_order.induct)
  case (2 h f fs)
  show ?case
  proof (cases "df_mmcoReset (h f)")
    case False
    have "mset fs = mset (takeWhile (plain h) fs) + mset (dropWhile (plain h) fs)"
      by (metis mset_append takeWhile_dropWhile_id)
    then show ?thesis using "2.IH"(2) [OF False] False by (subst output_order.simps) simp
  qed (use "2.IH"(1) in \<open>simp add: output_order.simps(2)\<close>)
qed simp

lemma output_order_cong:
  assumes "\<And>f. df_poc (h' f) = df_poc (h f) \<and> df_idrKeyFrame (h' f) = df_idrKeyFrame (h f) \<and> df_mmcoReset (h' f) = df_mmcoReset (h f)"
  shows "output_order h' fs = output_order h fs"
proof -
  have p: "plain h' = plain h" "(\<lambda>g. df_poc (h' g)) = (\<lambda>g. df_poc (h g))" using assms by (simp_all add: plain_def fun_eq_iff)
  show ?thesis
  proof (induction "length fs" arbitrary: fs rule: less_induct)
    case less
    show ?case
    proof (cases fs)
      case (Cons f gs)
      have "output_order h' gs = output_order h gs" "output_order h' (dropWhile (plain h) gs) = output_order h (dropWhile (plain h) gs)"
        using less by (simp_all add: Cons le_imp_less_Suc length_dropWhile_le)
      then show ?thesis unfolding Cons output_order.simps(2) p using assms [of f] by simp
    qed simp
  qed
qed

text \<open>Taking the first of the least elements out of a list, as a step of sorting it.\<close>

lemma sort_key_first_min:
  assumes "k < length xs" "\<And>j. j < length xs \<Longrightarrow> g (xs ! k) \<le> g (xs ! j)" "\<And>j. j < k \<Longrightarrow> g (xs ! k) < g (xs ! j)"
  shows "sort_key g xs = xs ! k # sort_key g (take k xs @ drop (Suc k) xs)"
proof (rule properties_for_sort_key)
  let ?r = "take k xs @ drop (Suc k) xs"
  have xs: "xs = take k xs @ xs ! k # drop (Suc k) xs" using assms(1) by (rule id_take_nth_drop)
  have "mset xs = mset (take k xs @ xs ! k # drop (Suc k) xs)" using xs by simp
  then show "mset (xs ! k # sort_key g ?r) = mset xs" by simp
  have "g (xs ! k) \<le> g y" if "y \<in> set ?r" for y
  proof -
    have "y \<in> set xs" using that by (auto dest: in_set_takeD in_set_dropD)
    then show ?thesis using assms(2) by (auto simp: in_set_conv_nth)
  qed
  then show "sorted (map g (xs ! k # sort_key g ?r))" by simp
  have "filter (\<lambda>y. c = g y) (xs ! k # sort_key g ?r) = filter (\<lambda>y. c = g y) xs" for c
  proof -
    have t: "filter (\<lambda>y. c = g y) (take k xs) = []" if "c = g (xs ! k)"
    proof -
      have "g (xs ! k) < g y" if "y \<in> set (take k xs)" for y
        using that assms(1,3) by (auto simp: in_set_conv_nth)
      then show ?thesis using that by (fastforce simp: filter_empty_conv)
    qed
    have "filter (\<lambda>y. c = g y) xs = filter (\<lambda>y. c = g y) (take k xs @ xs ! k # drop (Suc k) xs)" using xs by simp
    moreover have "filter (\<lambda>y. c = g y) (sort_key g ?r) = filter (\<lambda>y. c = g y) ?r"
      using sort_key_stable [of g c ?r] by (simp only: eq_commute [of c])
    ultimately show ?thesis using t by (cases "c = g (xs ! k)") simp_all
  qed
  then show "filter (\<lambda>y. g x = g y) (xs ! k # sort_key g ?r) = filter (\<lambda>y. g x = g y) xs" for x .
qed

lemma next_index_loop_spec:
  assumes "o' < i" "n = length (takeWhile (plain (dp_heap d)) (drop i (dp_delayed d)))"
    and "\<And>j. j < i \<Longrightarrow> df_poc (dp_heap d (dp_delayed d ! o')) \<le> df_poc (dp_heap d (dp_delayed d ! j))"
    and "\<And>j. j < o' \<Longrightarrow> df_poc (dp_heap d (dp_delayed d ! o')) < df_poc (dp_heap d (dp_delayed d ! j))"
    and "k = next_index_loop d i o'"
  shows "k < i + n \<and> (\<forall>j < i + n. df_poc (dp_heap d (dp_delayed d ! k)) \<le> df_poc (dp_heap d (dp_delayed d ! j)))
     \<and> (\<forall>j < k. df_poc (dp_heap d (dp_delayed d ! k)) < df_poc (dp_heap d (dp_delayed d ! j)))"
  using assms
proof (induction d i o' arbitrary: n rule: next_index_loop.induct)
  case (1 d i o')
  let ?p = "\<lambda>j. df_poc (dp_heap d (dp_delayed d ! j))"
  show ?case
  proof (cases "i < length (dp_delayed d) \<and> \<not> df_idrKeyFrame (dp_heap d (dp_delayed d ! i)) \<and> \<not> df_mmcoReset (dp_heap d (dp_delayed d ! i))")
    case False
    have n0: "n = 0"
    proof (cases "i < length (dp_delayed d)")
      case True
      then show ?thesis using False "1.prems"(2) by (simp add: Cons_nth_drop_Suc [symmetric] plain_def)
    qed (use "1.prems"(2) in simp)
    have "k = o'" using "1.prems"(5) unfolding next_index_loop.simps [of d i o'] if_not_P [OF False] .
    then show ?thesis using n0 "1.prems"(1,3,4) by simp
  next
    case True
    then have n: "n = Suc (length (takeWhile (plain (dp_heap d)) (drop (Suc i) (dp_delayed d))))"
    proof -
      have "plain (dp_heap d) (dp_delayed d ! i)" using True by (simp add: plain_def)
      then show ?thesis using "1.prems"(2) True by (simp add: Cons_nth_drop_Suc [symmetric])
    qed
    let ?o = "if ?p i < ?p o' then i else o'"
    have k: "k = next_index_loop d (i + 1) ?o" using "1.prems"(5) unfolding next_index_loop.simps [of d i o'] if_P [OF True] .
    have le: "?p ?o \<le> ?p j" if "j < i + 1" for j
      using "1.prems"(3) that by (cases "j = i") (fastforce simp: less_Suc_eq)+
    have lt: "?p ?o < ?p j" if "j < ?o" for j
      using "1.prems"(1,3,4) that by (fastforce split: if_splits)
    have "?o < i + 1" using "1.prems"(1) by simp
    from "1.IH" [OF True this refl le lt k] show ?thesis unfolding n by simp
  qed
qed

lemma next_output:
  assumes "dp_delayed d \<noteq> []" "i = nextOutputFrameIndex d"
  shows "i < length (dp_delayed d)"
    "output_order (dp_heap d) (dp_delayed d) = dp_delayed d ! i # output_order (dp_heap d) (take i (dp_delayed d) @ drop (Suc i) (dp_delayed d))"
proof -
  let ?h = "dp_heap d" and ?g = "\<lambda>g. df_poc (dp_heap d g)"
  obtain f fs where q: "dp_delayed d = f # fs" using assms(1) by (cases "dp_delayed d") auto
  have "i < length (dp_delayed d) \<and>
     output_order ?h (dp_delayed d) = dp_delayed d ! i # output_order ?h (take i (dp_delayed d) @ drop (Suc i) (dp_delayed d))"
  proof (cases "df_mmcoReset (?h f)")
    case True
    then have "i = 0" using assms(2) by (simp add: nextOutputFrameIndex_def q)
    then show ?thesis using True by (simp add: q output_order.simps(2))
  next
    case False
    define s where "s = takeWhile (plain ?h) fs"
    define r where "r = dropWhile (plain ?h) fs"
    have fs: "fs = s @ r" by (simp add: s_def r_def)
    have sp: "takeWhile (plain ?h) (s' @ r) = s'" "dropWhile (plain ?h) (s' @ r) = r" if "set s' \<subseteq> set s" for s'
    proof -
      have "\<forall>x\<in>set s'. plain ?h x" using that by (auto simp: s_def dest: set_takeWhileD)
      moreover have "r = [] \<or> \<not> plain ?h (hd r)" unfolding r_def using hd_dropWhile [of "plain ?h" fs] by blast
      then have "takeWhile (plain ?h) r = []" "dropWhile (plain ?h) r = r" by (cases r; simp)+
      ultimately show "takeWhile (plain ?h) (s' @ r) = s'" "dropWhile (plain ?h) (s' @ r) = r"
        by (simp_all add: takeWhile_append2 dropWhile_append2)
    qed
    have i: "i = next_index_loop d 1 0" using False assms(2) by (simp add: nextOutputFrameIndex_def q)
    have "length s = length (takeWhile (plain ?h) (drop 1 (dp_delayed d)))" by (simp add: q s_def)
    from next_index_loop_spec [OF _ this _ _ i] have k: "i < Suc (length s)"
        "\<And>j. j < Suc (length s) \<Longrightarrow> ?g (dp_delayed d ! i) \<le> ?g (dp_delayed d ! j)"
        "\<And>j. j < i \<Longrightarrow> ?g (dp_delayed d ! i) < ?g (dp_delayed d ! j)"
      by auto
    have nth: "(f # s) ! j = dp_delayed d ! j" if "j < Suc (length s)" for j
      using that by (cases j) (simp_all add: q fs nth_append)
    have so: "sort_key ?g (f # s) = (f # s) ! i # sort_key ?g (take i (f # s) @ drop (Suc i) (f # s))"
    proof (rule sort_key_first_min)
      show "i < length (f # s)" using k(1) by simp
      show "?g ((f # s) ! i) \<le> ?g ((f # s) ! j)" if "j < length (f # s)" for j
        unfolding nth [OF k(1)] nth [OF that [unfolded length_Cons]] by (rule k(2) [OF that [unfolded length_Cons]])
      show "?g ((f # s) ! i) < ?g ((f # s) ! j)" if "j < i" for j
        unfolding nth [OF k(1)] nth [OF less_trans [OF that k(1)]] by (rule k(3) [OF that])
    qed
    have oo: "output_order ?h (f # s' @ r) = sort_key ?g (f # s') @ output_order ?h r" if "set s' \<subseteq> set s" for s'
      using False sp [OF that] by (simp add: output_order.simps(2))
    have "output_order ?h (take i (f # fs) @ drop (Suc i) (f # fs)) = sort_key ?g (take i (f # s) @ drop (Suc i) (f # s)) @ output_order ?h r"
    proof (cases i)
      case 0
      then show ?thesis using output_order_run [of ?h fs] by (simp add: s_def r_def)
    next
      case (Suc m)
      have "take i (f # fs) @ drop (Suc i) (f # fs) = f # (take m s @ drop (Suc m) s) @ r"
        using k(1) by (simp add: Suc fs)
      moreover have "set (take m s @ drop (Suc m) s) \<subseteq> set s" by (auto dest: in_set_takeD in_set_dropD)
      ultimately show ?thesis using oo [of "take m s @ drop (Suc m) s"] by (simp add: Suc)
    qed
    then show ?thesis using oo [of s] so k(1) nth [OF k(1)] by (simp add: q fs)
  qed
  then show "i < length (dp_delayed d)"
    "output_order ?h (dp_delayed d) = dp_delayed d ! i # output_order ?h (take i (dp_delayed d) @ drop (Suc i) (dp_delayed d))"
    by blast+
qed

text \<open>Which of the pictures are shown: those recovered themselves, and all that follow a recovery point.\<close>

fun shown_of :: "(fref \<Rightarrow> u8) \<Rightarrow> u8 \<Rightarrow> fref list \<Rightarrow> fref list" where
  "shown_of rc acc [] = []"
| "shown_of rc acc (f # fs) =
     (let acc = acc OR rc f in
      if rc f OR (acc AND simpleFrameRecoveredSEI) \<noteq> 0 then f # shown_of rc acc fs else shown_of rc acc fs)"

lemma shown_of_cong: "(\<And>f. f \<in> set fs \<Longrightarrow> rc f = rc' f) \<Longrightarrow> shown_of rc a fs = shown_of rc' a fs"
  by (induction fs arbitrary: a) (auto simp: Let_def)

lemma drain_flush_step:
  assumes "drain_step True i d = ((rm, shown), d')" "i < length (dp_delayed d)"
  defines "f \<equiv> dp_delayed d ! i"
  defines "acc \<equiv> dp_frameRecovered d OR df_recovered (dp_heap d f)"
  shows "rm" "dp_delayed d' = take i (dp_delayed d) @ drop (Suc i) (dp_delayed d)" "dp_frameRecovered d' = acc"
    "shown = (df_recovered (dp_heap d f) OR (acc AND simpleFrameRecoveredSEI) \<noteq> 0)"
    "\<exists>x. dp_heap d' = (dp_heap d)(f := (dp_heap d f)\<lparr>df_recovered := x\<rparr>)"
  using assms(1)
  by (auto simp: drain_step_def Let_def removeDelayedOutputAt_def markOutputFrameRecovered_def upd_frame_def f_def acc_def split: if_splits)

lemma drain_flush:
  assumes "distinct (dp_delayed d)"
  shows "\<exists>d'. drain_loop True out d = (Inr (out @ shown_of (\<lambda>f. df_recovered (dp_heap d f)) (dp_frameRecovered d)
       (output_order (dp_heap d) (dp_delayed d))), d') \<and> dp_delayed d' = []"
  using assms
proof (induction "length (dp_delayed d)" arbitrary: d out rule: less_induct)
  case less
  show ?case
  proof (cases "dp_delayed d = []")
    case True
    then show ?thesis by (subst drain_loop.simps) simp
  next
    case False
    define i where "i = nextOutputFrameIndex d"
    define f where "f = dp_delayed d ! i"
    note n = next_output [OF False i_def]
    obtain rm shown d' where s: "drain_step True i d = ((rm, shown), d')" by (metis surj_pair)
    note st = drain_flush_step [OF s n(1)]
    let ?rest = "take i (dp_delayed d) @ drop (Suc i) (dp_delayed d)"
    have di: "distinct ?rest" "f \<notin> set ?rest"
    proof -
      have "distinct (take i (dp_delayed d) @ f # drop (Suc i) (dp_delayed d))"
        using id_take_nth_drop [OF n(1)] less.prems by (simp add: f_def)
      then show "distinct ?rest" "f \<notin> set ?rest" by auto
    qed
    have "length (dp_delayed d') < length (dp_delayed d)" using st(2) n(1) by simp
    from less.hyps [OF this, of "if shown then out @ [f] else out"] di(1) st(2) obtain d2 where
      d2: "drain_loop True (if shown then out @ [f] else out) d' = (Inr ((if shown then out @ [f] else out) @
          shown_of (\<lambda>g. df_recovered (dp_heap d' g)) (dp_frameRecovered d') (output_order (dp_heap d') ?rest)), d2)" "dp_delayed d2 = []"
      by auto
    obtain x where x: "dp_heap d' = (dp_heap d)(f := (dp_heap d f)\<lparr>df_recovered := x\<rparr>)" using st(5) by (auto simp: f_def)
    have oo: "output_order (dp_heap d') ?rest = output_order (dp_heap d) ?rest"
      by (rule output_order_cong) (simp add: x)
    have "set (output_order (dp_heap d) ?rest) = set ?rest" by (metis mset_output_order set_mset_mset)
    then have sh: "shown_of (\<lambda>g. df_recovered (dp_heap d' g)) a (output_order (dp_heap d) ?rest)
        = shown_of (\<lambda>g. df_recovered (dp_heap d g)) a (output_order (dp_heap d) ?rest)" for a
      by (intro shown_of_cong) (use di(2) x in auto)
    have "drain_loop True out d = drain_loop True (if shown then out @ [f] else out) d'"
      using False n(1) s st(1) by (subst drain_loop.simps) (simp add: Let_def i_def [symmetric] f_def)
    then show ?thesis using d2 n(2) st(3,4) oo sh by (auto simp: f_def Let_def)
  qed
qed

text \<open>
  C38. Flushing empties the queue, and always returns: what leaves it is every picture that waited,
  in the order of output, and what is shown of them are the recovered pictures and, from the first
  one with a recovery point on, all of them.
\<close>

theorem flush_order:
  assumes "distinct (dp_delayed d)"
  shows "\<exists>d'. drainOutputFrames True d =
       (Inr (shown_of (\<lambda>f. df_recovered (dp_heap d f)) (dp_frameRecovered d) (output_order (dp_heap d) (dp_delayed d))), d')
     \<and> dp_delayed d' = [] \<and> mset (output_order (dp_heap d) (dp_delayed d)) = mset (dp_delayed d)"
  using drain_flush [OF assms, of "[]"] by (auto simp: drainOutputFrames_def)

section \<open>The delay is bounded\<close>

definition delay_inv :: "simpleFrameDPB \<Rightarrow> bool" where
  "delay_inv d \<longleftrightarrow> length (dp_lastPOCs d) = 16 \<and> 0 \<le> dp_hasBFrames d \<and> dp_hasBFrames d \<le> 16
     \<and> int (length (dp_delayed d)) \<le> dp_hasBFrames d"

lemma note_loop_range: "i \<le> 16 \<Longrightarrow> note_loop cur i L = (j, L') \<Longrightarrow> length L' = length L \<and> j \<le> 16"
proof (induction cur i L arbitrary: j L' rule: note_loop.induct)
  case (1 cur i L)
  show ?case
  proof (cases "i \<ge> 16 \<or> cur < L ! i")
    case True
    then have "note_loop cur i L = (i, if i \<noteq> 0 then L[i - 1 := cur] else L)" by (subst note_loop.simps) (simp only: if_True)
    then show ?thesis using "1.prems" by (auto split: if_splits)
  next
    case False
    let ?M = "if i \<noteq> 0 then L[i - 1 := L ! i] else L"
    have "note_loop cur (i + 1) ?M = (j, L')"
      using "1.prems"(2) unfolding note_loop.simps [of cur i L] if_not_P [OF False] .
    from "1.IH" [OF False _ this] False show ?thesis by simp
  qed
qed

lemma notePOC_range:
  assumes "notePOCReorder cur isB d = (n, d')" "length (dp_lastPOCs d) = 16"
  shows "0 \<le> n \<and> n \<le> 16 \<and> length (dp_lastPOCs d') = 16 \<and> dp_hasBFrames d' = dp_hasBFrames d \<and> dp_delayed d' = dp_delayed d"
proof -
  have l: "length (dp_lastPOCs (ensureLastPOCs d)) = 16" "dp_hasBFrames (ensureLastPOCs d) = dp_hasBFrames d"
      "dp_delayed (ensureLastPOCs d) = dp_delayed d"
    using assms(2) by (auto simp: ensureLastPOCs_def resetLastPOCs_def)
  obtain j L' where r: "note_loop cur 0 (dp_lastPOCs (ensureLastPOCs d)) = (j, L')" by fastforce
  show ?thesis
    using assms(1) note_loop_range [OF le0 r] l by (auto simp: notePOCReorder_def Let_def r split: if_splits)
qed

lemma updateReorderDelay_range:
  fixes frame sh
  assumes "delay_inv d" "0 \<le> sps_NumReorderFrames sps" "sps_NumReorderFrames sps \<le> 16"
  defines "d' \<equiv> updateReorderDelay frame sh sps d"
  shows "length (dp_lastPOCs d') = 16 \<and> dp_hasBFrames d \<le> dp_hasBFrames d' \<and> dp_hasBFrames d' \<le> 16 \<and> dp_delayed d' = dp_delayed d"
proof -
  define d1 where "d1 = (if sps_BitstreamRestrictionFlag sps \<noteq> 0 \<and> sps_NumReorderFrames sps > i32 (dp_hasBFrames d)
               then d\<lparr>dp_hasBFrames := sps_NumReorderFrames sps\<rparr> else d)"
  have h: "0 \<le> dp_hasBFrames d" "dp_hasBFrames d \<le> 16" "length (dp_lastPOCs d) = 16" using assms(1) by (auto simp: delay_inv_def)
  have i: "i32 (dp_hasBFrames d) = dp_hasBFrames d" using h by (intro i32_id) auto
  have b: "dp_hasBFrames d \<le> dp_hasBFrames d1" "dp_hasBFrames d1 \<le> 16" "length (dp_lastPOCs d1) = 16" "dp_delayed d1 = dp_delayed d"
    using h assms(3) by (auto simp: d1_def i)
  obtain n d2 where n: "notePOCReorder (df_poc (dp_heap d1 frame)) (sh_SliceTypeNoS sh = PictureTypeB) d1 = (n, d2)" by fastforce
  note r = notePOC_range [OF n b(3)]
  have "d' = (if n = 16 then
           let d = resetLastPOCs d2 in
           upd_frame frame (\<lambda>f. f\<lparr>df_mmcoReset := True\<rparr>) (d\<lparr>dp_lastPOCs := (dp_lastPOCs d)[0 := df_poc (dp_heap d1 frame)]\<rparr>)
         else if dp_hasBFrames d2 < n \<and> sps_BitstreamRestrictionFlag sps = 0 then d2\<lparr>dp_hasBFrames := n\<rparr> else d2)"
    unfolding d'_def updateReorderDelay_def d1_def [symmetric] Let_def n by simp
  then show ?thesis using r b by (auto simp: Let_def upd_frame_def resetLastPOCs_def split: if_splits)
qed

lemma drain_step_fields:
  assumes "drain_step flush i d = ((rm, shown), d')"
  shows "dp_hasBFrames d' = dp_hasBFrames d" "dp_lastPOCs d' = dp_lastPOCs d"
    "\<not> rm \<Longrightarrow> dp_delayed d' = dp_delayed d \<and> int (length (dp_delayed d)) \<le> dp_hasBFrames d"
  using assms
  by (auto simp: drain_step_def Let_def removeDelayedOutputAt_def markOutputFrameRecovered_def upd_frame_def split: if_splits)

lemma drain_once:
  "\<exists>out d'. drainOutputFrames False d = (Inr out, d') \<and> length out \<le> 1 \<and> dp_hasBFrames d' = dp_hasBFrames d
     \<and> dp_lastPOCs d' = dp_lastPOCs d
     \<and> (length (dp_delayed d') + 1 = length (dp_delayed d) \<or> int (length (dp_delayed d')) \<le> dp_hasBFrames d \<and> dp_delayed d' = dp_delayed d
        \<or> dp_delayed d' = [])"
proof (cases "dp_delayed d = []")
  case True
  then show ?thesis by (simp add: drainOutputFrames_def) (subst drain_loop.simps, simp)
next
  case False
  define i where "i = nextOutputFrameIndex d"
  note n = next_output(1) [OF False i_def]
  obtain rm shown d' where s: "drain_step False i d = ((rm, shown), d')" by (metis surj_pair)
  note f = drain_step_fields [OF s]
  have "drainOutputFrames False d = (Inr (if rm \<and> shown then [dp_delayed d ! i] else []), d')"
    unfolding drainOutputFrames_def using False n s by (subst drain_loop.simps) (simp add: Let_def i_def [symmetric])
  moreover have "rm \<Longrightarrow> length (dp_delayed d') + 1 = length (dp_delayed d)"
    using drain_step_delayed [of False i d shown d'] s n by (cases rm) simp_all
  ultimately show ?thesis using f by (cases rm) auto
qed

text \<open>
  C39. Holding a picture and then draining keeps the queue within the delay: neither step fails for a
  parameter set the parser accepts, at most one picture comes out, no more pictures wait than the
  delay (16 at most), and the delay never falls.
\<close>

theorem output_delay_bounded:
  assumes "delay_inv d" "sh_SPS sh = Some sps" "sps_ok sps"
  shows "\<exists>d1 out d2. holdOutputFrame frame sh d = (Inr (), d1) \<and> drainOutputFrames False d1 = (Inr out, d2)
     \<and> length out \<le> 1 \<and> delay_inv d2 \<and> dp_hasBFrames d \<le> dp_hasBFrames d2"
proof -
  have p: "0 \<le> sps_NumReorderFrames sps" "sps_NumReorderFrames sps \<le> 16"
    using assms(3) by (simp_all only: sps_ok_def sps_shape_def)
  define d' where "d' = updateReorderDelay frame sh sps d"
  note u = updateReorderDelay_range [OF assms(1) p, of frame sh, folded d'_def]
  have h: "0 \<le> dp_hasBFrames d" "int (length (dp_delayed d)) \<le> dp_hasBFrames d" using assms(1) by (simp_all add: delay_inv_def)
  let ?d1 = "d'\<lparr>dp_delayed := dp_delayed d' @ [frame]\<rparr>"
  have "holdOutputFrame frame sh d = (Inr (), ?d1)"
    using u h by (simp add: holdOutputFrame_def assms(2) d'_def [symmetric] Let_def)
  moreover obtain out d2 where o': "drainOutputFrames False ?d1 = (Inr out, d2)" "length out \<le> 1" "dp_hasBFrames d2 = dp_hasBFrames d'"
      "dp_lastPOCs d2 = dp_lastPOCs d'"
      "length (dp_delayed d2) + 1 = length (dp_delayed ?d1) \<or> int (length (dp_delayed d2)) \<le> dp_hasBFrames d' \<or> dp_delayed d2 = []"
    using drain_once [of ?d1] by auto
  moreover have "delay_inv d2"
    using o'(3-5) u h by (auto simp: delay_inv_def)
  ultimately show ?thesis using u by auto
qed

section \<open>Instances\<close>

text \<open>Three pictures wait, with the counts 8, 2 and 4; the middle one is recovered by a recovery point.\<close>

definition out_dpb :: simpleFrameDPB where
  "out_dpb = (dpb_zero (\<lambda>f. frame_init\<lparr>df_poc := (if f = 1 then 8 else if f = 2 then 2 else 4),
     df_recovered := (if f = 3 then 2 else 0)\<rparr>) 4)\<lparr>dp_delayed := [1, 2, 3], dp_hasBFrames := 3\<rparr>"

lemma flush_order_witness: "fst (drainOutputFrames True out_dpb) = Inr [3, 1]"
proof -
  have "distinct (dp_delayed out_dpb)" by (simp add: out_dpb_def)
  from flush_order [OF this] obtain d' where "drainOutputFrames True out_dpb =
       (Inr (shown_of (\<lambda>f. df_recovered (dp_heap out_dpb f)) (dp_frameRecovered out_dpb) (output_order (dp_heap out_dpb) (dp_delayed out_dpb))), d')"
    by blast
  moreover have "shown_of (\<lambda>f. df_recovered (dp_heap out_dpb f)) (dp_frameRecovered out_dpb) (output_order (dp_heap out_dpb) (dp_delayed out_dpb)) = [3, 1]"
    by code_simp
  ultimately show ?thesis by simp
qed

lemma output_delay_bounded_witness:
  "\<exists>d1 out d2. holdOutputFrame 1 demo_sh out_dpb = (Inr (), d1) \<and> drainOutputFrames False d1 = (Inr out, d2) \<and> delay_inv d2"
  using output_delay_bounded [of out_dpb demo_sh demo_sps 1] demo_sps_ok(1)
  by (auto simp: delay_inv_def out_dpb_def dpb_zero_def demo_sh_def)

lemma notePOCReorder_window_witness:
  "poc_window (snd (notePOCReorder 7 False (dpb_zero (\<lambda>_. frame_init) 0))) = tl (insort 7 (replicate 16 MinInt32))"
proof -
  let ?d = "dpb_zero (\<lambda>_. frame_init) 0"
  have w: "poc_window ?d = replicate 16 MinInt32" by (simp add: poc_window_def dpb_zero_def)
  have "window_ok ?d" by (simp add: window_ok_def w) (simp add: dpb_zero_def)
  moreover obtain n d' where e: "notePOCReorder 7 False ?d = (n, d')" by fastforce
  ultimately show ?thesis using notePOCReorder_window [of ?d 7 False n d'] unfolding w by simp
qed

end
