(* ===== verification/Cabac_Engine.thy ===== *)
theory Cabac_Engine
  imports Cabac_Tables Slice_Header
begin

unbundle bit_operations_syntax

text \<open>
  The arithmetic decoding engine (\<open>cabac.go\<close>). The code keeps the offset of the standard's decoder
  scaled by \<open>2^17\<close>, with up to 16 bits of the stream already shifted in behind it and a one that marks
  how many are left; it reads two bytes at a time, when the mark reaches bit 16. An \<open>int32\<close> is an integer
  that every operation wraps; a context's state is the \<open>uint8\<close> value as an integer. Where the buffer's
  third byte lies at an odd address the engine starts with three bytes instead of two: that is a parameter.
\<close>

section \<open>The engine\<close>

abbreviation (input) cabacBits :: nat where "cabacBits \<equiv> 16"
abbreviation (input) cabacMask :: int where "cabacMask \<equiv> 65535"
abbreviation (input) h264NormShiftOffset :: nat where "h264NormShiftOffset \<equiv> 0"
abbreviation (input) h264LPSRangeOffset :: nat where "h264LPSRangeOffset \<equiv> 512"
abbreviation (input) h264MLPSStateOffset :: nat where "h264MLPSStateOffset \<equiv> 1024"

record cabacContext =
  cb_low :: int
  cb_rng :: int
  cb_bytestreamStart :: nat
  cb_bytestream :: nat
  cb_bytestreamEnd :: nat
  cb_buf :: bytes

definition cbyte :: "bytes \<Rightarrow> nat \<Rightarrow> int" where
  "cbyte b i = uint (b ! i)"

definition shl :: "int \<Rightarrow> nat \<Rightarrow> int" where
  "shl x n = i32 (x * 2 ^ n)"

text \<open>The sign bit of an \<open>int32\<close>, spread over the word.\<close>

definition sign_mask :: "int \<Rightarrow> int" where
  "sign_mask x = (if x < 0 then - 1 else 0)"

definition initCABACDecoderAligned :: "bytes \<Rightarrow> bool \<Rightarrow> cabacContext result" where
  "initCABACDecoderAligned buf alignedAfterSecondByte =
     (let c = \<lparr>cb_low = 0, cb_rng = 510, cb_bytestreamStart = 0, cb_bytestream = 0, cb_bytestreamEnd = length buf, cb_buf = buf\<rparr> in
      if length buf < 2 then Inl ErrInvalidData
      else let low = i32 (shl (cbyte buf 0) 18 + shl (cbyte buf 1) 10) in
      rbind (if alignedAfterSecondByte then Inr (i32 (low + 512), 2)
             else if 2 \<ge> length buf then Inl ErrInvalidData
             else Inr (i32 (low + i32 (shl (cbyte buf 2) 2 + 2)), 3)) (\<lambda>(low, bytestream).
      if shl (cb_rng c) (cabacBits + 1) < low then Inl ErrInvalidData
      else Inr (c\<lparr>cb_low := low, cb_bytestream := bytestream\<rparr>)))"

definition initCABACDecoder :: "bytes \<Rightarrow> bool \<Rightarrow> cabacContext result" where
  "initCABACDecoder buf addressEven =
     (let aligned = (if length buf > 2 then addressEven else True) in initCABACDecoderAligned buf aligned)"

text \<open>The next two bytes, as far as there are any, in place behind the mark.\<close>

definition next_two :: "cabacContext \<Rightarrow> int" where
  "next_two c =
     (if cb_bytestream c < cb_bytestreamEnd c then shl (cbyte (cb_buf c) (cb_bytestream c)) 9 else 0)
     + (if cb_bytestream c + 1 < cb_bytestreamEnd c then shl (cbyte (cb_buf c) (cb_bytestream c + 1)) 1 else 0)"

definition advance :: "cabacContext \<Rightarrow> cabacContext" where
  "advance c = (if cb_bytestream c < cb_bytestreamEnd c then c\<lparr>cb_bytestream := cb_bytestream c + cabacBits div 8\<rparr> else c)"

definition refill :: "cabacContext \<Rightarrow> cabacContext" where
  "refill c = advance (c\<lparr>cb_low := i32 (i32 (cb_low c + next_two c) - cabacMask)\<rparr>)"

definition refill2 :: "cabacContext \<Rightarrow> cabacContext" where
  "refill2 c =
     (let x = cb_low c XOR i32 (cb_low c - 1);
          i = 7 - h264CABACTables ! (h264NormShiftOffset + nat (drop_bit (cabacBits - 1) (x mod 2 ^ 32)))
      in advance (c\<lparr>cb_low := i32 (cb_low c + shl (i32 (next_two c - cabacMask)) (nat i))\<rparr>))"

definition getCABAC :: "int \<Rightarrow> cabacContext \<Rightarrow> int \<times> int \<times> cabacContext" where
  "getCABAC s c =
     (let rangeLPS = h264CABACTables ! (h264LPSRangeOffset + 2 * nat (cb_rng c AND 192) + nat s);
          rng = i32 (cb_rng c - rangeLPS);
          lpsMask = sign_mask (i32 (shl rng (cabacBits + 1) - cb_low c));
          low = i32 (cb_low c - (shl rng (cabacBits + 1) AND lpsMask));
          rng = i32 (rng + (i32 (rangeLPS - rng) AND lpsMask));
          s = s XOR lpsMask;
          state = h264CABACTables ! nat (int (h264MLPSStateOffset + 128) + s);
          bin = s AND 1;
          shift = h264CABACTables ! (h264NormShiftOffset + nat rng);
          c = c\<lparr>cb_rng := shl rng (nat shift), cb_low := shl low (nat shift)\<rparr>;
          c = (if cb_low c AND cabacMask = 0 then refill2 c else c)
      in (bin, state, c))"

definition double_low :: "cabacContext \<Rightarrow> cabacContext" where
  "double_low c =
     (let c = c\<lparr>cb_low := i32 (cb_low c + cb_low c)\<rparr> in if cb_low c AND cabacMask = 0 then refill c else c)"

definition getCABACBypass :: "cabacContext \<Rightarrow> int \<times> cabacContext" where
  "getCABACBypass c =
     (let c = double_low c; rng = shl (cb_rng c) (cabacBits + 1) in
      if cb_low c < rng then (0, c) else (1, c\<lparr>cb_low := i32 (cb_low c - rng)\<rparr>))"

definition getCABACBypassSign :: "int \<Rightarrow> cabacContext \<Rightarrow> int \<times> cabacContext" where
  "getCABACBypassSign val c =
     (let c = double_low c; rng = shl (cb_rng c) (cabacBits + 1);
          low = i32 (cb_low c - rng);
          msk = sign_mask low;
          rng = rng AND msk
      in (i32 ((val XOR msk) - msk), c\<lparr>cb_low := i32 (low + rng)\<rparr>))"

definition renormCABACDecoderOnce :: "cabacContext \<Rightarrow> cabacContext" where
  "renormCABACDecoderOnce c =
     (let shift = (if i32 (cb_rng c - 256) < 0 then 1 else 0);
          c = c\<lparr>cb_rng := shl (cb_rng c) shift, cb_low := shl (cb_low c) shift\<rparr>
      in if cb_low c AND cabacMask = 0 then refill c else c)"

definition getCABACTerminate :: "cabacContext \<Rightarrow> int \<times> cabacContext" where
  "getCABACTerminate c =
     (let c = c\<lparr>cb_rng := i32 (cb_rng c - 2)\<rparr> in
      if cb_low c < shl (cb_rng c) (cabacBits + 1) then (0, renormCABACDecoderOnce c)
      else (int (cb_bytestream c) - int (cb_bytestreamStart c), c))"

text \<open>\<open>addressEven\<close> is the alignment of the bytes that follow, where the engine starts again.\<close>

definition readIntraPCMBytes :: "int \<Rightarrow> bool \<Rightarrow> cabacContext \<Rightarrow> bytes result \<times> cabacContext" where
  "readIntraPCMBytes n addressEven c =
     (if n < 0 \<or> cb_bytestreamEnd c > length (cb_buf c) then (Inl ErrInvalidData, c)
      else let ptr = int (cb_bytestream c);
               ptr = (if cb_low c AND 1 \<noteq> 0 then ptr - 1 else ptr);
               ptr = (if cb_low c AND 511 \<noteq> 0 then ptr - 1 else ptr) in
      if ptr < 0 \<or> ptr > int (cb_bytestreamEnd c) \<or> n > int (cb_bytestreamEnd c) - ptr then (Inl ErrInvalidData, c)
      else let pcm = take (nat n) (drop (nat ptr) (cb_buf c)); next' = nat (ptr + n) in
        (case initCABACDecoder (drop next' (take (cb_bytestreamEnd c) (cb_buf c))) addressEven of
           Inl e \<Rightarrow> (Inl e, c)
         | Inr c' \<Rightarrow> (Inr pcm, c')))"

section \<open>The states of the contexts\<close>

definition h264CABACState :: "int \<Rightarrow> int \<times> int \<Rightarrow> int" where
  "h264CABACState sliceQP mn =
     (let pre = 2 * ((fst mn * sliceQP) div 2 ^ 4 + snd mn) - 127;
          pre = pre XOR sign_mask pre;
          pre = (if pre > 124 then 124 + (pre AND 1) else pre)
      in pre mod 256)"

definition h264CABACStateTemplate :: "(int \<times> int) list \<Rightarrow> int \<Rightarrow> int list" where
  "h264CABACStateTemplate tab sliceQP = map (h264CABACState sliceQP) tab"

definition initH264CABACStates :: "int \<Rightarrow> u32 \<Rightarrow> int \<Rightarrow> int \<Rightarrow> int list result" where
  "initH264CABACStates sliceTypeNoS cabacInitIDC qscale bitDepthLuma =
     (let sliceQP = clipInt32 (i32 (qscale - i32 (6 * (bitDepthLuma - 8)))) 0 51 in
      if sliceTypeNoS = PictureTypeI then Inr (h264CABACStateTemplate h264CABACContextInitI sliceQP)
      else if unat cabacInitIDC \<ge> 3 then Inl ErrInvalidData
      else Inr (h264CABACStateTemplate (h264CABACContextInitPB ! unat cabacInitIDC) sliceQP))"

section \<open>The decoder of the standard (H.264, 9.3.1 and 9.3.3.2)\<close>

definition rangeTabLPS :: "int list list" where
  "rangeTabLPS = [
     [128, 176, 208, 240], [128, 167, 197, 227], [128, 158, 187, 216], [123, 150, 178, 205],
     [116, 142, 169, 195], [111, 135, 160, 185], [105, 128, 152, 175], [100, 122, 144, 166],
     [95, 116, 137, 158], [90, 110, 130, 150], [85, 104, 123, 142], [81, 99, 117, 135],
     [77, 94, 111, 128], [73, 89, 105, 122], [69, 85, 100, 116], [66, 80, 95, 110],
     [62, 76, 90, 104], [59, 72, 86, 99], [56, 69, 81, 94], [53, 65, 77, 89],
     [51, 62, 73, 85], [48, 59, 69, 80], [46, 56, 66, 76], [43, 53, 63, 72],
     [41, 50, 59, 69], [39, 48, 56, 65], [37, 45, 54, 62], [35, 43, 51, 59],
     [33, 41, 48, 56], [32, 39, 46, 53], [30, 37, 43, 50], [29, 35, 41, 48],
     [27, 33, 39, 45], [26, 31, 37, 43], [24, 30, 35, 41], [23, 28, 33, 39],
     [22, 27, 32, 37], [21, 26, 30, 35], [20, 24, 29, 33], [19, 23, 27, 31],
     [18, 22, 26, 30], [17, 21, 25, 28], [16, 20, 23, 27], [15, 19, 22, 25],
     [14, 18, 21, 24], [14, 17, 20, 23], [13, 16, 19, 22], [12, 15, 18, 21],
     [12, 14, 17, 20], [11, 14, 16, 19], [11, 13, 15, 18], [10, 12, 15, 17],
     [10, 12, 14, 16], [9, 11, 13, 15], [9, 11, 12, 14], [8, 10, 12, 14],
     [8, 9, 11, 13], [7, 9, 11, 12], [7, 9, 10, 12], [7, 8, 10, 11],
     [6, 8, 9, 11], [6, 7, 9, 10], [6, 7, 8, 9], [2, 2, 2, 2]]"

definition transIdxLPS :: "nat list" where
  "transIdxLPS = [
     0, 0, 1, 2, 2, 4, 4, 5, 6, 7, 8, 9, 9, 11, 11, 12, 13, 13, 15, 15, 16, 16, 18, 18, 19, 19, 21, 21, 22, 22, 23, 24,
     24, 25, 26, 26, 27, 27, 28, 29, 29, 30, 30, 30, 31, 32, 32, 33, 33, 33, 34, 34, 35, 35, 35, 36, 36, 36, 37, 37, 37, 38, 38, 63]"

text \<open>The stream, with zeros after its end; the next \<open>n\<close> bits from \<open>p\<close> as a number.\<close>

definition stream_bit :: "bytes \<Rightarrow> nat \<Rightarrow> int" where
  "stream_bit b p = (if p div 8 < length b \<and> bit (b ! (p div 8)) (7 - p mod 8) then 1 else 0)"

primrec read_bits :: "bytes \<Rightarrow> nat \<Rightarrow> nat \<Rightarrow> int" where
  "read_bits b p 0 = 0"
| "read_bits b p (Suc n) = 2 * read_bits b p n + stream_bit b (p + n)"

text \<open>Range, offset and position; a context's probability state and more probable symbol.\<close>

type_synonym std = "int \<times> int \<times> nat"

function RenormD :: "bytes \<Rightarrow> std \<Rightarrow> std" where
  "RenormD b (r, ofs, p) =
     (if 0 < r \<and> r < 256 then RenormD b (2 * r, 2 * ofs + stream_bit b p, p + 1) else (r, ofs, p))"
  by pat_completeness auto
termination by (relation "measure (\<lambda>(b, r, ofs, p). nat (256 - r))") auto

declare RenormD.simps [simp del]

definition DecodeDecision :: "bytes \<Rightarrow> nat \<times> int \<Rightarrow> std \<Rightarrow> int \<times> (nat \<times> int) \<times> std" where
  "DecodeDecision b ctx d = (case (ctx, d) of ((pStateIdx, valMPS), (r, ofs, p)) \<Rightarrow>
     let rLPS = rangeTabLPS ! pStateIdx ! nat (r div 64 mod 4); r = r - rLPS in
     if ofs \<ge> r then
       (1 - valMPS, (transIdxLPS ! pStateIdx, if pStateIdx = 0 then 1 - valMPS else valMPS), RenormD b (rLPS, ofs - r, p))
     else (valMPS, (if pStateIdx < 62 then pStateIdx + 1 else pStateIdx, valMPS), RenormD b (r, ofs, p)))"

definition DecodeBypass :: "bytes \<Rightarrow> std \<Rightarrow> int \<times> std" where
  "DecodeBypass b d = (case d of (r, ofs, p) \<Rightarrow>
     let ofs = 2 * ofs + stream_bit b p in
     if ofs \<ge> r then (1, (r, ofs - r, p + 1)) else (0, (r, ofs, p + 1)))"

definition DecodeTerminate :: "bytes \<Rightarrow> std \<Rightarrow> int \<times> std" where
  "DecodeTerminate b d = (case d of (r, ofs, p) \<Rightarrow>
     if ofs \<ge> r - 2 then (1, (r - 2, ofs, p)) else (0, RenormD b (r - 2, ofs, p)))"

definition initDecodingEngine :: "bytes \<Rightarrow> nat \<Rightarrow> std" where
  "initDecodingEngine b p = (510, read_bits b p 9, p + 9)"

text \<open>The initial state of a context for slice QP \<open>qp\<close>: its probability state and more probable symbol.\<close>

definition preCtxState :: "int \<Rightarrow> int \<Rightarrow> int \<Rightarrow> nat \<times> int" where
  "preCtxState m n qp =
     (let pre = max 1 (min 126 ((m * max 0 (min 51 qp)) div 2 ^ 4 + n)) in
      if pre \<le> 63 then (nat (63 - pre), 0) else (nat (pre - 64), 1))"

end
