(* ===== verification/Cabac_Stream.thy ===== *)
theory Cabac_Stream
  imports Cabac_Engine
begin

text \<open>
  What the engine's refinement rests on: its table holds the standard's ranges and transitions; how its
  register holds the standard's offset, the bits read ahead and the mark; and how two more bytes go in.
\<close>
section \<open>The combined table\<close>

definition norm_shift :: "nat \<Rightarrow> int" where
  "norm_shift r = (if r < 4 then [9, 8, 7, 7] ! r else if r < 8 then 6 else if r < 16 then 5 else if r < 32 then 4
     else if r < 64 then 3 else if r < 128 then 2 else if r < 256 then 1 else 0)"

definition lps_next :: "nat \<Rightarrow> int" where
  "lps_next s = 2 * int (transIdxLPS ! (s div 2)) + (if s < 2 then 1 - int s else int (s mod 2))"

definition mps_next :: "nat \<Rightarrow> int" where
  "mps_next s = (if s < 124 then int s + 2 else int s)"

lemma table_norm: "take 512 h264CABACTables = map norm_shift [0..<512]"
  by code_simp

lemma table_lps: "take 512 (drop 512 h264CABACTables) = map (\<lambda>i. rangeTabLPS ! (i mod 128 div 2) ! (i div 128)) [0..<512]"
  by code_simp

lemma table_mlps:
  "take 256 (drop 1024 h264CABACTables) = map (\<lambda>i. if i < 128 then lps_next (127 - i) else mps_next (i - 128)) [0..<256]"
  by code_simp

lemma nth_take_drop:
  assumes "take n (drop a xs) = map f [0..<n]" "i < n"
  shows "xs ! (a + i) = f i"
proof -
  have "n \<le> length xs - a" using arg_cong [OF assms(1), of length] by simp
  then have "a \<le> length xs" "i < length xs - a" using assms(2) by linarith+
  then have "xs ! (a + i) = take n (drop a xs) ! i" using assms(2) by simp
  also have "\<dots> = f i" using assms by simp
  finally show ?thesis .
qed

lemma norm_lookup: "r < 512 \<Longrightarrow> h264CABACTables ! (0 + r) = norm_shift r"
  by (rule nth_take_drop) (simp_all add: table_norm)

lemma norm_shift_spec:
  assumes "2 \<le> r" "r < 512"
  shows "0 \<le> norm_shift r" "norm_shift r \<le> 7" "256 \<le> r * 2 ^ nat (norm_shift r)" "r * 2 ^ nat (norm_shift r) \<le> 511"
  using assms by (auto simp: norm_shift_def nth_Cons' eval_nat_numeral)

lemma lps_lookup: "q < 4 \<Longrightarrow> s < 128 \<Longrightarrow> h264CABACTables ! (512 + (128 * q + s)) = rangeTabLPS ! (s div 2) ! q"
  by (subst nth_take_drop [OF table_lps]) simp_all

lemma mps_lookup: "s < 128 \<Longrightarrow> h264CABACTables ! (1024 + (128 + s)) = mps_next s"
  by (subst nth_take_drop [OF table_mlps]) simp_all

lemma lps_next_lookup: "s < 128 \<Longrightarrow> h264CABACTables ! (1024 + (127 - s)) = lps_next s"
  by (subst nth_take_drop [OF table_mlps]) auto

lemma lps_ranges: "list_all (\<lambda>row. length row = 4 \<and> list_all (\<lambda>x. 2 \<le> x \<and> x \<le> 240) row) rangeTabLPS" "length rangeTabLPS = 64"
  "list_all (\<lambda>row. row ! 0 \<le> 128 \<and> row ! 1 \<le> 176 \<and> row ! 2 \<le> 208) rangeTabLPS"
  by code_simp+

section \<open>Bits of the stream\<close>

lemma read_bits_add: "read_bits b p (m + n) = read_bits b p m * 2 ^ n + read_bits b (p + m) n"
  by (induction n) (simp_all add: algebra_simps)

lemma stream_bit_range: "0 \<le> stream_bit b p" "stream_bit b p \<le> 1"
  by (simp_all add: stream_bit_def)

lemma read_bits_range: "0 \<le> read_bits b p n" "read_bits b p n < 2 ^ n"
proof -
  have "0 \<le> read_bits b p n \<and> read_bits b p n < 2 ^ n"
  proof (induction n)
    case (Suc n)
    then show ?case using stream_bit_range [of b "p + n"] by simp
  qed simp
  then show "0 \<le> read_bits b p n" "read_bits b p n < 2 ^ n" by auto
qed

lemma read_bits_byte:
  assumes "v < length b" "n \<le> 8"
  shows "read_bits b (8 * v) n = uint (b ! v) div 2 ^ (8 - n)"
  using assms(2)
proof (induction n)
  case 0
  have "uint (b ! v) < 2 ^ 8" using uint_lt2p [of "b ! v"] by simp
  then show ?case by simp
next
  case (Suc n)
  define x where "x = uint (b ! v)"
  define j where "j = 7 - n"
  have j: "8 - n = Suc j" "8 - Suc n = j" using Suc.prems by (simp_all add: j_def)
  have "bit (uint (b ! v)) j \<longleftrightarrow> bit (b ! v) j" by (simp only: bit_uint_iff) (auto dest: bit_imp_le_length)
  then have "bit (b ! v) j \<longleftrightarrow> odd (x div 2 ^ j)" by (simp only: x_def bit_iff_odd [of "uint (b ! v)"])
  moreover have "stream_bit b (8 * v + n) = (if bit (b ! v) j then 1 else 0)"
    using Suc.prems assms(1) by (simp add: stream_bit_def j_def)
  ultimately have "stream_bit b (8 * v + n) = (x div 2 ^ j) mod 2" by (simp add: mod2_eq_if)
  moreover have "x div 2 ^ Suc j = x div 2 ^ j div 2"
    using zdiv_zmult2_eq [of 2 x "2 ^ j"] by (simp add: mult.commute)
  moreover have "2 * (x div 2 ^ j div 2) + x div 2 ^ j mod 2 = x div 2 ^ j" by simp
  moreover have "read_bits b (8 * v) n = x div 2 ^ Suc j" using Suc j by (simp add: x_def)
  ultimately show ?case unfolding j(2) x_def [symmetric] by simp
qed

lemma read_bits_past: "length b * 8 \<le> p \<Longrightarrow> read_bits b p n = 0"
proof (induction n)
  case (Suc n)
  have "length b \<le> (p + n) div 8" using Suc.prems by linarith
  then show ?case using Suc by (simp add: stream_bit_def)
qed simp

section \<open>The offset behind the mark\<close>

text \<open>
  The register holds the offset \<open>ofs\<close>, \<open>16 - k\<close> more bits of the stream from \<open>p\<close>, and the mark at
  bit \<open>k\<close>; the bytes up to \<open>v\<close> have been read. Past the end the pointer no longer moves.
\<close>

definition at_pos :: "bytes \<Rightarrow> nat \<Rightarrow> nat \<Rightarrow> bool" where
  "at_pos b bs v \<longleftrightarrow> bs = v \<or> length b \<le> bs \<and> bs + 2 \<le> v"

definition holds :: "bytes \<Rightarrow> int \<Rightarrow> nat \<Rightarrow> int \<Rightarrow> nat \<Rightarrow> bool" where
  "holds b low bs ofs p \<longleftrightarrow> 0 \<le> ofs \<and>
     (\<exists>k v. k \<le> 15 \<and> low = (ofs * 2 ^ (16 - k) + read_bits b p (16 - k)) * 2 ^ (k + 1) + 2 ^ k
        \<and> 8 * v = p + (16 - k) \<and> at_pos b bs v)"

lemma holds_bounds:
  assumes "holds b low bs ofs p"
  shows "ofs * 2 ^ 17 < low" "low < (ofs + 1) * 2 ^ 17"
proof -
  obtain k where k: "k \<le> 15" "low = (ofs * 2 ^ (16 - k) + read_bits b p (16 - k)) * 2 ^ (k + 1) + 2 ^ k"
    using assms by (auto simp: holds_def)
  define r where "r = read_bits b p (16 - k)"
  have r: "0 \<le> r" "r + 1 \<le> 2 ^ (16 - k)" using read_bits_range [of b p "16 - k"] by (simp_all add: r_def)
  have "16 - k + (k + 1) = 17" using k(1) by simp
  then have e: "(2::int) ^ (16 - k) * 2 ^ (k + 1) = 2 ^ 17" by (simp only: power_add [symmetric])
  have l: "low = ofs * 2 ^ 17 + r * 2 ^ (k + 1) + 2 ^ k"
    unfolding k(2) r_def [symmetric] distrib_right mult.assoc e by simp
  show "ofs * 2 ^ 17 < low" using r(1) by (simp add: l add_nonneg_pos)
  have "(r + 1) * 2 ^ (k + 1) \<le> 2 ^ (16 - k) * 2 ^ (k + 1)" using r(2) by (intro mult_right_mono) auto
  then have "r * 2 ^ (k + 1) + 2 ^ (k + 1) \<le> (2::int) ^ 17" unfolding e by (simp add: distrib_right)
  moreover have "(2::int) ^ k < 2 ^ (k + 1)" by simp
  ultimately have "r * 2 ^ (k + 1) + 2 ^ k < (2::int) ^ 17" by linarith
  then show "low < (ofs + 1) * 2 ^ 17" by (simp add: l distrib_right)
qed

lemma holds_cmp: "holds b low bs ofs p \<Longrightarrow> low < r * 2 ^ 17 \<longleftrightarrow> ofs < r"
proof -
  assume h: "holds b low bs ofs p"
  note hb = holds_bounds [OF h]
  show "low < r * 2 ^ 17 \<longleftrightarrow> ofs < r"
  proof
    assume "low < r * 2 ^ 17"
    then have "ofs * 2 ^ 17 < r * 2 ^ 17" using hb(1) by simp
    then show "ofs < r" by simp
  next
    assume "ofs < r"
    then have "(ofs + 1) * 2 ^ 17 \<le> r * 2 ^ 17" by (intro mult_right_mono) auto
    then show "low < r * 2 ^ 17" using hb(2) by simp
  qed
qed

lemma holds_sub:
  assumes "holds b low bs ofs p" "r \<le> ofs"
  shows "holds b (low - r * 2 ^ 17) bs (ofs - r) p"
proof -
  obtain k v where k: "k \<le> 15" "low = (ofs * 2 ^ (16 - k) + read_bits b p (16 - k)) * 2 ^ (k + 1) + 2 ^ k"
      "8 * v = p + (16 - k)" "at_pos b bs v"
    using assms(1) by (auto simp: holds_def)
  have "16 - k + (k + 1) = 17" using k(1) by simp
  then have "(2::int) ^ (16 - k) * 2 ^ (k + 1) = 2 ^ 17" by (simp only: power_add [symmetric])
  then have "r * 2 ^ 17 = r * 2 ^ (16 - k) * 2 ^ (k + 1)" by (simp only: mult.assoc)
  then have "low - r * 2 ^ 17 = ((ofs - r) * 2 ^ (16 - k) + read_bits b p (16 - k)) * 2 ^ (k + 1) + 2 ^ k"
    unfolding k(2) by (simp only: left_diff_distrib distrib_right)
  then show ?thesis using k assms(2) unfolding holds_def by fastforce
qed

section \<open>Reading two more bytes\<close>

lemma next_two_bits:
  assumes "cb_buf c = b" "cb_bytestreamEnd c = length b" "at_pos b (cb_bytestream c) v"
  shows "next_two c = 2 * read_bits b (8 * v) 16"
proof -
  have B: "(if i < length b then shl (cbyte b i) n else 0) = read_bits b (8 * i) 8 * 2 ^ n" if "n \<le> 9" for i n
  proof (cases "i < length b")
    case True
    have u: "0 \<le> uint (b ! i)" "uint (b ! i) < 2 ^ 8" using uint_lt2p [of "b ! i"] by simp_all
    have "(2::int) ^ n \<le> 2 ^ 9" using that by (intro power_increasing) auto
    then have "uint (b ! i) * 2 ^ n \<le> 2 ^ 8 * 2 ^ 9" using u by (intro mult_mono) auto
    then have up: "uint (b ! i) * 2 ^ n \<le> 2147483647" by simp
    have "0 \<le> uint (b ! i) * 2 ^ n" by (rule mult_nonneg_nonneg) simp_all
    then have lo: "- 2147483648 \<le> uint (b ! i) * 2 ^ n" by linarith
    have "shl (cbyte b i) n = uint (b ! i) * 2 ^ n"
      unfolding shl_def cbyte_def using lo up by (intro i32_id)
    then show ?thesis using True read_bits_byte [of i b 8] by simp
  qed (simp add: read_bits_past)
  have two: "read_bits b (8 * v) 16 = read_bits b (8 * v) 8 * 2 ^ 8 + read_bits b (8 * (v + 1)) 8"
    using read_bits_add [of b "8 * v" 8 8] by (simp add: add.commute)
  show ?thesis
  proof (cases "cb_bytestream c = v")
    case True
    have "next_two c = read_bits b (8 * v) 8 * 2 ^ 9 + read_bits b (8 * (v + 1)) 8 * 2 ^ 1"
      unfolding next_two_def assms(1,2) True by (simp only: B)
    then show ?thesis by (simp add: two)
  next
    case False
    then have "length b \<le> cb_bytestream c" "length b \<le> v" using assms(3) by (auto simp: at_pos_def)
    then show ?thesis using assms(1,2) by (simp add: next_two_def read_bits_past)
  qed
qed

lemma advance_pos:
  assumes "cb_bytestreamEnd c = length b" "at_pos b (cb_bytestream c) v"
  shows "at_pos b (cb_bytestream (advance c)) (v + 2)"
  using assms by (auto simp: advance_def at_pos_def)

text \<open>The register after \<open>n\<close> more shifts, with the mark past bit 15, and two more bytes put in.\<close>

lemma shift_split:
  assumes "n \<le> m + j"
  shows "ofs * 2 ^ (m + j) + read_bits b p (m + j)
       = (ofs * 2 ^ n + read_bits b p n) * 2 ^ (m + j - n) + read_bits b (p + n) (m + j - n)"
proof -
  have "read_bits b p (n + (m + j - n)) = read_bits b p n * 2 ^ (m + j - n) + read_bits b (p + n) (m + j - n)"
    by (rule read_bits_add)
  moreover have "ofs * 2 ^ (n + (m + j - n)) = ofs * 2 ^ n * 2 ^ (m + j - n)" by (simp add: power_add)
  moreover have "n + (m + j - n) = m + j" using assms by simp
  ultimately show ?thesis by (simp add: distrib_right)
qed

text \<open>The mark, found by \<open>low ^ (low - 1)\<close>.\<close>

lemma xor_pred:
  "(A * 2 ^ Suc k + 2 ^ k) XOR (A * 2 ^ Suc k + 2 ^ k - 1) = (2 ^ Suc k - 1 :: int)"
proof (induction k)
  case 0
  show ?case by (subst xor_rec) simp
next
  case (Suc k)
  let ?x = "A * 2 ^ Suc k + 2 ^ k"
  have e: "A * 2 ^ Suc (Suc k) + 2 ^ Suc k = 2 * ?x" by simp
  have h: "(2 * x) XOR (2 * x - 1) = 1 + 2 * (x XOR (x - 1))" for x :: int
  proof -
    have "(2 * x - 1) div 2 = x - 1" by simp
    then show ?thesis by (subst xor_rec) simp
  qed
  show ?case unfolding e h Suc.IH by simp
qed

lemma and_mask: "(x :: int) AND 65535 = x mod 2 ^ 16" "x AND 511 = x mod 2 ^ 9" "x AND 1 = x mod 2 ^ 1"
  using take_bit_eq_mask [of 16 x] take_bit_eq_mask [of 9 x] by (simp_all add: take_bit_eq_mod mask_eq_exp_minus_1 and_one_eq)

text \<open>Where the mark is.\<close>

lemma mark_mod:
  fixes x :: int
  assumes "x = A * 2 ^ (k + 1) + 2 ^ k"
  shows "x mod 2 ^ m = 0 \<longleftrightarrow> m \<le> k"
proof
  assume "m \<le> k"
  then obtain j where "k = m + j" using le_Suc_ex by blast
  then have "x = 2 ^ m * (A * 2 ^ (j + 1) + 2 ^ j)" unfolding assms by (simp add: power_add algebra_simps)
  then show "x mod 2 ^ m = 0" by simp
next
  assume "x mod 2 ^ m = 0"
  then have d: "2 ^ m dvd x" by (simp add: mod_eq_0_iff_dvd)
  show "m \<le> k"
  proof (rule ccontr)
    assume "\<not> m \<le> k"
    then have "(2::int) ^ (k + 1) dvd 2 ^ m" by (intro le_imp_power_dvd) simp
    then have "2 ^ (k + 1) dvd x" using d by (rule dvd_trans)
    then have "(2::int) ^ (k + 1) dvd 2 ^ k" unfolding assms by (simp add: dvd_add_right_iff)
    then show False by (auto dest: zdvd_imp_le)
  qed
qed

lemma mark_test: "x = A * 2 ^ (k + 1) + 2 ^ k \<Longrightarrow> x AND 65535 = 0 \<longleftrightarrow> 16 \<le> k" for x :: int
  unfolding and_mask by (rule mark_mod)

text \<open>Two more bytes: \<open>refill\<close> when the mark is at bit 16, \<open>refill2\<close> when it is further up.\<close>

lemma small_pow: "i \<le> 7 \<Longrightarrow> (2::int) ^ i \<le> 128"
  using power_increasing [of i 7 "2::int"] by simp

lemma refill2_shift:
  assumes "i \<le> 7" "0 \<le> A" "(A + 1) * 2 ^ (i + 17) \<le> 2 ^ 31"
    and "cb_low c = A * 2 ^ (i + 17) + 2 ^ (i + 16)"
  shows "7 - h264CABACTables ! (0 + nat (drop_bit 15 ((cb_low c XOR i32 (cb_low c - 1)) mod 2 ^ 32))) = int i"
proof -
  let ?l = "A * 2 ^ Suc (i + 16) + 2 ^ (i + 16)"
  have l: "cb_low c = ?l" using assms(4) by simp
  define q :: int where "q = 2 ^ i"
  have q: "1 \<le> q" by (simp add: q_def)
  have p: "(2::int) ^ (i + 16) = 65536 * q" "(2::int) ^ (i + 17) = 131072 * q" by (simp_all add: power_add q_def)
  have "?l = A * 2 ^ (i + 17) + 2 ^ (i + 16)" by simp
  then have ll: "?l = 131072 * (A * q) + 65536 * q" by (simp only: p)
  have "0 \<le> A * q" using assms(2) q by simp
  moreover have "131072 * (A * q) + 131072 * q \<le> 2147483648" using assms(3) by (simp add: p distrib_right)
  ultimately have b: "1 \<le> ?l" "?l \<le> 2147483647" unfolding ll using q by linarith+
  have "i32 (?l - 1) = ?l - 1" using b by (intro i32_id) auto
  then have x: "cb_low c XOR i32 (cb_low c - 1) = 2 ^ (i + 17) - 1" unfolding l using xor_pred [of A "i + 16"] by simp
  have "(2::int) ^ (i + 17) = 131072 * 2 ^ i" by (simp add: power_add)
  then have "drop_bit 15 ((2 ^ (i + 17) - 1) mod 2 ^ 32 :: int) = 4 * 2 ^ i - 1"
    using small_pow [OF assms(1)] by (simp add: drop_bit_eq_div)
  then have "nat (drop_bit 15 ((cb_low c XOR i32 (cb_low c - 1)) mod 2 ^ 32)) = 4 * 2 ^ i - 1"
  proof -
    have "4 * 2 ^ i - 1 = int (4 * 2 ^ i - 1)" by (simp add: of_nat_diff)
    then show ?thesis
      unfolding x using \<open>drop_bit 15 _ = _\<close> by (simp only: nat_int)
  qed
  moreover have "h264CABACTables ! (0 + (4 * 2 ^ i - 1)) = 7 - int i"
  proof -
    have "i \<in> {0, 1, 2, 3, 4, 5, 6, 7}" using assms(1) by auto
    then show ?thesis by (auto simp: norm_lookup [simplified] norm_shift_def)
  qed
  ultimately show ?thesis by simp
qed

lemma next_two_range:
  assumes "cb_buf c = b" "cb_bytestreamEnd c = length b" "at_pos b (cb_bytestream c) v"
  shows "0 \<le> next_two c" "next_two c \<le> 131070"
  using read_bits_range [of b "8 * v" 16] by (simp_all add: next_two_bits [OF assms])

lemma refill_low:
  assumes "0 \<le> cb_low c" "cb_low c \<le> 1073741824" "0 \<le> next_two c" "next_two c \<le> 131070"
  shows "cb_low (refill c) = cb_low c + next_two c - 65535"
  using assms by (simp add: refill_def advance_def i32_id)

lemma refill2_low:
  assumes "i \<le> 7" "0 \<le> A" "(A + 1) * 2 ^ (i + 17) \<le> 2 ^ 30"
    and l: "cb_low c = A * 2 ^ (i + 17) + 2 ^ (i + 16)"
    and n: "0 \<le> next_two c" "next_two c \<le> 131070"
  shows "cb_low (refill2 c) = cb_low c + (next_two c - 65535) * 2 ^ i"
proof -
  define q :: int where "q = 2 ^ i"
  define d where "d = next_two c - 65535"
  have q: "1 \<le> q" "q \<le> 128" using small_pow [OF assms(1)] by (simp_all add: q_def)
  have d: "- 65535 \<le> d" "d \<le> 65535" using n by (simp_all add: d_def)
  have p: "(2::int) ^ (i + 16) = 65536 * q" "(2::int) ^ (i + 17) = 131072 * q" by (simp_all add: power_add q_def)
  have "0 \<le> A * q" using assms(2) q by simp
  moreover have "131072 * (A * q) + 131072 * q \<le> 1073741824" using assms(3) by (simp add: p distrib_right)
  moreover have "cb_low c = 131072 * (A * q) + 65536 * q" unfolding l p by simp
  ultimately have b: "0 \<le> cb_low c" "cb_low c \<le> 1073741824" using q by linarith+
  have "\<bar>d * q\<bar> \<le> 65535 * 128" unfolding abs_mult using d q by (intro mult_mono) auto
  then have m: "- 8388480 \<le> d * q" "d * q \<le> 8388480" by auto
  have "(A + 1) * 2 ^ (i + 17) \<le> 2 ^ 31" using assms(3) by simp
  then have s: "7 - h264CABACTables ! nat (drop_bit 15 ((cb_low c XOR i32 (cb_low c - 1)) mod 4294967296)) = int i"
    using refill2_shift [OF assms(1,2) _ l] by simp
  have "shl (i32 (next_two c - 65535)) i = d * q"
    using d m by (simp add: shl_def i32_id d_def [symmetric] q_def [symmetric])
  then have "cb_low (refill2 c) = i32 (cb_low c + d * q)"
    by (simp add: refill2_def Let_def s advance_def)
  also have "\<dots> = cb_low c + d * q" using b m by (intro i32_id) linarith+
  finally show ?thesis by (simp add: d_def q_def)
qed

lemma refill_frame:
  "cb_rng (refill c) = cb_rng c" "cb_buf (refill c) = cb_buf c" "cb_bytestreamEnd (refill c) = cb_bytestreamEnd c"
  "cb_bytestreamStart (refill c) = cb_bytestreamStart c" "cb_bytestream (refill c) = cb_bytestream (advance c)"
  "cb_rng (refill2 c) = cb_rng c" "cb_buf (refill2 c) = cb_buf c" "cb_bytestreamEnd (refill2 c) = cb_bytestreamEnd c"
  "cb_bytestreamStart (refill2 c) = cb_bytestreamStart c" "cb_bytestream (refill2 c) = cb_bytestream (advance c)"
  by (simp_all add: refill_def refill2_def advance_def Let_def)

end
