(* ===== verification/Cabac_Refinement.thy ===== *)
theory Cabac_Refinement
  imports Cabac_Stream
begin

unbundle bit_operations_syntax

text \<open>
  The engine is the standard's decoder: every operation returns the standard's bin and keeps the engine's
  state in step with the standard's range, offset and position in the stream, whatever the alignment of the
  buffer and wherever the stream ends; a context's state byte is the standard's probability state and more
  probable symbol, from its initialisation on.
\<close>

section \<open>Shifting the register\<close>

lemma holdsI:
  assumes "0 \<le> ofs" "k \<le> 15" "low = A * 2 ^ (k + 1) + 2 ^ k"
    "A = ofs * 2 ^ (16 - k) + read_bits b p (16 - k)" "8 * v = p + (16 - k)" "at_pos b bs v"
  shows "holds b low bs ofs p"
  using assms unfolding holds_def by blast

lemma shift_refill:
  assumes h: "holds b low bs ofs p" and n: "n \<le> 7" "(ofs + 1) * 2 ^ n \<le> 1024"
    and c: "cb_buf c = b" "cb_bytestreamEnd c = length b" "cb_low c = low * 2 ^ n" "cb_bytestream c = bs"
    and c': "c' = (if cb_low c AND 65535 = 0 then refill2 c else c)"
  shows "holds b (cb_low c') (cb_bytestream c') (ofs * 2 ^ n + read_bits b p n) (p + n)"
    and "n = 1 \<Longrightarrow> cb_low c AND 65535 = 0 \<Longrightarrow> refill c = refill2 c"
proof -
  obtain k v where k: "k \<le> 15" "low = (ofs * 2 ^ (16 - k) + read_bits b p (16 - k)) * 2 ^ (k + 1) + 2 ^ k"
      "8 * v = p + (16 - k)" "at_pos b bs v" and o0: "0 \<le> ofs"
    using h by (auto simp: holds_def)
  define A where "A = ofs * 2 ^ (16 - k) + read_bits b p (16 - k)"
  have A0: "0 \<le> A" using o0 read_bits_range(1) [of b p "16 - k"] by (simp add: A_def)
  have low: "cb_low c = A * 2 ^ (k + n + 1) + 2 ^ (k + n)"
    unfolding c(3) k(2) A_def [symmetric] by (simp add: power_add distrib_right)
  have t: "cb_low c AND 65535 = 0 \<longleftrightarrow> 16 \<le> k + n" using mark_test [of "cb_low c" A "k + n"] low by simp
  have o1: "0 \<le> ofs * 2 ^ n + read_bits b p n" using o0 read_bits_range(1) [of b p n] by simp
  have R: "read_bits b p n + 1 \<le> 2 ^ n" "0 \<le> read_bits b p n" using read_bits_range [of b p n] by auto
  have main: "holds b (cb_low c') (cb_bytestream c') (ofs * 2 ^ n + read_bits b p n) (p + n)
      \<and> (n = 1 \<longrightarrow> cb_low c AND 65535 = 0 \<longrightarrow> refill c = refill2 c)"
  proof (cases "16 \<le> k + n")
    case False
    then have e: "16 - (k + n) = 16 - k - n" "n \<le> 16 - k" by auto
    have "A = (ofs * 2 ^ n + read_bits b p n) * 2 ^ (16 - (k + n)) + read_bits b (p + n) (16 - (k + n))"
      using shift_split [of n "16 - k" 0 ofs b p] e(2) unfolding A_def e(1) add_0_right by blast
    moreover have "8 * v = p + n + (16 - (k + n))" using k(1,3) False by simp
    moreover have "at_pos b (cb_bytestream c) v" using k(4) by (simp only: c(4))
    ultimately have "holds b (cb_low c) (cb_bytestream c) (ofs * 2 ^ n + read_bits b p n) (p + n)"
      using False by (intro holdsI [OF o1 _ low]) auto
    then show ?thesis using False unfolding c' t by simp
  next
    case True
    define i where "i = k + n - 16"
    have i: "i \<le> 6" "k + n = i + 16" "i \<le> 7" "i + (16 - k) = n" using True k(1) n(1) by (simp_all add: i_def)
    define N where "N = read_bits b (8 * v) 16"
    note two = next_two_bits [OF c(1,2), of v, unfolded c(4), OF k(4)]
    note rng = next_two_range [OF c(1,2), of v, unfolded c(4), OF k(4)]
    have l: "cb_low c = A * 2 ^ (i + 17) + 2 ^ (i + 16)" using low i(2) by simp
    have "A + 1 \<le> (ofs + 1) * 2 ^ (16 - k)"
      using read_bits_range(2) [of b p "16 - k"] by (simp add: A_def distrib_right)
    then have "(A + 1) * 2 ^ (i + 17) \<le> (ofs + 1) * 2 ^ (16 - k) * 2 ^ (i + 17)" by (rule mult_right_mono) simp
    also have "\<dots> = (ofs + 1) * 2 ^ n * 2 ^ 17" unfolding i(4) [symmetric] by (simp add: power_add)
    also have "\<dots> \<le> 1024 * 2 ^ 17" using n(2) by (intro mult_right_mono) auto
    finally have b30: "(A + 1) * 2 ^ (i + 17) \<le> 2 ^ 30" by simp
    have L: "cb_low (refill2 c) = cb_low c + (next_two c - 65535) * 2 ^ i"
      by (rule refill2_low [OF i(3) A0 b30 l rng])
    have "2 * N = next_two c" by (simp add: two N_def)
    then have L': "cb_low (refill2 c) = (A * 2 ^ 16 + N) * 2 ^ (i + 1) + 2 ^ i"
      unfolding L l by (simp add: power_add algebra_simps)
    have v16: "8 * v = p + (16 - k)" "16 - i = 16 - k + 16 - n" using k(1,3) i True by auto
    have "A * 2 ^ 16 + N = ofs * 2 ^ (16 - k + 16) + read_bits b p (16 - k + 16)"
      unfolding A_def N_def v16(1) by (simp add: read_bits_add power_add)
    also have "\<dots> = (ofs * 2 ^ n + read_bits b p n) * 2 ^ (16 - i) + read_bits b (p + n) (16 - i)"
      unfolding v16(2) using n(1) by (intro shift_split) simp
    finally have A': "A * 2 ^ 16 + N = (ofs * 2 ^ n + read_bits b p n) * 2 ^ (16 - i) + read_bits b (p + n) (16 - i)" .
    have "at_pos b (cb_bytestream (refill2 c)) (v + 2)"
      unfolding refill_frame by (rule advance_pos [OF c(2), unfolded c(4), OF k(4)])
    moreover have "8 * (v + 2) = p + n + (16 - i)" using v16 k(1) n(1) by simp
    ultimately have H: "holds b (cb_low (refill2 c)) (cb_bytestream (refill2 c)) (ofs * 2 ^ n + read_bits b p n) (p + n)"
      using i(1) by (intro holdsI [OF o1 _ L' A']) auto
    have "refill c = refill2 c" if "n = 1"
    proof -
      have "i = 0" using that k(1) by (simp add: i_def)
      then have "0 \<le> cb_low c" "cb_low c \<le> 1073741824" using A0 b30 unfolding l by simp_all
      then have "cb_low (refill c) = cb_low (refill2 c)" using rng unfolding L \<open>i = 0\<close> by (subst refill_low) simp_all
      then show ?thesis by (intro cabacContext.equality) (simp_all add: refill_frame)
    qed
    then show ?thesis using H True unfolding c' t by simp
  qed
  then show "holds b (cb_low c') (cb_bytestream c') (ofs * 2 ^ n + read_bits b p n) (p + n)"
    and "n = 1 \<Longrightarrow> cb_low c AND 65535 = 0 \<Longrightarrow> refill c = refill2 c" by auto
qed

lemma RenormD_shift:
  "256 \<le> r * 2 ^ n \<Longrightarrow> r * 2 ^ n \<le> 511 \<Longrightarrow> RenormD b (r, ofs, p) = (r * 2 ^ n, ofs * 2 ^ n + read_bits b p n, p + n)"
proof (induction n arbitrary: r ofs p)
  case 0
  then show ?case by (subst RenormD.simps) simp
next
  case (Suc n)
  have "256 \<le> (2 * r) * 2 ^ n" "(2 * r) * 2 ^ n \<le> 511" using Suc.prems by simp_all
  note IH = Suc.IH [OF this]
  have "0 < r"
  proof (rule ccontr)
    assume "\<not> 0 < r"
    then have "r * 2 ^ Suc n \<le> 0" by (intro mult_nonpos_nonneg) auto
    then show False using Suc.prems(1) by simp
  qed
  have "r * 2 ^ 1 \<le> r * 2 ^ Suc n" using \<open>0 < r\<close> by (intro mult_left_mono power_increasing) auto
  then have "r < 256" using Suc.prems(2) unfolding power_one_right by linarith
  then have "0 < r \<and> r < 256" using \<open>0 < r\<close> by simp
  then have "RenormD b (r, ofs, p) = RenormD b (2 * r, 2 * ofs + stream_bit b p, p + 1)"
    by (subst RenormD.simps) simp
  moreover have "read_bits b p (Suc n) = stream_bit b p * 2 ^ n + read_bits b (p + 1) n"
    using read_bits_add [of b p 1 n] by simp
  ultimately show ?case unfolding IH by (simp add: algebra_simps)
qed

section \<open>The engine in step with the standard\<close>

definition running :: "std \<Rightarrow> bool" where
  "running d = (case d of (r, ofs, p) \<Rightarrow> 256 \<le> r \<and> r \<le> 511 \<and> 0 \<le> ofs \<and> ofs < r)"

definition in_step :: "bytes \<Rightarrow> cabacContext \<Rightarrow> std \<Rightarrow> bool" where
  "in_step b c d = (case d of (r, ofs, p) \<Rightarrow>
     cb_buf c = b \<and> cb_bytestreamEnd c = length b \<and> cb_bytestreamStart c = 0 \<and> cb_rng c = r \<and> 2 \<le> cb_bytestream c
     \<and> holds b (cb_low c) (cb_bytestream c) ofs p)"

lemma advance_le: "n \<le> cb_bytestream c \<Longrightarrow> n \<le> cb_bytestream (advance c)"
  by (simp add: advance_def)

lemma shl_small: "- 2147483648 \<le> x * 2 ^ n \<Longrightarrow> x * 2 ^ n \<le> 2147483647 \<Longrightarrow> shl x n = x * 2 ^ n"
  by (simp add: shl_def i32_id)

text \<open>Renormalising, for any of the three ways the code shifts and refills.\<close>

lemma renorm_step:
  assumes h: "holds b low bs ofs p" and r: "0 \<le> ofs" "ofs < r" "256 \<le> r * 2 ^ n" "r * 2 ^ n \<le> 511" "n \<le> 7"
    and c: "cb_buf c = b" "cb_bytestreamEnd c = length b" "cb_bytestreamStart c = 0" "cb_bytestream c = bs"
      "cb_rng c = r * 2 ^ n" "cb_low c = low * 2 ^ n" "2 \<le> bs"
    and c': "c' = (if cb_low c AND 65535 = 0 then refill2 c else c)"
  shows "in_step b c' (RenormD b (r, ofs, p))" "running (RenormD b (r, ofs, p))"
    "n \<le> 1 \<Longrightarrow> c' = (if cb_low c AND 65535 = 0 then refill c else c)"
proof -
  have "(ofs + 1) * 2 ^ n \<le> r * 2 ^ n" using r(2) by (intro mult_right_mono) auto
  then have o: "(ofs + 1) * 2 ^ n \<le> 1024" using r(4) by linarith
  note s = shift_refill [OF h r(5) o c(1,2,6,4) c']
  have R: "RenormD b (r, ofs, p) = (r * 2 ^ n, ofs * 2 ^ n + read_bits b p n, p + n)" by (rule RenormD_shift [OF r(3,4)])
  show "in_step b c' (RenormD b (r, ofs, p))"
    unfolding R in_step_def using s(1) c by (simp add: c' refill_frame advance_le)
  have "ofs * 2 ^ n + read_bits b p n < (ofs + 1) * 2 ^ n" using read_bits_range(2) [of b p n] by (simp add: distrib_right)
  also have "\<dots> \<le> r * 2 ^ n" by fact
  finally show "running (RenormD b (r, ofs, p))"
    unfolding R running_def using r read_bits_range(1) [of b p n] by simp
  show "c' = (if cb_low c AND 65535 = 0 then refill c else c)" if "n \<le> 1"
  proof (cases n)
    case 0
    have "\<not> cb_low c AND 65535 = 0"
    proof -
      obtain k where "k \<le> 15" "low = (ofs * 2 ^ (16 - k) + read_bits b p (16 - k)) * 2 ^ (k + 1) + 2 ^ k"
        using h unfolding holds_def by blast
      then show ?thesis using mark_test [of low _ k] c(6) 0 by simp
    qed
    then show ?thesis using c' by simp
  next
    case (Suc m)
    then have "n = 1" using that by simp
    then show ?thesis using s(2) c' by simp
  qed
qed

lemma holds_gt: "holds b low bs ofs p \<Longrightarrow> r * 2 ^ 17 < low \<longleftrightarrow> r \<le> ofs"
proof -
  assume h: "holds b low bs ofs p"
  have "low \<noteq> r * 2 ^ 17"
  proof
    assume "low = r * 2 ^ 17"
    then have "ofs * 2 ^ 17 < r * 2 ^ 17" "r * 2 ^ 17 < (ofs + 1) * 2 ^ 17" using holds_bounds [OF h] by auto
    then show False by simp
  qed
  then show "r * 2 ^ 17 < low \<longleftrightarrow> r \<le> ofs" using holds_cmp [OF h, of r] by linarith
qed

lemma renorm_in_step:
  assumes h: "holds b low bs ofs p" and r: "0 \<le> ofs" "ofs < r" "2 \<le> r" "r < 512"
    and c: "cb_buf c = b" "cb_bytestreamEnd c = length b" "cb_bytestreamStart c = 0" "cb_bytestream c = bs" "2 \<le> bs"
    and n: "n = nat (h264CABACTables ! (0 + nat r))"
    and d: "d = c\<lparr>cb_rng := shl r n, cb_low := shl low n\<rparr>"
    and c': "c' = (if cb_low d AND 65535 = 0 then refill2 d else d)"
  shows "in_step b c' (RenormD b (r, ofs, p)) \<and> running (RenormD b (r, ofs, p))"
proof -
  have "nat r < 512" using r by simp
  then have n': "n = nat (norm_shift (nat r))" unfolding n by (simp only: norm_lookup)
  have N: "n \<le> 7" "256 \<le> r * 2 ^ n" "r * 2 ^ n \<le> 511"
  proof -
    have b: "2 \<le> nat r" "nat r < 512" using r by auto
    note s = norm_shift_spec [OF b]
    show "n \<le> 7" using s(1,2) unfolding n' by linarith
    have "r * 2 ^ n = int (nat r * 2 ^ n)" using r by simp
    then show "256 \<le> r * 2 ^ n" "r * 2 ^ n \<le> 511" using s(3,4) unfolding n' by linarith+
  qed
  have rr: "shl r n = r * 2 ^ n" using N by (intro shl_small) linarith+
  have "low \<le> r * 2 ^ 17" using holds_gt [OF h, of r] r by linarith
  then have "low * 2 ^ n \<le> r * 2 ^ 17 * 2 ^ n" by (rule mult_right_mono) simp
  also have "\<dots> = r * 2 ^ n * 2 ^ 17" by simp
  also have "\<dots> \<le> 511 * 2 ^ 17" using N(3) by (intro mult_right_mono) auto
  finally have lu: "low * 2 ^ n \<le> 66977792" by simp
  have "0 \<le> ofs * 2 ^ 17" using r by simp
  then have "0 \<le> low" using holds_bounds(1) [OF h] by linarith
  then have "0 \<le> low * 2 ^ n" by simp
  then have ll: "shl low n = low * 2 ^ n" using lu by (intro shl_small) linarith+
  have D: "cb_buf d = b" "cb_bytestreamEnd d = length b" "cb_bytestreamStart d = 0" "cb_bytestream d = bs"
      "cb_rng d = r * 2 ^ n" "cb_low d = low * 2 ^ n" "2 \<le> bs"
    using c rr ll by (simp_all add: d)
  show ?thesis using renorm_step(1,2) [OF h r(1,2) N(2,3,1) D c'] by blast
qed

lemma rng_and_192: "r AND 192 = 64 * (r div 64 mod 4)" for r :: int
proof -
  have "r AND push_bit 6 (mask 2) = push_bit 6 (take_bit 2 (drop_bit 6 r))"
    by (rule bit_eqI) (auto simp: bit_simps)
  then show ?thesis by (simp add: push_bit_eq_mult take_bit_eq_mod drop_bit_eq_div mask_eq_exp_minus_1)
qed

text \<open>The range the table gives for the less probable symbol.\<close>

lemma rangeLPS_bounds:
  assumes "i < 64" "256 \<le> r" "r \<le> 511"
  shows "2 \<le> rangeTabLPS ! i ! nat (r div 64 mod 4)" "rangeTabLPS ! i ! nat (r div 64 mod 4) \<le> 240"
    "128 \<le> r - rangeTabLPS ! i ! nat (r div 64 mod 4)"
proof -
  define row where "row = rangeTabLPS ! i"
  have i: "i < length rangeTabLPS" using assms(1) by (simp add: lps_ranges)
  have l: "length row = 4" "list_all (\<lambda>x. 2 \<le> x \<and> x \<le> 240) row" "row ! 0 \<le> 128" "row ! 1 \<le> 176" "row ! 2 \<le> 208"
    using lps_ranges(1,3) i by (auto simp: list_all_length row_def)
  define q where "q = nat (r div 64 mod 4)"
  have "0 \<le> r div 64 mod 4" "r div 64 mod 4 < 4" by simp_all
  then have q: "q < 4" "int q = r div 64 mod 4" by (auto simp: q_def)
  have B: "2 \<le> row ! q" "row ! q \<le> 240" using l(1,2) q(1) by (auto simp: list_all_length)
  have "4 \<le> r div 64" "r div 64 \<le> 7" using assms by linarith+
  then have "r div 64 = 4 \<or> r div 64 = 5 \<or> r div 64 = 6 \<or> r div 64 = 7" by linarith
  then have "r div 64 = 4 + int q" unfolding q(2) by auto
  then have r: "256 + 64 * int q \<le> r" by linarith
  have "q = 0 \<or> q = 1 \<or> q = 2 \<or> q = 3" using q(1) by linarith
  then have "128 \<le> r - row ! q" using r l(3-5) B(2) by (elim disjE) auto
  then show "2 \<le> rangeTabLPS ! i ! nat (r div 64 mod 4)" "rangeTabLPS ! i ! nat (r div 64 mod 4) \<le> 240"
    "128 \<le> r - rangeTabLPS ! i ! nat (r div 64 mod 4)"
    using B unfolding row_def q_def by auto
qed

text \<open>A context of the code and of the standard.\<close>

definition ctx_state :: "nat \<times> int \<Rightarrow> int" where
  "ctx_state ctx = 2 * int (fst ctx) + snd ctx"

definition ctx_ok :: "nat \<times> int \<Rightarrow> bool" where
  "ctx_ok ctx \<longleftrightarrow> fst ctx < 64 \<and> (snd ctx = 0 \<or> snd ctx = 1)"

lemma transIdx_bound: "i < 64 \<Longrightarrow> transIdxLPS ! i < 64"
proof -
  assume i: "i < 64"
  have "list_all (\<lambda>x. x < 64) transIdxLPS" "length transIdxLPS = 64" by code_simp+
  then show ?thesis using i by (simp add: list_all_length)
qed

lemma ctx_stateD:
  assumes "ctx_ok (i, v)" "s = ctx_state (i, v)"
  shows "0 \<le> s" "s < 128" "nat s < 128" "nat s div 2 = i" "s AND 1 = v" "nat s < 124 \<longleftrightarrow> i < 62" "nat s < 2 \<longleftrightarrow> i = 0"
    "int (nat s mod 2) = v" "int (nat s) = s"
proof -
  have "nat s = 2 * i + nat v" "v = 0 \<or> v = 1" "i < 64" "s = 2 * int i + v" using assms by (auto simp: ctx_ok_def ctx_state_def)
  then show "0 \<le> s" "s < 128" "nat s < 128" "nat s div 2 = i" "s AND 1 = v" "nat s < 124 \<longleftrightarrow> i < 62" "nat s < 2 \<longleftrightarrow> i = 0"
    "int (nat s mod 2) = v" "int (nat s) = s" by (auto simp: and_one_eq)
qed

lemma flip_bit: "(- 1 - x) AND 1 = 1 - (x AND 1)" for x :: int
  unfolding and_one_eq by presburger

lemma lps_next_state:
  assumes "ctx_ok (i, v)" "s = ctx_state (i, v)"
  shows "lps_next (nat s) = ctx_state (transIdxLPS ! i, if i = 0 then 1 - v else v)"
    "mps_next (nat s) = ctx_state (if i < 62 then i + 1 else i, v)"
proof -
  note d = ctx_stateD [OF assms]
  have z: "transIdxLPS ! 0 = 0" by code_simp
  show "lps_next (nat s) = ctx_state (transIdxLPS ! i, if i = 0 then 1 - v else v)"
  proof (cases "i = 0")
    case True
    then have "s = v" using assms(2) by (simp add: ctx_state_def)
    then show ?thesis using d(4,7,9) True unfolding lps_next_def by (simp add: ctx_state_def z)
  next
    case False
    then show ?thesis using d(4,7,8) unfolding lps_next_def by (simp add: ctx_state_def)
  qed
  show "mps_next (nat s) = ctx_state (if i < 62 then i + 1 else i, v)"
    using d(6,9) assms(2) unfolding mps_next_def by (simp add: ctx_state_def)
qed

lemma decision_step:
  assumes st: "in_step b c d" "running d" and ctx: "ctx_ok ctx" and s: "s = ctx_state ctx"
    and D: "DecodeDecision b ctx d = (bin, ctx', d')"
  shows "\<exists>c'. getCABAC s c = (bin, ctx_state ctx', c') \<and> in_step b c' d' \<and> running d' \<and> ctx_ok ctx'"
proof -
  obtain r ofs p where d: "d = (r, ofs, p)" by (cases d)
  obtain i v where cx: "ctx = (i, v)" by (cases ctx)
  have c: "cb_buf c = b" "cb_bytestreamEnd c = length b" "cb_bytestreamStart c = 0" "cb_rng c = r" "2 \<le> cb_bytestream c"
    and h: "holds b (cb_low c) (cb_bytestream c) ofs p" using st(1) by (simp_all add: in_step_def d)
  have r: "256 \<le> r" "r \<le> 511" "0 \<le> ofs" "ofs < r" using st(2) by (simp_all add: running_def d)
  have ok: "ctx_ok (i, v)" "s = ctx_state (i, v)" using ctx s cx by simp_all
  have i: "i < 64" and v: "v = 0 \<or> v = 1" using ok(1) by (simp_all add: ctx_ok_def)
  note cs = ctx_stateD [OF ok]
  define q where "q = nat (r div 64 mod 4)"
  have q: "q < 4" "int q = r div 64 mod 4" by (auto simp: q_def)
  define R where "R = rangeTabLPS ! i ! q"
  have R: "2 \<le> R" "R \<le> 240" "128 \<le> r - R" using rangeLPS_bounds [OF i r(1,2)] by (simp_all add: R_def q_def)
  have "512 + 2 * nat (r AND 192) + nat s = 512 + (128 * q + nat s)"
    unfolding rng_and_192 q(2) [symmetric] by (simp add: nat_mult_distrib)
  then have T: "h264CABACTables ! (512 + 2 * nat (cb_rng c AND 192) + nat s) = R"
    using lps_lookup [OF q(1) cs(3)] by (simp only: c(4) cs(4) R_def)
  define x where "x = r - R"
  have xR: "128 \<le> x" "x \<le> 509" using r R by (simp_all add: x_def)
  have r1: "i32 (r - R) = x" using xR unfolding x_def by (intro i32_id) auto
  have r2: "shl x 17 = x * 131072" using xR shl_small [of x 17] by simp
  have low: "0 \<le> cb_low c" "cb_low c < 511 * 2 ^ 17"
    using holds_bounds(1) [OF h] holds_cmp [OF h, of 511] r by (auto intro: order_trans [of 0 "ofs * 2 ^ 17"])
  have dd: "i32 (x * 131072 - cb_low c) = x * 131072 - cb_low c" using low r R xR by (intro i32_id) simp_all
  define m where "m = sign_mask (x * 131072 - cb_low c)"
  have m: "m = (if x \<le> ofs then - 1 else 0)" using holds_gt [OF h, of "x"] by (simp add: m_def sign_mask_def)
  define n where "n = (if x \<le> ofs then R else x)"
  define n' where "n' = nat (h264CABACTables ! nat n)"
  define low' where "low' = (if x \<le> ofs then cb_low c - x * 131072 else cb_low c)"
  define dc where "dc = c\<lparr>cb_rng := shl n n', cb_low := shl low' n'\<rparr>"
  define c' where "c' = (if cb_low dc AND 65535 = 0 then refill2 dc else dc)"
  have l': "i32 (cb_low c - (x * 131072 AND m)) = low'"
  proof (cases "x \<le> ofs")
    case True
    then have "- 67108864 \<le> cb_low c - x * 131072" "cb_low c - x * 131072 \<le> 67108864"
      using low r R xR by simp_all
    then have "i32 (cb_low c - x * 131072) = cb_low c - x * 131072" by (intro i32_id) linarith+
    then show ?thesis using True by (simp add: m low'_def)
  next
    case False
    then show ?thesis using low by (simp add: m low'_def i32_id)
  qed
  have g': "i32 (x + (i32 (R - x) AND m)) = n" using r R xR by (simp add: m n_def i32_id)
  define s' where "s' = s XOR m"
  have s': "s' = (if x \<le> ofs then - 1 - s else s)" by (simp add: s'_def m not_int_def)
  define st' where "st' = h264CABACTables ! nat (1152 + s')"
  have code: "getCABAC s c = (s' AND 1, st', c')"
    unfolding getCABAC_def Let_def T
    by (simp add: c(4) r1 r2 dd m_def [symmetric] l' g' s'_def [symmetric] st'_def n'_def dc_def c'_def)
  have nn: "ofs' < n" "0 \<le> ofs'" "2 \<le> n" "n < 512" "holds b low' (cb_bytestream c) ofs' p"
    if "ofs' = (if x \<le> ofs then ofs - x else ofs)" for ofs'
    using that r R xR x_def h holds_sub [OF h, of "x"] unfolding n_def low'_def by (auto split: if_splits)
  define ofs' where "ofs' = (if x \<le> ofs then ofs - x else ofs)"
  note nn = nn [OF ofs'_def]
  have n': "n' = nat (h264CABACTables ! (0 + nat n))" by (simp add: n'_def)
  have ren: "in_step b c' (RenormD b (n, ofs', p))" "running (RenormD b (n, ofs', p))"
    using renorm_in_step [OF nn(5,2,1,3,4) c(1-3) refl c(5) n' dc_def c'_def] by auto
  have tr: "bin = (if x \<le> ofs then 1 - v else v)" "d' = RenormD b (n, ofs', p)"
    "ctx' = (if x \<le> ofs then (transIdxLPS ! i, if i = 0 then 1 - v else v) else (if i < 62 then i + 1 else i, v))"
    using D unfolding DecodeDecision_def d cx Let_def by (auto simp: x_def R_def q_def n_def ofs'_def split: if_splits)
  have "s' AND 1 = bin"
    using cs(5) flip_bit [of s] unfolding s' tr(1) by simp
  moreover have "st' = ctx_state ctx'"
  proof (cases "x \<le> ofs")
    case True
    have "nat (1152 + s') = 1024 + (127 - nat s)" using True cs(1,2) by (simp add: s' nat_diff_distrib)
    then show ?thesis using True lps_next_lookup [OF cs(3)] lps_next_state(1) [OF ok] by (simp add: st'_def tr(3))
  next
    case False
    have "nat (1152 + s') = 1024 + (128 + nat s)" using False cs(1) by (simp add: s' nat_add_distrib)
    then show ?thesis using False mps_lookup [OF cs(3)] lps_next_state(2) [OF ok] by (simp add: st'_def tr(3))
  qed
  moreover have "ctx_ok ctx'" using i v transIdx_bound [OF i] unfolding tr(3) by (auto simp: ctx_ok_def)
  ultimately show ?thesis using code ren tr(2) by auto
qed

text \<open>The two bypass decoders double the offset; the sign one gives \<open>val\<close> for a bin of one, else its negation.\<close>

lemma double_step:
  assumes st: "in_step b c (r, ofs, p)" "running (r, ofs, p)"
  defines "c' \<equiv> double_low c"
  shows "cb_buf c' = b" "cb_bytestreamEnd c' = length b" "cb_bytestreamStart c' = 0" "cb_rng c' = r \<and> 2 \<le> cb_bytestream c'" "shl r 17 = r * 2 ^ 17"
    "holds b (cb_low c') (cb_bytestream c') (2 * ofs + stream_bit b p) (p + 1)"
    "0 \<le> cb_low c'" "cb_low c' < 2 * r * 2 ^ 17" "256 \<le> r" "r \<le> 511" "0 \<le> ofs" "2 * ofs + stream_bit b p < 2 * r"
proof -
  have c: "cb_buf c = b" "cb_bytestreamEnd c = length b" "cb_bytestreamStart c = 0" "cb_rng c = r" "2 \<le> cb_bytestream c"
    and h: "holds b (cb_low c) (cb_bytestream c) ofs p" using st(1) by (simp_all add: in_step_def)
  have r: "256 \<le> r" "r \<le> 511" "0 \<le> ofs" "ofs < r" using st(2) by (simp_all add: running_def)
  have low: "0 \<le> cb_low c" "cb_low c < 511 * 2 ^ 17"
    using holds_bounds(1) [OF h] holds_cmp [OF h, of 511] r by (auto intro: order_trans [of 0 "ofs * 2 ^ 17"])
  then have dbl: "i32 (cb_low c + cb_low c) = cb_low c * 2 ^ 1" by (simp add: i32_id)
  define e where "e = c\<lparr>cb_low := cb_low c * 2 ^ 1\<rparr>"
  have e: "cb_buf e = b" "cb_bytestreamEnd e = length b" "cb_low e = cb_low c * 2 ^ 1" "cb_bytestream e = cb_bytestream c"
    "cb_rng e = r" "cb_bytestreamStart e = 0" using c by (simp_all add: e_def)
  have o: "(ofs + 1) * 2 ^ 1 \<le> 1024" using r by simp
  note s = shift_refill [OF h _ o e(1-4) refl]
  have "c' = (if cb_low e AND 65535 = 0 then refill e else e)"
    unfolding c'_def double_low_def Let_def dbl by (simp add: e_def)
  then have c': "c' = (if cb_low e AND 65535 = 0 then refill2 e else e)" using s(2) by simp
  show H: "holds b (cb_low c') (cb_bytestream c') (2 * ofs + stream_bit b p) (p + 1)"
    using s(1) unfolding c' by (simp add: mult.commute)
  show "cb_buf c' = b" "cb_bytestreamEnd c' = length b" "cb_bytestreamStart c' = 0" "cb_rng c' = r \<and> 2 \<le> cb_bytestream c'"
    using e c(5) by (simp_all add: c' refill_frame advance_le)
  show "shl r 17 = r * 2 ^ 17" using r by (intro shl_small) simp_all
  show "256 \<le> r" "r \<le> 511" "0 \<le> ofs" by fact+
  show o2: "2 * ofs + stream_bit b p < 2 * r" using r stream_bit_range [of b p] by linarith
  show "cb_low c' < 2 * r * 2 ^ 17" using o2 by (simp only: holds_cmp [OF H])
  have "0 \<le> (2 * ofs + stream_bit b p) * 2 ^ 17" using r stream_bit_range [of b p] by simp
  then show "0 \<le> cb_low c'" using holds_bounds(1) [OF H] by linarith
qed

lemma bypass_step:
  assumes st: "in_step b c d" "running d" and D: "DecodeBypass b d = (bin, d')"
  shows "\<exists>c'. getCABACBypass c = (bin, c') \<and> in_step b c' d' \<and> running d'"
    and "\<exists>c'. getCABACBypassSign val c = (i32 (if bin = 1 then val else - val), c') \<and> in_step b c' d' \<and> running d'"
proof -
  obtain r ofs p where d: "d = (r, ofs, p)" by (cases d)
  note s = double_step [OF st [unfolded d]]
  define e where "e = double_low c"
  note s = s [folded e_def]
  define ofs2 where "ofs2 = 2 * ofs + stream_bit b p"
  have o: "0 \<le> ofs2" "ofs2 < 2 * r" using s(11,12) stream_bit_range [of b p] by (simp_all add: ofs2_def)
  have h: "holds b (cb_low e) (cb_bytestream e) ofs2 (p + 1)" using s(6) by (simp add: ofs2_def)
  have cmp: "cb_low e < r * 2 ^ 17 \<longleftrightarrow> ofs2 < r" by (rule holds_cmp [OF h])
  have lo: "i32 (cb_low e - r * 2 ^ 17) = cb_low e - r * 2 ^ 17" using s(7,8,9,10) by (intro i32_id) simp_all
  have D': "bin = (if ofs2 \<ge> r then 1 else 0)" "d' = (r, if ofs2 \<ge> r then ofs2 - r else ofs2, p + 1)"
    using D unfolding DecodeBypass_def d Let_def by (auto simp: ofs2_def split: if_splits)
  define c' where "c' = (if ofs2 < r then e else e\<lparr>cb_low := cb_low e - r * 2 ^ 17\<rparr>)"
  have fin: "in_step b c' d'" "running d'"
    using s(1-4,9,10) h holds_sub [OF h, of r] o unfolding D' c'_def by (auto simp: in_step_def running_def)
  have "getCABACBypass c = (bin, c')"
    using cmp lo unfolding getCABACBypass_def Let_def e_def [symmetric] conjunct1 [OF s(4)] by (auto simp: s(5) D' c'_def)
  then show "\<exists>c'. getCABACBypass c = (bin, c') \<and> in_step b c' d' \<and> running d'" using fin by blast
  have "getCABACBypassSign val c = (i32 (if bin = 1 then val else - val), c')"
  proof (cases "ofs2 < r")
    case True
    then have "sign_mask (cb_low e - r * 2 ^ 17) = - 1" using cmp by (simp add: sign_mask_def)
    moreover have "i32 (cb_low e) = cb_low e" using True cmp s(7,10) by (intro i32_id) simp_all
    ultimately show ?thesis
      using True lo unfolding getCABACBypassSign_def Let_def e_def [symmetric] conjunct1 [OF s(4)]
      by (simp add: s(5) D' c'_def not_int_def)
  next
    case False
    then have "sign_mask (cb_low e - r * 2 ^ 17) = 0" using cmp by (simp add: sign_mask_def)
    then show ?thesis
      using False lo unfolding getCABACBypassSign_def Let_def e_def [symmetric] conjunct1 [OF s(4)]
      by (simp add: s(5) D' c'_def)
  qed
  then show "\<exists>c'. getCABACBypassSign val c = (i32 (if bin = 1 then val else - val), c') \<and> in_step b c' d' \<and> running d'"
    using fin by blast
qed

text \<open>The terminating bin; when it is one the engine gives its read position, which is not zero.\<close>

lemma terminate_step:
  assumes st: "in_step b c d" "running d" and D: "DecodeTerminate b d = (bin, d')"
  shows "\<exists>c' n. getCABACTerminate c = (n, c') \<and> in_step b c' d' \<and> (bin = 0 \<longleftrightarrow> n = 0) \<and> (bin = 0 \<longrightarrow> running d')
    \<and> (bin = 0 \<or> bin = 1)"
proof -
  obtain r ofs p where d: "d = (r, ofs, p)" by (cases d)
  have c: "cb_buf c = b" "cb_bytestreamEnd c = length b" "cb_bytestreamStart c = 0" "cb_rng c = r" "2 \<le> cb_bytestream c"
    and h: "holds b (cb_low c) (cb_bytestream c) ofs p" using st(1) by (simp_all add: in_step_def d)
  have r: "256 \<le> r" "r \<le> 511" "0 \<le> ofs" "ofs < r" using st(2) by (simp_all add: running_def d)
  define x where "x = r - 2"
  have x: "254 \<le> x" "x \<le> 509" "i32 (r - 2) = x" using r by (auto simp: x_def i32_id)
  have sx: "shl x 17 = x * 131072" using x shl_small [of x 17] by simp
  have cmp: "cb_low c < x * 131072 \<longleftrightarrow> ofs < x" using holds_cmp [OF h, of x] by simp
  define e where "e = c\<lparr>cb_rng := x\<rparr>"
  have T: "getCABACTerminate c = (if cb_low c < x * 131072 then (0, renormCABACDecoderOnce e) else (int (cb_bytestream c), e))"
    unfolding getCABACTerminate_def Let_def c(3,4) x(3) e_def [symmetric] using sx by (simp add: e_def c(3))
  have D': "bin = (if ofs < x then 0 else 1)" "d' = (if ofs < x then RenormD b (x, ofs, p) else (x, ofs, p))"
    using D unfolding DecodeTerminate_def d by (auto simp: x_def split: if_splits)
  show ?thesis
  proof (cases "ofs < x")
    case False
    then have "in_step b e d'" using c h by (simp add: D' in_step_def e_def)
    then show ?thesis using False T cmp c(5) by (auto simp: D')
  next
    case True
    define n :: nat where "n = (if x < 256 then 1 else 0)"
    have n: "256 \<le> x * 2 ^ n" "x * 2 ^ n \<le> 511" "n \<le> 7" "n \<le> 1" using x by (auto simp: n_def)
    have low: "0 \<le> cb_low c" "cb_low c < 511 * 2 ^ 17"
      using holds_bounds(1) [OF h] holds_cmp [OF h, of 511] r by (auto intro: order_trans [of 0 "ofs * 2 ^ 17"])
    define f where "f = c\<lparr>cb_rng := x * 2 ^ n, cb_low := cb_low c * 2 ^ n\<rparr>"
    have F: "cb_buf f = b" "cb_bytestreamEnd f = length b" "cb_bytestreamStart f = 0" "cb_bytestream f = cb_bytestream c"
      "cb_rng f = x * 2 ^ n" "cb_low f = cb_low c * 2 ^ n" using c by (simp_all add: f_def)
    define c' where "c' = (if cb_low f AND 65535 = 0 then refill2 f else f)"
    note rs = renorm_step [OF h r(3) True n(1-3) F c(5) c'_def]
    have "shl x n = x * 2 ^ n" "i32 (x - 256) < 0 \<longleftrightarrow> x < 256"
      using x(1,2) by (auto simp: n_def shl_def i32_id)
    moreover have "shl (cb_low c) n = cb_low c * 2 ^ n" using low by (auto simp: n_def shl_def i32_id)
    ultimately have "renormCABACDecoderOnce e = (if cb_low f AND 65535 = 0 then refill f else f)"
      unfolding renormCABACDecoderOnce_def Let_def by (simp add: e_def f_def n_def)
    then have "renormCABACDecoderOnce e = c'" using rs(3) [OF n(4)] by simp
    then show ?thesis using True T cmp rs(1,2) by (simp add: D')
  qed
qed

text \<open>The start: both alignments hold the first nine bits.\<close>

lemma init_low:
  assumes "2 \<le> length b"
  shows "i32 (i32 (shl (cbyte b 0) 18 + shl (cbyte b 1) 10) + 512) = read_bits b 0 16 * 2 ^ 10 + 2 ^ 9"
    "3 \<le> length b \<Longrightarrow> i32 (i32 (shl (cbyte b 0) 18 + shl (cbyte b 1) 10) + i32 (shl (cbyte b 2) 2 + 2))
       = read_bits b 0 24 * 2 ^ 2 + 2 ^ 1"
proof -
  have u: "0 \<le> uint (x :: 8 word)" "uint x \<le> 255" for x using uint_lt2p [of x] by simp_all
  have s: "shl (cbyte b 0) 18 = uint (b ! 0) * 262144" "shl (cbyte b 1) 10 = uint (b ! 1) * 1024"
    "shl (cbyte b 2) 2 = uint (b ! 2) * 4"
    using u [of "b ! 0"] u [of "b ! 1"] u [of "b ! 2"] by (simp_all add: shl_def cbyte_def i32_id)
  have b0: "b \<noteq> []" using assms by auto
  have r16: "read_bits b 0 16 = uint (b ! 0) * 256 + uint (b ! 1)"
    using assms b0 read_bits_add [of b 0 8 8] read_bits_byte [of 0 b 8] read_bits_byte [of 1 b 8] by simp
  show "i32 (i32 (shl (cbyte b 0) 18 + shl (cbyte b 1) 10) + 512) = read_bits b 0 16 * 2 ^ 10 + 2 ^ 9"
    unfolding s r16 using u [of "b ! 0"] u [of "b ! 1"] by (simp add: i32_id)
  show "i32 (i32 (shl (cbyte b 0) 18 + shl (cbyte b 1) 10) + i32 (shl (cbyte b 2) 2 + 2)) = read_bits b 0 24 * 2 ^ 2 + 2 ^ 1"
    if "3 \<le> length b"
  proof -
    have "read_bits b 0 24 = read_bits b 0 16 * 256 + uint (b ! 2)"
      using that read_bits_add [of b 0 16 8] read_bits_byte [of 2 b 8] by simp
    then show ?thesis unfolding s r16 using u [of "b ! 0"] u [of "b ! 1"] u [of "b ! 2"] by (simp add: i32_id)
  qed
qed

lemma init_cases:
  "if length b < 2 \<or> read_bits b 0 9 \<ge> 510 then initCABACDecoder b evn = Inl ErrInvalidData
   else \<exists>c. initCABACDecoder b evn = Inr c \<and> in_step b c (initDecodingEngine b 0) \<and> running (initDecodingEngine b 0)"
proof (cases "length b < 2")
  case True
  then show ?thesis by (simp add: initCABACDecoder_def initCABACDecoderAligned_def)
next
  case False
  define al where "al = (if length b > 2 then evn else True)"
  define low where "low = (if al then read_bits b 0 16 * 2 ^ 10 + 2 ^ 9 else read_bits b 0 24 * 2 ^ 2 + 2 ^ 1)"
  define bs :: nat where "bs = (if al then 2 else 3)"
  define ofs where "ofs = read_bits b 0 9"
  have o: "0 \<le> ofs" "ofs < 512" using read_bits_range [of b 0 9] by (simp_all add: ofs_def)
  have h: "holds b low bs ofs 9"
  proof (cases al)
    case True
    have "read_bits b 0 16 = ofs * 2 ^ (16 - 9) + read_bits b 9 (16 - 9)" using read_bits_add [of b 0 9 7] by (simp add: ofs_def)
    then show ?thesis using True o(1)
      by (intro holdsI [where k = 9 and v = 2 and A = "read_bits b 0 16"]) (simp_all add: low_def bs_def at_pos_def)
  next
    case False
    have "read_bits b 0 24 = ofs * 2 ^ (16 - 1) + read_bits b 9 (16 - 1)" using read_bits_add [of b 0 9 15] by (simp add: ofs_def)
    then show ?thesis using False o(1)
      by (intro holdsI [where k = 1 and v = 3 and A = "read_bits b 0 24"]) (simp_all add: low_def bs_def at_pos_def)
  qed
  define c where "c = \<lparr>cb_low = low, cb_rng = 510, cb_bytestreamStart = 0, cb_bytestream = bs, cb_bytestreamEnd = length b, cb_buf = b\<rparr>"
  have e: "initCABACDecoder b evn = (if 510 * 2 ^ 17 < low then Inl ErrInvalidData else Inr c)"
  proof -
    have "shl 510 17 = 510 * 2 ^ 17" by (intro shl_small) simp_all
    then have "shl 510 (16 + 1) = 510 * 2 ^ 17" by simp
    moreover have "3 \<le> length b" if "\<not> al" using that False by (auto simp: al_def split: if_splits)
    ultimately show ?thesis
      using False init_low [of b]
      unfolding initCABACDecoder_def initCABACDecoderAligned_def Let_def al_def [symmetric] c_def low_def bs_def
      by (cases al) (simp_all add: rbind_def)
  qed
  have "510 * 2 ^ 17 < low \<longleftrightarrow> 510 \<le> ofs" by (rule holds_gt [OF h])
  moreover have "in_step b c (initDecodingEngine b 0)"
    using h by (simp add: in_step_def initDecodingEngine_def c_def ofs_def) (simp add: bs_def)
  moreover have "running (initDecodingEngine b 0)" if "ofs < 510"
    using that o(1) by (simp add: running_def initDecodingEngine_def ofs_def)
  ultimately show ?thesis using False e by (simp add: ofs_def not_le)
qed

section \<open>The bytes of an I_PCM macroblock\<close>

text \<open>
  The terminating bin before them is followed by the bits up to the next byte. The engine finds that byte
  from its mark: two back with 16 bits unread, one back with eight to 15.
\<close>

lemma pcm_pointer:
  assumes st: "in_step b c (r, ofs, p)"
  defines "q \<equiv> (p + 7) div 8"
  defines "ptr \<equiv> int (cb_bytestream c) - (if cb_low c AND 1 \<noteq> 0 then 1 else 0) - (if cb_low c AND 511 \<noteq> 0 then 1 else 0)"
  shows "ptr = int q \<or> length b \<le> q \<and> int (length b) - 2 \<le> ptr" "0 \<le> ptr"
proof -
  obtain k v where k: "k \<le> 15" "cb_low c = (ofs * 2 ^ (16 - k) + read_bits b p (16 - k)) * 2 ^ (k + 1) + 2 ^ k"
      "8 * v = p + (16 - k)" "at_pos b (cb_bytestream c) v"
    using st by (auto simp: in_step_def holds_def)
  have m: "cb_low c AND 1 = 0 \<longleftrightarrow> 1 \<le> k" "cb_low c AND 511 = 0 \<longleftrightarrow> 9 \<le> k"
    unfolding and_mask by (rule mark_mod [OF k(2)])+
  have "2 \<le> cb_bytestream c" using st by (simp add: in_step_def)
  then show "0 \<le> ptr" by (simp add: ptr_def)
  define j where "j = (if 1 \<le> k then 0 else 1) + (if 9 \<le> k then 0 else 1 :: nat)"
  have ptr: "ptr = int (cb_bytestream c) - int j" by (simp add: ptr_def m j_def)
  have "q + j = v"
  proof -
    have "p = 8 * v - (16 - k)" using k(3) by simp
    moreover have "16 - k \<le> 8 * v" using k(3) by simp
    ultimately show ?thesis using k(1) unfolding q_def j_def by (auto split: if_splits)
  qed
  then show "ptr = int q \<or> length b \<le> q \<and> int (length b) - 2 \<le> ptr"
    using k(4) unfolding ptr at_pos_def by (auto simp: j_def split: if_splits)
qed

lemma pcm_step:
  assumes st: "in_step b c (r, ofs, p)" and n: "3 \<le> n"
  shows "readIntraPCMBytes (int n) evn c =
     (if (p + 7) div 8 + n \<le> length b then
        (case initCABACDecoder (drop ((p + 7) div 8 + n) b) evn of
           Inl e \<Rightarrow> (Inl e, c) | Inr c' \<Rightarrow> (Inr (take n (drop ((p + 7) div 8) b)), c'))
      else (Inl ErrInvalidData, c))"
proof -
  define q where "q = (p + 7) div 8"
  define ptr where "ptr = int (cb_bytestream c) - (if cb_low c AND 1 \<noteq> 0 then 1 else 0) - (if cb_low c AND 511 \<noteq> 0 then 1 else 0)"
  note pp = pcm_pointer [OF st, folded q_def ptr_def]
  have c: "cb_buf c = b" "cb_bytestreamEnd c = length b" using st by (simp_all add: in_step_def)
  have pe: "(if cb_low c AND 511 \<noteq> 0 then (if cb_low c AND 1 \<noteq> 0 then int (cb_bytestream c) - 1 else int (cb_bytestream c)) - 1
      else if cb_low c AND 1 \<noteq> 0 then int (cb_bytestream c) - 1 else int (cb_bytestream c)) = ptr"
    by (simp add: ptr_def)
  have code: "readIntraPCMBytes (int n) evn c =
     (if ptr < 0 \<or> ptr > int (length b) \<or> int n > int (length b) - ptr then (Inl ErrInvalidData, c)
      else (case initCABACDecoder (drop (nat (ptr + int n)) b) evn of
           Inl e \<Rightarrow> (Inl e, c) | Inr c' \<Rightarrow> (Inr (take n (drop (nat ptr) b)), c')))"
    unfolding readIntraPCMBytes_def Let_def c pe nat_int by simp
  show ?thesis
  proof (cases "ptr = int q")
    case True
    then have p: "nat (ptr + int n) = q + n" "nat ptr = q" by linarith+
    show ?thesis unfolding code q_def [symmetric] p using True by auto
  next
    case False
    then have "length b \<le> q" "int (length b) - 2 \<le> ptr" using pp(1) by auto
    then have "\<not> q + n \<le> length b" "int n > int (length b) - ptr" using n by linarith+
    then show ?thesis unfolding code q_def [symmetric] by simp
  qed
qed

section \<open>The states of the contexts\<close>

lemma preCtx_state:
  assumes "0 \<le> qp" "qp \<le> 51"
  shows "h264CABACState qp (m, n) = ctx_state (preCtxState m n qp)" "ctx_ok (preCtxState m n qp)"
proof -
  define v where "v = (m * qp) div 2 ^ 4 + n"
  have V: "max 0 (min 51 qp) = qp" using assms by simp
  define u where "u = max 1 (min 126 v)"
  have u: "1 \<le> u" "u \<le> 126" by (simp_all add: u_def)
  have su: "preCtxState m n qp = (if u \<le> 63 then (nat (63 - u), 0) else (nat (u - 64), 1))"
    unfolding preCtxState_def V v_def [symmetric] u_def [symmetric] Let_def ..
  show "ctx_ok (preCtxState m n qp)" using u unfolding su ctx_ok_def by auto
  have h: "h264CABACState qp (m, n) = (let pre = 2 * v - 127; pre = pre XOR sign_mask pre;
          pre = (if pre > 124 then 124 + (pre AND 1) else pre) in pre mod 256)"
    unfolding h264CABACState_def by (simp add: v_def)
  show "h264CABACState qp (m, n) = ctx_state (preCtxState m n qp)"
  proof (cases "v \<le> 63")
    case True
    then have "(2 * v - 127) XOR sign_mask (2 * v - 127) = 126 - 2 * v" by (simp add: sign_mask_def not_int_def)
    moreover have "(126 - 2 * v) AND 1 = 0" unfolding and_one_eq by presburger
    ultimately show ?thesis using True unfolding h su Let_def by (simp add: ctx_state_def u_def)
  next
    case False
    then have "(2 * v - 127) XOR sign_mask (2 * v - 127) = 2 * v - 127" by (simp add: sign_mask_def)
    moreover have "(2 * v - 127) AND 1 = 1" unfolding and_one_eq by presburger
    ultimately show ?thesis using False unfolding h su Let_def by (simp add: ctx_state_def u_def)
  qed
qed

text \<open>The standard's contexts at the start of a slice: by slice type, \<open>cabac_init_idc\<close> and slice QP.\<close>

definition slice_contexts :: "int \<Rightarrow> u32 \<Rightarrow> int \<Rightarrow> (nat \<times> int) list" where
  "slice_contexts sliceType idc qp = map (\<lambda>(m, n). preCtxState m n qp)
     (if sliceType = PictureTypeI then h264CABACContextInitI else h264CABACContextInitPB ! unat idc)"

definition slice_qp :: "int \<Rightarrow> int \<Rightarrow> int" where
  "slice_qp qscale bitDepthLuma = max 0 (min 51 (i32 (qscale - i32 (6 * (bitDepthLuma - 8)))))"

lemma init_states:
  "initH264CABACStates sliceType idc qscale bd =
     (if sliceType \<noteq> PictureTypeI \<and> unat idc \<ge> 3 then Inl ErrInvalidData
      else Inr (map ctx_state (slice_contexts sliceType idc (slice_qp qscale bd))))"
    "list_all ctx_ok (slice_contexts sliceType idc (slice_qp qscale bd))"
proof -
  define qp where "qp = slice_qp qscale bd"
  have q: "0 \<le> qp" "qp \<le> 51" by (simp_all add: qp_def slice_qp_def)
  have c: "clipInt32 (i32 (qscale - i32 (6 * (bd - 8)))) 0 51 = qp"
    by (auto simp: clipInt32_def qp_def slice_qp_def)
  have t: "h264CABACStateTemplate tab qp = map ctx_state (map (\<lambda>(m, n). preCtxState m n qp) tab)" for tab
    by (auto simp: h264CABACStateTemplate_def preCtx_state [OF q])
  show "initH264CABACStates sliceType idc qscale bd =
     (if sliceType \<noteq> PictureTypeI \<and> unat idc \<ge> 3 then Inl ErrInvalidData
      else Inr (map ctx_state (slice_contexts sliceType idc (slice_qp qscale bd))))"
    unfolding initH264CABACStates_def Let_def c t slice_contexts_def qp_def [symmetric] by auto
  show "list_all ctx_ok (slice_contexts sliceType idc (slice_qp qscale bd))"
    unfolding slice_contexts_def qp_def [symmetric] by (auto simp: list_all_iff preCtx_state [OF q])
qed

section \<open>A slice's bins\<close>

text \<open>
  What a slice decodes, as a sequence of the engine's operations: a bin with a context, a bypass bin, a
  sign, or the terminating bin, after which nothing more is read when it is one.
\<close>

datatype coding = Regular nat | Bypass | Sign | Terminate

fun decode_bins :: "coding list \<Rightarrow> int list \<Rightarrow> cabacContext \<Rightarrow> int list \<times> int list" where
  "decode_bins [] ss c = ([], ss)"
| "decode_bins (Regular i # ops) ss c =
     (let (bin, s, c) = getCABAC (ss ! i) c; (bins, ss) = decode_bins ops (ss[i := s]) c in (bin # bins, ss))"
| "decode_bins (Bypass # ops) ss c =
     (let (bin, c) = getCABACBypass c; (bins, ss) = decode_bins ops ss c in (bin # bins, ss))"
| "decode_bins (Sign # ops) ss c =
     (let (val, c) = getCABACBypassSign (- 1) c; (bins, ss) = decode_bins ops ss c in (val # bins, ss))"
| "decode_bins (Terminate # ops) ss c =
     (let (n, c) = getCABACTerminate c in
      if n \<noteq> 0 then ([1], ss) else let (bins, ss) = decode_bins ops ss c in (0 # bins, ss))"

fun std_bins :: "bytes \<Rightarrow> coding list \<Rightarrow> (nat \<times> int) list \<Rightarrow> std \<Rightarrow> int list \<times> (nat \<times> int) list" where
  "std_bins b [] cs d = ([], cs)"
| "std_bins b (Regular i # ops) cs d =
     (let (bin, ctx, d) = DecodeDecision b (cs ! i) d; (bins, cs) = std_bins b ops (cs[i := ctx]) d in (bin # bins, cs))"
| "std_bins b (Bypass # ops) cs d =
     (let (bin, d) = DecodeBypass b d; (bins, cs) = std_bins b ops cs d in (bin # bins, cs))"
| "std_bins b (Sign # ops) cs d =
     (let (bin, d) = DecodeBypass b d; (bins, cs) = std_bins b ops cs d in ((if bin = 1 then - 1 else 1) # bins, cs))"
| "std_bins b (Terminate # ops) cs d =
     (let (bin, d) = DecodeTerminate b d in
      if bin = 1 then ([1], cs) else let (bins, cs) = std_bins b ops cs d in (0 # bins, cs))"

primrec uses_ctx :: "nat \<Rightarrow> coding \<Rightarrow> bool" where
  "uses_ctx n (Regular i) = (i < n)"
| "uses_ctx n Bypass = True"
| "uses_ctx n Sign = True"
| "uses_ctx n Terminate = True"

lemma decode_bins_std:
  "in_step b c d \<Longrightarrow> running d \<Longrightarrow> list_all ctx_ok cs \<Longrightarrow> list_all (uses_ctx (length cs)) ops \<Longrightarrow>
   decode_bins ops (map ctx_state cs) c = map_prod id (map ctx_state) (std_bins b ops cs d)"
proof (induction ops arbitrary: c d cs)
  case Nil
  then show ?case by simp
next
  case (Cons x ops)
  have us: "list_all (uses_ctx (length cs)) ops" using Cons.prems(4) by simp
  show ?case
  proof (cases x)
    case (Regular i)
    then have i: "i < length cs" using Cons.prems(4) by simp
    then have ok: "ctx_ok (cs ! i)" using Cons.prems(3) by (simp add: list_all_length)
    obtain bin ctx d' where D: "DecodeDecision b (cs ! i) d = (bin, ctx, d')" by (metis prod_cases3)
    obtain c' where C: "getCABAC (ctx_state (cs ! i)) c = (bin, ctx_state ctx, c')" "in_step b c' d'" "running d'" "ctx_ok ctx"
      using decision_step [OF Cons.prems(1,2) ok refl D] by blast
    have "list_all ctx_ok (cs[i := ctx])" using Cons.prems(3) C(4) i by (auto simp: list_all_length nth_list_update)
    then have "decode_bins ops (map ctx_state (cs[i := ctx])) c' = map_prod id (map ctx_state) (std_bins b ops (cs[i := ctx]) d')"
      using us by (intro Cons.IH [OF C(2,3)]) auto
    then show ?thesis using i by (simp add: Regular D C map_update split: prod.split)
  next
    case Bypass
    obtain bin d' where D: "DecodeBypass b d = (bin, d')" by (cases "DecodeBypass b d")
    obtain c' where C: "getCABACBypass c = (bin, c')" "in_step b c' d'" "running d'"
      using bypass_step(1) [OF Cons.prems(1,2) D] by blast
    show ?thesis using Cons.IH [OF C(2,3) Cons.prems(3) us] by (simp add: Bypass D C split: prod.split)
  next
    case Sign
    obtain bin d' where D: "DecodeBypass b d = (bin, d')" by (cases "DecodeBypass b d")
    obtain c' where C: "getCABACBypassSign (- 1) c = (i32 (if bin = 1 then - 1 else - (- 1)), c')" "in_step b c' d'" "running d'"
      using bypass_step(2) [OF Cons.prems(1,2) D, of "- 1"] by blast
    have "i32 (if bin = 1 then - 1 else - (- 1)) = (if bin = 1 then - 1 else 1)" by (simp add: i32_id)
    then show ?thesis using Cons.IH [OF C(2,3) Cons.prems(3) us] C(1) by (simp add: Sign D split: prod.split)
  next
    case Terminate
    obtain bin d' where D: "DecodeTerminate b d = (bin, d')" by (cases "DecodeTerminate b d")
    obtain c' n where C: "getCABACTerminate c = (n, c')" "in_step b c' d'" "bin = 0 \<longleftrightarrow> n = 0" "bin = 0 \<Longrightarrow> running d'" "bin = 0 \<or> bin = 1"
      using terminate_step [OF Cons.prems(1,2) D] by blast
    show ?thesis
    proof (cases "bin = 0")
      case True
      then show ?thesis using Cons.IH [OF C(2) C(4) Cons.prems(3) us] C(1,3) by (simp add: Terminate D split: prod.split)
    next
      case False
      then show ?thesis using C(1,3,5) by (simp add: Terminate D)
    qed
  qed
qed

text \<open>
  C10. From the states that a slice's type, \<open>cabac_init_idc\<close> and QP give, the engine set up on the
  slice's bytes, with either alignment, decodes for every sequence of operations the standard's bins and
  leaves the standard's contexts.
\<close>

theorem cabac_decodes_slice:
  assumes "initCABACDecoder b evn = Inr c" "initH264CABACStates sliceType idc qscale bd = Inr ss"
    and "cs = slice_contexts sliceType idc (slice_qp qscale bd)" "list_all (uses_ctx (length cs)) ops"
  shows "decode_bins ops ss c = map_prod id (map ctx_state) (std_bins b ops cs (initDecodingEngine b 0))"
proof -
  have ss: "ss = map ctx_state cs" using assms(2) unfolding init_states(1) assms(3) by (simp split: if_splits)
  have i: "in_step b c (initDecodingEngine b 0)" "running (initDecodingEngine b 0)"
    using init_cases [of b evn] assms(1) by (auto split: if_splits)
  have "list_all ctx_ok cs" unfolding assms(3) by (rule init_states(2))
  then show ?thesis unfolding ss by (rule decode_bins_std [OF i _ assms(4)])
qed

theorem cabac_decodes_slice_witness:
  "\<exists>c ss. initCABACDecoder [0x12, 0x34, 0x56] False = Inr c \<and> initH264CABACStates PictureTypeI 0 26 8 = Inr ss
     \<and> fst (decode_bins [Regular 3, Bypass, Sign, Regular 3, Terminate, Regular 10] ss c) = [0, 0, 1, 0, 0, 0]"
proof -
  let ?b = "[0x12, 0x34, 0x56] :: bytes" and ?cs = "slice_contexts PictureTypeI 0 (slice_qp 26 8)"
  let ?ops = "[Regular 3, Bypass, Sign, Regular 3, Terminate, Regular 10]"
  have "\<not> (length ?b < 2 \<or> 510 \<le> read_bits ?b 0 9)" by code_simp
  then obtain c where c: "initCABACDecoder ?b False = Inr c" using init_cases [of ?b False] by auto
  have ss: "initH264CABACStates PictureTypeI 0 26 8 = Inr (map ctx_state ?cs)" unfolding init_states(1) by simp
  have l: "list_all (uses_ctx (length ?cs)) ?ops" by code_simp
  have "fst (std_bins ?b ?ops ?cs (initDecodingEngine ?b 0)) = [0, 0, 1, 0, 0, 0]" by code_simp
  then have "fst (decode_bins ?ops (map ctx_state ?cs) c) = [0, 0, 1, 0, 0, 0]"
    unfolding cabac_decodes_slice [OF c ss refl l] by simp
  then show ?thesis using c ss by blast
qed

text \<open>
  The engine is set up, whatever the alignment, unless the slice has fewer than two bytes or the
  standard's first offset is one of the two that the standard forbids; that is its only error.
\<close>

theorem cabac_set_up:
  "initCABACDecoder b evn = Inl e \<longleftrightarrow> e = ErrInvalidData \<and> (length b < 2 \<or> read_bits b 0 9 \<in> {510, 511})"
proof -
  have "read_bits b 0 9 \<ge> 510 \<longleftrightarrow> read_bits b 0 9 \<in> {510, 511}" using read_bits_range [of b 0 9] by auto
  then show ?thesis using init_cases [of b evn] by (auto split: if_splits)
qed

text \<open>
  C40. After the terminating bin, in step with the standard's position \<open>p\<close>, the samples of an I_PCM
  macroblock are the bytes from the next byte boundary on, and the engine starts again right behind them;
  where the stream is too short, by however little, the error leaves the engine as it was.
\<close>

theorem pcm_bytes_follow:
  assumes "in_step b c (r, ofs, p)" "3 \<le> n"
  shows "readIntraPCMBytes (int n) evn c =
     (if (p + 7) div 8 + n \<le> length b then
        (case initCABACDecoder (drop ((p + 7) div 8 + n) b) evn of
           Inl e \<Rightarrow> (Inl e, c) | Inr c' \<Rightarrow> (Inr (take n (drop ((p + 7) div 8) b)), c'))
      else (Inl ErrInvalidData, c))"
  using assms by (rule pcm_step)

theorem pcm_bytes_follow_witness:
  "\<exists>c c'. initCABACDecoder [0xfe, 0, 1, 2, 3, 4, 0, 0] True = Inr c
     \<and> readIntraPCMBytes 4 True c = (Inr [1, 2, 3, 4], c')"
proof -
  let ?b = "[0xfe, 0, 1, 2, 3, 4, 0, 0] :: bytes"
  have "\<not> (length ?b < 2 \<or> 510 \<le> read_bits ?b 0 9)" by code_simp
  then obtain c where c: "initCABACDecoder ?b True = Inr c" "in_step ?b c (510, read_bits ?b 0 9, 9)"
    using init_cases [of ?b True] by (auto simp: initDecodingEngine_def)
  have "\<not> (length ([0, 0] :: bytes) < 2 \<or> 510 \<le> read_bits [0, 0] 0 9)" by code_simp
  then obtain c' where c': "initCABACDecoder [0, 0] True = Inr c'" using init_cases [of "[0, 0]" True] by auto
  have "readIntraPCMBytes (int 4) True c = (Inr [1, 2, 3, 4], c')"
    using pcm_bytes_follow [OF c(2), of 4 True] c' by simp
  then show ?thesis using c(1) by auto
qed

end
