(* ===== verification/Cavlc_Codes.thy ===== *)
theory Cavlc_Codes
  imports Bit_Writer
begin

text \<open>
  The variable-length codes of CAVLC (\<open>cavlc.go\<close>): their tables, the reader and the writer of a code
  given by a table, and which table codes \<open>coeff_token\<close>, \<open>total_zeros\<close> and \<open>run_before\<close>. The tables
  are prefix codes, so what the writer writes the reader reads. A \<open>uint8\<close> entry is a natural number.
\<close>

section \<open>The tables\<close>

definition cavlcGolombToInterCBPGray :: "nat list" where
  "cavlcGolombToInterCBPGray =
    [0, 1, 2, 4, 8, 3, 5, 10, 12, 15, 7, 11, 13, 14, 6, 9]"

definition cavlcGolombToIntra4x4CBPGray :: "nat list" where
  "cavlcGolombToIntra4x4CBPGray =
    [15, 0, 7, 11, 13, 14, 3, 5, 10, 12, 1, 2, 4, 8, 6, 9]"

definition cavlcChromaDCCoeffTokenLen :: "nat list" where
  "cavlcChromaDCCoeffTokenLen =
    [2, 0, 0, 0, 6, 1, 0, 0, 6, 6, 3, 0, 6, 7, 7, 6, 6, 8, 8, 7]"

definition cavlcChromaDCCoeffTokenBits :: "int list" where
  "cavlcChromaDCCoeffTokenBits =
    [1, 0, 0, 0, 7, 1, 0, 0, 4, 6, 1, 0, 3, 3, 2, 5, 2, 3, 2, 0]"

definition cavlcChroma422DCCoeffTokenLen :: "nat list" where
  "cavlcChroma422DCCoeffTokenLen =
    [1, 0, 0, 0, 7, 2, 0, 0, 7, 7, 3, 0, 9, 7, 7, 5, 9, 9, 7, 6, 10, 10, 9, 7,
     11, 11, 10, 7, 12, 12, 11, 10, 13, 12, 12, 11]"

definition cavlcChroma422DCCoeffTokenBits :: "int list" where
  "cavlcChroma422DCCoeffTokenBits =
    [1, 0, 0, 0, 15, 1, 0, 0, 14, 13, 1, 0, 7, 12, 11, 1, 6, 5, 10, 1, 7, 6, 4, 9,
     7, 6, 5, 8, 7, 6, 5, 4, 7, 5, 4, 4]"

definition cavlcCoeffTokenLen :: "nat list list" where
  "cavlcCoeffTokenLen = [
    [1, 0, 0, 0, 6, 2, 0, 0, 8, 6, 3, 0, 9, 8, 7, 5, 10, 9, 8, 6, 11, 10, 9, 7,
     13, 11, 10, 8, 13, 13, 11, 9, 13, 13, 13, 10, 14, 14, 13, 11, 14, 14, 14, 13, 15, 15, 14, 14,
     15, 15, 15, 14, 16, 15, 15, 15, 16, 16, 16, 15, 16, 16, 16, 16, 16, 16, 16, 16],
    [2, 0, 0, 0, 6, 2, 0, 0, 6, 5, 3, 0, 7, 6, 6, 4, 8, 6, 6, 4, 8, 7, 7, 5,
     9, 8, 8, 6, 11, 9, 9, 6, 11, 11, 11, 7, 12, 11, 11, 9, 12, 12, 12, 11, 12, 12, 12, 11,
     13, 13, 13, 12, 13, 13, 13, 13, 13, 14, 13, 13, 14, 14, 14, 13, 14, 14, 14, 14],
    [4, 0, 0, 0, 6, 4, 0, 0, 6, 5, 4, 0, 6, 5, 5, 4, 7, 5, 5, 4, 7, 5, 5, 4,
     7, 6, 6, 4, 7, 6, 6, 4, 8, 7, 7, 5, 8, 8, 7, 6, 9, 8, 8, 7, 9, 9, 8, 8,
     9, 9, 9, 8, 10, 9, 9, 9, 10, 10, 10, 10, 10, 10, 10, 10, 10, 10, 10, 10],
    [6, 0, 0, 0, 6, 6, 0, 0, 6, 6, 6, 0, 6, 6, 6, 6, 6, 6, 6, 6, 6, 6, 6, 6,
     6, 6, 6, 6, 6, 6, 6, 6, 6, 6, 6, 6, 6, 6, 6, 6, 6, 6, 6, 6, 6, 6, 6, 6,
     6, 6, 6, 6, 6, 6, 6, 6, 6, 6, 6, 6, 6, 6, 6, 6, 6, 6, 6, 6]]"

definition cavlcCoeffTokenBits :: "int list list" where
  "cavlcCoeffTokenBits = [
    [1, 0, 0, 0, 5, 1, 0, 0, 7, 4, 1, 0, 7, 6, 5, 3, 7, 6, 5, 3, 7, 6, 5, 4,
     15, 6, 5, 4, 11, 14, 5, 4, 8, 10, 13, 4, 15, 14, 9, 4, 11, 10, 13, 12, 15, 14, 9, 12,
     11, 10, 13, 8, 15, 1, 9, 12, 11, 14, 13, 8, 7, 10, 9, 12, 4, 6, 5, 8],
    [3, 0, 0, 0, 11, 2, 0, 0, 7, 7, 3, 0, 7, 10, 9, 5, 7, 6, 5, 4, 4, 6, 5, 6,
     7, 6, 5, 8, 15, 6, 5, 4, 11, 14, 13, 4, 15, 10, 9, 4, 11, 14, 13, 12, 8, 10, 9, 8,
     15, 14, 13, 12, 11, 10, 9, 12, 7, 11, 6, 8, 9, 8, 10, 1, 7, 6, 5, 4],
    [15, 0, 0, 0, 15, 14, 0, 0, 11, 15, 13, 0, 8, 12, 14, 12, 15, 10, 11, 11, 11, 8, 9, 10,
     9, 14, 13, 9, 8, 10, 9, 8, 15, 14, 13, 13, 11, 14, 10, 12, 15, 10, 13, 12, 11, 14, 9, 12,
     8, 10, 13, 8, 13, 7, 9, 12, 9, 12, 11, 10, 5, 8, 7, 6, 1, 4, 3, 2],
    [3, 0, 0, 0, 0, 1, 0, 0, 4, 5, 6, 0, 8, 9, 10, 11, 12, 13, 14, 15, 16, 17, 18, 19,
     20, 21, 22, 23, 24, 25, 26, 27, 28, 29, 30, 31, 32, 33, 34, 35, 36, 37, 38, 39, 40, 41, 42, 43,
     44, 45, 46, 47, 48, 49, 50, 51, 52, 53, 54, 55, 56, 57, 58, 59, 60, 61, 62, 63]]"

definition cavlcTotalZerosLen :: "nat list list" where
  "cavlcTotalZerosLen = [
    [1, 3, 3, 4, 4, 5, 5, 6, 6, 7, 7, 8, 8, 9, 9, 9],
    [3, 3, 3, 3, 3, 4, 4, 4, 4, 5, 5, 6, 6, 6, 6, 0],
    [4, 3, 3, 3, 4, 4, 3, 3, 4, 5, 5, 6, 5, 6, 0, 0],
    [5, 3, 4, 4, 3, 3, 3, 4, 3, 4, 5, 5, 5, 0, 0, 0],
    [4, 4, 4, 3, 3, 3, 3, 3, 4, 5, 4, 5, 0, 0, 0, 0],
    [6, 5, 3, 3, 3, 3, 3, 3, 4, 3, 6, 0, 0, 0, 0, 0],
    [6, 5, 3, 3, 3, 2, 3, 4, 3, 6, 0, 0, 0, 0, 0, 0],
    [6, 4, 5, 3, 2, 2, 3, 3, 6, 0, 0, 0, 0, 0, 0, 0],
    [6, 6, 4, 2, 2, 3, 2, 5, 0, 0, 0, 0, 0, 0, 0, 0],
    [5, 5, 3, 2, 2, 2, 4, 0, 0, 0, 0, 0, 0, 0, 0, 0],
    [4, 4, 3, 3, 1, 3, 0, 0, 0, 0, 0, 0, 0, 0, 0, 0],
    [4, 4, 2, 1, 3, 0, 0, 0, 0, 0, 0, 0, 0, 0, 0, 0],
    [3, 3, 1, 2, 0, 0, 0, 0, 0, 0, 0, 0, 0, 0, 0, 0],
    [2, 2, 1, 0, 0, 0, 0, 0, 0, 0, 0, 0, 0, 0, 0, 0],
    [1, 1, 0, 0, 0, 0, 0, 0, 0, 0, 0, 0, 0, 0, 0, 0],
    [0, 0, 0, 0, 0, 0, 0, 0, 0, 0, 0, 0, 0, 0, 0, 0]]"

definition cavlcTotalZerosBits :: "int list list" where
  "cavlcTotalZerosBits = [
    [1, 3, 2, 3, 2, 3, 2, 3, 2, 3, 2, 3, 2, 3, 2, 1],
    [7, 6, 5, 4, 3, 5, 4, 3, 2, 3, 2, 3, 2, 1, 0, 0],
    [5, 7, 6, 5, 4, 3, 4, 3, 2, 3, 2, 1, 1, 0, 0, 0],
    [3, 7, 5, 4, 6, 5, 4, 3, 3, 2, 2, 1, 0, 0, 0, 0],
    [5, 4, 3, 7, 6, 5, 4, 3, 2, 1, 1, 0, 0, 0, 0, 0],
    [1, 1, 7, 6, 5, 4, 3, 2, 1, 1, 0, 0, 0, 0, 0, 0],
    [1, 1, 5, 4, 3, 3, 2, 1, 1, 0, 0, 0, 0, 0, 0, 0],
    [1, 1, 1, 3, 3, 2, 2, 1, 0, 0, 0, 0, 0, 0, 0, 0],
    [1, 0, 1, 3, 2, 1, 1, 1, 0, 0, 0, 0, 0, 0, 0, 0],
    [1, 0, 1, 3, 2, 1, 1, 0, 0, 0, 0, 0, 0, 0, 0, 0],
    [0, 1, 1, 2, 1, 3, 0, 0, 0, 0, 0, 0, 0, 0, 0, 0],
    [0, 1, 1, 1, 1, 0, 0, 0, 0, 0, 0, 0, 0, 0, 0, 0],
    [0, 1, 1, 1, 0, 0, 0, 0, 0, 0, 0, 0, 0, 0, 0, 0],
    [0, 1, 1, 0, 0, 0, 0, 0, 0, 0, 0, 0, 0, 0, 0, 0],
    [0, 1, 0, 0, 0, 0, 0, 0, 0, 0, 0, 0, 0, 0, 0, 0],
    [0, 0, 0, 0, 0, 0, 0, 0, 0, 0, 0, 0, 0, 0, 0, 0]]"

definition cavlcChromaDCTotalZerosLen :: "nat list list" where
  "cavlcChromaDCTotalZerosLen = [
    [1, 2, 3, 3],
    [1, 2, 2, 0],
    [1, 1, 0, 0]]"

definition cavlcChromaDCTotalZerosBits :: "int list list" where
  "cavlcChromaDCTotalZerosBits = [
    [1, 1, 1, 0],
    [1, 1, 0, 0],
    [1, 0, 0, 0]]"

definition cavlcChroma422DCTotalZerosLen :: "nat list list" where
  "cavlcChroma422DCTotalZerosLen = [
    [1, 3, 3, 4, 4, 4, 5, 5],
    [3, 2, 3, 3, 3, 3, 3, 0],
    [3, 3, 2, 2, 3, 3, 0, 0],
    [3, 2, 2, 2, 3, 0, 0, 0],
    [2, 2, 2, 2, 0, 0, 0, 0],
    [2, 2, 1, 0, 0, 0, 0, 0],
    [1, 1, 0, 0, 0, 0, 0, 0]]"

definition cavlcChroma422DCTotalZerosBits :: "int list list" where
  "cavlcChroma422DCTotalZerosBits = [
    [1, 2, 3, 2, 3, 1, 1, 0],
    [0, 1, 1, 4, 5, 6, 7, 0],
    [0, 1, 1, 2, 6, 7, 0, 0],
    [6, 0, 1, 2, 7, 0, 0, 0],
    [0, 1, 2, 3, 0, 0, 0, 0],
    [0, 1, 1, 0, 0, 0, 0, 0],
    [0, 1, 0, 0, 0, 0, 0, 0]]"

definition cavlcRunLen :: "nat list list" where
  "cavlcRunLen = [
    [1, 1, 0, 0, 0, 0, 0, 0, 0, 0, 0, 0, 0, 0, 0, 0],
    [1, 2, 2, 0, 0, 0, 0, 0, 0, 0, 0, 0, 0, 0, 0, 0],
    [2, 2, 2, 2, 0, 0, 0, 0, 0, 0, 0, 0, 0, 0, 0, 0],
    [2, 2, 2, 3, 3, 0, 0, 0, 0, 0, 0, 0, 0, 0, 0, 0],
    [2, 2, 3, 3, 3, 3, 0, 0, 0, 0, 0, 0, 0, 0, 0, 0],
    [2, 3, 3, 3, 3, 3, 3, 0, 0, 0, 0, 0, 0, 0, 0, 0],
    [3, 3, 3, 3, 3, 3, 3, 4, 5, 6, 7, 8, 9, 10, 11, 0]]"

definition cavlcRunBits :: "int list list" where
  "cavlcRunBits = [
    [1, 0, 0, 0, 0, 0, 0, 0, 0, 0, 0, 0, 0, 0, 0, 0],
    [1, 1, 0, 0, 0, 0, 0, 0, 0, 0, 0, 0, 0, 0, 0, 0],
    [3, 2, 1, 0, 0, 0, 0, 0, 0, 0, 0, 0, 0, 0, 0, 0],
    [3, 2, 1, 1, 0, 0, 0, 0, 0, 0, 0, 0, 0, 0, 0, 0],
    [3, 2, 3, 2, 1, 0, 0, 0, 0, 0, 0, 0, 0, 0, 0, 0],
    [3, 0, 1, 3, 2, 5, 4, 0, 0, 0, 0, 0, 0, 0, 0, 0],
    [7, 6, 5, 4, 3, 2, 1, 1, 1, 1, 1, 1, 1, 1, 1, 0]]"

definition cavlcCoeffTokenTableIndex :: "nat list" where
  "cavlcCoeffTokenTableIndex =
    [0, 0, 1, 1, 2, 2, 2, 2, 3, 3, 3, 3, 3, 3, 3, 3, 3]"

section \<open>Reading and writing a code\<close>

record cavlcVLC =
  vl_length :: "nat list"
  vl_bits :: "int list"
  vl_maxLen :: nat

definition vlc_write :: "cavlcVLC \<Rightarrow> int \<Rightarrow> (bitWriter, unit) go" where
  "vlc_write vlc symbol =
     (if symbol < 0 \<or> symbol \<ge> int (length (vl_length vlc)) then fail ErrInvalidData
      else let len = vl_length vlc ! nat symbol in
      if len = 0 then fail ErrInvalidData
      else WriteBits (word_of_int (vl_bits vlc ! nat symbol)) (word_of_nat len))"

text \<open>The first symbol that has the code \<open>code\<close> of length \<open>len\<close>.\<close>

definition vlc_symbol :: "cavlcVLC \<Rightarrow> nat \<Rightarrow> u32 \<Rightarrow> nat option" where
  "vlc_symbol vlc len code =
     find (\<lambda>i. vl_length vlc ! i = len \<and> word_of_int (vl_bits vlc ! i) = code) [0..<length (vl_length vlc)]"

fun vlc_read_loop :: "cavlcVLC \<Rightarrow> nat \<Rightarrow> nat \<Rightarrow> u32 \<Rightarrow> ('z bitReader_scheme, nat) go" where
  "vlc_read_loop vlc 0 len code = fail ErrInvalidData"
| "vlc_read_loop vlc (Suc k) len code = bnd readBit (\<lambda>b.
     let code = push_bit 1 code OR b in
     (case vlc_symbol vlc len code of
        Some symbol \<Rightarrow> ret symbol
      | None \<Rightarrow> vlc_read_loop vlc k (Suc len) code))"

definition vlc_read :: "cavlcVLC \<Rightarrow> ('z bitReader_scheme, nat) go" where
  "vlc_read vlc =
     (let maxLen = foldl (\<lambda>m len. if len > m then len else m) (vl_maxLen vlc) (vl_length vlc)
      in vlc_read_loop vlc maxLen 1 0)"

section \<open>The three kinds of codes\<close>

definition chroma_dc_token_vlc :: cavlcVLC where
  "chroma_dc_token_vlc = \<lparr>vl_length = cavlcChromaDCCoeffTokenLen, vl_bits = cavlcChromaDCCoeffTokenBits, vl_maxLen = 8\<rparr>"

definition chroma422_dc_token_vlc :: cavlcVLC where
  "chroma422_dc_token_vlc = \<lparr>vl_length = cavlcChroma422DCCoeffTokenLen, vl_bits = cavlcChroma422DCCoeffTokenBits, vl_maxLen = 13\<rparr>"

definition coeffTokenVLC :: "int \<Rightarrow> cavlcVLC result" where
  "coeffTokenVLC nC =
     (if nC < 0 \<or> nC \<ge> int (length cavlcCoeffTokenTableIndex) then Inl ErrInvalidData
      else let table = cavlcCoeffTokenTableIndex ! nat nC in
      Inr \<lparr>vl_length = cavlcCoeffTokenLen ! table, vl_bits = cavlcCoeffTokenBits ! table, vl_maxLen = 8\<rparr>)"

definition readCAVLCCoeffToken :: "int \<Rightarrow> int \<Rightarrow> ('z bitReader_scheme, nat) go" where
  "readCAVLCCoeffToken nC maxCoeff =
     (if maxCoeff \<le> 0 \<or> maxCoeff > 16 then fail ErrInvalidData
      else if maxCoeff \<le> 8 then
        (if maxCoeff = 4 then vlc_read chroma_dc_token_vlc else vlc_read chroma422_dc_token_vlc)
      else bnd (lift (coeffTokenVLC nC)) vlc_read)"

definition writeCAVLCCoeffToken :: "int \<Rightarrow> int \<Rightarrow> int \<Rightarrow> int \<Rightarrow> (bitWriter, unit) go" where
  "writeCAVLCCoeffToken totalCoeff trailingOnes nC maxCoeff =
     (if maxCoeff \<le> 0 \<or> maxCoeff > 16 \<or> totalCoeff < 0 \<or> totalCoeff > maxCoeff
         \<or> trailingOnes < 0 \<or> trailingOnes > 3 \<or> trailingOnes > totalCoeff then fail ErrInvalidData
      else let symbol = push_bit 2 totalCoeff OR trailingOnes in
      if maxCoeff \<le> 8 then
        (if maxCoeff = 4 then vlc_write chroma_dc_token_vlc symbol else vlc_write chroma422_dc_token_vlc symbol)
      else bnd (lift (coeffTokenVLC nC)) (\<lambda>vlc. vlc_write vlc symbol))"

text \<open>The table of \<open>total_zeros\<close> for a number of coefficients below the maximum.\<close>

definition total_zeros_vlc :: "int \<Rightarrow> int \<Rightarrow> cavlcVLC" where
  "total_zeros_vlc totalCoeff maxCoeff =
     (let r = nat (totalCoeff - 1) in
      if maxCoeff \<le> 8 then
        (if maxCoeff = 4 then \<lparr>vl_length = cavlcChromaDCTotalZerosLen ! r, vl_bits = cavlcChromaDCTotalZerosBits ! r, vl_maxLen = 3\<rparr>
         else \<lparr>vl_length = cavlcChroma422DCTotalZerosLen ! r, vl_bits = cavlcChroma422DCTotalZerosBits ! r, vl_maxLen = 5\<rparr>)
      else \<lparr>vl_length = cavlcTotalZerosLen ! r, vl_bits = cavlcTotalZerosBits ! r, vl_maxLen = 9\<rparr>)"

definition readCAVLCTotalZeros :: "int \<Rightarrow> int \<Rightarrow> ('z bitReader_scheme, nat) go" where
  "readCAVLCTotalZeros totalCoeff maxCoeff =
     (if totalCoeff \<le> 0 \<or> totalCoeff > maxCoeff \<or> maxCoeff > 16 then fail ErrInvalidData
      else if totalCoeff = maxCoeff then ret 0
      else vlc_read (total_zeros_vlc totalCoeff maxCoeff))"

definition writeCAVLCTotalZeros :: "int \<Rightarrow> int \<Rightarrow> int \<Rightarrow> (bitWriter, unit) go" where
  "writeCAVLCTotalZeros totalZeros totalCoeff maxCoeff =
     (if totalCoeff \<le> 0 \<or> totalCoeff > maxCoeff \<or> maxCoeff > 16 \<or> totalZeros < 0 \<or> totalZeros > maxCoeff - totalCoeff
      then fail ErrInvalidData
      else if totalCoeff = maxCoeff then (if totalZeros \<noteq> 0 then fail ErrInvalidData else ret ())
      else vlc_write (total_zeros_vlc totalCoeff maxCoeff) totalZeros)"

definition run_before_vlc :: "int \<Rightarrow> cavlcVLC" where
  "run_before_vlc zerosLeft =
     (let (row, maxLen) = (if zerosLeft < 7 then (nat (zerosLeft - 1), 3) else (6, 6))
      in \<lparr>vl_length = cavlcRunLen ! row, vl_bits = cavlcRunBits ! row, vl_maxLen = maxLen\<rparr>)"

definition readCAVLCRunBefore :: "int \<Rightarrow> ('z bitReader_scheme, nat) go" where
  "readCAVLCRunBefore zerosLeft = (if zerosLeft \<le> 0 then fail ErrInvalidData else vlc_read (run_before_vlc zerosLeft))"

definition writeCAVLCRunBefore :: "int \<Rightarrow> int \<Rightarrow> (bitWriter, unit) go" where
  "writeCAVLCRunBefore runBefore zerosLeft =
     (if zerosLeft \<le> 0 \<or> runBefore < 0 \<or> runBefore > zerosLeft then fail ErrInvalidData
      else vlc_write (run_before_vlc zerosLeft) runBefore)"

section \<open>Prefix codes\<close>

text \<open>
  A table codes its symbols, those whose length is not zero, in lengths of at most 32, and no code is a
  prefix of another.
\<close>

definition clash :: "nat \<times> int \<Rightarrow> nat \<times> int \<Rightarrow> bool" where
  "clash x y \<longleftrightarrow> (case (x, y) of ((m, a), (n, b)) \<Rightarrow>
     m \<noteq> 0 \<and> n \<noteq> 0 \<and> (if m \<le> n then b div 2 ^ (n - m) = a else a div 2 ^ (m - n) = b))"

fun prefix_code :: "(nat \<times> int) list \<Rightarrow> bool" where
  "prefix_code [] = True"
| "prefix_code (x # xs) = (0 \<le> snd x \<and> snd x < 2 ^ fst x \<and> fst x \<le> 32 \<and> list_all (\<lambda>y. \<not> clash x y) xs \<and> prefix_code xs
     \<or> fst x = 0 \<and> prefix_code xs)"

definition vlc_ok :: "cavlcVLC \<Rightarrow> bool" where
  "vlc_ok vlc \<longleftrightarrow> length (vl_bits vlc) = length (vl_length vlc) \<and> prefix_code (zip (vl_length vlc) (vl_bits vlc))"

lemma clash_sym: "clash x y \<Longrightarrow> clash y x"
  by (cases x; cases y) (auto simp: clash_def split: if_splits)

lemma prefix_code_nth:
  "prefix_code xs \<Longrightarrow> i < length xs \<Longrightarrow> fst (xs ! i) \<noteq> 0 \<Longrightarrow> 0 \<le> snd (xs ! i) \<and> snd (xs ! i) < 2 ^ fst (xs ! i) \<and> fst (xs ! i) \<le> 32"
  by (induction xs arbitrary: i) (auto simp: nth_Cons split: nat.splits)

lemma prefix_code_unique:
  "prefix_code xs \<Longrightarrow> i < length xs \<Longrightarrow> j < length xs \<Longrightarrow> clash (xs ! i) (xs ! j) \<Longrightarrow> i = j"
proof (induction xs arbitrary: i j)
  case Nil
  then show ?case by simp
next
  case (Cons x xs)
  have no: False if "clash x (xs ! k)" "k < length xs" for k
  proof -
    have "fst x \<noteq> 0" using that(1) by (cases x) (auto simp: clash_def)
    then show False using Cons.prems(1) that by (auto simp: list_all_length)
  qed
  have p: "prefix_code xs" using Cons.prems(1) by auto
  show ?case
    using Cons.prems Cons.IH [OF p] no by (cases i; cases j) (auto dest: clash_sym)
qed

lemma codes_ok:
  "vlc_ok chroma_dc_token_vlc" "vlc_ok chroma422_dc_token_vlc"
  "list_all (\<lambda>(l, b). vlc_ok \<lparr>vl_length = l, vl_bits = b, vl_maxLen = m\<rparr>) (zip cavlcCoeffTokenLen cavlcCoeffTokenBits)"
  "list_all (\<lambda>(l, b). vlc_ok \<lparr>vl_length = l, vl_bits = b, vl_maxLen = m\<rparr>) (zip cavlcTotalZerosLen cavlcTotalZerosBits)"
  "list_all (\<lambda>(l, b). vlc_ok \<lparr>vl_length = l, vl_bits = b, vl_maxLen = m\<rparr>) (zip cavlcChromaDCTotalZerosLen cavlcChromaDCTotalZerosBits)"
  "list_all (\<lambda>(l, b). vlc_ok \<lparr>vl_length = l, vl_bits = b, vl_maxLen = m\<rparr>) (zip cavlcChroma422DCTotalZerosLen cavlcChroma422DCTotalZerosBits)"
  "list_all (\<lambda>(l, b). vlc_ok \<lparr>vl_length = l, vl_bits = b, vl_maxLen = m\<rparr>) (zip cavlcRunLen cavlcRunBits)"
  by code_simp+

section \<open>What is written is read\<close>

definition vlc_code :: "cavlcVLC \<Rightarrow> nat \<Rightarrow> bool list" where
  "vlc_code vlc i = word_bits (vl_length vlc ! i) (word_of_int (vl_bits vlc ! i))"

definition vlc_has :: "cavlcVLC \<Rightarrow> nat \<Rightarrow> bool" where
  "vlc_has vlc i \<longleftrightarrow> i < length (vl_length vlc) \<and> vl_length vlc ! i \<noteq> 0"

lemma vlc_hasD:
  assumes "vlc_ok vlc" "vlc_has vlc i"
  shows "0 \<le> vl_bits vlc ! i" "vl_bits vlc ! i < 2 ^ (vl_length vlc ! i)" "vl_length vlc ! i \<le> 32"
  using prefix_code_nth [of "zip (vl_length vlc) (vl_bits vlc)" i] assms by (auto simp: vlc_ok_def vlc_has_def)

lemma vlc_unique:
  assumes "vlc_ok vlc" "vlc_has vlc i" "vlc_has vlc j" "vl_length vlc ! j \<le> vl_length vlc ! i"
    and "vl_bits vlc ! i div 2 ^ (vl_length vlc ! i - vl_length vlc ! j) = vl_bits vlc ! j"
  shows "i = j"
  using prefix_code_unique [of "zip (vl_length vlc) (vl_bits vlc)" j i] assms
  by (auto simp: vlc_ok_def vlc_has_def clash_def)

lemma word_of_int_eq:
  assumes "0 \<le> a" "a < 2 ^ 32" "0 \<le> b" "b < 2 ^ 32"
  shows "(word_of_int a :: u32) = word_of_int b \<longleftrightarrow> a = b"
  using assms by (simp add: word_of_int_eq_iff take_bit_int_eq_self)

lemma vlc_step_code:
  assumes "0 \<le> B" "n < L"
  shows "push_bit 1 (word_of_int (B div 2 ^ (L - n)) :: u32) OR of_bool (bit B (L - Suc n)) = word_of_int (B div 2 ^ (L - Suc n))"
proof -
  define x where "x = B div 2 ^ (L - Suc n)"
  have e: "L - n = Suc (L - Suc n)" using assms(2) by simp
  have h1: "B div 2 ^ (L - n) = x div 2" unfolding e x_def
    using zdiv_zmult2_eq [of 2 B "2 ^ (L - Suc n)"] by (simp add: mult.commute)
  have h2: "bit B (L - Suc n) \<longleftrightarrow> odd x" by (simp add: bit_iff_odd x_def)
  have h3: "push_bit 1 (word_of_int y :: u32) OR of_bool c = word_of_int (2 * y + of_bool c)" for y c
    by (cases c) (simp_all add: push_bit_eq_mult or_one_eq)
  have h4: "2 * (x div 2) + of_bool (odd x) = x" by (cases "odd x") (auto elim!: oddE evenE)
  show ?thesis unfolding x_def [symmetric] h1 h2 h3 h4 ..
qed

lemma vlc_symbol_at:
  assumes ok: "vlc_ok vlc" "vlc_has vlc i" and n: "n < vl_length vlc ! i"
  shows "vlc_symbol vlc (Suc n) (word_of_int (vl_bits vlc ! i div 2 ^ (vl_length vlc ! i - Suc n)))
    = (if Suc n = vl_length vlc ! i then Some i else None)"
proof -
  define L where "L = vl_length vlc ! i"
  define B where "B = vl_bits vlc ! i"
  have B: "0 \<le> B" "B < 2 ^ L" "L \<le> 32" using vlc_hasD [OF ok] by (simp_all add: B_def L_def)
  have p32: "x < 2 ^ m \<Longrightarrow> m \<le> 32 \<Longrightarrow> x < 2 ^ 32" for x :: int and m
    using power_increasing [of m 32 "2 :: int"] by linarith
  have d: "0 \<le> B div 2 ^ (L - Suc n)" "B div 2 ^ (L - Suc n) < 2 ^ 32"
  proof -
    show "0 \<le> B div 2 ^ (L - Suc n)" using B(1) by (simp add: pos_imp_zdiv_nonneg_iff)
    have "B div 2 ^ (L - Suc n) \<le> B" using B(1) using zdiv_mono2 [of B 1 "2 ^ (L - Suc n)"] by simp
    then show "B div 2 ^ (L - Suc n) < 2 ^ 32" using p32 [OF B(2,3)] by linarith
  qed
  define P where "P = (\<lambda>j. vl_length vlc ! j = Suc n \<and> word_of_int (vl_bits vlc ! j) = (word_of_int (B div 2 ^ (L - Suc n)) :: u32))"
  have P: "j = i \<and> Suc n = L" if "j < length (vl_length vlc)" "P j" for j
  proof -
    have h: "vlc_has vlc j" using that by (simp add: vlc_has_def P_def)
    have l: "vl_length vlc ! j = Suc n" using that(2) by (simp add: P_def)
    have "vl_bits vlc ! j = B div 2 ^ (L - Suc n)"
      using that(2) word_of_int_eq [OF vlc_hasD(1) [OF ok(1) h] p32 [OF vlc_hasD(2,3) [OF ok(1) h]] d] by (simp add: P_def)
    then have "i = j" using n l by (intro vlc_unique [OF ok h]) (simp_all add: B_def L_def)
    then show ?thesis using l by (simp add: L_def)
  qed
  have "find P [0..<length (vl_length vlc)] = (if Suc n = L then Some i else None)"
  proof (cases "Suc n = L")
    case True
    have "P i" using True by (simp add: P_def L_def B_def)
    moreover have "i < length (vl_length vlc)" using ok(2) by (simp add: vlc_has_def)
    ultimately have "find P [0..<length (vl_length vlc)] \<noteq> None" by (auto simp: find_None_iff)
    then obtain j where j: "find P [0..<length (vl_length vlc)] = Some j" by auto
    then have "j < length (vl_length vlc)" "P j" by (auto simp: find_Some_iff)
    then show ?thesis using P [of j] j True by simp
  next
    case False
    then show ?thesis using P by (auto simp: find_None_iff)
  qed
  then show ?thesis by (simp add: vlc_symbol_def P_def L_def B_def)
qed

lemma reads_readBit: "reads readBit [b] (of_bool b)"
  by (simp add: reads_def readBit_adv)

lemma reads_vlc_loop:
  assumes ok: "vlc_ok vlc" "vlc_has vlc i"
  shows "n < vl_length vlc ! i \<Longrightarrow> vl_length vlc ! i \<le> n + k \<Longrightarrow>
    reads (vlc_read_loop vlc k (Suc n) (word_of_int (vl_bits vlc ! i div 2 ^ (vl_length vlc ! i - n))) :: ('z bitReader_scheme, nat) go)
      (word_bits (vl_length vlc ! i - n) (word_of_int (vl_bits vlc ! i))) i"
proof (induction k arbitrary: n)
  case 0
  then show ?case by simp
next
  case (Suc k)
  define L where "L = vl_length vlc ! i"
  define B where "B = vl_bits vlc ! i"
  have n: "n < L" using Suc.prems by (simp add: L_def)
  have L: "L - n = Suc (L - Suc n)" using n by simp
  have B0: "0 \<le> B" using vlc_hasD(1) [OF ok] by (simp add: B_def)
  have L32: "L \<le> 32" using vlc_hasD(3) [OF ok] by (simp add: L_def)
  have bb: "bit (word_of_int B :: u32) (L - Suc n) = bit B (L - Suc n)" using L32 n by (auto simp: bit_simps)
  define f :: "u32 \<Rightarrow> ('z bitReader_scheme, nat) go" where "f = (\<lambda>b. let code = push_bit 1 (word_of_int (B div 2 ^ (L - n))) OR b in
     (case vlc_symbol vlc (Suc n) code of Some symbol \<Rightarrow> ret symbol | None \<Rightarrow> vlc_read_loop vlc k (Suc (Suc n)) code))"
  have sy: "vlc_symbol vlc (Suc n) (word_of_int (B div 2 ^ (L - Suc n))) = (if Suc n = L then Some i else None)"
    using vlc_symbol_at [OF ok n [unfolded L_def]] by (simp add: L_def B_def)
  have "reads (f (of_bool (bit B (L - Suc n)))) (word_bits (L - Suc n) (word_of_int B)) i"
  proof (cases "Suc n = L")
    case True
    then show ?thesis unfolding f_def Let_def vlc_step_code [OF B0 n] sy by (simp add: reads_ret)
  next
    case False
    then have "reads (vlc_read_loop vlc k (Suc (Suc n)) (word_of_int (B div 2 ^ (L - Suc n))) :: ('z bitReader_scheme, nat) go) (word_bits (L - Suc n) (word_of_int B)) i"
      unfolding L_def B_def using Suc.prems by (intro Suc.IH) simp_all
    then show ?thesis using False unfolding f_def Let_def vlc_step_code [OF B0 n] sy by simp
  qed
  then have "reads (bnd readBit f) ([bit B (L - Suc n)] @ word_bits (L - Suc n) (word_of_int B)) i"
    by (rule reads_bnd [OF reads_readBit])
  moreover have "word_bits (L - n) (word_of_int B) = [bit B (L - Suc n)] @ word_bits (L - Suc n) (word_of_int B)"
    unfolding L word_bits_simps bb by simp
  ultimately show ?case unfolding L_def [symmetric] B_def [symmetric] vlc_read_loop.simps f_def [symmetric] by simp
qed

lemma foldl_max: "x = a \<or> x \<in> set xs \<Longrightarrow> x \<le> foldl (\<lambda>m len. if len > m then len else m) a xs" for a :: nat
proof (induction xs arbitrary: a x)
  case (Cons y ys)
  show ?case
  proof (cases "x \<in> set ys")
    case True
    then show ?thesis using Cons.IH [of x "if y > a then y else a"] by simp
  next
    case False
    then show ?thesis using Cons.prems Cons.IH [of "if y > a then y else a" "if y > a then y else a"] by (auto split: if_splits)
  qed
qed simp

lemma reads_vlc:
  assumes "vlc_ok vlc" "vlc_has vlc i"
  shows "reads (vlc_read vlc) (vlc_code vlc i) i"
proof -
  have d: "0 \<le> vl_bits vlc ! i" "vl_bits vlc ! i < 2 ^ (vl_length vlc ! i)" by (rule vlc_hasD [OF assms])+
  have "0 < vl_length vlc ! i" "vl_length vlc ! i \<in> set (vl_length vlc)" using assms(2) by (simp_all add: vlc_has_def)
  moreover have "vl_bits vlc ! i div 2 ^ (vl_length vlc ! i) = 0" using d by simp
  ultimately show ?thesis
    using reads_vlc_loop [OF assms, of 0] foldl_max [of "vl_length vlc ! i" "vl_maxLen vlc" "vl_length vlc"]
    unfolding vlc_read_def Let_def vlc_code_def by simp
qed

lemma writes_vlc:
  assumes "vlc_ok vlc" "vlc_has vlc i"
  shows "writes (vlc_write vlc (int i)) (vlc_code vlc i)"
proof -
  have "unat (word_of_nat (vl_length vlc ! i) :: u32) = vl_length vlc ! i"
    using vlc_hasD(3) [OF assms] by (simp add: unat_of_nat)
  moreover have "unat (word_of_nat (vl_length vlc ! i) :: u32) \<le> 32" using calculation vlc_hasD(3) [OF assms] by simp
  ultimately show ?thesis
    using writes_WriteBits [of "word_of_nat (vl_length vlc ! i)" "word_of_int (vl_bits vlc ! i)"] assms(2)
    by (simp add: vlc_write_def vlc_code_def vlc_has_def)
qed

lemma vlc_write_Inr: "vlc_write vlc symbol bw = (Inr (), bw') \<Longrightarrow> vlc_has vlc (nat symbol) \<and> symbol = int (nat symbol)"
  by (auto simp: vlc_write_def vlc_has_def fail_def Let_def split: if_splits)

section \<open>The codes of the residual syntax\<close>

lemma token_vlc_ok: "coeffTokenVLC nC = Inr vlc \<Longrightarrow> vlc_ok vlc"
proof -
  assume v: "coeffTokenVLC nC = Inr vlc"
  have t: "list_all (\<lambda>t. t < 4) cavlcCoeffTokenTableIndex" "length cavlcCoeffTokenLen = 4" "length cavlcCoeffTokenBits = 4" by code_simp+
  have n: "nat nC < length cavlcCoeffTokenTableIndex" using v by (auto simp: coeffTokenVLC_def split: if_splits)
  define k where "k = cavlcCoeffTokenTableIndex ! nat nC"
  have k: "k < 4" using t(1) n by (simp add: list_all_length k_def)
  have "vlc = \<lparr>vl_length = cavlcCoeffTokenLen ! k, vl_bits = cavlcCoeffTokenBits ! k, vl_maxLen = 8\<rparr>"
    using v by (auto simp: coeffTokenVLC_def Let_def k_def split: if_splits)
  then show ?thesis using codes_ok(3) [of 8] k t by (auto simp: list_all_length)
qed

lemma total_zeros_vlc_ok: "1 \<le> tc \<Longrightarrow> tc < mc \<Longrightarrow> mc \<le> 16 \<Longrightarrow> vlc_ok (total_zeros_vlc tc mc)"
proof -
  assume h: "1 \<le> tc" "tc < mc" "mc \<le> 16"
  have l: "length cavlcTotalZerosLen = 16" "length cavlcTotalZerosBits = 16" "length cavlcChromaDCTotalZerosLen = 3"
    "length cavlcChromaDCTotalZerosBits = 3" "length cavlcChroma422DCTotalZerosLen = 7" "length cavlcChroma422DCTotalZerosBits = 7"
    by code_simp+
  show ?thesis
    using h codes_ok(4) [of 9] codes_ok(5) [of 3] codes_ok(6) [of 5] by (auto simp: total_zeros_vlc_def Let_def list_all_length l)
qed

lemma run_before_vlc_ok: "1 \<le> z \<Longrightarrow> vlc_ok (run_before_vlc z)"
proof -
  assume h: "1 \<le> z"
  have l: "length cavlcRunLen = 7" "length cavlcRunBits = 7" by code_simp+
  show ?thesis using h codes_ok(7) [of 3] codes_ok(7) [of 6] by (auto simp: run_before_vlc_def list_all_length l)
qed

lemma lift_bnd_simps [simp]: "bnd (lift (Inr v)) f = f v" "bnd (lift (Inl e)) f = fail e"
  by (simp_all add: bnd_def lift_def fail_def fun_eq_iff)

lemma symbol_or: "0 \<le> tc \<Longrightarrow> 0 \<le> t1 \<Longrightarrow> t1 \<le> 3 \<Longrightarrow> push_bit 2 tc OR t1 = 4 * tc + t1" for tc t1 :: int
proof -
  assume h: "0 \<le> tc" "0 \<le> t1" "t1 \<le> 3"
  have "push_bit 2 tc AND t1 = push_bit 2 tc AND take_bit 2 t1" using h by (simp add: take_bit_int_eq_self)
  also have "\<dots> = 0" by (rule bit_eqI) (auto simp: bit_simps)
  finally have "push_bit 2 tc OR t1 = push_bit 2 tc + t1" by (simp add: disjunctive_add_eq_or)
  then show ?thesis by (simp add: push_bit_eq_mult)
qed

lemma coeffToken_code:
  assumes "writeCAVLCCoeffToken tc t1 nC mc bw = (Inr (), bw')"
  shows "\<exists>code. writes (writeCAVLCCoeffToken tc t1 nC mc) code
    \<and> reads (readCAVLCCoeffToken nC mc :: ('z bitReader_scheme, nat) go) code (nat (4 * tc + t1))"
    "0 \<le> t1 \<and> t1 \<le> 3 \<and> t1 \<le> tc \<and> tc \<le> mc \<and> mc \<le> 16"
proof -
  have c: "0 < mc" "mc \<le> 16" "0 \<le> tc" "tc \<le> mc" "0 \<le> t1" "t1 \<le> 3" "t1 \<le> tc"
    using assms by (auto simp: writeCAVLCCoeffToken_def fail_def split: if_splits)
  then show "0 \<le> t1 \<and> t1 \<le> 3 \<and> t1 \<le> tc \<and> tc \<le> mc \<and> mc \<le> 16" by simp
  obtain vlc where v: "vlc_ok vlc" "writeCAVLCCoeffToken tc t1 nC mc = vlc_write vlc (4 * tc + t1)"
    "(readCAVLCCoeffToken nC mc :: ('z bitReader_scheme, nat) go) = vlc_read vlc"
  proof (cases "mc \<le> 8")
    case True
    then show ?thesis
      using c codes_ok(1,2) by (intro that [of "if mc = 4 then chroma_dc_token_vlc else chroma422_dc_token_vlc"])
        (auto simp: writeCAVLCCoeffToken_def readCAVLCCoeffToken_def symbol_or)
  next
    case False
    then obtain vlc where "coeffTokenVLC nC = Inr vlc"
      using assms c by (cases "coeffTokenVLC nC") (auto simp: writeCAVLCCoeffToken_def fail_def)
    then show ?thesis
      using False c by (intro that [of vlc] token_vlc_ok) (auto simp: writeCAVLCCoeffToken_def readCAVLCCoeffToken_def symbol_or)
  qed
  have h: "vlc_has vlc (nat (4 * tc + t1))" using vlc_write_Inr assms unfolding v(2) by blast
  show "\<exists>code. writes (writeCAVLCCoeffToken tc t1 nC mc) code
    \<and> reads (readCAVLCCoeffToken nC mc :: ('z bitReader_scheme, nat) go) code (nat (4 * tc + t1))"
    using writes_vlc [OF v(1) h] reads_vlc [OF v(1) h] c unfolding v(2,3) by auto
qed

lemma totalZeros_code:
  assumes "writeCAVLCTotalZeros z tc mc bw = (Inr (), bw')"
  shows "\<exists>code. writes (writeCAVLCTotalZeros z tc mc) code
    \<and> reads (readCAVLCTotalZeros tc mc :: ('z bitReader_scheme, nat) go) code (nat z)"
proof -
  have c: "1 \<le> tc" "tc \<le> mc" "mc \<le> 16" "0 \<le> z"
    using assms by (auto simp: writeCAVLCTotalZeros_def fail_def split: if_splits)
  show ?thesis
  proof (cases "tc = mc")
    case True
    then show ?thesis using assms c by (auto simp: writeCAVLCTotalZeros_def readCAVLCTotalZeros_def fail_def split: if_splits)
  next
    case False
    then have w: "writeCAVLCTotalZeros z tc mc = vlc_write (total_zeros_vlc tc mc) z"
      "(readCAVLCTotalZeros tc mc :: ('z bitReader_scheme, nat) go) = vlc_read (total_zeros_vlc tc mc)"
      using assms c by (auto simp: writeCAVLCTotalZeros_def readCAVLCTotalZeros_def fail_def split: if_splits)
    have v: "vlc_ok (total_zeros_vlc tc mc)" using c False by (intro total_zeros_vlc_ok) auto
    have h: "vlc_has (total_zeros_vlc tc mc) (nat z)" using vlc_write_Inr assms unfolding w(1) by blast
    show ?thesis using writes_vlc [OF v h] reads_vlc [OF v h] c unfolding w by auto
  qed
qed

lemma runBefore_code:
  assumes "writeCAVLCRunBefore r z bw = (Inr (), bw')"
  shows "\<exists>code. writes (writeCAVLCRunBefore r z) code
    \<and> reads (readCAVLCRunBefore z :: ('z bitReader_scheme, nat) go) code (nat r)"
    "0 \<le> r \<and> r \<le> z \<and> 1 \<le> z"
proof -
  have c: "1 \<le> z" "0 \<le> r" "r \<le> z"
    using assms by (auto simp: writeCAVLCRunBefore_def fail_def split: if_splits)
  then show "0 \<le> r \<and> r \<le> z \<and> 1 \<le> z" by simp
  have w: "writeCAVLCRunBefore r z = vlc_write (run_before_vlc z) r"
    "(readCAVLCRunBefore z :: ('z bitReader_scheme, nat) go) = vlc_read (run_before_vlc z)"
    using c by (simp_all add: writeCAVLCRunBefore_def readCAVLCRunBefore_def)
  have v: "vlc_ok (run_before_vlc z)" using c by (intro run_before_vlc_ok)
  have h: "vlc_has (run_before_vlc z) (nat r)" using vlc_write_Inr assms unfolding w(1) by blast
  show "\<exists>code. writes (writeCAVLCRunBefore r z) code
    \<and> reads (readCAVLCRunBefore z :: ('z bitReader_scheme, nat) go) code (nat r)"
    using writes_vlc [OF v h] reads_vlc [OF v h] c unfolding w by auto
qed

end
