(* ===== verification/Cavlc_Levels.thy ===== *)
theory Cavlc_Levels
  imports Cavlc_Codes
begin

unbundle bit_operations_syntax

text \<open>
  The levels of a CAVLC residual (\<open>cavlc.go\<close>): the table-driven reader, its table, and the writers of
  first and later levels. The reader is the standard's (9.2.2.1), and reads what the writers write.
\<close>

section \<open>The table of short levels\<close>

definition i8 :: "int \<Rightarrow> int" where
  "i8 x = (x + 128) mod 256 - 128"

text \<open>\<open>mask := -(levelCode & 1); (((2 + levelCode) >> 1) ^ mask) - mask\<close>.\<close>

definition level_sign :: "int \<Rightarrow> int" where
  "level_sign levelCode = (let mask = - (levelCode AND 1) in (drop_bit 1 (2 + levelCode) XOR mask) - mask)"

definition cavlc_level_entry :: "nat \<Rightarrow> u32 \<Rightarrow> int \<times> int" where
  "cavlc_level_entry suffixLength i =
     (let prefix = 8 - avLog2 (2 * i) in
      if prefix + 1 + int suffixLength \<le> 8 then
        let levelCode = push_bit suffixLength prefix
              + int (unat (drop_bit (nat (avLog2 i - int suffixLength)) i)) - push_bit suffixLength 1
        in (i8 (level_sign levelCode), i8 (prefix + 1 + int suffixLength))
      else if prefix + 1 \<le> 8 then (i8 (prefix + 100), i8 (prefix + 1))
      else (108, 8))"

definition initCAVLCLevelTable :: "(int \<times> int) list list" where
  "initCAVLCLevelTable = map (\<lambda>s. map (\<lambda>i. cavlc_level_entry s (word_of_nat i)) [0..<256]) [0..<7]"

definition level_table_at :: "nat \<Rightarrow> u32 \<Rightarrow> (int \<times> int) result" where
  "level_table_at suffixLength bitsi = rbind (idx initCAVLCLevelTable suffixLength) (\<lambda>row. idx row (unat bitsi))"

section \<open>The reader\<close>

text \<open>The loop that counts zeros up to a one, or to the end of the data.\<close>

lemma i32_cong: "x mod 4294967296 = y mod 4294967296 \<Longrightarrow> i32 x = i32 y"
  unfolding i32_def by (simp add: mod_add_cong)

lemma bitsLeft_next:
  assumes "\<not> gb_invalid gb" "1 \<le> bitsLeft gb"
  shows "bitsLeft (gb\<lparr>gb_bitPos := gb_bitPos gb + 1\<rparr>) = bitsLeft gb - 1"
proof -
  have w: "i32_of (p + 1) mod 4294967296 = (i32_of p + 1) mod 4294967296" for p :: u32
  proof -
    have "(word_of_int (i32_of (p + 1)) :: u32) = word_of_int (i32_of p + 1)" by (simp add: i32_of_def)
    then show ?thesis by (simp only: word_of_int_eq_iff take_bit_eq_mod) simp
  qed
  define a where "a = i32_of (gb_numBits gb)"
  define b where "b = i32_of (gb_bitPos gb)"
  have l: "bitsLeft gb = i32 (a - b)" using assms(1) by (simp add: bitsLeft_def a_def b_def)
  have "(a - i32_of (gb_bitPos gb + 1)) mod 4294967296 = (a - b - 1) mod 4294967296"
    using mod_diff_cong [OF refl w [of "gb_bitPos gb"], of a] by (simp add: b_def algebra_simps)
  then have "i32 (a - i32_of (gb_bitPos gb + 1)) = i32 (a - b - 1)" by (rule i32_cong)
  then have n: "bitsLeft (gb\<lparr>gb_bitPos := gb_bitPos gb + 1\<rparr>) = i32 (a - b - 1)"
    using assms(1) by (simp add: bitsLeft_def a_def)
  have "(a - b - 1) mod 4294967296 = (i32 (a - b) - 1) mod 4294967296"
    unfolding i32_def diff_diff_eq mod_diff_left_eq by (simp add: algebra_simps)
  then have "i32 (a - b - 1) = i32 (i32 (a - b) - 1)" by (rule i32_cong)
  also have "\<dots> = i32 (a - b) - 1" using assms(2) i32_range(2) [of "a - b"] unfolding l by (intro i32_id) simp_all
  finally show ?thesis unfolding l n .
qed

function level_prefix_loop :: "nat \<Rightarrow> ('z bitReader_scheme, nat) go" where
  "level_prefix_loop prefix gb = (case readBit gb of
     (Inl e, gb') \<Rightarrow> (Inl e, gb')
   | (Inr b, gb') \<Rightarrow> if b \<noteq> 0 then (Inr prefix, gb') else level_prefix_loop (prefix + 1) gb')"
  by pat_completeness auto
termination
proof (relation "measure (\<lambda>(_, gb). nat (bitsLeft gb))")
  fix prefix :: nat and gb gb' :: "'z bitReader_scheme" and r b
  assume h: "(r, gb') = readBit gb" "r = Inr b"
  then have v: "\<not> gb_invalid gb" "1 \<le> bitsLeft gb" "gb' = gb\<lparr>gb_bitPos := gb_bitPos gb + 1\<rparr>"
    by (auto simp: readBit_def split: if_splits)
  then show "((prefix + 1, gb'), prefix, gb) \<in> measure (\<lambda>(_, gb). nat (bitsLeft gb))"
    using bitsLeft_next [OF v(1,2)] by simp
qed simp

declare level_prefix_loop.simps [simp del]

definition readCAVLCLevelPrefix :: "('z bitReader_scheme, nat) go" where
  "readCAVLCLevelPrefix = level_prefix_loop 0"

text \<open>The lookup of the next eight bits, and the rest of a prefix that is longer than that.\<close>

definition level_lookup :: "nat \<Rightarrow> ('z bitReader_scheme, int) go" where
  "level_lookup suffixLength = bnd (\<lambda>gb. (showBitsPadded 8 gb, gb)) (\<lambda>bitsi.
     bnd (lift (level_table_at suffixLength bitsi)) (\<lambda>(levelCode, n).
     thn (skipBits (u32_of n)) (ret levelCode)))"

definition escape_prefix :: "int \<Rightarrow> ('z bitReader_scheme, int) go" where
  "escape_prefix levelCode =
     (let prefix = levelCode - 100 in
      if prefix = 8 then bnd readCAVLCLevelPrefix (\<lambda>extraPrefix. ret (prefix + int extraPrefix)) else ret prefix)"

text \<open>The code of a level with a prefix of 15 or more: at most 28, so nothing here leaves an \<open>int32\<close>.\<close>

definition long_code :: "int \<Rightarrow> int \<Rightarrow> ('z bitReader_scheme, int) go" where
  "long_code base prefix =
     (if prefix \<ge> 16 \<and> prefix > 25 + 3 then fail ErrInvalidData
      else let levelCode = (if prefix \<ge> 16 then base + (push_bit (nat (prefix - 3)) 1 - 4096) else base)
      in bnd (readBits (u32_of (prefix - 3))) (\<lambda>bits. ret (levelCode + i32_of bits)))"

definition first_code :: "nat \<Rightarrow> int \<Rightarrow> ('z bitReader_scheme, int) go" where
  "first_code suffixLength prefix =
     (if prefix < 14 then
        (if suffixLength \<noteq> 0 then bnd readBit (\<lambda>bit. ret (push_bit 1 prefix + i32_of bit)) else ret prefix)
      else if prefix = 14 then
        (if suffixLength \<noteq> 0 then bnd readBit (\<lambda>bit. ret (push_bit 1 prefix + i32_of bit))
         else bnd (readBits 4) (\<lambda>bits. ret (prefix + i32_of bits)))
      else long_code 30 prefix)"

definition first_level :: "nat \<Rightarrow> int \<Rightarrow> ('z bitReader_scheme, int \<times> nat) go" where
  "first_level suffixLength trailingOnes = bnd (level_lookup suffixLength) (\<lambda>levelCode.
     if levelCode \<ge> 100 then
       bnd (escape_prefix levelCode) (\<lambda>prefix. bnd (first_code suffixLength prefix) (\<lambda>levelCode.
       ret (level_sign (if trailingOnes < 3 then levelCode + 2 else levelCode), 2)))
     else
       let levelCode = (if trailingOnes < 3 then levelCode + (drop_bit 31 levelCode OR 1) else levelCode)
       in ret (levelCode, if u32_of levelCode + 3 > 6 then 2 else 1))"

definition suffixLimit :: "u32 list" where
  "suffixLimit = [0, 3, 6, 12, 24, 48, 0x7fffffff]"

definition next_suffix :: "nat \<Rightarrow> int \<Rightarrow> nat" where
  "next_suffix suffixLength level =
     (let limit = suffixLimit ! suffixLength in
      if u32_of level + limit > 2 * limit \<and> suffixLength < 6 then suffixLength + 1 else suffixLength)"

definition next_code :: "nat \<Rightarrow> int \<Rightarrow> ('z bitReader_scheme, int) go" where
  "next_code suffixLength prefix =
     (if prefix < 15 then bnd (readBits (word_of_nat suffixLength)) (\<lambda>bits. ret (push_bit suffixLength prefix + i32_of bits))
      else long_code (push_bit suffixLength 15) prefix)"

definition next_level :: "nat \<Rightarrow> ('z bitReader_scheme, int) go" where
  "next_level suffixLength = bnd (level_lookup suffixLength) (\<lambda>levelCode.
     if levelCode \<ge> 100 then
       bnd (escape_prefix levelCode) (\<lambda>prefix. bnd (next_code suffixLength prefix) (\<lambda>levelCode. ret (level_sign levelCode)))
     else ret levelCode)"

fun levels_loop :: "nat list \<Rightarrow> nat \<Rightarrow> int list \<Rightarrow> ('z bitReader_scheme, int list) go" where
  "levels_loop [] suffixLength level = ret level"
| "levels_loop (i # is) suffixLength level =
     bnd (next_level suffixLength) (\<lambda>v. bnd (lift (set_idx level i v)) (levels_loop is (next_suffix suffixLength v)))"

fun signs_loop :: "nat list \<Rightarrow> int list \<Rightarrow> ('z bitReader_scheme, int list) go" where
  "signs_loop [] level = ret level"
| "signs_loop (i # is) level = bnd readBit (\<lambda>sign. bnd (lift (set_idx level i (if sign = 0 then 1 else - 1))) (signs_loop is))"

definition readCAVLCLevels :: "int \<Rightarrow> int \<Rightarrow> ('z bitReader_scheme, int list) go" where
  "readCAVLCLevels totalCoeff trailingOnes =
     (if totalCoeff \<le> 0 \<or> totalCoeff > 16 \<or> trailingOnes < 0 \<or> trailingOnes > 3 \<or> trailingOnes > totalCoeff
      then fail ErrInvalidData
      else bnd (signs_loop [0..<nat trailingOnes] (replicate 16 0)) (\<lambda>level.
        if trailingOnes < totalCoeff then
          bnd (first_level (if totalCoeff > 10 \<and> trailingOnes < 3 then 1 else 0) trailingOnes) (\<lambda>(v, suffixLength).
          bnd (lift (set_idx level (nat trailingOnes) v)) (levels_loop [nat trailingOnes + 1..<nat totalCoeff] suffixLength))
        else ret level))"

section \<open>The writers\<close>

fun write_suffix :: "int \<Rightarrow> nat \<Rightarrow> (bitWriter, unit) go" where
  "write_suffix suffix 0 = ret ()"
| "write_suffix suffix (Suc i) = thn (WriteBit (u32_of (drop_bit i suffix AND 1))) (write_suffix suffix i)"

definition cavlcLevelCode :: "int \<Rightarrow> int result" where
  "cavlcLevelCode level =
     (if level = 0 then Inl ErrInvalidData
      else let code = (if level < 0 then i32 (- level) * 2 - 1 else level * 2 - 2) in
      if code < 0 then Inl ErrInvalidData else Inr code)"

definition cavlcFirstLevelCode :: "int \<Rightarrow> int result" where
  "cavlcFirstLevelCode level =
     (if level = 0 \<or> level = 1 \<or> level = - 1 then Inl ErrInvalidData
      else cavlcLevelCode (if level < 0 then i32 (level + 1) else i32 (level - 1)))"

definition cavlcSuffixLengthAfterFirstLevel :: "int \<Rightarrow> int \<Rightarrow> nat" where
  "cavlcSuffixLengthAfterFirstLevel level code =
     (if code \<ge> 14 then 2 else if u32_of level + 3 > 6 then 2 else 1)"

definition cavlcSuffixLengthAfterSubsequentLevel :: "int \<Rightarrow> nat \<Rightarrow> nat" where
  "cavlcSuffixLengthAfterSubsequentLevel level suffixLength =
     (if suffixLength \<ge> 7 then suffixLength else next_suffix suffixLength level)"

definition writeCAVLCSubsequentLevel :: "int \<Rightarrow> nat \<Rightarrow> (bitWriter, unit) go" where
  "writeCAVLCSubsequentLevel level suffixLength =
     (if level = 0 \<or> suffixLength < 1 \<or> suffixLength > 6 then fail ErrInvalidData
      else let code = (if level < 0 then i32 (- level) * 2 - 1 else level * 2 - 2); prefix = drop_bit suffixLength code in
      if code < 0 \<or> prefix \<ge> 15 then fail ErrInvalidData
      else thn (write_zeros (nat prefix)) (thn (WriteBit 1)
        (write_suffix (code AND (push_bit suffixLength 1 - 1)) suffixLength)))"

definition writeCAVLCLevelCode :: "int \<Rightarrow> (bitWriter, unit) go" where
  "writeCAVLCLevelCode code =
     (if code < 0 then fail ErrInvalidData
      else let (prefix, suffix, suffixBits) =
          (if code \<ge> 30 then (15, code - 30, 12) else if code \<ge> 14 then (14, code - 14, 4) else (code, 0, 0)) in
      if code \<ge> 30 \<and> suffix > 0xfff then fail ErrInvalidData
      else thn (write_zeros (nat prefix)) (thn (WriteBit 1) (write_suffix suffix suffixBits)))"

definition writeCAVLCFirstLevelWithSuffix :: "int \<Rightarrow> nat \<Rightarrow> (bitWriter, nat) go" where
  "writeCAVLCFirstLevelWithSuffix level suffixLength =
     (if level = 0 \<or> level = 1 \<or> level = - 1 \<or> suffixLength > 1 then fail ErrInvalidData
      else bnd (lift (cavlcFirstLevelCode level)) (\<lambda>code.
        thn (if suffixLength = 0 then writeCAVLCLevelCode code
             else writeCAVLCSubsequentLevel (if level < 0 then i32 (level + 1) else i32 (level - 1)) suffixLength)
          (ret (cavlcSuffixLengthAfterFirstLevel level code))))"

definition writeCAVLCFirstLevelWithTrailingOnes :: "int \<Rightarrow> nat \<Rightarrow> int \<Rightarrow> (bitWriter, nat) go" where
  "writeCAVLCFirstLevelWithTrailingOnes level suffixLength trailingOnes =
     (if trailingOnes < 0 \<or> trailingOnes > 3 then fail ErrInvalidData
      else if trailingOnes < 3 then writeCAVLCFirstLevelWithSuffix level suffixLength
      else if level = 0 \<or> suffixLength \<noteq> 0 then fail ErrInvalidData
      else bnd (lift (cavlcLevelCode level)) (\<lambda>code.
        thn (writeCAVLCLevelCode code) (ret (cavlcSuffixLengthAfterFirstLevel level code))))"

definition writeCAVLCFirstLevel :: "int \<Rightarrow> (bitWriter, unit) go" where
  "writeCAVLCFirstLevel level =
     (if level = 0 \<or> level = 1 \<or> level = - 1 then fail ErrInvalidData
      else bnd (writeCAVLCFirstLevelWithSuffix level 0) (\<lambda>_. ret ()))"

section \<open>The levels of the standard (9.2.2.1)\<close>

definition read_n :: "nat \<Rightarrow> ('z bitReader_scheme, u32) go" where
  "read_n n = (if n = 0 then ret 0 else readBits (word_of_nat n))"

definition std_levelCode :: "nat \<Rightarrow> ('z bitReader_scheme, int) go" where
  "std_levelCode suffixLength = bnd readCAVLCLevelPrefix (\<lambda>level_prefix.
     if level_prefix > 28 then fail ErrInvalidData
     else let size = (if level_prefix = 14 \<and> suffixLength = 0 then 4 else if level_prefix \<ge> 15 then level_prefix - 3 else suffixLength)
     in bnd (read_n size) (\<lambda>level_suffix.
     ret (int (min 15 level_prefix) * 2 ^ suffixLength + int (unat level_suffix)
       + (if level_prefix \<ge> 15 \<and> suffixLength = 0 then 15 else 0)
       + (if level_prefix \<ge> 16 then 2 ^ (level_prefix - 3) - 4096 else 0))))"

definition std_value :: "int \<Rightarrow> int" where
  "std_value levelCode = (if even levelCode then (levelCode + 2) div 2 else (- levelCode - 1) div 2)"

definition std_suffix :: "nat \<Rightarrow> int \<Rightarrow> nat" where
  "std_suffix suffixLength level =
     (let s = (if suffixLength = 0 then 1 else suffixLength) in if \<bar>level\<bar> > 3 * 2 ^ (s - 1) \<and> s < 6 then s + 1 else s)"

fun std_rest :: "nat \<Rightarrow> nat \<Rightarrow> int \<Rightarrow> ('z bitReader_scheme, int list) go" where
  "std_rest 0 suffixLength add = ret []"
| "std_rest (Suc n) suffixLength add = bnd (std_levelCode suffixLength) (\<lambda>levelCode.
     let v = std_value (levelCode + add) in
     bnd (std_rest n (std_suffix suffixLength v) 0) (\<lambda>vs. ret (v # vs)))"

definition std_sign :: "('z bitReader_scheme, int) go" where
  "std_sign = bnd readBit (\<lambda>sign. ret (1 - 2 * int (unat sign)))"

definition std_levels :: "nat \<Rightarrow> nat \<Rightarrow> ('z bitReader_scheme, int list) go" where
  "std_levels totalCoeff trailingOnes =
     bnd (mapM (\<lambda>_. std_sign) [0..<trailingOnes]) (\<lambda>ones.
     bnd (std_rest (totalCoeff - trailingOnes) (if totalCoeff > 10 \<and> trailingOnes < 3 then 1 else 0) (if trailingOnes < 3 then 2 else 0))
       (\<lambda>vs. ret (ones @ vs)))"

end
