(* ===== verification/Cavlc_Standard.thy ===== *)
theory Cavlc_Standard
  imports Cavlc_Levels
begin

unbundle bit_operations_syntax

text \<open>
  The reader of levels is the standard's: on every reader it returns the levels of 9.2.2.1 and stops at the
  same bit, or both fail. The table of short levels holds what the standard decodes from eight bits.
\<close>

section \<open>Bits ahead\<close>

lemma bits_cases:
  obtains (zeros) "bs = replicate (length bs) False"
  | (one) z rest where "bs = replicate z False @ True # rest"
proof (cases "True \<in> set bs")
  case True
  then obtain ys zs where "bs = ys @ True # zs" "True \<notin> set ys" using split_list_first by metis
  moreover have "ys = replicate (length ys) False" using calculation(2) by (intro replicate_length_same [symmetric]) auto
  ultimately show ?thesis using one by metis
next
  case False
  then have "bs = replicate (length bs) False" by (intro replicate_length_same [symmetric]) auto
  then show ?thesis by (rule zeros)
qed

lemma level_prefix_one:
  assumes "wf_reader gb" "rem_bits gb = replicate n False @ True # rest"
  shows "level_prefix_loop k gb = (Inr (k + n), adv (Suc n) gb)"
  using assms
proof (induction n arbitrary: gb k)
  case 0
  then show ?case by (subst level_prefix_loop.simps) (simp add: readBit_adv)
next
  case (Suc n)
  have w: "wf_reader (adv 1 gb)" "rem_bits (adv 1 gb) = replicate n False @ True # rest"
    using adv_wf [of gb 1] Suc.prems by auto
  have "level_prefix_loop k gb = level_prefix_loop (k + 1) (adv 1 gb)"
    using Suc.prems by (subst level_prefix_loop.simps) (simp add: readBit_adv)
  then show ?case using Suc.IH [OF w] by simp
qed

lemma level_prefix_zeros:
  assumes "wf_reader gb" "rem_bits gb = replicate n False"
  shows "fst (level_prefix_loop k gb) = Inl ErrInvalidData"
  using assms
proof (induction n arbitrary: gb k)
  case 0
  then show ?case by (subst level_prefix_loop.simps) (simp add: readBit_adv)
next
  case (Suc n)
  have w: "wf_reader (adv 1 gb)" "rem_bits (adv 1 gb) = replicate n False"
    using adv_wf [of gb 1] Suc.prems by auto
  have "level_prefix_loop k gb = level_prefix_loop (k + 1) (adv 1 gb)"
    using Suc.prems by (subst level_prefix_loop.simps) (simp add: readBit_adv)
  then show ?case using Suc.IH [OF w] by simp
qed

lemma showBitsPadded_loop_value:
  "unat p + n \<le> 8 * length b \<Longrightarrow> 8 * length b < 2 ^ 31 \<Longrightarrow>
   showBitsPadded_loop b n p (word_of_nat v) = Inr (word_of_nat (v * 2 ^ n + bits_val (take n (drop (unat p) (bytes_bits b)))))"
proof (induction n arbitrary: p v)
  case 0
  then show ?case by simp
next
  case (Suc n)
  have p: "unat p < length (bytes_bits b)" "unat (p + 1) = Suc (unat p)"
    using Suc.prems by (auto simp: unat_word_ariths)
  define x where "x = bytes_bits b ! unat p"
  have d: "drop (unat p) (bytes_bits b) = x # drop (unat (p + 1)) (bytes_bits b)"
    unfolding p(2) x_def by (rule Cons_nth_drop_Suc [symmetric, OF p(1)])
  have "push_bit 1 (word_of_nat v :: u32) OR of_bool x = word_of_nat (2 * v + of_bool x)"
    by (cases x) (simp_all add: push_bit_eq_mult or_one_eq)
  then have "showBitsPadded_loop b (Suc n) p (word_of_nat v) = showBitsPadded_loop b n (p + 1) (word_of_nat (2 * v + of_bool x))"
    using p by (simp add: bit_at_nth x_def)
  also have "\<dots> = Inr (word_of_nat ((2 * v + of_bool x) * 2 ^ n + bits_val (take n (drop (unat (p + 1)) (bytes_bits b)))))"
    using Suc.prems p by (intro Suc.IH) simp_all
  finally show ?case
    using p Suc.prems by (simp add: d bits_val_Cons algebra_simps)
qed

lemma bits_val_zeros: "bits_val (bs @ replicate n False) = bits_val bs * 2 ^ n"
proof -
  have "bits_val (replicate n False) = 0" by (induction n) (simp_all add: bits_val_Cons)
  then show ?thesis by (simp add: bits_val_append)
qed

lemma showBitsPadded_value:
  assumes w: "wf_reader gb"
  shows "showBitsPadded 8 gb = Inr (word_of_nat (bits_val (take 8 (rem_bits gb @ replicate 8 False))))"
proof (cases "gb_invalid gb \<or> bitsLeft gb \<le> 0")
  case True
  then have "rem_bits gb = []" using length_rem_bits [OF w] by (auto simp: rem_bits_def)
  moreover have "showBitsPadded 8 gb = Inr 0" using True by (auto simp: showBitsPadded_def Let_def i32_of_small)
  moreover have "bits_val (replicate 8 False) = 0" using bits_val_zeros [of "[]" 8] by simp
  ultimately show ?thesis by simp
next
  case False
  then have v: "\<not> gb_invalid gb" "0 < bitsLeft gb" by auto
  define l where "l = length (rem_bits gb)"
  have l: "bitsLeft gb = int l" using length_rem_bits [OF w] v by (simp add: l_def)
  have wf: "8 * length (gb_buf gb) < 2 ^ 31" "unat (gb_numBits gb) \<le> 8 * length (gb_buf gb)" using w v by (auto simp: wf_reader_def)
  have ll: "l = unat (gb_numBits gb) - unat (gb_bitPos gb)" "unat (gb_bitPos gb) < unat (gb_numBits gb)"
    using bitsLeft_int [OF w v(1)] l v(2) by linarith+
  define a where "a = min l 8"
  have rb: "take a (rem_bits gb) = take a (drop (unat (gb_bitPos gb)) (bytes_bits (gb_buf gb)))"
    using v(1) ll by (simp add: rem_bits_def drop_take a_def)
  have "unat (gb_bitPos gb) + a \<le> 8 * length (gb_buf gb)" using ll wf by (simp add: a_def)
  note s = showBitsPadded_loop_value [OF this wf(1), of 0]
  have "l < 4294967296" using wf ll by simp
  then have u: "unat (u32_of (int l)) = l" by (simp add: u32_of_def unat_of_nat)
  have i8: "i32_of 8 = 8" by (simp add: i32_of_small)
  have "showBitsPadded 8 gb = rbind (showBitsPadded_loop (gb_buf gb) a (gb_bitPos gb) 0) (\<lambda>out. Inr (push_bit (8 - a) out))"
  proof (cases "l < 8")
    case True
    then have "unat (8 - u32_of (int l)) = 8 - l" by (subst unat_sub) (auto simp: u word_le_nat_alt)
    then show ?thesis using True v l by (simp add: showBitsPadded_def Let_def i8 u a_def)
  next
    case False
    then show ?thesis using v l by (simp add: showBitsPadded_def Let_def i8 a_def)
  qed
  also have "\<dots> = Inr (word_of_nat (bits_val (take a (rem_bits gb)) * 2 ^ (8 - a)))"
    using s by (simp add: rb push_bit_eq_mult)
  also have "take 8 (rem_bits gb @ replicate 8 False) = take a (rem_bits gb) @ replicate (8 - a) False"
    by (auto simp: a_def l_def min_def)
  then have "bits_val (take a (rem_bits gb)) * 2 ^ (8 - a) = bits_val (take 8 (rem_bits gb @ replicate 8 False))"
    by (simp only: bits_val_zeros)
  finally show ?thesis .
qed

lemma skipBits_value:
  assumes "wf_reader gb" "1 \<le> n" "n \<le> 8"
  shows "skipBits (word_of_nat n) gb = (if n \<le> length (rem_bits gb) then (Inr (), adv n gb) else (Inl ErrInvalidData, gb))"
proof -
  have n: "unat (word_of_nat n :: u32) = n" using assms(3) by (simp add: unat_of_nat)
  then have i: "i32_of (word_of_nat n) = int n" using assms(3) by (simp add: i32_of_small)
  show ?thesis
  proof (cases "gb_invalid gb")
    case True
    then show ?thesis using assms(2) by (simp add: skipBits_def rem_bits_def)
  next
    case False
    then show ?thesis using assms(2) by (auto simp: skipBits_def i adv_def length_rem_bits [OF assms(1)])
  qed
qed

section \<open>The table\<close>

lemma avLog2_val: "2 ^ n \<le> x \<Longrightarrow> x < 2 ^ Suc n \<Longrightarrow> n < 31 \<Longrightarrow> avLog2 (word_of_nat x) = int n"
proof -
  assume h: "2 ^ n \<le> x" "x < 2 ^ Suc n" "n < 31"
  have "(2::nat) ^ Suc n \<le> 2 ^ 31" using h(3) by (intro power_increasing) auto
  then have x: "unat (word_of_nat x :: u32) = x" using h(2) by (simp add: unat_of_nat)
  define w :: u32 where "w = word_of_nat x OR 1"
  have w: "unat w = (if even x then x + 1 else x)"
  proof -
    have "unat w = x OR 1" unfolding w_def by (simp only: unsigned_or_eq x unsigned_1)
    then show ?thesis by (simp add: or_Suc_0_eq)
  qed
  have "0 < x" using h(1) by (cases x) auto
  then have "w \<noteq> 0" using w by (auto simp: unat_eq_0 [symmetric] split: if_splits)
  note b = Len32_bounds [OF this]
  have "even x \<Longrightarrow> x + 1 < 2 ^ Suc n" using h(2) by (cases "x + 1 = 2 ^ Suc n") (auto elim: evenE, presburger)
  then have "2 ^ n \<le> unat w" "unat w < 2 ^ Suc n" using h w by auto
  then have "n < Len32 w" "Len32 w - 1 < Suc n"
    using b by (meson le_less_trans power_less_imp_less_exp one_less_numeral_iff semiring_norm(76))+
  then show ?thesis by (simp add: avLog2_def w_def)
qed

lemma level_sign_value: "level_sign c = std_value c"
proof (cases "even c")
  case True
  then show ?thesis by (simp add: level_sign_def std_value_def and_one_eq drop_bit_eq_div add.commute)
next
  case False
  then have "c mod 2 = 1" by presburger
  moreover have "- ((2 + c) div 2) = (- c - 1) div 2" using False by (auto elim!: oddE)
  ultimately show ?thesis using False by (simp add: level_sign_def std_value_def and_one_eq drop_bit_eq_div not_int_def)
qed

text \<open>Eight bits with \<open>z\<close> leading zeros, a one, and the bits \<open>r\<close>.\<close>

lemma std_value_bound: "0 \<le> c \<Longrightarrow> c \<le> 127 \<Longrightarrow> - 64 \<le> std_value c \<and> std_value c \<le> 64"
  by (cases "even c") (auto simp: std_value_def elim!: evenE oddE)

lemma short_bound: "z + 1 + s \<le> 8 \<Longrightarrow> v < 2 ^ s \<Longrightarrow> z * 2 ^ s + v \<le> (127 :: nat)"
proof -
  assume h: "z + 1 + s \<le> 8" "v < 2 ^ s"
  have "z * 2 ^ s + v < (z + 1) * 2 ^ s" using h(2) by simp
  also have "\<dots> \<le> (8 - s) * 2 ^ s" using h(1) by (intro mult_right_mono) auto
  also have "\<dots> \<le> 128"
  proof -
    have "s = 0 \<or> s = 1 \<or> s = 2 \<or> s = 3 \<or> s = 4 \<or> s = 5 \<or> s = 6 \<or> s = 7" using h(1) by linarith
    then show ?thesis by (elim disjE) simp_all
  qed
  finally show ?thesis by linarith
qed

lemma entry_short:
  assumes "z + 1 + s \<le> 8" "r < 2 ^ (7 - z)"
  shows "cavlc_level_entry s (word_of_nat (2 ^ (7 - z) + r))
    = (std_value (int (z * 2 ^ s + r div 2 ^ (7 - z - s))), int (z + 1 + s))"
proof -
  define x where "x = 2 ^ (7 - z) + r"
  have x: "2 ^ (7 - z) \<le> x" "x < 2 ^ Suc (7 - z)" using assms(2) by (simp_all add: x_def)
  have x8: "x < 2 ^ 8"
  proof -
    have "(2::nat) ^ Suc (7 - z) \<le> 2 ^ 8" by (intro power_increasing) auto
    then show ?thesis using x(2) by linarith
  qed
  have l: "avLog2 (word_of_nat x) = int (7 - z)" using x by (intro avLog2_val) auto
  have "avLog2 (word_of_nat (2 * x)) = int (Suc (7 - z))" using x by (intro avLog2_val) auto
  then have l2: "avLog2 (2 * word_of_nat x) = int (8 - z)" using assms(1) by simp
  define j where "j = 7 - z - s"
  have j: "7 - z = s + j" using assms(1) by (simp add: j_def)
  have d: "unat (drop_bit j (word_of_nat x :: u32)) = x div 2 ^ j"
    using x8 by (simp only: unsigned_drop_bit_eq) (simp add: drop_bit_eq_div unat_of_nat take_bit_nat_eq_self)
  have "x div 2 ^ j = 2 ^ s + r div 2 ^ j" unfolding x_def j power_add by (simp add: mult.commute)
  then have c: "push_bit s (int z) + int (unat (drop_bit j (word_of_nat x :: u32))) - push_bit s 1 = int (z * 2 ^ s + r div 2 ^ j)"
    unfolding d by (simp add: push_bit_eq_mult)
  have "int (z * 2 ^ s + r div 2 ^ j) \<le> 127"
  proof -
    have "r < 2 ^ s * 2 ^ j" using assms(2) by (simp add: j power_add)
    then have "r div 2 ^ j < 2 ^ s" by (simp add: less_mult_imp_div_less)
    then have "z * 2 ^ s + r div 2 ^ j \<le> 127" using assms(1) by (intro short_bound)
    then have "int (z * 2 ^ s + r div 2 ^ j) \<le> int 127" by (simp only: of_nat_le_iff)
    then show ?thesis by simp
  qed
  then have b: "- 128 \<le> std_value (int (z * 2 ^ s + r div 2 ^ j))" "std_value (int (z * 2 ^ s + r div 2 ^ j)) \<le> 127"
    using std_value_bound [of "int (z * 2 ^ s + r div 2 ^ j)"] by auto
  have i8: "i8 y = y" if "- 128 \<le> y" "y \<le> 127" for y using that by (simp add: i8_def)
  have p: "8 - int (8 - z) = int z" "nat (int (7 - z) - int s) = j" using assms(1) by (simp_all add: j_def)
  show ?thesis
    unfolding cavlc_level_entry_def Let_def x_def [symmetric] l l2 p c level_sign_value j_def [symmetric]
    using assms(1) b by (simp add: i8)
qed

lemma entry_prefix:
  assumes "z \<le> 7" "8 < z + 1 + s" "r < 2 ^ (7 - z)"
  shows "cavlc_level_entry s (word_of_nat (2 ^ (7 - z) + r)) = (int z + 100, int z + 1)"
proof -
  define x where "x = 2 ^ (7 - z) + r"
  have x: "2 ^ (7 - z) \<le> x" "x < 2 ^ Suc (7 - z)" using assms(3) by (simp_all add: x_def)
  have "avLog2 (word_of_nat (2 * x)) = int (Suc (7 - z))" using x by (intro avLog2_val) auto
  then have l2: "avLog2 (2 * word_of_nat x) = int (8 - z)" using assms(1) by simp
  show ?thesis
    unfolding cavlc_level_entry_def Let_def x_def [symmetric] l2 using assms by (simp add: i8_def)
qed

lemma entry_zero: "cavlc_level_entry s 0 = (108, 8)"
proof -
  have "avLog2 0 = 0" by (simp add: avLog2_def Len32.simps [of 1] Len32.simps [of 0])
  then show ?thesis by (simp add: cavlc_level_entry_def)
qed

lemma level_table_entry: "s < 7 \<Longrightarrow> x < 256 \<Longrightarrow> level_table_at s (word_of_nat x) = Inr (cavlc_level_entry s (word_of_nat x))"
  by (simp add: level_table_at_def initCAVLCLevelTable_def unat_of_nat)

section \<open>Readers that agree\<close>

definition agrees :: "('z bitReader_scheme, 'a) go \<Rightarrow> ('z bitReader_scheme, 'a) go \<Rightarrow> bool" where
  "agrees m m' \<longleftrightarrow> (\<forall>gb. wf_reader gb \<longrightarrow>
     (\<exists>v gb'. m gb = (Inr v, gb') \<and> m' gb = (Inr v, gb') \<and> wf_reader gb')
     \<or> fst (m gb) = Inl ErrInvalidData \<and> fst (m' gb) = Inl ErrInvalidData)"

lemma agrees_bnd_of:
  fixes m :: "('z bitReader_scheme, 'a) go"
  assumes "agrees m m'" "\<And>gb v gb'. m' gb = (Inr v, gb') \<Longrightarrow> agrees (f v) (f' v)"
  shows "agrees (bnd m f) (bnd m' f')"
  unfolding agrees_def
proof (intro allI impI)
  fix gb :: "'z bitReader_scheme"
  assume "wf_reader gb"
  then consider (ok) v gb' where "m gb = (Inr v, gb')" "m' gb = (Inr v, gb')" "wf_reader gb'"
    | (err) "fst (m gb) = Inl ErrInvalidData" "fst (m' gb) = Inl ErrInvalidData"
    using assms(1) unfolding agrees_def by blast
  then show "(\<exists>v gb'. bnd m f gb = (Inr v, gb') \<and> bnd m' f' gb = (Inr v, gb') \<and> wf_reader gb')
     \<or> fst (bnd m f gb) = Inl ErrInvalidData \<and> fst (bnd m' f' gb) = Inl ErrInvalidData"
  proof cases
    case ok
    then show ?thesis using assms(2) [OF ok(2)] unfolding agrees_def bnd_def by simp
  next
    case err
    then show ?thesis by (cases "m gb"; cases "m' gb") (simp add: bnd_def)
  qed
qed

lemma agrees_bnd: "agrees m m' \<Longrightarrow> (\<And>v. agrees (f v) (f' v)) \<Longrightarrow> agrees (bnd m f) (bnd m' f')"
  by (rule agrees_bnd_of)

lemma agrees_op:
  fixes m :: "('z bitReader_scheme, 'a) go"
  assumes r: "reader_op m R"
  shows "agrees m m"
proof -
  show "agrees m m"
    unfolding agrees_def
  proof (intro allI impI)
    fix gb :: "'z bitReader_scheme"
    assume "wf_reader gb"
    from reader_op.contract [OF r this]
    show "(\<exists>v gb'. m gb = (Inr v, gb') \<and> m gb = (Inr v, gb') \<and> wf_reader gb')
     \<or> fst (m gb) = Inl ErrInvalidData \<and> fst (m gb) = Inl ErrInvalidData"
      by (cases "m gb") (auto simp: wp_def split: sum.splits)
  qed
qed

lemma agrees_ret: "agrees (ret v) (ret v)"
  by (simp add: agrees_def ret_def)

lemma agrees_fail: "agrees (fail ErrInvalidData) (fail ErrInvalidData)"
  by (simp add: agrees_def fail_def)

lemma agrees_trans: "agrees m m' \<Longrightarrow> agrees m' m'' \<Longrightarrow> agrees m m''"
  unfolding agrees_def by (metis fst_conv old.prod.inject sum.inject(2) sum.simps(4))

lemma bits_val_take_split: "n \<le> m \<Longrightarrow> m \<le> length bs \<Longrightarrow> bits_val (take m bs) div 2 ^ (m - n) = bits_val (take n bs)"
proof -
  assume h: "n \<le> m" "m \<le> length bs"
  then have "take m bs = take n bs @ take (m - n) (drop n bs)" by (metis le_add_diff_inverse take_add)
  moreover have "bits_val (take (m - n) (drop n bs)) < 2 ^ (m - n)"
    using bits_val_bound [of "take (m - n) (drop n bs)"] h by simp
  ultimately show ?thesis using h by (simp add: bits_val_append)
qed

lemma read_n_at:
  assumes "wf_reader gb" "n \<le> 28" "0 \<le> bitsLeft gb"
  shows "read_n n gb =
    (if n \<le> length (rem_bits gb) then (Inr (word_of_nat (bits_val (take n (rem_bits gb)))), adv n gb) else (Inl ErrInvalidData, gb))"
proof (cases "n = 0")
  case True
  then show ?thesis by (simp add: read_n_def ret_def)
next
  case False
  have n: "unat (word_of_nat n :: u32) = n" using assms(2) by (simp add: unat_of_nat)
  have "int n \<le> bitsLeft gb \<longleftrightarrow> n \<le> length (rem_bits gb)" using assms(3) by (simp add: length_rem_bits [OF assms(1)] le_nat_iff)
  then show ?thesis using readBits_value [OF assms(1), of "word_of_nat n"] assms(2) False by (simp add: read_n_def n)
qed

lemma adv_left:
  assumes "wf_reader gb" "n \<le> length (rem_bits gb)" "n \<noteq> 0"
  shows "wf_reader (adv n gb)" "rem_bits (adv n gb) = drop n (rem_bits gb)" "0 \<le> bitsLeft (adv n gb)"
proof -
  show "wf_reader (adv n gb)" "rem_bits (adv n gb) = drop n (rem_bits gb)" using adv_wf [OF assms(1,2)] by auto
  have "bitsLeft gb = int (length (rem_bits gb))" using assms by (simp add: length_rem_bits)
  then show "0 \<le> bitsLeft (adv n gb)" using assms(2) by (subst bitsLeft_adv [OF assms(1)]) simp_all
qed

text \<open>The lookup, and what follows a prefix that the table does not finish.\<close>

lemma level_lookup_agrees:
  fixes E T :: "int \<Rightarrow> ('z bitReader_scheme, 'a) go"
  assumes s: "s \<le> 6" and E: "\<And>p. 8 < p + 1 + s \<Longrightarrow> agrees (E (int p)) (E (int p))" and T: "\<And>v. agrees (T v) (T v)"
  shows "agrees (bnd (level_lookup s) (\<lambda>lc. if lc \<ge> 100 then bnd (escape_prefix lc) E else T lc))
    (bnd readCAVLCLevelPrefix (\<lambda>p. if p + 1 + s \<le> 8 then
       bnd (read_n s) (\<lambda>x. T (std_value (int (p * 2 ^ s) + int (unat x)))) else E (int p)))"
    (is "agrees ?l ?r")
  unfolding agrees_def
proof (intro allI impI)
  fix gb :: "'z bitReader_scheme"
  assume w: "wf_reader gb"
  have agr: "(\<exists>v gb'. ?l gb = (Inr v, gb') \<and> ?r gb = (Inr v, gb') \<and> wf_reader gb')
     \<or> fst (?l gb) = Inl ErrInvalidData \<and> fst (?r gb) = Inl ErrInvalidData"
    if "?l gb = m gb'" "?r gb = m gb'" "wf_reader gb'" "agrees m m" for m gb'
    using that unfolding agrees_def by metis
  define x where "x = bits_val (take 8 (rem_bits gb @ replicate 8 False))"
  have "length (take 8 (rem_bits gb @ replicate 8 False)) = 8" by simp
  then have x: "x < 256" using bits_val_bound [of "take 8 (rem_bits gb @ replicate 8 False)"] by (simp only: x_def) simp
  have sh: "showBitsPadded 8 gb = Inr (word_of_nat x)" using showBitsPadded_value [OF w] by (simp only: x_def)
  have look: "level_lookup s gb = (case cavlc_level_entry s (word_of_nat x) of (lc, n) \<Rightarrow> thn (skipBits (u32_of n)) (ret lc) gb)"
    using s x by (simp add: level_lookup_def bnd_def sh level_table_entry lift_def split: prod.split)
  have eight: "bits_val (replicate n False) = 0" for n using bits_val_zeros [of "[]" n] by simp
  show "(\<exists>v gb'. ?l gb = (Inr v, gb') \<and> ?r gb = (Inr v, gb') \<and> wf_reader gb')
     \<or> fst (?l gb) = Inl ErrInvalidData \<and> fst (?r gb) = Inl ErrInvalidData"
  proof (cases rule: bits_cases [of "rem_bits gb"])
    case zeros
    define n where "n = length (rem_bits gb)"
    have z: "rem_bits gb = replicate n False" using zeros by (simp add: n_def)
    have x0: "x = 0" unfolding x_def z by (simp add: replicate_add [symmetric] eight)
    have r: "fst (?r gb) = Inl ErrInvalidData"
      using level_prefix_zeros [OF w z, of 0] by (cases "level_prefix_loop 0 gb") (simp add: bnd_def readCAVLCLevelPrefix_def)
    have "fst (?l gb) = Inl ErrInvalidData"
    proof (cases "8 \<le> n")
      case True
      then have a: "wf_reader (adv 8 gb)" "rem_bits (adv 8 gb) = replicate (n - 8) False"
        using adv_left [OF w, of 8] z by auto
      have "level_lookup s gb = (Inr 108, adv 8 gb)"
        using True skipBits_value [OF w, of 8] unfolding look x0 by (simp add: entry_zero thn_def bnd_def ret_def u32_of_def n_def)
      then show ?thesis
        using level_prefix_zeros [OF a, of 0] by (cases "level_prefix_loop 0 (adv 8 gb)")
          (simp add: bnd_def escape_prefix_def readCAVLCLevelPrefix_def)
    next
      case False
      have "level_lookup s gb = (Inl ErrInvalidData, gb)"
        using False skipBits_value [OF w, of 8] unfolding look x0 by (simp add: entry_zero thn_def bnd_def u32_of_def n_def)
      then show ?thesis by (simp add: bnd_def)
    qed
    then show ?thesis using r by blast
  next
    case (one z rest)
    have lz: "Suc z \<le> length (rem_bits gb)" using one by simp
    note a = adv_left [OF w lz nat.simps(3)]
    have ar: "rem_bits (adv (Suc z) gb) = rest" using a(2) one by simp
    have r: "?r gb = (if z + 1 + s \<le> 8 then bnd (read_n s) (\<lambda>y. T (std_value (int (z * 2 ^ s) + int (unat y))))
        else E (int z)) (adv (Suc z) gb)"
      using level_prefix_one [OF w one, of 0] by (simp add: bnd_def readCAVLCLevelPrefix_def)
    define y where "y = take (7 - z) (rest @ replicate 8 False)"
    have ly: "length y = 7 - z" by (simp add: y_def)
    have xz: "x = 2 ^ (7 - z) + bits_val y" "bits_val y < 2 ^ (7 - z)" if "z \<le> 7"
    proof -
      have "take 8 (rem_bits gb @ replicate 8 False) = replicate z False @ True # y"
        using that unfolding one y_def by (simp add: take_Cons' min_def)
      then have "x = bits_val (True # y)" unfolding x_def by (simp add: bits_val_append eight)
      then show "x = 2 ^ (7 - z) + bits_val y" by (simp add: bits_val_Cons ly)
      show "bits_val y < 2 ^ (7 - z)" using bits_val_bound [of y] by (simp add: ly)
    qed
    consider (A) "z + 1 + s \<le> 8" | (B) "z \<le> 7" "8 < z + 1 + s" | (C) "8 \<le> z" by linarith
    then show ?thesis
    proof cases
      case A
      define v where "v = bits_val (take s (rest @ replicate 8 False))"
      have "bits_val y div 2 ^ (7 - z - s) = v"
        unfolding y_def v_def using A by (intro bits_val_take_split) auto
      then have look': "level_lookup s gb = thn (skipBits (word_of_nat (z + 1 + s))) (ret (std_value (int (z * 2 ^ s + v)))) gb"
        using look entry_short [OF A xz(2)] A unfolding xz(1) [symmetric] by (simp add: xz u32_of_def)
      have skip: "skipBits (word_of_nat (z + 1 + s)) gb = (if s \<le> length rest then (Inr (), adv (z + 1 + s) gb) else (Inl ErrInvalidData, gb))"
        using skipBits_value [OF w, of "z + 1 + s"] A one by simp
      have rd: "read_n s (adv (Suc z) gb) =
         (if s \<le> length rest then (Inr (word_of_nat (bits_val (take s rest))), adv (z + 1 + s) gb) else (Inl ErrInvalidData, adv (Suc z) gb))"
        using read_n_at [OF a(1) _ a(3), of s] s by (simp add: ar)
      show ?thesis
      proof (cases "s \<le> length rest")
        case True
        have v: "v = bits_val (take s rest)" using True by (simp add: v_def)
        have "v < 2 ^ s" using bits_val_bound [of "take s rest"] True by (simp add: v)
        moreover have "(2::nat) ^ s \<le> 2 ^ 6" using s by (intro power_increasing) auto
        ultimately have uv: "unat (word_of_nat v :: u32) = v" by (simp add: unat_of_nat)
        have "z * 2 ^ s + v \<le> 127" using A \<open>v < 2 ^ s\<close> by (rule short_bound)
        then have "int (z * 2 ^ s + v) \<le> 127" by (simp only: of_nat_le_iff [of _ 127, simplified])
        then have "\<not> std_value (int (z * 2 ^ s + v)) \<ge> 100" using std_value_bound [of "int (z * 2 ^ s + v)"] by auto
        then have "?l gb = T (std_value (int (z * 2 ^ s + v))) (adv (z + 1 + s) gb)"
          using look' skip True by (simp add: bnd_def thn_def ret_def)
        moreover have "?r gb = T (std_value (int (z * 2 ^ s + v))) (adv (z + 1 + s) gb)"
          using r rd A True v uv by (simp add: bnd_def)
        moreover have "wf_reader (adv (z + 1 + s) gb)" using adv_left(1) [OF w, of "z + 1 + s"] True one by simp
        ultimately show ?thesis using agr T by blast
      next
        case False
        then show ?thesis using look' skip r rd A by (simp add: bnd_def thn_def)
      qed
    next
      case B
      have "cavlc_level_entry s (word_of_nat x) = (int z + 100, int z + 1)"
        using entry_prefix [OF B xz(2)] B xz by simp
      then have "level_lookup s gb = (Inr (int z + 100), adv (Suc z) gb)"
        using look skipBits_value [OF w, of "Suc z"] lz B by (simp add: thn_def bnd_def ret_def u32_of_def add.commute)
      then have "?l gb = E (int z) (adv (Suc z) gb)"
        using B by (simp add: bnd_def escape_prefix_def ret_def)
      then show ?thesis using agr [OF _ _ a(1) E [of z]] r B by simp
    next
      case C
      have "x = 0" using C unfolding x_def one by (simp add: eight)
      then have "level_lookup s gb = (Inr 108, adv 8 gb)"
        using look skipBits_value [OF w, of 8] lz C by (simp add: entry_zero thn_def bnd_def ret_def u32_of_def)
      moreover have "wf_reader (adv 8 gb)" "rem_bits (adv 8 gb) = replicate (z - 8) False @ True # rest"
        using adv_left [OF w, of 8] lz C one by auto
      then have "level_prefix_loop 0 (adv 8 gb) = (Inr (z - 8), adv (Suc z) gb)"
        using level_prefix_one [of "adv 8 gb" "z - 8" rest 0] C by simp
      ultimately have "?l gb = E (int z) (adv (Suc z) gb)"
        using C by (simp add: bnd_def escape_prefix_def readCAVLCLevelPrefix_def ret_def)
      then show ?thesis using agr [OF _ _ a(1) E [of z]] r C by simp
    qed
  qed
qed

section \<open>One level\<close>

lemma agrees_range:
  fixes m :: "('z bitReader_scheme, 'a) go"
  assumes r: "reader_op m R" and f: "\<And>v. R v \<Longrightarrow> agrees (f v) (f' v)"
  shows "agrees (bnd m f) (bnd m f')"
  unfolding agrees_def
proof (intro allI impI)
  fix gb :: "'z bitReader_scheme"
  assume "wf_reader gb"
  note c = reader_op.contract [OF r this]
  show "(\<exists>v gb'. bnd m f gb = (Inr v, gb') \<and> bnd m f' gb = (Inr v, gb') \<and> wf_reader gb')
     \<or> fst (bnd m f gb) = Inl ErrInvalidData \<and> fst (bnd m f' gb) = Inl ErrInvalidData"
  proof (cases "m gb")
    case (Pair r gb')
    show ?thesis
    proof (cases r)
      case (Inl e)
      then show ?thesis using c Pair by (simp add: wp_def bnd_def)
    next
      case (Inr v)
      then have "R v" "wf_reader gb'" using c Pair by (auto simp: wp_def)
      then show ?thesis using f [of v] Pair Inr unfolding agrees_def by (simp add: bnd_def)
    qed
  qed
qed

lemma read_n_op: "n \<le> 28 \<Longrightarrow> reader_op (read_n n :: ('z bitReader_scheme, u32) go) (\<lambda>v. unat v < 2 ^ n)"
proof -
  assume n: "n \<le> 28"
  then have u: "unat (word_of_nat n :: u32) = n" by (simp add: unat_of_nat)
  show ?thesis
  proof (cases "n = 0")
    case True
    then show ?thesis unfolding read_n_def by (auto intro: reader_op_ret)
  next
    case False
    then show ?thesis unfolding read_n_def using n readBits_contract [of "word_of_nat n", unfolded u] by simp
  qed
qed

lemma i32_of_bits: "unat v < 2 ^ n \<Longrightarrow> n \<le> 28 \<Longrightarrow> i32_of v = int (unat v)"
proof -
  assume h: "unat v < 2 ^ n" "n \<le> 28"
  have "(2::nat) ^ n \<le> 2 ^ 28" using h(2) by (intro power_increasing) auto
  then show ?thesis using h(1) by (intro i32_of_small) simp
qed

lemma readBits_one: "readBits 1 = (readBit :: ('z bitReader_scheme, u32) go)"
proof
  fix gb :: "'z bitReader_scheme"
  have "i32_of 1 = 1" by (simp add: i32_of_small)
  then show "readBits 1 gb = readBit gb"
    by (auto simp: readBits_def readBit_def bnd_def ret_def split: sum.splits prod.splits)
qed

lemma limit_test:
  assumes "\<bar>v\<bar> < 2 ^ 30" "0 \<le> L" "L < 2 ^ 30"
  shows "u32_of v + word_of_int L > 2 * word_of_int L \<longleftrightarrow> \<bar>v\<bar> > L"
proof -
  have s: "u32_of v + word_of_int L = word_of_int (v + L)" "2 * word_of_int L = (word_of_int (2 * L) :: u32)" by (simp_all add: u32_of_def)
  have r: "uint (word_of_int (2 * L) :: u32) = 2 * L" using assms by (subst word_of_int_inverse [OF refl]) auto
  show ?thesis
  proof (cases "0 \<le> v + L")
    case True
    then have "uint (word_of_int (v + L) :: u32) = v + L" using assms by (subst word_of_int_inverse [OF refl]) auto
    then show ?thesis using True r unfolding s word_less_def by auto
  next
    case False
    have e: "(word_of_int (v + L) :: u32) = word_of_int (v + L + 2 ^ 32)"
      unfolding word_of_int_eq_iff take_bit_eq_mod by simp
    have "uint (word_of_int (v + L + 2 ^ 32) :: u32) = v + L + 2 ^ 32"
      using assms False by (subst word_of_int_inverse [OF refl]) auto
    then have "uint (word_of_int (v + L) :: u32) = v + L + 2 ^ 32" unfolding e .
    then show ?thesis using False r assms unfolding s word_less_def by auto
  qed
qed

lemma next_suffix_std:
  assumes "\<bar>v\<bar> < 2 ^ 30" "1 \<le> s" "s \<le> 6"
  shows "next_suffix s v = std_suffix s v"
proof -
  have "s = 1 \<or> s = 2 \<or> s = 3 \<or> s = 4 \<or> s = 5 \<or> s = 6" using assms by linarith
  then show ?thesis
    using limit_test [OF assms(1), of 3] limit_test [OF assms(1), of 6] limit_test [OF assms(1), of 12]
      limit_test [OF assms(1), of 24] limit_test [OF assms(1), of 48]
    by (elim disjE) (simp_all add: next_suffix_def std_suffix_def suffixLimit_def)
qed

lemma first_suffix_std: "\<bar>v\<bar> < 2 ^ 30 \<Longrightarrow> s \<le> 1 \<Longrightarrow> (if u32_of v + 3 > 6 then 2 else 1) = std_suffix s v"
  using limit_test [of v 3] by (auto simp: std_suffix_def)

definition std_step :: "nat \<Rightarrow> int \<Rightarrow> ('z bitReader_scheme, int \<times> nat) go" where
  "std_step s add = bnd (std_levelCode s) (\<lambda>lc. let v = std_value (lc + add) in ret (v, std_suffix s v))"

lemma bnd_assoc: "bnd (bnd m f) g = bnd m (\<lambda>x. bnd (f x) g)"
  by (auto simp: bnd_def fun_eq_iff split: sum.splits prod.splits)

lemma bnd_cong_of:
  assumes "\<And>gb v gb'. m gb = (Inr v, gb') \<Longrightarrow> f v = g v"
  shows "bnd m f = bnd m g"
proof
  fix gb
  show "bnd m f gb = bnd m g gb" using assms [of gb] by (auto simp: bnd_def split: sum.splits prod.splits)
qed

lemma bnd_ret [simp]: "bnd (ret v) f = f v"
  by (simp add: bnd_def ret_def fun_eq_iff)

lemma bnd_fail [simp]: "bnd (fail e) f = fail e"
  by (simp add: bnd_def fail_def fun_eq_iff)

lemma level_prefix_op: "agrees readCAVLCLevelPrefix (readCAVLCLevelPrefix :: ('z bitReader_scheme, nat) go)"
  unfolding agrees_def
proof (intro allI impI)
  fix gb :: "'z bitReader_scheme"
  assume w: "wf_reader gb"
  show "(\<exists>v gb'. readCAVLCLevelPrefix gb = (Inr v, gb') \<and> readCAVLCLevelPrefix gb = (Inr v, gb') \<and> wf_reader gb')
     \<or> fst (readCAVLCLevelPrefix gb) = Inl ErrInvalidData \<and> fst (readCAVLCLevelPrefix gb) = Inl ErrInvalidData"
  proof (cases rule: bits_cases [of "rem_bits gb"])
    case zeros
    then show ?thesis using level_prefix_zeros [OF w] unfolding readCAVLCLevelPrefix_def by blast
  next
    case (one z rest)
    then show ?thesis using level_prefix_one [OF w one, of 0] adv_left(1) [OF w, of "Suc z"] unfolding readCAVLCLevelPrefix_def by simp
  qed
qed

lemma long_code_std:
  assumes "15 \<le> p" "base = 15 * 2 ^ s + (if s = 0 then 15 else 0)"
    and f: "\<And>c. base \<le> c \<Longrightarrow> c < base + 2 ^ 26 \<Longrightarrow> agrees (f c) (f' c)"
  shows "agrees (bnd (long_code base (int p)) f)
    (if p > 28 then fail ErrInvalidData else bnd (read_n (p - 3)) (\<lambda>x. f' (int (min 15 p) * 2 ^ s + int (unat x)
       + (if p \<ge> 15 \<and> s = 0 then 15 else 0) + (if p \<ge> 16 then 2 ^ (p - 3) - 4096 else 0))))"
proof (cases "p > 28")
  case True
  then show ?thesis by (simp add: long_code_def agrees_fail)
next
  case False
  define e :: int where "e = (if p \<ge> 16 then 2 ^ (p - 3) - 4096 else 0)"
  have pw: "(2::int) ^ (p - 3) \<le> 2 ^ 25" "(2::int) ^ 12 \<le> 2 ^ (p - 3)" using False assms(1) by (intro power_increasing; simp)+
  then have e: "0 \<le> e" "e \<le> 2 ^ 25" by (auto simp: e_def)
  have c: "bnd (long_code base (int p)) f = bnd (read_n (p - 3)) (\<lambda>x. f (base + e + i32_of x))"
  proof -
    have "u32_of (int p - 3) = word_of_nat (p - 3)" using assms(1) by (simp add: u32_of_def of_nat_diff)
    then show ?thesis
      using False assms(1) by (auto simp: long_code_def bnd_assoc read_n_def e_def nat_diff_distrib push_bit_eq_mult)
  qed
  have m: "int (min 15 p) * 2 ^ s + int (unat x) + (if p \<ge> 15 \<and> s = 0 then 15 else 0) + e = base + e + int (unat x)" for x :: u32
    using assms(1) by (simp add: assms(2))
  have "agrees (bnd (read_n (p - 3)) (\<lambda>x. f (base + e + i32_of x))) (bnd (read_n (p - 3)) (\<lambda>x. f' (base + e + int (unat x))))"
  proof (rule agrees_range [OF read_n_op])
    fix x :: u32
    assume x: "unat x < 2 ^ (p - 3)"
    have "int (unat x) < 2 ^ (p - 3)" using x by (metis of_nat_less_iff of_nat_numeral of_nat_power)
    moreover have "(2::int) ^ (p - 3) \<le> 33554432" using pw by simp
    ultimately have "int (unat x) < 33554432" by linarith
    moreover have "e \<le> 33554432" using e(2) by simp
    ultimately have "base \<le> base + e + int (unat x)" "base + e + int (unat x) < base + 2 ^ 26" using e(1) by simp_all
    then show "agrees (f (base + e + i32_of x)) (f' (base + e + int (unat x)))"
      using f i32_of_bits [OF x] False by simp
  qed (use False in simp)
  then show ?thesis using False unfolding c e_def [symmetric] m by simp
qed

lemma std_value_large: "8 \<le> c \<Longrightarrow> 3 < \<bar>std_value c\<bar>"
  by (cases "even c") (auto simp: std_value_def elim!: evenE oddE)

lemma std_value_small: "0 \<le> c \<Longrightarrow> c < 2 ^ 30 \<Longrightarrow> \<bar>std_value c\<bar> < 2 ^ 30"
  by (cases "even c") (auto simp: std_value_def elim!: evenE oddE)

lemma std_value_2: "0 \<le> c \<Longrightarrow> c \<le> 127 \<Longrightarrow> std_value c + (drop_bit 31 (std_value c) OR 1) = std_value (c + 2)"
proof -
  assume c: "0 \<le> c" "c \<le> 127"
  show ?thesis
  proof (cases "even c")
    case True
    then have v: "std_value c = c div 2 + 1" "std_value (c + 2) = c div 2 + 2" by (auto simp: std_value_def)
    have "drop_bit 31 (c div 2 + 1) = 0" using c by (simp add: drop_bit_eq_div)
    then show ?thesis by (simp add: v)
  next
    case False
    then have v: "std_value c = - (c div 2) - 1" "std_value (c + 2) = - (c div 2) - 2" by (auto simp: std_value_def elim!: oddE)
    have "(- (c div 2) - 1) div 2 ^ 31 = - 1" using c by (intro int_div_pos_eq [where r = "2 ^ 31 - c div 2 - 1"]) simp_all
    then show ?thesis by (simp add: v drop_bit_eq_div)
  qed
qed

lemma agrees_self: "agrees m m' \<Longrightarrow> agrees m m"
  unfolding agrees_def by metis

lemma std_suffix_big: "8 \<le> c \<Longrightarrow> s \<le> 1 \<Longrightarrow> std_suffix s (std_value c) = 2"
  using std_value_large [of c] by (auto simp: std_suffix_def)

definition std_after :: "nat \<Rightarrow> int \<Rightarrow> nat \<Rightarrow> ('z bitReader_scheme, int \<times> nat) go" where
  "std_after s add p = (if p > 28 then fail ErrInvalidData
     else bnd (read_n (if p = 14 \<and> s = 0 then 4 else if p \<ge> 15 then p - 3 else s)) (\<lambda>x.
       let v = std_value (int (min 15 p) * 2 ^ s + int (unat x) + (if p \<ge> 15 \<and> s = 0 then 15 else 0)
         + (if p \<ge> 16 then 2 ^ (p - 3) - 4096 else 0) + add) in ret (v, std_suffix s v)))"

lemma std_after_long:
  "15 \<le> p \<Longrightarrow> std_after s add p = (if p > 28 then fail ErrInvalidData
     else bnd (read_n (p - 3)) (\<lambda>x. (\<lambda>c. let v = std_value (c + add) in ret (v, std_suffix s v))
        (int (min 15 p) * 2 ^ s + int (unat x) + (if p \<ge> 15 \<and> s = 0 then 15 else 0) + (if p \<ge> 16 then 2 ^ (p - 3) - 4096 else 0))))"
  unfolding std_after_def by simp

lemma std_step_after:
  "(std_step s add :: ('z bitReader_scheme, int \<times> nat) go) = bnd readCAVLCLevelPrefix (std_after s add)"
proof -
  have "(std_after s add :: nat \<Rightarrow> ('z bitReader_scheme, int \<times> nat) go) = (\<lambda>p. bnd (if p > 28 then fail ErrInvalidData
     else let size = (if p = 14 \<and> s = 0 then 4 else if p \<ge> 15 then p - 3 else s)
     in bnd (read_n size) (\<lambda>x. ret (int (min 15 p) * 2 ^ s + int (unat x)
       + (if p \<ge> 15 \<and> s = 0 then 15 else 0) + (if p \<ge> 16 then 2 ^ (p - 3) - 4096 else 0))))
       (\<lambda>lc. let v = std_value (lc + add) in ret (v, std_suffix s v)))"
    by (rule ext) (simp add: std_after_def bnd_assoc Let_def)
  then show ?thesis unfolding std_step_def std_levelCode_def bnd_assoc by simp
qed

text \<open>A level whose code is short, and one that the table leaves to the code after it.\<close>

lemma short_after:
  assumes "p + 1 + s \<le> 8" and T: "\<And>c. 0 \<le> c \<Longrightarrow> c \<le> 127 \<Longrightarrow> T (std_value c) = ret (std_value (c + add), std_suffix s (std_value (c + add)))"
  shows "agrees (bnd (read_n s) (\<lambda>x. T (std_value (int (p * 2 ^ s) + int (unat x))))) (std_after s add p)"
proof -
  have F: "std_after s add p = bnd (read_n s) (\<lambda>x. let v = std_value (int (p * 2 ^ s) + int (unat x) + add) in ret (v, std_suffix s v))"
    using assms(1) by (simp add: std_after_def)
  show ?thesis
    unfolding F
  proof (rule agrees_range [OF read_n_op])
    fix x :: u32
    assume "unat x < 2 ^ s"
    then have "p * 2 ^ s + unat x \<le> 127" using assms(1) by (intro short_bound)
    then have "int (p * 2 ^ s) + int (unat x) \<le> 127" by linarith
    then show "agrees (T (std_value (int (p * 2 ^ s) + int (unat x))))
      (let v = std_value (int (p * 2 ^ s) + int (unat x) + add) in ret (v, std_suffix s v))"
      using T by (simp add: agrees_ret Let_def)
  qed (use assms(1) in simp)
qed

lemma first_after:
  fixes add :: int
  assumes s: "s \<le> 1" and p: "8 < p + 1 + s" and add: "0 \<le> add"
  shows "agrees (bnd (first_code s (int p)) (\<lambda>lc. ret (level_sign (lc + add), 2))) (std_after s add p)"
proof -
  have big: "level_sign (c + add) = std_value (c + add) \<and> std_suffix s (std_value (c + add)) = 2" if "8 \<le> c" for c
    using std_suffix_big [of "c + add" s] that s add by (simp add: level_sign_value)
  consider (zero) "s = 0" "p < 14" | (zero4) "s = 0" "p = 14" | (one) "s = 1" "p < 15" | (long) "15 \<le> p" using s by linarith
  then show ?thesis
  proof cases
    case zero
    then show ?thesis using p big [of "int p"] by (simp add: first_code_def std_after_def read_n_def agrees_ret Let_def)
  next
    case zero4
    have "agrees (bnd (read_n 4) (\<lambda>x. ret (level_sign (14 + i32_of x + add), 2)))
       (bnd (read_n 4) (\<lambda>x. let v = std_value (14 + int (unat x) + add) in ret (v, std_suffix s v)))"
      by (intro agrees_range [OF read_n_op]) (simp_all add: agrees_ret Let_def i32_of_bits [of _ 4] big)
    then show ?thesis using zero4 by (simp add: first_code_def std_after_def read_n_def bnd_assoc)
  next
    case one
    have "agrees (bnd (read_n 1) (\<lambda>x. ret (level_sign (2 * int p + i32_of x + add), 2)))
       (bnd (read_n 1) (\<lambda>x. let v = std_value (int p * 2 + int (unat x) + add) in ret (v, std_suffix s v)))"
    proof (rule agrees_range [OF read_n_op])
      fix x :: u32
      assume "unat x < 2 ^ 1"
      then show "agrees (ret (level_sign (2 * int p + i32_of x + add), 2))
        (let v = std_value (int p * 2 + int (unat x) + add) in ret (v, std_suffix s v))"
        using big [of "2 * int p + int (unat x)"] i32_of_bits [of x 1] p one by (simp add: agrees_ret Let_def mult.commute)
    qed simp
    then show ?thesis using one by (auto simp: first_code_def std_after_def read_n_def readBits_one bnd_assoc push_bit_eq_mult mult.commute)
  next
    case long
    have fc: "first_code s (int p) = long_code 30 (int p)" using long by (simp add: first_code_def)
    show ?thesis
      unfolding fc std_after_long [OF long]
      using s big by (intro long_code_std [OF long, where f' = "\<lambda>c. let v = std_value (c + add) in ret (v, std_suffix s v)"])
        (auto simp: agrees_ret Let_def le_Suc_eq)
  qed
qed

lemma first_level_std:
  assumes "s \<le> 1"
  shows "agrees (first_level s t1 :: ('z bitReader_scheme, int \<times> nat) go) (std_step s (if t1 < 3 then 2 else 0))"
proof -
  define add :: int where "add = (if t1 < 3 then 2 else 0)"
  define T where "T = (\<lambda>lc. let lc = (if t1 < 3 then lc + (drop_bit 31 lc OR 1) else lc)
     in ret (lc, if u32_of lc + 3 > 6 then 2 else 1) :: ('z bitReader_scheme, int \<times> nat) go)"
  define E where "E = (\<lambda>p. bnd (first_code s p) (\<lambda>lc. ret (level_sign (lc + add), 2 :: nat)) :: ('z bitReader_scheme, int \<times> nat) go)"
  have a: "(if t1 < 3 then lc + 2 else lc) = lc + add" for lc by (simp add: add_def)
  have fl: "first_level s t1 = bnd (level_lookup s) (\<lambda>lc. if lc \<ge> 100 then bnd (escape_prefix lc) E else T lc)"
    unfolding first_level_def a E_def T_def ..
  have T: "T (std_value c) = ret (std_value (c + add), std_suffix s (std_value (c + add)))" if "0 \<le> c" "c \<le> 127" for c
  proof -
    have "(if t1 < 3 then std_value c + (drop_bit 31 (std_value c) OR 1) else std_value c) = std_value (c + add)"
      using std_value_2 [OF that] by (simp add: add_def)
    moreover have "\<bar>std_value (c + add)\<bar> < 2 ^ 30" using that by (intro std_value_small) (auto simp: add_def)
    ultimately show ?thesis using first_suffix_std assms by (simp add: T_def Let_def)
  qed
  have E: "agrees (E (int p)) (std_after s add p)" if "8 < p + 1 + s" for p
    unfolding E_def using that assms by (intro first_after) (simp_all add: add_def)
  have "agrees (first_level s t1) (bnd readCAVLCLevelPrefix (\<lambda>p. if p + 1 + s \<le> 8 then
       bnd (read_n s) (\<lambda>x. T (std_value (int (p * 2 ^ s) + int (unat x)))) else E (int p)))"
    unfolding fl using assms by (intro level_lookup_agrees agrees_self [OF E]) (simp_all add: T_def Let_def agrees_ret)
  moreover have "agrees \<dots> (bnd readCAVLCLevelPrefix (std_after s add))"
  proof (rule agrees_bnd [OF level_prefix_op])
    fix p
    show "agrees (if p + 1 + s \<le> 8 then bnd (read_n s) (\<lambda>x. T (std_value (int (p * 2 ^ s) + int (unat x)))) else E (int p)) (std_after s add p)"
      using E [of p] short_after [of p s T add] T by (cases "p + 1 + s \<le> 8") simp_all
  qed
  ultimately show ?thesis unfolding std_step_after add_def [symmetric] by (rule agrees_trans)
qed

lemma next_after:
  assumes s: "1 \<le> s" "s \<le> 6"
  shows "agrees (bnd (next_code s (int p)) (\<lambda>lc. ret (level_sign lc, next_suffix s (level_sign lc)))) (std_after s 0 p)"
proof -
  have big: "level_sign c = std_value c \<and> next_suffix s (std_value c) = std_suffix s (std_value c)" if "0 \<le> c" "c < 2 ^ 30" for c
    using next_suffix_std [OF std_value_small [OF that] s] by (simp add: level_sign_value)
  have p64: "(2::int) ^ s \<le> 64" using power_increasing [of s 6 "2 :: int"] s by simp
  show ?thesis
  proof (cases "p < 15")
    case True
    have "agrees (bnd (read_n s) (\<lambda>x. ret (level_sign (int p * 2 ^ s + i32_of x), next_suffix s (level_sign (int p * 2 ^ s + i32_of x)))))
       (bnd (read_n s) (\<lambda>x. let v = std_value (int p * 2 ^ s + int (unat x) + 0) in ret (v, std_suffix s v)))"
    proof (rule agrees_range [OF read_n_op])
      fix x :: u32
      assume x: "unat x < 2 ^ s"
      have "int (unat x) < 2 ^ s" using x by (metis of_nat_less_iff of_nat_numeral of_nat_power)
      moreover have "int p * 2 ^ s \<le> 15 * 64" using True p64 by (intro mult_mono) auto
      moreover have "0 \<le> int p * 2 ^ s" by simp
      ultimately have "0 \<le> int p * 2 ^ s + int (unat x)" "int p * 2 ^ s + int (unat x) < 1073741824" using p64 by linarith+
      then show "agrees (ret (level_sign (int p * 2 ^ s + i32_of x), next_suffix s (level_sign (int p * 2 ^ s + i32_of x))))
         (let v = std_value (int p * 2 ^ s + int (unat x) + 0) in ret (v, std_suffix s v))"
        using big i32_of_bits [OF x] s by (simp add: agrees_ret Let_def)
    qed (use s in simp)
    then show ?thesis using True s by (simp add: next_code_def std_after_def read_n_def bnd_assoc push_bit_eq_mult)
  next
    case False
    then have long: "15 \<le> p" by simp
    have nc: "next_code s (int p) = long_code (push_bit s 15) (int p)" using long by (simp add: next_code_def)
    show ?thesis
      unfolding nc std_after_long [OF long]
    proof (rule long_code_std [OF long, where f' = "\<lambda>c. let v = std_value (c + 0) in ret (v, std_suffix s v)"])
      fix c :: int
      assume c: "push_bit s 15 \<le> c" "c < push_bit s 15 + 2 ^ 26"
      have "0 \<le> push_bit s (15 :: int)" "push_bit s (15 :: int) \<le> 960" using p64 by (simp_all add: push_bit_eq_mult)
      moreover have "c < push_bit s 15 + 67108864" using c(2) by simp
      ultimately have "0 \<le> c" "c < 1073741824" using c(1) by linarith+
      then show "agrees (ret (level_sign c, next_suffix s (level_sign c))) (let v = std_value (c + 0) in ret (v, std_suffix s v))"
        using big [of c] by (simp add: agrees_ret Let_def)
    qed (use s in \<open>simp add: push_bit_eq_mult\<close>)
  qed
qed

lemma next_level_std:
  assumes s: "1 \<le> s" "s \<le> 6"
  shows "agrees (bnd (next_level s) (\<lambda>v. ret (v, next_suffix s v)) :: ('z bitReader_scheme, int \<times> nat) go) (std_step s 0)"
proof -
  define T where "T = (\<lambda>lc. ret (lc, next_suffix s lc) :: ('z bitReader_scheme, int \<times> nat) go)"
  define E where "E = (\<lambda>p. bnd (next_code s p) (\<lambda>lc. ret (level_sign lc, next_suffix s (level_sign lc))) :: ('z bitReader_scheme, int \<times> nat) go)"
  have nl: "bnd (next_level s) (\<lambda>v. ret (v, next_suffix s v)) = bnd (level_lookup s) (\<lambda>lc. if lc \<ge> 100 then bnd (escape_prefix lc) E else T lc)"
    unfolding next_level_def E_def T_def bnd_assoc by (intro arg_cong [of _ _ "bnd (level_lookup s)"] ext) (simp add: bnd_assoc)
  have T: "T (std_value c) = ret (std_value (c + 0), std_suffix s (std_value (c + 0)))" if "0 \<le> c" "c \<le> 127" for c
    using next_suffix_std [OF std_value_small s] that by (simp add: T_def)
  have E: "agrees (E (int p)) (std_after s 0 p)" for p unfolding E_def using s by (rule next_after)
  have "agrees (bnd (next_level s) (\<lambda>v. ret (v, next_suffix s v))) (bnd readCAVLCLevelPrefix (\<lambda>p. if p + 1 + s \<le> 8 then
       bnd (read_n s) (\<lambda>x. T (std_value (int (p * 2 ^ s) + int (unat x)))) else E (int p)))"
    unfolding nl using s by (intro level_lookup_agrees agrees_self [OF E]) (simp_all add: T_def agrees_ret)
  moreover have "agrees \<dots> (bnd readCAVLCLevelPrefix (std_after s 0))"
  proof (rule agrees_bnd [OF level_prefix_op])
    fix p
    show "agrees (if p + 1 + s \<le> 8 then bnd (read_n s) (\<lambda>x. T (std_value (int (p * 2 ^ s) + int (unat x)))) else E (int p)) (std_after s 0 p)"
      using E [of p] short_after [of p s T 0] T by (cases "p + 1 + s \<le> 8") simp_all
  qed
  ultimately show ?thesis unfolding std_step_after by (rule agrees_trans)
qed

section \<open>All the levels of a block\<close>

lemma std_rest_step:
  "std_rest (Suc n) s add = bnd (std_step s add) (\<lambda>(v, s'). bnd (std_rest n s' 0) (\<lambda>vs. ret (v # vs)))"
  unfolding std_step_def std_rest.simps Let_def bnd_assoc bnd_ret by simp

lemma std_suffix_range: "s \<le> 6 \<Longrightarrow> 1 \<le> std_suffix s v \<and> std_suffix s v \<le> 6"
  by (auto simp: std_suffix_def Let_def)

text \<open>The array of levels as the code fills it: levels from \<open>i\<close> on.\<close>

fun fill_from :: "nat \<Rightarrow> 'a list \<Rightarrow> 'a list \<Rightarrow> 'a list" where
  "fill_from i [] level = level"
| "fill_from i (v # vs) level = fill_from (Suc i) vs (level[i := v])"

lemma length_fill_from: "length (fill_from i vs level) = length level"
  by (induction vs arbitrary: i level) simp_all

lemma levels_loop_step:
  "i < length level \<Longrightarrow> levels_loop (i # is) s level = bnd (bnd (next_level s) (\<lambda>v. ret (v, next_suffix s v))) (\<lambda>(v, s'). levels_loop is s' (level[i := v]))"
  by (simp add: bnd_assoc)

lemma std_rest_fill:
  "bnd (std_rest (Suc n) s add) (\<lambda>vs. ret (fill_from i vs level))
    = bnd (std_step s add) (\<lambda>(v, s'). bnd (std_rest n s' 0) (\<lambda>vs. ret (fill_from (Suc i) vs (level[i := v]))))"
  unfolding std_rest_step bnd_assoc by (simp add: bnd_assoc case_prod_unfold)

lemma std_step_suffix: "std_step s add gb = (Inr (v, s'), gb') \<Longrightarrow> s' = std_suffix s v"
  by (auto simp: std_step_def bnd_def ret_def Let_def split: sum.splits prod.splits)

lemma levels_loop_std:
  "1 \<le> s \<Longrightarrow> s \<le> 6 \<Longrightarrow> i + n \<le> length level \<Longrightarrow> agrees (levels_loop [i..<i + n] s level :: ('z bitReader_scheme, int list) go)
     (bnd (std_rest n s 0) (\<lambda>vs. ret (fill_from i vs level)))"
proof (induction n arbitrary: i s level)
  case 0
  then show ?case by (simp add: agrees_ret)
next
  case (Suc n)
  have u: "[i..<i + Suc n] = i # [Suc i..<Suc i + n]" by (simp add: upt_rec [of i])
  have i: "i < length level" using Suc.prems(3) by simp
  show ?case
    unfolding u levels_loop_step [OF i] std_rest_fill
  proof (rule agrees_bnd_of [OF next_level_std [OF Suc.prems(1,2)]])
    fix gb gb' :: "'z bitReader_scheme" and x
    assume h: "std_step s 0 gb = (Inr x, gb')"
    obtain v s' where x: "x = (v, s')" by (cases x)
    have r: "1 \<le> s'" "s' \<le> 6" using std_step_suffix [OF h [unfolded x]] std_suffix_range [OF Suc.prems(2)] by simp_all
    show "agrees (case x of (v, s') \<Rightarrow> (levels_loop [Suc i..<Suc i + n] s' (level[i := v]) :: ('z bitReader_scheme, int list) go))
       (case x of (v, s') \<Rightarrow> bnd (std_rest n s' 0) (\<lambda>vs. ret (fill_from (Suc i) vs (level[i := v]))))"
      unfolding x prod.case using Suc.prems(3) by (intro Suc.IH [OF r]) simp
  qed
qed

lemma signs_loop_std:
  "i + n \<le> length level \<Longrightarrow> agrees (signs_loop [i..<i + n] level :: ('z bitReader_scheme, int list) go) (bnd (mapM (\<lambda>_. std_sign) [i..<i + n]) (\<lambda>vs. ret (fill_from i vs level)))"
proof (induction n arbitrary: i level)
  case 0
  then show ?case by (simp add: agrees_ret)
next
  case (Suc n)
  have u: "[i..<i + Suc n] = i # [Suc i..<Suc i + n]" by (simp add: upt_rec [of i])
  have e: "bnd (mapM (\<lambda>_. std_sign) (i # is)) (\<lambda>vs. ret (fill_from i vs level))
    = bnd readBit (\<lambda>b. bnd (mapM (\<lambda>_. std_sign) is) (\<lambda>vs. ret (fill_from (Suc i) vs (level[i := 1 - 2 * int (unat b)]))))" for "is"
    by (simp add: std_sign_def bnd_assoc)
  have i: "i < length level" using Suc.prems by simp
  show ?case
    unfolding u e signs_loop.simps set_idx_simps(1) [OF i] lift_bnd_simps
  proof (rule agrees_range [OF readBit.reader_op_axioms])
    fix b :: u32
    assume "b = 0 \<or> b = 1"
    then have "(if b = 0 then 1 else - 1) = 1 - 2 * int (unat b)" by auto
    then show "agrees (signs_loop [Suc i..<Suc i + n] (level[i := if b = 0 then 1 else - 1]) :: ('z bitReader_scheme, int list) go)
        (bnd (mapM (\<lambda>_. std_sign) [Suc i..<Suc i + n]) (\<lambda>vs. ret (fill_from (Suc i) vs (level[i := 1 - 2 * int (unat b)]))))"
      unfolding \<open>(if b = 0 then 1 else - 1) = 1 - 2 * int (unat b)\<close> using Suc.prems by (intro Suc.IH) simp
  qed
qed

lemma fill_from_append: "fill_from i (us @ vs) level = fill_from (i + length us) vs (fill_from i us level)"
  by (induction us arbitrary: i level) simp_all

lemma fill_from_zeros:
  "length vs \<le> k \<Longrightarrow> fill_from (length us) vs (us @ replicate k x) = us @ vs @ replicate (k - length vs) x"
proof (induction vs arbitrary: us k)
  case (Cons v vs)
  then obtain k' where k: "k = Suc k'" by (cases k) auto
  have "fill_from (length us) (v # vs) (us @ replicate k x) = fill_from (length (us @ [v])) vs ((us @ [v]) @ replicate k' x)"
    by (simp add: k)
  also have "\<dots> = (us @ [v]) @ vs @ replicate (k' - length vs) x" using Cons.prems k by (intro Cons.IH) simp
  finally show ?case by (simp add: k)
qed simp

lemma mapM_length: "mapM f xs s = (Inr vs, s') \<Longrightarrow> length vs = length xs"
  by (induction xs arbitrary: s vs s') (auto simp: ret_def bnd_def split: sum.splits prod.splits)

lemma std_rest_length: "std_rest n s add gb = (Inr vs, gb') \<Longrightarrow> length vs = n"
proof (induction n arbitrary: s add gb vs gb')
  case (Suc n)
  then show ?case by (auto simp: Let_def bnd_def ret_def split: sum.splits prod.splits)
qed (simp add: ret_def)

lemma readCAVLCLevels_agrees:
  fixes tc t1 :: nat
  assumes c: "1 \<le> tc" "tc \<le> 16" "t1 \<le> 3" "t1 \<le> tc"
  shows "agrees (readCAVLCLevels (int tc) (int t1) :: ('z bitReader_scheme, int list) go)
    (bnd (std_levels tc t1) (\<lambda>vs. ret (fill_from 0 vs (replicate 16 0))))"
proof -
  define s :: nat where "s = (if tc > 10 \<and> t1 < 3 then 1 else 0)"
  define add :: int where "add = (if t1 < 3 then 2 else 0)"
  define G where "G = (\<lambda>level. if t1 < tc then bnd (first_level s (int t1)) (\<lambda>(v, s'). bnd (lift (set_idx level t1 v)) (levels_loop [t1 + 1..<tc] s'))
      else ret level :: ('z bitReader_scheme, int list) go)"
  define H where "H = (\<lambda>level. bnd (std_rest (tc - t1) s add) (\<lambda>vs. ret (fill_from t1 vs level)) :: ('z bitReader_scheme, int list) go)"
  have s': "(if int tc > 10 \<and> int t1 < 3 then 1 else 0) = s" by (simp add: s_def)
  have code: "readCAVLCLevels (int tc) (int t1) = bnd (signs_loop [0..<t1] (replicate 16 0)) G"
    unfolding readCAVLCLevels_def s' nat_int of_nat_less_iff G_def using c by simp
  have "bnd (std_levels tc t1) (\<lambda>vs. ret (fill_from 0 vs (replicate 16 0)))
     = bnd (mapM (\<lambda>_. std_sign) [0..<t1]) (\<lambda>us. bnd (std_rest (tc - t1) s add) (\<lambda>vs. ret (fill_from (length us) vs (fill_from 0 us (replicate 16 0)))))"
    by (simp add: std_levels_def bnd_assoc fill_from_append s_def add_def)
  also have "\<dots> = bnd (mapM (\<lambda>_. std_sign) [0..<t1]) (\<lambda>us. H (fill_from 0 us (replicate 16 0)))"
    unfolding H_def by (rule bnd_cong_of) (auto dest: mapM_length)
  also have "\<dots> = bnd (bnd (mapM (\<lambda>_. std_sign) [0..<t1]) (\<lambda>us. ret (fill_from 0 us (replicate 16 0)))) H"
    by (simp add: bnd_assoc)
  finally have std: "bnd (std_levels tc t1) (\<lambda>vs. ret (fill_from 0 vs (replicate 16 0)))
     = bnd (bnd (mapM (\<lambda>_. std_sign) [0..<t1]) (\<lambda>us. ret (fill_from 0 us (replicate 16 0)))) H" .
  have GH: "agrees (G level) (H level)" if l: "length level = 16" for level
  proof (cases "t1 < tc")
    case False
    then have "tc - t1 = 0" by simp
    then show ?thesis using False by (simp add: G_def H_def agrees_ret)
  next
    case True
    then obtain n where n: "tc - t1 = Suc n" by (metis Suc_diff_Suc)
    then have u: "[t1 + 1..<tc] = [Suc t1..<Suc t1 + n]" by (intro arg_cong2 [of _ _ _ _ upt]) auto
    have add': "add = (if int t1 < 3 then 2 else 0)" by (simp add: add_def)
    have "agrees (bnd (first_level s (int t1)) (\<lambda>(v, s'). levels_loop [Suc t1..<Suc t1 + n] s' (level[t1 := v])))
      (bnd (std_step s add) (\<lambda>(v, s'). bnd (std_rest n s' 0) (\<lambda>vs. ret (fill_from (Suc t1) vs (level[t1 := v])) :: ('z bitReader_scheme, int list) go)))"
      unfolding add'
    proof (rule agrees_bnd_of [OF first_level_std])
      show "s \<le> 1" by (simp add: s_def)
      fix gb gb' :: "'z bitReader_scheme" and x
      assume h: "std_step s (if int t1 < 3 then 2 else 0) gb = (Inr x, gb')"
      obtain v s' where x: "x = (v, s')" by (cases x)
      have r: "1 \<le> s'" "s' \<le> 6" using std_step_suffix [OF h [unfolded x]] std_suffix_range [of s v] by (simp_all add: s_def)
      show "agrees (case x of (v, s') \<Rightarrow> (levels_loop [Suc t1..<Suc t1 + n] s' (level[t1 := v]) :: ('z bitReader_scheme, int list) go))
        (case x of (v, s') \<Rightarrow> bnd (std_rest n s' 0) (\<lambda>vs. ret (fill_from (Suc t1) vs (level[t1 := v]))))"
        unfolding x prod.case using c n l by (intro levels_loop_std [OF r]) simp
    qed
    moreover have "set_idx level t1 v = Inr (level[t1 := v])" for v using True c l by simp
    ultimately show ?thesis using True unfolding G_def H_def n std_rest_fill u by simp
  qed
  show ?thesis
    unfolding code std
  proof (intro agrees_bnd_of)
    show "agrees (signs_loop [0..<t1] (replicate 16 0) :: ('z bitReader_scheme, int list) go)
        (bnd (mapM (\<lambda>_. std_sign) [0..<t1]) (\<lambda>us. ret (fill_from 0 us (replicate 16 0))))"
      using signs_loop_std [of 0 t1 "replicate 16 0"] c by simp
    fix gb gb' :: "'z bitReader_scheme" and x
    assume "bnd (mapM (\<lambda>_. std_sign) [0..<t1]) (\<lambda>us. ret (fill_from 0 us (replicate 16 0))) gb = (Inr x, gb')"
    then have "length x = 16" by (auto simp: bnd_def ret_def length_fill_from split: sum.splits prod.splits)
    then show "agrees (G x) (H x)" by (rule GH)
  qed
qed

text \<open>
  C13. The table-driven reader of levels is the standard's (9.2.2.1): on every well-formed reader and for
  every number of coefficients and of trailing ones, it returns the levels that the standard decodes, with
  zeros up to 16, and stops at the same bit; where the standard's decoding fails, for want of bits or with
  a prefix above 28, it fails too. Bit strings that end inside the eight bits of the lookup included.
\<close>

theorem levels_standard:
  assumes "wf_reader gb" "1 \<le> tc" "tc \<le> 16" "t1 \<le> 3" "t1 \<le> tc"
  shows "case std_levels tc t1 gb of
      (Inr vs, gb') \<Rightarrow> readCAVLCLevels (int tc) (int t1) gb = (Inr (vs @ replicate (16 - tc) 0), gb') \<and> length vs = tc
    | (Inl e, gb') \<Rightarrow> e = ErrInvalidData \<and> fst (readCAVLCLevels (int tc) (int t1) gb) = Inl ErrInvalidData"
proof -
  have len: "length vs = tc" if "std_levels tc t1 gb = (Inr vs, gb')" for vs gb'
    using that assms(5) by (auto simp: std_levels_def bnd_def ret_def dest!: mapM_length std_rest_length split: sum.splits prod.splits)
  have f: "fill_from 0 vs (replicate 16 0) = vs @ replicate (16 - length vs) 0" if "length vs \<le> 16" for vs :: "int list"
    using fill_from_zeros [OF that, of "[]" 0] by simp
  show ?thesis
    using readCAVLCLevels_agrees [OF assms(2-5)] assms(1,3) f len
    by (cases "std_levels tc t1 gb") (auto simp: agrees_def bnd_def ret_def split: sum.splits)
qed

lemma levels_standard_witness:
  "fst (readCAVLCLevels 2 1 (newBitReader [0xC0])) = Inr ([- 1, 2] @ replicate 14 0)"
proof -
  have "fst (std_levels 2 1 (newBitReader [0xC0])) = Inr [- 1, 2]" by code_simp
  then show ?thesis
    using levels_standard [OF newBitReader_wf [of "[0xC0]"], of 2 1]
    by (cases "std_levels 2 1 (newBitReader [0xC0])") simp_all
qed

end
