(* ===== verification/Cavlc_Residual.thy ===== *)
theory Cavlc_Residual
  imports Cavlc_Standard
begin

unbundle bit_operations_syntax

text \<open>
  The coding of a residual block with CAVLC (\<open>cavlc.go\<close>): \<open>decodeCAVLCResidual\<close> and the writers of the
  blocks the encoder side admits. A block is a list of levels, the scan a list of positions in it; the
  decoder's state is the reader and the block it fills in, which keeps what it got before an error.
\<close>

section \<open>The decoder\<close>

record resid = bitReader +
  rs_block :: "int list"

definition lumaDCBlockIndex :: int where "lumaDCBlockIndex = 48"

definition put_level :: "nat \<Rightarrow> int \<Rightarrow> (resid, unit) go" where
  "put_level scanPos v = (\<lambda>s. case set_idx (rs_block s) scanPos v of Inl e \<Rightarrow> (Inl e, s) | Inr b \<Rightarrow> (Inr (), s\<lparr>rs_block := b\<rparr>))"

definition storeCAVLCLevel :: "nat \<Rightarrow> int \<Rightarrow> u32 list option \<Rightarrow> int \<Rightarrow> (resid, unit) go" where
  "storeCAVLCLevel scanPos level qmul n = (\<lambda>s.
     if scanPos \<ge> length (rs_block s) then (Inl ErrInvalidData, s)
     else if qmul = None \<or> n \<ge> lumaDCBlockIndex then put_level scanPos level s
     else if scanPos \<ge> length (the qmul) then (Inl ErrInvalidData, s)
     else bnd (lift (idx (the qmul) scanPos)) (\<lambda>q. put_level scanPos (drop_bit 6 (i32_of (u32_of level * q + 32)))) s)"

text \<open>The calls of it, with \<open>scantable[scanIndex]\<close> and \<open>level[i]\<close>.\<close>

definition store_at :: "nat list \<Rightarrow> int \<Rightarrow> int list \<Rightarrow> nat \<Rightarrow> u32 list option \<Rightarrow> int \<Rightarrow> (resid, unit) go" where
  "store_at scantable scanIndex level i qmul n =
     bnd (lift (if scanIndex < 0 then Inl Panic else idx scantable (nat scanIndex))) (\<lambda>scanPos.
     bnd (lift (idx level i)) (\<lambda>v. storeCAVLCLevel scanPos v qmul n))"

text \<open>The loop while there are zeros left, and the one over the rest; both return what the code goes on with.\<close>

fun run_loop :: "nat list \<Rightarrow> int list \<Rightarrow> nat list \<Rightarrow> u32 list option \<Rightarrow> int \<Rightarrow> int \<Rightarrow> int \<Rightarrow> (resid, nat list \<times> int \<times> int) go" where
  "run_loop [] level scantable qmul n zerosLeft scanIndex = ret ([], zerosLeft, scanIndex)"
| "run_loop (i # is) level scantable qmul n zerosLeft scanIndex =
     (if \<not> zerosLeft > 0 then ret (i # is, zerosLeft, scanIndex)
      else bnd (readCAVLCRunBefore zerosLeft) (\<lambda>runBefore.
        let zerosLeft = zerosLeft - int runBefore; scanIndex = scanIndex - (1 + int runBefore) in
        if zerosLeft < 0 \<or> scanIndex < 0 \<or> scanIndex \<ge> int (length scantable) then fail ErrInvalidData
        else thn (store_at scantable scanIndex level i qmul n)
          (run_loop is level scantable qmul n zerosLeft scanIndex)))"

fun tail_loop :: "nat list \<Rightarrow> int list \<Rightarrow> nat list \<Rightarrow> u32 list option \<Rightarrow> int \<Rightarrow> int \<Rightarrow> (resid, unit) go" where
  "tail_loop [] level scantable qmul n scanIndex = ret ()"
| "tail_loop (i # is) level scantable qmul n scanIndex =
     (let scanIndex = scanIndex - 1 in
      if scanIndex < 0 \<or> scanIndex \<ge> int (length scantable) then fail ErrInvalidData
      else thn (store_at scantable scanIndex level i qmul n)
        (tail_loop is level scantable qmul n scanIndex))"

definition decodeCAVLCResidual :: "int \<Rightarrow> nat list \<Rightarrow> u32 list option \<Rightarrow> int \<Rightarrow> int \<Rightarrow> (resid, nat) go" where
  "decodeCAVLCResidual n scantable qmul maxCoeff predictedNnz =
     bnd (readCAVLCCoeffToken predictedNnz maxCoeff) (\<lambda>coeffToken.
     let totalCoeff = drop_bit 2 coeffToken; trailingOnes = coeffToken AND 3 in
     if totalCoeff = 0 then ret 0
     else if int totalCoeff > maxCoeff then fail ErrInvalidData
     else bnd (readCAVLCLevels (int totalCoeff) (int trailingOnes)) (\<lambda>level.
     bnd (if int totalCoeff \<noteq> maxCoeff then readCAVLCTotalZeros (int totalCoeff) maxCoeff else ret 0) (\<lambda>zeros.
     let zerosLeft = int zeros; scanIndex = zerosLeft + int totalCoeff - 1 in
     if scanIndex < 0 \<or> scanIndex \<ge> int (length scantable) then fail ErrInvalidData
     else thn (store_at scantable scanIndex level 0 qmul n)
       (bnd (run_loop [1..<totalCoeff] level scantable qmul n zerosLeft scanIndex) (\<lambda>(is, zerosLeft, scanIndex).
       thn (tail_loop is level scantable qmul n scanIndex)
       (if zerosLeft < 0 then fail ErrInvalidData else ret totalCoeff))))))"

text \<open>What the guards make of the accesses.\<close>

lemma storeCAVLCLevel_ok: "storeCAVLCLevel scanPos level qmul n s =
   (if scanPos \<ge> length (rs_block s) then (Inl ErrInvalidData, s)
    else if qmul = None \<or> n \<ge> lumaDCBlockIndex then (Inr (), s\<lparr>rs_block := (rs_block s)[scanPos := level]\<rparr>)
    else if scanPos \<ge> length (the qmul) then (Inl ErrInvalidData, s)
    else (Inr (), s\<lparr>rs_block := (rs_block s)[scanPos := drop_bit 6 (i32_of (u32_of level * the qmul ! scanPos + 32))]\<rparr>))"
  by (simp add: storeCAVLCLevel_def put_level_def)

lemma store_at_ok:
  "\<not> (scanIndex < 0 \<or> int (length scantable) \<le> scanIndex) \<Longrightarrow> i < length level \<Longrightarrow>
     store_at scantable scanIndex level i qmul n = storeCAVLCLevel (scantable ! nat scanIndex) (level ! i) qmul n"
  by (simp add: store_at_def nat_less_iff)

section \<open>The writers\<close>

text \<open>The coefficients that are not zero in scan order, with their places in the scan; \<open>ok\<close> is what a writer asks of them.\<close>

fun collect_loop :: "(nat \<Rightarrow> int \<Rightarrow> bool) \<Rightarrow> int list \<Rightarrow> int \<Rightarrow> nat list \<Rightarrow> nat list \<Rightarrow> (nat \<times> int) list \<Rightarrow> (nat \<times> int) list result" where
  "collect_loop ok block n scantable [] acc = Inr acc"
| "collect_loop ok block n scantable (i # is) acc =
     (let pos = n + int (scantable ! i) in
      if pos < 0 \<or> pos \<ge> int (length block) then Inl ErrInvalidData
      else let v = block ! nat pos in
      if v = 0 then collect_loop ok block n scantable is acc
      else if \<not> ok (length acc) v then Inl ErrInvalidData
      else collect_loop ok block n scantable is (acc @ [(i, v)]))"

definition collect :: "(nat \<Rightarrow> int \<Rightarrow> bool) \<Rightarrow> int list \<Rightarrow> int \<Rightarrow> nat list \<Rightarrow> int \<Rightarrow> (nat \<times> int) list result" where
  "collect ok block n scantable maxCoeff =
     (if maxCoeff \<le> 0 \<or> maxCoeff > 16 \<or> int (length scantable) < maxCoeff then Inl ErrInvalidData
      else collect_loop ok block n scantable [0..<nat maxCoeff] [])"

fun write_signs :: "nat \<Rightarrow> nat \<Rightarrow> int list \<Rightarrow> (bitWriter, unit) go" where
  "write_signs lo 0 level = ret ()"
| "write_signs lo (Suc k) level = thn (WriteBit (if level ! (lo + k) < 0 then 1 else 0)) (write_signs lo k level)"

fun write_levels_down :: "nat \<Rightarrow> int list \<Rightarrow> nat \<Rightarrow> (bitWriter, unit) go" where
  "write_levels_down 0 level suffixLength = ret ()"
| "write_levels_down (Suc i) level suffixLength =
     thn (writeCAVLCSubsequentLevel (level ! i) suffixLength)
       (write_levels_down i level (cavlcSuffixLengthAfterSubsequentLevel (level ! i) suffixLength))"

fun write_runs :: "nat \<Rightarrow> nat list \<Rightarrow> int \<Rightarrow> (bitWriter, unit) go" where
  "write_runs 0 scanIndex zerosLeft = ret ()"
| "write_runs (Suc i) scanIndex zerosLeft =
     (if \<not> zerosLeft > 0 then ret ()
      else let runBefore = int (scanIndex ! (i + 1)) - int (scanIndex ! i) - 1 in
      thn (writeCAVLCRunBefore runBefore zerosLeft) (write_runs i scanIndex (zerosLeft - runBefore)))"

text \<open>\<open>total_zeros\<close> and the runs, which end every writer.\<close>

definition write_zeros_runs :: "(nat \<times> int) list \<Rightarrow> int \<Rightarrow> (bitWriter, nat) go" where
  "write_zeros_runs cs maxCoeff =
     (let tc = length cs; scanIndex = map fst cs; totalZeros = int (scanIndex ! (tc - 1)) + 1 - int tc in
      thn (writeCAVLCTotalZeros totalZeros (int tc) maxCoeff)
        (thn (write_runs (tc - 1) scanIndex totalZeros) (ret tc)))"

definition is_one :: "int \<Rightarrow> bool" where
  "is_one v \<longleftrightarrow> v = 1 \<or> v = - 1"

definition trailing_ones :: "int list \<Rightarrow> nat" where
  "trailing_ones level = length (takeWhile is_one (take 3 (rev level)))"

definition writeCAVLCResidualTrailingOnes :: "int list \<Rightarrow> int \<Rightarrow> nat list \<Rightarrow> int \<Rightarrow> int \<Rightarrow> (bitWriter, nat) go" where
  "writeCAVLCResidualTrailingOnes block n scantable maxCoeff predictedNnz =
     bnd (lift (collect (\<lambda>k v. is_one v \<and> k \<noteq> 3) block n scantable maxCoeff)) (\<lambda>cs.
     let tc = length cs in
     thn (writeCAVLCCoeffToken (int tc) (int tc) predictedNnz maxCoeff)
       (if tc = 0 then ret 0 else thn (write_signs 0 tc (map snd cs)) (write_zeros_runs cs maxCoeff)))"

definition writeCAVLCResidualSingleLevel :: "int list \<Rightarrow> int \<Rightarrow> nat list \<Rightarrow> int \<Rightarrow> int \<Rightarrow> (bitWriter, nat) go" where
  "writeCAVLCResidualSingleLevel block n scantable maxCoeff predictedNnz =
     bnd (lift (collect (\<lambda>k v. \<not> is_one v \<and> k = 0) block n scantable maxCoeff)) (\<lambda>cs.
     if cs = [] then writeCAVLCResidualTrailingOnes block n scantable maxCoeff predictedNnz
     else thn (writeCAVLCCoeffToken 1 0 predictedNnz maxCoeff)
       (thn (writeCAVLCFirstLevel (snd (cs ! 0)))
       (thn (writeCAVLCTotalZeros (int (fst (cs ! 0))) 1 maxCoeff) (ret 1))))"

definition writeCAVLCResidualNonTrailingLevels :: "int list \<Rightarrow> int \<Rightarrow> nat list \<Rightarrow> int \<Rightarrow> int \<Rightarrow> nat \<Rightarrow> nat \<Rightarrow> (bitWriter, nat) go" where
  "writeCAVLCResidualNonTrailingLevels block n scantable maxCoeff predictedNnz minCoeff maxAdmittedCoeff =
     (if minCoeff = 0 \<or> maxAdmittedCoeff < minCoeff \<or> maxAdmittedCoeff > 16 then fail ErrInvalidData
      else bnd (lift (collect (\<lambda>k v. \<not> is_one v \<and> k \<noteq> maxAdmittedCoeff) block n scantable maxCoeff)) (\<lambda>cs.
      let tc = length cs; level = map snd cs in
      if tc < minCoeff \<or> tc > maxAdmittedCoeff then fail ErrInvalidData
      else thn (writeCAVLCCoeffToken (int tc) 0 predictedNnz maxCoeff)
        (bnd (writeCAVLCFirstLevelWithSuffix (level ! (tc - 1)) (if tc > 10 then 1 else 0)) (\<lambda>suffixLength.
        thn (write_levels_down (tc - 1) level suffixLength) (write_zeros_runs cs maxCoeff)))))"

text \<open>The entry points for two, three and so on to sixteen levels.\<close>

definition writeCAVLCResidualExactly :: "nat \<Rightarrow> int list \<Rightarrow> int \<Rightarrow> nat list \<Rightarrow> int \<Rightarrow> int \<Rightarrow> (bitWriter, nat) go" where
  "writeCAVLCResidualExactly k block n scantable maxCoeff predictedNnz =
     writeCAVLCResidualNonTrailingLevels block n scantable maxCoeff predictedNnz k k"

definition writeCAVLCResidualSingleLevelTrailingOnes :: "int list \<Rightarrow> int \<Rightarrow> nat list \<Rightarrow> int \<Rightarrow> int \<Rightarrow> (bitWriter, nat) go" where
  "writeCAVLCResidualSingleLevelTrailingOnes block n scantable maxCoeff predictedNnz =
     bnd (lift (collect (\<lambda>k v. k \<noteq> 3) block n scantable maxCoeff)) (\<lambda>cs.
     let tc = length cs; level = map snd cs; t1 = trailing_ones level in
     if tc = 0 \<or> t1 = 0 \<or> t1 = tc \<or> tc - t1 \<noteq> 1 \<or> is_one (level ! (tc - t1 - 1)) then fail ErrInvalidData
     else thn (writeCAVLCCoeffToken (int tc) (int t1) predictedNnz maxCoeff)
       (thn (write_signs (tc - t1) t1 level)
       (thn (writeCAVLCFirstLevel (level ! (tc - t1 - 1))) (write_zeros_runs cs maxCoeff))))"

definition writeCAVLCResidualNonTrailingLevelsTrailingOnes ::
    "int list \<Rightarrow> int \<Rightarrow> nat list \<Rightarrow> int \<Rightarrow> int \<Rightarrow> nat \<Rightarrow> nat \<Rightarrow> (bitWriter, nat) go" where
  "writeCAVLCResidualNonTrailingLevelsTrailingOnes block n scantable maxCoeff predictedNnz minNonTrailing maxAdmittedNonTrailing =
     (if minNonTrailing < 2 \<or> maxAdmittedNonTrailing < minNonTrailing \<or> maxAdmittedNonTrailing > 16 then fail ErrInvalidData
      else bnd (lift (collect (\<lambda>_ _. True) block n scantable maxCoeff)) (\<lambda>cs.
      let tc = length cs; level = map snd cs; t1 = trailing_ones level; nonTrailing = tc - t1 in
      if t1 = 0 \<or> nonTrailing < minNonTrailing \<or> nonTrailing > maxAdmittedNonTrailing
         \<or> list_ex (\<lambda>v. v = 0 \<or> is_one v) (take nonTrailing level) then fail ErrInvalidData
      else thn (writeCAVLCCoeffToken (int tc) (int t1) predictedNnz maxCoeff)
        (thn (write_signs nonTrailing t1 level)
        (bnd (writeCAVLCFirstLevelWithTrailingOnes (level ! (nonTrailing - 1)) (if tc > 10 \<and> t1 < 3 then 1 else 0) (int t1))
          (\<lambda>suffixLength. thn (write_levels_down (nonTrailing - 1) level suffixLength) (write_zeros_runs cs maxCoeff))))))"

definition writeCAVLCResidualBounded :: "int list \<Rightarrow> int \<Rightarrow> nat list \<Rightarrow> int \<Rightarrow> int \<Rightarrow> (bitWriter, nat) go" where
  "writeCAVLCResidualBounded block n scantable maxCoeff predictedNnz =
     bnd (lift (collect (\<lambda>_ _. True) block n scantable maxCoeff)) (\<lambda>cs.
     let tc = length cs; t1 = trailing_ones (map snd cs); nonTrailing = tc - t1 in
     if tc = 0 \<or> nonTrailing = 0 then writeCAVLCResidualTrailingOnes block n scantable maxCoeff predictedNnz
     else if nonTrailing = 1 then
       (if t1 = 0 then writeCAVLCResidualSingleLevel block n scantable maxCoeff predictedNnz
        else writeCAVLCResidualSingleLevelTrailingOnes block n scantable maxCoeff predictedNnz)
     else if t1 \<noteq> 0 then
       writeCAVLCResidualNonTrailingLevelsTrailingOnes block n scantable maxCoeff predictedNnz nonTrailing nonTrailing
     else writeCAVLCResidualNonTrailingLevels block n scantable maxCoeff predictedNnz nonTrailing nonTrailing)"

end
