(* ===== verification/Cavlc_Roundtrip.thy ===== *)
theory Cavlc_Roundtrip
  imports Cavlc_Residual
begin

unbundle bit_operations_syntax

text \<open>
  What the CAVLC writers write, the decoder reads back: levels, zeros and runs, for every block that
  \<open>writeCAVLCResidualBounded\<close> admits. The decoder is safe on every stream.
\<close>

section \<open>Writers that return a value\<close>

definition writes_val :: "(bitWriter, 'a) go \<Rightarrow> bool list \<Rightarrow> 'a \<Rightarrow> bool" where
  "writes_val m out v \<longleftrightarrow> (\<forall>bw bs. holds bw bs \<longrightarrow> length bs + length out < 2 ^ 32 \<longrightarrow>
     (\<exists>bw'. m bw = (Inr v, bw') \<and> holds bw' (bs @ out)))"

lemma writes_val_unit: "writes m out = writes_val m out ()"
  by (simp add: writes_def writes_val_def)

lemma writes_val_ret: "writes_val (ret v) [] v"
  by (simp add: writes_val_def ret_def)

lemma writes_val_bnd:
  assumes "writes_val m a v" "writes_val (f v) b w"
  shows "writes_val (bnd m f) (a @ b) w"
  unfolding writes_val_def
proof (intro allI impI)
  fix bw bs
  assume h: "holds bw bs" and l: "length bs + length (a @ b) < 2 ^ 32"
  then obtain bw1 where 1: "m bw = (Inr v, bw1)" "holds bw1 (bs @ a)" using assms(1) unfolding writes_val_def by fastforce
  then obtain bw2 where "f v bw1 = (Inr w, bw2)" "holds bw2 ((bs @ a) @ b)" using assms(2) l unfolding writes_val_def by fastforce
  then show "\<exists>bw'. bnd m f bw = (Inr w, bw') \<and> holds bw' (bs @ a @ b)" using 1(1) by (simp add: bnd_def)
qed

lemma writes_val_thn: "writes m a \<Longrightarrow> writes_val m' b w \<Longrightarrow> writes_val (thn m m') (a @ b) w"
  unfolding thn_def writes_val_unit by (rule writes_val_bnd)

lemma bnd_Inr: "bnd m f bw = (Inr w, bw') \<longleftrightarrow> (\<exists>v bw1. m bw = (Inr v, bw1) \<and> f v bw1 = (Inr w, bw'))"
  by (auto simp: bnd_def split: sum.splits prod.splits)

lemma thn_Inr: "thn m m' bw = (Inr w, bw') \<longleftrightarrow> (\<exists>bw1. m bw = (Inr (), bw1) \<and> m' bw1 = (Inr w, bw'))"
  by (auto simp: thn_def bnd_Inr)

lemma reads_agrees: "agrees m m' \<Longrightarrow> reads m' code v \<Longrightarrow> reads m code v"
  unfolding agrees_def reads_def by (metis fst_conv old.prod.inject sum.inject(2) sum.simps(4))

section \<open>Levels\<close>

definition int_bits :: "nat \<Rightarrow> int \<Rightarrow> bool list" where
  "int_bits n x = map (bit x) (rev [0..<n])"

lemma int_bits_simps [simp]: "int_bits 0 x = []" "int_bits (Suc n) x = bit x n # int_bits n x" "length (int_bits n x) = n"
  by (simp_all add: int_bits_def)

lemma int_bits_val: "0 \<le> x \<Longrightarrow> x < 2 ^ n \<Longrightarrow> int (bits_val (int_bits n x)) = x"
proof -
  have "int (bits_val (int_bits n x)) = take_bit n x"
    by (induction n) (simp_all add: bits_val_Cons take_bit_Suc_from_most)
  then show "0 \<le> x \<Longrightarrow> x < 2 ^ n \<Longrightarrow> int (bits_val (int_bits n x)) = x" by (simp add: take_bit_int_eq_self)
qed

lemma writes_suffix: "writes (write_suffix x n) (int_bits n x)"
proof (induction n)
  case 0
  then show ?case by simp
next
  case (Suc n)
  have "bit (u32_of (drop_bit n x AND 1)) 0 = bit x n" by (simp add: u32_of_def bit_simps)
  then show ?case using writes_thn [OF writes_WriteBit [of "u32_of (drop_bit n x AND 1)"] Suc] by simp
qed

text \<open>A prefix and a suffix, as the standard reads them.\<close>

definition level_bits :: "nat \<Rightarrow> nat \<Rightarrow> int \<Rightarrow> bool list" where
  "level_bits p n x = replicate p False @ True # int_bits n x"

lemma writes_level: "writes (thn (write_zeros p) (thn (WriteBit 1) (write_suffix x n))) (level_bits p n x)"
proof -
  have "writes (thn (write_zeros p) (thn (WriteBit 1) (write_suffix x n))) (replicate p False @ [bit (1 :: u32) 0] @ int_bits n x)"
    by (intro writes_thn writes_write_zeros writes_WriteBit writes_suffix)
  then show ?thesis by (simp add: level_bits_def)
qed

lemma reads_prefix: "reads (readCAVLCLevelPrefix :: ('z bitReader_scheme, nat) go) (replicate p False @ [True]) p"
  unfolding reads_def readCAVLCLevelPrefix_def
proof (intro allI impI)
  fix s :: "'z bitReader_scheme" and rest
  assume "wf_reader s" "rem_bits s = (replicate p False @ [True]) @ rest"
  then show "level_prefix_loop 0 s = (Inr p, adv (length (replicate p False @ [True])) s)"
    using level_prefix_one [of s p rest 0] by simp
qed

lemma unat_u32_of_int: "0 \<le> x \<Longrightarrow> x < 2 ^ 32 \<Longrightarrow> int (unat (word_of_int x :: u32)) = x"
  by (simp only: uint_nat [symmetric] uint_word_of_int_eq) (simp add: take_bit_int_eq_self)

lemma reads_read_n:
  assumes "0 \<le> x" "x < 2 ^ n" "n \<le> 28"
  shows "reads (read_n n) (int_bits n x) (word_of_int x)"
proof (cases "n = 0")
  case True
  then have "x = 0" using assms by simp
  then show ?thesis using True by (simp add: read_n_def reads_ret)
next
  case False
  have n: "unat (word_of_nat n :: u32) = n" using assms(3) by (simp add: unat_of_nat)
  have "word_bits n (word_of_int x) = int_bits n x"
    unfolding word_bits_def int_bits_def using assms(3) by (auto simp: bit_simps)
  moreover have "take_bit n (word_of_int x :: u32) = word_of_int x"
  proof (rule bit_word_eqI)
    fix i
    have "take_bit n x = x" using assms by (simp add: take_bit_int_eq_self)
    then have "bit x i \<Longrightarrow> i < n" by (metis bit_take_bit_iff)
    then show "bit (take_bit n (word_of_int x :: u32)) i = bit (word_of_int x :: u32) i" by (auto simp: bit_simps)
  qed
  moreover have "(word_of_nat n :: u32) \<noteq> 0" using n False by auto
  ultimately show ?thesis
    using reads_readBits [of "word_of_nat n" "word_of_int x"] assms(3) False by (simp add: read_n_def n)
qed

definition std_size :: "nat \<Rightarrow> nat \<Rightarrow> nat" where
  "std_size s p = (if p = 14 \<and> s = 0 then 4 else if p \<ge> 15 then p - 3 else s)"

lemma reads_read_n_value:
  assumes "0 \<le> x" "x < 2 ^ n" "n \<le> 28"
  shows "reads (bnd (read_n n) (\<lambda>w. ret (f (int (unat w)))) :: ('z bitReader_scheme, 'a) go) (int_bits n x) (f x)"
proof -
  have "x < 2 ^ 28" using assms(2) power_increasing [OF assms(3), of "2 :: int"] by simp
  then have u: "int (unat (word_of_int x :: u32)) = x" using assms(1) by (intro unat_u32_of_int) simp_all
  have "reads (bnd (read_n n) (\<lambda>w. ret (f (int (unat w)))) :: ('z bitReader_scheme, 'a) go) (int_bits n x @ []) (f x)"
    by (rule reads_bnd [OF reads_read_n [OF assms]]) (simp add: u)
  then show ?thesis by simp
qed

lemma reads_std_levelCode:
  assumes "p \<le> 15" "0 \<le> x" "x < 2 ^ std_size s p" "s \<le> 6"
  shows "reads (std_levelCode s :: ('z bitReader_scheme, int) go) (level_bits p (std_size s p) x)
    (int p * 2 ^ s + x + (if p = 15 \<and> s = 0 then 15 else 0))"
proof -
  define c where "c = int p * 2 ^ s + x + (if p = 15 \<and> s = 0 then 15 else 0)"
  have n: "std_size s p \<le> 28" using assms by (auto simp: std_size_def)
  have "reads (std_levelCode s :: ('z bitReader_scheme, int) go) ((replicate p False @ [True]) @ int_bits (std_size s p) x) c"
    unfolding std_levelCode_def
  proof (rule reads_bnd [OF reads_prefix])
    have "(if 15 \<le> p \<and> s = 0 then 15 else 0) = (if p = 15 \<and> s = 0 then 15 else (0 :: int))" "min 15 p = p" "\<not> 28 < p" "\<not> 16 \<le> p"
      using assms(1) by auto
    then show "reads (if p > 28 then fail ErrInvalidData
     else let size = (if p = 14 \<and> s = 0 then 4 else if p \<ge> 15 then p - 3 else s)
     in bnd (read_n size) (\<lambda>level_suffix.
     ret (int (min 15 p) * 2 ^ s + int (unat level_suffix)
       + (if p \<ge> 15 \<and> s = 0 then 15 else 0)
       + (if p \<ge> 16 then 2 ^ (p - 3) - 4096 else 0))) :: ('z bitReader_scheme, int) go) (int_bits (std_size s p) x) c"
      unfolding Let_def std_size_def [symmetric] c_def
      using reads_read_n_value [OF assms(2,3) n, of "\<lambda>y. int p * 2 ^ s + y + (if p = 15 \<and> s = 0 then 15 else 0) + 0"]
      by (simp only: if_False if_True)  simp
  qed
  then show ?thesis by (simp add: level_bits_def c_def)
qed

text \<open>The code of a level in the standard.\<close>

definition level_code :: "int \<Rightarrow> int" where
  "level_code v = (if v < 0 then - v * 2 - 1 else v * 2 - 2)"

lemma std_value_level_code: "v \<noteq> 0 \<Longrightarrow> std_value (level_code v) = v"
  by (auto simp: std_value_def level_code_def)

lemma level_code_nonneg: "v \<noteq> 0 \<Longrightarrow> 0 \<le> level_code v"
  by (simp add: level_code_def)

lemma i32_minus: "in_i32 v \<Longrightarrow> v < 0 \<Longrightarrow> 0 \<le> i32 (- v) * 2 - 1 \<Longrightarrow> i32 (- v) = - v"
proof -
  assume h: "in_i32 v" "v < 0" "0 \<le> i32 (- v) * 2 - 1"
  have "v \<noteq> MinInt32"
  proof
    assume "v = MinInt32"
    then have "i32 (- v) = MinInt32" by (simp add: i32_def)
    then show False using h(3) by simp
  qed
  then show ?thesis using h by (intro i32_id) (auto simp: in_i32_def)
qed

lemma cavlcLevelCode_Inr: "in_i32 v \<Longrightarrow> cavlcLevelCode v = Inr c \<Longrightarrow> v \<noteq> 0 \<and> c = level_code v"
  using i32_minus [of v] by (auto simp: cavlcLevelCode_def level_code_def split: if_splits)

lemma subsequent_level:
  assumes v: "in_i32 v" and w: "writeCAVLCSubsequentLevel v s bw = (Inr (), bw')"
  shows "\<exists>code. writes (writeCAVLCSubsequentLevel v s) code
      \<and> reads (std_levelCode s :: ('z bitReader_scheme, int) go) code (level_code v)"
    "v \<noteq> 0 \<and> \<bar>v\<bar> \<le> 480 \<and> 1 \<le> s \<and> s \<le> 6"
proof -
  define c where "c = (if v < 0 then i32 (- v) * 2 - 1 else v * 2 - 2)"
  have g: "v \<noteq> 0" "1 \<le> s" "s \<le> 6" "0 \<le> c" "drop_bit s c < 15"
    using w by (auto simp: writeCAVLCSubsequentLevel_def c_def [symmetric] Let_def fail_def split: if_splits)
  have c: "c = level_code v" using i32_minus [OF v] g(4) by (auto simp: c_def level_code_def)
  define p where "p = nat (drop_bit s c)"
  define x where "x = c mod 2 ^ s"
  have p: "p < 15" "0 \<le> drop_bit s c" "int p = c div 2 ^ s" using g(4,5) by (auto simp: p_def drop_bit_eq_div div_int_pos_iff)
  have x: "0 \<le> x" "x < 2 ^ s" "int p * 2 ^ s + x = c"
    unfolding p(3) by (simp_all add: x_def div_mult_mod_eq)
  have a: "c AND (push_bit s 1 - 1) = x" by (simp add: x_def push_bit_eq_mult and_exp_eq_0_iff_not_bit mask_eq_exp_minus_1 [symmetric] take_bit_eq_mask [symmetric] take_bit_eq_mod)
  have e: "writeCAVLCSubsequentLevel v s = thn (write_zeros p) (thn (WriteBit 1) (write_suffix x s))"
    unfolding writeCAVLCSubsequentLevel_def c_def [symmetric] Let_def a p_def using g by simp
  have sz: "std_size s p = s" using p(1) g(2) by (simp add: std_size_def)
  have "reads (std_levelCode s :: ('z bitReader_scheme, int) go) (level_bits p s x) (int p * 2 ^ s + x + (if p = 15 \<and> s = 0 then 15 else 0))"
    using reads_std_levelCode [of p x s] p(1) x(1,2) g(3) unfolding sz by simp
  then have "reads (std_levelCode s :: ('z bitReader_scheme, int) go) (level_bits p s x) (level_code v)"
    using p(1) x(3) c by simp
  then show "\<exists>code. writes (writeCAVLCSubsequentLevel v s) code
      \<and> reads (std_levelCode s :: ('z bitReader_scheme, int) go) code (level_code v)"
    unfolding e using writes_level by blast
  have "(2::int) ^ s \<le> 2 ^ 6" using g(3) by (intro power_increasing) auto
  then have "(2::int) ^ s \<le> 64" by simp
  moreover have "int p * 2 ^ s \<le> 14 * 2 ^ s" using p(1) by (intro mult_right_mono) auto
  ultimately have "c < 960" using x(2,3) by linarith
  then have "\<bar>v\<bar> \<le> 480" unfolding c level_code_def by (auto split: if_splits)
  then show "v \<noteq> 0 \<and> \<bar>v\<bar> \<le> 480 \<and> 1 \<le> s \<and> s \<le> 6" using g by simp
qed

lemma level_code_written:
  assumes w: "writeCAVLCLevelCode c bw = (Inr (), bw')"
  shows "\<exists>code. writes (writeCAVLCLevelCode c) code \<and> reads (std_levelCode 0 :: ('z bitReader_scheme, int) go) code c"
    "0 \<le> c \<and> c \<le> 4125"
proof -
  define p where "p = (if c \<ge> 30 then 15 else if c \<ge> 14 then 14 else nat c)"
  define x where "x = (if c \<ge> 30 then c - 30 else if c \<ge> 14 then c - 14 else 0)"
  have g: "0 \<le> c" "c \<le> 4125" using w by (auto simp: writeCAVLCLevelCode_def fail_def split: if_splits)
  have sz: "std_size 0 p = (if c \<ge> 30 then 12 else if c \<ge> 14 then 4 else 0)" using g by (auto simp: std_size_def p_def)
  have e: "writeCAVLCLevelCode c = thn (write_zeros p) (thn (WriteBit 1) (write_suffix x (std_size 0 p)))"
    unfolding writeCAVLCLevelCode_def sz using g by (auto simp: p_def x_def)
  have "reads (std_levelCode 0 :: ('z bitReader_scheme, int) go) (level_bits p (std_size 0 p) x) (int p * 2 ^ 0 + x + (if p = 15 \<and> (0::nat) = 0 then 15 else 0))"
    by (intro reads_std_levelCode) (use g in \<open>auto simp: p_def x_def std_size_def\<close>)
  moreover have "int p * 2 ^ 0 + x + (if p = 15 \<and> (0::nat) = 0 then 15 else 0) = c" using g by (auto simp: p_def x_def)
  ultimately show "\<exists>code. writes (writeCAVLCLevelCode c) code \<and> reads (std_levelCode 0 :: ('z bitReader_scheme, int) go) code c"
    unfolding e using writes_level by metis
  show "0 \<le> c \<and> c \<le> 4125" using g by simp
qed

text \<open>The first level that is not a trailing one, and the suffix length after it.\<close>

lemma suffix_after_first:
  assumes "\<bar>v\<bar> < 2 ^ 30" "s \<le> 1" "c \<ge> 14 \<Longrightarrow> \<bar>v\<bar> > 3"
  shows "cavlcSuffixLengthAfterFirstLevel v c = std_suffix s v"
  using first_suffix_std [OF assms(1,2)] assms(2,3) by (auto simp: cavlcSuffixLengthAfterFirstLevel_def std_suffix_def)

lemma first_with_suffix:
  assumes v: "in_i32 v" and w: "writeCAVLCFirstLevelWithSuffix v s bw = (Inr s', bw')"
  shows "\<exists>code. writes_val (writeCAVLCFirstLevelWithSuffix v s) code s'
      \<and> reads (std_levelCode s :: ('z bitReader_scheme, int) go) code (level_code v - 2)"
    "s' = std_suffix s v \<and> v \<noteq> 0 \<and> s \<le> 1 \<and> \<bar>v\<bar> < 2 ^ 30"
proof -
  define u where "u = (if v < 0 then v + 1 else v - 1)"
  have g: "v \<noteq> 0" "v \<noteq> 1" "v \<noteq> - 1" "s \<le> 1"
    using w by (auto simp: writeCAVLCFirstLevelWithSuffix_def fail_def split: if_splits)
  have u: "(if v < 0 then i32 (v + 1) else i32 (v - 1)) = u" "in_i32 u" "level_code u = level_code v - 2" "u \<noteq> 0"
    using v g by (auto simp: u_def in_i32_def i32_id level_code_def)
  obtain c where c: "cavlcFirstLevelCode v = Inr c"
    using w g by (cases "cavlcFirstLevelCode v") (auto simp: writeCAVLCFirstLevelWithSuffix_def fail_def split: if_splits)
  have "cavlcLevelCode u = Inr c" using c g u(1) by (auto simp: cavlcFirstLevelCode_def split: if_splits)
  then have cc: "c = level_code v - 2" using cavlcLevelCode_Inr [OF u(2)] u(3) by blast
  have e: "writeCAVLCFirstLevelWithSuffix v s = thn (if s = 0 then writeCAVLCLevelCode c else writeCAVLCSubsequentLevel u s)
      (ret (cavlcSuffixLengthAfterFirstLevel v c))"
    unfolding writeCAVLCFirstLevelWithSuffix_def u(1) c using g by simp
  have k: "\<exists>code. writes (if s = 0 then writeCAVLCLevelCode c else writeCAVLCSubsequentLevel u s) code
      \<and> reads (std_levelCode s :: ('z bitReader_scheme, int) go) code c \<and> \<bar>v\<bar> < 2 ^ 30"
  proof (cases "s = 0")
    case True
    then obtain bw1 where b: "writeCAVLCLevelCode c bw = (Inr (), bw1)" using w unfolding e thn_Inr by auto
    have "\<bar>v\<bar> < 2 ^ 30" using level_code_written(2) [OF b] unfolding cc level_code_def by (auto split: if_splits)
    then show ?thesis using level_code_written(1) [OF b, where 'z = 'z] True by simp
  next
    case False
    then obtain bw1 where b: "writeCAVLCSubsequentLevel u s bw = (Inr (), bw1)" using w unfolding e thn_Inr by auto
    have "\<bar>v\<bar> < 2 ^ 30" using subsequent_level(2) [OF u(2) b] by (auto simp: u_def split: if_splits)
    then show ?thesis using subsequent_level(1) [OF u(2) b, where 'z = 'z] False by (simp add: cc u(3))
  qed
  then obtain code where k: "writes (if s = 0 then writeCAVLCLevelCode c else writeCAVLCSubsequentLevel u s) code"
    "reads (std_levelCode s :: ('z bitReader_scheme, int) go) code c" "\<bar>v\<bar> < 2 ^ 30" by blast
  have s': "s' = cavlcSuffixLengthAfterFirstLevel v c" using w unfolding e thn_Inr by (auto simp: ret_def)
  have "writes_val (writeCAVLCFirstLevelWithSuffix v s) (code @ []) s'"
    unfolding e s' by (rule writes_val_thn [OF k(1) writes_val_ret])
  then show "\<exists>code. writes_val (writeCAVLCFirstLevelWithSuffix v s) code s'
      \<and> reads (std_levelCode s :: ('z bitReader_scheme, int) go) code (level_code v - 2)"
    using k(2) unfolding cc append_Nil2 by blast
  have "s' = std_suffix s v" unfolding s'
    by (rule suffix_after_first [OF k(3) g(4)]) (auto simp: cc level_code_def split: if_splits)
  then show "s' = std_suffix s v \<and> v \<noteq> 0 \<and> s \<le> 1 \<and> \<bar>v\<bar> < 2 ^ 30" using g k(3) by simp
qed

lemma first_with_ones:
  assumes v: "in_i32 v" and w: "writeCAVLCFirstLevelWithTrailingOnes v s t1 bw = (Inr s', bw')"
  shows "\<exists>code. writes_val (writeCAVLCFirstLevelWithTrailingOnes v s t1) code s'
      \<and> reads (std_levelCode s :: ('z bitReader_scheme, int) go) code (level_code v - (if t1 < 3 then 2 else 0))"
    "s' = std_suffix s v \<and> v \<noteq> 0 \<and> s \<le> 1"
proof -
  have "(\<exists>code. writes_val (writeCAVLCFirstLevelWithTrailingOnes v s t1) code s'
      \<and> reads (std_levelCode s :: ('z bitReader_scheme, int) go) code (level_code v - (if t1 < 3 then 2 else 0)))
    \<and> s' = std_suffix s v \<and> v \<noteq> 0 \<and> s \<le> 1"
  proof (cases "t1 < 3")
    case True
    then have e: "writeCAVLCFirstLevelWithTrailingOnes v s t1 = writeCAVLCFirstLevelWithSuffix v s"
      using w by (auto simp: writeCAVLCFirstLevelWithTrailingOnes_def fail_def split: if_splits)
    show ?thesis
      using first_with_suffix(1) [OF v w [unfolded e], where 'z = 'z] first_with_suffix(2) [OF v w [unfolded e]] True
      unfolding e by simp_all
  next
    case False
    have g: "v \<noteq> 0" "s = 0" using w False by (auto simp: writeCAVLCFirstLevelWithTrailingOnes_def fail_def split: if_splits)
    obtain c where c: "cavlcLevelCode v = Inr c"
      using w False by (cases "cavlcLevelCode v") (auto simp: writeCAVLCFirstLevelWithTrailingOnes_def fail_def split: if_splits)
    have cc: "c = level_code v" using cavlcLevelCode_Inr [OF v c] by simp
    have e: "writeCAVLCFirstLevelWithTrailingOnes v s t1 = thn (writeCAVLCLevelCode c) (ret (cavlcSuffixLengthAfterFirstLevel v c))"
      using w False g c by (auto simp: writeCAVLCFirstLevelWithTrailingOnes_def fail_def split: if_splits)
    obtain bw1 where b: "writeCAVLCLevelCode c bw = (Inr (), bw1)" using w unfolding e thn_Inr by auto
    obtain code where k: "writes (writeCAVLCLevelCode c) code" "reads (std_levelCode 0 :: ('z bitReader_scheme, int) go) code c"
      using level_code_written(1) [OF b, where 'z = 'z] by blast
    have s': "s' = cavlcSuffixLengthAfterFirstLevel v c" using w unfolding e thn_Inr by (auto simp: ret_def)
    have "writes_val (writeCAVLCFirstLevelWithTrailingOnes v s t1) (code @ []) s'"
      unfolding e s' by (rule writes_val_thn [OF k(1) writes_val_ret])
    then have r: "\<exists>code. writes_val (writeCAVLCFirstLevelWithTrailingOnes v s t1) code s'
      \<and> reads (std_levelCode s :: ('z bitReader_scheme, int) go) code (level_code v - (if t1 < 3 then 2 else 0))"
      using k(2) False g(2) unfolding cc append_Nil2 by auto
    have "\<bar>v\<bar> < 2 ^ 30" using level_code_written(2) [OF b] unfolding cc level_code_def by (auto split: if_splits)
    then have "s' = std_suffix s v" unfolding s'
      by (rule suffix_after_first) (auto simp: g(2) cc level_code_def split: if_splits)
    then show ?thesis using g r by simp
  qed
  then show "\<exists>code. writes_val (writeCAVLCFirstLevelWithTrailingOnes v s t1) code s'
      \<and> reads (std_levelCode s :: ('z bitReader_scheme, int) go) code (level_code v - (if t1 < 3 then 2 else 0))"
    "s' = std_suffix s v \<and> v \<noteq> 0 \<and> s \<le> 1" by blast+
qed

lemma reads_std_rest:
  assumes "reads (std_levelCode s :: ('z bitReader_scheme, int) go) a (level_code v - add)" "v \<noteq> 0"
    "reads (std_rest n (std_suffix s v) 0 :: ('z bitReader_scheme, int list) go) b vs"
  shows "reads (std_rest (Suc n) s add :: ('z bitReader_scheme, int list) go) (a @ b) (v # vs)"
  unfolding std_rest.simps
proof (rule reads_bnd [OF assms(1)])
  have "reads (bnd (std_rest n (std_suffix s v) 0) (\<lambda>vs. ret (v # vs)) :: ('z bitReader_scheme, int list) go) (b @ []) (v # vs)"
    by (rule reads_bnd [OF assms(3) reads_ret])
  then show "reads (let v' = std_value (level_code v - add + add) in
     bnd (std_rest n (std_suffix s v') 0) (\<lambda>vs. ret (v' # vs)) :: ('z bitReader_scheme, int list) go) b (v # vs)"
    by (simp add: std_value_level_code [OF assms(2)])
qed

lemma levels_down:
  "write_levels_down n level s bw = (Inr (), bw') \<Longrightarrow> n \<le> length level \<Longrightarrow> list_all in_i32 level \<Longrightarrow>
   \<exists>code. writes (write_levels_down n level s) code
     \<and> reads (std_rest n s 0 :: ('z bitReader_scheme, int list) go) code (rev (take n level))"
proof (induction n arbitrary: s bw)
  case 0
  then show ?case by (intro exI [of _ "[]"]) simp
next
  case (Suc n)
  define v where "v = level ! n"
  have v: "in_i32 v" using Suc.prems(2,3) by (simp add: v_def list_all_length)
  obtain bw1 where w: "writeCAVLCSubsequentLevel v s bw = (Inr (), bw1)"
    "write_levels_down n level (cavlcSuffixLengthAfterSubsequentLevel v s) bw1 = (Inr (), bw')"
    using Suc.prems(1) by (auto simp: thn_Inr v_def)
  note r = subsequent_level(2) [OF v w(1)]
  have s': "cavlcSuffixLengthAfterSubsequentLevel v s = std_suffix s v"
    using next_suffix_std [of v s] r by (simp add: cavlcSuffixLengthAfterSubsequentLevel_def)
  obtain a where a: "writes (writeCAVLCSubsequentLevel v s) a" "reads (std_levelCode s :: ('z bitReader_scheme, int) go) a (level_code v - 0)"
    using subsequent_level(1) [OF v w(1), where 'z = 'z] by auto
  obtain b where b: "writes (write_levels_down n level (std_suffix s v)) b"
    "reads (std_rest n (std_suffix s v) 0 :: ('z bitReader_scheme, int list) go) b (rev (take n level))"
    using Suc.IH [OF w(2)] Suc.prems(2,3) unfolding s' by auto
  have "writes (write_levels_down (Suc n) level s) (a @ b)"
    unfolding write_levels_down.simps v_def [symmetric] s' by (rule writes_thn [OF a(1) b(1)])
  moreover have "reads (std_rest (Suc n) s 0 :: ('z bitReader_scheme, int list) go) (a @ b) (v # rev (take n level))"
    using r by (intro reads_std_rest a(2) b(2)) simp
  moreover have "v # rev (take n level) = rev (take (Suc n) level)"
    using Suc.prems(2) by (simp add: take_Suc_conv_app_nth v_def)
  ultimately show ?case by metis
qed

lemma writes_signs: "writes (write_signs lo k level) (map (\<lambda>i. level ! i < 0) (rev [lo..<lo + k]))"
proof (induction k)
  case (Suc k)
  have "[bit (if level ! (lo + k) < 0 then 1 else 0 :: u32) 0] = [level ! (lo + k) < 0]" by simp
  then show ?case using writes_thn [OF writes_WriteBit [of "if level ! (lo + k) < 0 then 1 else 0"] Suc] by simp
qed simp

lemma reads_signs:
  "length xs = length bs \<Longrightarrow>
   reads (mapM (\<lambda>_. std_sign) xs :: ('z bitReader_scheme, int list) go) bs (map (\<lambda>b. if b then - 1 else 1) bs)"
proof (induction xs arbitrary: bs)
  case (Cons x xs)
  then obtain b cs where bs: "bs = b # cs" by (cases bs) auto
  have "reads (std_sign :: ('z bitReader_scheme, int) go) ([b] @ []) (if b then - 1 else 1)"
    unfolding std_sign_def by (rule reads_bnd [OF reads_readBit]) auto
  then have "reads (bnd std_sign (\<lambda>y. bnd (mapM (\<lambda>_. std_sign) xs) (\<lambda>ys. ret (y # ys))) :: ('z bitReader_scheme, int list) go)
      (([b] @ []) @ (cs @ [])) ((if b then - 1 else 1) # map (\<lambda>b. if b then - 1 else 1) cs)"
    using Cons by (intro reads_bnd [where v = "if b then - 1 else 1"] reads_bnd [where v = "map (\<lambda>b. if b then - 1 else 1) cs"]) (auto simp: bs)
  then show ?case by (simp add: bs)
qed simp

text \<open>The levels of a block from the one last in the scan on: trailing ones, then the rest.\<close>

lemma reads_levels:
  assumes c: "level \<noteq> []" "length level \<le> 16" "t1 \<le> 3" "t1 \<le> length level" and one: "list_all is_one (drop (length level - t1) level)"
    and r: "reads (std_rest (length level - t1) (if length level > 10 \<and> t1 < 3 then 1 else 0) (if t1 < 3 then 2 else 0)
      :: ('z bitReader_scheme, int list) go) code (rev (take (length level - t1) level))"
  shows "reads (readCAVLCLevels (int (length level)) (int t1) :: ('z bitReader_scheme, int list) go)
    (map (\<lambda>i. level ! i < 0) (rev [length level - t1..<length level - t1 + t1]) @ code)
    (rev level @ replicate (16 - length level) 0)"
proof -
  define lo where "lo = length level - t1"
  define bs where "bs = map (\<lambda>i. level ! i < 0) (rev [lo..<lo + t1])"
  have "map (\<lambda>b. if b then - 1 else 1) bs = rev (drop lo level)"
  proof (rule nth_equalityI)
    fix i
    assume "i < length (map (\<lambda>b. if b then - 1 else 1) bs)"
    then have i: "i < t1" by (simp add: bs_def)
    have l: "length level = lo + t1" using c(4) by (simp add: lo_def)
    have "\<forall>k<t1. is_one (level ! (lo + k))" using one l unfolding lo_def [symmetric] by (simp add: list_all_length)
    then have "t1 - Suc i < t1 \<longrightarrow> is_one (level ! (lo + (t1 - Suc i)))" by (rule spec)
    then have "is_one (level ! (lo + t1 - Suc i))" using i by simp
    then show "map (\<lambda>b. if b then - 1 else 1) bs ! i = rev (drop lo level) ! i"
      using i l by (auto simp: bs_def rev_nth is_one_def)
  qed (simp add: bs_def c(4) lo_def)
  then have s: "reads (mapM (\<lambda>_. std_sign) [0..<t1] :: ('z bitReader_scheme, int list) go) bs (rev (drop lo level))"
    using reads_signs [of "[0..<t1]" bs] by (simp add: bs_def)
  have "reads (std_levels (length level) t1 :: ('z bitReader_scheme, int list) go) (bs @ code @ []) (rev (drop lo level) @ rev (take lo level))"
    unfolding std_levels_def by (rule reads_bnd [OF s reads_bnd [OF r]]) (simp_all add: lo_def)
  moreover have "rev (drop lo level) @ rev (take lo level) = rev level" by (metis append_take_drop_id rev_append)
  ultimately have l: "reads (std_levels (length level) t1 :: ('z bitReader_scheme, int list) go) (bs @ code) (rev level)" by simp
  have "reads (bnd (std_levels (length level) t1) (\<lambda>vs. ret (fill_from 0 vs (replicate 16 0))) :: ('z bitReader_scheme, int list) go)
      ((bs @ code) @ []) (fill_from 0 (rev level) (replicate 16 0))"
    by (rule reads_bnd [OF l reads_ret])
  moreover have "fill_from 0 (rev level) (replicate 16 0) = rev level @ replicate (16 - length level) 0"
    using fill_from_zeros [of "rev level" 16 "[]" 0] c(2) by simp
  ultimately show ?thesis
    using reads_agrees [OF readCAVLCLevels_agrees [of "length level" t1]] c by (simp add: bs_def lo_def Suc_le_eq)
qed

section \<open>Zeros and runs\<close>

text \<open>The bits of the runs in front of the coefficients below the \<open>n\<close>th, with \<open>zerosLeft\<close> zeros among them.\<close>

fun runs_read :: "nat \<Rightarrow> nat list \<Rightarrow> int \<Rightarrow> bool list \<Rightarrow> bool" where
  "runs_read 0 scanIndex zerosLeft code = (code = [])"
| "runs_read (Suc i) scanIndex zerosLeft code =
     (if \<not> zerosLeft > 0 then code = []
      else let runBefore = int (scanIndex ! (i + 1)) - int (scanIndex ! i) - 1 in
      \<exists>a b. code = a @ b \<and> reads (readCAVLCRunBefore zerosLeft :: (resid, nat) go) a (nat runBefore)
        \<and> runs_read i scanIndex (zerosLeft - runBefore) b)"

lemma runs_written:
  "write_runs n scanIndex zerosLeft bw = (Inr (), bw') \<Longrightarrow>
   \<exists>code. writes (write_runs n scanIndex zerosLeft) code \<and> runs_read n scanIndex zerosLeft code"
proof (induction n arbitrary: zerosLeft bw)
  case 0
  then show ?case by (intro exI [of _ "[]"]) simp
next
  case (Suc n)
  define rb where "rb = int (scanIndex ! (n + 1)) - int (scanIndex ! n) - 1"
  show ?case
  proof (cases "zerosLeft > 0")
    case True
    then obtain bw1 where w: "writeCAVLCRunBefore rb zerosLeft bw = (Inr (), bw1)" "write_runs n scanIndex (zerosLeft - rb) bw1 = (Inr (), bw')"
      using Suc.prems by (auto simp: thn_Inr rb_def Let_def)
    obtain a where a: "writes (writeCAVLCRunBefore rb zerosLeft) a" "reads (readCAVLCRunBefore zerosLeft :: (resid, nat) go) a (nat rb)"
      using runBefore_code(1) [OF w(1)] by blast
    obtain b where b: "writes (write_runs n scanIndex (zerosLeft - rb)) b" "runs_read n scanIndex (zerosLeft - rb) b"
      using Suc.IH [OF w(2)] by blast
    have "writes (write_runs (Suc n) scanIndex zerosLeft) (a @ b)"
      using writes_thn [OF a(1) b(1)] True by (simp add: rb_def Let_def)
    moreover have "runs_read (Suc n) scanIndex zerosLeft (a @ b)" using a(2) b(2) True by (auto simp: rb_def Let_def)
    ultimately show ?thesis by blast
  next
    case False
    then show ?thesis by (intro exI [of _ "[]"]) simp
  qed
qed

section \<open>Filling in a block\<close>

definition fills :: "nat \<Rightarrow> (resid, 'a) go \<Rightarrow> bool list \<Rightarrow> 'a \<Rightarrow> (int list \<Rightarrow> int list) \<Rightarrow> bool" where
  "fills L m code v f \<longleftrightarrow>
     (\<forall>b. length b = L \<longrightarrow> length (f b) = L) \<and>
     (\<forall>s rest. wf_reader s \<longrightarrow> rem_bits s = code @ rest \<longrightarrow> length (rs_block s) = L \<longrightarrow>
       m s = (Inr v, adv (length code) (s\<lparr>rs_block := f (rs_block s)\<rparr>)))"

lemma block_update [simp]:
  "wf_reader (s\<lparr>rs_block := b\<rparr>) = wf_reader s" "rem_bits (s\<lparr>rs_block := b\<rparr>) = rem_bits s"
  "(adv n s)\<lparr>rs_block := b\<rparr> = adv n (s\<lparr>rs_block := b\<rparr>)" "rs_block (adv n s) = rs_block s" for s :: resid
  by (simp_all add: wf_reader_def rem_bits_def adv_def)

lemma fills_reads: "reads m code v \<Longrightarrow> fills L m code v (\<lambda>b. b)"
  by (simp add: fills_def reads_def)

lemma fills_ret: "fills L (ret v) [] v (\<lambda>b. b)"
  by (simp add: fills_def ret_def)

lemma fills_bnd:
  assumes m: "fills L m a v f" and k: "fills L (k v) b w g"
  shows "fills L (bnd m k) (a @ b) w (\<lambda>x. g (f x))"
  unfolding fills_def
proof (intro conjI allI impI)
  show "length (g (f x)) = L" if "length x = L" for x using m k that by (simp add: fills_def)
  fix s :: resid and rest
  assume s: "wf_reader s" "rem_bits s = (a @ b) @ rest" "length (rs_block s) = L"
  have 1: "m s = (Inr v, adv (length a) (s\<lparr>rs_block := f (rs_block s)\<rparr>))" using m s by (simp add: fills_def)
  have n: "length (f (rs_block s)) = L" using m s(3) by (simp add: fills_def)
  define s1 where "s1 = adv (length a) (s\<lparr>rs_block := f (rs_block s)\<rparr>)"
  have "wf_reader s1 \<and> rem_bits s1 = drop (length a) (rem_bits s)"
    using adv_wf [of "s\<lparr>rs_block := f (rs_block s)\<rparr>" "length a"] s by (simp add: s1_def)
  then have "wf_reader s1" "rem_bits s1 = b @ rest" using s(2) by simp_all
  moreover have "rs_block s1 = f (rs_block s)" by (simp add: s1_def)
  ultimately have "k v s1 = (Inr w, adv (length b) (s1\<lparr>rs_block := g (f (rs_block s))\<rparr>))"
    using k n by (simp add: fills_def)
  then show "bnd m k s = (Inr w, adv (length (a @ b)) (s\<lparr>rs_block := g (f (rs_block s))\<rparr>))"
    unfolding bnd_def 1 s1_def [symmetric] by (simp add: s1_def)
qed

lemma fills_thn: "fills L m a () f \<Longrightarrow> fills L k b w g \<Longrightarrow> fills L (thn m k) (a @ b) w (\<lambda>x. g (f x))"
  unfolding thn_def by (rule fills_bnd)

lemma fills_store: "pos < L \<Longrightarrow> fills L (storeCAVLCLevel pos level None n) [] () (\<lambda>b. b[pos := level])"
  by (simp add: fills_def storeCAVLCLevel_ok)

text \<open>The coefficients below the \<open>j\<close>th, stored from the last on.\<close>

definition puts :: "nat list \<Rightarrow> (nat \<times> int) list \<Rightarrow> nat \<Rightarrow> int list \<Rightarrow> int list" where
  "puts scan cs j = fold (\<lambda>i b. b[scan ! fst (cs ! i) := snd (cs ! i)]) (rev [0..<j])"

lemma puts_simps: "puts scan cs 0 = (\<lambda>b. b)" "puts scan cs (Suc j) = (\<lambda>b. puts scan cs j (b[scan ! fst (cs ! j) := snd (cs ! j)]))"
  by (simp_all add: puts_def fun_eq_iff)

lemma upt_down: "Suc j \<le> n \<Longrightarrow> [n - Suc j..<n] = (n - Suc j) # [n - j..<n]"
  by (subst upt_conv_Cons) (simp_all add: Suc_diff_Suc)

lemma fills_tail:
  assumes i: "\<And>i. i < j \<Longrightarrow> fst (cs ! i) = i \<and> i < length scan \<and> scan ! i < L" and j: "j \<le> length cs"
    and l: "length cs \<le> length level" "\<And>i. i < length cs \<Longrightarrow> level ! (length cs - Suc i) = snd (cs ! i)"
  shows "fills L (tail_loop [length cs - j..<length cs] level scan None n (int j)) [] () (puts scan cs j)"
  using i j
proof (induction j)
  case 0
  then show ?case using fills_ret [of L "()"] by (simp add: puts_simps)
next
  case (Suc j)
  have g: "fst (cs ! j) = j" "j < length scan" "scan ! j < L" using Suc.prems(1) [of j] by auto
  have "fills L (thn (storeCAVLCLevel (scan ! j) (snd (cs ! j)) None n) (tail_loop [length cs - j..<length cs] level scan None n (int j)))
      ([] @ []) () (\<lambda>b. puts scan cs j (b[scan ! j := snd (cs ! j)]))"
    using Suc by (intro fills_thn [OF fills_store [OF g(3)]]) auto
  moreover have "tail_loop [length cs - Suc j..<length cs] level scan None n (int (Suc j))
      = thn (storeCAVLCLevel (scan ! j) (snd (cs ! j)) None n) (tail_loop [length cs - j..<length cs] level scan None n (int j))"
    using g(2) l(1) l(2) [of j] Suc.prems(2) unfolding upt_down [OF Suc.prems(2)] by (simp add: store_at_ok)
  ultimately show ?case by (simp add: puts_simps g(1))
qed

lemma scan_grows:
  assumes "sorted_wrt (<) (map fst cs)" "Suc j < length cs"
  shows "fst (cs ! j) < fst (cs ! Suc j)" "j \<le> fst (cs ! j)" "fst (cs ! Suc j) = Suc j \<Longrightarrow> i \<le> j \<Longrightarrow> fst (cs ! i) = i"
proof -
  have lt: "fst (cs ! a) < fst (cs ! b)" if "a < b" "b < length cs" for a b
    using assms(1) that by (auto simp: sorted_wrt_iff_nth_less)
  have ge: "a \<le> fst (cs ! a)" if "a < length cs" for a
    using that
  proof (induction a)
    case (Suc a)
    then show ?case using lt [of a "Suc a"] by simp
  qed simp
  show "fst (cs ! j) < fst (cs ! Suc j)" "j \<le> fst (cs ! j)" using lt ge assms(2) by simp_all
  have le: "fst (cs ! (b - k)) \<le> fst (cs ! b) - k" if "k \<le> b" "b < length cs" for b k
    using that
  proof (induction k)
    case (Suc k)
    then have "fst (cs ! (b - Suc k)) < fst (cs ! (b - k))" by (intro lt) auto
    then show ?case using Suc by simp
  qed simp
  show "fst (cs ! i) = i" if "fst (cs ! Suc j) = Suc j" "i \<le> j"
    using le [of "Suc j - i" "Suc j"] ge [of i] that assms(2) by simp
qed

text \<open>What comes after the coefficient \<open>j\<close> is stored.\<close>

definition runs_part :: "nat \<Rightarrow> nat \<Rightarrow> int list \<Rightarrow> nat list \<Rightarrow> int \<Rightarrow> int \<Rightarrow> int \<Rightarrow> (resid, nat) go" where
  "runs_part tc j level scan n zl sc = bnd (run_loop [tc - j..<tc] level scan None n zl sc) (\<lambda>(is, zl, sc).
     thn (tail_loop is level scan None n sc) (if zl < 0 then fail ErrInvalidData else ret tc))"

lemma fills_runs:
  assumes g: "\<And>i. i < length cs \<Longrightarrow> fst (cs ! i) < length scan \<and> scan ! fst (cs ! i) < L"
    and l: "length cs \<le> length level" "\<And>i. i < length cs \<Longrightarrow> level ! (length cs - Suc i) = snd (cs ! i)" and s: "sorted_wrt (<) (map fst cs)"
  shows "j < length cs \<Longrightarrow> runs_read j (map fst cs) (int (fst (cs ! j)) - int j) code \<Longrightarrow>
    fills L (runs_part (length cs) j level scan n (int (fst (cs ! j)) - int j) (int (fst (cs ! j)))) code (length cs) (puts scan cs j)"
proof (induction j arbitrary: code)
  case 0
  then show ?case using fills_ret [of L "length cs"] by (simp add: runs_part_def puts_simps thn_def bnd_ret)
next
  case (Suc j)
  define zl where "zl = int (fst (cs ! Suc j)) - int (Suc j)"
  note gr = scan_grows [OF s Suc.prems(1)]
  have z: "0 \<le> zl" using gr by (simp add: zl_def)
  have u: "[length cs - Suc j..<length cs] = (length cs - Suc j) # [length cs - j..<length cs]"
    using Suc.prems(1) by (intro upt_down) simp
  show ?case
  proof (cases "zl > 0")
    case False
    then have z0: "zl = 0" "fst (cs ! Suc j) = Suc j" "code = []" using z Suc.prems(2) by (simp_all add: zl_def)
    have r: "runs_part (length cs) (Suc j) level scan n 0 (int (Suc j))
        = thn (tail_loop [length cs - Suc j..<length cs] level scan None n (int (Suc j))) (ret (length cs))"
      unfolding runs_part_def u by (simp add: bnd_ret Let_def)
    have t: "fills L (tail_loop [length cs - Suc j..<length cs] level scan None n (int (Suc j))) [] () (puts scan cs (Suc j))"
    proof (intro fills_tail l)
      show "i < Suc j \<Longrightarrow> fst (cs ! i) = i \<and> i < length scan \<and> scan ! i < L" for i
        using gr(3) [OF z0(2), of i] g [of i] Suc.prems(1) by simp
      show "Suc j \<le> length cs" using Suc.prems(1) by simp
    qed
    have "fills L (runs_part (length cs) (Suc j) level scan n 0 (int (Suc j))) ([] @ []) (length cs) (puts scan cs (Suc j))"
      unfolding r using fills_thn [OF t fills_ret] by simp
    then show ?thesis using z0 by (simp add: zl_def)
  next
    case True
    define rb where "rb = int (fst (cs ! Suc j)) - int (fst (cs ! j)) - 1"
    obtain a b where ab: "code = a @ b" "reads (readCAVLCRunBefore zl :: (resid, nat) go) a (nat rb)"
      "runs_read j (map fst cs) (zl - rb) b"
      using Suc.prems True by (auto simp: Let_def zl_def rb_def)
    have rb: "0 \<le> rb" "zl - rb = int (fst (cs ! j)) - int j" "int (fst (cs ! Suc j)) - (1 + rb) = int (fst (cs ! j))"
      "0 \<le> zl - rb" using gr by (simp_all add: rb_def zl_def)
    have gj: "fst (cs ! j) < length scan" "scan ! fst (cs ! j) < L" using g [of j] Suc.prems(1) by simp_all
    have ih: "fills L (runs_part (length cs) j level scan n (zl - rb) (int (fst (cs ! j)))) b (length cs) (puts scan cs j)"
      unfolding rb(2) using Suc.prems(1) ab(3) by (intro Suc.IH) (simp_all add: rb(2))
    have e: "runs_part (length cs) (Suc j) level scan n zl (int (fst (cs ! Suc j)))
        = bnd (readCAVLCRunBefore zl) (\<lambda>r. bnd (if zl - int r < 0 \<or> int (fst (cs ! Suc j)) - (1 + int r) < 0
              \<or> int (fst (cs ! Suc j)) - (1 + int r) \<ge> int (length scan) then fail ErrInvalidData
            else thn (store_at scan (int (fst (cs ! Suc j)) - (1 + int r)) level (length cs - Suc j) None n)
              (run_loop [length cs - j..<length cs] level scan None n (zl - int r) (int (fst (cs ! Suc j)) - (1 + int r))))
          (\<lambda>(is, zl, sc). thn (tail_loop is level scan None n sc) (if zl < 0 then fail ErrInvalidData else ret (length cs))))"
      unfolding runs_part_def u run_loop.simps using True by (simp add: bnd_assoc Let_def)
    have k: "fills L (thn (storeCAVLCLevel (scan ! fst (cs ! j)) (snd (cs ! j)) None n)
          (runs_part (length cs) j level scan n (zl - rb) (int (fst (cs ! j))))) ([] @ b) (length cs)
          (\<lambda>x. puts scan cs j (x[scan ! fst (cs ! j) := snd (cs ! j)]))"
      by (rule fills_thn [OF fills_store [OF gj(2)] ih])
    have "fills L (runs_part (length cs) (Suc j) level scan n zl (int (fst (cs ! Suc j)))) (a @ b) (length cs)
        (\<lambda>x. puts scan cs j (x[scan ! fst (cs ! j) := snd (cs ! j)]))"
      unfolding e by (rule fills_bnd [OF fills_reads [OF ab(2)]])
        (use k rb gj l(1) l(2) [of j] Suc.prems(1) in \<open>simp add: runs_part_def thn_def bnd_assoc store_at_ok\<close>)
    then show ?thesis by (simp add: puts_simps ab(1) zl_def)
  qed
qed

section \<open>The coefficients of a block\<close>

definition nonzeros :: "int list \<Rightarrow> int \<Rightarrow> nat list \<Rightarrow> int \<Rightarrow> (nat \<times> int) list" where
  "nonzeros block n scan mc = map (\<lambda>i. (i, block ! nat (n + int (scan ! i))))
     (filter (\<lambda>i. block ! nat (n + int (scan ! i)) \<noteq> 0) [0..<nat mc])"

lemma collect_loop_Inr:
  "collect_loop ok block n scan is acc = Inr cs \<Longrightarrow>
   cs = acc @ map (\<lambda>i. (i, block ! nat (n + int (scan ! i)))) (filter (\<lambda>i. block ! nat (n + int (scan ! i)) \<noteq> 0) is)
   \<and> list_all (\<lambda>i. 0 \<le> n + int (scan ! i) \<and> n + int (scan ! i) < int (length block)) is
   \<and> (\<forall>k. length acc \<le> k \<longrightarrow> k < length cs \<longrightarrow> ok k (snd (cs ! k)))"
proof (induction "is" arbitrary: acc)
  case (Cons i "is")
  define v where "v = block ! nat (n + int (scan ! i))"
  have p: "0 \<le> n + int (scan ! i)" "n + int (scan ! i) < int (length block)"
    using Cons.prems by (auto simp: Let_def split: if_splits)
  show ?case
  proof (cases "v = 0")
    case True
    then have "collect_loop ok block n scan is acc = Inr cs" using Cons.prems p by (simp add: v_def Let_def)
    note ih = Cons.IH [OF this]
    then have a: "cs = acc @ map (\<lambda>i. (i, block ! nat (n + int (scan ! i)))) (filter (\<lambda>i. block ! nat (n + int (scan ! i)) \<noteq> 0) is)" by blast
    show ?thesis
    proof (intro conjI)
      show "\<forall>k. length acc \<le> k \<longrightarrow> k < length cs \<longrightarrow> ok k (snd (cs ! k))" using ih by blast
    qed (use a ih True p in \<open>simp_all add: v_def\<close>)
  next
    case False
    then have o: "ok (length acc) v" and c: "collect_loop ok block n scan is (acc @ [(i, v)]) = Inr cs"
      using Cons.prems p by (auto simp: v_def Let_def split: if_splits)
    from Cons.IH [OF c] have ih: "cs = (acc @ [(i, v)]) @ map (\<lambda>i. (i, block ! nat (n + int (scan ! i)))) (filter (\<lambda>i. block ! nat (n + int (scan ! i)) \<noteq> 0) is)"
      "list_all (\<lambda>i. 0 \<le> n + int (scan ! i) \<and> n + int (scan ! i) < int (length block)) is"
      "\<And>k. length acc < k \<Longrightarrow> k < length cs \<Longrightarrow> ok k (snd (cs ! k))" by auto
    have "cs ! length acc = (i, v)" unfolding ih(1) by (simp add: nth_append)
    then have "ok k (snd (cs ! k))" if "length acc \<le> k" "k < length cs" for k
      using that ih(3) o by (cases "k = length acc") auto
    then show ?thesis using ih(1,2) p False by (simp add: v_def)
  qed
qed simp

lemma collect_Inr:
  assumes "collect ok block n scan mc = Inr cs"
  shows "cs = nonzeros block n scan mc" "0 < mc" "mc \<le> 16" "nat mc \<le> length scan"
    "\<And>i. i < nat mc \<Longrightarrow> 0 \<le> n + int (scan ! i) \<and> n + int (scan ! i) < int (length block)"
    "\<And>k. k < length cs \<Longrightarrow> ok k (snd (cs ! k))"
proof -
  have g: "0 < mc" "mc \<le> 16" "nat mc \<le> length scan" "collect_loop ok block n scan [0..<nat mc] [] = Inr cs"
    using assms by (auto simp: collect_def split: if_splits)
  show "0 < mc" "mc \<le> 16" "nat mc \<le> length scan" by (fact g)+
  show "cs = nonzeros block n scan mc" "\<And>i. i < nat mc \<Longrightarrow> 0 \<le> n + int (scan ! i) \<and> n + int (scan ! i) < int (length block)"
    "\<And>k. k < length cs \<Longrightarrow> ok k (snd (cs ! k))"
    using collect_loop_Inr [OF g(4)] by (auto simp: nonzeros_def list_all_length)
qed

lemma nonzeros_facts:
  "sorted_wrt (<) (map fst (nonzeros block n scan mc))" "length (nonzeros block n scan mc) \<le> nat mc"
  "(i, v) \<in> set (nonzeros block n scan mc) \<longleftrightarrow> i < nat mc \<and> v = block ! nat (n + int (scan ! i)) \<and> v \<noteq> 0"
proof -
  have m: "map fst (nonzeros block n scan mc) = filter (\<lambda>i. block ! nat (n + int (scan ! i)) \<noteq> 0) [0..<nat mc]"
    by (simp add: nonzeros_def comp_def)
  show "sorted_wrt (<) (map fst (nonzeros block n scan mc))" unfolding m by (rule sorted_wrt_filter) (rule sorted_wrt_upt)
  show "length (nonzeros block n scan mc) \<le> nat mc" using length_filter_le [of _ "[0..<nat mc]"] by (simp add: nonzeros_def)
  show "(i, v) \<in> set (nonzeros block n scan mc) \<longleftrightarrow> i < nat mc \<and> v = block ! nat (n + int (scan ! i)) \<and> v \<noteq> 0"
    by (auto simp: nonzeros_def)
qed

section \<open>One form for all the writers\<close>

definition level_writer :: "int list \<Rightarrow> nat \<Rightarrow> (bitWriter, unit) go" where
  "level_writer level t1 = (let tc = length level in if t1 = tc then ret ()
     else bnd (writeCAVLCFirstLevelWithTrailingOnes (level ! (tc - t1 - 1)) (if tc > 10 \<and> t1 < 3 then 1 else 0) (int t1))
       (write_levels_down (tc - t1 - 1) level))"

definition residual_writer :: "(nat \<times> int) list \<Rightarrow> int \<Rightarrow> int \<Rightarrow> (bitWriter, nat) go" where
  "residual_writer cs mc nC = (let tc = length cs; level = map snd cs; t1 = trailing_ones level in
     thn (writeCAVLCCoeffToken (int tc) (int t1) nC mc) (if tc = 0 then ret 0
       else thn (write_signs (tc - t1) t1 level) (thn (level_writer level t1) (write_zeros_runs cs mc))))"

lemma trailing_ones_facts:
  "trailing_ones level \<le> 3" "trailing_ones level \<le> length level"
  "list_all is_one (drop (length level - trailing_ones level) level)"
proof -
  have l: "trailing_ones level \<le> length (take 3 (rev level))" unfolding trailing_ones_def by (rule length_takeWhile_le)
  then show "trailing_ones level \<le> 3" "trailing_ones level \<le> length level" by simp_all
  have "takeWhile is_one (take 3 (rev level)) = take (trailing_ones level) (take 3 (rev level))"
    unfolding trailing_ones_def by (rule takeWhile_eq_take)
  also have "\<dots> = take (trailing_ones level) (rev level)" 
    using \<open>trailing_ones level \<le> 3\<close> by (simp add: min_absorb1)
  also have "\<dots> = rev (drop (length level - trailing_ones level) level)" by (simp add: take_rev)
  finally have "set (drop (length level - trailing_ones level) level) = set (takeWhile is_one (take 3 (rev level)))" by simp
  then show "list_all is_one (drop (length level - trailing_ones level) level)"
    by (auto simp: list_all_iff dest: set_takeWhileD)
qed

lemma level_writer_reads:
  assumes w: "level_writer level t1 bw = (Inr (), bw')" and t: "t1 \<le> length level" and r: "list_all in_i32 level"
  shows "\<exists>code. writes (level_writer level t1) code
    \<and> reads (std_rest (length level - t1) (if length level > 10 \<and> t1 < 3 then 1 else 0) (if t1 < 3 then 2 else 0)
      :: ('z bitReader_scheme, int list) go) code (rev (take (length level - t1) level))"
proof (cases "t1 = length level")
  case True
  then show ?thesis by (intro exI [of _ "[]"]) (simp add: level_writer_def)
next
  case False
  define m where "m = length level - t1 - 1"
  define s :: nat where "s = (if length level > 10 \<and> t1 < 3 then 1 else 0)"
  have m: "length level - t1 = Suc m" "m < length level" using False t by (simp_all add: m_def)
  define v where "v = level ! m"
  have v: "in_i32 v" using r m(2) by (simp add: v_def list_all_length)
  have e: "level_writer level t1 = bnd (writeCAVLCFirstLevelWithTrailingOnes v s (int t1)) (write_levels_down m level)"
    using False by (simp add: level_writer_def Let_def m_def s_def v_def)
  obtain s' bw1 where w1: "writeCAVLCFirstLevelWithTrailingOnes v s (int t1) bw = (Inr s', bw1)" and w2: "write_levels_down m level s' bw1 = (Inr (), bw')"
    using w unfolding e bnd_Inr by blast
  note f = first_with_ones(2) [OF v w1]
  obtain a where a: "writes_val (writeCAVLCFirstLevelWithTrailingOnes v s (int t1)) a s'"
    "reads (std_levelCode s :: ('z bitReader_scheme, int) go) a (level_code v - (if t1 < 3 then 2 else 0))"
    using first_with_ones(1) [OF v w1, where 'z = 'z] by auto
  obtain b where b: "writes (write_levels_down m level s') b"
    "reads (std_rest m s' 0 :: ('z bitReader_scheme, int list) go) b (rev (take m level))"
    using levels_down [OF w2 _ r] m(2) by auto
  have "writes (level_writer level t1) (a @ b)"
    unfolding e writes_val_unit by (rule writes_val_bnd [OF a(1)]) (use b(1) in \<open>simp add: writes_val_unit\<close>)
  moreover have "reads (std_rest (Suc m) s (if t1 < 3 then 2 else 0) :: ('z bitReader_scheme, int list) go) (a @ b) (v # rev (take m level))"
    using f b(2) by (intro reads_std_rest a(2)) simp_all
  moreover have "v # rev (take m level) = rev (take (Suc m) level)" using m(2) by (simp add: take_Suc_conv_app_nth v_def)
  ultimately show ?thesis unfolding m s_def by metis
qed

lemma zeros_runs_written:
  assumes "write_zeros_runs cs mc bw = (Inr w, bw')"
  shows "w = length cs \<and> (\<exists>a b. writes_val (write_zeros_runs cs mc) (a @ b) (length cs)
    \<and> reads (readCAVLCTotalZeros (int (length cs)) mc :: (resid, nat) go) a (nat (int (map fst cs ! (length cs - 1)) + 1 - int (length cs)))
    \<and> runs_read (length cs - 1) (map fst cs) (int (map fst cs ! (length cs - 1)) + 1 - int (length cs)) b)"
proof -
  define tz where "tz = int (map fst cs ! (length cs - 1)) + 1 - int (length cs)"
  have e: "write_zeros_runs cs mc = thn (writeCAVLCTotalZeros tz (int (length cs)) mc) (thn (write_runs (length cs - 1) (map fst cs) tz) (ret (length cs)))"
    by (simp add: write_zeros_runs_def Let_def tz_def)
  obtain bw1 bw2 where w: "writeCAVLCTotalZeros tz (int (length cs)) mc bw = (Inr (), bw1)"
    "write_runs (length cs - 1) (map fst cs) tz bw1 = (Inr (), bw2)" "w = length cs"
    using assms unfolding e thn_Inr by (auto simp: ret_def)
  obtain a where a: "writes (writeCAVLCTotalZeros tz (int (length cs)) mc) a"
    "reads (readCAVLCTotalZeros (int (length cs)) mc :: (resid, nat) go) a (nat tz)"
    using totalZeros_code [OF w(1)] by blast
  obtain b where b: "writes (write_runs (length cs - 1) (map fst cs) tz) b" "runs_read (length cs - 1) (map fst cs) tz b"
    using runs_written [OF w(2)] by blast
  have "writes_val (write_zeros_runs cs mc) (a @ b @ []) (length cs)"
    unfolding e by (rule writes_val_thn [OF a(1) writes_val_thn [OF b(1) writes_val_ret]])
  then show ?thesis using a(2) b(2) w(3) unfolding tz_def [symmetric] append_Nil2 by blast
qed

lemma decode_fills:
  assumes cs: "cs \<noteq> []" "length cs \<le> 16" "int (length cs) \<le> mc" "mc \<le> 16" "sorted_wrt (<) (map fst cs)"
    and g: "\<And>i. i < length cs \<Longrightarrow> fst (cs ! i) < length scan \<and> scan ! fst (cs ! i) < L" and t1: "t1 \<le> 3"
    and a: "reads (readCAVLCCoeffToken nC mc :: (resid, nat) go) a (4 * length cs + t1)"
    and b: "reads (readCAVLCLevels (int (length cs)) (int t1) :: (resid, int list) go) b (rev (map snd cs) @ replicate (16 - length cs) 0)"
    and c: "reads (readCAVLCTotalZeros (int (length cs)) mc :: (resid, nat) go) c (nat (int (map fst cs ! (length cs - 1)) + 1 - int (length cs)))"
    and d: "runs_read (length cs - 1) (map fst cs) (int (map fst cs ! (length cs - 1)) + 1 - int (length cs)) d"
  shows "fills L (decodeCAVLCResidual n scan None mc nC) (a @ b @ c @ d) (length cs) (puts scan cs (length cs))"
proof -
  define j where "j = length cs - 1"
  have j: "length cs = Suc j" "j < length cs" using cs(1) by (cases cs; simp add: j_def)+
  define level where "level = rev (map snd cs) @ replicate (16 - length cs) 0"
  have lv: "length cs \<le> length level" "0 < length level" using j by (simp_all add: level_def)
  have l: "level ! (length cs - Suc i) = snd (cs ! i)" if "i < length cs" for i
  proof -
    have k: "length cs - Suc i < length (rev (map snd cs))" using that by simp
    have "level ! (length cs - Suc i) = rev (map snd cs) ! (length cs - Suc i)" unfolding level_def nth_append using k by (rule if_P)
    also have "\<dots> = map snd cs ! (length cs - Suc (length cs - Suc i))" using that by (subst rev_nth) auto
    also have "length cs - Suc (length cs - Suc i) = i" using that by simp
    finally show ?thesis using that by simp
  qed
  have j_le: "j \<le> fst (cs ! j)"
  proof (cases j)
    case (Suc k)
    then show ?thesis using scan_grows(1,2) [OF cs(5), of k] j(1) by simp
  qed simp
  define tz where "tz = int (fst (cs ! j)) - int j"
  have tz: "int (map fst cs ! (length cs - 1)) + 1 - int (length cs) = tz" "0 \<le> tz" "nat tz + j = fst (cs ! j)"
    using j j_le by (simp_all add: tz_def)
  have z: "(if int (length cs) \<noteq> mc then readCAVLCTotalZeros (int (length cs)) mc else ret 0)
      = (readCAVLCTotalZeros (int (length cs)) mc :: (resid, nat) go)"
    using cs(3,4) j(1) by (auto simp: readCAVLCTotalZeros_def)
  have sym: "drop_bit 2 (4 * length cs + t1) = length cs" "(4 * length cs + t1) AND 3 = t1"
  proof -
    have "(4 * length cs + t1) AND mask 2 = (4 * length cs + t1) mod 2 ^ 2" by (simp only: take_bit_eq_mask [symmetric] take_bit_eq_mod)
    then show "(4 * length cs + t1) AND 3 = t1" using t1 by (simp add: mask_eq_exp_minus_1)
  qed (use t1 in \<open>simp add: drop_bit_eq_div\<close>)
  have gj: "fst (cs ! j) < length scan" "scan ! fst (cs ! j) < L" using g [OF j(2)] by simp_all
  have s: "fills L (thn (storeCAVLCLevel (scan ! fst (cs ! j)) (level ! 0) None n)
      (runs_part (length cs) j level scan n tz (int (fst (cs ! j))))) ([] @ d) (length cs)
      (\<lambda>x. puts scan cs j (x[scan ! fst (cs ! j) := level ! 0]))"
  proof (intro fills_thn [OF fills_store [OF gj(2)]])
    show "fills L (runs_part (length cs) j level scan n tz (int (fst (cs ! j)))) d (length cs) (puts scan cs j)"
      unfolding tz_def by (rule fills_runs [OF g lv(1) l cs(5) j(2) d [unfolded tz(1), folded j_def, unfolded tz_def]])
  qed
  have l0: "level ! 0 = snd (cs ! j)" using l [OF j(2)] j by simp
  have sc: "int (nat tz) + int (length cs) - 1 = int (fst (cs ! j))" using tz(3) j(1) by linarith
  have j1: "length cs - j = 1" using j by simp
  have "fills L (bnd (readCAVLCLevels (int (length cs)) (int t1)) (\<lambda>level.
     bnd (readCAVLCTotalZeros (int (length cs)) mc) (\<lambda>zeros.
     let zerosLeft = int zeros; scanIndex = zerosLeft + int (length cs) - 1 in
     if scanIndex < 0 \<or> scanIndex \<ge> int (length scan) then fail ErrInvalidData
     else thn (store_at scan scanIndex level 0 None n)
       (bnd (run_loop [1..<length cs] level scan None n zerosLeft scanIndex) (\<lambda>(is, zerosLeft, scanIndex).
       thn (tail_loop is level scan None n scanIndex)
       (if zerosLeft < 0 then fail ErrInvalidData else ret (length cs))))))) (b @ c @ d) (length cs)
       (\<lambda>x. puts scan cs j (x[scan ! fst (cs ! j) := level ! 0]))"
  proof (rule fills_bnd [OF fills_reads [OF b] fills_bnd [OF fills_reads [OF c]]])
    show "fills L (let zerosLeft = int (nat (int (map fst cs ! (length cs - 1)) + 1 - int (length cs))); scanIndex = zerosLeft + int (length cs) - 1 in
     if scanIndex < 0 \<or> scanIndex \<ge> int (length scan) then fail ErrInvalidData
     else thn (store_at scan scanIndex (rev (map snd cs) @ replicate (16 - length cs) 0) 0 None n)
       (bnd (run_loop [1..<length cs] (rev (map snd cs) @ replicate (16 - length cs) 0) scan None n zerosLeft scanIndex) (\<lambda>(is, zerosLeft, scanIndex).
       thn (tail_loop is (rev (map snd cs) @ replicate (16 - length cs) 0) scan None n scanIndex)
       (if zerosLeft < 0 then fail ErrInvalidData else ret (length cs))))) d (length cs)
       (\<lambda>x. puts scan cs j (x[scan ! fst (cs ! j) := level ! 0]))"
      unfolding level_def [symmetric] tz(1) Let_def sc
      using s gj(1) tz(2) lv(2) unfolding runs_part_def j1 by (simp add: store_at_ok)
  qed
  then have "fills L (bnd (readCAVLCCoeffToken nC mc) (\<lambda>coeffToken.
     let totalCoeff = drop_bit 2 coeffToken; trailingOnes = coeffToken AND 3 in
     if totalCoeff = 0 then ret 0
     else if int totalCoeff > mc then fail ErrInvalidData
     else bnd (readCAVLCLevels (int totalCoeff) (int trailingOnes)) (\<lambda>level.
     bnd (if int totalCoeff \<noteq> mc then readCAVLCTotalZeros (int totalCoeff) mc else ret 0) (\<lambda>zeros.
     let zerosLeft = int zeros; scanIndex = zerosLeft + int totalCoeff - 1 in
     if scanIndex < 0 \<or> scanIndex \<ge> int (length scan) then fail ErrInvalidData
     else thn (store_at scan scanIndex level 0 None n)
       (bnd (run_loop [1..<totalCoeff] level scan None n zerosLeft scanIndex) (\<lambda>(is, zerosLeft, scanIndex).
       thn (tail_loop is level scan None n scanIndex)
       (if zerosLeft < 0 then fail ErrInvalidData else ret totalCoeff))))))) (a @ b @ c @ d) (length cs)
       (\<lambda>x. puts scan cs j (x[scan ! fst (cs ! j) := level ! 0]))"
    by (intro fills_bnd [OF fills_reads [OF a]]) (use cs(1,3) z in \<open>simp add: sym Let_def\<close>)
  then show ?thesis unfolding decodeCAVLCResidual_def l0 by (simp add: puts_simps j(1))
qed

lemma residual_code:
  assumes w: "residual_writer cs mc nC bw = (Inr w, bw')"
    and cs: "length cs \<le> 16" "sorted_wrt (<) (map fst cs)" "list_all (\<lambda>x. in_i32 (snd x)) cs"
    and g: "\<And>i. i < length cs \<Longrightarrow> fst (cs ! i) < length scan \<and> scan ! fst (cs ! i) < L"
  shows "w = length cs \<and> (\<exists>code. writes_val (residual_writer cs mc nC) code (length cs)
    \<and> fills L (decodeCAVLCResidual n scan None mc nC) code (length cs) (puts scan cs (length cs)))"
proof -
  define t1 where "t1 = trailing_ones (map snd cs)"
  have t1: "t1 \<le> 3" "t1 \<le> length cs" "list_all is_one (drop (length cs - t1) (map snd cs))"
    using trailing_ones_facts [of "map snd cs"] by (simp_all add: t1_def)
  have n4: "nat (4 * int (length cs) + int t1) = 4 * length cs + t1" by linarith
  obtain bw1 where w1: "writeCAVLCCoeffToken (int (length cs)) (int t1) nC mc bw = (Inr (), bw1)"
    using w by (auto simp: residual_writer_def Let_def thn_Inr t1_def)
  obtain a where a: "writes (writeCAVLCCoeffToken (int (length cs)) (int t1) nC mc) a"
    "reads (readCAVLCCoeffToken nC mc :: (resid, nat) go) a (4 * length cs + t1)"
    using coeffToken_code(1) [OF w1, where 'z = "\<lparr>rs_block :: int list\<rparr>"] unfolding n4 by blast
  note tok = coeffToken_code(2) [OF w1]
  show ?thesis
  proof (cases "cs = []")
    case True
    have t0: "t1 = 0" using t1(2) True by simp
    have e: "residual_writer cs mc nC = thn (writeCAVLCCoeffToken (int (length cs)) (int t1) nC mc) (ret 0)"
      using True by (simp add: residual_writer_def t1_def)
    have "writes_val (residual_writer cs mc nC) (a @ []) 0" unfolding e by (rule writes_val_thn [OF a(1) writes_val_ret])
    moreover have "fills L (decodeCAVLCResidual n scan None mc nC) (a @ []) 0 (\<lambda>x. x)"
      unfolding decodeCAVLCResidual_def by (rule fills_bnd [OF fills_reads [OF a(2)]]) (use fills_ret in \<open>simp add: True t0\<close>)
    moreover have "w = 0" using w unfolding e thn_Inr by (auto simp: ret_def)
    ultimately show ?thesis using True by (auto simp: puts_simps)
  next
    case False
    define sg where "sg = map (\<lambda>i. map snd cs ! i < 0) (rev [length cs - t1..<length cs - t1 + t1])"
    have e: "residual_writer cs mc nC = thn (writeCAVLCCoeffToken (int (length cs)) (int t1) nC mc)
        (thn (write_signs (length cs - t1) t1 (map snd cs)) (thn (level_writer (map snd cs) t1) (write_zeros_runs cs mc)))"
      using False by (simp add: residual_writer_def Let_def t1_def)
    obtain bw2 bw3 where w2: "level_writer (map snd cs) t1 bw2 = (Inr (), bw3)" "write_zeros_runs cs mc bw3 = (Inr w, bw')"
      using w unfolding e thn_Inr by blast
    have i32: "list_all in_i32 (map snd cs)" using cs(3) by (simp add: list_all_length)
    obtain b where b: "writes (level_writer (map snd cs) t1) b"
      "reads (std_rest (length cs - t1) (if length cs > 10 \<and> t1 < 3 then 1 else 0) (if t1 < 3 then 2 else 0)
        :: (resid, int list) go) b (rev (take (length cs - t1) (map snd cs)))"
      using level_writer_reads [OF w2(1) _ i32, where 'z = "\<lparr>rs_block :: int list\<rparr>"] t1(2) unfolding length_map by blast
    have "map snd cs \<noteq> []" using False by simp
    note lv = reads_levels [OF this, of t1 b, where 'z = "\<lparr>rs_block :: int list\<rparr>", unfolded length_map, OF cs(1) t1 b(2)]
    obtain c d where z: "w = length cs" "writes_val (write_zeros_runs cs mc) (c @ d) (length cs)"
      "reads (readCAVLCTotalZeros (int (length cs)) mc :: (resid, nat) go) c (nat (int (map fst cs ! (length cs - 1)) + 1 - int (length cs)))"
      "runs_read (length cs - 1) (map fst cs) (int (map fst cs ! (length cs - 1)) + 1 - int (length cs)) d"
      using zeros_runs_written [OF w2(2)] by blast
    have "writes_val (residual_writer cs mc nC) (a @ sg @ b @ c @ d) (length cs)"
      unfolding e sg_def by (intro writes_val_thn a(1) writes_signs b(1) z(2))
    moreover have "fills L (decodeCAVLCResidual n scan None mc nC) (a @ (sg @ b) @ c @ d) (length cs) (puts scan cs (length cs))"
      using tok by (intro decode_fills [OF False cs(1) _ _ cs(2) g t1(1) a(2) lv [folded sg_def] z(3,4)]) auto
    ultimately show ?thesis using z(1) by auto
  qed
qed

text \<open>The five writers are of this form where they write at all.\<close>

lemma writer_trailing_ones:
  assumes "writeCAVLCResidualTrailingOnes block n scan mc nC bw = (Inr w, bw')"
    and "nonzeros block n scan mc = cs" "trailing_ones (map snd cs) = length cs"
  shows "writeCAVLCResidualTrailingOnes block n scan mc nC = residual_writer cs mc nC"
proof -
  obtain cs' where c: "collect (\<lambda>k v. is_one v \<and> k \<noteq> 3) block n scan mc = Inr cs'"
    using assms(1) by (cases "collect (\<lambda>k v. is_one v \<and> k \<noteq> 3) block n scan mc") (auto simp: writeCAVLCResidualTrailingOnes_def fail_def)
  have "cs' = cs" using collect_Inr(1) [OF c] assms(2) by simp
  then show ?thesis
    using assms(3) unfolding writeCAVLCResidualTrailingOnes_def c residual_writer_def by (simp add: Let_def level_writer_def thn_def bnd_ret)
qed

lemma first_level_writer: "0 \<le> t1 \<Longrightarrow> t1 < 3 \<Longrightarrow>
    bnd (writeCAVLCFirstLevelWithTrailingOnes v 0 t1) (write_levels_down 0 level) = writeCAVLCFirstLevel v"
proof -
  assume t: "0 \<le> t1" "t1 < 3"
  have "write_levels_down 0 level = (\<lambda>_. ret ())" by (simp add: fun_eq_iff)
  then show ?thesis
    using t by (auto simp: writeCAVLCFirstLevelWithTrailingOnes_def writeCAVLCFirstLevel_def writeCAVLCFirstLevelWithSuffix_def bnd_fail)
qed

lemma writer_single_level:
  assumes "writeCAVLCResidualSingleLevel block n scan mc nC bw = (Inr w, bw')"
    and "nonzeros block n scan mc = cs" "trailing_ones (map snd cs) = 0" "length cs = 1"
  shows "writeCAVLCResidualSingleLevel block n scan mc nC = residual_writer cs mc nC"
proof -
  obtain cs' where c: "collect (\<lambda>k v. \<not> is_one v \<and> k = 0) block n scan mc = Inr cs'"
    using assms(1) by (cases "collect (\<lambda>k v. \<not> is_one v \<and> k = 0) block n scan mc") (auto simp: writeCAVLCResidualSingleLevel_def fail_def)
  have cs: "cs' = cs" "cs \<noteq> []" using collect_Inr(1) [OF c] assms(2,4) by auto
  have l: "level_writer (map snd cs) 0 = writeCAVLCFirstLevel (snd (cs ! 0))"
    using first_level_writer [of 0 "snd (cs ! 0)" "map snd cs"] assms(4) by (simp add: level_writer_def Let_def)
  have z: "write_zeros_runs cs mc = thn (writeCAVLCTotalZeros (int (fst (cs ! 0))) 1 mc) (ret 1)"
    using assms(4) by (simp add: write_zeros_runs_def Let_def thn_def bnd_ret)
  show ?thesis
    using assms(3,4) cs(2) unfolding writeCAVLCResidualSingleLevel_def c cs(1) residual_writer_def
    by (simp add: Let_def l z thn_def bnd_ret)
qed

lemma writer_levels:
  assumes "writeCAVLCResidualNonTrailingLevels block n scan mc nC a b bw = (Inr w, bw')"
    and "nonzeros block n scan mc = cs" "trailing_ones (map snd cs) = 0" "cs \<noteq> []"
  shows "writeCAVLCResidualNonTrailingLevels block n scan mc nC a b = residual_writer cs mc nC"
proof -
  define ok where "ok = (\<lambda>k v. \<not> is_one v \<and> k \<noteq> b)"
  obtain cs' where c: "collect ok block n scan mc = Inr cs'"
    using assms(1) by (cases "collect ok block n scan mc") (auto simp: writeCAVLCResidualNonTrailingLevels_def fail_def ok_def split: if_splits)
  have cs: "cs' = cs" using collect_Inr(1) [OF c] assms(2) by simp
  have g: "\<not> (a = 0 \<or> b < a \<or> 16 < b)" using assms(1) by (auto simp: writeCAVLCResidualNonTrailingLevels_def fail_def split: if_splits)
  then have g2: "\<not> (length cs < a \<or> length cs > b)"
    using assms(1) c unfolding writeCAVLCResidualNonTrailingLevels_def ok_def [symmetric] cs by (auto simp: fail_def Let_def split: if_splits)
  have l: "level_writer (map snd cs) 0 = bnd (writeCAVLCFirstLevelWithSuffix (map snd cs ! (length cs - 1)) (if length cs > 10 then 1 else 0))
      (write_levels_down (length cs - 1) (map snd cs))"
    using assms(4) by (simp add: level_writer_def Let_def writeCAVLCFirstLevelWithTrailingOnes_def)
  show ?thesis
    unfolding writeCAVLCResidualNonTrailingLevels_def ok_def [symmetric] c cs residual_writer_def if_not_P [OF g]
    using assms(3,4) g2 by (simp add: Let_def l thn_def bnd_ret bnd_assoc)
qed

lemma writer_single_level_ones:
  assumes "writeCAVLCResidualSingleLevelTrailingOnes block n scan mc nC bw = (Inr w, bw')"
    and "nonzeros block n scan mc = cs"
  shows "writeCAVLCResidualSingleLevelTrailingOnes block n scan mc nC = residual_writer cs mc nC"
proof -
  obtain cs' where c: "collect (\<lambda>k v. k \<noteq> 3) block n scan mc = Inr cs'"
    using assms(1) by (cases "collect (\<lambda>k v. k \<noteq> 3) block n scan mc") (auto simp: writeCAVLCResidualSingleLevelTrailingOnes_def fail_def)
  have cs: "cs' = cs" using collect_Inr(1) [OF c] assms(2) by simp
  have n3: "length cs \<le> 3" using collect_Inr(6) [OF c, of 3] unfolding cs by (cases "length cs \<le> 3") auto
  define t1 where "t1 = trailing_ones (map snd cs)"
  have g: "cs \<noteq> []" "t1 \<noteq> 0" "t1 \<noteq> length cs" "length cs - t1 = 1" "\<not> is_one (map snd cs ! (length cs - t1 - 1))"
    using assms(1) unfolding writeCAVLCResidualSingleLevelTrailingOnes_def c cs t1_def
    by (auto simp: fail_def Let_def split: if_splits)
  have "t1 < 3" using g(4) n3 by linarith
  then have l: "level_writer (map snd cs) t1 = writeCAVLCFirstLevel (map snd cs ! (length cs - t1 - 1))"
    using first_level_writer [of "int t1" "map snd cs ! (length cs - t1 - 1)" "map snd cs"] g n3 by (simp add: level_writer_def Let_def)
  show ?thesis
    unfolding writeCAVLCResidualSingleLevelTrailingOnes_def c cs residual_writer_def
    using g n3 unfolding t1_def [symmetric] by (simp add: Let_def l t1_def [symmetric])
qed

lemma writer_levels_ones:
  assumes "writeCAVLCResidualNonTrailingLevelsTrailingOnes block n scan mc nC a b bw = (Inr w, bw')"
    and "nonzeros block n scan mc = cs"
  shows "writeCAVLCResidualNonTrailingLevelsTrailingOnes block n scan mc nC a b = residual_writer cs mc nC"
proof -
  obtain cs' where c: "collect (\<lambda>_ _. True) block n scan mc = Inr cs'"
    using assms(1) by (cases "collect (\<lambda>_ _. True) block n scan mc") (auto simp: writeCAVLCResidualNonTrailingLevelsTrailingOnes_def fail_def split: if_splits)
  have cs: "cs' = cs" using collect_Inr(1) [OF c] assms(2) by simp
  define t1 where "t1 = trailing_ones (map snd cs)"
  have g: "\<not> (a < 2 \<or> b < a \<or> 16 < b)" using assms(1) by (auto simp: writeCAVLCResidualNonTrailingLevelsTrailingOnes_def fail_def split: if_splits)
  then have g2: "\<not> (t1 = 0 \<or> length cs - t1 < a \<or> length cs - t1 > b \<or> list_ex (\<lambda>v. v = 0 \<or> is_one v) (take (length cs - t1) (map snd cs)))"
    using assms(1) c unfolding writeCAVLCResidualNonTrailingLevelsTrailingOnes_def cs t1_def by (auto simp: fail_def Let_def split: if_splits)
  then have g3: "t1 \<noteq> length cs" "cs \<noteq> []" using g by auto
  have l: "level_writer (map snd cs) t1 = bnd (writeCAVLCFirstLevelWithTrailingOnes (map snd cs ! (length cs - t1 - 1)) (if length cs > 10 \<and> t1 < 3 then 1 else 0) (int t1))
      (write_levels_down (length cs - t1 - 1) (map snd cs))"
    using g3 by (simp add: level_writer_def Let_def)
  show ?thesis
    unfolding writeCAVLCResidualNonTrailingLevelsTrailingOnes_def c cs residual_writer_def if_not_P [OF g] lift_bnd_simps Let_def length_map t1_def [symmetric]
      if_not_P [OF g2] l thn_def bnd_assoc using g3(2) by simp
qed

lemma bounded_writer:
  assumes w: "writeCAVLCResidualBounded block n scan mc nC bw = (Inr w, bw')"
  shows "writeCAVLCResidualBounded block n scan mc nC = residual_writer (nonzeros block n scan mc) mc nC"
proof -
  define cs where "cs = nonzeros block n scan mc"
  obtain cs' where c: "collect (\<lambda>_ _. True) block n scan mc = Inr cs'"
    using w by (cases "collect (\<lambda>_ _. True) block n scan mc") (auto simp: writeCAVLCResidualBounded_def fail_def)
  have cs: "cs' = cs" using collect_Inr(1) [OF c] by (simp add: cs_def)
  define t1 where "t1 = trailing_ones (map snd cs)"
  have t1: "t1 \<le> length cs" using trailing_ones_facts(2) [of "map snd cs"] by (simp add: t1_def)
  have e: "writeCAVLCResidualBounded block n scan mc nC =
    (if length cs = 0 \<or> length cs - t1 = 0 then writeCAVLCResidualTrailingOnes block n scan mc nC
     else if length cs - t1 = 1 then
       (if t1 = 0 then writeCAVLCResidualSingleLevel block n scan mc nC else writeCAVLCResidualSingleLevelTrailingOnes block n scan mc nC)
     else if t1 \<noteq> 0 then writeCAVLCResidualNonTrailingLevelsTrailingOnes block n scan mc nC (length cs - t1) (length cs - t1)
     else writeCAVLCResidualNonTrailingLevels block n scan mc nC (length cs - t1) (length cs - t1))"
    unfolding writeCAVLCResidualBounded_def c cs lift_bnd_simps Let_def t1_def by simp
  note wr = writer_trailing_ones writer_single_level writer_levels writer_single_level_ones writer_levels_ones
  show ?thesis
    using w t1 unfolding e cs_def [symmetric]
    by (auto simp: t1_def cs_def split: if_splits intro!: wr)
qed

section \<open>The round trip\<close>

lemma puts_length: "length (puts scan cs j b) = length b"
  by (induction j arbitrary: b) (simp_all add: puts_simps)

lemma puts_nth:
  assumes v: "\<And>i. i < length cs \<Longrightarrow> snd (cs ! i) = val (scan ! fst (cs ! i))"
  shows "j \<le> length cs \<Longrightarrow> p < length b \<Longrightarrow>
    length (puts scan cs j b) = length b \<and>
    puts scan cs j b ! p = (if \<exists>i<j. scan ! fst (cs ! i) = p then val p else b ! p)"
proof (induction j arbitrary: b)
  case 0
  then show ?case by (simp add: puts_simps)
next
  case (Suc j)
  have "snd (cs ! j) = val (scan ! fst (cs ! j))" using v [of j] Suc.prems(1) by simp
  then show ?case using Suc by (auto simp: puts_simps nth_list_update less_Suc_eq)
qed

lemma nonzeros_length:
  "nat mc \<le> length scan \<Longrightarrow>
   length (nonzeros block n scan mc) = length (filter (\<lambda>q. block ! nat (n + int q) \<noteq> 0) (take (nat mc) scan))"
proof -
  assume "nat mc \<le> length scan"
  then have t: "take (nat mc) scan = map ((!) scan) [0..<nat mc]" by (intro nth_equalityI) auto
  show ?thesis unfolding t nonzeros_def by (simp add: filter_map comp_def)
qed

lemma puts_nonzeros:
  fixes block :: "int list" and n mc :: int and scan :: "nat list" and L :: nat
  assumes m: "nat mc \<le> length scan" and L: "list_all (\<lambda>q. q < L) (take (nat mc) scan)"
  defines "cs \<equiv> nonzeros block n scan mc"
  shows "puts scan cs (length cs) (replicate L 0)
    = map (\<lambda>q. if q \<in> set (take (nat mc) scan) then block ! nat (n + int q) else 0) [0..<L]"
proof -
  have cs: "fst (cs ! i) < nat mc \<and> snd (cs ! i) = block ! nat (n + int (scan ! fst (cs ! i)))" if "i < length cs" for i
    using that nth_mem [OF that] nonzeros_facts(3) [of "fst (cs ! i)" "snd (cs ! i)" block n scan mc] unfolding cs_def by simp
  have i: "(\<exists>i<length cs. scan ! fst (cs ! i) = q) \<longleftrightarrow> q \<in> set (take (nat mc) scan) \<and> block ! nat (n + int q) \<noteq> 0" for q
  proof
    assume "\<exists>i<length cs. scan ! fst (cs ! i) = q"
    then obtain i where i: "i < length cs" "scan ! fst (cs ! i) = q" by blast
    have "q \<in> set (take (nat mc) scan)" using cs [OF i(1)] i(2) m by (auto simp: in_set_conv_nth)
    moreover have "snd (cs ! i) \<noteq> 0"
      using nth_mem [OF i(1)] nonzeros_facts(3) [of "fst (cs ! i)" "snd (cs ! i)" block n scan mc] unfolding cs_def by simp
    ultimately show "q \<in> set (take (nat mc) scan) \<and> block ! nat (n + int q) \<noteq> 0" using cs [OF i(1)] i(2) by simp
  next
    assume "q \<in> set (take (nat mc) scan) \<and> block ! nat (n + int q) \<noteq> 0"
    then obtain k where k: "k < nat mc" "scan ! k = q" "block ! nat (n + int q) \<noteq> 0" by (auto simp: in_set_conv_nth)
    then have "(k, block ! nat (n + int q)) \<in> set cs" unfolding cs_def nonzeros_facts(3) by simp
    then obtain i where "i < length cs" "cs ! i = (k, block ! nat (n + int q))" by (auto simp: in_set_conv_nth)
    then show "\<exists>i<length cs. scan ! fst (cs ! i) = q" using k(2) by (intro exI [of _ i]) simp
  qed
  show ?thesis
  proof (rule nth_equalityI)
    show l: "length (puts scan cs (length cs) (replicate L 0))
        = length (map (\<lambda>q. if q \<in> set (take (nat mc) scan) then block ! nat (n + int q) else 0) [0..<L])"
      by (simp add: puts_length)
    fix q
    assume "q < length (puts scan cs (length cs) (replicate L 0))"
    then have q: "q < L" using l by simp
    then show "puts scan cs (length cs) (replicate L 0) ! q
        = map (\<lambda>q. if q \<in> set (take (nat mc) scan) then block ! nat (n + int q) else 0) [0..<L] ! q"
      using puts_nth [of cs "\<lambda>q. block ! nat (n + int q)" scan "length cs" q "replicate L 0"] cs i by simp
  qed
qed

text \<open>
  C8. Residual round trip: whenever \<open>writeCAVLCResidualBounded\<close> admits a block of \<open>int32\<close> coefficients, what
  it writes is a code that \<open>decodeCAVLCResidual\<close> reads back, whatever follows it in the stream: the count
  that is returned is that of the coefficients that are not zero, the reader stops after the code, and the
  block that was zero holds the coefficients of the scan, for every scan and predicted count: token,
  trailing ones, levels with their escapes and suffix lengths, zeros and runs.
\<close>

theorem residual_roundtrip:
  assumes "writeCAVLCResidualBounded block n scan mc nC bw = (Inr tc, bw')" "list_all in_i32 block"
    and "list_all (\<lambda>q. q < L) (take (nat mc) scan)"
  shows "tc = length (filter (\<lambda>q. block ! nat (n + int q) \<noteq> 0) (take (nat mc) scan)) \<and>
    (\<exists>code. writes_val (writeCAVLCResidualBounded block n scan mc nC) code tc \<and>
      (\<forall>gb rest. wf_reader gb \<longrightarrow> rem_bits gb = code @ rest \<longrightarrow> rs_block gb = replicate L 0 \<longrightarrow>
        decodeCAVLCResidual n' scan None mc nC gb = (Inr tc, adv (length code) (gb\<lparr>rs_block :=
          map (\<lambda>q. if q \<in> set (take (nat mc) scan) then block ! nat (n + int q) else 0) [0..<L]\<rparr>))))"
proof -
  define cs where "cs = nonzeros block n scan mc"
  obtain cs' where "collect (\<lambda>_ _. True) block n scan mc = Inr cs'"
    using assms(1) by (cases "collect (\<lambda>_ _. True) block n scan mc") (auto simp: writeCAVLCResidualBounded_def fail_def)
  note c = collect_Inr(2-5) [OF this]
  have len: "length cs \<le> 16" using nonzeros_facts(2) [of block n scan mc] c(2) unfolding cs_def by simp
  have mem: "fst x < nat mc \<and> snd x = block ! nat (n + int (scan ! fst x))" if "x \<in> set cs" for x
    using that nonzeros_facts(3) [of "fst x" "snd x" block n scan mc] unfolding cs_def by simp
  have i32: "list_all (\<lambda>x. in_i32 (snd x)) cs"
    unfolding list_all_iff
  proof
    fix x
    assume "x \<in> set cs"
    note m = mem [OF this]
    then have "nat (n + int (scan ! fst x)) < length block" using c(4) [of "fst x"] by linarith
    then show "in_i32 (snd x)" using assms(2) m by (simp add: list_all_length)
  qed
  have g: "fst (cs ! i) < length scan \<and> scan ! fst (cs ! i) < L" if "i < length cs" for i
    using mem [OF nth_mem [OF that]] c(3) assms(3) by (auto simp: list_all_length)
  have e: "writeCAVLCResidualBounded block n scan mc nC = residual_writer cs mc nC"
    unfolding cs_def by (rule bounded_writer [OF assms(1)])
  note r = residual_code [OF assms(1) [unfolded e] len nonzeros_facts(1) [of block n scan mc, folded cs_def] i32 g, of n']
  then obtain code where code: "tc = length cs" "writes_val (residual_writer cs mc nC) code (length cs)"
    "fills L (decodeCAVLCResidual n' scan None mc nC) code (length cs) (puts scan cs (length cs))" by blast
  have "\<forall>gb rest. wf_reader gb \<longrightarrow> rem_bits gb = code @ rest \<longrightarrow> rs_block gb = replicate L 0 \<longrightarrow>
        decodeCAVLCResidual n' scan None mc nC gb = (Inr tc, adv (length code) (gb\<lparr>rs_block :=
          map (\<lambda>q. if q \<in> set (take (nat mc) scan) then block ! nat (n + int q) else 0) [0..<L]\<rparr>))"
    using code(3) unfolding fills_def puts_nonzeros [OF c(3) assms(3), of block n, folded cs_def, symmetric] code(1)
    by (metis length_replicate)
  then show ?thesis
    using code(1,2) nonzeros_length [OF c(3), of block n] unfolding e cs_def by blast
qed

lemma residual_roundtrip_witness:
  "\<exists>code. writes_val (writeCAVLCResidualBounded [3, 0, - 1, 0] 0 [0, 1, 2, 3] 4 0) code 2 \<and>
      (\<forall>gb rest. wf_reader gb \<longrightarrow> rem_bits gb = code @ rest \<longrightarrow> rs_block gb = replicate 4 0 \<longrightarrow>
        decodeCAVLCResidual 0 [0, 1, 2, 3] None 4 0 gb = (Inr 2, adv (length code) (gb\<lparr>rs_block := [3, 0, - 1, 0]\<rparr>)))"
proof -
  have w: "fst (writeCAVLCResidualBounded [3, 0, - 1, 0] 0 [0, 1, 2, 3] 4 0 (NewBitWriter [])) = Inr 2" by code_simp
  obtain bw' where "writeCAVLCResidualBounded [3, 0, - 1, 0] 0 [0, 1, 2, 3] 4 0 (NewBitWriter []) = (Inr 2, bw')"
    using w by (cases "writeCAVLCResidualBounded [3, 0, - 1, 0] 0 [0, 1, 2, 3] 4 0 (NewBitWriter [])") simp
  from residual_roundtrip [OF this, of 4 0]
  show ?thesis by (simp add: in_i32_def upt_rec numeral_eq_Suc)
qed

end
