(* ===== verification/Cavlc_Safe.thy ===== *)
theory Cavlc_Safe
  imports Cavlc_Residual
begin

unbundle bit_operations_syntax

text \<open>
  The decoder of a residual block is safe on every stream: the table of levels is never indexed outside, no
  slice is, and the block keeps its length and every coefficient that is not on the scan.
\<close>

section \<open>Codes\<close>

lemma reader_op_vlc_loop [reader_op_intros]:
  "reader_op (vlc_read_loop vlc k len code :: ('z bitReader_scheme, nat) go) (\<lambda>i. i < length (vl_length vlc))"
proof (induction k arbitrary: len code)
  case 0
  show ?case unfolding vlc_read_loop.simps by (rule reader_op_fail)
next
  case (Suc k)
  show ?case
    unfolding vlc_read_loop.simps Let_def
  proof (rule reader_op_bnd [OF readBit.reader_op_axioms])
    fix b
    show "reader_op ((case vlc_symbol vlc len (push_bit 1 code OR b) of Some symbol \<Rightarrow> ret symbol
      | None \<Rightarrow> vlc_read_loop vlc k (Suc len) (push_bit 1 code OR b)) :: ('z bitReader_scheme, nat) go) (\<lambda>i. i < length (vl_length vlc))"
    proof (cases "vlc_symbol vlc len (push_bit 1 code OR b)")
      case None
      then show ?thesis using Suc.IH by simp
    next
      case (Some symbol)
      then have "symbol < length (vl_length vlc)" unfolding vlc_symbol_def by (auto simp: find_Some_iff)
      then show ?thesis using Some by (simp add: reader_op_ret)
    qed
  qed
qed

lemma reader_op_vlc [reader_op_intros]: "reader_op (vlc_read vlc :: ('z bitReader_scheme, nat) go) (\<lambda>i. i < length (vl_length vlc))"
  unfolding vlc_read_def Let_def by (rule reader_op_vlc_loop)

lemma reader_op_any: "reader_op m R \<Longrightarrow> reader_op m (\<lambda>_. True)"
  by (rule reader_op_weaken) simp_all

lemma reader_op_token: "reader_op (readCAVLCCoeffToken nC mc :: ('z bitReader_scheme, nat) go) (\<lambda>_. True)"
  unfolding readCAVLCCoeffToken_def
  by (cases "coeffTokenVLC nC") (auto simp: coeffTokenVLC_def Let_def split: if_splits intro!: reader_op_intros reader_op_any [OF reader_op_vlc])

lemma reader_op_total_zeros: "reader_op (readCAVLCTotalZeros tc mc :: ('z bitReader_scheme, nat) go) (\<lambda>_. True)"
  unfolding readCAVLCTotalZeros_def by (intro reader_op_intros reader_op_any [OF reader_op_vlc]) simp

lemma reader_op_run_before: "reader_op (readCAVLCRunBefore z :: ('z bitReader_scheme, nat) go) (\<lambda>_. True)"
  unfolding readCAVLCRunBefore_def by (intro reader_op_intros reader_op_any [OF reader_op_vlc])

section \<open>Levels\<close>

lemma entry_length:
  assumes "x < 256" "s < 7"
  shows "1 \<le> snd (cavlc_level_entry s (word_of_nat x)) \<and> snd (cavlc_level_entry s (word_of_nat x)) \<le> 8"
proof (cases "x = 0")
  case True
  then show ?thesis by (simp add: entry_zero)
next
  case False
  then obtain n where n: "2 ^ n \<le> x" "x < 2 ^ Suc n" using ex_power_ivl1 [of 2 x] by auto
  have "(2::nat) ^ n < 2 ^ 8" using n(1) assms(1) by simp
  then have "n < 8" by (rule power_less_imp_less_exp [rotated]) simp
  define z where "z = 7 - n"
  have z: "7 - z = n" "z \<le> 7" using \<open>n < 8\<close> by (simp_all add: z_def)
  define r where "r = x - 2 ^ (7 - z)"
  have r: "r < 2 ^ (7 - z)" "x = 2 ^ (7 - z) + r" using n unfolding r_def z(1) by simp_all
  show ?thesis
  proof (cases "z + 1 + s \<le> 8")
    case True
    then show ?thesis unfolding r(2) entry_short [OF True r(1)] by simp
  next
    case False
    then show ?thesis unfolding r(2) using entry_prefix [OF z(2) _ r(1), of s] z(2) by simp
  qed
qed

lemma reader_op_show: "reader_op ((\<lambda>gb. (showBitsPadded 8 gb, gb)) :: ('z bitReader_scheme, u32) go) (\<lambda>w. unat w < 256)"
proof
  fix s :: "'z bitReader_scheme"
  assume w: "wf_reader s"
  have "bits_val (take 8 (rem_bits s @ replicate 8 False)) < 2 ^ 8"
  proof -
    have "length (take 8 (rem_bits s @ replicate 8 False)) = 8" by simp
    then show ?thesis using bits_val_bound [of "take 8 (rem_bits s @ replicate 8 False)"] by metis
  qed
  then show "wp (\<lambda>gb. (showBitsPadded 8 gb, gb)) (\<lambda>v s'. unat v < 256 \<and> wf_reader s' \<and> (\<exists>p. s' = s\<lparr>gb_bitPos := p\<rparr>))
      (\<lambda>e s'. e = ErrInvalidData \<and> wf_reader s' \<and> (\<exists>p. s' = s\<lparr>gb_bitPos := p\<rparr>)) s"
    using w same_pos [of s] by (simp add: wp_def showBitsPadded_value unat_of_nat)
qed

lemma reader_op_skip:
  assumes "1 \<le> n" "n \<le> 8"
  shows "reader_op (skipBits (u32_of n) :: ('z bitReader_scheme, unit) go) (\<lambda>_. True)"
proof
  fix s :: "'z bitReader_scheme"
  assume w: "wf_reader s"
  have u: "u32_of n = word_of_nat (nat n)" using assms by (simp add: u32_of_def)
  show "wp (skipBits (u32_of n)) (\<lambda>v s'. True \<and> wf_reader s' \<and> (\<exists>p. s' = s\<lparr>gb_bitPos := p\<rparr>))
      (\<lambda>e s'. e = ErrInvalidData \<and> wf_reader s' \<and> (\<exists>p. s' = s\<lparr>gb_bitPos := p\<rparr>)) s"
    using skipBits_value [OF w, of "nat n"] adv_wf [OF w, of "nat n"] assms w same_pos [of s] adv_pos [of "nat n" s]
    unfolding u by (auto simp: wp_def split: if_splits)
qed

lemma reader_op_lookup: "s < 7 \<Longrightarrow> reader_op (level_lookup s :: ('z bitReader_scheme, int) go) (\<lambda>_. True)"
  unfolding level_lookup_def
proof (rule reader_op_bnd [OF reader_op_show])
  fix w :: u32
  assume h: "s < 7" "unat w < 256"
  have e: "level_table_at s w = Inr (cavlc_level_entry s w)" using level_table_entry [OF h] by simp
  have n: "1 \<le> snd (cavlc_level_entry s w) \<and> snd (cavlc_level_entry s w) \<le> 8" using entry_length [OF h(2,1)] by simp
  show "reader_op (bnd (lift (level_table_at s w)) (\<lambda>(levelCode, n). thn (skipBits (u32_of n)) (ret levelCode)) :: ('z bitReader_scheme, int) go) (\<lambda>_. True)"
    unfolding e lift_bnd_simps thn_def case_prod_unfold using n by (intro reader_op_bnd [OF reader_op_skip] reader_op_ret) auto
qed

lemma reader_op_prefix_loop: "reader_op (level_prefix_loop k :: ('z bitReader_scheme, nat) go) (\<lambda>_. True)"
proof
  fix s :: "'z bitReader_scheme"
  assume "wf_reader s"
  then show "wp (level_prefix_loop k) (\<lambda>v s'. True \<and> wf_reader s' \<and> (\<exists>p. s' = s\<lparr>gb_bitPos := p\<rparr>))
      (\<lambda>e s'. e = ErrInvalidData \<and> wf_reader s' \<and> (\<exists>p. s' = s\<lparr>gb_bitPos := p\<rparr>)) s"
  proof (induction k s rule: level_prefix_loop.induct)
    case (1 k gb)
    have e: "level_prefix_loop k gb = bnd readBit (\<lambda>b. if b \<noteq> 0 then ret k else level_prefix_loop (k + 1)) gb"
      by (subst level_prefix_loop.simps) (auto simp: bnd_def ret_def split: prod.splits sum.splits)
    obtain r gb' where r: "readBit gb = (r, gb')" by (cases "readBit gb")
    from readBit.contract [OF "1.prems"] have c: "case r of Inr b \<Rightarrow> wf_reader gb' | Inl e \<Rightarrow> e = ErrInvalidData \<and> wf_reader gb'" "\<exists>p. gb' = gb\<lparr>gb_bitPos := p\<rparr>"
      by (auto simp: wp_def r split: sum.splits)
    show ?case
    proof (cases r)
      case (Inl e)
      then show ?thesis using c by (simp add: wp_def level_prefix_loop.simps [of k gb] r)
    next
      case (Inr b)
      show ?thesis
      proof (cases "b = 0")
        case True
        note ih = "1.IH" [OF r [symmetric] Inr]
        have "level_prefix_loop k gb = level_prefix_loop (k + 1) gb'" by (simp add: level_prefix_loop.simps [of k gb] r Inr True)
        then show ?thesis using ih True c Inr by (auto simp: wp_def split: prod.splits sum.splits)
      next
        case False
        then show ?thesis using c Inr by (simp add: wp_def level_prefix_loop.simps [of k gb] r)
      qed
    qed
  qed
qed

lemma reader_op_escape: "reader_op (escape_prefix c :: ('z bitReader_scheme, int) go) (\<lambda>_. True)"
  unfolding escape_prefix_def Let_def readCAVLCLevelPrefix_def
  by (intro reader_op_if reader_op_bnd [OF reader_op_prefix_loop] reader_op_ret) simp_all

lemma reader_op_bits:
  assumes "1 \<le> n" "n \<le> 32"
  shows "reader_op (readBits (u32_of n) :: ('z bitReader_scheme, u32) go) (\<lambda>_. True)"
proof -
  have u: "u32_of n = word_of_nat (nat n)" "unat (word_of_nat (nat n) :: u32) = nat n"
    using assms by (simp add: u32_of_def) (use assms in \<open>subst unat_of_nat, simp\<close>)
  have "nat n \<le> 32" using assms by simp
  then show ?thesis unfolding u(1) by (intro reader_op_any [OF readBits_contract]) (simp only: u(2))
qed

lemma reader_op_long: "15 \<le> prefix \<Longrightarrow> reader_op (long_code b prefix :: ('z bitReader_scheme, int) go) (\<lambda>_. True)"
  unfolding long_code_def Let_def by (intro reader_op_if reader_op_fail reader_op_bnd [OF reader_op_bits] reader_op_ret) auto

lemma reader_op_first_code: "reader_op (first_code s prefix :: ('z bitReader_scheme, int) go) (\<lambda>_. True)"
proof -
  have b4: "reader_op (readBits 4 :: ('z bitReader_scheme, u32) go) (\<lambda>_. True)" using reader_op_bits [of 4] by (simp add: u32_of_def)
  show ?thesis
    unfolding first_code_def
    by (intro reader_op_if reader_op_bnd [OF readBit.reader_op_axioms] reader_op_bnd [OF b4] reader_op_ret reader_op_long) auto
qed

lemma reader_op_first: "s < 7 \<Longrightarrow> reader_op (first_level s t1 :: ('z bitReader_scheme, int \<times> nat) go) (\<lambda>(v, s'). 1 \<le> s' \<and> s' \<le> 6)"
  unfolding first_level_def Let_def
  by (intro reader_op_bnd [OF reader_op_lookup] reader_op_bnd [OF reader_op_escape] reader_op_bnd [OF reader_op_first_code]
      reader_op_if reader_op_ret) auto

lemma reader_op_next_code:
  "1 \<le> s \<Longrightarrow> s \<le> 6 \<Longrightarrow> reader_op (next_code s prefix :: ('z bitReader_scheme, int) go) (\<lambda>_. True)"
proof -
  assume s: "1 \<le> s" "s \<le> 6"
  then have b: "reader_op (readBits (word_of_nat s) :: ('z bitReader_scheme, u32) go) (\<lambda>_. True)"
    using reader_op_bits [of "int s"] by (simp add: u32_of_def)
  show ?thesis unfolding next_code_def by (intro reader_op_if reader_op_bnd [OF b] reader_op_ret reader_op_long) auto
qed

lemma reader_op_next: "1 \<le> s \<Longrightarrow> s \<le> 6 \<Longrightarrow> reader_op (next_level s :: ('z bitReader_scheme, int) go) (\<lambda>_. True)"
  unfolding next_level_def
  by (intro reader_op_bnd [OF reader_op_lookup] reader_op_bnd [OF reader_op_escape] reader_op_bnd [OF reader_op_next_code]
      reader_op_if reader_op_ret) auto

lemma reader_op_levels_loop:
  "1 \<le> s \<Longrightarrow> s \<le> 6 \<Longrightarrow> list_all (\<lambda>i. i < length level) is \<Longrightarrow> reader_op (levels_loop is s level :: ('z bitReader_scheme, int list) go) (\<lambda>l. length l = length level)"
proof (induction "is" arbitrary: s level)
  case Nil
  show ?case unfolding levels_loop.simps by (rule reader_op_ret) simp
next
  case (Cons i "is")
  have n: "1 \<le> next_suffix s v \<and> next_suffix s v \<le> 6" for v using Cons.prems by (auto simp: next_suffix_def Let_def)
  show ?case
    unfolding levels_loop.simps
  proof (rule reader_op_bnd [OF reader_op_next [OF Cons.prems(1,2)]])
    fix v
    show "reader_op (bnd (lift (set_idx level i v)) (levels_loop is (next_suffix s v)) :: ('z bitReader_scheme, int list) go) (\<lambda>l. length l = length level)"
      using Cons.IH [of "next_suffix s v" "level[i := v]"] Cons.prems(3) n by simp
  qed
qed

lemma reader_op_signs_loop: "list_all (\<lambda>i. i < length level) is \<Longrightarrow> reader_op (signs_loop is level :: ('z bitReader_scheme, int list) go) (\<lambda>l. length l = length level)"
proof (induction "is" arbitrary: level)
  case Nil
  show ?case unfolding signs_loop.simps by (rule reader_op_ret) simp
next
  case (Cons i "is")
  show ?case
    unfolding signs_loop.simps
  proof (rule reader_op_bnd [OF readBit.reader_op_axioms])
    fix b :: u32
    show "reader_op (bnd (lift (set_idx level i (if b = 0 then 1 else - 1))) (signs_loop is) :: ('z bitReader_scheme, int list) go) (\<lambda>l. length l = length level)"
      using Cons.IH [of "level[i := if b = 0 then 1 else - 1]"] Cons.prems by simp
  qed
qed

lemma reader_op_levels: "reader_op (readCAVLCLevels tc t1 :: ('z bitReader_scheme, int list) go) (\<lambda>l. length l = 16 \<and> 1 \<le> tc \<and> tc \<le> 16)"
proof (cases "tc \<le> 0 \<or> tc > 16 \<or> t1 < 0 \<or> t1 > 3 \<or> t1 > tc")
  case True
  then show ?thesis unfolding readCAVLCLevels_def by (simp add: reader_op_fail)
next
  case False
  have "reader_op (bnd (signs_loop [0..<nat t1] (replicate 16 0)) (\<lambda>level.
        if t1 < tc then
          bnd (first_level (if tc > 10 \<and> t1 < 3 then 1 else 0) t1) (\<lambda>(v, s).
          bnd (lift (set_idx level (nat t1) v)) (levels_loop [nat t1 + 1..<nat tc] s))
        else ret level) :: ('z bitReader_scheme, int list) go) (\<lambda>l. length l = 16)"
  proof (intro reader_op_bnd [OF reader_op_signs_loop] reader_op_if reader_op_bnd [OF reader_op_first])
    fix level :: "int list" and x :: "int \<times> nat"
    assume t1: "t1 < tc" and l: "length level = length (replicate 16 (0 :: int))" and x: "case x of (v, s') \<Rightarrow> 1 \<le> s' \<and> s' \<le> 6"
    obtain v s where vs: "x = (v, s)" by (cases x)
    have "list_all (\<lambda>i. i < 16) [nat t1 + 1..<nat tc]" using False by (auto simp: list_all_iff)
    moreover have "nat t1 < 16" using False t1 by linarith
    ultimately show "reader_op ((case x of (v, s) \<Rightarrow> bnd (lift (set_idx level (nat t1) v)) (levels_loop [nat t1 + 1..<nat tc] s)) :: ('z bitReader_scheme, int list) go) (\<lambda>l. length l = 16)"
      using reader_op_levels_loop [of s "level[nat t1 := v]" "[nat t1 + 1..<nat tc]"] x l False t1 by (simp add: vs)
  qed (use False in \<open>auto simp: reader_op_ret list_all_iff\<close>)
  then show ?thesis unfolding readCAVLCLevels_def if_not_P [OF False] by (rule reader_op_weaken) (use False in auto)
qed

section \<open>The block\<close>

text \<open>What every step keeps, from a state on.\<close>

definition resid_inv :: "nat list \<Rightarrow> resid \<Rightarrow> resid \<Rightarrow> bool" where
  "resid_inv scan s0 s \<longleftrightarrow> wf_reader s \<and> gb_buf s = gb_buf s0 \<and> length (rs_block s) = length (rs_block s0)
     \<and> (\<forall>q < length (rs_block s0). q \<notin> set scan \<longrightarrow> rs_block s ! q = rs_block s0 ! q)"

definition resid_err :: "nat list \<Rightarrow> resid \<Rightarrow> goerror \<Rightarrow> resid \<Rightarrow> bool" where
  "resid_err scan s0 e s \<longleftrightarrow> e = ErrInvalidData \<and> resid_inv scan s0 s"

lemma wp_reader:
  assumes "reader_op m R" "resid_inv scan s0 s" "\<And>v s'. R v \<Longrightarrow> resid_inv scan s0 s' \<Longrightarrow> Q v s'"
  shows "wp m Q (resid_err scan s0) s"
  using assms(2) by (intro reader_op.wp_op [OF assms(1)]) (auto simp: resid_inv_def resid_err_def intro!: assms(3))

lemma wp_store:
  assumes "resid_inv scan s0 s" "pos \<in> set scan" "\<And>s'. resid_inv scan s0 s' \<Longrightarrow> Q () s'"
  shows "wp (storeCAVLCLevel pos level qmul n) Q (resid_err scan s0) s"
proof -
  have "resid_inv scan s0 (s\<lparr>rs_block := (rs_block s)[pos := x]\<rparr>)" for x
  proof -
    have "(rs_block s)[pos := x] ! q = rs_block s ! q" if "q \<notin> set scan" for q
      using assms(2) that by (cases "q = pos") simp_all
    then show ?thesis using assms(1) by (auto simp: resid_inv_def wf_reader_def)
  qed
  then show ?thesis using assms(1,3) by (simp add: wp_def storeCAVLCLevel_ok resid_err_def)
qed

lemma wp_store_at:
  assumes "resid_inv scan s0 s" "\<not> (k < 0 \<or> int (length scan) \<le> k)" "i < length level" "\<And>s'. resid_inv scan s0 s' \<Longrightarrow> Q () s'"
  shows "wp (store_at scan k level i qmul n) Q (resid_err scan s0) s"
proof -
  have "nat k < length scan" using assms(2) by (simp add: nat_less_iff)
  then have "scan ! nat k \<in> set scan" by (rule nth_mem)
  then show ?thesis unfolding store_at_ok [OF assms(2,3)] using assms(4) by (intro wp_store [OF assms(1)])
qed

lemma wp_run_loop:
  "resid_inv scan s0 s \<Longrightarrow> list_all (\<lambda>i. i < length level) is
    \<Longrightarrow> (\<And>is' z k s'. resid_inv scan s0 s' \<Longrightarrow> list_all (\<lambda>i. i < length level) is' \<Longrightarrow> Q (is', z, k) s')
    \<Longrightarrow> wp (run_loop is level scan qmul n zl sc) Q (resid_err scan s0) s"
proof (induction "is" arbitrary: zl sc s)
  case Nil
  then show ?case by (simp add: wp_simps)
next
  case (Cons i "is")
  show ?case
  proof (cases "zl > 0")
    case True
    show ?thesis
      unfolding run_loop.simps if_not_P [of "\<not> zl > 0", unfolded not_not, OF True] wp_bnd Let_def
    proof (rule wp_reader [OF reader_op_run_before Cons.prems(1)])
      fix r :: nat and s'
      assume s': "resid_inv scan s0 s'"
      show "wp (if zl - int r < 0 \<or> sc - (1 + int r) < 0 \<or> int (length scan) \<le> sc - (1 + int r) then fail ErrInvalidData
        else thn (store_at scan (sc - (1 + int r)) level i qmul n)
          (run_loop is level scan qmul n (zl - int r) (sc - (1 + int r)))) Q (resid_err scan s0) s'"
        unfolding wp_if wp_fail wp_thn
        by (intro conjI impI if_bool_eq_conj [THEN iffD2] wp_store_at [OF s'] Cons.IH Cons.prems(3))
          (use s' Cons.prems(2) in \<open>auto simp: resid_err_def\<close>)
    qed
  next
    case False
    then show ?thesis using Cons.prems by (simp add: wp_simps)
  qed
qed

lemma wp_tail_loop:
  "resid_inv scan s0 s \<Longrightarrow> list_all (\<lambda>i. i < length level) is \<Longrightarrow> (\<And>s'. resid_inv scan s0 s' \<Longrightarrow> Q () s') \<Longrightarrow>
   wp (tail_loop is level scan qmul n sc) Q (resid_err scan s0) s"
proof (induction "is" arbitrary: sc s)
  case Nil
  then show ?case by (simp add: wp_simps)
next
  case (Cons i "is")
  show ?case
    unfolding tail_loop.simps Let_def wp_if wp_fail wp_thn
    by (intro conjI impI if_bool_eq_conj [THEN iffD2] wp_store_at [OF Cons.prems(1)] Cons.IH Cons.prems(3))
      (use Cons.prems(1,2) in \<open>auto simp: resid_err_def\<close>)
qed

text \<open>What follows the count: the levels, the zeros and the runs.\<close>

definition resid_rest :: "int \<Rightarrow> nat list \<Rightarrow> u32 list option \<Rightarrow> int \<Rightarrow> nat \<Rightarrow> nat \<Rightarrow> (resid, nat) go" where
  "resid_rest n scan qmul mc t ones = bnd (readCAVLCLevels (int t) (int ones)) (\<lambda>level.
     bnd (if int t \<noteq> mc then readCAVLCTotalZeros (int t) mc else ret 0) (\<lambda>zeros.
     let zerosLeft = int zeros; scanIndex = zerosLeft + int t - 1 in
     if scanIndex < 0 \<or> scanIndex \<ge> int (length scan) then fail ErrInvalidData
     else thn (store_at scan scanIndex level 0 qmul n)
       (bnd (run_loop [1..<t] level scan qmul n zerosLeft scanIndex) (\<lambda>(is, zerosLeft, scanIndex).
       thn (tail_loop is level scan qmul n scanIndex)
       (if zerosLeft < 0 then fail ErrInvalidData else ret t)))))"

lemma decodeCAVLCResidual_rest: "decodeCAVLCResidual n scan qmul mc nC = bnd (readCAVLCCoeffToken nC mc) (\<lambda>coeffToken.
   let t = drop_bit 2 coeffToken in
   if t = 0 then ret 0 else if int t > mc then fail ErrInvalidData else resid_rest n scan qmul mc t (coeffToken AND 3))"
  unfolding decodeCAVLCResidual_def resid_rest_def Let_def by (rule refl)

lemma wp_resid_rest:
  assumes s: "resid_inv scan s0 s" and t: "int t \<le> mc"
  shows "wp (resid_rest n scan qmul mc t ones) (\<lambda>tc s'. resid_inv scan s0 s' \<and> int tc \<le> max 0 mc \<and> tc \<le> 16) (resid_err scan s0) s"
  unfolding resid_rest_def wp_bnd
proof (rule wp_reader [OF reader_op_levels s])
  fix level :: "int list" and s2
  assume l: "length level = 16 \<and> 1 \<le> int t \<and> int t \<le> 16" and s2: "resid_inv scan s0 s2"
  have z: "reader_op (if int t \<noteq> mc then readCAVLCTotalZeros (int t) mc else ret 0 :: (resid, nat) go) (\<lambda>_. True)"
    by (intro reader_op_if reader_op_total_zeros reader_op_ret) simp
  have "wp (let zerosLeft = int zeros; scanIndex = zerosLeft + int t - 1 in
     if scanIndex < 0 \<or> scanIndex \<ge> int (length scan) then fail ErrInvalidData
     else thn (store_at scan scanIndex level 0 qmul n)
       (bnd (run_loop [1..<t] level scan qmul n zerosLeft scanIndex) (\<lambda>(is, zerosLeft, scanIndex).
       thn (tail_loop is level scan qmul n scanIndex)
       (if zerosLeft < 0 then fail ErrInvalidData else ret t))))
     (\<lambda>tc s'. resid_inv scan s0 s' \<and> int tc \<le> max 0 mc \<and> tc \<le> 16) (resid_err scan s0) s3"
    if s3: "resid_inv scan s0 s3" for zeros s3
    unfolding Let_def wp_if wp_fail wp_thn wp_bnd case_prod_unfold fst_conv snd_conv
    by (intro conjI impI if_bool_eq_conj [THEN iffD2] wp_store_at [OF s3] wp_run_loop wp_tail_loop)
      (use t l s3 in \<open>auto simp: wp_simps resid_err_def list_all_iff\<close>)
  then show "wp (if int t \<noteq> mc then readCAVLCTotalZeros (int t) mc else ret 0) (\<lambda>zeros. wp
      (let zerosLeft = int zeros; scanIndex = zerosLeft + int t - 1 in
     if scanIndex < 0 \<or> scanIndex \<ge> int (length scan) then fail ErrInvalidData
     else thn (store_at scan scanIndex level 0 qmul n)
       (bnd (run_loop [1..<t] level scan qmul n zerosLeft scanIndex) (\<lambda>(is, zerosLeft, scanIndex).
       thn (tail_loop is level scan qmul n scanIndex)
       (if zerosLeft < 0 then fail ErrInvalidData else ret t))))
     (\<lambda>tc s'. resid_inv scan s0 s' \<and> int tc \<le> max 0 mc \<and> tc \<le> 16) (resid_err scan s0)) (resid_err scan s0) s2"
    by (intro wp_reader [OF z s2])
qed

text \<open>
  C12. The residual decoder is safe on every stream, for every scan, quantiser table, count and prediction,
  and for blocks of any length: no access to the scan, the levels, the quantiser table or the block is out of
  its range, so a failure is the code's own error; the data is not written to and the reader stays within it;
  the block keeps its length, and every coefficient that is not on the scan, also on failure. On success the
  count is at most that asked for and at most 16.
\<close>

theorem decodeCAVLCResidual_safe:
  assumes "wf_reader s"
  shows "case decodeCAVLCResidual n scan qmul mc nC s of (r, s') \<Rightarrow>
    wf_reader s' \<and> gb_buf s' = gb_buf s \<and> length (rs_block s') = length (rs_block s)
    \<and> (\<forall>q < length (rs_block s). q \<notin> set scan \<longrightarrow> rs_block s' ! q = rs_block s ! q)
    \<and> (case r of Inl e \<Rightarrow> e = ErrInvalidData | Inr tc \<Rightarrow> int tc \<le> max 0 mc \<and> tc \<le> 16)"
proof -
  have i0: "resid_inv scan s s" using assms by (simp add: resid_inv_def)
  have "wp (decodeCAVLCResidual n scan qmul mc nC) (\<lambda>tc s'. resid_inv scan s s' \<and> int tc \<le> max 0 mc \<and> tc \<le> 16) (resid_err scan s) s"
    unfolding decodeCAVLCResidual_rest wp_bnd Let_def
  proof (rule wp_reader [OF reader_op_token i0], goal_cases)
    case (1 v s1)
    show ?case
    proof (cases "drop_bit 2 v = 0 \<or> int (drop_bit 2 v) > mc")
      case True
      then show ?thesis using 1(2) by (auto simp: wp_simps resid_err_def)
    next
      case False
      then have f: "drop_bit 2 v \<noteq> 0" "\<not> int (drop_bit 2 v) > mc" by auto
      then have "int (drop_bit 2 v) \<le> mc" by simp
      then show ?thesis unfolding if_not_P [OF f(1)] if_not_P [OF f(2)] by (rule wp_resid_rest [OF 1(2)])
    qed
  qed
  then show ?thesis
    by (cases "decodeCAVLCResidual n scan qmul mc nC s") (auto simp: wp_def resid_inv_def resid_err_def split: sum.splits)
qed

lemma decodeCAVLCResidual_safe_witness:
  "rs_block (snd (decodeCAVLCResidual 0 [0, 1] None 4 0
     \<lparr>gb_buf = [0x4b], gb_bitPos = 0, gb_numBits = 8, gb_invalid = False, rs_block = [7, 7, 7, 9]\<rparr>)) ! 3 = 9"
proof -
  define s where "s = \<lparr>gb_buf = [0x4b], gb_bitPos = 0, gb_numBits = 8, gb_invalid = False, rs_block = [7, 7, 7, 9 :: int]\<rparr>"
  have "wf_reader s" by (simp add: wf_reader_def s_def)
  from decodeCAVLCResidual_safe [OF this, where n = 0 and scan = "[0, 1]" and qmul = None and mc = 4 and nC = 0]
  have "\<forall>q < 4. q \<notin> {0, 1} \<longrightarrow> rs_block (snd (decodeCAVLCResidual 0 [0, 1] None 4 0 s)) ! q = rs_block s ! q"
    by (cases "decodeCAVLCResidual 0 [0, 1] None 4 0 s") (simp add: s_def)
  then show ?thesis unfolding s_def [symmetric] by (simp add: s_def)
qed

end
