(* ===== verification/Samples.thy ===== *)
theory Samples
  imports Frames
begin

unbundle bit_operations_syntax

text \<open>
  Planes of samples as the pixel code sees them: a slice with a stride, read and written by coordinates
  relative to an offset. A sample is its value, and the conversion to the sample's type is written out where
  the code makes it. An index outside the slice is a panic. What a kernel does to a plane is stated as an
  overlay: new values on a set of coordinates, every other sample as before.
\<close>

section \<open>Reading and writing\<close>

definition rd :: "int \<Rightarrow> int \<Rightarrow> int \<Rightarrow> int \<Rightarrow> (int list, int) go" where
  "rd off st x y p = (let i = off + x + y * st in
     if 0 \<le> i \<and> i < int (length p) then (Inr (p ! nat i), p) else (Inl Panic, p))"

definition wr :: "int \<Rightarrow> int \<Rightarrow> int \<Rightarrow> int \<Rightarrow> int \<Rightarrow> (int list, unit) go" where
  "wr off st x y v p = (let i = off + x + y * st in
     if 0 \<le> i \<and> i < int (length p) then (Inr (), p[nat i := v]) else (Inl Panic, p))"

text \<open>A sample for a function of it, and several samples.\<close>

definition modify :: "int \<Rightarrow> int \<Rightarrow> int \<Rightarrow> int \<Rightarrow> (int \<Rightarrow> int) \<Rightarrow> (int list, unit) go" where
  "modify off st x y g = bnd (rd off st x y) (\<lambda>v. wr off st x y (g v))"

definition rds :: "int \<Rightarrow> int \<Rightarrow> (int \<times> int) list \<Rightarrow> (int list, int list) go" where
  "rds off st cs = mapM (\<lambda>(x, y). rd off st x y) cs"

definition wrs :: "int \<Rightarrow> int \<Rightarrow> (int \<times> int \<times> int) list \<Rightarrow> (int list, unit) go" where
  "wrs off st ws = forM ws (\<lambda>(x, y, v). wr off st x y v)"

text \<open>The coordinates of a rectangle, row by row.\<close>

definition upto_int :: "int \<Rightarrow> int list" where
  "upto_int n = map int [0..<nat n]"

definition rect_list :: "int \<Rightarrow> int \<Rightarrow> (int \<times> int) list" where
  "rect_list w h = concat (map (\<lambda>y. map (\<lambda>x. (x, y)) (upto_int w)) (upto_int h))"

definition rect :: "int \<Rightarrow> int \<Rightarrow> int \<Rightarrow> int \<Rightarrow> bool" where
  "rect w h x y \<longleftrightarrow> 0 \<le> x \<and> x < w \<and> 0 \<le> y \<and> y < h"

lemma set_upto_int [simp]: "x \<in> set (upto_int n) \<longleftrightarrow> 0 \<le> x \<and> x < n"
proof
  show "0 \<le> x \<and> x < n \<Longrightarrow> x \<in> set (upto_int n)"
    by (auto simp: upto_int_def intro!: image_eqI [of _ _ "nat x"])
qed (auto simp: upto_int_def)

lemma distinct_upto_int: "distinct (upto_int n)"
  by (simp add: upto_int_def distinct_map)

lemma set_rect_list: "(x, y) \<in> set (rect_list w h) \<longleftrightarrow> rect w h x y"
  by (auto simp: rect_list_def rect_def image_iff)

lemma distinct_rect_list: "distinct (rect_list w h)"
proof -
  have "distinct ys \<Longrightarrow> distinct (concat (map (\<lambda>y. map (\<lambda>x. (x, y)) (upto_int w)) ys))" for ys :: "int list"
    by (induction ys) (auto simp: distinct_map distinct_upto_int inj_on_def)
  then show ?thesis unfolding rect_list_def using distinct_upto_int by blast
qed

section \<open>Overlays\<close>

definition smp :: "int list \<Rightarrow> int \<Rightarrow> int \<Rightarrow> int \<Rightarrow> int \<Rightarrow> int" where
  "smp p off st x y = (let i = off + x + y * st in if 0 \<le> i \<and> i < int (length p) then p ! nat i else 0)"

definition overlay :: "int \<Rightarrow> int \<Rightarrow> (int \<Rightarrow> int \<Rightarrow> bool) \<Rightarrow> (int \<Rightarrow> int \<Rightarrow> int) \<Rightarrow> int list \<Rightarrow> int list" where
  "overlay off st S f p = map (\<lambda>i. let d = int i - off; x = d mod st; y = d div st in if S x y then f x y else p ! i) [0..<length p]"

lemma length_overlay [simp]: "length (overlay off st S f p) = length p"
  by (simp add: overlay_def)

lemma overlay_none: "overlay off st (\<lambda>_ _. False) f p = p"
  by (simp add: overlay_def map_nth)

lemma overlay_cong: "(\<And>x y. S x y = T x y) \<Longrightarrow> (\<And>x y. T x y \<Longrightarrow> f x y = g x y) \<Longrightarrow> overlay off st S f p = overlay off st T g p"
  by (simp add: overlay_def Let_def)

lemma coord:
  fixes off x y st :: int
  assumes "0 \<le> x" "x < st"
  shows "(off + x + y * st - off) mod st = x" "(off + x + y * st - off) div st = y"
proof -
  have e: "off + x + y * st - off = x + y * st" by linarith
  show "(off + x + y * st - off) mod st = x" "(off + x + y * st - off) div st = y"
    unfolding e using assms by simp_all
qed

lemma overlay_at: "i < length p \<Longrightarrow> overlay off st S f p ! i
    = (if S ((int i - off) mod st) ((int i - off) div st) then f ((int i - off) mod st) ((int i - off) div st) else p ! i)"
  by (simp add: overlay_def Let_def)

lemma overlay_nth:
  assumes "0 \<le> x" "x < st" "0 \<le> off + x + y * st" "off + x + y * st < int (length p)"
  shows "overlay off st S f p ! nat (off + x + y * st) = (if S x y then f x y else p ! nat (off + x + y * st))"
proof -
  have n: "nat (off + x + y * st) < length p" "int (nat (off + x + y * st)) = off + x + y * st" using assms(3,4) by simp_all
  show ?thesis using n coord [OF assms(1,2), of off y] by (simp add: overlay_def Let_def)
qed

lemma overlay_update:
  assumes "0 \<le> x" "x < st" "0 \<le> off + x + y * st" "off + x + y * st < int (length p)"
  shows "(overlay off st S f p)[nat (off + x + y * st) := v]
    = overlay off st (\<lambda>a b. S a b \<or> a = x \<and> b = y) (\<lambda>a b. if a = x \<and> b = y then v else f a b) p"
proof (rule nth_equalityI)
  fix i
  assume "i < length ((overlay off st S f p)[nat (off + x + y * st) := v])"
  then have i: "i < length p" by simp
  define a where "a = (int i - off) mod st"
  define b where "b = (int i - off) div st"
  have st: "0 < st" using assms(1,2) by linarith
  have d: "int i = off + a + b * st" by (simp add: a_def b_def algebra_simps)
  have e: "i = nat (off + x + y * st) \<longleftrightarrow> a = x \<and> b = y"
  proof
    assume "i = nat (off + x + y * st)"
    then have "int i - off = off + x + y * st - off" using assms(3) by simp
    then show "a = x \<and> b = y" unfolding a_def b_def using coord [OF assms(1,2), of off y] by simp
  qed (use d assms(3) in auto)
  have "(overlay off st S f p)[nat (off + x + y * st) := v] ! i
      = (if i = nat (off + x + y * st) then v else if S a b then f a b else p ! i)"
    using i overlay_at [OF i, of off st S f] by (simp add: nth_list_update a_def b_def)
  moreover have "overlay off st (\<lambda>a b. S a b \<or> a = x \<and> b = y) (\<lambda>a b. if a = x \<and> b = y then v else f a b) p ! i
      = (if S a b \<or> a = x \<and> b = y then if a = x \<and> b = y then v else f a b else p ! i)"
    unfolding overlay_at [OF i] a_def b_def by (rule refl)
  ultimately show "(overlay off st S f p)[nat (off + x + y * st) := v] ! i
    = overlay off st (\<lambda>a b. S a b \<or> a = x \<and> b = y) (\<lambda>a b. if a = x \<and> b = y then v else f a b) p ! i"
    using e by auto
qed simp

section \<open>What the operations do\<close>

text \<open>The coordinate is in the plane.\<close>

abbreviation inside :: "int list \<Rightarrow> int \<Rightarrow> int \<Rightarrow> int \<Rightarrow> int \<Rightarrow> bool" where
  "inside p off st x y \<equiv> 0 \<le> off + x + y * st \<and> off + x + y * st < int (length p)"

lemma rd_ok: "inside p off st x y \<Longrightarrow> rd off st x y p = (Inr (smp p off st x y), p)"
  by (simp add: rd_def smp_def Let_def)

lemma bnd_rd: "inside p off st x y \<Longrightarrow> bnd (rd off st x y) f p = f (smp p off st x y) p"
  by (simp add: bnd_def rd_ok)

lemma wr_overlay:
  assumes "inside p off st x y" "0 \<le> x" "x < st"
  shows "wr off st x y v (overlay off st S f p)
    = (Inr (), overlay off st (\<lambda>a b. S a b \<or> a = x \<and> b = y) (\<lambda>a b. if a = x \<and> b = y then v else f a b) p)"
  using assms overlay_update [of x st off y p S f v] by (simp add: wr_def Let_def)

lemma rds_ok: "list_all (\<lambda>(x, y). inside p off st x y) cs \<Longrightarrow> rds off st cs p = (Inr (map (\<lambda>(x, y). smp p off st x y) cs), p)"
proof (induction cs)
  case (Cons c cs)
  obtain x y where c: "c = (x, y)" by (cases c)
  have "rds off st (c # cs) p = bnd (rd off st x y) (\<lambda>v. bnd (rds off st cs) (\<lambda>vs. ret (v # vs))) p" by (simp add: rds_def c)
  also have "\<dots> = (Inr (map (\<lambda>(x, y). smp p off st x y) (c # cs)), p)"
    using Cons unfolding c by (simp add: bnd_rd) (simp add: bnd_def ret_def)
  finally show ?case .
qed (simp add: rds_def ret_def)

lemma bnd_rds: "list_all (\<lambda>(x, y). inside p off st x y) cs \<Longrightarrow> bnd (rds off st cs) f p = f (map (\<lambda>(x, y). smp p off st x y) cs) p"
  by (simp add: bnd_def rds_ok)

lemma modify_overlay:
  assumes "inside p off st x y" "0 \<le> x" "x < st" "\<not> S x y"
  shows "modify off st x y g (overlay off st S f p)
    = (Inr (), overlay off st (\<lambda>a b. S a b \<or> a = x \<and> b = y) (\<lambda>a b. if a = x \<and> b = y then g (smp p off st x y) else f a b) p)"
proof -
  have "rd off st x y (overlay off st S f p) = (Inr (smp p off st x y), overlay off st S f p)"
    using assms overlay_nth [of x st off y p S f] by (simp add: rd_def smp_def Let_def)
  then show ?thesis unfolding modify_def bnd_def using wr_overlay [OF assms(1-3)] by simp
qed

text \<open>A loop over distinct coordinates.\<close>

lemma forM_modify:
  assumes "distinct (map fst cs)" "list_all (\<lambda>((x, y), g). inside p off st x y \<and> 0 \<le> x \<and> x < st) cs"
    "\<And>c. c \<in> set cs \<Longrightarrow> \<not> S (fst (fst c)) (snd (fst c))"
  shows "forM cs (\<lambda>((x, y), g). modify off st x y g) (overlay off st S f p)
    = (Inr (), overlay off st (\<lambda>a b. S a b \<or> (a, b) \<in> set (map fst cs))
        (\<lambda>a b. case map_of cs (a, b) of Some g \<Rightarrow> g (smp p off st a b) | None \<Rightarrow> f a b) p)"
  using assms
proof (induction cs arbitrary: S f)
  case Nil
  then show ?case by (simp add: ret_def)
next
  case (Cons c cs)
  obtain x y g where c: "c = ((x, y), g)" by (cases c) auto
  have i: "inside p off st x y" "0 \<le> x" "x < st" using Cons.prems(2) by (auto simp: c)
  have n: "\<not> S x y" using Cons.prems(3) [of c] by (simp add: c)
  define S' where "S' = (\<lambda>a b. S a b \<or> a = x \<and> b = y)"
  define f' where "f' = (\<lambda>a b. if a = x \<and> b = y then g (smp p off st x y) else f a b)"
  have h: "modify off st x y g (overlay off st S f p) = (Inr (), overlay off st S' f' p)"
    unfolding S'_def f'_def using i n by (intro modify_overlay) auto
  have xy: "(x, y) \<notin> set (map fst cs)" using Cons.prems(1) by (simp add: c)
  have nS: "\<not> S' (fst (fst d)) (snd (fst d))" if "d \<in> set cs" for d
  proof -
    have "fst d \<noteq> (x, y)" using xy that by (metis imageI list.set_map)
    moreover have "\<not> S (fst (fst d)) (snd (fst d))" using Cons.prems(3) [of d] that by simp
    ultimately show ?thesis by (cases d) (auto simp: S'_def)
  qed
  have "forM (c # cs) (\<lambda>((x, y), g). modify off st x y g) (overlay off st S f p)
      = forM cs (\<lambda>((x, y), g). modify off st x y g) (overlay off st S' f' p)"
    by (simp add: c thn_def bnd_def h)
  also have "\<dots> = (Inr (), overlay off st (\<lambda>a b. S' a b \<or> (a, b) \<in> set (map fst cs))
        (\<lambda>a b. case map_of cs (a, b) of Some g \<Rightarrow> g (smp p off st a b) | None \<Rightarrow> f' a b) p)"
    using Cons.prems nS by (intro Cons.IH) auto
  also have "overlay off st (\<lambda>a b. S' a b \<or> (a, b) \<in> set (map fst cs))
        (\<lambda>a b. case map_of cs (a, b) of Some g \<Rightarrow> g (smp p off st a b) | None \<Rightarrow> f' a b) p
      = overlay off st (\<lambda>a b. S a b \<or> (a, b) \<in> set (map fst (c # cs)))
        (\<lambda>a b. case map_of (c # cs) (a, b) of Some g \<Rightarrow> g (smp p off st a b) | None \<Rightarrow> f a b) p"
  proof (rule overlay_cong)
    show "(S' a b \<or> (a, b) \<in> set (map fst cs)) = (S a b \<or> (a, b) \<in> set (map fst (c # cs)))" for a b by (auto simp: c S'_def)
    have "map_of cs (x, y) = None" using xy by (simp add: map_of_eq_None_iff)
    then show "(case map_of cs (a, b) of Some g \<Rightarrow> g (smp p off st a b) | None \<Rightarrow> f' a b)
        = (case map_of (c # cs) (a, b) of Some g \<Rightarrow> g (smp p off st a b) | None \<Rightarrow> f a b)" for a b
      by (cases "(a, b) = (x, y)") (auto simp: c f'_def split: option.splits)
  qed
  finally show ?case .
qed

end
