(* ===== verification/Transforms.thy ===== *)
theory Transforms
  imports Samples Tables
begin

unbundle bit_operations_syntax

text \<open>
  The inverse transforms (\<open>idct.go\<close>): 4x4 and 8x8, for 8 bits and for high bit depth, the shortcut for a
  block with only a DC coefficient, the loops over the blocks of a macroblock, and the transforms of the DC
  coefficients. The state of an operation is the destination's samples and the coefficients, which it clears.
  Go's \<open>int\<close> is 64 bits wide: \<open>i64\<close> is its wrap-around, where a product of arguments can leave it.
\<close>

section \<open>Integers and samples\<close>

definition i16 :: "int \<Rightarrow> int" where
  "i16 x = (x + 32768) mod 65536 - 32768"

definition i64 :: "int \<Rightarrow> int" where
  "i64 x = (x + 9223372036854775808) mod 18446744073709551616 - 9223372036854775808"

definition dctcoef8 :: "int \<Rightarrow> int" where "dctcoef8 v = i16 v"

definition dctcoef8Value :: "int \<Rightarrow> int" where "dctcoef8Value v = i16 v"

definition clipUint8 :: "int \<Rightarrow> int" where
  "clipUint8 v = (if v < 0 then 0 else if v > 255 then 255 else v)"

definition clipUintBitDepth :: "int \<Rightarrow> int \<Rightarrow> int" where
  "clipUintBitDepth bitDepth v =
     (if v < 0 then 0 else let max = 2 ^ nat bitDepth - 1 in if v > max then max else v)"

text \<open>\<open>transformBlockDestination\<close> and its \<open>High\<close> twin, one for each sample type, have the same body.\<close>

definition transformBlockDestination :: "int list \<Rightarrow> int \<Rightarrow> int \<Rightarrow> int \<Rightarrow> int list result" where
  "transformBlockDestination dst offset stride sz =
     (if offset < 0 then Inl ErrInvalidData
      else let needed = i64 (offset + (sz - 1) * stride + sz) in
      if stride \<le> 0 \<or> sz \<le> 0 \<or> int (length dst) < needed then Inl ErrInvalidData
      else if offset > int (length dst) then Inl Panic
      else Inr (drop (nat offset) dst))"

definition checkTransformAddArgs :: "int list \<Rightarrow> int list \<Rightarrow> nat \<Rightarrow> int \<Rightarrow> int \<Rightarrow> unit result" where
  "checkTransformAddArgs dst block blockLen stride sz =
     (if length block < blockLen then Inl ErrInvalidData
      else rbind (transformBlockDestination dst 0 stride sz) (\<lambda>_. Inr ()))"

section \<open>One dimension\<close>

definition idct4 :: "int list \<Rightarrow> int list" where
  "idct4 c =
     (let z0 = c ! 0 + c ! 2; z1 = c ! 0 - c ! 2; z2 = c ! 1 div 2 - c ! 3; z3 = c ! 1 + c ! 3 div 2
      in [z0 + z3, z1 + z2, z1 - z2, z0 - z3])"

text \<open>The odd part is an \<open>int32\<close> for high bit depth, where \<open>w\<close> is its wrap-around.\<close>

definition idct8 :: "(int \<Rightarrow> int) \<Rightarrow> int list \<Rightarrow> int list" where
  "idct8 w c =
     (let a0 = c ! 0 + c ! 4; a2 = c ! 0 - c ! 4; a4 = c ! 2 div 2 - c ! 6; a6 = c ! 6 div 2 + c ! 2;
        b0 = a0 + a6; b2 = a2 + a4; b4 = a2 - a4; b6 = a0 - a6;
        a1 = w (- (c ! 3) + c ! 5 - c ! 7 - c ! 7 div 2); a3 = w (c ! 1 + c ! 7 - c ! 3 - c ! 3 div 2);
        a5 = w (- (c ! 1) + c ! 7 + c ! 5 + c ! 5 div 2); a7 = w (c ! 3 + c ! 5 + c ! 1 + c ! 1 div 2);
        b1 = w (a7 div 4 + a1); b3 = w (a3 + a5 div 4); b5 = w (a3 div 4 - a5); b7 = w (a7 - a1 div 4)
      in [b0 + b7, b2 + b5, b4 + b3, b6 + b1, b6 - b1, b4 - b3, b2 - b5, b0 - b7])"

section \<open>Two dimensions\<close>

text \<open>
  The first pass works in the block, on the elements \<open>i\<close>, \<open>i + N\<close> and so on; the second adds what it makes of
  a run of \<open>N\<close> elements to a column of samples. \<open>wrap\<close> is the coefficient's type, \<open>w2\<close> that of the result.
\<close>

definition transform_col :: "nat \<Rightarrow> (int list \<Rightarrow> int list) \<Rightarrow> (int \<Rightarrow> int) \<Rightarrow> nat \<Rightarrow> int list \<Rightarrow> int list" where
  "transform_col N f wrap i block =
     (let out = f (map (\<lambda>k. wrap (block ! (i + N * k))) [0..<N]) in fold (\<lambda>k b. b[i + N * k := wrap (out ! k)]) [0..<N] block)"

definition transform_add ::
    "nat \<Rightarrow> (int list \<Rightarrow> int list) \<Rightarrow> (int \<Rightarrow> int) \<Rightarrow> (int \<Rightarrow> int) \<Rightarrow> (int \<Rightarrow> int) \<Rightarrow> int \<Rightarrow> int list \<Rightarrow> nat \<Rightarrow> (int list, unit) go" where
  "transform_add N f wrap w2 clip stride block i =
     (let out = f (map (\<lambda>k. wrap (block ! (k + N * i))) [0..<N])
      in forM [0..<N] (\<lambda>k. modify 0 stride (int i) (int k) (\<lambda>v. clip (v + w2 (out ! k) div 64))))"

definition transform ::
    "nat \<Rightarrow> (int list \<Rightarrow> int list) \<Rightarrow> (int \<Rightarrow> int) \<Rightarrow> (int \<Rightarrow> int) \<Rightarrow> (int \<Rightarrow> int) \<Rightarrow> int \<Rightarrow> (int list \<times> int list, unit) go" where
  "transform N f wrap w2 clip stride = (\<lambda>(dst, block).
     case checkTransformAddArgs dst block (N * N) stride (int N) of
       Inl e \<Rightarrow> (Inl e, (dst, block))
     | Inr _ \<Rightarrow>
         let block = block[0 := wrap (block ! 0 + 32)];
             block = fold (transform_col N f wrap) [0..<N] block;
             (r, dst) = forM [0..<N] (transform_add N f wrap w2 clip stride block) dst
         in (r, (dst, case r of Inl _ \<Rightarrow> block | Inr _ \<Rightarrow> replicate (N * N) 0 @ drop (N * N) block)))"

definition high_depth :: "int \<Rightarrow> ('s, unit) go \<Rightarrow> ('s, unit) go" where
  "high_depth bitDepth m = thn (lift (checkH264DSPHighBitDepth bitDepth)) m"

definition h264IDCTAddScalar :: "int \<Rightarrow> (int list \<times> int list, unit) go" where
  "h264IDCTAddScalar stride = transform 4 idct4 dctcoef8 (\<lambda>v. v) clipUint8 stride"

definition h264IDCTAddHigh :: "int \<Rightarrow> int \<Rightarrow> (int list \<times> int list, unit) go" where
  "h264IDCTAddHigh bitDepth stride = high_depth bitDepth (transform 4 idct4 i32 i32 (clipUintBitDepth bitDepth) stride)"

definition h264IDCT8Add :: "int \<Rightarrow> (int list \<times> int list, unit) go" where
  "h264IDCT8Add stride = transform 8 (idct8 (\<lambda>v. v)) dctcoef8 (\<lambda>v. v) clipUint8 stride"

definition h264IDCT8AddHigh :: "int \<Rightarrow> int \<Rightarrow> (int list \<times> int list, unit) go" where
  "h264IDCT8AddHigh bitDepth stride = high_depth bitDepth (transform 8 (idct8 i32) i32 i32 (clipUintBitDepth bitDepth) stride)"

section \<open>Only a DC coefficient\<close>

definition dc_add :: "nat \<Rightarrow> (int \<Rightarrow> int) \<Rightarrow> (int \<Rightarrow> int) \<Rightarrow> int \<Rightarrow> (int list \<times> int list, unit) go" where
  "dc_add N dc_of clip stride = (\<lambda>(dst, block).
     case checkTransformAddArgs dst block 1 stride (int N) of
       Inl e \<Rightarrow> (Inl e, (dst, block))
     | Inr _ \<Rightarrow>
         let dc = dc_of (block ! 0); block = block[0 := 0];
             (r, dst) = forM (rect_list (int N) (int N)) (\<lambda>(x, y). modify 0 stride x y (\<lambda>v. clip (v + dc))) dst
         in (r, (dst, block)))"

definition h264IDCTDCAddScalar :: "int \<Rightarrow> (int list \<times> int list, unit) go" where
  "h264IDCTDCAddScalar stride = dc_add 4 (\<lambda>c. (dctcoef8Value c + 32) div 64) clipUint8 stride"

definition h264IDCTDCAddHigh :: "int \<Rightarrow> int \<Rightarrow> (int list \<times> int list, unit) go" where
  "h264IDCTDCAddHigh bitDepth stride = high_depth bitDepth (dc_add 4 (\<lambda>c. i32 (c + 32) div 64) (clipUintBitDepth bitDepth) stride)"

definition h264IDCT8DCAdd :: "int \<Rightarrow> (int list \<times> int list, unit) go" where
  "h264IDCT8DCAdd stride = dc_add 8 (\<lambda>c. (dctcoef8Value c + 32) div 64) clipUint8 stride"

definition h264IDCT8DCAddHigh :: "int \<Rightarrow> int \<Rightarrow> (int list \<times> int list, unit) go" where
  "h264IDCT8DCAddHigh bitDepth stride = high_depth bitDepth (dc_add 8 (\<lambda>c. i32 (c + 32) div 64) (clipUintBitDepth bitDepth) stride)"

section \<open>The blocks of a macroblock\<close>

text \<open>An operation on the samples from \<open>offset\<close> on and on the coefficients from \<open>lo\<close> to \<open>lo + len\<close>.\<close>

definition at_slices :: "int \<Rightarrow> nat \<Rightarrow> nat \<Rightarrow> (int list \<times> int list, unit) go \<Rightarrow> (int list \<times> int list, unit) go" where
  "at_slices offset lo len m = (\<lambda>(dst, block).
     case m (drop (nat offset) dst, take len (drop lo block)) of
       (r, (d, b)) \<Rightarrow> (r, (take (nat offset) dst @ d, take lo block @ b @ drop (lo + len) block)))"

definition at_destination :: "int \<Rightarrow> int \<Rightarrow> int \<Rightarrow> nat \<Rightarrow> nat \<Rightarrow> (int list \<times> int list, unit) go \<Rightarrow> (int list \<times> int list, unit) go" where
  "at_destination offset stride sz lo len m = (\<lambda>(dst, block).
     case transformBlockDestination dst offset stride sz of
       Inl e \<Rightarrow> (Inl e, (dst, block))
     | Inr _ \<Rightarrow> at_slices offset lo len m (dst, block))"

definition nnz_at :: "u8 list \<Rightarrow> nat \<Rightarrow> u8" where
  "nnz_at nnzc i = nnzc ! unat (h264Scan8 ! i)"

definition first_coef :: "nat \<Rightarrow> (int list \<times> int list) \<Rightarrow> int" where
  "first_coef lo = (\<lambda>(dst, block). block ! lo)"

text \<open>The block with number \<open>i\<close>: nothing, the DC coefficient alone, or the transform.\<close>

definition add_block :: "(int \<Rightarrow> bool) \<Rightarrow> (int list \<times> int list, unit) go \<Rightarrow> (int list \<times> int list, unit) go
    \<Rightarrow> int \<Rightarrow> int \<Rightarrow> int \<Rightarrow> nat \<Rightarrow> nat \<Rightarrow> u8 \<Rightarrow> (int list \<times> int list, unit) go" where
  "add_block is_dc dc_only full offset stride sz lo len nnz =
     (if nnz = 0 then ret ()
      else at_destination offset stride sz lo len (\<lambda>s. if nnz = 1 \<and> is_dc (first_coef 0 s) then dc_only s else full s))"

definition with_coefs :: "nat \<Rightarrow> (int list \<times> int list, unit) go \<Rightarrow> (int list \<times> int list, unit) go" where
  "with_coefs n m = (\<lambda>(dst, block). if length block < n then (Inl ErrInvalidData, (dst, block)) else m (dst, block))"

definition h264IDCTAdd16 :: "int list \<Rightarrow> int \<Rightarrow> u8 list \<Rightarrow> (int list \<times> int list, unit) go" where
  "h264IDCTAdd16 blockOffset stride nnzc = with_coefs (16 * 16)
     (forM [0..<16] (\<lambda>i. add_block (\<lambda>c. dctcoef8Value c \<noteq> 0) (h264IDCTDCAddScalar stride) (h264IDCTAddScalar stride)
        (blockOffset ! i) stride 4 (i * 16) 16 (nnz_at nnzc i)))"

definition h264IDCTAdd16High :: "int \<Rightarrow> int list \<Rightarrow> int \<Rightarrow> u8 list \<Rightarrow> (int list \<times> int list, unit) go" where
  "h264IDCTAdd16High bitDepth blockOffset stride nnzc = high_depth bitDepth (with_coefs (16 * 16)
     (forM [0..<16] (\<lambda>i. add_block (\<lambda>c. c \<noteq> 0) (h264IDCTDCAddHigh bitDepth stride) (h264IDCTAddHigh bitDepth stride)
        (blockOffset ! i) stride 4 (i * 16) 16 (nnz_at nnzc i))))"

text \<open>For intra blocks the DC coefficient is not counted: a count of zero may come with one.\<close>

definition add_block_intra :: "(int \<Rightarrow> bool) \<Rightarrow> (int list \<times> int list, unit) go \<Rightarrow> (int list \<times> int list, unit) go
    \<Rightarrow> int \<Rightarrow> int \<Rightarrow> int \<Rightarrow> nat \<Rightarrow> nat \<Rightarrow> u8 \<Rightarrow> (int list \<times> int list, unit) go" where
  "add_block_intra is_dc dc_only full offset stride sz lo len nnz = (\<lambda>s.
     if nnz \<noteq> 0 then at_destination offset stride sz lo len full s
     else if is_dc (first_coef lo s) then at_destination offset stride sz lo len dc_only s
     else ret () s)"

definition h264IDCTAdd16Intra :: "int list \<Rightarrow> int \<Rightarrow> u8 list \<Rightarrow> (int list \<times> int list, unit) go" where
  "h264IDCTAdd16Intra blockOffset stride nnzc = with_coefs (16 * 16)
     (forM [0..<16] (\<lambda>i. add_block_intra (\<lambda>c. dctcoef8Value c \<noteq> 0) (h264IDCTDCAddScalar stride) (h264IDCTAddScalar stride)
        (blockOffset ! i) stride 4 (i * 16) 16 (nnz_at nnzc i)))"

definition h264IDCTAdd16IntraHigh :: "int \<Rightarrow> int list \<Rightarrow> int \<Rightarrow> u8 list \<Rightarrow> (int list \<times> int list, unit) go" where
  "h264IDCTAdd16IntraHigh bitDepth blockOffset stride nnzc = high_depth bitDepth (with_coefs (16 * 16)
     (forM [0..<16] (\<lambda>i. add_block_intra (\<lambda>c. c \<noteq> 0) (h264IDCTDCAddHigh bitDepth stride) (h264IDCTAddHigh bitDepth stride)
        (blockOffset ! i) stride 4 (i * 16) 16 (nnz_at nnzc i))))"

definition h264IDCT8Add4 :: "int list \<Rightarrow> int \<Rightarrow> u8 list \<Rightarrow> (int list \<times> int list, unit) go" where
  "h264IDCT8Add4 blockOffset stride nnzc = with_coefs (16 * 16)
     (forM [0, 4, 8, 12] (\<lambda>i. add_block (\<lambda>c. dctcoef8Value c \<noteq> 0) (h264IDCT8DCAdd stride) (h264IDCT8Add stride)
        (blockOffset ! i) stride 8 (i * 16) 64 (nnz_at nnzc i)))"

definition h264IDCT8Add4High :: "int \<Rightarrow> int list \<Rightarrow> int \<Rightarrow> u8 list \<Rightarrow> (int list \<times> int list, unit) go" where
  "h264IDCT8Add4High bitDepth blockOffset stride nnzc = high_depth bitDepth (with_coefs (16 * 16)
     (forM [0, 4, 8, 12] (\<lambda>i. add_block (\<lambda>c. c \<noteq> 0) (h264IDCT8DCAddHigh bitDepth stride) (h264IDCT8AddHigh bitDepth stride)
        (blockOffset ! i) stride 8 (i * 16) 64 (nnz_at nnzc i))))"

section \<open>Chroma\<close>

text \<open>The state of the chroma operations: the two destinations and the coefficients.\<close>

definition on_dest :: "nat \<Rightarrow> (int list \<times> int list, unit) go \<Rightarrow> (int list list \<times> int list, unit) go" where
  "on_dest j m = (\<lambda>(dest, block). case m (dest ! j, block) of (r, (d, b)) \<Rightarrow> (r, (dest[j := d], b)))"

definition h264IDCTAddChromaBlock :: "int \<Rightarrow> int \<Rightarrow> nat \<Rightarrow> u8 \<Rightarrow> (int list \<times> int list, unit) go" where
  "h264IDCTAddChromaBlock offset stride lo nnz = add_block_intra (\<lambda>c. dctcoef8Value c \<noteq> 0) (h264IDCTDCAddScalar stride)
     (h264IDCTAddScalar stride) offset stride 4 lo 16 nnz"

definition h264IDCTAddChromaBlockHigh :: "int \<Rightarrow> int \<Rightarrow> int \<Rightarrow> nat \<Rightarrow> u8 \<Rightarrow> (int list \<times> int list, unit) go" where
  "h264IDCTAddChromaBlockHigh bitDepth offset stride lo nnz = high_depth bitDepth (add_block_intra (\<lambda>c. c \<noteq> 0)
     (h264IDCTDCAddHigh bitDepth stride) (h264IDCTAddHigh bitDepth stride) offset stride 4 lo 16 nnz)"

definition chroma_blocks :: "(nat \<Rightarrow> nat \<Rightarrow> (int list \<times> int list, unit) go) \<Rightarrow> nat \<Rightarrow> nat \<Rightarrow> nat \<Rightarrow> (int list list \<times> int list, unit) go" where
  "chroma_blocks op from to shift =
     forM [1, 2] (\<lambda>j. forM [j * 16 + from..<j * 16 + to] (\<lambda>i. on_dest (j - 1) (op (i + shift) (i * 16))))"

definition with_chroma :: "(int list list \<times> int list, unit) go \<Rightarrow> (int list list \<times> int list, unit) go" where
  "with_chroma m = (\<lambda>(dest, block). if length block < 48 * 16 then (Inl ErrInvalidData, (dest, block)) else m (dest, block))"

definition h264IDCTAdd8 :: "int list \<Rightarrow> int \<Rightarrow> u8 list \<Rightarrow> (int list list \<times> int list, unit) go" where
  "h264IDCTAdd8 blockOffset stride nnzc = with_chroma
     (chroma_blocks (\<lambda>i lo. h264IDCTAddChromaBlock (blockOffset ! i) stride lo (nnz_at nnzc i)) 0 4 0)"

definition h264IDCTAdd8High :: "int \<Rightarrow> int list \<Rightarrow> int \<Rightarrow> u8 list \<Rightarrow> (int list list \<times> int list, unit) go" where
  "h264IDCTAdd8High bitDepth blockOffset stride nnzc = high_depth bitDepth (with_chroma
     (chroma_blocks (\<lambda>i lo. h264IDCTAddChromaBlockHigh bitDepth (blockOffset ! i) stride lo (nnz_at nnzc i)) 0 4 0))"

definition h264IDCTAdd8_422 :: "int list \<Rightarrow> int \<Rightarrow> u8 list \<Rightarrow> (int list list \<times> int list, unit) go" where
  "h264IDCTAdd8_422 blockOffset stride nnzc = with_chroma
     (let op = \<lambda>i lo. h264IDCTAddChromaBlock (blockOffset ! i) stride lo (nnz_at nnzc i)
      in thn (chroma_blocks op 0 4 0) (chroma_blocks op 4 8 4))"

definition h264IDCTAdd8_422High :: "int \<Rightarrow> int list \<Rightarrow> int \<Rightarrow> u8 list \<Rightarrow> (int list list \<times> int list, unit) go" where
  "h264IDCTAdd8_422High bitDepth blockOffset stride nnzc = high_depth bitDepth (with_chroma
     (let op = \<lambda>i lo. h264IDCTAddChromaBlockHigh bitDepth (blockOffset ! i) stride lo (nnz_at nnzc i)
      in thn (chroma_blocks op 0 4 0) (chroma_blocks op 4 8 4)))"

definition h264FrameBlockOffsets :: "int \<Rightarrow> int \<Rightarrow> int \<Rightarrow> int list result" where
  "h264FrameBlockOffsets lumaStride chromaStride pixelShift =
     (if lumaStride \<le> 0 \<or> chromaStride \<le> 0 \<or> pixelShift < 0 \<or> pixelShift > 1 then Inl ErrInvalidData
      else let delta = \<lambda>i. int (unat (h264Scan8 ! i)) - int (unat (h264Scan8 ! 0));
        at = \<lambda>stride i. push_bit (nat pixelShift) (4 * (delta i AND 7)) + 4 * stride * (delta i div 8);
        luma = map (at lumaStride) [0..<16]; chroma = map (at chromaStride) [0..<16]
      in Inr (map i64 (luma @ chroma @ chroma)))"

section \<open>DC coefficients\<close>

text \<open>\<open>w\<close> is the wrap-around of the sums, \<open>q\<close> the scaling of a result and its conversion.\<close>

definition luma_dc_row :: "(int \<Rightarrow> int) \<Rightarrow> int list \<Rightarrow> int list" where
  "luma_dc_row w c =
     (let z0 = w (c ! 0 + c ! 1); z1 = w (c ! 0 - c ! 1); z2 = w (c ! 2 - c ! 3); z3 = w (c ! 2 + c ! 3)
      in [w (z0 + z3), w (z0 - z3), w (z1 - z2), w (z1 + z2)])"

definition luma_dc_col :: "(int \<Rightarrow> int) \<Rightarrow> int list \<Rightarrow> int list" where
  "luma_dc_col w t =
     (let z0 = w (t ! 0 + t ! 2); z1 = w (t ! 0 - t ! 2); z2 = w (t ! 1 - t ! 3); z3 = w (t ! 1 + t ! 3)
      in [z0 + z3, z1 + z2, z1 - z2, z0 - z3])"

definition luma_dc :: "(int \<Rightarrow> int) \<Rightarrow> (int \<Rightarrow> int) \<Rightarrow> (int \<Rightarrow> int) \<Rightarrow> int list \<Rightarrow> int list \<Rightarrow> int list" where
  "luma_dc w rdv q input output =
     (let temp = concat (map (\<lambda>i. luma_dc_row w (map (\<lambda>j. rdv (input ! (4 * i + j))) [0..<4])) [0..<4])
      in fold (\<lambda>i out. let offset = [0, 2 * 16, 8 * 16, 10 * 16] ! i;
            z = luma_dc_col w (map (\<lambda>k. temp ! (4 * k + i)) [0..<4])
          in out[offset := q (z ! 0), 16 * 1 + offset := q (z ! 1), 16 * 4 + offset := q (z ! 2), 16 * 5 + offset := q (z ! 3)])
        [0..<4] output)"

definition h264LumaDCDequantIDCT :: "int list \<Rightarrow> int \<Rightarrow> (int list, unit) go" where
  "h264LumaDCDequantIDCT input qmul output =
     (if length output < 16 * 16 then (Inl ErrInvalidData, output)
      else (Inr (), luma_dc (\<lambda>v. v) dctcoef8Value (\<lambda>v. dctcoef8 ((v * qmul + 128) div 256)) input output))"

definition h264LumaDCDequantIDCTHigh :: "int list \<Rightarrow> int \<Rightarrow> (int list, unit) go" where
  "h264LumaDCDequantIDCTHigh input qmul output =
     (if length output < 16 * 16 then (Inl ErrInvalidData, output)
      else (Inr (), luma_dc i32 (\<lambda>c. c) (\<lambda>v. i32 (v * qmul + 128) div 256) input output))"

definition chroma_dc :: "(int \<Rightarrow> int) \<Rightarrow> (int \<Rightarrow> int) \<Rightarrow> int list \<Rightarrow> int list" where
  "chroma_dc rdv q block =
     (let a = rdv (block ! 0); b = rdv (block ! 16); c = rdv (block ! 32); d = rdv (block ! 48);
        e = a - b; a = a + b; b = c - d; c = c + d
      in block[0 := q (a + c), 16 := q (e + b), 32 := q (a - c), 48 := q (e - b)])"

definition h264ChromaDCDequantIDCT :: "int \<Rightarrow> (int list, unit) go" where
  "h264ChromaDCDequantIDCT qmul block =
     (if length block < 49 then (Inl ErrInvalidData, block)
      else (Inr (), chroma_dc dctcoef8Value (\<lambda>v. dctcoef8 ((v * qmul) div 128)) block))"

definition h264ChromaDCDequantIDCTHigh :: "int \<Rightarrow> (int list, unit) go" where
  "h264ChromaDCDequantIDCTHigh qmul block =
     (if length block < 49 then (Inl ErrInvalidData, block)
      else (Inr (), chroma_dc (\<lambda>c. c) (\<lambda>v. i32 (v * qmul) div 128) block))"

definition chroma422_dc :: "(int \<Rightarrow> int) \<Rightarrow> (int \<Rightarrow> int) \<Rightarrow> int list \<Rightarrow> int list" where
  "chroma422_dc rdv q block =
     (let temp = concat (map (\<lambda>i. let a = rdv (block ! (32 * i)); b = rdv (block ! (32 * i + 16)) in [a + b, a - b]) [0..<4])
      in fold (\<lambda>i out. let offset = [0, 16] ! i; z = luma_dc_col (\<lambda>v. v) (map (\<lambda>k. temp ! (2 * k + i)) [0..<4])
          in out[offset := q (z ! 0), 32 + offset := q (z ! 1), 32 * 2 + offset := q (z ! 2), 32 * 3 + offset := q (z ! 3)])
        [0..<2] block)"

definition h264Chroma422DCDequantIDCT :: "int \<Rightarrow> (int list, unit) go" where
  "h264Chroma422DCDequantIDCT qmul block =
     (if length block < 113 then (Inl ErrInvalidData, block)
      else (Inr (), chroma422_dc dctcoef8Value (\<lambda>v. dctcoef8 ((v * qmul + 128) div 256)) block))"

definition h264Chroma422DCDequantIDCTHigh :: "int \<Rightarrow> (int list, unit) go" where
  "h264Chroma422DCDequantIDCTHigh qmul block =
     (if length block < 113 then (Inl ErrInvalidData, block)
      else (Inr (), chroma422_dc (\<lambda>c. c) (\<lambda>v. i32 (v * qmul + 128) div 256) block))"

end
