(* ===== verification/Transform_Standard.thy ===== *)
theory Transform_Standard
  imports Transforms
begin

text \<open>
  The transforms against the standard (8.5.12, 8.5.13): with coefficients and first-pass results in the
  range the standard demands of a bitstream, each kernel adds the standard's residual to its block of
  samples, clips the sums, clears the coefficients and touches no other sample. The shortcuts for blocks
  with few coefficients give the same.
\<close>

section \<open>The standard\<close>

text \<open>The one-dimensional transforms, in the standard's letters.\<close>

definition std4 :: "int list \<Rightarrow> int list" where
  "std4 d = (let e0 = d ! 0 + d ! 2; e1 = d ! 0 - d ! 2; e2 = (d ! 1 div 2) - d ! 3; e3 = d ! 1 + (d ! 3 div 2)
     in [e0 + e3, e1 + e2, e1 - e2, e0 - e3])"

definition std8 :: "int list \<Rightarrow> int list" where
  "std8 d = (let
       e0 = d ! 0 + d ! 4; e1 = - (d ! 3) + d ! 5 - d ! 7 - (d ! 7 div 2); e2 = d ! 0 - d ! 4; e3 = d ! 1 + d ! 7 - d ! 3 - (d ! 3 div 2);
       e4 = (d ! 2 div 2) - d ! 6; e5 = - (d ! 1) + d ! 7 + d ! 5 + (d ! 5 div 2); e6 = d ! 2 + (d ! 6 div 2); e7 = d ! 3 + d ! 5 + d ! 1 + (d ! 1 div 2);
       f0 = e0 + e6; f1 = e1 + (e7 div 4); f2 = e2 + e4; f3 = e3 + (e5 div 4); f4 = e2 - e4; f5 = (e3 div 4) - e5; f6 = e0 - e6; f7 = e7 - (e1 div 4)
     in [f0 + f7, f2 + f5, f4 + f3, f6 + f1, f6 - f1, f4 - f3, f2 - f5, f0 - f7])"

text \<open>Rows first, then columns; \<open>d x y\<close> is the coefficient of column \<open>x\<close> and row \<open>y\<close>.\<close>

definition std_row :: "nat \<Rightarrow> (int list \<Rightarrow> int list) \<Rightarrow> (nat \<Rightarrow> nat \<Rightarrow> int) \<Rightarrow> nat \<Rightarrow> nat \<Rightarrow> int" where
  "std_row N f d x y = f (map (\<lambda>k. d k y) [0..<N]) ! x"

definition std_residual :: "nat \<Rightarrow> (int list \<Rightarrow> int list) \<Rightarrow> (nat \<Rightarrow> nat \<Rightarrow> int) \<Rightarrow> nat \<Rightarrow> nat \<Rightarrow> int" where
  "std_residual N f d x y = (f (map (\<lambda>k. std_row N f d x k) [0..<N]) ! y + 32) div 64"

definition Clip1 :: "int \<Rightarrow> int \<Rightarrow> int" where
  "Clip1 bitDepth v = max 0 (min v (2 ^ nat bitDepth - 1))"

text \<open>The decoder keeps a block by columns.\<close>

definition coefs :: "nat \<Rightarrow> int list \<Rightarrow> nat \<Rightarrow> nat \<Rightarrow> int" where
  "coefs N block x y = block ! (y + N * x)"

text \<open>
  The range of coefficients that the theorems ask for: what the standard allows, less 32 at the top. The standard
  keeps the 32 free in the results of the last stage only (for the rounding); the code adds the rounding
  to the first coefficient before the first stage, and here every coefficient and every first-stage result
  leaves room for it.
\<close>

definition in_coef_range :: "int \<Rightarrow> int \<Rightarrow> bool" where
  "in_coef_range bitDepth v \<longleftrightarrow> - (2 ^ nat (7 + bitDepth)) \<le> v \<and> v \<le> 2 ^ nat (7 + bitDepth) - 33"

definition coefs_fit :: "int \<Rightarrow> nat \<Rightarrow> (int list \<Rightarrow> int list) \<Rightarrow> (nat \<Rightarrow> nat \<Rightarrow> int) \<Rightarrow> bool" where
  "coefs_fit bitDepth N f d \<longleftrightarrow> list_all (\<lambda>x. list_all (\<lambda>y. in_coef_range bitDepth (d x y) \<and> in_coef_range bitDepth (std_row N f d x y)) [0..<N]) [0..<N]"

section \<open>The kernel's two passes\<close>

lemma fold_column:
  "(fold (\<lambda>k b. b[i + N * k := v k]) [0..<n] block) ! (i' + N * k')
    = (if i' = i \<and> k' < n then v k' else block ! (i' + N * k'))"
  if "i < N" "i' < N" "n \<le> N" "length block \<ge> N * N" for n :: nat
  using that(3)
proof (induction n)
  case (Suc n)
  have l: "length (fold (\<lambda>k b. b[i + N * k := v k]) [0..<n] block) = length block" for n
    by (induction n) simp_all
  have "i + N * n < N * N" using that(1) Suc.prems
    by (metis Suc_le_lessD add_less_mono1 less_le_trans mult_Suc_right mult_le_mono2)
  then have b: "i + N * n < length block" using that(4) by linarith
  have "i + N * n = i' + N * k' \<longleftrightarrow> i = i' \<and> n = k'"
  proof
    assume "i + N * n = i' + N * k'"
    then have "(i + N * n) mod N = (i' + N * k') mod N" "(i + N * n) div N = (i' + N * k') div N" by simp_all
    then show "i = i' \<and> n = k'" using that(1,2) by simp
  qed simp
  then show ?case using Suc b by (auto simp: nth_list_update l)
qed simp

lemma length_transform_col [simp]: "length (transform_col N f wrap i block) = length block"
proof -
  have "length (fold (\<lambda>k b. b[i + N * k := g k]) xs block) = length block" for g xs and block :: "int list"
    by (induction xs arbitrary: block) simp_all
  then show ?thesis by (simp add: transform_col_def Let_def)
qed

lemma length_fold_transform_col [simp]: "length (fold (transform_col N f wrap) xs block) = length block"
  by (induction xs arbitrary: block) simp_all

lemma transform_col_nth:
  assumes "i < N" "i' < N" "k < N" "N * N \<le> length block"
  shows "transform_col N f wrap i block ! (i' + N * k)
    = (if i' = i then wrap (f (map (\<lambda>k. wrap (block ! (i + N * k))) [0..<N]) ! k) else block ! (i' + N * k))"
  using assms fold_column [of i N i' N block] by (simp add: transform_col_def Let_def)

lemma first_pass:
  assumes "N * N \<le> length block" "i < N" "k < N" "n \<le> N"
  shows "fold (transform_col N f wrap) [0..<n] block ! (i + N * k)
    = (if i < n then wrap (f (map (\<lambda>k. wrap (block ! (i + N * k))) [0..<N]) ! k) else block ! (i + N * k))"
  using assms(2-4)
proof (induction n arbitrary: i k)
  case (Suc n)
  have m: "map (\<lambda>k. wrap (fold (transform_col N f wrap) [0..<n] block ! (n + N * k))) [0..<N] = map (\<lambda>k. wrap (block ! (n + N * k))) [0..<N]"
    using Suc.prems by (intro map_cong refl) (simp add: Suc.IH)
  have "i \<noteq> n \<Longrightarrow> fold (transform_col N f wrap) [0..<n] block ! (i + N * k) = (if i < n then wrap (f (map (\<lambda>k. wrap (block ! (i + N * k))) [0..<N]) ! k) else block ! (i + N * k))"
    using Suc by simp
  then have o: "i \<noteq> n \<Longrightarrow> transform_col N f wrap n (fold (transform_col N f wrap) [0..<n] block) ! (i + N * k)
      = (if i < n then wrap (f (map (\<lambda>k. wrap (block ! (i + N * k))) [0..<N]) ! k) else block ! (i + N * k))"
    using Suc.prems assms(1) by (simp add: transform_col_nth)
  have e: "transform_col N f wrap n (fold (transform_col N f wrap) [0..<n] block) ! (n + N * k)
      = wrap (f (map (\<lambda>k. wrap (block ! (n + N * k))) [0..<N]) ! k)"
    using Suc.prems assms(1) by (simp add: transform_col_nth m del: map_eq_conv)
  have "fold (transform_col N f wrap) [0..<Suc n] block = transform_col N f wrap n (fold (transform_col N f wrap) [0..<n] block)"
    by simp
  then show ?case using o e by (cases "i = n") auto
qed simp

lemma drop_fold_column:
  assumes "i < N" "n \<le> N"
  shows "drop (N * N) (fold (\<lambda>k b. b[i + N * k := v k]) [0..<n] block) = drop (N * N) block"
  using assms(2)
proof (induction n)
  case (Suc n)
  have "i + N * n < N * N" using assms(1) Suc.prems
    by (metis Suc_le_lessD add_less_mono1 less_le_trans mult_Suc_right mult_le_mono2)
  then show ?case using Suc by simp
qed simp

lemma drop_first_pass: "n \<le> N \<Longrightarrow> drop (N * N) (fold (transform_col N f wrap) [0..<n] block) = drop (N * N) block"
  by (induction n) (simp_all add: transform_col_def Let_def drop_fold_column)

section \<open>The kernel as an overlay\<close>

lemma forM_append: "(forM (xs @ ys) f :: ('s, unit) go) = thn (forM xs f) (forM ys f)"
proof -
  have "thn (ret ()) m = m" for m :: "('s, unit) go" by (simp add: thn_def bnd_def ret_def fun_eq_iff)
  moreover have "thn (thn a b) c = thn a (thn b c)" for a b and c :: "('s, unit) go"
    by (auto simp: thn_def bnd_def fun_eq_iff split: prod.splits sum.splits)
  ultimately show ?thesis by (induction xs) simp_all
qed

lemma forM_concat: "forM xs (\<lambda>x. forM (g x) h) = forM (concat (map g xs)) h"
  by (induction xs) (simp_all add: forM_append)

lemma forM_map: "forM xs (\<lambda>x. f (g x)) = forM (map g xs) f"
  by (induction xs) simp_all

text \<open>Rectangles inside a plane.\<close>

definition fits :: "int \<Rightarrow> int \<Rightarrow> int \<Rightarrow> int list \<Rightarrow> bool" where
  "fits stride w h dst \<longleftrightarrow> w \<le> stride \<and> (h - 1) * stride + w \<le> int (length dst) \<and> int (length dst) \<le> maxInt"

lemma fits_inside:
  assumes "fits stride w h p" "rect w h x y"
  shows "inside p 0 stride x y" "0 \<le> x" "x < stride"
proof -
  have "y * stride \<le> (h - 1) * stride" using assms by (intro mult_right_mono) (auto simp: fits_def rect_def)
  moreover have "0 \<le> y * stride" using assms by (auto simp: fits_def rect_def)
  ultimately have "0 \<le> 0 + x + y * stride \<and> 0 + x + y * stride < int (length p)"
    using assms unfolding fits_def rect_def by linarith
  then show "inside p 0 stride x y" "0 \<le> x" "x < stride" using assms by (auto simp: fits_def rect_def)
qed

text \<open>A loop that changes every sample of a square once, in any order.\<close>

lemma forM_rect:
  assumes "fits stride w h p" "distinct (map fst cs)" "\<And>x y. (x, y) \<in> set (map fst cs) \<longleftrightarrow> rect w h x y"
    "\<And>x y c. ((x, y), c) \<in> set cs \<Longrightarrow> c = g x y"
  shows "forM cs (\<lambda>((x, y), g). modify 0 stride x y g) p
    = (Inr (), overlay 0 stride (rect w h) (\<lambda>x y. g x y (smp p 0 stride x y)) p)"
proof -
  have i: "inside p 0 stride x y \<and> 0 \<le> x \<and> x < stride" if "((x, y), c) \<in> set cs" for x y c
  proof -
    have "(x, y) \<in> set (map fst cs)" using that by force
    then show ?thesis using assms(1,3) fits_inside by blast
  qed
  have "forM cs (\<lambda>((x, y), g). modify 0 stride x y g) (overlay 0 stride (\<lambda>_ _. False) (\<lambda>_ _. 0) p)
    = (Inr (), overlay 0 stride (\<lambda>a b. False \<or> (a, b) \<in> set (map fst cs))
        (\<lambda>a b. case map_of cs (a, b) of Some g \<Rightarrow> g (smp p 0 stride a b) | None \<Rightarrow> 0) p)"
  proof (rule forM_modify [OF assms(2)])
    show "list_all (\<lambda>((x, y), g). inside p 0 stride x y \<and> 0 \<le> x \<and> x < stride) cs"
      using i by (auto simp: list_all_iff)
  qed simp
  also have "overlay 0 stride (\<lambda>a b. False \<or> (a, b) \<in> set (map fst cs))
        (\<lambda>a b. case map_of cs (a, b) of Some g \<Rightarrow> g (smp p 0 stride a b) | None \<Rightarrow> 0) p
     = overlay 0 stride (rect w h) (\<lambda>x y. g x y (smp p 0 stride x y)) p"
  proof (rule overlay_cong)
    show "(False \<or> (x, y) \<in> set (map fst cs)) = rect w h x y" for x y using assms(3) by simp
    fix x y
    assume "rect w h x y"
    then have "(x, y) \<in> fst ` set cs" using assms(3) [of x y] by simp
    then obtain c where c: "map_of cs (x, y) = Some c" by (metis map_of_eq_None_iff not_None_eq)
    then show "(case map_of cs (x, y) of Some g \<Rightarrow> g (smp p 0 stride x y) | None \<Rightarrow> 0) = g x y (smp p 0 stride x y)"
      using assms(4) [of x y c] map_of_SomeD [OF c] by simp
  qed
  finally show ?thesis by (simp add: overlay_none)
qed

lemma i64_id: "- 9223372036854775808 \<le> x \<Longrightarrow> x \<le> maxInt \<Longrightarrow> i64 x = x"
  by (simp add: i64_def)

lemma fits_check:
  assumes "0 < N" "fits stride (int N) (int N) dst" "n \<le> length block"
  shows "checkTransformAddArgs dst block n stride (int N) = Inr ()"
proof -
  have s: "int N \<le> stride" "(int N - 1) * stride + int N \<le> int (length dst)" "int (length dst) \<le> maxInt"
    using assms(2) by (simp_all add: fits_def)
  have "0 \<le> (int N - 1) * stride" using assms(1) s(1) by simp
  then have "i64 ((int N - 1) * stride + int N) = (int N - 1) * stride + int N" using s by (intro i64_id) linarith+
  then show ?thesis using assms s by (simp add: checkTransformAddArgs_def transformBlockDestination_def Let_def)
qed

lemma transform_overlay:
  fixes f wrap N block
  defines "B \<equiv> fold (transform_col N f wrap) [0..<N] (block[0 := wrap (block ! 0 + 32)])"
  assumes "0 < N" "fits stride (int N) (int N) dst" "N * N \<le> length block"
  shows "transform N f wrap w2 clip stride (dst, block)
    = (Inr (), overlay 0 stride (rect (int N) (int N)) (\<lambda>x y. clip (smp dst 0 stride x y
          + w2 (f (map (\<lambda>k. wrap (B ! (k + N * nat x))) [0..<N]) ! nat y) div 64)) dst, replicate (N * N) 0 @ drop (N * N) block)"
proof -
  define g where "g = (\<lambda>x y v. clip (v + w2 (f (map (\<lambda>k. wrap (B ! (k + N * nat x))) [0..<N]) ! nat y) div 64))"
  define cs where "cs = concat (map (\<lambda>i. map (\<lambda>k. ((int i, int k), g (int i) (int k))) [0..<N]) [0..<N])"
  have a: "transform_add N f wrap w2 clip stride B i = forM (map (\<lambda>k. ((int i, int k), g (int i) (int k))) [0..<N]) (\<lambda>((x, y), g). modify 0 stride x y g)" for i
    by (simp add: transform_add_def Let_def forM_map [symmetric] g_def)
  have "forM [0..<N] (transform_add N f wrap w2 clip stride B) dst = forM cs (\<lambda>((x, y), g). modify 0 stride x y g) dst"
    unfolding a cs_def by (simp only: forM_concat)
  also have "\<dots> = (Inr (), overlay 0 stride (rect (int N) (int N)) (\<lambda>x y. g x y (smp dst 0 stride x y)) dst)"
  proof (rule forM_rect [OF assms(3)])
    have m: "map fst cs = concat (map (\<lambda>i. map (\<lambda>k. (int i, int k)) [0..<N]) [0..<N])" by (simp add: cs_def map_concat comp_def)
    have "distinct xs \<Longrightarrow> distinct (concat (map (\<lambda>i. map (\<lambda>k. (int i, int k)) [0..<N]) xs))" for xs
      by (induction xs) (auto simp: distinct_map inj_on_def)
    then show "distinct (map fst cs)" by (simp add: m)
    show "(x, y) \<in> set (map fst cs) \<longleftrightarrow> rect (int N) (int N) x y" for x y
    proof
      assume r: "rect (int N) (int N) x y"
      then obtain a b where "x = int a" "y = int b" "a < N" "b < N"
        by (metis nat_0_le nat_less_iff rect_def zless_nat_eq_int_zless)
      then show "(x, y) \<in> set (map fst cs)" unfolding m by (auto simp: image_iff)
    qed (auto simp: m rect_def)
    show "c = g x y" if "((x, y), c) \<in> set cs" for x y c using that by (auto simp: cs_def)
  qed
  finally show ?thesis
    using fits_check [OF assms(2,3,4)] assms(2,4) by (simp add: transform_def B_def [symmetric] g_def) (simp add: B_def drop_first_pass)
qed

section \<open>What a kernel needs of its one-dimensional transform\<close>

text \<open>
  The code's transform \<open>f\<close>, with coefficients of a type that holds \<open>lo\<close> to \<open>hi\<close>, is the standard's \<open>g\<close>
  on them; a constant on the first coefficient is one on every result.
\<close>

locale residual_kernel =
  fixes N :: nat and f g :: "int list \<Rightarrow> int list" and wrap w2 :: "int \<Rightarrow> int" and lo hi :: int
  assumes pos: "0 < N"
    and offset: "length c = N \<Longrightarrow> k < N \<Longrightarrow> g (c[0 := c ! 0 + t]) ! k = g c ! k + t"
    and zero: "k < N \<Longrightarrow> g (replicate N 0) ! k = 0"
    and agree: "length c = N \<Longrightarrow> list_all (\<lambda>v. lo \<le> v \<and> v \<le> hi) c \<Longrightarrow> f c = g c"
    and wrap: "lo \<le> v \<Longrightarrow> v \<le> hi \<Longrightarrow> wrap v = v"
    and result: "length c = N \<Longrightarrow> list_all (\<lambda>v. lo \<le> v \<and> v \<le> hi) c \<Longrightarrow> k < N \<Longrightarrow> w2 (g c ! k) = g c ! k"
begin

definition in_range :: "(nat \<Rightarrow> nat \<Rightarrow> int) \<Rightarrow> bool" where
  "in_range d \<longleftrightarrow> (\<forall>x<N. \<forall>y<N. lo \<le> d x y \<and> d x y \<le> hi - 32 \<and> lo \<le> std_row N g d x y \<and> std_row N g d x y \<le> hi - 32)"

lemma map_offset:
  "g (map (\<lambda>k. h k + (if k = 0 then t else 0)) [0..<N]) ! k = g (map h [0..<N]) ! k + t" if "k < N"
proof -
  have "map (\<lambda>k. h k + (if k = 0 then t else 0)) [0..<N] = (map h [0..<N])[0 := map h [0..<N] ! 0 + t]"
    by (rule nth_equalityI) (use pos in \<open>auto simp: nth_list_update\<close>)
  then show ?thesis using offset [of "map h [0..<N]" k t] that by simp
qed

lemma transform_standard:
  assumes "fits stride (int N) (int N) dst" "N * N \<le> length block" "in_range (coefs N block)"
  shows "transform N f wrap w2 clip stride (dst, block)
    = (Inr (), overlay 0 stride (rect (int N) (int N)) (\<lambda>x y. clip (smp dst 0 stride x y
          + std_residual N g (coefs N block) (nat x) (nat y))) dst, replicate (N * N) 0 @ drop (N * N) block)"
proof -
  define d where "d = coefs N block"
  define bl where "bl = block[0 := wrap (block ! 0 + 32)]"
  define B where "B = fold (transform_col N f wrap) [0..<N] bl"
  have rng: "lo \<le> d x y" "d x y \<le> hi - 32" "lo \<le> std_row N g d x y" "std_row N g d x y \<le> hi - 32" if "x < N" "y < N" for x y
    using assms(3) that by (auto simp: in_range_def d_def)
  have nn: "0 < N * N" using pos by simp
  have bl: "bl ! (y + N * x) = d x y + (if x = 0 \<and> y = 0 then 32 else 0)" if "x < N" "y < N" for x y
  proof (cases "x = 0 \<and> y = 0")
    case True
    have "0 < length block" using nn assms(2) by linarith
    then have "bl ! (y + N * x) = wrap (d 0 0 + 32)" using True by (simp add: bl_def d_def coefs_def)
    then show ?thesis using True wrap [of "d 0 0 + 32"] rng [of 0 0] pos by simp
  next
    case False
    then have "y + N * x \<noteq> 0" using pos by auto
    then show ?thesis using False by (simp add: bl_def d_def coefs_def)
  qed
  have in1: "map (\<lambda>k. wrap (bl ! (y + N * k))) [0..<N] = map (\<lambda>k. d k y + (if k = 0 then if y = 0 then 32 else 0 else 0)) [0..<N]" if "y < N" for y
  proof (intro map_cong refl)
    fix k assume "k \<in> set [0..<N]"
    then have k: "k < N" by simp
    show "wrap (bl ! (y + N * k)) = d k y + (if k = 0 then if y = 0 then 32 else 0 else 0)"
      using bl [OF k that] rng(1,2) [OF k that] wrap [of "d k y"] wrap [of "d k y + 32"] by auto
  qed
  have l1: "list_all (\<lambda>v. lo \<le> v \<and> v \<le> hi) (map (\<lambda>k. d k y + (if k = 0 then if y = 0 then 32 else 0 else 0)) [0..<N])" if "y < N" for y
    using rng(1,2) that by (force simp: list_all_iff)
  have B: "B ! (y + N * x) = std_row N g d x y + (if y = 0 then 32 else 0)" if "x < N" "y < N" for x y
  proof -
    have "B ! (y + N * x) = wrap (f (map (\<lambda>k. wrap (bl ! (y + N * k))) [0..<N]) ! x)"
      unfolding B_def using that assms(2) by (subst first_pass) (simp_all add: bl_def)
    also have "\<dots> = wrap (g (map (\<lambda>k. d k y + (if k = 0 then if y = 0 then 32 else 0 else 0)) [0..<N]) ! x)"
      unfolding in1 [OF that(2)] using agree [OF _ l1 [OF that(2)]] by simp
    also have "\<dots> = wrap (std_row N g d x y + (if y = 0 then 32 else 0))"
      using map_offset [OF that(1), of "\<lambda>k. d k y" "if y = 0 then 32 else 0"] by (simp add: std_row_def)
    also have "\<dots> = std_row N g d x y + (if y = 0 then 32 else 0)" using rng(3,4) [OF that] by (intro wrap) auto
    finally show ?thesis .
  qed
  have in2: "map (\<lambda>k. wrap (B ! (k + N * x))) [0..<N] = map (\<lambda>k. std_row N g d x k + (if k = 0 then 32 else 0)) [0..<N]" if "x < N" for x
  proof (intro map_cong refl)
    fix k assume "k \<in> set [0..<N]"
    then have k: "k < N" by simp
    show "wrap (B ! (k + N * x)) = std_row N g d x k + (if k = 0 then 32 else 0)"
      unfolding B [OF that k] using rng(3,4) [OF that k] by (intro wrap) auto
  qed
  have l2: "list_all (\<lambda>v. lo \<le> v \<and> v \<le> hi) (map (\<lambda>k. std_row N g d x k + (if k = 0 then 32 else 0)) [0..<N])" if "x < N" for x
    unfolding list_all_iff
  proof
    fix v
    assume "v \<in> set (map (\<lambda>k. std_row N g d x k + (if k = 0 then 32 else 0)) [0..<N])"
    then obtain k where "k < N" "v = std_row N g d x k + (if k = 0 then 32 else 0)" by auto
    then show "lo \<le> v \<and> v \<le> hi" using rng(3,4) [OF that \<open>k < N\<close>] by auto
  qed
  have o: "w2 (f (map (\<lambda>k. wrap (B ! (k + N * x))) [0..<N]) ! y) div 64 = std_residual N g d x y" if "x < N" "y < N" for x y
  proof -
    define c where "c = map (\<lambda>k. std_row N g d x k + (if k = 0 then 32 else 0)) [0..<N]"
    have c: "length c = N" "list_all (\<lambda>v. lo \<le> v \<and> v \<le> hi) c" using l2 [OF that(1)] by (simp_all add: c_def)
    have "g c ! y = g (map (std_row N g d x) [0..<N]) ! y + 32"
      unfolding c_def by (rule map_offset [OF that(2), of "std_row N g d x" 32])
    then show ?thesis
      unfolding in2 [OF that(1)] c_def [symmetric] agree [OF c] result [OF c that(2)] std_residual_def by simp
  qed
  show ?thesis
    unfolding transform_overlay [OF pos assms(1,2)] bl_def [symmetric] B_def [symmetric] d_def [symmetric]
  proof (intro arg_cong2 [where f = Pair] refl overlay_cong)
    fix x y :: int
    assume "rect (int N) (int N) x y"
    then have "nat x < N" "nat y < N" by (auto simp: rect_def)
    then show "clip (smp dst 0 stride x y + w2 (f (map (\<lambda>k. wrap (B ! (k + N * nat x))) [0..<N]) ! nat y) div 64)
        = clip (smp dst 0 stride x y + std_residual N g d (nat x) (nat y))" using o by simp
  qed
qed

text \<open>A block with only a DC coefficient.\<close>

lemma dc_row: "std_row N g d x y = (if y = 0 then d 0 0 else 0)"
  if "\<And>i j. i < N \<Longrightarrow> j < N \<Longrightarrow> i \<noteq> 0 \<or> j \<noteq> 0 \<Longrightarrow> d i j = 0" "x < N" "y < N"
proof -
  have m: "map (\<lambda>k. d k y) [0..<N] = map (\<lambda>k. 0 + (if k = 0 then if y = 0 then d 0 0 else 0 else 0)) [0..<N]"
    using that(1) [of _ y] that(3) by (intro map_cong refl) auto
  have "map (\<lambda>_. 0) [0..<N] = replicate N (0 :: int)" by (simp add: map_replicate_const)
  then show ?thesis unfolding std_row_def m
    using map_offset [OF that(2), of "\<lambda>_. 0" "if y = 0 then d 0 0 else 0"] zero [OF that(2)] by simp
qed

lemma dc_residual: "std_residual N g d x y = (d 0 0 + 32) div 64"
  if "\<And>i j. i < N \<Longrightarrow> j < N \<Longrightarrow> i \<noteq> 0 \<or> j \<noteq> 0 \<Longrightarrow> d i j = 0" "x < N" "y < N"
proof -
  have m: "map (\<lambda>k. std_row N g d x k) [0..<N] = map (\<lambda>k. 0 + (if k = 0 then d 0 0 else 0)) [0..<N]"
    using dc_row [OF that(1) that(2)] by (intro map_cong refl) auto
  have "map (\<lambda>_. 0) [0..<N] = replicate N (0 :: int)" by (simp add: map_replicate_const)
  then show ?thesis unfolding std_residual_def m
    using map_offset [OF that(3), of "\<lambda>_. 0" "d 0 0"] zero [OF that(3)] by simp
qed

lemma dc_add_overlay:
  assumes "fits stride (int N) (int N) dst" "1 \<le> length block"
  shows "dc_add N dc_of clip stride (dst, block)
    = (Inr (), overlay 0 stride (rect (int N) (int N)) (\<lambda>x y. clip (smp dst 0 stride x y + dc_of (block ! 0))) dst, block[0 := 0])"
proof -
  define g where "g = (\<lambda>(x :: int) (y :: int) v. clip (v + dc_of (block ! 0)))"
  define cs where "cs = map (\<lambda>(x, y). ((x, y), g x y)) (rect_list (int N) (int N))"
  have "forM (rect_list (int N) (int N)) (\<lambda>(x, y). modify 0 stride x y (\<lambda>v. clip (v + dc_of (block ! 0)))) dst
      = forM cs (\<lambda>((x, y), g). modify 0 stride x y g) dst"
    unfolding cs_def forM_map [symmetric] g_def by (intro arg_cong2 [where f = "\<lambda>f p. forM _ f p"] refl) (auto simp: fun_eq_iff)
  also have "\<dots> = (Inr (), overlay 0 stride (rect (int N) (int N)) (\<lambda>x y. g x y (smp dst 0 stride x y)) dst)"
  proof (rule forM_rect [OF assms(1)])
    have m: "map fst cs = rect_list (int N) (int N)" by (simp add: cs_def comp_def case_prod_unfold)
    show "distinct (map fst cs)" by (simp add: m distinct_rect_list)
    show "(x, y) \<in> set (map fst cs) \<longleftrightarrow> rect (int N) (int N) x y" for x y by (simp add: m set_rect_list)
    show "c = g x y" if "((x, y), c) \<in> set cs" for x y c using that by (auto simp: cs_def)
  qed
  finally show ?thesis using fits_check [OF pos assms] by (simp add: dc_add_def g_def)
qed

lemma dc_add_transform:
  assumes "fits stride (int N) (int N) dst" "N * N \<le> length block" "\<And>i. 0 < i \<Longrightarrow> i < N * N \<Longrightarrow> block ! i = 0"
    "lo \<le> block ! 0" "block ! 0 \<le> hi - 32" "lo \<le> 0" "32 \<le> hi" "dc_of (block ! 0) = (block ! 0 + 32) div 64"
  shows "dc_add N dc_of clip stride (dst, block) = transform N f wrap w2 clip stride (dst, block)"
proof -
  have nn: "0 < N * N" using pos by simp
  have lt: "j + N * i < N * N" if "i < N" "j < N" for i j
    using that by (metis Suc_le_lessD Suc_leI add.commute add_less_mono1 less_le_trans mult_Suc_right mult_le_mono2 add.commute)
  have d: "coefs N block i j = 0" if "i < N" "j < N" "i \<noteq> 0 \<or> j \<noteq> 0" for i j
    unfolding coefs_def using that pos by (intro assms(3) lt) auto
  have d0: "coefs N block 0 0 = block ! 0" by (simp add: coefs_def)
  have "in_range (coefs N block)" unfolding in_range_def
  proof (intro allI impI)
    fix x y assume xy: "x < N" "y < N"
    have "coefs N block x y = block ! 0 \<or> coefs N block x y = 0" using d [OF xy] d0 by (cases "x = 0 \<and> y = 0") auto
    moreover have "std_row N g (coefs N block) x y = block ! 0 \<or> std_row N g (coefs N block) x y = 0"
      using dc_row [OF d xy] d0 by auto
    ultimately show "lo \<le> coefs N block x y \<and> coefs N block x y \<le> hi - 32 \<and> lo \<le> std_row N g (coefs N block) x y \<and> std_row N g (coefs N block) x y \<le> hi - 32"
      using assms(4-7) by auto
  qed
  note t = transform_standard [OF assms(1,2) this, of clip]
  have b: "replicate (N * N) 0 @ drop (N * N) block = block[0 := 0]"
  proof (rule nth_equalityI)
    fix i assume "i < length (replicate (N * N) 0 @ drop (N * N) block)"
    then have "i < length block" using assms(2) by simp
    then have e: "block[0 := 0] ! i = (if i = 0 then 0 else block ! i)" by (cases i) simp_all
    show "(replicate (N * N) 0 @ drop (N * N) block) ! i = block[0 := 0] ! i"
      unfolding e using assms(3) [of i] nn assms(2) by (cases "i < N * N") (auto simp: nth_append)
  qed (use assms(2) in simp)
  have r: "std_residual N g (coefs N block) x y = (block ! 0 + 32) div 64" if "x < N" "y < N" for x y
    using dc_residual [OF d that] d0 by simp
  have "1 \<le> length block" using nn assms(2) by linarith
  then show ?thesis
    unfolding t b dc_add_overlay [OF assms(1) \<open>1 \<le> length block\<close>] assms(8)
    by (intro arg_cong2 [where f = Pair] refl overlay_cong) (auto simp: rect_def r)
qed

lemma zero_transform:
  assumes "fits stride (int N) (int N) dst" "N * N \<le> length block" "\<And>i. i < N * N \<Longrightarrow> block ! i = 0"
    "lo \<le> 0" "32 \<le> hi" "\<And>v. v \<in> set dst \<Longrightarrow> clip v = v"
  shows "transform N f wrap w2 clip stride (dst, block) = (Inr (), dst, block)"
proof -
  have nn: "0 < N * N" using pos by simp
  have b0: "block ! 0 = 0" by (rule assms(3) [OF nn])
  have one: "1 \<le> length block" using nn assms(2) by linarith
  have "transform N f wrap w2 clip stride (dst, block) = dc_add N (\<lambda>c. (c + 32) div 64) clip stride (dst, block)"
    by (rule dc_add_transform [symmetric]) (use assms b0 in auto)
  also have "\<dots> = (Inr (), overlay 0 stride (rect (int N) (int N)) (\<lambda>x y. clip (smp dst 0 stride x y)) dst, block)"
    using b0 one by (simp add: dc_add_overlay [OF assms(1) one]) (metis b0 list_update_id)
  also have "overlay 0 stride (rect (int N) (int N)) (\<lambda>x y. clip (smp dst 0 stride x y)) dst = dst"
  proof (rule nth_equalityI)
    fix i assume i: "i < length (overlay 0 stride (rect (int N) (int N)) (\<lambda>x y. clip (smp dst 0 stride x y)) dst)"
    have e: "(int i - 0) mod stride + (int i - 0) div stride * stride = int i" by simp
    have "smp dst 0 stride ((int i - 0) mod stride) ((int i - 0) div stride) = dst ! i"
      unfolding smp_def using e i by simp
    then show "overlay 0 stride (rect (int N) (int N)) (\<lambda>x y. clip (smp dst 0 stride x y)) dst ! i = dst ! i"
      using i assms(6) [of "dst ! i"] by (simp add: overlay_at)
  qed simp
  finally show ?thesis .
qed

end

section \<open>The kernels of the code\<close>

lemma length4: "length c = 4 \<Longrightarrow> \<exists>a b d e. c = [a, b, d, e]"
  by (auto simp: length_Suc_conv numeral_eq_Suc)

lemma length8: "length c = 8 \<Longrightarrow> \<exists>a b d e f g h i. c = [a, b, d, e, f, g, h, i]"
  by (auto simp: length_Suc_conv numeral_eq_Suc)

lemma less4: "k < (4 :: nat) \<longleftrightarrow> k = 0 \<or> k = 1 \<or> k = 2 \<or> k = 3" by auto

lemma less8: "k < (8 :: nat) \<longleftrightarrow> k = 0 \<or> k = 1 \<or> k = 2 \<or> k = 3 \<or> k = 4 \<or> k = 5 \<or> k = 6 \<or> k = 7" by auto

lemma std4_offset: "length c = 4 \<Longrightarrow> k < 4 \<Longrightarrow> std4 (c[0 := c ! 0 + t]) ! k = std4 c ! k + t"
  by (drule length4) (auto simp: std4_def Let_def less4)

lemma std4_zero: "k < 4 \<Longrightarrow> std4 (replicate 4 0) ! k = 0"
  by (auto simp: std4_def Let_def less4)

lemma idct4_std4: "idct4 c = std4 c"
  by (simp add: idct4_def std4_def Let_def)

lemma std8_offset: "length c = 8 \<Longrightarrow> k < 8 \<Longrightarrow> std8 (c[0 := c ! 0 + t]) ! k = std8 c ! k + t"
  by (drule length8) (auto simp: std8_def Let_def less8)

lemma std8_zero: "k < 8 \<Longrightarrow> std8 (replicate 8 0) ! k = 0"
  by (auto simp: std8_def Let_def less8)

lemma idct8_std8: "idct8 (\<lambda>v. v) c = std8 c"
  by (simp add: idct8_def std8_def Let_def)

lemma idct8_wrap: "length c = 8 \<Longrightarrow> list_all (\<lambda>v. - 2097152 \<le> v \<and> v \<le> 2097151) c \<Longrightarrow> idct8 i32 c = std8 c"
  by (drule length8) (auto simp: idct8_def std8_def Let_def i32_id)

interpretation idct4_8bit: residual_kernel 4 idct4 std4 dctcoef8 "\<lambda>v. v" "- 32768" 32767
  by unfold_locales (auto simp: std4_offset std4_zero idct4_std4 dctcoef8_def i16_def)

interpretation idct8_8bit: residual_kernel 8 "idct8 (\<lambda>v. v)" std8 dctcoef8 "\<lambda>v. v" "- 32768" 32767
  by unfold_locales (auto simp: std8_offset std8_zero idct8_std8 dctcoef8_def i16_def)

lemma std4_i32: "length c = 4 \<Longrightarrow> list_all (\<lambda>v. - 2097152 \<le> v \<and> v \<le> 2097151) c \<Longrightarrow> k < 4 \<Longrightarrow> i32 (std4 c ! k) = std4 c ! k"
  by (drule length4) (auto simp: std4_def Let_def less4 intro!: i32_id)

lemma std8_i32: "length c = 8 \<Longrightarrow> list_all (\<lambda>v. - 2097152 \<le> v \<and> v \<le> 2097151) c \<Longrightarrow> k < 8 \<Longrightarrow> i32 (std8 c ! k) = std8 c ! k"
  by (drule length8) (auto simp: std8_def Let_def less8 intro!: i32_id)

interpretation idct4_high: residual_kernel 4 idct4 std4 i32 i32 "- 2097152" 2097151
  by unfold_locales (auto simp: std4_offset std4_zero idct4_std4 i32_id intro: std4_i32)

interpretation idct8_high: residual_kernel 8 "idct8 i32" std8 i32 i32 "- 2097152" 2097151
  by unfold_locales (auto simp: std8_offset std8_zero idct8_wrap i32_id intro: std8_i32)


text \<open>The code's clipping is the standard's.\<close>

lemma clipUint8_Clip1: "clipUint8 v = Clip1 8 v"
  by (simp add: clipUint8_def Clip1_def)

lemma clipUintBitDepth_Clip1: "clipUintBitDepth bitDepth v = Clip1 bitDepth v"
  by (simp add: clipUintBitDepth_def Clip1_def Let_def)

definition high_depths :: "int list" where "high_depths = [9, 10, 12, 14]"

lemma high_depth_ok: "bitDepth \<in> set high_depths \<Longrightarrow> high_depth bitDepth m = m"
  by (auto simp: high_depth_def high_depths_def checkH264DSPHighBitDepth_def lift_def thn_def bnd_def fun_eq_iff)

lemma range_8: "in_coef_range 8 c \<Longrightarrow> - 32768 \<le> c \<and> c \<le> 32767 - 32"
  by (simp add: in_coef_range_def)

lemma range_high: "in_coef_range bitDepth c \<Longrightarrow> bitDepth \<in> set high_depths \<Longrightarrow> - 2097152 \<le> c \<and> c \<le> 2097151 - 32"
  by (auto simp: in_coef_range_def high_depths_def)

text \<open>The kernel for a depth, as the code chooses it by the type of the samples.\<close>

definition add_4x4 :: "int \<Rightarrow> int \<Rightarrow> (int list \<times> int list, unit) go" where
  "add_4x4 bitDepth stride = (if bitDepth = 8 then h264IDCTAddScalar stride else h264IDCTAddHigh bitDepth stride)"

definition add_8x8 :: "int \<Rightarrow> int \<Rightarrow> (int list \<times> int list, unit) go" where
  "add_8x8 bitDepth stride = (if bitDepth = 8 then h264IDCT8Add stride else h264IDCT8AddHigh bitDepth stride)"

lemma coefs_fit_8: "coefs_fit 8 N g d \<Longrightarrow> x < N \<Longrightarrow> y < N \<Longrightarrow>
    - 32768 \<le> d x y \<and> d x y \<le> 32767 - 32 \<and> - 32768 \<le> std_row N g d x y \<and> std_row N g d x y \<le> 32767 - 32"
  by (auto simp: coefs_fit_def in_coef_range_def list_all_iff)

lemma coefs_fit_high:
  assumes "coefs_fit bitDepth N g d" "bitDepth \<in> set high_depths" "x < N" "y < N"
  shows "- 2097152 \<le> d x y \<and> d x y \<le> 2097151 - 32 \<and> - 2097152 \<le> std_row N g d x y \<and> std_row N g d x y \<le> 2097151 - 32"
proof -
  have "in_coef_range bitDepth (d x y)" "in_coef_range bitDepth (std_row N g d x y)"
    using assms(1,3,4) by (auto simp: coefs_fit_def list_all_iff)
  then show ?thesis using assms(2) by (auto simp: in_coef_range_def high_depths_def)
qed

theorem residual_4x4_standard:
  assumes "bitDepth \<in> set (8 # high_depths)" "fits stride 4 4 dst" "16 \<le> length block" "coefs_fit bitDepth 4 std4 (coefs 4 block)"
  shows "add_4x4 bitDepth stride (dst, block)
    = (Inr (), overlay 0 stride (rect 4 4) (\<lambda>x y. Clip1 bitDepth (smp dst 0 stride x y
          + std_residual 4 std4 (coefs 4 block) (nat x) (nat y))) dst, replicate 16 0 @ drop 16 block)"
proof (cases "bitDepth = 8")
  case True
  have "idct4_8bit.in_range (coefs 4 block)"
    using coefs_fit_8 [OF assms(4) [unfolded True]] by (simp add: idct4_8bit.in_range_def)
  then show ?thesis using idct4_8bit.transform_standard [of stride dst block clipUint8] assms(2,3)
    by (simp add: True add_4x4_def h264IDCTAddScalar_def clipUint8_Clip1)
next
  case False
  then have h: "bitDepth \<in> set high_depths" using assms(1) by simp
  have "idct4_high.in_range (coefs 4 block)"
    using coefs_fit_high [OF assms(4) h] by (simp add: idct4_high.in_range_def)
  then show ?thesis using idct4_high.transform_standard [of stride dst block "clipUintBitDepth bitDepth"] assms(2,3) False
    by (simp add: add_4x4_def h264IDCTAddHigh_def clipUintBitDepth_Clip1 high_depth_ok [OF h])
qed

theorem residual_8x8_standard:
  assumes "bitDepth \<in> set (8 # high_depths)" "fits stride 8 8 dst" "64 \<le> length block" "coefs_fit bitDepth 8 std8 (coefs 8 block)"
  shows "add_8x8 bitDepth stride (dst, block)
    = (Inr (), overlay 0 stride (rect 8 8) (\<lambda>x y. Clip1 bitDepth (smp dst 0 stride x y
          + std_residual 8 std8 (coefs 8 block) (nat x) (nat y))) dst, replicate 64 0 @ drop 64 block)"
proof (cases "bitDepth = 8")
  case True
  have "idct8_8bit.in_range (coefs 8 block)"
    using coefs_fit_8 [OF assms(4) [unfolded True]] by (simp add: idct8_8bit.in_range_def)
  then show ?thesis using idct8_8bit.transform_standard [of stride dst block clipUint8] assms(2,3)
    by (simp add: True add_8x8_def h264IDCT8Add_def clipUint8_Clip1)
next
  case False
  then have h: "bitDepth \<in> set high_depths" using assms(1) by simp
  have "idct8_high.in_range (coefs 8 block)"
    using coefs_fit_high [OF assms(4) h] by (simp add: idct8_high.in_range_def)
  then show ?thesis using idct8_high.transform_standard [of stride dst block "clipUintBitDepth bitDepth"] assms(2,3) False
    by (simp add: add_8x8_def h264IDCT8AddHigh_def clipUintBitDepth_Clip1 high_depth_ok [OF h])
qed

end
