(* ===== verification/Transform_Blocks.thy ===== *)
theory Transform_Blocks
  imports Transform_Standard
begin

text \<open>
  The loops over the blocks of a macroblock. Where the counts are right, skipping the empty blocks and adding
  only the DC coefficient of the others changes nothing: the loop is the full transform of every block.
\<close>

section \<open>One block\<close>

text \<open>The samples of a plane stay in the range of the clipping.\<close>

definition clipped :: "(int \<Rightarrow> int) \<Rightarrow> int list \<Rightarrow> bool" where
  "clipped clip p \<longleftrightarrow> list_all (\<lambda>v. clip v = v) p"

lemma clipped_overlay:
  assumes "clipped clip p" "\<And>v. clip (clip v) = clip v"
  shows "clipped clip (overlay off st S (\<lambda>x y. clip (g x y)) p)"
  unfolding clipped_def list_all_length
proof (intro allI impI)
  fix n
  assume n: "n < length (overlay off st S (\<lambda>x y. clip (g x y)) p)"
  have "clip (p ! n) = p ! n" using assms(1) n by (simp add: clipped_def list_all_length)
  then show "clip (overlay off st S (\<lambda>x y. clip (g x y)) p ! n) = overlay off st S (\<lambda>x y. clip (g x y)) p ! n"
    using n assms(2) by (simp add: overlay_at)
qed

definition nonzero :: "nat \<Rightarrow> nat \<Rightarrow> int list \<Rightarrow> nat" where
  "nonzero lo len block = length (filter (\<lambda>c. c \<noteq> 0) (take len (drop lo block)))"

lemma nonzero_0: "nonzero lo len block = 0 \<Longrightarrow> i < len \<Longrightarrow> lo + len \<le> length block \<Longrightarrow> take len (drop lo block) ! i = 0"
  unfolding nonzero_def length_0_conv filter_empty_conv
  by (metis (no_types, lifting) nth_mem length_take length_drop min_absorb2 le_diff_conv2 add.commute add_leD1)

lemma filter_length_1: "length (filter P xs) = 1 \<Longrightarrow> P (xs ! 0) \<Longrightarrow> 0 < i \<Longrightarrow> i < length xs \<Longrightarrow> \<not> P (xs ! i)"
  by (cases xs; cases i) (auto simp: filter_empty_conv)

lemma at_slices_ret: "nat offset \<le> length dst \<Longrightarrow> at_slices offset lo len (\<lambda>s. (Inr (), s)) (dst, block) = (Inr (), (dst, block))"
proof -
  have "take lo block @ take len (drop lo block) @ drop (lo + len) block = block"
    by (metis add.commute append_take_drop_id drop_drop)
  then show ?thesis by (simp add: at_slices_def)
qed

lemma at_slices_cong: "m (drop (nat offset) dst, take len (drop lo block)) = m' (drop (nat offset) dst, take len (drop lo block)) \<Longrightarrow>
    at_slices offset lo len m (dst, block) = at_slices offset lo len m' (dst, block)"
  by (simp add: at_slices_def)

context residual_kernel begin

definition dst_ok :: "int \<Rightarrow> int \<Rightarrow> nat \<Rightarrow> bool" where
  "dst_ok stride offset len \<longleftrightarrow> 0 \<le> offset \<and> int N \<le> stride \<and> offset + (int N - 1) * stride + int N \<le> int len \<and> int len \<le> maxInt"

lemma at_destination_ok:
  assumes "dst_ok stride offset (length dst)"
  shows "at_destination offset stride (int N) lo' len m (dst, block) = at_slices offset lo' len m (dst, block)"
    "nat offset \<le> length dst" "fits stride (int N) (int N) (drop (nat offset) dst)"
proof -
  have h: "0 \<le> offset" "int N \<le> stride" "offset + (int N - 1) * stride + int N \<le> int (length dst)" "int (length dst) \<le> maxInt"
    using assms by (simp_all add: dst_ok_def)
  have "0 \<le> (int N - 1) * stride" using pos h(2) by simp
  then have i: "i64 (offset + (int N - 1) * stride + int N) = offset + (int N - 1) * stride + int N" "offset \<le> int (length dst)"
    using h by (auto intro!: i64_id)
  then show "at_destination offset stride (int N) lo' len m (dst, block) = at_slices offset lo' len m (dst, block)"
    using h pos by (simp add: at_destination_def transformBlockDestination_def Let_def)
  show "nat offset \<le> length dst" using i(2) by simp
  show "fits stride (int N) (int N) (drop (nat offset) dst)" using h i by (simp add: fits_def)
qed

text \<open>What makes a block's shortcut right: its coefficients and its DC coefficient.\<close>

definition block_ok :: "nat \<Rightarrow> int list \<Rightarrow> bool" where
  "block_ok lo' block \<longleftrightarrow> lo' + N * N \<le> length block \<and> lo \<le> block ! lo' \<and> block ! lo' \<le> hi - 32"

lemma slice_facts:
  assumes "block_ok lo' block"
  shows "N * N \<le> length (take (N * N) (drop lo' block))" "take (N * N) (drop lo' block) ! 0 = block ! lo'"
  using assms pos by (auto simp: block_ok_def)

lemma add_block_full:
  assumes "dst_ok stride offset (length dst)" "block_ok lo' block" "clipped clip dst" "unat nnz = nonzero lo' (N * N) block"
    "lo \<le> 0" "32 \<le> hi" "\<And>c. lo \<le> c \<Longrightarrow> c \<le> hi - 32 \<Longrightarrow> dc_of c = (c + 32) div 64 \<and> (is_dc c \<longleftrightarrow> c \<noteq> 0)"
  shows "add_block is_dc (dc_add N dc_of clip stride) (transform N f wrap w2 clip stride) offset stride (int N) lo' (N * N) nnz (dst, block)
    = at_slices offset lo' (N * N) (transform N f wrap w2 clip stride) (dst, block)"
proof -
  note d = at_destination_ok [OF assms(1)]
  note sl = slice_facts [OF assms(2)]
  have len: "lo' + N * N \<le> length block" using assms(2) by (simp add: block_ok_def)
  have rng: "lo \<le> block ! lo'" "block ! lo' \<le> hi - 32" using assms(2) by (simp_all add: block_ok_def)
  show ?thesis
  proof (cases "nnz = 0")
    case True
    have "transform N f wrap w2 clip stride (drop (nat offset) dst, take (N * N) (drop lo' block))
        = (Inr (), (drop (nat offset) dst, take (N * N) (drop lo' block)))"
      using assms(3,4) len True
      by (intro zero_transform [OF d(3) sl(1) _ assms(5,6)] nonzero_0) (auto simp: clipped_def list_all_iff dest: in_set_dropD)
    then have "at_slices offset lo' (N * N) (transform N f wrap w2 clip stride) (dst, block) = (Inr (), (dst, block))"
      using at_slices_ret [OF d(2), of lo' "N * N" block] at_slices_cong by metis
    then show ?thesis using True by (simp add: add_block_def ret_def)
  next
    case False
    have b: "(\<lambda>s. if nnz = 1 \<and> is_dc (first_coef 0 s) then dc_add N dc_of clip stride s else transform N f wrap w2 clip stride s)
          (drop (nat offset) dst, take (N * N) (drop lo' block))
        = transform N f wrap w2 clip stride (drop (nat offset) dst, take (N * N) (drop lo' block))"
    proof (cases "nnz = 1 \<and> block ! lo' \<noteq> 0")
      case True
      have "take (N * N) (drop lo' block) ! i = 0" if "0 < i" "i < N * N" for i
        using filter_length_1 [of "\<lambda>c. c \<noteq> 0" "take (N * N) (drop lo' block)" i] True assms(4) len sl that by (simp add: nonzero_def)
      then have "dc_add N dc_of clip stride (drop (nat offset) dst, take (N * N) (drop lo' block))
        = transform N f wrap w2 clip stride (drop (nat offset) dst, take (N * N) (drop lo' block))"
        using sl(2) rng assms(5-7) by (intro dc_add_transform [OF d(3) sl(1)]) auto
      then show ?thesis by simp
    next
      case False
      then show ?thesis using assms(7) [OF rng] sl(2) by (auto simp: first_coef_def)
    qed
    then show ?thesis using False by (simp add: add_block_def d(1) at_slices_def b [simplified])
  qed
qed

lemma add_block_intra_full:
  assumes "dst_ok stride offset (length dst)" "block_ok lo' block" "clipped clip dst" "nnz = 0 \<longrightarrow> nonzero (lo' + 1) (N * N - 1) block = 0"
    "lo \<le> 0" "32 \<le> hi" "\<And>c. lo \<le> c \<Longrightarrow> c \<le> hi - 32 \<Longrightarrow> dc_of c = (c + 32) div 64 \<and> (is_dc c \<longleftrightarrow> c \<noteq> 0)"
  shows "add_block_intra is_dc (dc_add N dc_of clip stride) (transform N f wrap w2 clip stride) offset stride (int N) lo' (N * N) nnz (dst, block)
    = at_slices offset lo' (N * N) (transform N f wrap w2 clip stride) (dst, block)"
proof (cases "nnz = 0")
  case True
  note d = at_destination_ok [OF assms(1)]
  note sl = slice_facts [OF assms(2)]
  have len: "lo' + N * N \<le> length block" using assms(2) by (simp add: block_ok_def)
  have rng: "lo \<le> block ! lo'" "block ! lo' \<le> hi - 32" using assms(2) by (simp_all add: block_ok_def)
  have ac: "take (N * N) (drop lo' block) ! i = 0" if "0 < i" "i < N * N" for i
  proof -
    have "take (N * N - 1) (drop (lo' + 1) block) ! (i - 1) = 0"
      using True assms(4) len that by (intro nonzero_0) auto
    then show ?thesis using that len by simp
  qed
  show ?thesis
  proof (cases "block ! lo' = 0")
    case z: True
    have "take (N * N) (drop lo' block) ! i = 0" if "i < N * N" for i using ac [of i] z sl(2) that by (cases "i = 0") auto
    then have "transform N f wrap w2 clip stride (drop (nat offset) dst, take (N * N) (drop lo' block))
        = (Inr (), (drop (nat offset) dst, take (N * N) (drop lo' block)))"
      using assms(3) by (intro zero_transform [OF d(3) sl(1) _ assms(5,6)]) (auto simp: clipped_def list_all_iff dest: in_set_dropD)
    then have "at_slices offset lo' (N * N) (transform N f wrap w2 clip stride) (dst, block) = (Inr (), (dst, block))"
      using at_slices_ret [OF d(2), of lo' "N * N" block] at_slices_cong by metis
    then show ?thesis using True z assms(7) [OF rng] by (simp add: add_block_intra_def first_coef_def ret_def)
  next
    case False
    have "dc_add N dc_of clip stride (drop (nat offset) dst, take (N * N) (drop lo' block))
        = transform N f wrap w2 clip stride (drop (nat offset) dst, take (N * N) (drop lo' block))"
      using sl(2) rng assms(5-7) ac by (intro dc_add_transform [OF d(3) sl(1)]) auto
    then show ?thesis using True False assms(7) [OF rng] by (simp add: add_block_intra_def first_coef_def d(1) at_slices_def)
  qed
next
  case False
  then show ?thesis using at_destination_ok(1) [OF assms(1)] by (simp add: add_block_intra_def)
qed

text \<open>The full transform keeps the lengths, the range of the samples and the coefficients that follow.\<close>

lemma full_step:
  assumes "dst_ok stride offset (length dst)" "lo' + N * N \<le> length block" "clipped clip dst" "\<And>v. clip (clip v) = clip v"
  obtains dst' block' where "at_slices offset lo' (N * N) (transform N f wrap w2 clip stride) (dst, block) = (Inr (), (dst', block'))"
    "length dst' = length dst" "clipped clip dst'" "length block' = length block"
    "\<And>j. lo' + N * N \<le> j \<Longrightarrow> drop j block' = drop j block"
proof -
  note d = at_destination_ok [OF assms(1)]
  define p where "p = drop (nat offset) dst"
  define b where "b = take (N * N) (drop lo' block)"
  have b: "N * N \<le> length b" "length b = N * N" using assms(2) by (simp_all add: b_def)
  have p: "clipped clip p" using assms(3) by (auto simp: clipped_def list_all_iff p_def dest: in_set_dropD)
  have "\<exists>h. transform N f wrap w2 clip stride (p, b)
      = (Inr (), overlay 0 stride (rect (int N) (int N)) (\<lambda>x y. clip (h x y)) p, replicate (N * N) 0 @ drop (N * N) b)"
    by (intro exI, rule transform_overlay [OF pos d(3) [folded p_def] b(1)])
  then obtain h where t: "transform N f wrap w2 clip stride (p, b)
      = (Inr (), overlay 0 stride (rect (int N) (int N)) (\<lambda>x y. clip (h x y)) p, replicate (N * N) 0 @ drop (N * N) b)" ..
  define p' where "p' = overlay 0 stride (rect (int N) (int N)) (\<lambda>x y. clip (h x y)) p"
  have p': "length p' = length p" "clipped clip p'" using clipped_overlay [OF p assms(4)] by (simp_all add: p'_def)
  show ?thesis
  proof (rule that)
    show "at_slices offset lo' (N * N) (transform N f wrap w2 clip stride) (dst, block)
        = (Inr (), (take (nat offset) dst @ p', take lo' block @ replicate (N * N) 0 @ drop (lo' + N * N) block))"
      using t b(2) by (simp add: at_slices_def p_def [symmetric] b_def [symmetric] p'_def)
    show "length (take (nat offset) dst @ p') = length dst" using p'(1) d(2) by (simp add: p_def)
    show "clipped clip (take (nat offset) dst @ p')"
      using assms(3) p'(2) by (auto simp: clipped_def list_all_iff dest: in_set_takeD)
    show "length (take lo' block @ replicate (N * N) 0 @ drop (lo' + N * N) block) = length block" using assms(2) by simp
    show "drop j (take lo' block @ replicate (N * N) 0 @ drop (lo' + N * N) block) = drop j block" if "lo' + N * N \<le> j" for j
      using that assms(2) by (simp add: add.commute)
  qed
qed

lemma blocks_full:
  assumes "sorted_wrt (\<lambda>i j. lof i + N * N \<le> lof j) is" "clipped clip dst" "\<And>v. clip (clip v) = clip v"
    "\<And>i. i \<in> set is \<Longrightarrow> dst_ok stride (off i) (length dst) \<and> lof i + N * N \<le> length block"
    "\<And>i dst' block'. i \<in> set is \<Longrightarrow> length dst' = length dst \<Longrightarrow> clipped clip dst' \<Longrightarrow> length block' = length block \<Longrightarrow>
        drop (lof i) block' = drop (lof i) block \<Longrightarrow>
        st i (dst', block') = at_slices (off i) (lof i) (N * N) (transform N f wrap w2 clip stride) (dst', block')"
  shows "forM is st (dst, block) = forM is (\<lambda>i. at_slices (off i) (lof i) (N * N) (transform N f wrap w2 clip stride)) (dst, block)"
  using assms(1,2,4,5)
proof (induction "is" arbitrary: dst block)
  case (Cons i is')
  have i: "dst_ok stride (off i) (length dst)" "lof i + N * N \<le> length block" using Cons.prems(3) [of i] by auto
  obtain dst' block' where s: "at_slices (off i) (lof i) (N * N) (transform N f wrap w2 clip stride) (dst, block) = (Inr (), (dst', block'))"
    "length dst' = length dst" "clipped clip dst'" "length block' = length block"
    "\<And>j. lof i + N * N \<le> j \<Longrightarrow> drop j block' = drop j block"
    using full_step [OF i Cons.prems(2) assms(3)] by blast
  have e: "st i (dst, block) = (Inr (), (dst', block'))" using Cons.prems(4) [of i dst block] Cons.prems(2) s(1) by simp
  have later: "drop (lof j) block' = drop (lof j) block" if "j \<in> set is'" for j
    using Cons.prems(1) that by (intro s(5)) simp
  have "forM is' st (dst', block') = forM is' (\<lambda>i. at_slices (off i) (lof i) (N * N) (transform N f wrap w2 clip stride)) (dst', block')"
  proof (rule Cons.IH)
    show "sorted_wrt (\<lambda>i j. lof i + N * N \<le> lof j) is'" using Cons.prems(1) by simp
    show "clipped clip dst'" by (rule s(3))
    show "dst_ok stride (off j) (length dst') \<and> lof j + N * N \<le> length block'" if "j \<in> set is'" for j
      using Cons.prems(3) [of j] that s by simp
    show "st j (d, b) = at_slices (off j) (lof j) (N * N) (transform N f wrap w2 clip stride) (d, b)"
      if "j \<in> set is'" "length d = length dst'" "clipped clip d" "length b = length block'" "drop (lof j) b = drop (lof j) block'" for j d b
      using Cons.prems(4) [of j d b] that s later by simp
  qed
  then show ?case by (simp add: thn_def bnd_def e s(1))
qed simp

end

lemma block_ok_cong:
  "drop (lo' :: nat) block' = drop lo' block \<Longrightarrow> length block' = length block \<Longrightarrow> nonzero (lo' + k) len block' = nonzero (lo' + k) len block"
  by (simp add: nonzero_def flip: drop_drop add.commute)

section \<open>The loops of the code\<close>

text \<open>
  The preconditions: the blocks lie in the plane, the samples are samples, the DC coefficients are in the
  standard's range, and the counts are those of the blocks.
\<close>

definition macroblock_ok :: "int \<Rightarrow> nat \<Rightarrow> int \<Rightarrow> int list \<Rightarrow> nat list \<Rightarrow> int list \<Rightarrow> int list \<Rightarrow> bool" where
  "macroblock_ok bitDepth N stride blockOffset is dst block \<longleftrightarrow>
     int N \<le> stride \<and> int (length dst) \<le> maxInt \<and> 256 \<le> length block \<and> list_all (\<lambda>v. 0 \<le> v \<and> v \<le> 2 ^ nat bitDepth - 1) dst \<and>
     list_all (\<lambda>i. 0 \<le> blockOffset ! i \<and> blockOffset ! i + (int N - 1) * stride + int N \<le> int (length dst)
        \<and> in_coef_range bitDepth (block ! (i * 16))) is"

definition counts_ok :: "nat \<Rightarrow> u8 list \<Rightarrow> nat list \<Rightarrow> int list \<Rightarrow> bool" where
  "counts_ok len nnzc is block \<longleftrightarrow> list_all (\<lambda>i. unat (nnz_at nnzc i) = nonzero (i * 16) len block) is"

text \<open>For intra blocks a count of zero says that there is nothing but a DC coefficient.\<close>

definition ac_counts_ok :: "u8 list \<Rightarrow> nat list \<Rightarrow> int list \<Rightarrow> bool" where
  "ac_counts_ok nnzc is block \<longleftrightarrow> list_all (\<lambda>i. unat (nnz_at nnzc i) = 0 \<longrightarrow> nonzero (i * 16 + 1) 15 block = 0) is"

lemma Clip1_Clip1: "Clip1 bitDepth (Clip1 bitDepth v) = Clip1 bitDepth v"
  by (simp add: Clip1_def)

lemma clipped_Clip1: "list_all (\<lambda>v. 0 \<le> v \<and> v \<le> 2 ^ nat bitDepth - 1) dst \<Longrightarrow> clipped (Clip1 bitDepth) dst"
  by (auto simp: clipped_def Clip1_def list_all_iff)

lemma clip_funs: "clipUint8 = Clip1 8" "clipUintBitDepth bitDepth = Clip1 bitDepth"
  by (auto simp: fun_eq_iff clipUint8_Clip1 clipUintBitDepth_Clip1)

lemma macroblock_facts:
  assumes "macroblock_ok bitDepth N stride blockOffset is dst block" "i \<in> set is"
  shows "0 \<le> blockOffset ! i" "int N \<le> stride" "blockOffset ! i + (int N - 1) * stride + int N \<le> int (length dst)"
    "int (length dst) \<le> maxInt" "in_coef_range bitDepth (block ! (i * 16))"
  using assms by (auto simp: macroblock_ok_def list_all_iff)

lemma dc8: "- 32768 \<le> c \<Longrightarrow> c \<le> 32767 - 32 \<Longrightarrow> (dctcoef8Value c + 32) div 64 = (c + 32) div 64 \<and> (dctcoef8Value c \<noteq> 0 \<longleftrightarrow> c \<noteq> 0)"
  by (simp add: dctcoef8Value_def i16_def)

lemma dc_high: "- 2097152 \<le> c \<Longrightarrow> c \<le> 2097151 - 32 \<Longrightarrow> i32 (c + 32) div 64 = (c + 32) div 64 \<and> (c \<noteq> 0 \<longleftrightarrow> c \<noteq> 0)"
  by (simp add: i32_id)

lemma later_dc: "drop j block' = drop j block \<Longrightarrow> j < length block \<Longrightarrow> length block' = length block \<Longrightarrow> block' ! j = block ! j"
  by (metis hd_drop_conv_nth)

lemma sorted_16: "sorted_wrt (\<lambda>i j. i * 16 + 16 \<le> j * 16) [0..<16]" "sorted_wrt (\<lambda>i j. i * 16 + 64 \<le> j * (16 :: nat)) [0, 4, 8, 12]"
  by (simp_all add: upt_rec)

lemma in_16: "i \<in> set [0..<16] \<Longrightarrow> i * 16 + 16 \<le> 256" "i \<in> set [0, 4, 8, 12] \<Longrightarrow> i * 16 + 64 \<le> (256 :: nat)"
  by auto

lemma overlay_drop:
  assumes "0 \<le> off" "nat off \<le> length p" "\<And>x y. S x y \<Longrightarrow> 0 \<le> x \<and> 0 \<le> y" "0 < st"
    "\<And>x y. S x y \<Longrightarrow> g x y (smp (drop (nat off) p) 0 st x y) = g' x y"
  shows "take (nat off) p @ overlay 0 st S (\<lambda>x y. g x y (smp (drop (nat off) p) 0 st x y)) (drop (nat off) p) = overlay off st S g' p"
proof (rule nth_equalityI)
  fix i
  assume "i < length (take (nat off) p @ overlay 0 st S (\<lambda>x y. g x y (smp (drop (nat off) p) 0 st x y)) (drop (nat off) p))"
  then have i: "i < length p" using assms(2) by simp
  define a where "a = (int i - off) mod st"
  define b where "b = (int i - off) div st"
  show "(take (nat off) p @ overlay 0 st S (\<lambda>x y. g x y (smp (drop (nat off) p) 0 st x y)) (drop (nat off) p)) ! i = overlay off st S g' p ! i"
  proof (cases "i < nat off")
    case True
    then have "int i - off < 0" using assms(1) by linarith
    then have "b < 0" using assms(4) by (simp add: b_def pos_imp_zdiv_neg_iff)
    then have "\<not> S a b" using assms(3) by fastforce
    then show ?thesis using True i assms(2) by (simp add: nth_append overlay_at a_def b_def)
  next
    case False
    then have e: "int (i - nat off) - 0 = int i - off" using assms(1) by simp
    have "overlay 0 st S (\<lambda>x y. g x y (smp (drop (nat off) p) 0 st x y)) (drop (nat off) p) ! (i - nat off)
        = (if S a b then g a b (smp (drop (nat off) p) 0 st a b) else drop (nat off) p ! (i - nat off))"
      unfolding a_def b_def e [symmetric] using False i by (intro overlay_at) simp
    moreover have "drop (nat off) p ! (i - nat off) = p ! i" using False i assms(2) by simp
    moreover have "overlay off st S g' p ! i = (if S a b then g' a b else p ! i)"
      unfolding a_def b_def by (rule overlay_at [OF i])
    ultimately show ?thesis using False assms(2,5) by (simp add: nth_append)
  qed
qed (use assms(2) in simp)

context residual_kernel begin

definition residual_at :: "int \<Rightarrow> nat \<Rightarrow> int list \<Rightarrow> (int \<Rightarrow> int) \<Rightarrow> int \<Rightarrow> int list \<Rightarrow> int list" where
  "residual_at off lo' block clip stride p = overlay off stride (rect (int N) (int N)) (\<lambda>x y. clip (smp p off stride x y
     + std_residual N g (coefs N (take (N * N) (drop lo' block))) (nat x) (nat y))) p"

lemma at_slices_standard:
  assumes "dst_ok stride offset (length dst)" "lo' + N * N \<le> length block" "in_range (coefs N (take (N * N) (drop lo' block)))"
  shows "at_slices offset lo' (N * N) (transform N f wrap w2 clip stride) (dst, block)
    = (Inr (), (residual_at offset lo' block clip stride dst, take lo' block @ replicate (N * N) 0 @ drop (lo' + N * N) block))"
proof -
  note d = at_destination_ok [OF assms(1)]
  have o: "0 \<le> offset" "0 < stride" using assms(1) pos by (auto simp: dst_ok_def)
  define p where "p = drop (nat offset) dst"
  define b where "b = take (N * N) (drop lo' block)"
  have b: "N * N \<le> length b" "length b = N * N" using assms(2) by (simp_all add: b_def)
  have t: "transform N f wrap w2 clip stride (p, b) = (Inr (), overlay 0 stride (rect (int N) (int N)) (\<lambda>x y. clip (smp p 0 stride x y
          + std_residual N g (coefs N b) (nat x) (nat y))) p, replicate (N * N) 0 @ drop (N * N) b)"
    by (rule transform_standard [OF d(3) [folded p_def] b(1) assms(3) [folded b_def]])
  have e: "take (nat offset) dst @ overlay 0 stride (rect (int N) (int N)) (\<lambda>x y. clip (smp p 0 stride x y
          + std_residual N g (coefs N b) (nat x) (nat y))) p
      = overlay offset stride (rect (int N) (int N)) (\<lambda>x y. clip (smp dst offset stride x y + std_residual N g (coefs N b) (nat x) (nat y))) dst"
    unfolding p_def
  proof (rule overlay_drop [OF o(1) d(2) _ o(2), where g = "\<lambda>x y v. clip (v + std_residual N g (coefs N b) (nat x) (nat y))"])
    fix x y :: int
    assume r: "rect (int N) (int N) x y"
    then show "0 \<le> x \<and> 0 \<le> y" by (auto simp: rect_def)
    have i: "inside p 0 stride x y" using fits_inside [OF d(3) r] by (simp add: p_def)
    have l: "int (length p) = int (length dst) - offset" using d(2) o(1) by (simp add: p_def)
    have "0 \<le> x + y * stride" "x + y * stride < int (length p)" using i by simp_all
    then have "smp (drop (nat offset) dst) 0 stride x y = drop (nat offset) dst ! nat (x + y * stride)"
      by (simp add: smp_def p_def Let_def del: length_drop)
    also have "\<dots> = dst ! (nat offset + nat (x + y * stride))" using d(2) by simp
    also have "nat offset + nat (x + y * stride) = nat (offset + x + y * stride)" using o(1) \<open>0 \<le> x + y * stride\<close> by simp
    also have "dst ! nat (offset + x + y * stride) = smp dst offset stride x y"
      using i l o(1) by (simp add: smp_def Let_def)
    finally show "clip (smp (drop (nat offset) dst) 0 stride x y + std_residual N g (coefs N b) (nat x) (nat y))
        = clip (smp dst offset stride x y + std_residual N g (coefs N b) (nat x) (nat y))" by simp
  qed
  show ?thesis
    using t e b(2) by (simp add: at_slices_def residual_at_def flip: p_def b_def)
qed

lemma blocks_standard:
  assumes "\<And>k. k < m \<Longrightarrow> dst_ok stride (off k) (length dst) \<and> in_range (coefs N (take (N * N) (drop (k * (N * N)) block)))"
    "m * (N * N) \<le> length block"
  shows "forM [0..<m] (\<lambda>k. at_slices (off k) (k * (N * N)) (N * N) (transform N f wrap w2 clip stride)) (dst, block)
    = (Inr (), (fold (\<lambda>k. residual_at (off k) (k * (N * N)) block clip stride) [0..<m] dst, replicate (m * (N * N)) 0 @ drop (m * (N * N)) block))"
  using assms
proof (induction m)
  case 0
  then show ?case by (simp add: ret_def)
next
  case (Suc m)
  define p where "p = fold (\<lambda>k. residual_at (off k) (k * (N * N)) block clip stride) [0..<m] dst"
  define bl where "bl = replicate (m * (N * N)) 0 @ drop (m * (N * N)) block"
  have ih: "forM [0..<m] (\<lambda>k. at_slices (off k) (k * (N * N)) (N * N) (transform N f wrap w2 clip stride)) (dst, block) = (Inr (), (p, bl))"
    unfolding p_def bl_def by (rule Suc.IH) (use Suc.prems in auto)
  have "length (fold (\<lambda>k. residual_at (off k) (k * (N * N)) block clip stride) ks dst) = length dst" for ks
    by (induction ks arbitrary: dst) (simp_all add: residual_at_def)
  then have pl: "length p = length dst" by (simp add: p_def)
  have sl: "take (N * N) (drop (m * (N * N)) bl) = take (N * N) (drop (m * (N * N)) block)" by (simp add: bl_def)
  have bl: "m * (N * N) + N * N \<le> length bl" using Suc.prems(2) by (simp add: bl_def)
  have h: "dst_ok stride (off m) (length p)" "in_range (coefs N (take (N * N) (drop (m * (N * N)) bl)))"
    using Suc.prems(1) [of m] by (simp_all add: pl sl)
  have st: "at_slices (off m) (m * (N * N)) (N * N) (transform N f wrap w2 clip stride) (p, bl)
      = (Inr (), (residual_at (off m) (m * (N * N)) block clip stride p, replicate (m * (N * N)) 0 @ replicate (N * N) 0 @ drop (Suc m * (N * N)) block))"
    unfolding at_slices_standard [OF h(1) bl h(2)] by (simp add: residual_at_def sl) (simp add: bl_def add.commute)
  have "forM [0..<Suc m] (\<lambda>k. at_slices (off k) (k * (N * N)) (N * N) (transform N f wrap w2 clip stride)) (dst, block)
      = at_slices (off m) (m * (N * N)) (N * N) (transform N f wrap w2 clip stride) (p, bl)"
    unfolding upt_Suc_append [OF le0] forM_append by (simp add: thn_def bnd_def ih) (simp add: bnd_def ret_def split: prod.splits sum.splits)
  then show ?case unfolding st p_def [symmetric]
    by (simp add: p_def) (metis add.commute append_assoc replicate_add)
qed

end

context residual_kernel begin

lemma loop_full:
  assumes "lo \<le> 0" "32 \<le> hi" "\<And>c. lo \<le> c \<Longrightarrow> c \<le> hi - 32 \<Longrightarrow> dc_of c = (c + 32) div 64 \<and> (is_dc c \<longleftrightarrow> c \<noteq> 0)"
    "\<And>c. in_coef_range bitDepth c \<Longrightarrow> lo \<le> c \<and> c \<le> hi - 32"
    "macroblock_ok bitDepth N stride blockOffset is dst block" "counts_ok (N * N) nnzc is block"
    "sorted_wrt (\<lambda>i j. i * 16 + N * N \<le> j * 16) is" "\<And>i. i \<in> set is \<Longrightarrow> i * 16 + N * N \<le> 256"
  shows "forM is (\<lambda>i. add_block is_dc (dc_add N dc_of (Clip1 bitDepth) stride) (transform N f wrap w2 (Clip1 bitDepth) stride)
        (blockOffset ! i) stride (int N) (i * 16) (N * N) (nnz_at nnzc i)) (dst, block)
    = forM is (\<lambda>i. at_slices (blockOffset ! i) (i * 16) (N * N) (transform N f wrap w2 (Clip1 bitDepth) stride)) (dst, block)"
proof (rule blocks_full [OF assms(7)])
  have len: "256 \<le> length block" "list_all (\<lambda>v. 0 \<le> v \<and> v \<le> 2 ^ nat bitDepth - 1) dst" using assms(5) by (auto simp: macroblock_ok_def)
  show "clipped (Clip1 bitDepth) dst" by (rule clipped_Clip1 [OF len(2)])
  show "Clip1 bitDepth (Clip1 bitDepth v) = Clip1 bitDepth v" for v by (rule Clip1_Clip1)
  show "dst_ok stride (blockOffset ! i) (length dst) \<and> i * 16 + N * N \<le> length block" if "i \<in> set is" for i
    using macroblock_facts [OF assms(5) that] assms(8) [OF that] len by (simp add: dst_ok_def)
  fix i dst' block'
  assume i: "i \<in> set is" and h: "length dst' = length dst" "clipped (Clip1 bitDepth) dst'" "length block' = length block" "drop (i * 16) block' = drop (i * 16) block"
  note m = macroblock_facts [OF assms(5) i]
  have e: "i * 16 < length block" "i * 16 + N * N \<le> length block" using assms(8) [OF i] len pos by (auto intro: less_le_trans [of _ "i * 16 + N * N"])
  show "add_block is_dc (dc_add N dc_of (Clip1 bitDepth) stride) (transform N f wrap w2 (Clip1 bitDepth) stride)
        (blockOffset ! i) stride (int N) (i * 16) (N * N) (nnz_at nnzc i) (dst', block')
    = at_slices (blockOffset ! i) (i * 16) (N * N) (transform N f wrap w2 (Clip1 bitDepth) stride) (dst', block')"
  proof (rule add_block_full [OF _ _ h(2) _ assms(1,2)])
    show "dst_ok stride (blockOffset ! i) (length dst')" using m h(1) by (simp add: dst_ok_def)
    show "block_ok (i * 16) block'"
      using e h(3) assms(4) [OF m(5)] later_dc [OF h(4) e(1) h(3)] by (simp add: block_ok_def)
    show "unat (nnz_at nnzc i) = nonzero (i * 16) (N * N) block'"
      using assms(6) i h(4) by (simp add: counts_ok_def list_all_iff nonzero_def)
  qed (use assms(3) in blast)
qed

lemma loop_intra_full:
  assumes "lo \<le> 0" "32 \<le> hi" "\<And>c. lo \<le> c \<Longrightarrow> c \<le> hi - 32 \<Longrightarrow> dc_of c = (c + 32) div 64 \<and> (is_dc c \<longleftrightarrow> c \<noteq> 0)"
    "\<And>c. in_coef_range bitDepth c \<Longrightarrow> lo \<le> c \<and> c \<le> hi - 32"
    "macroblock_ok bitDepth N stride blockOffset is dst block" "ac_counts_ok nnzc is block" "N * N = 16"
    "sorted_wrt (\<lambda>i j. i * 16 + N * N \<le> j * 16) is" "\<And>i. i \<in> set is \<Longrightarrow> i * 16 + N * N \<le> 256"
  shows "forM is (\<lambda>i. add_block_intra is_dc (dc_add N dc_of (Clip1 bitDepth) stride) (transform N f wrap w2 (Clip1 bitDepth) stride)
        (blockOffset ! i) stride (int N) (i * 16) (N * N) (nnz_at nnzc i)) (dst, block)
    = forM is (\<lambda>i. at_slices (blockOffset ! i) (i * 16) (N * N) (transform N f wrap w2 (Clip1 bitDepth) stride)) (dst, block)"
proof (rule blocks_full [OF assms(8)])
  have len: "256 \<le> length block" "list_all (\<lambda>v. 0 \<le> v \<and> v \<le> 2 ^ nat bitDepth - 1) dst" using assms(5) by (auto simp: macroblock_ok_def)
  show "clipped (Clip1 bitDepth) dst" by (rule clipped_Clip1 [OF len(2)])
  show "Clip1 bitDepth (Clip1 bitDepth v) = Clip1 bitDepth v" for v by (rule Clip1_Clip1)
  show "dst_ok stride (blockOffset ! i) (length dst) \<and> i * 16 + N * N \<le> length block" if "i \<in> set is" for i
    using macroblock_facts [OF assms(5) that] assms(9) [OF that] len by (simp add: dst_ok_def)
  fix i dst' block'
  assume i: "i \<in> set is" and h: "length dst' = length dst" "clipped (Clip1 bitDepth) dst'" "length block' = length block" "drop (i * 16) block' = drop (i * 16) block"
  note m = macroblock_facts [OF assms(5) i]
  have e: "i * 16 < length block" "i * 16 + N * N \<le> length block" using assms(9) [OF i] len pos by (auto intro: less_le_trans [of _ "i * 16 + N * N"])
  have d: "drop (i * 16 + 1) block' = drop (i * 16 + 1) block" by (metis add.commute drop_drop h(4))
  show "add_block_intra is_dc (dc_add N dc_of (Clip1 bitDepth) stride) (transform N f wrap w2 (Clip1 bitDepth) stride)
        (blockOffset ! i) stride (int N) (i * 16) (N * N) (nnz_at nnzc i) (dst', block')
    = at_slices (blockOffset ! i) (i * 16) (N * N) (transform N f wrap w2 (Clip1 bitDepth) stride) (dst', block')"
  proof (rule add_block_intra_full [OF _ _ h(2) _ assms(1,2)])
    show "dst_ok stride (blockOffset ! i) (length dst')" using m h(1) by (simp add: dst_ok_def)
    show "block_ok (i * 16) block'"
      using e h(3) assms(4) [OF m(5)] later_dc [OF h(4) e(1) h(3)] by (simp add: block_ok_def)
    have "nonzero (i * 16 + 1) 15 block' = nonzero (i * 16 + 1) 15 block" by (simp add: nonzero_def d [simplified])
    then show "nnz_at nnzc i = 0 \<longrightarrow> nonzero (i * 16 + 1) (N * N - 1) block' = 0"
      using assms(6,7) i by (simp add: ac_counts_ok_def list_all_iff)
  qed (use assms(3) in blast)
qed

end

theorem h264IDCTAdd16_full:
  assumes "bitDepth \<in> set (8 # high_depths)" "macroblock_ok bitDepth 4 stride blockOffset [0..<16] dst block" "counts_ok 16 nnzc [0..<16] block"
  shows "(if bitDepth = 8 then h264IDCTAdd16 blockOffset stride nnzc else h264IDCTAdd16High bitDepth blockOffset stride nnzc) (dst, block)
    = forM [0..<16] (\<lambda>i. at_slices (blockOffset ! i) (i * 16) 16 (add_4x4 bitDepth stride)) (dst, block)"
proof (cases "bitDepth = 8")
  case True
  have "forM [0..<16] (\<lambda>i. add_block (\<lambda>c. dctcoef8Value c \<noteq> 0) (dc_add 4 (\<lambda>c. (dctcoef8Value c + 32) div 64) (Clip1 8) stride)
        (transform 4 idct4 dctcoef8 (\<lambda>v. v) (Clip1 8) stride) (blockOffset ! i) stride (int 4) (i * 16) (4 * 4) (nnz_at nnzc i)) (dst, block)
    = forM [0..<16] (\<lambda>i. at_slices (blockOffset ! i) (i * 16) (4 * 4) (transform 4 idct4 dctcoef8 (\<lambda>v. v) (Clip1 8) stride)) (dst, block)"
    by (rule idct4_8bit.loop_full [where bitDepth = 8])
       (use assms(2,3) True dc8 range_8 sorted_16(1) in_16(1) in \<open>simp_all del: set_upt set_simps\<close>)
  then show ?thesis using assms(2)
    by (simp add: True h264IDCTAdd16_def with_coefs_def add_4x4_def h264IDCTAddScalar_def h264IDCTDCAddScalar_def clip_funs macroblock_ok_def)
next
  case False
  then have h: "bitDepth \<in> set high_depths" using assms(1) by simp
  have "forM [0..<16] (\<lambda>i. add_block (\<lambda>c. c \<noteq> 0) (dc_add 4 (\<lambda>c. i32 (c + 32) div 64) (Clip1 bitDepth) stride)
        (transform 4 idct4 i32 i32 (Clip1 bitDepth) stride) (blockOffset ! i) stride (int 4) (i * 16) (4 * 4) (nnz_at nnzc i)) (dst, block)
    = forM [0..<16] (\<lambda>i. at_slices (blockOffset ! i) (i * 16) (4 * 4) (transform 4 idct4 i32 i32 (Clip1 bitDepth) stride)) (dst, block)"
    by (rule idct4_high.loop_full [where bitDepth = bitDepth])
       (use assms(2,3) dc_high range_high [OF _ h] sorted_16(1) in_16(1) in \<open>simp_all del: set_upt set_simps\<close>)
  then show ?thesis using assms(2) False
    by (simp add: h264IDCTAdd16High_def with_coefs_def add_4x4_def h264IDCTAddHigh_def h264IDCTDCAddHigh_def clip_funs high_depth_ok [OF h] macroblock_ok_def)
qed

theorem h264IDCTAdd16Intra_full:
  assumes "bitDepth \<in> set (8 # high_depths)" "macroblock_ok bitDepth 4 stride blockOffset [0..<16] dst block" "ac_counts_ok nnzc [0..<16] block"
  shows "(if bitDepth = 8 then h264IDCTAdd16Intra blockOffset stride nnzc else h264IDCTAdd16IntraHigh bitDepth blockOffset stride nnzc) (dst, block)
    = forM [0..<16] (\<lambda>i. at_slices (blockOffset ! i) (i * 16) 16 (add_4x4 bitDepth stride)) (dst, block)"
proof (cases "bitDepth = 8")
  case True
  have "forM [0..<16] (\<lambda>i. add_block_intra (\<lambda>c. dctcoef8Value c \<noteq> 0) (dc_add 4 (\<lambda>c. (dctcoef8Value c + 32) div 64) (Clip1 8) stride)
        (transform 4 idct4 dctcoef8 (\<lambda>v. v) (Clip1 8) stride) (blockOffset ! i) stride (int 4) (i * 16) (4 * 4) (nnz_at nnzc i)) (dst, block)
    = forM [0..<16] (\<lambda>i. at_slices (blockOffset ! i) (i * 16) (4 * 4) (transform 4 idct4 dctcoef8 (\<lambda>v. v) (Clip1 8) stride)) (dst, block)"
    by (rule idct4_8bit.loop_intra_full [where bitDepth = 8])
       (use assms(2,3) True dc8 range_8 sorted_16(1) in_16(1) in \<open>simp_all del: set_upt set_simps\<close>)
  then show ?thesis using assms(2)
    by (simp add: True h264IDCTAdd16Intra_def with_coefs_def add_4x4_def h264IDCTAddScalar_def h264IDCTDCAddScalar_def clip_funs macroblock_ok_def)
next
  case False
  then have h: "bitDepth \<in> set high_depths" using assms(1) by simp
  have "forM [0..<16] (\<lambda>i. add_block_intra (\<lambda>c. c \<noteq> 0) (dc_add 4 (\<lambda>c. i32 (c + 32) div 64) (Clip1 bitDepth) stride)
        (transform 4 idct4 i32 i32 (Clip1 bitDepth) stride) (blockOffset ! i) stride (int 4) (i * 16) (4 * 4) (nnz_at nnzc i)) (dst, block)
    = forM [0..<16] (\<lambda>i. at_slices (blockOffset ! i) (i * 16) (4 * 4) (transform 4 idct4 i32 i32 (Clip1 bitDepth) stride)) (dst, block)"
    by (rule idct4_high.loop_intra_full [where bitDepth = bitDepth])
       (use assms(2,3) dc_high range_high [OF _ h] sorted_16(1) in_16(1) in \<open>simp_all del: set_upt set_simps\<close>)
  then show ?thesis using assms(2) False
    by (simp add: h264IDCTAdd16IntraHigh_def with_coefs_def add_4x4_def h264IDCTAddHigh_def h264IDCTDCAddHigh_def clip_funs high_depth_ok [OF h] macroblock_ok_def)
qed

theorem h264IDCT8Add4_full:
  assumes "bitDepth \<in> set (8 # high_depths)" "macroblock_ok bitDepth 8 stride blockOffset [0, 4, 8, 12] dst block" "counts_ok 64 nnzc [0, 4, 8, 12] block"
  shows "(if bitDepth = 8 then h264IDCT8Add4 blockOffset stride nnzc else h264IDCT8Add4High bitDepth blockOffset stride nnzc) (dst, block)
    = forM [0, 4, 8, 12] (\<lambda>i. at_slices (blockOffset ! i) (i * 16) 64 (add_8x8 bitDepth stride)) (dst, block)"
proof (cases "bitDepth = 8")
  case True
  have "forM [0, 4, 8, 12] (\<lambda>i. add_block (\<lambda>c. dctcoef8Value c \<noteq> 0) (dc_add 8 (\<lambda>c. (dctcoef8Value c + 32) div 64) (Clip1 8) stride)
        (transform 8 (idct8 (\<lambda>v. v)) dctcoef8 (\<lambda>v. v) (Clip1 8) stride) (blockOffset ! i) stride (int 8) (i * 16) (8 * 8) (nnz_at nnzc i)) (dst, block)
    = forM [0, 4, 8, 12] (\<lambda>i. at_slices (blockOffset ! i) (i * 16) (8 * 8) (transform 8 (idct8 (\<lambda>v. v)) dctcoef8 (\<lambda>v. v) (Clip1 8) stride)) (dst, block)"
    by (rule idct8_8bit.loop_full [where bitDepth = 8])
       (use assms(2,3) True dc8 range_8 sorted_16(2) in_16(2) in \<open>simp_all del: set_upt set_simps\<close>)
  then show ?thesis using assms(2)
    by (simp add: True h264IDCT8Add4_def with_coefs_def add_8x8_def h264IDCT8Add_def h264IDCT8DCAdd_def clip_funs macroblock_ok_def)
next
  case False
  then have h: "bitDepth \<in> set high_depths" using assms(1) by simp
  have "forM [0, 4, 8, 12] (\<lambda>i. add_block (\<lambda>c. c \<noteq> 0) (dc_add 8 (\<lambda>c. i32 (c + 32) div 64) (Clip1 bitDepth) stride)
        (transform 8 (idct8 i32) i32 i32 (Clip1 bitDepth) stride) (blockOffset ! i) stride (int 8) (i * 16) (8 * 8) (nnz_at nnzc i)) (dst, block)
    = forM [0, 4, 8, 12] (\<lambda>i. at_slices (blockOffset ! i) (i * 16) (8 * 8) (transform 8 (idct8 i32) i32 i32 (Clip1 bitDepth) stride)) (dst, block)"
    by (rule idct8_high.loop_full [where bitDepth = bitDepth])
       (use assms(2,3) dc_high range_high [OF _ h] sorted_16(2) in_16(2) in \<open>simp_all del: set_upt set_simps\<close>)
  then show ?thesis using assms(2) False
    by (simp add: h264IDCT8Add4High_def with_coefs_def add_8x8_def h264IDCT8AddHigh_def h264IDCT8DCAddHigh_def clip_funs high_depth_ok [OF h] macroblock_ok_def)
qed

section \<open>A macroblock's residual\<close>

text \<open>The standard's residual of one block, added at its place in the plane.\<close>

definition residual_block :: "nat \<Rightarrow> (int list \<Rightarrow> int list) \<Rightarrow> int \<Rightarrow> int \<Rightarrow> int \<Rightarrow> int list \<Rightarrow> int list \<Rightarrow> int list" where
  "residual_block N g bitDepth stride off c p = overlay off stride (rect (int N) (int N)) (\<lambda>x y. Clip1 bitDepth (smp p off stride x y
     + std_residual N g (coefs N c) (nat x) (nat y))) p"

definition all_fit :: "int \<Rightarrow> nat \<Rightarrow> (int list \<Rightarrow> int list) \<Rightarrow> nat \<Rightarrow> int list \<Rightarrow> bool" where
  "all_fit bitDepth N g m block \<longleftrightarrow> list_all (\<lambda>k. coefs_fit bitDepth N g (coefs N (take (N * N) (drop (k * (N * N)) block)))) [0..<m]"

lemma forM_cong: "(\<And>x. x \<in> set xs \<Longrightarrow> f x = g x) \<Longrightarrow> forM xs f = forM xs g"
  by (induction xs) simp_all

lemma add_transform:
  "add_4x4 8 stride = transform 4 idct4 dctcoef8 (\<lambda>v. v) (Clip1 8) stride"
  "bitDepth \<in> set high_depths \<Longrightarrow> add_4x4 bitDepth stride = transform 4 idct4 i32 i32 (Clip1 bitDepth) stride"
  "add_8x8 8 stride = transform 8 (idct8 (\<lambda>v. v)) dctcoef8 (\<lambda>v. v) (Clip1 8) stride"
  "bitDepth \<in> set high_depths \<Longrightarrow> add_8x8 bitDepth stride = transform 8 (idct8 i32) i32 i32 (Clip1 bitDepth) stride"
  by (auto simp: add_4x4_def add_8x8_def h264IDCTAddScalar_def h264IDCTAddHigh_def h264IDCT8Add_def h264IDCT8AddHigh_def
      clip_funs high_depth_ok) (simp_all add: high_depths_def)

lemma coefs_fit_in_range:
  "coefs_fit 8 4 std4 d \<Longrightarrow> idct4_8bit.in_range d"
  "coefs_fit bitDepth 4 std4 d \<Longrightarrow> bitDepth \<in> set high_depths \<Longrightarrow> idct4_high.in_range d"
  "coefs_fit 8 8 std8 d \<Longrightarrow> idct8_8bit.in_range d"
  "coefs_fit bitDepth 8 std8 d \<Longrightarrow> bitDepth \<in> set high_depths \<Longrightarrow> idct8_high.in_range d"
  unfolding idct4_8bit.in_range_def idct4_high.in_range_def idct8_8bit.in_range_def idct8_high.in_range_def
  using coefs_fit_8 [of 4 std4 d] coefs_fit_high [of bitDepth 4 std4 d] coefs_fit_8 [of 8 std8 d] coefs_fit_high [of bitDepth 8 std8 d] by blast+

lemma all_fitD: "all_fit bitDepth N g m block \<Longrightarrow> k < m \<Longrightarrow> coefs_fit bitDepth N g (coefs N (take (N * N) (drop (k * (N * N)) block)))"
  by (simp add: all_fit_def list_all_iff)

lemma fit_in_range:
  "all_fit 8 4 std4 m block \<Longrightarrow> k < m \<Longrightarrow> idct4_8bit.in_range (coefs 4 (take 16 (drop (k * 16) block)))"
  "all_fit bitDepth 4 std4 m block \<Longrightarrow> bitDepth \<in> set high_depths \<Longrightarrow> k < m \<Longrightarrow> idct4_high.in_range (coefs 4 (take 16 (drop (k * 16) block)))"
  "all_fit 8 8 std8 m block \<Longrightarrow> k < m \<Longrightarrow> idct8_8bit.in_range (coefs 8 (take 64 (drop (k * 64) block)))"
  "all_fit bitDepth 8 std8 m block \<Longrightarrow> bitDepth \<in> set high_depths \<Longrightarrow> k < m \<Longrightarrow> idct8_high.in_range (coefs 8 (take 64 (drop (k * 64) block)))"
  using coefs_fit_in_range(1,3) all_fitD [of 8 4 std4 m block k] all_fitD [of 8 8 std8 m block k]
    coefs_fit_in_range(2) [of bitDepth] coefs_fit_in_range(4) [of bitDepth]
    all_fitD [of bitDepth 4 std4 m block k] all_fitD [of bitDepth 8 std8 m block k] by simp_all

text \<open>The full transforms of the sixteen 4x4 blocks, and of the four 8x8 blocks.\<close>

definition offsets_ok :: "int \<Rightarrow> int \<Rightarrow> (nat \<Rightarrow> int) \<Rightarrow> nat \<Rightarrow> nat \<Rightarrow> bool" where
  "offsets_ok N stride off m len \<longleftrightarrow> N \<le> stride \<and> int len \<le> maxInt \<and> (\<forall>k<m. 0 \<le> off k \<and> off k + (N - 1) * stride + N \<le> int len)"

lemma residual_at_block:
  "idct4_high.residual_at off lo' block (Clip1 bitDepth) stride = residual_block 4 std4 bitDepth stride off (take 16 (drop lo' block))"
  "idct8_high.residual_at off lo' block (Clip1 bitDepth) stride = residual_block 8 std8 bitDepth stride off (take 64 (drop lo' block))"
  by (simp_all add: fun_eq_iff idct4_high.residual_at_def idct8_high.residual_at_def residual_block_def)

lemma full_4x4:
  assumes "bitDepth \<in> set (8 # high_depths)" "offsets_ok 4 stride off m (length dst)" "m * 16 \<le> length block" "all_fit bitDepth 4 std4 m block"
  shows "forM [0..<m] (\<lambda>k. at_slices (off k) (k * 16) 16 (add_4x4 bitDepth stride)) (dst, block)
    = (Inr (), (fold (\<lambda>k. residual_block 4 std4 bitDepth stride (off k) (take 16 (drop (k * 16) block))) [0..<m] dst,
        replicate (m * 16) 0 @ drop (m * 16) block))"
proof (cases "bitDepth = 8")
  case True
  show ?thesis
    using idct4_8bit.blocks_standard [of m stride off dst block "Clip1 8"] fit_in_range(1) assms(2,3) assms(4) [unfolded True]
    by (simp add: True add_transform(1) offsets_ok_def idct4_8bit.dst_ok_def residual_at_block)
next
  case False
  then have h: "bitDepth \<in> set high_depths" using assms(1) by simp
  show ?thesis
    using idct4_high.blocks_standard [of m stride off dst block "Clip1 bitDepth"] fit_in_range(2) [OF assms(4) h] assms(2,3)
    by (simp add: add_transform(2) [OF h] offsets_ok_def idct4_high.dst_ok_def residual_at_block)
qed

lemma full_8x8:
  assumes "bitDepth \<in> set (8 # high_depths)" "offsets_ok 8 stride off m (length dst)" "m * 64 \<le> length block" "all_fit bitDepth 8 std8 m block"
  shows "forM [0..<m] (\<lambda>k. at_slices (off k) (k * 64) 64 (add_8x8 bitDepth stride)) (dst, block)
    = (Inr (), (fold (\<lambda>k. residual_block 8 std8 bitDepth stride (off k) (take 64 (drop (k * 64) block))) [0..<m] dst,
        replicate (m * 64) 0 @ drop (m * 64) block))"
proof (cases "bitDepth = 8")
  case True
  show ?thesis
    using idct8_8bit.blocks_standard [of m stride off dst block "Clip1 8"] fit_in_range(3) assms(2,3) assms(4) [unfolded True]
    by (simp add: True add_transform(3) offsets_ok_def idct8_8bit.dst_ok_def residual_at_block)
next
  case False
  then have h: "bitDepth \<in> set high_depths" using assms(1) by simp
  show ?thesis
    using idct8_high.blocks_standard [of m stride off dst block "Clip1 bitDepth"] fit_in_range(4) [OF assms(4) h] assms(2,3)
    by (simp add: add_transform(4) [OF h] offsets_ok_def idct8_high.dst_ok_def residual_at_block)
qed

text \<open>
  C14. The residual of an inter macroblock with 4x4 transforms, at every bit depth: with counts of coefficients that
  are right, and coefficients and first-stage results in the range of \<open>in_coef_range\<close> (each between
  \<open>- 2 ^ (7 + bitDepth)\<close> and \<open>2 ^ (7 + bitDepth) - 33\<close>: the standard's range, less 32 at the top), the loop over the sixteen blocks (which skips empty
  blocks and takes a shortcut for a single DC coefficient) adds to each block's samples the residual of clause
  8.5.12, clips the sums to the bit depth, touches no other sample, and leaves the coefficients cleared.
\<close>

theorem h264IDCTAdd16_standard:
  assumes "bitDepth \<in> set (8 # high_depths)" "macroblock_ok bitDepth 4 stride blockOffset [0..<16] dst block"
    "counts_ok 16 nnzc [0..<16] block" "all_fit bitDepth 4 std4 16 block"
  shows "(if bitDepth = 8 then h264IDCTAdd16 blockOffset stride nnzc else h264IDCTAdd16High bitDepth blockOffset stride nnzc) (dst, block)
    = (Inr (), (fold (\<lambda>k. residual_block 4 std4 bitDepth stride (blockOffset ! k) (take 16 (drop (k * 16) block))) [0..<16] dst,
        replicate 256 0 @ drop 256 block))"
proof -
  have m: "4 \<le> stride" "int (length dst) \<le> maxInt" "256 \<le> length block"
    "\<And>i. i \<in> set [0..<16] \<Longrightarrow> 0 \<le> blockOffset ! i \<and> blockOffset ! i + 3 * stride + 4 \<le> int (length dst)"
    using assms(2) by (auto simp: macroblock_ok_def list_all_iff)
  have "offsets_ok 4 stride (\<lambda>k. blockOffset ! k) 16 (length dst)"
    unfolding offsets_ok_def using m(1,2) by (auto intro!: m(4) [THEN conjunct1] m(4) [THEN conjunct2, simplified])
  then show ?thesis
    unfolding h264IDCTAdd16_full [OF assms(1-3)] 
    using full_4x4 [OF assms(1) _ _ assms(4), of stride "(\<lambda>k. blockOffset ! k)" dst] m(3) by simp
qed

theorem h264IDCTAdd16Intra_standard:
  assumes "bitDepth \<in> set (8 # high_depths)" "macroblock_ok bitDepth 4 stride blockOffset [0..<16] dst block"
    "ac_counts_ok nnzc [0..<16] block" "all_fit bitDepth 4 std4 16 block"
  shows "(if bitDepth = 8 then h264IDCTAdd16Intra blockOffset stride nnzc else h264IDCTAdd16IntraHigh bitDepth blockOffset stride nnzc) (dst, block)
    = (Inr (), (fold (\<lambda>k. residual_block 4 std4 bitDepth stride (blockOffset ! k) (take 16 (drop (k * 16) block))) [0..<16] dst,
        replicate 256 0 @ drop 256 block))"
proof -
  have m: "4 \<le> stride" "int (length dst) \<le> maxInt" "256 \<le> length block"
    "\<And>i. i \<in> set [0..<16] \<Longrightarrow> 0 \<le> blockOffset ! i \<and> blockOffset ! i + 3 * stride + 4 \<le> int (length dst)"
    using assms(2) by (auto simp: macroblock_ok_def list_all_iff)
  have "offsets_ok 4 stride (\<lambda>k. blockOffset ! k) 16 (length dst)"
    unfolding offsets_ok_def using m(1,2) by (auto intro!: m(4) [THEN conjunct1] m(4) [THEN conjunct2, simplified])
  then show ?thesis
    unfolding h264IDCTAdd16Intra_full [OF assms(1-3)] 
    using full_4x4 [OF assms(1) _ _ assms(4), of stride "(\<lambda>k. blockOffset ! k)" dst] m(3) by simp
qed

text \<open>
  C15. The same for the four blocks of a macroblock with 8x8 transforms, against clause 8.5.13; the coefficients
  and the first-stage results are again in the range of \<open>in_coef_range\<close>.
\<close>

theorem h264IDCT8Add4_standard:
  assumes "bitDepth \<in> set (8 # high_depths)" "macroblock_ok bitDepth 8 stride blockOffset [0, 4, 8, 12] dst block"
    "counts_ok 64 nnzc [0, 4, 8, 12] block" "all_fit bitDepth 8 std8 4 block"
  shows "(if bitDepth = 8 then h264IDCT8Add4 blockOffset stride nnzc else h264IDCT8Add4High bitDepth blockOffset stride nnzc) (dst, block)
    = (Inr (), (fold (\<lambda>k. residual_block 8 std8 bitDepth stride (blockOffset ! (4 * k)) (take 64 (drop (k * 64) block))) [0..<4] dst,
        replicate 256 0 @ drop 256 block))"
proof -
  have r: "forM [0, 4, 8, 12] (\<lambda>i. at_slices (blockOffset ! i) (i * 16) 64 (add_8x8 bitDepth stride))
      = forM [0..<4] (\<lambda>k. at_slices (blockOffset ! (4 * k)) (k * 64) 64 (add_8x8 bitDepth stride))"
    by (simp add: upt_rec)
  have m: "8 \<le> stride" "int (length dst) \<le> maxInt" "256 \<le> length block"
    "\<And>i. i \<in> set [0, 4, 8, 12] \<Longrightarrow> 0 \<le> blockOffset ! i \<and> blockOffset ! i + 7 * stride + 8 \<le> int (length dst)"
    using assms(2) by (auto simp: macroblock_ok_def list_all_iff)
  have "offsets_ok 8 stride (\<lambda>k. blockOffset ! (4 * k)) 4 (length dst)"
    unfolding offsets_ok_def using m(1,2) by (auto intro!: m(4) [THEN conjunct1] m(4) [THEN conjunct2, simplified])
  then show ?thesis
    unfolding h264IDCT8Add4_full [OF assms(1-3)] r 
    using full_8x8 [OF assms(1) _ _ assms(4), of stride "(\<lambda>k. blockOffset ! (4 * k))" dst] m(3) by simp
qed

text \<open>A macroblock to apply the theorems to: a block with a DC coefficient, and one with two coefficients.\<close>

definition wit_offsets :: "int list" where
  "wit_offsets = (case h264FrameBlockOffsets 16 8 0 of Inr l \<Rightarrow> l | Inl _ \<Rightarrow> [])"

definition wit_nnzc :: "u8 list" where
  "wit_nnzc = (replicate 120 0)[unat (h264Scan8 ! 0) := 1, unat (h264Scan8 ! 1) := 2]"

definition wit_block :: "int list" where
  "wit_block = (replicate 256 0)[0 := 640, 16 := 320, 20 := - 64]"

theorem h264IDCTAdd16_witness:
  "h264IDCTAdd16 wit_offsets 16 wit_nnzc (replicate 256 100, wit_block)
    = (Inr (), (fold (\<lambda>k. residual_block 4 std4 8 16 (wit_offsets ! k) (take 16 (drop (k * 16) wit_block))) [0..<16] (replicate 256 100),
        replicate 256 0 @ drop 256 wit_block))"
proof -
  have "8 \<in> set (8 # high_depths)" by simp
  moreover have "macroblock_ok 8 4 16 wit_offsets [0..<16] (replicate 256 100) wit_block" by code_simp
  moreover have "counts_ok 16 wit_nnzc [0..<16] wit_block" by code_simp
  moreover have "all_fit 8 4 std4 16 wit_block" by code_simp
  ultimately show ?thesis using h264IDCTAdd16_standard [of 8 16 wit_offsets "replicate 256 100" wit_block wit_nnzc] by simp
qed

definition wit_nnzc8 :: "u8 list" where
  "wit_nnzc8 = (replicate 120 0)[unat (h264Scan8 ! 0) := 3]"

theorem h264IDCT8Add4_witness:
  "h264IDCT8Add4High 10 wit_offsets 16 wit_nnzc8 (replicate 256 700, wit_block)
    = (Inr (), (fold (\<lambda>k. residual_block 8 std8 10 16 (wit_offsets ! (4 * k)) (take 64 (drop (k * 64) wit_block))) [0..<4] (replicate 256 700),
        replicate 256 0 @ drop 256 wit_block))"
proof -
  have "10 \<in> set (8 # high_depths)" by (simp add: high_depths_def)
  moreover have "macroblock_ok 10 8 16 wit_offsets [0, 4, 8, 12] (replicate 256 700) wit_block" by code_simp
  moreover have "counts_ok 64 wit_nnzc8 [0, 4, 8, 12] wit_block" by code_simp
  moreover have "all_fit 10 8 std8 4 wit_block" by code_simp
  ultimately show ?thesis using h264IDCT8Add4_standard [of 10 16 wit_offsets "replicate 256 700" wit_block wit_nnzc8] by simp
qed

end
