(* ===== verification/Transform_DC.thy ===== *)
theory Transform_DC
  imports Transform_Standard
begin

text \<open>
  The transforms of the DC coefficients (8.5.10, 8.5.11.1, 8.5.11.2): the Hadamard transform of the
  4x4, 2x2 or 2x4 matrix of coefficients, scaled, each result where the block it belongs to has its first
  coefficient. The decoder scales by \<open>qmul\<close>, an entry of the dequantisation table: the level scale
  shifted by a sixth of the quantiser parameter and by two.
\<close>

section \<open>The standard\<close>

definition had4 :: "(nat \<Rightarrow> int) \<Rightarrow> nat \<Rightarrow> int" where
  "had4 c k = (if k = 0 then c 0 + c 1 + c 2 + c 3 else if k = 1 then c 0 + c 1 - c 2 - c 3
     else if k = 2 then c 0 - c 1 - c 2 + c 3 else c 0 - c 1 + c 2 - c 3)"

definition had2 :: "(nat \<Rightarrow> int) \<Rightarrow> nat \<Rightarrow> int" where
  "had2 c k = (if k = 0 then c 0 + c 1 else c 0 - c 1)"

text \<open>\<open>c x y\<close> is the coefficient of column \<open>x\<close> and row \<open>y\<close>: rows, then columns.\<close>

definition std_dc :: "((nat \<Rightarrow> int) \<Rightarrow> nat \<Rightarrow> int) \<Rightarrow> ((nat \<Rightarrow> int) \<Rightarrow> nat \<Rightarrow> int) \<Rightarrow> (nat \<Rightarrow> nat \<Rightarrow> int) \<Rightarrow> nat \<Rightarrow> nat \<Rightarrow> int" where
  "std_dc h v c x y = v (\<lambda>j. h (\<lambda>i. c i j) x) y"

text \<open>8.5.10 for luma, and 8.5.11.2 for chroma in 4:2:2 format.\<close>

definition std_dc_scale :: "int \<Rightarrow> nat \<Rightarrow> int \<Rightarrow> int" where
  "std_dc_scale LS qP f = (if qP div 6 \<ge> 6 then f * LS * 2 ^ (qP div 6 - 6) else (f * LS + 2 ^ (5 - qP div 6)) div 2 ^ (6 - qP div 6))"

text \<open>8.5.11.2 for chroma in 4:2:0 format.\<close>

definition std_dc_scale_420 :: "int \<Rightarrow> nat \<Rightarrow> int \<Rightarrow> int" where
  "std_dc_scale_420 LS qP f = (f * LS * 2 ^ (qP div 6)) div 32"

lemma std_dc_scale: "(f * (LS * 2 ^ (qP div 6 + 2)) + 128) div 256 = std_dc_scale LS qP f"
proof -
  define d where "d = qP div 6"
  have "(f * (LS * 2 ^ (d + 2)) + 128) div 256 = (if d \<ge> 6 then f * LS * 2 ^ (d - 6) else (f * LS + 2 ^ (5 - d)) div 2 ^ (6 - d))"
  proof (cases "d \<ge> 6")
    case True
    then have "d + 2 = d - 6 + 8" by simp
    then have e: "(2 :: int) ^ (d + 2) = 2 ^ (d - 6) * 2 ^ 8" by (metis power_add)
    have "f * (LS * 2 ^ (d + 2)) + 128 = 128 + (f * LS * 2 ^ (d - 6)) * 256" unfolding e by simp
    then have "(f * (LS * 2 ^ (d + 2)) + 128) div 256 = (128 + (f * LS * 2 ^ (d - 6)) * 256) div 256" by (rule arg_cong)
    also have "\<dots> = f * LS * 2 ^ (d - 6)" by simp
    finally show ?thesis using True by simp
  next
    case False
    then have e: "(2 :: int) ^ (d + 2) * 2 ^ (5 - d) = 2 ^ 7" "(2 :: int) ^ (d + 2) * 2 ^ (6 - d) = 2 ^ 8" by (simp_all flip: power_add)
    have "f * (LS * 2 ^ (d + 2)) + 128 = 2 ^ (d + 2) * (f * LS + 2 ^ (5 - d))" using e(1) by (simp add: algebra_simps)
    moreover have "(256 :: int) = 2 ^ (d + 2) * 2 ^ (6 - d)" using e(2) by simp
    ultimately have "(f * (LS * 2 ^ (d + 2)) + 128) div 256 = (2 ^ (d + 2) * (f * LS + 2 ^ (5 - d))) div (2 ^ (d + 2) * 2 ^ (6 - d))" by metis
    also have "\<dots> = (f * LS + 2 ^ (5 - d)) div 2 ^ (6 - d)" by (rule div_mult_mult1) simp
    finally show ?thesis using False by simp
  qed
  then show ?thesis by (simp add: std_dc_scale_def d_def)
qed

lemma std_dc_scale_420: "(f * (LS * 2 ^ (qP div 6 + 2))) div 128 = std_dc_scale_420 LS qP f"
proof -
  have "f * (LS * 2 ^ (qP div 6 + 2)) = 4 * (f * LS * 2 ^ (qP div 6))" by (simp add: power_add)
  moreover have "(4 * (f * LS * 2 ^ (qP div 6))) div (4 * 32) = (f * LS * 2 ^ (qP div 6)) div 32" by (rule div_mult_mult1) simp
  ultimately show ?thesis by (simp add: std_dc_scale_420_def)
qed

section \<open>Luma\<close>

text \<open>The number of the 4x4 block in column \<open>x\<close> and row \<open>y\<close> of the macroblock (6.4.3).\<close>

definition blkIdx :: "nat \<Rightarrow> nat \<Rightarrow> nat" where
  "blkIdx x y = 8 * (y div 2) + 4 * (x div 2) + 2 * (y mod 2) + x mod 2"

definition luma_dc_std :: "(int \<Rightarrow> int) \<Rightarrow> int list \<Rightarrow> int list \<Rightarrow> int list" where
  "luma_dc_std s input output = fold (\<lambda>(x, y) out. out[16 * blkIdx x y := s (std_dc had4 had4 (coefs 4 input) x y)])
     (concat (map (\<lambda>y. map (\<lambda>x. (x, y)) [0..<4]) [0..<4])) output"

lemma upd_cong: "xs = ys \<Longrightarrow> v = v' \<Longrightarrow> xs[i := v] = ys[i := v']"
  by simp

lemma luma_dc_unfold:
  "luma_dc (\<lambda>v. v) (\<lambda>v. v) q input output = luma_dc_std q input output"
  by (simp add: luma_dc_def luma_dc_std_def luma_dc_row_def luma_dc_col_def std_dc_def had4_def coefs_def blkIdx_def upt_rec Let_def)
     (intro upd_cong refl arg_cong [where f = q]; simp add: numeral_2_eq_2 numeral_3_eq_3)

lemma less4_all: "(\<forall>i<4. P i) \<longleftrightarrow> P 0 \<and> P 1 \<and> P 2 \<and> P (3 :: nat)"
  by (auto simp: less4)

lemma luma_dc_row_i32:
  "list_all (\<lambda>v. - 2097152 \<le> v \<and> v \<le> 2097151) c \<Longrightarrow> length c = 4 \<Longrightarrow> luma_dc_row i32 c = luma_dc_row (\<lambda>v. v) c"
  by (drule length4) (auto simp: luma_dc_row_def Let_def i32_id)

lemma luma_dc_row_bound:
  "list_all (\<lambda>v. - 2097152 \<le> v \<and> v \<le> 2097151) c \<Longrightarrow> length c = 4 \<Longrightarrow>
    list_all (\<lambda>v. - 8388608 \<le> v \<and> v \<le> 8388608) (luma_dc_row (\<lambda>v. v) c) \<and> length (luma_dc_row (\<lambda>v. v) c) = 4"
  by (drule length4) (auto simp: luma_dc_row_def Let_def)

lemma luma_dc_col_i32:
  "list_all (\<lambda>v. - 8388608 \<le> v \<and> v \<le> 8388608) c \<Longrightarrow> length c = 4 \<Longrightarrow> luma_dc_col i32 c = luma_dc_col (\<lambda>v. v) c"
  by (drule length4) (auto simp: luma_dc_col_def Let_def i32_id)

lemma fold_cong_list: "(\<And>x y. x \<in> set xs \<Longrightarrow> f x y = g x y) \<Longrightarrow> fold f xs y = fold g xs y"
  by (induction xs arbitrary: y) simp_all

lemma luma_dc_i32:
  assumes "list_all (\<lambda>v. - 2097152 \<le> v \<and> v \<le> 2097151) input" "length input = 16"
  shows "luma_dc i32 (\<lambda>c. c) q input output = luma_dc (\<lambda>c. c) (\<lambda>c. c) q input output"
proof -
  have r: "list_all (\<lambda>v. - 2097152 \<le> v \<and> v \<le> 2097151) (map (\<lambda>j. input ! (4 * i + j)) [0..<4])" if "i < 4" for i
    using assms that by (auto simp: list_all_length)
  have m: "map (\<lambda>i. luma_dc_row i32 (map (\<lambda>j. input ! (4 * i + j)) [0..<4])) [0..<4]
      = map (\<lambda>i. luma_dc_row (\<lambda>v. v) (map (\<lambda>j. input ! (4 * i + j)) [0..<4])) [0..<4]"
    using r by (intro map_cong refl luma_dc_row_i32) auto
  define temp where "temp = concat (map (\<lambda>i. luma_dc_row (\<lambda>v. v) (map (\<lambda>j. input ! (4 * i + j)) [0..<4])) [0..<4])"
  have t: "list_all (\<lambda>v. - 8388608 \<le> v \<and> v \<le> 8388608) temp"
    using luma_dc_row_bound [OF r] by (auto simp: temp_def list_all_iff)
  have "length (luma_dc_row (\<lambda>v. v) c) = 4" for c by (simp add: luma_dc_row_def Let_def)
  then have l: "length temp = 16" by (simp add: temp_def length_concat comp_def upt_rec)
  have c: "luma_dc_col i32 (map (\<lambda>k. temp ! (4 * k + i)) [0..<4]) = luma_dc_col (\<lambda>v. v) (map (\<lambda>k. temp ! (4 * k + i)) [0..<4])" if "i < 4" for i
    using t l that by (intro luma_dc_col_i32) (auto simp: list_all_length)
  show ?thesis
    unfolding luma_dc_def m temp_def [symmetric] Let_def by (rule fold_cong_list) (simp add: c)
qed

lemma luma_dc_cong:
  assumes "\<And>x y. x < 4 \<Longrightarrow> y < 4 \<Longrightarrow> q (std_dc had4 had4 (coefs 4 input) x y) = s (std_dc had4 had4 (coefs 4 input) x y)"
  shows "luma_dc_std q input output = luma_dc_std s input output"
  unfolding luma_dc_std_def by (rule fold_cong_list) (auto simp: assms)

lemma dctcoef8_id: "in_coef_range 8 v \<Longrightarrow> dctcoef8 v = v"
  by (simp add: in_coef_range_def dctcoef8_def i16_def)

lemma dctcoef8Value_id: "in_coef_range 8 v \<Longrightarrow> dctcoef8Value v = v"
  by (simp add: in_coef_range_def dctcoef8Value_def i16_def)

lemma i32_product:
  assumes "in_coef_range bitDepth ((v + r) div s)" "bitDepth \<in> set high_depths" "(s, r) = (256, 128) \<or> (s, r) = (128, 0)"
  shows "i32 (v + r) div s = (v + r) div s"
proof -
  have "- 2097152 \<le> (v + r) div s" "(v + r) div s \<le> 2097119" using range_high [OF assms(1,2)] by simp_all
  moreover have "s * ((v + r) div s) \<le> v + r" "v + r < s * ((v + r) div s) + s"
    using assms(3) by auto
  ultimately have "i32 (v + r) = v + r" using assms(3) by (intro i32_id) auto
  then show ?thesis by simp
qed

text \<open>
  C16. The luma DC coefficients of an Intra 16x16 macroblock, at every bit depth: the decoder's butterfly, scaled by
  the entry of the dequantisation table, gives every block the DC coefficient of clause 8.5.10, the two cases
  of its scaling included, at the place of the block's first coefficient, and changes no other coefficient.
  It holds for conforming streams: the coefficients before and the results after are in \<open>in_coef_range\<close>.
\<close>

theorem luma_dc_standard:
  assumes "bitDepth \<in> set (8 # high_depths)" "length input = 16" "256 \<le> length output" "qmul = LS * 2 ^ (qP div 6 + 2)"
    "list_all (in_coef_range bitDepth) input"
    "list_all (\<lambda>x. list_all (\<lambda>y. in_coef_range bitDepth (std_dc_scale LS qP (std_dc had4 had4 (coefs 4 input) x y))) [0..<4]) [0..<4]"
  shows "(if bitDepth = 8 then h264LumaDCDequantIDCT input qmul else h264LumaDCDequantIDCTHigh input qmul) output
    = (Inr (), luma_dc_std (std_dc_scale LS qP) input output)"
proof -
  have res: "in_coef_range bitDepth (std_dc_scale LS qP (std_dc had4 had4 (coefs 4 input) x y))" if "x < 4" "y < 4" for x y
    using assms(6) that by (auto simp: list_all_iff)
  show ?thesis
  proof (cases "bitDepth = 8")
    case True
    have v: "dctcoef8Value (input ! (4 * i + j)) = input ! (4 * i + j)" if "i < 4" "j < 4" for i j
      using assms(2,5) that True by (intro dctcoef8Value_id) (auto simp: list_all_length)
    have "luma_dc (\<lambda>v. v) dctcoef8Value q input output = luma_dc (\<lambda>v. v) (\<lambda>v. v) q input output" for q
    proof -
      have "map (\<lambda>i. luma_dc_row (\<lambda>v. v) (map (\<lambda>j. dctcoef8Value (input ! (4 * i + j))) [0..<4])) [0..<4]
          = map (\<lambda>i. luma_dc_row (\<lambda>v. v) (map (\<lambda>j. input ! (4 * i + j)) [0..<4])) [0..<4]"
        using v by (intro map_cong refl arg_cong [where f = "luma_dc_row (\<lambda>v. v)"]) auto
      then show ?thesis by (simp only: luma_dc_def)
    qed
    moreover have "luma_dc_std (\<lambda>v. dctcoef8 ((v * qmul + 128) div 256)) input output = luma_dc_std (std_dc_scale LS qP) input output"
      unfolding assms(4) std_dc_scale using res True by (intro luma_dc_cong dctcoef8_id) simp
    ultimately show ?thesis using True assms(3) by (simp add: h264LumaDCDequantIDCT_def luma_dc_unfold)
  next
    case False
    then have h: "bitDepth \<in> set high_depths" using assms(1) by simp
    have i: "list_all (\<lambda>v. - 2097152 \<le> v \<and> v \<le> 2097151) input"
      using assms(5) range_high [OF _ h] by (fastforce simp: list_all_iff)
    have "luma_dc_std (\<lambda>v. i32 (v * qmul + 128) div 256) input output = luma_dc_std (std_dc_scale LS qP) input output"
    proof (rule luma_dc_cong)
      fix x y :: nat
      assume "x < 4" "y < 4"
      from i32_product [OF res [OF this, folded std_dc_scale] h]
      show "i32 (std_dc had4 had4 (coefs 4 input) x y * qmul + 128) div 256 = std_dc_scale LS qP (std_dc had4 had4 (coefs 4 input) x y)"
        unfolding assms(4) std_dc_scale by simp
    qed
    then show ?thesis using False assms(3) by (simp add: h264LumaDCDequantIDCTHigh_def luma_dc_i32 [OF i assms(2)] luma_dc_unfold)
  qed
qed

section \<open>Chroma\<close>

text \<open>The blocks of a chroma plane: block \<open>2 * y + x\<close> is in column \<open>x\<close> and row \<open>y\<close>.\<close>

definition chroma_coefs :: "int list \<Rightarrow> nat \<Rightarrow> nat \<Rightarrow> int" where
  "chroma_coefs block x y = block ! (16 * (2 * y + x))"

definition blocks_420 :: "(nat \<times> nat) list" where
  "blocks_420 = [(0, 0), (1, 0), (0, 1), (1, 1)]"

definition blocks_422 :: "(nat \<times> nat) list" where
  "blocks_422 = [(0, 0), (0, 1), (0, 2), (0, 3), (1, 0), (1, 1), (1, 2), (1, 3)]"

definition chroma_dc_std :: "(nat \<times> nat) list \<Rightarrow> (nat \<Rightarrow> nat \<Rightarrow> int) \<Rightarrow> int list \<Rightarrow> int list" where
  "chroma_dc_std cs f block = fold (\<lambda>(x, y) out. out[16 * (2 * y + x) := f x y]) cs block"

lemma chroma_dc_unfold: "chroma_dc (\<lambda>c. c) q block = chroma_dc_std blocks_420 (\<lambda>x y. q (std_dc had2 had2 (chroma_coefs block) x y)) block"
  by (simp add: chroma_dc_def chroma_dc_std_def blocks_420_def std_dc_def had2_def chroma_coefs_def Let_def)

lemma chroma422_dc_unfold: "chroma422_dc (\<lambda>c. c) q block = chroma_dc_std blocks_422 (\<lambda>x y. q (std_dc had2 had4 (chroma_coefs block) x y)) block"
  by (simp add: chroma422_dc_def luma_dc_col_def chroma_dc_std_def blocks_422_def std_dc_def had2_def had4_def chroma_coefs_def upt_rec Let_def)
     (intro upd_cong refl arg_cong [where f = q]; simp)

lemma chroma_dc_cong:
  "(\<And>x y. (x, y) \<in> set cs \<Longrightarrow> f x y = g x y) \<Longrightarrow> chroma_dc_std cs f block = chroma_dc_std cs g block"
  unfolding chroma_dc_std_def by (rule fold_cong_list) auto

lemma chroma_dc_8bit:
  assumes "list_all (\<lambda>(x, y). in_coef_range 8 (chroma_coefs block x y)) blocks_420"
  shows "chroma_dc dctcoef8Value q block = chroma_dc (\<lambda>c. c) q block"
  using assms by (simp add: chroma_dc_def blocks_420_def chroma_coefs_def dctcoef8Value_id)

lemma chroma422_dc_8bit:
  assumes "list_all (\<lambda>(x, y). in_coef_range 8 (chroma_coefs block x y)) blocks_422"
  shows "chroma422_dc dctcoef8Value q block = chroma422_dc (\<lambda>c. c) q block"
  using assms by (simp add: chroma422_dc_def blocks_422_def chroma_coefs_def dctcoef8Value_id upt_rec)

text \<open>
  C17. The chroma DC coefficients in 4:2:0 format, at every bit depth: each of the four blocks gets the DC coefficient
  of clause 8.5.11, and no other coefficient changes. It holds for conforming streams: the coefficients before and
  the results after are in \<open>in_coef_range\<close>.
\<close>

theorem chroma_dc_standard:
  assumes "bitDepth \<in> set (8 # high_depths)" "49 \<le> length block" "qmul = LS * 2 ^ (qP div 6 + 2)"
    "list_all (\<lambda>(x, y). in_coef_range bitDepth (chroma_coefs block x y)
        \<and> in_coef_range bitDepth (std_dc_scale_420 LS qP (std_dc had2 had2 (chroma_coefs block) x y))) blocks_420"
  shows "(if bitDepth = 8 then h264ChromaDCDequantIDCT qmul else h264ChromaDCDequantIDCTHigh qmul) block
    = (Inr (), chroma_dc_std blocks_420 (\<lambda>x y. std_dc_scale_420 LS qP (std_dc had2 had2 (chroma_coefs block) x y)) block)"
proof (cases "bitDepth = 8")
  case True
  have "chroma_dc_std blocks_420 (\<lambda>x y. dctcoef8 (std_dc had2 had2 (chroma_coefs block) x y * qmul div 128)) block
      = chroma_dc_std blocks_420 (\<lambda>x y. std_dc_scale_420 LS qP (std_dc had2 had2 (chroma_coefs block) x y)) block"
    unfolding assms(3) std_dc_scale_420 using assms(4) True by (intro chroma_dc_cong dctcoef8_id) (auto simp: list_all_iff)
  moreover have "list_all (\<lambda>(x, y). in_coef_range 8 (chroma_coefs block x y)) blocks_420"
    using assms(4) True by (auto simp: list_all_iff)
  ultimately show ?thesis using True assms(2)
    by (simp add: h264ChromaDCDequantIDCT_def chroma_dc_8bit chroma_dc_unfold)
next
  case False
  then have h: "bitDepth \<in> set high_depths" using assms(1) by simp
  have "chroma_dc_std blocks_420 (\<lambda>x y. i32 (std_dc had2 had2 (chroma_coefs block) x y * qmul) div 128) block
      = chroma_dc_std blocks_420 (\<lambda>x y. std_dc_scale_420 LS qP (std_dc had2 had2 (chroma_coefs block) x y)) block"
  proof (rule chroma_dc_cong)
    fix x y
    assume "(x, y) \<in> set blocks_420"
    then have "in_coef_range bitDepth (std_dc_scale_420 LS qP (std_dc had2 had2 (chroma_coefs block) x y))"
      using assms(4) by (auto simp: list_all_iff)
    from i32_product [where r = 0 and s = 128, simplified, OF this [folded std_dc_scale_420] h]
    show "i32 (std_dc had2 had2 (chroma_coefs block) x y * qmul) div 128 = std_dc_scale_420 LS qP (std_dc had2 had2 (chroma_coefs block) x y)"
      unfolding assms(3) std_dc_scale_420 .
  qed
  then show ?thesis using False assms(2) by (simp add: h264ChromaDCDequantIDCTHigh_def chroma_dc_unfold)
qed

theorem chroma422_dc_standard:
  assumes "bitDepth \<in> set (8 # high_depths)" "113 \<le> length block" "qmul = LS * 2 ^ (qP div 6 + 2)"
    "list_all (\<lambda>(x, y). in_coef_range bitDepth (chroma_coefs block x y)
        \<and> in_coef_range bitDepth (std_dc_scale LS qP (std_dc had2 had4 (chroma_coefs block) x y))) blocks_422"
  shows "(if bitDepth = 8 then h264Chroma422DCDequantIDCT qmul else h264Chroma422DCDequantIDCTHigh qmul) block
    = (Inr (), chroma_dc_std blocks_422 (\<lambda>x y. std_dc_scale LS qP (std_dc had2 had4 (chroma_coefs block) x y)) block)"
proof (cases "bitDepth = 8")
  case True
  have "chroma_dc_std blocks_422 (\<lambda>x y. dctcoef8 ((std_dc had2 had4 (chroma_coefs block) x y * qmul + 128) div 256)) block
      = chroma_dc_std blocks_422 (\<lambda>x y. std_dc_scale LS qP (std_dc had2 had4 (chroma_coefs block) x y)) block"
    unfolding assms(3) std_dc_scale using assms(4) True by (intro chroma_dc_cong dctcoef8_id) (auto simp: list_all_iff)
  moreover have "list_all (\<lambda>(x, y). in_coef_range 8 (chroma_coefs block x y)) blocks_422"
    using assms(4) True by (auto simp: list_all_iff)
  ultimately show ?thesis using True assms(2)
    by (simp add: h264Chroma422DCDequantIDCT_def chroma422_dc_8bit chroma422_dc_unfold)
next
  case False
  then have h: "bitDepth \<in> set high_depths" using assms(1) by simp
  have "chroma_dc_std blocks_422 (\<lambda>x y. i32 (std_dc had2 had4 (chroma_coefs block) x y * qmul + 128) div 256) block
      = chroma_dc_std blocks_422 (\<lambda>x y. std_dc_scale LS qP (std_dc had2 had4 (chroma_coefs block) x y)) block"
  proof (rule chroma_dc_cong)
    fix x y
    assume "(x, y) \<in> set blocks_422"
    then have "in_coef_range bitDepth (std_dc_scale LS qP (std_dc had2 had4 (chroma_coefs block) x y))"
      using assms(4) by (auto simp: list_all_iff)
    from i32_product [OF this [folded std_dc_scale] h]
    show "i32 (std_dc had2 had4 (chroma_coefs block) x y * qmul + 128) div 256 = std_dc_scale LS qP (std_dc had2 had4 (chroma_coefs block) x y)"
      unfolding assms(3) std_dc_scale by simp
  qed
  then show ?thesis using False assms(2) by (simp add: h264Chroma422DCDequantIDCTHigh_def chroma422_dc_unfold)
qed

theorem luma_dc_witness:
  "h264LumaDCDequantIDCT (12 # - 3 # replicate 14 1) (160 * 2 ^ (28 div 6 + 2)) (replicate 256 7)
    = (Inr (), luma_dc_std (std_dc_scale 160 28) (12 # - 3 # replicate 14 1) (replicate 256 7))"
proof -
  have "list_all (in_coef_range 8) (12 # - 3 # replicate 14 1)" by code_simp
  moreover have "list_all (\<lambda>x. list_all (\<lambda>y. in_coef_range 8 (std_dc_scale 160 28
      (std_dc had4 had4 (coefs 4 (12 # - 3 # replicate 14 1)) x y))) [0..<4]) [0..<4]" by code_simp
  ultimately show ?thesis
    using luma_dc_standard [of 8 "12 # - 3 # replicate 14 1" "replicate 256 7" "160 * 2 ^ (28 div 6 + 2)" 160 28] by simp
qed

theorem chroma_dc_witness:
  "h264ChromaDCDequantIDCT (160 * 2 ^ (28 div 6 + 2)) ((replicate 64 7)[0 := 5, 16 := - 2])
    = (Inr (), chroma_dc_std blocks_420 (\<lambda>x y. std_dc_scale_420 160 28 (std_dc had2 had2 (chroma_coefs ((replicate 64 7)[0 := 5, 16 := - 2])) x y))
        ((replicate 64 7)[0 := 5, 16 := - 2]))"
proof -
  have "list_all (\<lambda>(x, y). in_coef_range 8 (chroma_coefs ((replicate 64 7)[0 := 5, 16 := - 2]) x y)
      \<and> in_coef_range 8 (std_dc_scale_420 160 28 (std_dc had2 had2 (chroma_coefs ((replicate 64 7)[0 := 5, 16 := - 2])) x y))) blocks_420"
    by code_simp
  then show ?thesis
    using chroma_dc_standard [of 8 "(replicate 64 7)[0 := 5, 16 := - 2]" "160 * 2 ^ (28 div 6 + 2)" 160 28] by simp
qed

end
