(* ===== verification/Spec2Isabelle.thy ===== *)
theory Spec2Isabelle
  imports Bit_Writer Nal_Units Tables Picture_Order Dpb_Gaps Ref_Context Output_Order Cabac_Refinement Cavlc_Roundtrip Cavlc_Safe
    Transform_Blocks Transform_DC
begin

text \<open>
  A verification of goh264, an H.264 decoder in Go that follows FFmpeg's.

  \<^bold>\<open>The program.\<close> Bytes come in as Annex B streams, as length-prefixed packets or with an avcC record.
  They are split into NAL units and freed of emulation prevention bytes (\<open>nal.go\<close>). A bit reader
  (\<open>bitreader.go\<close>, \<open>golomb.go\<close>) serves the parsers of the sequence and picture parameter sets (\<open>sps.go\<close>,
  \<open>pps.go\<close>) and of the slice header (\<open>slice.go\<close>). A frame is allocated for the parameter set
  (\<open>simple_decode.go\<close>); the decoded picture buffer (\<open>simple_dpb.go\<close>) derives the picture order count, fills
  gaps in \<open>frame_num\<close>, builds the reference lists of each slice, marks references after the picture is
  decoded, and puts out pictures in order. Between the two the macroblock layer decodes the slice data, with
  the variable-length codes of CAVLC or the arithmetic decoder of CABAC, predicts, transforms and deblocks. A
  writer (\<open>bitwriter.go\<close>) makes streams for the tests.

  \<^bold>\<open>How the code is represented.\<close> A method on a pointer receiver is a function from the state to a result
  and the state, \<open>('s, 'a) go\<close>: \<open>Inl e\<close> is a returned error, and a panic of the run time is the error
  \<open>Panic\<close>, which the safety theorems exclude. A struct is a record, its fields prefixed where names clash; a
  \<open>uintN\<close> or a bit pattern is a word of \<open>N\<close> bits, a signed value an \<open>int\<close> that \<open>i32\<close> brings back into its
  type wherever the code's arithmetic can leave it; a slice is a list, and an index out of its range a panic.
  A parser extends the record of the reader with what it parses, so that an operation of the reader applies
  to every parser's state as it is; the loops over the bits are reasoned about with the weakest preconditions
  of \<open>H264_Prelude\<close>. Allocation is assumed to succeed; a buffer is at most \<open>maxBitReaderByteLen\<close> bytes where
  the code checks this.

  \<^bold>\<open>Bits, NAL units, parameter sets, slice header.\<close>
  \<^item> \<open>H264_Prelude\<close>: errors (\<open>errors.go\<close>), \<open>int32\<close> arithmetic, the state-and-error computations, loops over
    lists, weakest preconditions and their rules; \<open>intcheck.go\<close> and \<open>intmath.go\<close>.
  \<^item> \<open>Bit_Reader\<close>: the reader and the Exp-Golomb readers. The locale \<open>reader_op\<close> is the contract of what a
    parser may call: a well-formed reader stays so, its position only grows, no panic. Every operation
    interprets it, and the parsers are proved against it. The bound checks have a gap, which is stated.
  \<^item> \<open>Bit_Writer\<close>: the writer, the relations \<open>writes\<close> and \<open>reads\<close> between an operation and the bits of its
    code, and from them that every syntax element written is read back; the loops that align the writer
    do not end on one full writer.
  \<^item> \<open>Nal_Units\<close>: emulation prevention, both framings, splitting, the guess between framings, avcC as a
    container. What is written is read back, and where it is not (a zero header byte), that is stated.
  \<^item> \<open>Tables\<close> (\<open>data.go\<close>): types, patterns, scans, quantisation; the scans are permutations.
  \<^item> \<open>Sps\<close>, \<open>Pps\<close>, \<open>Slice_Header\<close>: the parsers, each with the predicate of what a successful parse
    guarantees (the bounds the rest of the decoder relies on) on every input, and no panic on any, with the
    tables of parameter sets that any sequence of NAL units leaves (\<open>param_sets\<close>: sets replaced as they come,
    the recovery of a truncated SPS included); the dequantisation tables are the standard's products.

  \<^bold>\<open>The decoded picture buffer.\<close>
  \<^item> \<open>Frames\<close>: frames and their planes, the layout checks, views of one field, allocation and reuse.
  \<^item> \<open>Dpb\<close> and \<open>Dpb_Marking\<close>: the record of the buffer, an address-indexed store for its frames, the marking
    commands and the sliding window; an invariant (lists of bounded length over allocated frames, masks of one
    or both fields; numbers apart, where the pictures keep them so), the bound on references, and no panic, the
    array of long-term references being accessed with checks; the window refines a queue; and a second field
    that is lost when it releases the first.
  \<^item> \<open>Picture_Order\<close>, \<open>Dpb_Gaps\<close>: order counts, equal to the standard's for all three types, the round trip of type 0;
    gaps in \<open>frame_num\<close> and the end of their loop; snapshots and recovery.
  \<^item> \<open>Ref_Lists\<close>, \<open>Ref_Order\<close>, \<open>Ref_Context\<close>: the default lists, their order, the modification commands, the
    context with the implicit weights, equal with and without the buffers that are reused. The search in
    order of count is a \<open>partial_function\<close>: it ends for counts above the least \<open>int32\<close>, and not for that one.
  \<^item> \<open>Output_Order\<close>: the window of recent counts, the delay, draining and flushing the queue.

  \<^bold>\<open>CABAC.\<close> \<open>Cabac_Tables\<close>, \<open>Cabac_Engine\<close>, \<open>Cabac_Stream\<close>, \<open>Cabac_Refinement\<close> (\<open>cabac.go\<close>,
  \<open>cabac_tables.go\<close>): the engine as written, with its scaled register and the bytes read ahead, refines the
  standard's decoder (9.3.1.2, 9.3.3.2), whatever the alignment of the buffer and wherever the data ends.

  \<^bold>\<open>CAVLC.\<close> \<open>Cavlc_Codes\<close>, \<open>Cavlc_Levels\<close>, \<open>Cavlc_Standard\<close> (\<open>cavlc.go\<close>): the variable-length codes as
  tables, shown to be prefix codes; the table-driven reader of levels, shown to be the standard's (9.2.2.1) on
  every stream. \<open>Cavlc_Residual\<close>: the decoder of a residual block and the writers of one; \<open>Cavlc_Safe\<close>: the
  decoder on any stream; \<open>Cavlc_Roundtrip\<close>: the five writers brought to one form, and what they write decoded.

  \<^bold>\<open>Samples.\<close> \<open>Samples\<close>: a plane is a list of samples read and written by coordinates; what a kernel does to
  it is an overlay, new values on some coordinates with the rest as before. \<open>Transforms\<close> (\<open>idct.go\<close>): the
  inverse transforms for 8 bits and for high bit depth, and the loops over the blocks of a macroblock.
  \<open>Transform_Standard\<close>: the locale \<open>residual_kernel\<close> states what a one-dimensional transform must satisfy for
  the kernel to add the standard's residual, and the four transforms interpret it; \<open>Transform_Blocks\<close>: the
  loops with their shortcuts; \<open>Transform_DC\<close>: the transforms of the DC coefficients and their scaling.

  \<^bold>\<open>Bounds and fuel.\<close> No loop has fuel. Those over lists and counted bits are structural; the others are
  functions with a measure (\<open>SplitAnnexB_loop\<close>, \<open>refMods_loop\<close>, \<open>drain_loop\<close>); the three whose end depends on the
  values (\<open>zero_align_loop\<close>, \<open>gap_loop\<close>, \<open>addSorted_loop\<close>) are \<open>partial_function (option)\<close> with a theorem on
  when they return.

  \<^bold>\<open>Not modelled.\<close> The macroblock syntax over CABAC and CAVLC, the residuals over CABAC, the neighbour caches, motion vectors and
  direct modes, intra prediction, motion compensation, deblocking and reconstruction: their
  state is the planes and the caches of a whole picture. SEI messages carry side data. The public API
  (\<open>decoder.go\<close>), the loop over an access unit and the benchmark drive the parts above. The assembly has a
  Go counterpart for each routine.
\<close>

end
